(* ===== verification/Prelude.thy ===== *)
theory Prelude
  imports Main "HOL-Library.List_Lexorder" "HOL-Library.Char_ord"
    "HOL-Library.Product_Lexorder" "HOL-Library.Multiset"
begin

text \<open>
  Shared vocabulary of the development: the Python exceptions the tooling raises, the
  result type and its sequencing, insertion-ordered dictionaries, sorting, list indexing,
  and decimal printing. Every component theory imports this one.
\<close>

named_theorems result_simps \<open>unfolding and inversion of the result monad\<close>
named_theorems dict_simps \<open>laws of insertion-ordered dictionaries\<close>

section \<open>Exceptions and results\<close>

text \<open>
  A Python function that may raise returns \<open>Inl e\<close> for the exception and \<open>Inr v\<close> for the
  value. Each exception carries the message the source builds where the message is built from
  values of the model, and the offending value's key otherwise. \<open>CorpusError\<close> is
  declared by the corpus downloader as a subclass of \<open>ValueError\<close>; \<open>Skipped\<close> is the
  exception behind \<^verbatim>\<open>pytest.skip\<close>.
\<close>

datatype pyexc =
    TypeError string
  | ValueError string
  | KeyError string
  | IndexError string
  | AttributeError string
  | AssertionError string
  | RuntimeError string
  | OverflowError string
  | FileNotFoundError string
  | FileExistsError string
  | OSError string
  | JSONDecodeError string
  | CalledProcessError string
  | CorpusError string
  | SystemExit string
  | UsageError string
  | Skipped string

text \<open>\<^verbatim>\<open>str(error)\<close>.\<close>

fun exc_message :: "pyexc \<Rightarrow> string" where
  "exc_message (TypeError m) = m"
| "exc_message (ValueError m) = m"
| "exc_message (KeyError m) = m"
| "exc_message (IndexError m) = m"
| "exc_message (AttributeError m) = m"
| "exc_message (AssertionError m) = m"
| "exc_message (RuntimeError m) = m"
| "exc_message (OverflowError m) = m"
| "exc_message (FileNotFoundError m) = m"
| "exc_message (FileExistsError m) = m"
| "exc_message (OSError m) = m"
| "exc_message (JSONDecodeError m) = m"
| "exc_message (CalledProcessError m) = m"
| "exc_message (CorpusError m) = m"
| "exc_message (SystemExit m) = m"
| "exc_message (UsageError m) = m"
| "exc_message (Skipped m) = m"

text \<open>The exceptions that \<^verbatim>\<open>except ValueError\<close> and \<^verbatim>\<open>except OSError\<close> catch, subclasses included.\<close>

fun is_value_error :: "pyexc \<Rightarrow> bool" where
  "is_value_error (ValueError _) = True"
| "is_value_error (JSONDecodeError _) = True"
| "is_value_error (CorpusError _) = True"
| "is_value_error _ = False"

fun is_os_error :: "pyexc \<Rightarrow> bool" where
  "is_os_error (OSError _) = True"
| "is_os_error (FileNotFoundError _) = True"
| "is_os_error (FileExistsError _) = True"
| "is_os_error _ = False"

type_synonym 'a result = "pyexc + 'a"

definition rbind :: "('e + 'a) \<Rightarrow> ('a \<Rightarrow> 'e + 'b) \<Rightarrow> 'e + 'b" where
  "rbind m f = (case m of Inl e \<Rightarrow> Inl e | Inr x \<Rightarrow> f x)"

lemma rbind_simps [simp]:
  "rbind (Inl e) f = Inl e"
  "rbind (Inr x) f = f x"
  by (simp_all add: rbind_def)

lemma rbind_Inr_iff [result_simps]:
  "rbind m f = Inr y \<longleftrightarrow> (\<exists>x. m = Inr x \<and> f x = Inr y)"
  by (cases m) auto

lemma rbind_Inl_iff [result_simps]:
  "rbind m f = Inl e \<longleftrightarrow> m = Inl e \<or> (\<exists>x. m = Inr x \<and> f x = Inl e)"
  by (cases m) auto

lemma rbind_Inr_right [simp]: "rbind m Inr = m"
  by (cases m) auto

lemma rbind_assoc: "rbind (rbind m f) g = rbind m (\<lambda>x. rbind (f x) g)"
  by (cases m) auto

lemma rbind_cong [fundef_cong]:
  "m = m' \<Longrightarrow> (\<And>x. m' = Inr x \<Longrightarrow> f x = f' x) \<Longrightarrow> rbind m f = rbind m' f'"
  by (cases m') auto

text \<open>A loop that may raise: a comprehension that collects, and a fold over a state.\<close>

fun rmap :: "('a \<Rightarrow> 'e + 'b) \<Rightarrow> 'a list \<Rightarrow> 'e + 'b list" where
  "rmap f [] = Inr []"
| "rmap f (x # xs) = rbind (f x) (\<lambda>y. rbind (rmap f xs) (\<lambda>ys. Inr (y # ys)))"

fun rfold :: "('a \<Rightarrow> 's \<Rightarrow> 'e + 's) \<Rightarrow> 'a list \<Rightarrow> 's \<Rightarrow> 'e + 's" where
  "rfold f [] s = Inr s"
| "rfold f (x # xs) s = rbind (f x s) (\<lambda>s'. rfold f xs s')"

lemma rmap_cong [fundef_cong]:
  "xs = ys \<Longrightarrow> (\<And>x. x \<in> set ys \<Longrightarrow> f x = g x) \<Longrightarrow> rmap f xs = rmap g ys"
  by (induction ys arbitrary: xs) auto

lemma rfold_cong [fundef_cong]:
  "xs = ys \<Longrightarrow> s = t \<Longrightarrow> (\<And>x u. x \<in> set ys \<Longrightarrow> f x u = g x u) \<Longrightarrow> rfold f xs s = rfold g ys t"
proof (induction ys arbitrary: xs s t)
  case (Cons y ys)
  then show ?case by (cases "g y t") auto
qed simp

lemma rmap_Inr_iff [result_simps]:
  "rmap f xs = Inr ys \<longleftrightarrow> list_all2 (\<lambda>x y. f x = Inr y) xs ys"
  by (induction xs arbitrary: ys) (auto simp: result_simps list_all2_Cons1)

lemma list_all2_leftD: "list_all2 P xs ys \<Longrightarrow> x \<in> set xs \<Longrightarrow> \<exists>y\<in>set ys. P x y"
  by (induction rule: list_all2_induct) auto

lemma list_all2_rightD: "list_all2 P xs ys \<Longrightarrow> y \<in> set ys \<Longrightarrow> \<exists>x\<in>set xs. P x y"
  by (induction rule: list_all2_induct) auto

lemma rmap_all_Inr: "\<forall>x\<in>set xs. \<exists>y. f x = Inr y \<Longrightarrow> \<exists>ys. rmap f xs = Inr ys"
  by (induction xs) fastforce+

lemma rmap_total: "(\<And>x. x \<in> set xs \<Longrightarrow> f x = Inr (g x)) \<Longrightarrow> rmap f xs = Inr (map g xs)"
  by (induction xs) auto

lemma rmap_Inl: "rmap f xs = Inl e \<Longrightarrow> \<exists>x\<in>set xs. f x = Inl e"
  by (induction xs) (auto simp: result_simps)

lemma rmap_memberD: "rmap f xs = Inr ys \<Longrightarrow> x \<in> set xs \<Longrightarrow> \<exists>y\<in>set ys. f x = Inr y"
  by (induction xs arbitrary: ys) (auto simp: result_simps)

lemma rmap_set: "rmap f xs = Inr ys \<Longrightarrow> set ys = {y. \<exists>x\<in>set xs. f x = Inr y}"
  by (induction xs arbitrary: ys) (auto simp: result_simps)

lemma rmap_Inr_ex: "(\<exists>ys. rmap f xs = Inr ys) \<longleftrightarrow> (\<forall>x\<in>set xs. \<exists>y. f x = Inr y)"
  using rmap_all_Inr [of xs f] rmap_memberD [of f xs] by blast

lemma rmap_length: "rmap f xs = Inr ys \<Longrightarrow> length ys = length xs"
  by (auto simp: result_simps dest: list_all2_lengthD)

lemma rmap_map_eq: "rmap f (map g xs) = rmap (\<lambda>x. f (g x)) xs"
  by (induction xs) auto

lemma rmap_append:
  "rmap f xs = Inr as \<Longrightarrow> rmap f ys = Inr bs \<Longrightarrow> rmap f (xs @ ys) = Inr (as @ bs)"
  by (simp add: rmap_Inr_iff list_all2_appendI)

lemma rfold_append: "rfold f (xs @ ys) s = rbind (rfold f xs s) (rfold f ys)"
proof (induction xs arbitrary: s)
  case (Cons x xs)
  then show ?case by (cases "f x s") auto
qed simp

text \<open>
  The invariant rule of a raising loop: a predicate that every successful iteration keeps
  holds of the final state.
\<close>

lemma rfold_invariant:
  assumes "rfold f xs s = Inr t" and "P s"
    and "\<And>x u v. x \<in> set xs \<Longrightarrow> P u \<Longrightarrow> f x u = Inr v \<Longrightarrow> P v"
  shows "P t"
  using assms by (induction xs arbitrary: s) (auto simp: result_simps)

lemma rfold_succeeds:
  assumes "P s" and "\<And>x u. x \<in> set xs \<Longrightarrow> P u \<Longrightarrow> \<exists>v. f x u = Inr v \<and> P v"
  shows "\<exists>t. rfold f xs s = Inr t \<and> P t"
  using assms
proof (induction xs arbitrary: s)
  case (Cons x xs)
  from Cons.prems obtain v where "f x s = Inr v" and "P v" by auto
  with Cons show ?case by auto
qed simp

text \<open>
  A loop over a state that only grows: what one iteration achieves, later iterations keep, so
  after the loop it holds for every element.
\<close>

locale growing_state =
  fixes le :: "'s \<Rightarrow> 's \<Rightarrow> bool"
  assumes le_refl: "le s s"
    and le_trans: "le s t \<Longrightarrow> le t u \<Longrightarrow> le s u"
begin

lemma rfold_achieves:
  assumes "P s"
    and "\<And>x u. x \<in> set xs \<Longrightarrow> P u \<Longrightarrow> \<exists>v. f x u = Inr v \<and> P v \<and> Q x v \<and> le u v"
    and "\<And>x u v. Q x u \<Longrightarrow> le u v \<Longrightarrow> Q x v"
  shows "\<exists>t. rfold f xs s = Inr t \<and> P t \<and> (\<forall>x\<in>set xs. Q x t) \<and> le s t"
  using assms(1,2)
proof (induction xs arbitrary: s)
  case (Cons x xs)
  then obtain v where v: "f x s = Inr v" "P v" "Q x v" "le s v" by (metis list.set_intros(1))
  with Cons obtain t where "rfold f xs v = Inr t" "P t" "\<forall>y\<in>set xs. Q y t" "le v t"
    by (metis list.set_intros(2))
  with v assms(3) le_trans show ?case by auto
qed (simp add: le_refl)

end

text \<open>The same with the processed prefix in view.\<close>

lemma rfold_prefix_invariant:
  assumes "rfold f xs s = Inr t" and "P [] s"
    and "\<And>ys x u v. P ys u \<Longrightarrow> x \<in> set xs \<Longrightarrow> f x u = Inr v \<Longrightarrow> P (ys @ [x]) v"
  shows "P xs t"
proof -
  have "P (ys @ xs) t" if "rfold f xs u = Inr t" "P ys u"
      "\<And>ys x u v. P ys u \<Longrightarrow> x \<in> set xs \<Longrightarrow> f x u = Inr v \<Longrightarrow> P (ys @ [x]) v" for ys u
    using that
  proof (induction xs arbitrary: ys u)
    case (Cons x xs)
    then obtain v where "f x u = Inr v" and "rfold f xs v = Inr t" by (auto simp: result_simps)
    with Cons.prems have "P (ys @ [x]) v" by auto
    with Cons.IH [of v "ys @ [x]"] \<open>rfold f xs v = Inr t\<close> Cons.prems(3) show ?case by simp
  qed simp
  from this [of s "[]"] assms show ?thesis by simp
qed

text \<open>
  \<open>except_as\<close> is \<^verbatim>\<open>try: ... except pred: raise handler\<close>; other exceptions pass through.
\<close>

definition except_as :: "('e \<Rightarrow> bool) \<Rightarrow> ('e \<Rightarrow> 'e) \<Rightarrow> ('e + 'a) \<Rightarrow> 'e + 'a" where
  "except_as p h m = (case m of Inl e \<Rightarrow> Inl (if p e then h e else e) | Inr x \<Rightarrow> Inr x)"

lemma except_as_Inr_iff [result_simps]: "except_as p h m = Inr x \<longleftrightarrow> m = Inr x"
  by (auto simp: except_as_def split: sum.splits)

definition raise_if :: "bool \<Rightarrow> 'e \<Rightarrow> ('e + 'a) \<Rightarrow> 'e + 'a" where
  "raise_if b e m = (if b then Inl e else m)"

lemma raise_if_Inr_iff [result_simps]: "raise_if b e m = Inr x \<longleftrightarrow> \<not> b \<and> m = Inr x"
  by (simp add: raise_if_def)

lemma raise_if_simps [simp]:
  "raise_if True e m = Inl e"
  "raise_if False e m = m"
  by (simp_all add: raise_if_def)

lemma raise_if_cong [fundef_cong]:
  "b = b' \<Longrightarrow> e = e' \<Longrightarrow> (\<not> b' \<Longrightarrow> m = m') \<Longrightarrow> raise_if b e m = raise_if b' e' m'"
  by (simp add: raise_if_def)

section \<open>Lists as Python uses them\<close>

text \<open>\<^verbatim>\<open>xs.index(x)\<close>: the position of the first occurrence, \<open>ValueError\<close> without one.\<close>

fun py_index :: "'a list \<Rightarrow> 'a \<Rightarrow> nat result" where
  "py_index [] x = Inl (ValueError ''not in list'')"
| "py_index (y # ys) x = (if y = x then Inr 0 else rbind (py_index ys x) (\<lambda>n. Inr (Suc n)))"

lemma py_index_Inr: "py_index xs x = Inr n \<Longrightarrow> n < length xs \<and> xs ! n = x"
  by (induction xs arbitrary: n) (auto simp: result_simps split: if_splits)

lemma py_index_mem: "x \<in> set xs \<longleftrightarrow> (\<exists>n. py_index xs x = Inr n)"
  by (induction xs) (auto simp: result_simps)

lemma py_index_inject: "py_index xs x = Inr n \<Longrightarrow> py_index xs y = Inr n \<Longrightarrow> x = y"
  using py_index_Inr by metis

lemma py_index_nth: "distinct xs \<Longrightarrow> n < length xs \<Longrightarrow> py_index xs (xs ! n) = Inr n"
  by (induction xs arbitrary: n) (auto simp: nth_Cons split: nat.splits)

text \<open>\<^verbatim>\<open>xs[0]\<close> and \<^verbatim>\<open>xs[-1]\<close>, which raise on an empty list.\<close>

definition py_first :: "'a list \<Rightarrow> 'a result" where
  "py_first xs = (case xs of [] \<Rightarrow> Inl (IndexError ''list index out of range'') | x # _ \<Rightarrow> Inr x)"

definition py_last :: "'a list \<Rightarrow> 'a result" where
  "py_last xs = (if xs = [] then Inl (IndexError ''list index out of range'') else Inr (last xs))"

text \<open>\<^verbatim>\<open>xs[-n:]\<close> for a positive \<open>n\<close>: the last \<open>n\<close> elements, or all when there are fewer.\<close>

definition take_last :: "nat \<Rightarrow> 'a list \<Rightarrow> 'a list" where
  "take_last n xs = drop (length xs - n) xs"

lemma length_take_last: "length (take_last n xs) = min n (length xs)"
  by (auto simp: take_last_def)

lemma set_take_last: "set (take_last n xs) \<subseteq> set xs"
  by (auto simp: take_last_def dest: in_set_dropD)

text \<open>\<^verbatim>\<open>min(xs, key=k)\<close>: the first element whose key is least; the key may raise.\<close>

fun min_by :: "('a \<Rightarrow> 'k::linorder) \<Rightarrow> 'a \<Rightarrow> 'a list \<Rightarrow> 'a" where
  "min_by k x [] = x"
| "min_by k x (y # ys) = (if k y < k x then min_by k y ys else min_by k x ys)"

definition py_min_key :: "('a \<Rightarrow> 'k::linorder result) \<Rightarrow> 'a list \<Rightarrow> 'a result" where
  "py_min_key k xs =
     rbind (rmap k xs) (\<lambda>ks.
       (case zip ks xs of
          [] \<Rightarrow> Inl (ValueError ''min() arg is an empty sequence'')
        | p # ps \<Rightarrow> Inr (snd (min_by fst p ps))))"

lemma min_by_mem: "min_by k x xs \<in> set (x # xs)"
  by (induction xs arbitrary: x) (auto split: if_splits)

lemma min_by_le: "y \<in> set (x # xs) \<Longrightarrow> k (min_by k x xs) \<le> k y"
proof (induction xs arbitrary: x y)
  case (Cons z zs)
  have z: "k (min_by k z zs) \<le> k z" and x: "k (min_by k x zs) \<le> k x"
    using Cons.IH by auto
  show ?case
  proof (cases "k z < k x")
    case True
    with z have "k (min_by k z zs) \<le> k x" by simp
    with z Cons True show ?thesis by auto
  next
    case False
    with x have "k (min_by k x zs) \<le> k z" by simp
    with x Cons False show ?thesis by auto
  qed
qed simp

lemma py_min_key_E:
  assumes "py_min_key k xs = Inr x"
  obtains ks p ps where "rmap k xs = Inr ks" and "zip ks xs = p # ps"
    and "x = snd (min_by fst p ps)"
proof -
  from assms obtain ks where "rmap k xs = Inr ks"
    and "(case zip ks xs of [] \<Rightarrow> Inl (ValueError ''min() arg is an empty sequence'')
            | p # ps \<Rightarrow> Inr (snd (min_by fst p ps))) = Inr x"
    unfolding py_min_key_def rbind_Inr_iff by blast
  then show thesis using that by (cases "zip ks xs") (simp_all only: list.case sum.inject, blast+)
qed

lemma py_min_key_mem:
  assumes "py_min_key k xs = Inr x"
  shows "x \<in> set xs"
proof -
  from assms obtain ks p ps where "rmap k xs = Inr ks" and "zip ks xs = p # ps"
    and "x = snd (min_by fst p ps)"
    by (rule py_min_key_E)
  then have "x \<in> snd ` set (zip ks xs)"
    using min_by_mem [of fst p ps] by force
  then show ?thesis by (auto dest: set_zip_rightD)
qed

lemma py_min_key_le:
  assumes "py_min_key k xs = Inr x" and "y \<in> set xs"
  shows "\<exists>a b. k x = Inr a \<and> k y = Inr b \<and> a \<le> b"
proof -
  from assms(1) obtain ks p ps where ks: "rmap k xs = Inr ks" and z: "zip ks xs = p # ps"
    and x: "x = snd (min_by fst p ps)"
    by (rule py_min_key_E)
  let ?m = "min_by fst p ps"
  have keyed: "k (snd q) = Inr (fst q)" if "q \<in> set (zip ks xs)" for q
    using ks that by (auto simp: result_simps list_all2_iff in_set_zip)
  have m: "?m \<in> set (zip ks xs)" using min_by_mem [of fst p ps] z by simp
  from ks assms(2) obtain b where "(b, y) \<in> set (zip ks xs)"
    by (metis in_set_impl_in_set_zip2 rmap_length)
  moreover from this have "fst ?m \<le> fst (b, y)" using z min_by_le [of "(b, y)" p ps fst] by simp
  ultimately show ?thesis using keyed [OF m] keyed [of "(b, y)"] x by auto
qed

lemma py_min_key_total:
  assumes "xs \<noteq> []" and "\<forall>x\<in>set xs. \<exists>a. k x = Inr a"
  shows "\<exists>x. py_min_key k xs = Inr x"
proof -
  from rmap_all_Inr [OF assms(2)] obtain ks where ks: "rmap k xs = Inr ks" ..
  with assms(1) have "zip ks xs \<noteq> []" by (metis length_0_conv list.size(3) rmap_length zip_eq_Nil_iff)
  with ks show ?thesis by (auto simp: py_min_key_def split: list.splits)
qed

text \<open>
  \<^verbatim>\<open>sorted(xs, key=k)\<close>: stable, and the key of every element is computed before the sort, so
  a key that raises leaves the list unsorted.
\<close>

definition py_sort_key :: "('a \<Rightarrow> 'k::linorder result) \<Rightarrow> 'a list \<Rightarrow> 'a list result" where
  "py_sort_key k xs = rbind (rmap k xs) (\<lambda>ks. Inr (map snd (sort_key fst (zip ks xs))))"

lemma py_sort_key_Inr:
  assumes "py_sort_key k xs = Inr ys"
  shows "mset ys = mset xs"
    and "\<exists>ks. sorted ks \<and> list_all2 (\<lambda>y n. k y = Inr n) ys ks"
proof -
  from assms obtain ks where ks: "rmap k xs = Inr ks"
    and ys: "ys = map snd (sort_key fst (zip ks xs))"
    by (auto simp: py_sort_key_def result_simps)
  have len: "length ks = length xs" using rmap_length [OF ks] .
  have "mset ys = image_mset snd (mset (zip ks xs))" by (simp add: ys)
  also have "\<dots> = mset (map snd (zip ks xs))" by (metis mset_map)
  finally show "mset ys = mset xs" using len by simp
  have keyed: "k (snd q) = Inr (fst q)" if "q \<in> set (zip ks xs)" for q
    using ks that by (auto simp: result_simps list_all2_iff in_set_zip)
  let ?zs = "sort_key fst (zip ks xs)"
  have "sorted (map fst ?zs)" by simp
  moreover have "list_all2 (\<lambda>y n. k y = Inr n) (map snd qs) (map fst qs)"
    if "\<forall>q\<in>set qs. k (snd q) = Inr (fst q)" for qs
    using that by (induction qs) auto
  then have "list_all2 (\<lambda>y n. k y = Inr n) (map snd ?zs) (map fst ?zs)"
    using keyed by (metis set_sort)
  ultimately show "\<exists>ks. sorted ks \<and> list_all2 (\<lambda>y n. k y = Inr n) ys ks" using ys by blast
qed

lemma py_sort_key_total: "\<forall>x\<in>set xs. \<exists>n. k x = Inr n \<Longrightarrow> \<exists>ys. py_sort_key k xs = Inr ys"
  using rmap_all_Inr [of xs k] by (auto simp: py_sort_key_def)

section \<open>Insertion-ordered dictionaries\<close>

text \<open>
  A Python dictionary keeps insertion order, and updating a present key keeps its position.
  It is an association list with distinct keys; the operations below preserve distinctness.
\<close>

type_synonym ('k, 'v) dict = "('k \<times> 'v) list"

definition dict_wf :: "('k, 'v) dict \<Rightarrow> bool" where
  "dict_wf d = distinct (map fst d)"

fun dict_set :: "('k, 'v) dict \<Rightarrow> 'k \<Rightarrow> 'v \<Rightarrow> ('k, 'v) dict" where
  "dict_set [] k v = [(k, v)]"
| "dict_set ((k', v') # d) k v =
     (if k' = k then (k', v) # d else (k', v') # dict_set d k v)"

abbreviation dict_get :: "('k, 'v) dict \<Rightarrow> 'k \<Rightarrow> 'v option" where
  "dict_get \<equiv> map_of"

abbreviation dict_keys :: "('k, 'v) dict \<Rightarrow> 'k list" where
  "dict_keys d \<equiv> map fst d"

abbreviation dict_values :: "('k, 'v) dict \<Rightarrow> 'v list" where
  "dict_values d \<equiv> map snd d"

text \<open>\<^verbatim>\<open>d[k]\<close>, with the key shown by \<open>show\<close> in the \<open>KeyError\<close>.\<close>

definition dict_index :: "('k \<Rightarrow> string) \<Rightarrow> ('k, 'v) dict \<Rightarrow> 'k \<Rightarrow> 'v result" where
  "dict_index show_key d k =
     (case dict_get d k of None \<Rightarrow> Inl (KeyError (show_key k)) | Some v \<Rightarrow> Inr v)"

text \<open>\<^verbatim>\<open>d.setdefault(k, v)\<close>: the dictionary after the call; the value returned is the one bound.\<close>

definition dict_setdefault :: "('k, 'v) dict \<Rightarrow> 'k \<Rightarrow> 'v \<Rightarrow> ('k, 'v) dict" where
  "dict_setdefault d k v = (case dict_get d k of None \<Rightarrow> d @ [(k, v)] | Some _ \<Rightarrow> d)"

text \<open>\<^verbatim>\<open>d[k].append(x)\<close> on a \<^verbatim>\<open>defaultdict(list)\<close>.\<close>

definition dict_append :: "('k, 'v list) dict \<Rightarrow> 'k \<Rightarrow> 'v \<Rightarrow> ('k, 'v list) dict" where
  "dict_append d k x = dict_set d k ((case dict_get d k of None \<Rightarrow> [] | Some xs \<Rightarrow> xs) @ [x])"

lemma dict_set_get [dict_simps]: "dict_get (dict_set d k v) = (dict_get d)(k \<mapsto> v)"
  by (induction d) auto

lemma dict_set_keys [dict_simps]:
  "dict_keys (dict_set d k v) = (if k \<in> set (dict_keys d) then dict_keys d else dict_keys d @ [k])"
  by (induction d) (force split: if_splits)+

lemma dict_set_wf [dict_simps]: "dict_wf d \<Longrightarrow> dict_wf (dict_set d k v)"
  by (auto simp: dict_wf_def dict_set_keys)

lemma dict_get_keys: "dict_get d k = None \<longleftrightarrow> k \<notin> set (dict_keys d)"
  by (simp add: map_of_eq_None_iff)

lemma dict_setdefault_get [dict_simps]:
  "dict_get (dict_setdefault d k v) k' =
     (if k' = k \<and> dict_get d k = None then Some v else dict_get d k')"
  by (auto simp: dict_setdefault_def map_add_def split: option.splits)

lemma dict_setdefault_wf [dict_simps]: "dict_wf d \<Longrightarrow> dict_wf (dict_setdefault d k v)"
  by (auto simp: dict_wf_def dict_setdefault_def map_of_eq_None_iff split: option.splits)

lemma dict_wf_values:
  "dict_wf d \<Longrightarrow> v \<in> set (dict_values d) \<longleftrightarrow> (\<exists>k. dict_get d k = Some v)"
  by (auto simp: dict_wf_def map_of_eq_Some_iff image_iff) force+

lemma dict_index_Inr_iff [result_simps]: "dict_index s d k = Inr v \<longleftrightarrow> dict_get d k = Some v"
  by (auto simp: dict_index_def split: option.splits)

lemma dict_append_get [dict_simps]:
  "dict_get (dict_append d k x) k' =
     (if k' = k then Some ((case dict_get d k of None \<Rightarrow> [] | Some xs \<Rightarrow> xs) @ [x])
      else dict_get d k')"
  by (simp add: dict_append_def dict_set_get)

lemma dict_append_wf [dict_simps]: "dict_wf d \<Longrightarrow> dict_wf (dict_append d k x)"
  by (simp add: dict_append_def dict_set_wf)

text \<open>Grouping the elements of a list by a key, in a \<^verbatim>\<open>defaultdict(list)\<close>.\<close>

definition group_by :: "('s \<Rightarrow> 'k) \<Rightarrow> 's list \<Rightarrow> ('k, 's list) dict" where
  "group_by key ss = fold (\<lambda>s d. dict_append d (key s) s) ss []"

lemma group_by_snoc: "group_by key (ss @ [s]) = dict_append (group_by key ss) (key s) s"
  by (simp add: group_by_def)

lemma group_by_wf: "dict_wf (group_by key ss)"
  by (induction ss rule: rev_induct)
     (simp_all add: group_by_snoc dict_simps, simp add: group_by_def dict_wf_def)

lemma group_by_get:
  "dict_get (group_by key ss) k =
     (let g = filter (\<lambda>s. key s = k) ss in if g = [] then None else Some g)"
proof (induction ss rule: rev_induct)
  case (snoc s ss)
  then show ?case by (auto simp: group_by_snoc dict_simps Let_def split: if_splits)
qed (simp add: group_by_def)

lemma group_by_mem:
  assumes "(k, g) \<in> set (group_by key ss)"
  shows "g = filter (\<lambda>s. key s = k) ss" and "g \<noteq> []"
proof -
  from assms have "dict_get (group_by key ss) k = Some g"
    using group_by_wf [of key ss] by (intro map_of_is_SomeI) (simp_all add: dict_wf_def)
  then show "g = filter (\<lambda>s. key s = k) ss" and "g \<noteq> []"
    by (auto simp: group_by_get Let_def split: if_splits)
qed

lemma group_by_cover: "s \<in> set ss \<Longrightarrow> (key s, filter (\<lambda>t. key t = key s) ss) \<in> set (group_by key ss)"
  by (rule map_of_SomeD) (auto simp: group_by_get Let_def filter_empty_conv)

lemma group_by_union: "(\<Union>g\<in>set (group_by key ss). set (snd g)) = set ss"
proof
  show "(\<Union>g\<in>set (group_by key ss). set (snd g)) \<subseteq> set ss"
    using group_by_mem(1) [of _ _ key ss] by fastforce
  show "set ss \<subseteq> (\<Union>g\<in>set (group_by key ss). set (snd g))"
  proof
    fix s assume "s \<in> set ss"
    with group_by_cover [OF this, of key] show "s \<in> (\<Union>g\<in>set (group_by key ss). set (snd g))"
      by (intro UN_I) auto
  qed
qed

text \<open>A pass over the groups that computes \<open>F\<close> for every member computes it for every element.\<close>

lemma group_by_pass:
  assumes "rmap f (group_by key ss) = Inr ps"
    and "\<And>k g p. (k, g) \<in> set (group_by key ss) \<Longrightarrow> f (k, g) = Inr p \<Longrightarrow> set p = F ` set g"
  shows "set (concat ps) = F ` set ss"
proof -
  from assms have "list_all2 (\<lambda>g p. set p = F ` set (snd g)) (group_by key ss) ps"
    by (auto simp: rmap_Inr_iff elim!: list.rel_mono_strong)
  then have "set (concat ps) = (\<Union>g\<in>set (group_by key ss). F ` set (snd g))"
    by (induction rule: list_all2_induct) auto
  also have "\<dots> = F ` set ss" using group_by_union [of key ss] by blast
  finally show ?thesis .
qed

text \<open>Dictionaries with the same keys in the same order.\<close>

lemma list_all2_dict_get:
  "list_all2 (\<lambda>a b. fst a = fst b \<and> P (snd a) (snd b)) d e \<Longrightarrow>
   rel_option P (dict_get d k) (dict_get e k)"
  by (induction rule: list_all2_induct) auto

lemma list_all2_dict_keys:
  "list_all2 (\<lambda>a b. fst a = fst b \<and> P (snd a) (snd b)) d e \<Longrightarrow> dict_keys e = dict_keys d"
  by (induction rule: list_all2_induct) auto

text \<open>A set built by additions, in insertion order and without duplicates.\<close>

definition set_add :: "'a \<Rightarrow> 'a list \<Rightarrow> 'a list" where
  "set_add x xs = (if x \<in> set xs then xs else xs @ [x])"

lemma set_set_add [simp]: "set (set_add x xs) = insert x (set xs)"
  by (auto simp: set_add_def)

lemma distinct_set_add [simp]: "distinct (set_add x xs) = distinct xs"
  by (auto simp: set_add_def)

section \<open>The interface of a keyed container\<close>

text \<open>
  What the clients of a dictionary rely on: a lookup after a store, and that the stored
  keys are the domain. The lemmas on building a dictionary from a sequence of stores are
  proved once here and used for the association-list dictionaries of the model.
\<close>

locale keyed_store =
  fixes get :: "'d \<Rightarrow> 'k \<Rightarrow> 'v option"
    and put :: "'d \<Rightarrow> 'k \<Rightarrow> 'v \<Rightarrow> 'd"
    and wf :: "'d \<Rightarrow> bool"
  assumes get_put: "wf d \<Longrightarrow> get (put d k v) = (get d)(k \<mapsto> v)"
    and wf_put: "wf d \<Longrightarrow> wf (put d k v)"
begin

definition put_all :: "'d \<Rightarrow> ('k \<times> 'v) list \<Rightarrow> 'd" where
  "put_all d kvs = fold (\<lambda>(k, v) d. put d k v) kvs d"

lemma wf_put_all: "wf d \<Longrightarrow> wf (put_all d kvs)"
  by (induction kvs arbitrary: d) (auto simp: put_all_def wf_put)

lemma get_put_all: "wf d \<Longrightarrow> get (put_all d kvs) k =
    (case map_of (rev kvs) k of None \<Rightarrow> get d k | Some v \<Rightarrow> Some v)"
proof (induction kvs arbitrary: d)
  case (Cons kv kvs)
  obtain k' v' where kv: "kv = (k', v')" by force
  have "get (put_all d (kv # kvs)) k = get (put_all (put d k' v') kvs) k"
    by (simp add: put_all_def kv)
  also have "\<dots> = (case map_of (rev kvs) k of None \<Rightarrow> get (put d k' v') k | Some v \<Rightarrow> Some v)"
    using Cons wf_put by blast
  finally show ?case using Cons.prems
    by (auto simp: get_put kv map_add_def split: option.splits)
qed (simp add: put_all_def)

lemma put_all_dom: "wf d \<Longrightarrow> get (put_all d kvs) k \<noteq> None \<longleftrightarrow> get d k \<noteq> None \<or> k \<in> fst ` set kvs"
  by (auto simp: get_put_all map_of_eq_None_iff split: option.splits)
     (metis image_eqI map_of_SomeD fst_conv set_rev)

end

interpretation py_dict: keyed_store dict_get dict_set dict_wf
  by unfold_locales (simp_all add: dict_simps)

section \<open>Decimal printing\<close>

definition digit_char :: "nat \<Rightarrow> char" where
  "digit_char d = char_of (48 + d)"

text \<open>\<^verbatim>\<open>str(n)\<close> of a non-negative integer.\<close>

fun show_nat :: "nat \<Rightarrow> string" where
  "show_nat n = (if n < 10 then [digit_char n] else show_nat (n div 10) @ [digit_char (n mod 10)])"

declare show_nat.simps [simp del]

definition show_int :: "int \<Rightarrow> string" where
  "show_int i = (if i < 0 then CHR ''-'' # show_nat (nat (- i)) else show_nat (nat i))"

definition is_digit :: "char \<Rightarrow> bool" where
  "is_digit c = (48 \<le> (of_char c :: nat) \<and> (of_char c :: nat) \<le> 57)"

definition digit_value :: "char \<Rightarrow> nat" where
  "digit_value c = of_char c - 48"

text \<open>Reading decimal digits back.\<close>

definition read_digits :: "string \<Rightarrow> nat" where
  "read_digits s = foldl (\<lambda>n c. 10 * n + digit_value c) 0 s"

lemma digit_char_props [simp]:
  assumes "d < 10"
  shows "is_digit (digit_char d)" and "digit_value (digit_char d) = d"
  using assms by (simp_all add: digit_char_def is_digit_def digit_value_def)

lemma show_nat_digits: "\<forall>c\<in>set (show_nat n). is_digit c"
proof (induction n rule: show_nat.induct)
  case (1 n)
  then show ?case by (subst show_nat.simps) auto
qed

lemma show_nat_nonempty: "show_nat n \<noteq> []"
  by (subst show_nat.simps) simp

lemma read_show_nat: "read_digits (show_nat n) = n"
proof (induction n rule: show_nat.induct)
  case (1 n)
  then show ?case by (subst show_nat.simps) (auto simp: read_digits_def)
qed

lemma show_nat_inject: "show_nat m = show_nat n \<longleftrightarrow> m = n"
  by (metis read_show_nat)

end
