(* ===== verification/Py_Strings.thy ===== *)
theory Py_Strings
  imports Prelude "HOL-Library.Sublist"
begin

text \<open>
  The string methods the tooling uses: stripping, splitting, joining, prefix and suffix
  tests, replacement, case mapping and padding. A string is a list of characters with
  code points below 256, so the Latin-1 part of Python's tables is written out; case
  mapping is the ASCII one, which is all the callers need (fork names, hex digits).
\<close>

named_theorems str_simps \<open>computation rules of the string methods\<close>

section \<open>Character classes\<close>

abbreviation ord :: "char \<Rightarrow> nat" where
  "ord c \<equiv> of_char c"

abbreviation newline :: char where
  "newline \<equiv> CHR 0x0A"

text \<open>\<^verbatim>\<open>str.isspace\<close> on code points below 256.\<close>

definition is_space :: "char \<Rightarrow> bool" where
  "is_space c = (c = CHR '' '' \<or> 9 \<le> ord c \<and> ord c \<le> 13 \<or> 28 \<le> ord c \<and> ord c \<le> 31
     \<or> ord c = 133 \<or> ord c = 160)"

text \<open>Line boundaries of \<^verbatim>\<open>str.splitlines\<close>; a carriage return and a newline count once.\<close>

definition is_linebreak :: "char \<Rightarrow> bool" where
  "is_linebreak c = (10 \<le> ord c \<and> ord c \<le> 13 \<or> 28 \<le> ord c \<and> ord c \<le> 30 \<or> ord c = 133)"

text \<open>\<^verbatim>\<open>bytes.splitlines\<close> knows the newline and the carriage return only.\<close>

definition is_bytes_linebreak :: "char \<Rightarrow> bool" where
  "is_bytes_linebreak c = (ord c = 10 \<or> ord c = 13)"

definition is_bytes_space :: "char \<Rightarrow> bool" where
  "is_bytes_space c = (c = CHR '' '' \<or> 9 \<le> ord c \<and> ord c \<le> 13)"

definition is_lower :: "char \<Rightarrow> bool" where
  "is_lower c = (97 \<le> ord c \<and> ord c \<le> 122)"

definition is_upper :: "char \<Rightarrow> bool" where
  "is_upper c = (65 \<le> ord c \<and> ord c \<le> 90)"

definition is_alnum :: "char \<Rightarrow> bool" where
  "is_alnum c = (is_lower c \<or> is_upper c \<or> is_digit c)"

definition to_lower :: "char \<Rightarrow> char" where
  "to_lower c = (if is_upper c then char_of (ord c + 32) else c)"

definition to_upper :: "char \<Rightarrow> char" where
  "to_upper c = (if is_lower c then char_of (ord c - 32) else c)"

lemmas char_class_defs =
  is_space_def is_linebreak_def is_bytes_linebreak_def is_bytes_space_def is_lower_def
  is_upper_def is_alnum_def is_digit_def

lemma linebreak_is_space: "is_linebreak c \<Longrightarrow> is_space c"
  by (auto simp: is_linebreak_def is_space_def)

section \<open>Stripping\<close>

definition lstrip_if :: "(char \<Rightarrow> bool) \<Rightarrow> string \<Rightarrow> string" where
  "lstrip_if p s = dropWhile p s"

definition rstrip_if :: "(char \<Rightarrow> bool) \<Rightarrow> string \<Rightarrow> string" where
  "rstrip_if p s = rev (dropWhile p (rev s))"

definition strip_if :: "(char \<Rightarrow> bool) \<Rightarrow> string \<Rightarrow> string" where
  "strip_if p s = rstrip_if p (lstrip_if p s)"

abbreviation strip :: "string \<Rightarrow> string" where
  "strip \<equiv> strip_if is_space"

abbreviation rstrip :: "string \<Rightarrow> string" where
  "rstrip \<equiv> rstrip_if is_space"

lemma rstrip_if_append_all:
  "\<forall>c\<in>set t. p c \<Longrightarrow> rstrip_if p (s @ t) = rstrip_if p s"
  by (simp add: rstrip_if_def dropWhile_append)

lemma rstrip_if_id: "s = [] \<or> \<not> p (last s) \<Longrightarrow> rstrip_if p s = s"
  by (cases s rule: rev_cases) (auto simp: rstrip_if_def)

lemma rstrip_if_last: "rstrip_if p s = [] \<or> \<not> p (last (rstrip_if p s))"
proof (cases "dropWhile p (rev s)")
  case (Cons c cs)
  then have "\<not> p c" using hd_dropWhile [of p "rev s"] by simp
  with Cons show ?thesis by (simp add: rstrip_if_def)
qed (simp add: rstrip_if_def)

lemma lstrip_if_hd: "lstrip_if p s = [] \<or> \<not> p (hd (lstrip_if p s))"
  using hd_dropWhile [of p s] by (auto simp: lstrip_if_def)

lemma rstrip_if_prefix: "prefix (rstrip_if p s) s"
proof -
  have "suffix (dropWhile p (rev s)) (rev s)" by (rule suffix_dropWhile)
  then show ?thesis by (simp add: rstrip_if_def suffix_to_prefix)
qed

lemma set_strip_if: "set (strip_if p s) \<subseteq> set s"
  by (auto simp: strip_if_def rstrip_if_def lstrip_if_def dest!: set_dropWhileD)

lemma strip_if_edges:
  "strip_if p s = [] \<or> \<not> p (hd (strip_if p s)) \<and> \<not> p (last (strip_if p s))"
proof (cases "strip_if p s")
  case (Cons c cs)
  obtain t where t: "lstrip_if p s = strip_if p s @ t"
    using rstrip_if_prefix [of p "lstrip_if p s"] by (auto simp: strip_if_def prefix_def)
  then have "hd (lstrip_if p s) = hd (strip_if p s)" and "lstrip_if p s \<noteq> []"
    using Cons by auto
  then have "\<not> p (hd (strip_if p s))" using lstrip_if_hd [of p s] by auto
  moreover have "\<not> p (last (strip_if p s))"
    using rstrip_if_last [of p "lstrip_if p s"] Cons by (simp add: strip_if_def)
  ultimately show ?thesis by simp
qed simp

lemma strip_if_id:
  assumes "s = [] \<or> \<not> p (hd s) \<and> \<not> p (last s)"
  shows "strip_if p s = s"
proof -
  have "lstrip_if p s = s" using assms by (cases s) (auto simp: lstrip_if_def)
  moreover have "rstrip_if p s = s" using assms by (intro rstrip_if_id) auto
  ultimately show ?thesis by (simp add: strip_if_def)
qed

lemma strip_if_idem [simp]: "strip_if p (strip_if p s) = strip_if p s"
  by (rule strip_if_id) (rule strip_if_edges)

lemma strip_if_Nil_iff: "strip_if p s = [] \<longleftrightarrow> (\<forall>c\<in>set s. p c)"
proof
  assume empty: "strip_if p s = []"
  then have "\<forall>c\<in>set (lstrip_if p s). p c"
    by (auto simp: strip_if_def rstrip_if_def)
  then have "lstrip_if p s = []" using lstrip_if_hd [of p s] by (cases "lstrip_if p s") auto
  then show "\<forall>c\<in>set s. p c" by (simp add: lstrip_if_def)
qed (auto simp: strip_if_def lstrip_if_def rstrip_if_def dest: set_dropWhileD)

section \<open>Splitting\<close>

text \<open>\<^verbatim>\<open>s.split(c)\<close> for a one-character separator: empty fields are kept.\<close>

fun split_on :: "char \<Rightarrow> string \<Rightarrow> string list" where
  "split_on c [] = [[]]"
| "split_on c (x # xs) =
     (if x = c then [] # split_on c xs
      else (case split_on c xs of [] \<Rightarrow> [[x]] | w # ws \<Rightarrow> (x # w) # ws))"

text \<open>\<^verbatim>\<open>s.split()\<close>: runs of white space separate, and no field is empty.\<close>

fun split_ws_aux :: "string \<Rightarrow> string \<Rightarrow> string list" where
  "split_ws_aux w [] = (if w = [] then [] else [rev w])"
| "split_ws_aux w (x # xs) =
     (if is_space x then (if w = [] then split_ws_aux [] xs else rev w # split_ws_aux [] xs)
      else split_ws_aux (x # w) xs)"

definition split_ws :: "string \<Rightarrow> string list" where
  "split_ws s = split_ws_aux [] s"

text \<open>
  \<^verbatim>\<open>splitlines()\<close>: a final line break does not start an empty last line. The accumulator is
  the current line in reverse.
\<close>

fun splitlines_aux :: "(char \<Rightarrow> bool) \<Rightarrow> string \<Rightarrow> string \<Rightarrow> string list" where
  "splitlines_aux br w [] = (if w = [] then [] else [rev w])"
| "splitlines_aux br w [x] = (if br x then [rev w] else [rev (x # w)])"
| "splitlines_aux br w (x # y # ys) =
     (if x = CHR 0x0D \<and> y = CHR 0x0A then rev w # splitlines_aux br [] ys
      else if br x then rev w # splitlines_aux br [] (y # ys)
      else splitlines_aux br (x # w) (y # ys))"

definition splitlines :: "string \<Rightarrow> string list" where
  "splitlines s = splitlines_aux is_linebreak [] s"

definition bytes_splitlines :: "string \<Rightarrow> string list" where
  "bytes_splitlines s = splitlines_aux is_bytes_linebreak [] s"

text \<open>\<^verbatim>\<open>s.split(c, 1)\<close>: at most one cut, at the first separator.\<close>

definition split_first :: "char \<Rightarrow> string \<Rightarrow> string list" where
  "split_first c s =
     (if c \<in> set s then [takeWhile (\<lambda>x. x \<noteq> c) s, tl (dropWhile (\<lambda>x. x \<noteq> c) s)] else [s])"

text \<open>\<^verbatim>\<open>sep.join(parts)\<close>.\<close>

fun join :: "string \<Rightarrow> string list \<Rightarrow> string" where
  "join sep [] = []"
| "join sep [p] = p"
| "join sep (p # q # ps) = p @ sep @ join sep (q # ps)"

lemma split_on_nonempty: "split_on c s \<noteq> []"
  by (induction s) (auto split: list.splits)

lemma split_on_no_sep: "w \<in> set (split_on c s) \<Longrightarrow> c \<notin> set w"
  by (induction s arbitrary: w) (auto split: list.splits if_splits)

lemma join_Cons: "ps \<noteq> [] \<Longrightarrow> join sep (p # ps) = p @ sep @ join sep ps"
  by (cases ps) auto

lemma join_split_on: "join [c] (split_on c s) = s"
proof (induction s)
  case (Cons x xs)
  obtain w ws where w: "split_on c xs = w # ws"
    using split_on_nonempty [of c xs] by (auto simp: neq_Nil_conv)
  with Cons show ?case by (cases ws) auto
qed simp

lemma split_on_append_sep:
  "c \<notin> set p \<Longrightarrow> split_on c (p @ c # s) = p # split_on c s"
  by (induction p) (auto split: list.splits)

lemma split_on_no_sep_id: "c \<notin> set p \<Longrightarrow> split_on c p = [p]"
  by (induction p) auto

lemma split_on_join:
  "ps \<noteq> [] \<Longrightarrow> \<forall>p\<in>set ps. c \<notin> set p \<Longrightarrow> split_on c (join [c] ps) = ps"
proof (induction ps)
  case (Cons p ps)
  then show ?case
    by (cases "ps = []") (auto simp: join_Cons split_on_append_sep split_on_no_sep_id)
qed simp

lemma set_join: "set (join sep ps) \<subseteq> set sep \<union> (\<Union>p\<in>set ps. set p)"
  by (induction sep ps rule: join.induct) auto

lemma split_first_length: "length (split_first c s) = (if c \<in> set s then 2 else 1)"
  by (simp add: split_first_def)

lemma splitlines_aux_no_break:
  "\<forall>c\<in>set w. \<not> br c \<Longrightarrow> br (CHR 0x0D) \<Longrightarrow> l \<in> set (splitlines_aux br w s) \<Longrightarrow> c \<in> set l \<Longrightarrow> \<not> br c"
  by (induction br w s arbitrary: l rule: splitlines_aux.induct) (auto split: if_splits)

lemma splitlines_no_break: "l \<in> set (splitlines s) \<Longrightarrow> c \<in> set l \<Longrightarrow> \<not> is_linebreak c"
  using splitlines_aux_no_break [of "[]" is_linebreak l s c]
  by (simp add: splitlines_def is_linebreak_def [of "CHR 0x0D"])

lemma splitlines_aux_plain:
  assumes "br newline" and "br (CHR 0x0D)" and "\<forall>c\<in>set s. \<not> br c"
  shows "splitlines_aux br w (s @ newline # t) = (rev w @ s) # splitlines_aux br [] t"
  using assms(3)
proof (induction s arbitrary: w)
  case Nil
  then show ?case using assms by (cases t) auto
next
  case (Cons x s)
  then have "x \<noteq> CHR 0x0D" using assms by auto
  with Cons show ?case by (cases s) auto
qed

lemma splitlines_line:
  assumes "\<forall>c\<in>set l. \<not> is_linebreak c"
  shows "splitlines (l @ newline # t) = l # splitlines t"
  using splitlines_aux_plain [of is_linebreak l "[]" t] assms
  by (simp add: splitlines_def is_linebreak_def [of "CHR 0x0D"] is_linebreak_def [of newline])

lemma splitlines_last:
  assumes "\<forall>c\<in>set l. \<not> is_linebreak c" and "l \<noteq> []"
  shows "splitlines l = [l]"
proof -
  have "splitlines_aux is_linebreak w l = [rev w @ l]" for w
    using assms
  proof (induction l arbitrary: w)
    case (Cons x l)
    then have "x \<noteq> CHR 0x0D" by (auto simp: is_linebreak_def)
    with Cons show ?case by (cases l) auto
  qed simp
  then show ?thesis by (simp add: splitlines_def)
qed

text \<open>Joining lines with newlines and splitting again gives the lines back.\<close>

lemma splitlines_join:
  assumes "\<forall>l\<in>set ls. \<forall>c\<in>set l. \<not> is_linebreak c" and "ls \<noteq> []" and "last ls \<noteq> []"
  shows "splitlines (join [newline] ls) = ls"
  using assms
proof (induction ls)
  case (Cons l ls)
  then show ?case
    by (cases "ls = []") (auto simp: join_Cons splitlines_line splitlines_last)
qed simp

section \<open>Tests, replacement, case and padding\<close>

abbreviation startswith :: "string \<Rightarrow> string \<Rightarrow> bool" where
  "startswith s p \<equiv> prefix p s"

abbreviation endswith :: "string \<Rightarrow> string \<Rightarrow> bool" where
  "endswith s p \<equiv> suffix p s"

definition removeprefix :: "string \<Rightarrow> string \<Rightarrow> string" where
  "removeprefix s p = (if startswith s p then drop (length p) s else s)"

text \<open>\<^verbatim>\<open>s.replace(old, new)\<close> for a non-empty \<open>old\<close>: left to right, without overlaps.\<close>

function str_replace :: "string \<Rightarrow> string \<Rightarrow> string \<Rightarrow> string" where
  "str_replace old new [] = []"
| "str_replace old new (x # xs) =
     (if old \<noteq> [] \<and> prefix old (x # xs) then new @ str_replace old new (drop (length old) (x # xs))
      else x # str_replace old new xs)"
  by pat_completeness auto
termination
  by (relation "measure (\<lambda>(old, new, s). length s)") auto

definition lower :: "string \<Rightarrow> string" where
  "lower s = map to_lower s"

definition capitalize :: "string \<Rightarrow> string" where
  "capitalize s = (case s of [] \<Rightarrow> [] | c # cs \<Rightarrow> to_upper c # lower cs)"

definition ljust :: "nat \<Rightarrow> string \<Rightarrow> string" where
  "ljust n s = s @ replicate (n - length s) (CHR '' '')"

lemma length_ljust: "length (ljust n s) = max n (length s)"
  by (auto simp: ljust_def)

lemma length_lower [simp]: "length (lower s) = length s"
  by (simp add: lower_def)

lemma str_replace_char:
  "str_replace [c] new s = concat (map (\<lambda>x. if x = c then new else [x]) s)"
  by (induction s) auto

lemma startswith_append [simp]: "startswith (p @ s) p"
  by simp

lemma removeprefix_append [simp]: "removeprefix (p @ s) p = s"
  by (simp add: removeprefix_def)

end
