(* ===== verification/Ssz_Types.thy ===== *)
theory Ssz_Types
  imports Py_Strings
begin

text \<open>
  The first part of \<^verbatim>\<open>eest/scripts/generate-consensus-ssz-schemas.py\<close>: how the generator reads
  the pyspec's SSZ classes. A class of the pyspec is what the generator sees of it: the
  remerkleable classes it derives from, its names, and the answers of the class methods
  the generator calls. The theory models the classification of a class (\<open>kind\<close>), its
  structural fingerprint and the walks over its containers, and shows that a fingerprint
  determines everything the generator later emits for a class.
\<close>

section \<open>Classes\<close>

text \<open>The remerkleable classes bound by \<^verbatim>\<open>load_dependencies\<close>.\<close>

datatype ssz_base =
    Py_boolean | Py_uint | Py_Bitlist | Py_Bitvector | Py_ByteList | Py_ByteVector
  | Py_Container | Py_List | Py_Vector
  | Py_ProgressiveBitlist | Py_ProgressiveContainer | Py_ProgressiveList

text \<open>
  A class object: the bases in its method resolution order, \<^verbatim>\<open>__name__\<close>,
  \<^verbatim>\<open>type_repr()\<close>, \<^verbatim>\<open>vector_length()\<close>, \<^verbatim>\<open>limit()\<close>, \<^verbatim>\<open>element_cls()\<close>, \<^verbatim>\<open>fields()\<close> and
  \<^verbatim>\<open>_active_fields\<close>. An attribute a class does not have is \<open>None\<close>, and reading it raises
  \<open>AttributeError\<close>.
\<close>

datatype pytype = PyType
  (mro: "ssz_base list")
  (type_name: string)
  (type_repr: string)
  (vector_length_attr: "nat option")
  (limit_attr: "nat option")
  (element_cls_attr: "pytype option")
  (fields_attr: "(string \<times> pytype) list option")
  (active_fields_attr: "bool list option")

definition attr :: "string \<Rightarrow> 'a option \<Rightarrow> 'a result" where
  "attr n v = (case v of None \<Rightarrow> Inl (AttributeError n) | Some x \<Rightarrow> Inr x)"

lemma attr_Inr_iff [result_simps]: "attr n v = Inr x \<longleftrightarrow> v = Some x"
  by (auto simp: attr_def split: option.splits)

definition vector_length :: "pytype \<Rightarrow> nat result" where
  "vector_length v = attr ''vector_length'' (vector_length_attr v)"

definition limit :: "pytype \<Rightarrow> nat result" where
  "limit v = attr ''limit'' (limit_attr v)"

definition element_cls :: "pytype \<Rightarrow> pytype result" where
  "element_cls v = attr ''element_cls'' (element_cls_attr v)"

definition type_fields :: "pytype \<Rightarrow> (string \<times> pytype) list result" where
  "type_fields v = attr ''fields'' (fields_attr v)"

definition active_fields :: "pytype \<Rightarrow> bool list result" where
  "active_fields v = attr ''_active_fields'' (active_fields_attr v)"

lemmas attr_defs = vector_length_def limit_def element_cls_def type_fields_def active_fields_def

lemma element_cls_size [termination_simp]: "element_cls v = Inr e \<Longrightarrow> size e < size v"
  by (cases v) (auto simp: element_cls_def result_simps)

lemma fields_size [termination_simp]:
  assumes "type_fields v = Inr fs" and "(n, t) \<in> set fs"
  shows "size t < size v"
proof -
  from assms(2) have "size_prod (\<lambda>_. 0) size (n, t) \<le> size_list (size_prod (\<lambda>_. 0) size) fs"
    by (rule size_list_estimation') simp
  with assms(1) show ?thesis by (cases v) (auto simp: type_fields_def result_simps)
qed

section \<open>Classification\<close>

datatype ssz_kind =
    progressive_container | progressive_bitlist | progressive_list | boolean | uint
  | byte_vector | byte_list | bitvector | bitlist | vector | list | container

definition is_type :: "pytype \<Rightarrow> ssz_base \<Rightarrow> bool" where
  "is_type value base = (base \<in> set (mro value))"

definition kind :: "pytype \<Rightarrow> ssz_kind result" where
  "kind value =
     (if is_type value Py_ProgressiveContainer then Inr progressive_container
      else if is_type value Py_ProgressiveBitlist then Inr progressive_bitlist
      else if is_type value Py_ProgressiveList then Inr progressive_list
      else if is_type value Py_boolean then Inr boolean
      else if is_type value Py_uint then Inr uint
      else if is_type value Py_ByteVector then Inr byte_vector
      else if is_type value Py_ByteList then Inr byte_list
      else if is_type value Py_Bitvector then Inr bitvector
      else if is_type value Py_Bitlist then Inr bitlist
      else if is_type value Py_Vector then Inr vector
      else if is_type value Py_List then Inr list
      else if is_type value Py_Container then Inr container
      else Inl (TypeError (''unsupported SSZ type: '' @ type_name value)))"

definition uint_name :: "pytype \<Rightarrow> string result" where
  "uint_name value =
     (let name = type_repr value in
      if \<not> startswith name ''uint'' then Inl (TypeError (''unsupported basic integer: '' @ name))
      else Inr (''u'' @ drop 4 name))"

section \<open>Fingerprints\<close>

text \<open>
  \<^verbatim>\<open>type_fingerprint\<close> returns a tuple; there is one constructor per shape of tuple the source
  returns, each tagged with the kind as the tuple's first component is.
\<close>

datatype fingerprint =
    Fp ssz_kind
  | FpName ssz_kind string
  | FpSize ssz_kind nat
  | FpSizeElem ssz_kind nat fingerprint
  | FpElem ssz_kind fingerprint
  | FpFields ssz_kind string "bool list" "(string \<times> fingerprint) list"

fun fp_kind :: "fingerprint \<Rightarrow> ssz_kind" where
  "fp_kind (Fp k) = k"
| "fp_kind (FpName k _) = k"
| "fp_kind (FpSize k _) = k"
| "fp_kind (FpSizeElem k _ _) = k"
| "fp_kind (FpElem k _) = k"
| "fp_kind (FpFields k _ _ _) = k"

function type_fingerprint :: "pytype \<Rightarrow> fingerprint result" where
  "type_fingerprint value =
     rbind (kind value) (\<lambda>value_kind.
       (case value_kind of
          boolean \<Rightarrow> Inr (Fp value_kind)
        | uint \<Rightarrow> rbind (uint_name value) (\<lambda>n. Inr (FpName value_kind n))
        | byte_vector \<Rightarrow> rbind (vector_length value) (\<lambda>n. Inr (FpSize value_kind n))
        | bitvector \<Rightarrow> rbind (vector_length value) (\<lambda>n. Inr (FpSize value_kind n))
        | byte_list \<Rightarrow> rbind (limit value) (\<lambda>n. Inr (FpSize value_kind n))
        | bitlist \<Rightarrow> rbind (limit value) (\<lambda>n. Inr (FpSize value_kind n))
        | progressive_bitlist \<Rightarrow> Inr (Fp value_kind)
        | vector \<Rightarrow>
            rbind (vector_length value) (\<lambda>n. rbind (element_cls value) (\<lambda>e.
              rbind (type_fingerprint e) (\<lambda>fp. Inr (FpSizeElem value_kind n fp))))
        | list \<Rightarrow>
            rbind (limit value) (\<lambda>n. rbind (element_cls value) (\<lambda>e.
              rbind (type_fingerprint e) (\<lambda>fp. Inr (FpSizeElem value_kind n fp))))
        | progressive_list \<Rightarrow>
            rbind (element_cls value) (\<lambda>e.
              rbind (type_fingerprint e) (\<lambda>fp. Inr (FpElem value_kind fp)))
        | container \<Rightarrow>
            rbind (type_fields value) (\<lambda>fs.
              rbind (rmap (\<lambda>(name, field_type).
                       rbind (type_fingerprint field_type) (\<lambda>fp. Inr (name, fp))) fs)
                (\<lambda>fps. Inr (FpFields value_kind (type_name value) [] fps)))
        | progressive_container \<Rightarrow>
            rbind (active_fields value) (\<lambda>active. rbind (type_fields value) (\<lambda>fs.
              rbind (rmap (\<lambda>(name, field_type).
                       rbind (type_fingerprint field_type) (\<lambda>fp. Inr (name, fp))) fs)
                (\<lambda>fps. Inr (FpFields value_kind (type_name value) active fps))))))"
  by pat_completeness auto
termination
  by (relation "measure size") (auto simp: termination_simp)

declare type_fingerprint.simps [simp del]

section \<open>Container walks\<close>

function nested_containers :: "pytype \<Rightarrow> pytype list result" where
  "nested_containers value =
     rbind (kind value) (\<lambda>value_kind.
       if value_kind \<in> {container, progressive_container} then
         rbind (type_fields value) (\<lambda>fs.
           rbind (rmap (\<lambda>(name, field_type). nested_containers field_type) fs)
             (\<lambda>ns. Inr (value # concat ns)))
       else if value_kind \<in> {vector, list, progressive_list} then
         rbind (element_cls value) nested_containers
       else Inr [])"
  by pat_completeness auto
termination
  by (relation "measure size") (auto simp: termination_simp)

function direct_container_dependencies :: "pytype \<Rightarrow> pytype list result" where
  "direct_container_dependencies value =
     rbind (kind value) (\<lambda>value_kind.
       if value_kind \<in> {container, progressive_container} then Inr [value]
       else if value_kind \<in> {vector, list, progressive_list} then
         rbind (element_cls value) direct_container_dependencies
       else Inr [])"
  by pat_completeness auto
termination
  by (relation "measure size") (auto simp: termination_simp)

declare nested_containers.simps [simp del]
declare direct_container_dependencies.simps [simp del]

section \<open>What a fingerprint says of its class\<close>

text \<open>
  The elimination rule of \<^const>\<open>type_fingerprint\<close>: one case per return statement, with
  the answers of the class that the fingerprint records.
\<close>

abbreviation field_fp :: "(string \<times> pytype) \<Rightarrow> (string \<times> fingerprint) \<Rightarrow> bool" where
  "field_fp nt mf \<equiv> fst nt = fst mf \<and> type_fingerprint (snd nt) = Inr (snd mf)"

lemma fields_fp_iff:
  "rmap (\<lambda>(name, ft). rbind (type_fingerprint ft) (\<lambda>fp. Inr (name, fp))) fs = Inr fps \<longleftrightarrow>
   list_all2 field_fp fs fps"
proof -
  have "(\<lambda>nt mf. (case nt of (name, ft) \<Rightarrow> rbind (type_fingerprint ft) (\<lambda>fp. Inr (name, fp)))
           = Inr mf) = field_fp"
    by (auto simp: fun_eq_iff result_simps)
  then show ?thesis by (simp add: rmap_Inr_iff)
qed

lemma type_fingerprint_E:
  assumes "type_fingerprint v = Inr fp"
  obtains (leaf) k where "fp = Fp k" "kind v = Inr k" "k \<in> {boolean, progressive_bitlist}"
  | (name) n where "fp = FpName uint n" "kind v = Inr uint" "uint_name v = Inr n"
  | (length) k n where "fp = FpSize k n" "kind v = Inr k" "k \<in> {byte_vector, bitvector}"
      "vector_length v = Inr n"
  | (limit) k n where "fp = FpSize k n" "kind v = Inr k" "k \<in> {byte_list, bitlist}"
      "limit v = Inr n"
  | (vector) n e f where "fp = FpSizeElem vector n f" "kind v = Inr vector"
      "vector_length v = Inr n" "element_cls v = Inr e" "type_fingerprint e = Inr f"
  | (list) n e f where "fp = FpSizeElem list n f" "kind v = Inr list"
      "limit v = Inr n" "element_cls v = Inr e" "type_fingerprint e = Inr f"
  | (progressive) e f where "fp = FpElem progressive_list f" "kind v = Inr progressive_list"
      "element_cls v = Inr e" "type_fingerprint e = Inr f"
  | (fields) k active fs fps where "fp = FpFields k (type_name v) active fps" "kind v = Inr k"
      "k = container \<and> active = [] \<or> k = progressive_container \<and> active_fields v = Inr active"
      "type_fields v = Inr fs" "list_all2 field_fp fs fps"
proof -
  from assms obtain k where "kind v = Inr k" by (auto simp: type_fingerprint.simps [of v] result_simps)
  then show thesis
    using assms that unfolding type_fingerprint.simps [of v]
    by (cases k) (auto simp: rbind_Inr_iff fields_fp_iff)
qed

text \<open>The induction rule that goes with it: over a class and its fingerprint together.\<close>

lemma fp_induct [consumes 1, case_names leaf name length limit vector list progressive fields]:
  assumes "type_fingerprint v = Inr fp"
    and leaf: "\<And>v k. kind v = Inr k \<Longrightarrow> k \<in> {boolean, progressive_bitlist} \<Longrightarrow> P v (Fp k)"
    and name: "\<And>v n. kind v = Inr uint \<Longrightarrow> uint_name v = Inr n \<Longrightarrow> P v (FpName uint n)"
    and len: "\<And>v k n. kind v = Inr k \<Longrightarrow> k \<in> {byte_vector, bitvector} \<Longrightarrow>
      vector_length v = Inr n \<Longrightarrow> P v (FpSize k n)"
    and lim: "\<And>v k n. kind v = Inr k \<Longrightarrow> k \<in> {byte_list, bitlist} \<Longrightarrow>
      limit v = Inr n \<Longrightarrow> P v (FpSize k n)"
    and vec: "\<And>v n e f. kind v = Inr vector \<Longrightarrow> vector_length v = Inr n \<Longrightarrow> element_cls v = Inr e \<Longrightarrow>
      type_fingerprint e = Inr f \<Longrightarrow> P e f \<Longrightarrow> P v (FpSizeElem vector n f)"
    and lst: "\<And>v n e f. kind v = Inr list \<Longrightarrow> limit v = Inr n \<Longrightarrow> element_cls v = Inr e \<Longrightarrow>
      type_fingerprint e = Inr f \<Longrightarrow> P e f \<Longrightarrow> P v (FpSizeElem list n f)"
    and pro: "\<And>v e f. kind v = Inr progressive_list \<Longrightarrow> element_cls v = Inr e \<Longrightarrow>
      type_fingerprint e = Inr f \<Longrightarrow> P e f \<Longrightarrow> P v (FpElem progressive_list f)"
    and fld: "\<And>v k active fs fps. kind v = Inr k \<Longrightarrow>
      k = container \<and> active = [] \<or> k = progressive_container \<and> active_fields v = Inr active \<Longrightarrow>
      type_fields v = Inr fs \<Longrightarrow> list_all2 field_fp fs fps \<Longrightarrow>
      list_all2 (\<lambda>nt mf. P (snd nt) (snd mf)) fs fps \<Longrightarrow>
      type_fingerprint v = Inr (FpFields k (type_name v) active fps) \<Longrightarrow>
      P v (FpFields k (type_name v) active fps)"
  shows "P v fp"
  using assms(1)
proof (induction v arbitrary: fp rule: measure_induct_rule [where f = size])
  case (less v)
  from less.prems show ?case
  proof (cases rule: type_fingerprint_E)
    case (vector n e f)
    then show ?thesis using less.IH vec element_cls_size by blast
  next
    case (list n e f)
    then show ?thesis using less.IH lst element_cls_size by blast
  next
    case (progressive e f)
    then show ?thesis using less.IH pro element_cls_size by blast
  next
    case (fields k active fs fps)
    have "list_all2 (\<lambda>nt mf. P (snd nt) (snd mf)) fs fps"
      using fields(5)
    proof (rule list.rel_mono_strong)
      fix nt mf assume "nt \<in> set fs" and "field_fp nt mf"
      then show "P (snd nt) (snd mf)"
        using less.IH fields_size [OF fields(4), of "fst nt" "snd nt"] prod.collapse by metis
    qed
    with fields fld less.prems show ?thesis by blast
  qed (use leaf name len lim in blast)+
qed

lemma kind_of_fingerprint: "type_fingerprint v = Inr fp \<Longrightarrow> kind v = Inr (fp_kind fp)"
  by (erule type_fingerprint_E) auto

text \<open>
  The walks read off the fingerprint instead of the class: the containers nested in a
  class, and the containers it refers to without passing through another container.
\<close>

fun fp_nested :: "fingerprint \<Rightarrow> fingerprint list" where
  "fp_nested (FpFields k n a fs) = FpFields k n a fs # concat (map (\<lambda>(m, f). fp_nested f) fs)"
| "fp_nested (FpSizeElem k n f) = fp_nested f"
| "fp_nested (FpElem k f) = fp_nested f"
| "fp_nested _ = []"

fun fp_deps :: "fingerprint \<Rightarrow> fingerprint list" where
  "fp_deps (FpFields k n a fs) = [FpFields k n a fs]"
| "fp_deps (FpSizeElem k n f) = fp_deps f"
| "fp_deps (FpElem k f) = fp_deps f"
| "fp_deps _ = []"

fun fp_field_deps :: "fingerprint \<Rightarrow> fingerprint list" where
  "fp_field_deps (FpFields k n a fs) = concat (map (\<lambda>(m, f). fp_deps f) fs)"
| "fp_field_deps _ = []"

definition is_container_fp :: "fingerprint \<Rightarrow> bool" where
  "is_container_fp fp = (fp_kind fp \<in> {container, progressive_container})"

lemma rmap_fields_concat:
  assumes "list_all2 (\<lambda>nt mf. \<exists>cs. w (snd nt) = Inr cs \<and> rmap type_fingerprint cs = Inr (h (snd mf))) fs fps"
  shows "\<exists>ns. rmap (\<lambda>(n, t). w t) fs = Inr ns
           \<and> rmap type_fingerprint (concat ns) = Inr (concat (map (\<lambda>(m, f). h f) fps))"
  using assms
proof (induction fs fps rule: list_all2_induct)
  case (Cons nt fs mf fps)
  obtain n t m f where [simp]: "nt = (n, t)" "mf = (m, f)" by (cases nt; cases mf)
  from Cons.IH obtain ns where ns: "rmap (\<lambda>(n, t). w t) fs = Inr ns"
    "rmap type_fingerprint (concat ns) = Inr (concat (map (\<lambda>(m, f). h f) fps))" by auto
  from Cons.hyps(1) obtain cs where "w t = Inr cs" "rmap type_fingerprint cs = Inr (h f)" by auto
  with ns show ?case by (auto intro!: rmap_append)
qed simp

lemma nested_containers_leaf [simp]:
  "kind v = Inr k \<Longrightarrow> k \<notin> {container, progressive_container, vector, list, progressive_list} \<Longrightarrow>
   nested_containers v = Inr []"
  by (simp add: nested_containers.simps [of v])

lemma nested_containers_elem [simp]:
  "kind v = Inr k \<Longrightarrow> k \<in> {vector, list, progressive_list} \<Longrightarrow> element_cls v = Inr e \<Longrightarrow>
   nested_containers v = nested_containers e"
  by (auto simp: nested_containers.simps [of v])

lemma direct_dependencies_leaf [simp]:
  "kind v = Inr k \<Longrightarrow> k \<notin> {container, progressive_container, vector, list, progressive_list} \<Longrightarrow>
   direct_container_dependencies v = Inr []"
  by (simp add: direct_container_dependencies.simps [of v])

lemma direct_dependencies_elem [simp]:
  "kind v = Inr k \<Longrightarrow> k \<in> {vector, list, progressive_list} \<Longrightarrow> element_cls v = Inr e \<Longrightarrow>
   direct_container_dependencies v = direct_container_dependencies e"
  by (auto simp: direct_container_dependencies.simps [of v])

lemma direct_dependencies_container [simp]:
  "kind v = Inr k \<Longrightarrow> k \<in> {container, progressive_container} \<Longrightarrow>
   direct_container_dependencies v = Inr [v]"
  by (auto simp: direct_container_dependencies.simps [of v])

lemma nested_containers_fp:
  "type_fingerprint v = Inr fp \<Longrightarrow>
   \<exists>cs. nested_containers v = Inr cs \<and> rmap type_fingerprint cs = Inr (fp_nested fp)"
proof (induction rule: fp_induct)
  case (fields v k active fs fps)
  from rmap_fields_concat [OF fields(6)] obtain ns
    where "rmap (\<lambda>(n, t). nested_containers t) fs = Inr ns"
      and "rmap type_fingerprint (concat ns) = Inr (concat (map (\<lambda>(m, f). fp_nested f) fps))"
    by blast
  with fields(1-3,5) show ?case by (auto simp: nested_containers.simps [of v])
qed auto

lemma direct_dependencies_fp:
  "type_fingerprint v = Inr fp \<Longrightarrow>
   \<exists>ds. direct_container_dependencies v = Inr ds \<and> rmap type_fingerprint ds = Inr (fp_deps fp)"
proof (induction rule: fp_induct)
  case (fields v k active fs fps)
  with fields(1,2,5) show ?case by auto
qed auto

lemma field_dependencies_fp:
  assumes "type_fingerprint v = Inr fp" and "is_container_fp fp"
  obtains fs ds where "type_fields v = Inr fs"
    and "rmap (\<lambda>(n, t). direct_container_dependencies t) fs = Inr ds"
    and "rmap type_fingerprint (concat ds) = Inr (fp_field_deps fp)"
  using assms(1)
proof (cases rule: type_fingerprint_E)
  case (fields k active fs fps)
  then have "list_all2 (\<lambda>nt mf. \<exists>ds. direct_container_dependencies (snd nt) = Inr ds
      \<and> rmap type_fingerprint ds = Inr (fp_deps (snd mf))) fs fps"
    using direct_dependencies_fp by (auto elim!: list_all2_mono)
  from rmap_fields_concat [OF this] fields that show thesis by auto
qed (use assms(2) in \<open>auto simp: is_container_fp_def\<close>)

lemma fp_nested_container: "type_fingerprint v = Inr fp \<Longrightarrow> \<forall>g\<in>set (fp_nested fp). is_container_fp g"
proof (induction rule: fp_induct)
  case (fields v k active fs fps)
  have "is_container_fp g" if "(m, f) \<in> set fps" "g \<in> set (fp_nested f)" for m f g
    using list_all2_rightD [OF fields(6) that(1)] that(2) by auto
  with fields(2) show ?case by (auto simp: is_container_fp_def [of "FpFields _ _ _ _"])
qed auto

lemma fp_deps_nested: "set (fp_deps f) \<subseteq> set (fp_nested f)"
  by (induction f) auto

lemma fp_nested_closed: "g \<in> set (fp_nested fp) \<Longrightarrow> set (fp_field_deps g) \<subseteq> set (fp_nested fp)"
proof (induction fp)
  case (FpFields k n a fps)
  then show ?case using fp_deps_nested by fastforce
qed auto

lemma fp_deps_size: "d \<in> set (fp_deps f) \<Longrightarrow> size d \<le> size f"
  by (induction f) auto

lemma fp_field_deps_size:
  assumes "d \<in> set (fp_field_deps g)"
  shows "size d < size g"
proof -
  from assms obtain k n a fps m f where g: "g = FpFields k n a fps"
    and f: "(m, f) \<in> set fps" "d \<in> set (fp_deps f)" by (cases g) auto
  have "size_prod (\<lambda>_. 0) size (m, f) \<le> size_list (size_prod (\<lambda>_. 0) size) fps"
    by (rule size_list_estimation' [OF f(1)]) simp
  with fp_deps_size [OF f(2)] g show ?thesis by simp
qed

lemma nested_containers_E:
  assumes "nested_containers root = Inr vs"
  obtains (container) k fs ns where "kind root = Inr k" "k \<in> {container, progressive_container}"
      "type_fields root = Inr fs" "rmap (\<lambda>(name, ft). nested_containers ft) fs = Inr ns"
      "vs = root # concat ns"
  | (element) e where "element_cls root = Inr e" "nested_containers e = Inr vs"
  | (leaf) "vs = []"
proof -
  from assms obtain k where "kind root = Inr k"
    by (auto simp: nested_containers.simps [of root] result_simps)
  with assms that show thesis
    by (auto simp: nested_containers.simps [of root] rbind_Inr_iff split: if_splits)
qed

lemma nested_containers_trans:
  "nested_containers root = Inr vs \<Longrightarrow> v \<in> set vs \<Longrightarrow>
   \<exists>ws. nested_containers v = Inr ws \<and> set ws \<subseteq> set vs"
proof (induction root arbitrary: vs rule: measure_induct_rule [where f = size])
  case (less root)
  from less.prems(1) show ?case
  proof (cases rule: nested_containers_E)
    case (container k fs ns)
    show ?thesis
    proof (cases "v = root")
      case False
      with container(5) less.prems(2) obtain us where us: "us \<in> set ns" "v \<in> set us" by auto
      from list_all2_rightD [OF container(4) [unfolded rmap_Inr_iff] us(1)] obtain n t
        where t: "(n, t) \<in> set fs" "nested_containers t = Inr us" by auto
      from less.IH [OF fields_size [OF container(3) t(1)] t(2) us(2)]
      show ?thesis using us(1) container(5) by auto
    qed (use less.prems(1) in auto)
  next
    case (element e)
    with less.IH [OF element_cls_size] less.prems(2) show ?thesis by blast
  qed (use less.prems(2) in simp)
qed

lemma nested_containers_kind:
  "nested_containers root = Inr vs \<Longrightarrow> v \<in> set vs \<Longrightarrow>
   \<exists>k. kind v = Inr k \<and> k \<in> {container, progressive_container}"
proof (induction root arbitrary: vs rule: measure_induct_rule [where f = size])
  case (less root)
  from less.prems(1) show ?case
  proof (cases rule: nested_containers_E)
    case (container k fs ns)
    show ?thesis
    proof (cases "v = root")
      case False
      with container(5) less.prems(2) obtain us where us: "us \<in> set ns" "v \<in> set us" by auto
      from list_all2_rightD [OF container(4) [unfolded rmap_Inr_iff] us(1)] obtain n t
        where t: "(n, t) \<in> set fs" "nested_containers t = Inr us" by auto
      from less.IH [OF fields_size [OF container(3) t(1)] t(2) us(2)] show ?thesis .
    qed (use container in auto)
  next
    case (element e)
    with less.IH [OF element_cls_size] less.prems(2) show ?thesis by blast
  qed (use less.prems(2) in simp)
qed

text \<open>A container's field dependencies are among its nested containers.\<close>

lemma nested_containers_dependency:
  assumes "nested_containers root = Inr vs" and "v \<in> set vs"
    and "type_fingerprint v = Inr fp" and "d \<in> set (fp_field_deps fp)"
  shows "\<exists>w\<in>set vs. type_fingerprint w = Inr d"
proof -
  from nested_containers_trans [OF assms(1,2)] obtain ws
    where ws: "nested_containers v = Inr ws" "set ws \<subseteq> set vs" by blast
  with nested_containers_fp [OF assms(3)] have fps: "list_all2 (\<lambda>x y. type_fingerprint x = Inr y) ws (fp_nested fp)"
    by (auto simp: rmap_Inr_iff)
  have "fp \<in> set (fp_nested fp)" using assms(4) by (cases fp) auto
  from fp_nested_closed [OF this] assms(4) have "d \<in> set (fp_nested fp)" by auto
  from list_all2_rightD [OF fps this] ws(2) show ?thesis by auto
qed

end
