(* ===== verification/Ssz_Shapes.thy ===== *)
theory Ssz_Shapes
  imports Ssz_Types
begin

text \<open>
  The second part of the schema generator: loading one context per preset and fork,
  collecting the container shapes that occur in them, and naming the shapes. The main
  results say what a collected shape is (its occurrences are exactly the contexts in which
  its fingerprint is nested) and that a shape never refers to one that is declared in a
  later fork.
\<close>

section \<open>Forks and presets\<close>

definition FORKS :: "string list" where
  "FORKS = [''phase0'', ''altair'', ''bellatrix'', ''capella'', ''deneb'', ''electra'',
            ''fulu'', ''gloas'', ''heze'']"

definition PRESETS :: "string list" where
  "PRESETS = [''mainnet'', ''minimal'']"

abbreviation fork_index :: "string \<Rightarrow> nat result" where
  "fork_index \<equiv> py_index FORKS"

text \<open>An occurrence is a pair of a preset and a fork.\<close>

type_synonym occurrence = "string \<times> string"

fun occurrence_order :: "occurrence \<Rightarrow> (nat \<times> nat) result" where
  "occurrence_order (preset, fork) =
     rbind (py_index FORKS fork) (\<lambda>f. rbind (py_index PRESETS preset) (\<lambda>p. Inr (f, p)))"

definition pascal :: "string \<Rightarrow> string" where
  "pascal name = concat (map capitalize (split_on (CHR ''_'') name))"

section \<open>Contexts\<close>

record gen_context =
  ctx_preset :: string
  ctx_fork :: string
  handlers :: "(string, pytype) dict"

text \<open>
  \<^verbatim>\<open>fixture_handlers\<close> lists the sub-directories of \<^verbatim>\<open>fixtures_root/preset/fork/ssz_static\<close>. The
  file system is the argument \<open>iterdir\<close>: \<open>None\<close> when that path is not a directory, and
  otherwise its entries with a flag for directories.
\<close>

type_synonym dir_listing = "string \<Rightarrow> string \<Rightarrow> (string \<times> bool) list option"

definition fixture_handlers :: "dir_listing \<Rightarrow> string \<Rightarrow> string \<Rightarrow> string list result" where
  "fixture_handlers iterdir preset fork =
     (case iterdir preset fork of
        None \<Rightarrow> Inl (FileNotFoundError (preset @ ''/'' @ fork @ ''/ssz_static''))
      | Some entries \<Rightarrow> Inr (sort (map fst (filter snd entries))))"

text \<open>The attributes of the module \<^verbatim>\<open>eth_consensus_specs.{fork}.{preset}\<close>.\<close>

type_synonym spec_module = "string \<Rightarrow> string \<Rightarrow> string \<Rightarrow> pytype option"

definition add_handler :: "(string \<Rightarrow> pytype option) \<Rightarrow> string \<Rightarrow> (string, pytype) dict \<Rightarrow>
    (string, pytype) dict result" where
  "add_handler module name hs =
     rbind (attr name (module name)) (\<lambda>value.
       rbind (kind value) (\<lambda>k.
         if k \<notin> {container, progressive_container}
         then Inl (TypeError (''fixture handler '' @ name @ '' is not a container''))
         else Inr (dict_set hs name value)))"

definition load_context :: "dir_listing \<Rightarrow> spec_module \<Rightarrow> occurrence \<Rightarrow> gen_context result" where
  "load_context iterdir getattr occ =
     (case occ of (preset, fork) \<Rightarrow>
        rbind (fixture_handlers iterdir preset fork) (\<lambda>names.
          rbind (rfold (add_handler (getattr fork preset)) names []) (\<lambda>hs.
            Inr \<lparr>ctx_preset = preset, ctx_fork = fork, handlers = hs\<rparr>)))"

definition load_contexts :: "dir_listing \<Rightarrow> spec_module \<Rightarrow> gen_context list result" where
  "load_contexts iterdir getattr =
     rmap (load_context iterdir getattr) (List.product PRESETS FORKS)"

section \<open>Shapes\<close>

record shape =
  sh_fingerprint :: fingerprint
  sh_name :: string
  sh_value :: pytype
  occurrences :: "occurrence list"
  declaration_fork :: string
  symbol :: string

type_synonym shapes = "(fingerprint, shape) dict"

definition new_shape :: "fingerprint \<Rightarrow> pytype \<Rightarrow> shape" where
  "new_shape fp value = \<lparr>sh_fingerprint = fp, sh_name = type_name value, sh_value = value,
     occurrences = [], declaration_fork = [], symbol = []\<rparr>"

text \<open>One iteration of the innermost loop: \<^verbatim>\<open>setdefault\<close>, then record the occurrence.\<close>

definition collect_value :: "occurrence \<times> pytype \<Rightarrow> shapes \<Rightarrow> shapes result" where
  "collect_value ov shapes =
     (case ov of (occ, value) \<Rightarrow>
        rbind (type_fingerprint value) (\<lambda>fp.
          let shape = (case dict_get shapes fp of None \<Rightarrow> new_shape fp value | Some s \<Rightarrow> s)
          in Inr (dict_set shapes fp (shape\<lparr>occurrences := set_add occ (occurrences shape)\<rparr>))))"

definition collect_root :: "occurrence \<Rightarrow> pytype \<Rightarrow> shapes \<Rightarrow> shapes result" where
  "collect_root occ root shapes =
     rbind (nested_containers root) (\<lambda>vs. rfold (\<lambda>v. collect_value (occ, v)) vs shapes)"

definition collect_context :: "gen_context \<Rightarrow> shapes \<Rightarrow> shapes result" where
  "collect_context c shapes =
     rfold (collect_root (ctx_preset c, ctx_fork c)) (dict_values (handlers c)) shapes"

text \<open>
  \<^verbatim>\<open>assign_shape_names\<close> in its three passes. The shapes are objects of the dictionary, so
  an assignment to a shape of a group is an update of the entry with its fingerprint.
\<close>

definition declare_shape :: "shape \<Rightarrow> shape result" where
  "declare_shape s =
     rbind (py_min_key occurrence_order (occurrences s)) (\<lambda>occ.
       Inr (s\<lparr>declaration_fork := snd occ\<rparr>))"

definition collision_symbol :: "string \<Rightarrow> shape \<Rightarrow> (fingerprint \<times> string) result" where
  "collision_symbol base s =
     rbind (py_min_key occurrence_order (occurrences s)) (\<lambda>occ.
       Inr (sh_fingerprint s, base @ pascal (fst occ)))"

definition base_symbols :: "string \<Rightarrow> shape list \<Rightarrow> (fingerprint \<times> string) list result" where
  "base_symbols base collisions =
     (case collisions of
        [s] \<Rightarrow> Inr [(sh_fingerprint s, base)]
      | _ \<Rightarrow> rmap (collision_symbol base) collisions)"

definition name_symbols :: "string \<Rightarrow> shape list \<Rightarrow> (fingerprint \<times> string) list result" where
  "name_symbols name variants =
     (case variants of
        [s] \<Rightarrow> Inr [(sh_fingerprint s, name)]
      | _ \<Rightarrow>
          rbind (rmap (\<lambda>(base, collisions). base_symbols base collisions)
                   (group_by (\<lambda>s. name @ pascal (declaration_fork s)) variants))
            (\<lambda>assignments. Inr (concat assignments)))"

definition set_symbol :: "fingerprint \<times> string \<Rightarrow> shapes \<Rightarrow> shapes" where
  "set_symbol a shapes =
     map (\<lambda>(k, s). if sh_fingerprint s = fst a then (k, s\<lparr>symbol := snd a\<rparr>) else (k, s)) shapes"

definition check_symbol :: "shape \<Rightarrow> string list \<Rightarrow> string list result" where
  "check_symbol s symbols =
     (if symbol s \<in> set symbols then Inl (TypeError (''generated symbol collision: '' @ symbol s))
      else Inr (symbols @ [symbol s]))"

definition assign_shape_names :: "shapes \<Rightarrow> shapes result" where
  "assign_shape_names shapes =
     rbind (rmap (\<lambda>(k, s). rbind (declare_shape s) (\<lambda>s'. Inr (k, s'))) shapes) (\<lambda>declared.
     rbind (rmap (\<lambda>(name, variants). name_symbols name variants)
              (group_by sh_name (dict_values declared))) (\<lambda>assignments.
     let named = fold set_symbol (concat assignments) declared in
     rbind (rfold check_symbol (dict_values named) []) (\<lambda>_. Inr named)))"

definition collect_shapes :: "gen_context list \<Rightarrow> shapes result" where
  "collect_shapes contexts = rbind (rfold collect_context contexts []) assign_shape_names"

text \<open>Looking a shape up and referring to it from a fork's module.\<close>

definition shape_for :: "pytype \<Rightarrow> shapes \<Rightarrow> shape result" where
  "shape_for value shapes =
     rbind (type_fingerprint value) (dict_index (\<lambda>_. type_name value) shapes)"

definition shape_ref :: "shape \<Rightarrow> string \<Rightarrow> string result" where
  "shape_ref s current_fork =
     (if declaration_fork s = current_fork then Inr (symbol s)
      else rbind (fork_index (declaration_fork s)) (\<lambda>d.
           rbind (fork_index current_fork) (\<lambda>c.
             if c < d then Inl (TypeError (symbol s @ '' depends on a future fork''))
             else Inr (declaration_fork s @ ''_types.'' @ symbol s))))"

section \<open>Facts about forks and occurrences\<close>

lemma distinct_FORKS: "distinct FORKS"
  by (simp add: FORKS_def)

definition valid_occurrence :: "occurrence \<Rightarrow> bool" where
  "valid_occurrence occ = (fst occ \<in> set PRESETS \<and> snd occ \<in> set FORKS)"

lemma occurrence_order_total: "valid_occurrence occ \<Longrightarrow> \<exists>k. occurrence_order occ = Inr k"
  by (cases occ) (auto simp: valid_occurrence_def py_index_mem)

lemma occurrence_order_fork: "occurrence_order occ = Inr k \<Longrightarrow> fork_index (snd occ) = Inr (fst k)"
  by (cases occ) (auto simp: result_simps)

text \<open>
  The declaration fork of a shape is the earliest fork it occurs in; a shape that occurs
  wherever another does is therefore declared no later.
\<close>

lemma min_occurrence_fork:
  assumes "py_min_key occurrence_order xs = Inr x" and "y \<in> set xs"
  shows "\<exists>m n. fork_index (snd x) = Inr m \<and> fork_index (snd y) = Inr n \<and> m \<le> n"
proof -
  from py_min_key_le [OF assms] obtain a b where
    "occurrence_order x = Inr a" "occurrence_order y = Inr b" "a \<le> b" by blast
  moreover from \<open>a \<le> b\<close> have "fst a \<le> fst b" by (cases a; cases b) auto
  ultimately show ?thesis using occurrence_order_fork by blast
qed

lemma declare_shape_E:
  assumes "declare_shape s = Inr s'"
  obtains occ where "py_min_key occurrence_order (occurrences s) = Inr occ"
    and "s' = s\<lparr>declaration_fork := snd occ\<rparr>"
  using assms by (auto simp: declare_shape_def result_simps)

lemma declare_shape_mono:
  assumes "declare_shape s = Inr s'" and "declare_shape t = Inr t'"
    and "set (occurrences s) \<subseteq> set (occurrences t)"
  shows "\<exists>m n. fork_index (declaration_fork t') = Inr m \<and> fork_index (declaration_fork s') = Inr n
           \<and> m \<le> n"
proof -
  from assms(1) obtain x where x: "py_min_key occurrence_order (occurrences s) = Inr x"
    "s' = s\<lparr>declaration_fork := snd x\<rparr>" by (rule declare_shape_E)
  from assms(2) obtain y where y: "py_min_key occurrence_order (occurrences t) = Inr y"
    "t' = t\<lparr>declaration_fork := snd y\<rparr>" by (rule declare_shape_E)
  from py_min_key_mem [OF x(1)] assms(3) have "x \<in> set (occurrences t)" by auto
  from min_occurrence_fork [OF y(1) this] x(2) y(2) show ?thesis by simp
qed

section \<open>What collecting computes\<close>

text \<open>
  The loops of \<^const>\<open>collect_shapes\<close>, flattened: every container nested in a handler, with the
  context it is met in, in the order of the loops.
\<close>

definition root_visits :: "occurrence \<Rightarrow> pytype \<Rightarrow> (occurrence \<times> pytype) list" where
  "root_visits occ root =
     (case nested_containers root of Inl _ \<Rightarrow> [] | Inr vs \<Rightarrow> map (Pair occ) vs)"

definition context_visits :: "gen_context \<Rightarrow> (occurrence \<times> pytype) list" where
  "context_visits c =
     concat (map (root_visits (ctx_preset c, ctx_fork c)) (dict_values (handlers c)))"

definition visits :: "gen_context list \<Rightarrow> (occurrence \<times> pytype) list" where
  "visits cs = concat (map context_visits cs)"

lemma rfold_flatten:
  assumes "\<And>x u v. x \<in> set xs \<Longrightarrow> f x u = Inr v \<Longrightarrow> rfold g (h x) u = Inr v"
    and "rfold f xs s = Inr t"
  shows "rfold g (concat (map h xs)) s = Inr t"
  using assms by (induction xs arbitrary: s) (auto simp: result_simps rfold_append)

lemma rfold_map: "rfold f (map g xs) s = rfold (\<lambda>x. f (g x)) xs s"
  by (induction xs arbitrary: s) (auto intro: rbind_cong)

lemma collect_root_visits:
  "collect_root occ root u = Inr v \<Longrightarrow> rfold collect_value (root_visits occ root) u = Inr v"
  by (auto simp: collect_root_def root_visits_def result_simps rfold_map)

lemma collect_context_visits:
  "collect_context c u = Inr v \<Longrightarrow> rfold collect_value (context_visits c) u = Inr v"
  unfolding collect_context_def context_visits_def
  by (rule rfold_flatten [where f = "collect_root (ctx_preset c, ctx_fork c)"])
     (rule collect_root_visits)

lemma collect_visits:
  "rfold collect_context cs u = Inr v \<Longrightarrow> rfold collect_value (visits cs) u = Inr v"
  unfolding visits_def by (rule rfold_flatten [where f = collect_context]) (rule collect_context_visits)

text \<open>The dictionary after a sequence of visits.\<close>

definition shape_of_visits :: "(occurrence \<times> pytype) list \<Rightarrow> fingerprint \<Rightarrow> shape \<Rightarrow> bool" where
  "shape_of_visits vs fp s \<longleftrightarrow>
     sh_fingerprint s = fp \<and> type_fingerprint (sh_value s) = Inr fp \<and>
     sh_name s = type_name (sh_value s) \<and> sh_value s \<in> snd ` set vs \<and>
     set (occurrences s) = {occ. \<exists>v. (occ, v) \<in> set vs \<and> type_fingerprint v = Inr fp}"

definition collected :: "(occurrence \<times> pytype) list \<Rightarrow> shapes \<Rightarrow> bool" where
  "collected vs shapes \<longleftrightarrow>
     dict_wf shapes \<and>
     (\<forall>fp s. dict_get shapes fp = Some s \<longrightarrow> shape_of_visits vs fp s) \<and>
     (\<forall>ov\<in>set vs. \<exists>fp. type_fingerprint (snd ov) = Inr fp \<and> dict_get shapes fp \<noteq> None)"

lemma collectedD:
  assumes "collected vs shapes"
  shows "dict_wf shapes"
    and "dict_get shapes fp = Some s \<Longrightarrow> shape_of_visits vs fp s"
    and "(occ, v) \<in> set vs \<Longrightarrow> \<exists>fp s. type_fingerprint v = Inr fp \<and> dict_get shapes fp = Some s"
  using assms by (fastforce simp: collected_def)+

lemma collected_Nil: "collected [] []"
  by (simp add: collected_def dict_wf_def)

lemma collected_step:
  assumes inv: "collected vs shapes" and step: "collect_value (occ, v) shapes = Inr shapes'"
  shows "collected (vs @ [(occ, v)]) shapes'"
proof -
  from step obtain fp where fp: "type_fingerprint v = Inr fp"
    by (auto simp: collect_value_def result_simps)
  define old where "old = (case dict_get shapes fp of None \<Rightarrow> new_shape fp v | Some s \<Rightarrow> s)"
  define new where "new = old\<lparr>occurrences := set_add occ (occurrences old)\<rparr>"
  have shapes': "shapes' = dict_set shapes fp new"
    using step fp by (simp add: collect_value_def old_def new_def Let_def)
  note wf = collectedD(1) [OF inv] and shp = collectedD(2) [OF inv] and cov = collectedD(3) [OF inv]
  have new: "shape_of_visits (vs @ [(occ, v)]) fp new"
  proof (cases "dict_get shapes fp")
    case None
    then have "type_fingerprint w \<noteq> Inr fp" if "(o', w) \<in> set vs" for o' w
      using cov [OF that] by auto
    then show ?thesis using None fp
      by (auto simp: shape_of_visits_def new_def old_def new_shape_def)
  next
    case (Some s)
    with shp [OF Some] fp show ?thesis
      by (auto simp: shape_of_visits_def new_def old_def)
  qed
  have other: "shape_of_visits (vs @ [(occ, v)]) g s"
    if "dict_get shapes g = Some s" "g \<noteq> fp" for g s
    using shp [OF that(1)] fp that(2) by (auto simp: shape_of_visits_def)
  show ?thesis
    unfolding collected_def
  proof (intro conjI allI impI ballI)
    fix ov assume "ov \<in> set (vs @ [(occ, v)])"
    then consider "ov = (occ, v)" | "(fst ov, snd ov) \<in> set vs" by auto
    then show "\<exists>g. type_fingerprint (snd ov) = Inr g \<and> dict_get shapes' g \<noteq> None"
    proof cases
      case 2
      from cov [OF this] show ?thesis by (auto simp: shapes' dict_simps)
    qed (use fp in \<open>auto simp: shapes' dict_simps\<close>)
  qed (use wf new other in \<open>auto simp: shapes' dict_simps split: if_splits\<close>)
qed

lemma collect_collected:
  assumes "rfold collect_context cs [] = Inr shapes"
  shows "collected (visits cs) shapes"
proof (rule rfold_prefix_invariant [where P = collected, OF collect_visits [OF assms] collected_Nil])
  fix ys x u v assume "collected ys u" and "collect_value x u = Inr v"
  then show "collected (ys @ [x]) v" by (cases x) (auto intro: collected_step)
qed

text \<open>
  Visits are closed under the dependencies of a visited container, because a container's
  nested containers are listed with it; a dependency occurs in every context its user
  occurs in.
\<close>

lemma root_visits_mem:
  "(occ, v) \<in> set (root_visits o' root) \<longleftrightarrow>
     occ = o' \<and> (\<exists>vs. nested_containers root = Inr vs \<and> v \<in> set vs)"
  by (cases "nested_containers root") (auto simp: root_visits_def)

lemma visits_mem:
  "(occ, v) \<in> set (visits cs) \<longleftrightarrow>
     (\<exists>c\<in>set cs. \<exists>root\<in>set (dict_values (handlers c)).
        occ = (ctx_preset c, ctx_fork c) \<and> (\<exists>vs. nested_containers root = Inr vs \<and> v \<in> set vs))"
  by (simp add: visits_def context_visits_def root_visits_mem)

lemma visits_closed:
  assumes "(occ, v) \<in> set (visits cs)" and "type_fingerprint v = Inr fp"
    and "d \<in> set (fp_field_deps fp)"
  shows "\<exists>w. (occ, w) \<in> set (visits cs) \<and> type_fingerprint w = Inr d"
proof -
  from assms(1) obtain c root vs where c: "c \<in> set cs" "root \<in> set (dict_values (handlers c))"
    "occ = (ctx_preset c, ctx_fork c)" and vs: "nested_containers root = Inr vs" "v \<in> set vs"
    unfolding visits_mem by blast
  from nested_containers_dependency [OF vs assms(2,3)] obtain w
    where "w \<in> set vs" "type_fingerprint w = Inr d" by blast
  with c vs(1) show ?thesis unfolding visits_mem by blast
qed

section \<open>What naming computes\<close>

abbreviation symbol_set :: "shape \<Rightarrow> shape \<Rightarrow> bool" where
  "symbol_set s t \<equiv> \<exists>sym. t = s\<lparr>symbol := sym\<rparr>"

lemma symbol_set_refl: "symbol_set s s"
  by (rule exI [of _ "symbol s"]) simp

lemma set_symbol_step:
  "list_all2 (\<lambda>x y. fst x = fst y \<and> symbol_set (snd x) (snd y)) d (set_symbol a d)"
  by (auto simp: set_symbol_def list_all2_map2 symbol_set_refl intro!: list_all2_refl)

lemma set_symbol_rel:
  "list_all2 (\<lambda>x y. fst x = fst y \<and> symbol_set (snd x) (snd y)) d (fold set_symbol asg d)"
proof (induction asg arbitrary: d)
  case Nil
  show ?case by (auto simp: symbol_set_refl intro!: list_all2_refl)
next
  case (Cons a asg)
  have "list_all2 (\<lambda>x y. fst x = fst y \<and> symbol_set (snd x) (snd y)) d
      (fold set_symbol asg (set_symbol a d))"
    by (rule list_all2_trans [OF _ set_symbol_step Cons.IH]) auto
  then show ?case by simp
qed

lemma check_symbols_distinct:
  "rfold check_symbol ss seen = Inr t \<Longrightarrow> distinct seen \<Longrightarrow> distinct (seen @ map symbol ss)"
proof (induction ss arbitrary: seen)
  case (Cons s ss)
  then have "symbol s \<notin> set seen" and "rfold check_symbol ss (seen @ [symbol s]) = Inr t"
    by (auto simp: result_simps check_symbol_def [of s] split: if_splits)
  with Cons.IH [of "seen @ [symbol s]"] Cons.prems(2) show ?case by simp
qed simp

lemma assign_shape_names_E:
  assumes "assign_shape_names shapes = Inr shapes'"
  obtains declared assignments where
    "list_all2 (\<lambda>a b. fst a = fst b \<and> declare_shape (snd a) = Inr (snd b)) shapes declared"
    and "rmap (\<lambda>(name, variants). name_symbols name variants)
           (group_by sh_name (dict_values declared)) = Inr assignments"
    and "shapes' = fold set_symbol (concat assignments) declared"
    and "distinct (map symbol (dict_values shapes'))"
proof -
  have eq: "(\<lambda>a b. (case a of (k, s) \<Rightarrow> rbind (declare_shape s) (\<lambda>s'. Inr (k, s'))) = Inr b) =
      (\<lambda>a b. fst a = fst b \<and> declare_shape (snd a) = Inr (snd b))"
    by (auto simp: fun_eq_iff result_simps)
  from assms obtain declared assignments t where
    d: "rmap (\<lambda>(k, s). rbind (declare_shape s) (\<lambda>s'. Inr (k, s'))) shapes = Inr declared"
    and a: "rmap (\<lambda>(name, variants). name_symbols name variants)
           (group_by sh_name (dict_values declared)) = Inr assignments"
    and s: "shapes' = fold set_symbol (concat assignments) declared"
    and t: "rfold check_symbol (dict_values shapes') [] = Inr t"
    unfolding assign_shape_names_def Let_def rbind_Inr_iff by blast
  from d have "list_all2 (\<lambda>a b. fst a = fst b \<and> declare_shape (snd a) = Inr (snd b)) shapes declared"
    unfolding rmap_Inr_iff eq .
  moreover from check_symbols_distinct [OF t] have "distinct (map symbol (dict_values shapes'))" by simp
  ultimately show thesis using that a s by blast
qed

lemma assign_shape_names_rel:
  assumes "assign_shape_names shapes = Inr shapes'"
  shows "list_all2 (\<lambda>a b. fst a = fst b \<and>
           (\<exists>d sym. declare_shape (snd a) = Inr d \<and> snd b = d\<lparr>symbol := sym\<rparr>)) shapes shapes'"
  using assms
proof (rule assign_shape_names_E)
  fix declared assignments
  assume d: "list_all2 (\<lambda>a b. fst a = fst b \<and> declare_shape (snd a) = Inr (snd b)) shapes declared"
    and s: "shapes' = fold set_symbol (concat assignments) declared"
  show ?thesis
    unfolding s
    by (rule list_all2_trans [OF _ d set_symbol_rel [of declared "concat assignments"]]) auto
qed

section \<open>The invariant of collected shapes\<close>

text \<open>
  What the emitters rely on: keys are the fingerprints of the stored classes, every entry is
  a container declared in a known fork, every container a field refers to has an entry that is
  declared no later, and symbols are unique.
\<close>

definition dependency_ok :: "shapes \<Rightarrow> shape \<Rightarrow> fingerprint \<Rightarrow> bool" where
  "dependency_ok shapes s d \<longleftrightarrow>
     (\<exists>s' m n. dict_get shapes d = Some s' \<and> fork_index (declaration_fork s') = Inr m \<and>
        fork_index (declaration_fork s) = Inr n \<and> m \<le> n)"

definition shape_ok :: "shapes \<Rightarrow> fingerprint \<Rightarrow> shape \<Rightarrow> bool" where
  "shape_ok shapes fp s \<longleftrightarrow>
     sh_fingerprint s = fp \<and> type_fingerprint (sh_value s) = Inr fp \<and> is_container_fp fp \<and>
     declaration_fork s \<in> set FORKS \<and> (\<forall>d\<in>set (fp_field_deps fp). dependency_ok shapes s d)"

definition shapes_ok :: "shapes \<Rightarrow> bool" where
  "shapes_ok shapes \<longleftrightarrow>
     dict_wf shapes \<and> distinct (map symbol (dict_values shapes)) \<and>
     (\<forall>fp s. dict_get shapes fp = Some s \<longrightarrow> shape_ok shapes fp s)"

text \<open>A shape of the result is a collected one with its declaration fork and symbol filled in.\<close>

lemma collected_final:
  assumes "collect_shapes cs = Inr shapes" and "dict_get shapes fp = Some s"
  shows "\<exists>r d x. shape_of_visits (visits cs) fp r \<and> declare_shape r = Inr d \<and> s = d\<lparr>symbol := x\<rparr>"
proof -
  from assms(1) obtain raw where raw: "rfold collect_context cs [] = Inr raw"
    and named: "assign_shape_names raw = Inr shapes" by (auto simp: collect_shapes_def result_simps)
  from list_all2_dict_get [OF assign_shape_names_rel [OF named], of fp] assms(2)
  obtain r where "dict_get raw fp = Some r" "\<exists>d x. declare_shape r = Inr d \<and> s = d\<lparr>symbol := x\<rparr>"
    by (auto simp: rel_option_iff split: option.splits)
  with collectedD(2) [OF collect_collected [OF raw]] show ?thesis by blast
qed

lemma collected_visit:
  assumes "collect_shapes cs = Inr shapes" and "(occ, v) \<in> set (visits cs)"
  shows "\<exists>fp s. type_fingerprint v = Inr fp \<and> dict_get shapes fp = Some s \<and> occ \<in> set (occurrences s)"
proof -
  from assms(1) obtain raw where raw: "rfold collect_context cs [] = Inr raw"
    and named: "assign_shape_names raw = Inr shapes" by (auto simp: collect_shapes_def result_simps)
  from collectedD(3) [OF collect_collected [OF raw] assms(2)] obtain fp r
    where fp: "type_fingerprint v = Inr fp" "dict_get raw fp = Some r" by blast
  from collectedD(2) [OF collect_collected [OF raw] fp(2)] assms(2) fp(1)
  have "occ \<in> set (occurrences r)" by (auto simp: shape_of_visits_def)
  with list_all2_dict_get [OF assign_shape_names_rel [OF named], of fp] fp show ?thesis
    by (auto simp: rel_option_iff split: option.splits elim!: declare_shape_E)
qed

lemma collect_shapes_ok:
  assumes "collect_shapes cs = Inr shapes"
  shows "shapes_ok shapes"
proof -
  from assms obtain raw where raw: "rfold collect_context cs [] = Inr raw"
    and named: "assign_shape_names raw = Inr shapes"
    by (auto simp: collect_shapes_def result_simps)
  note col = collect_collected [OF raw] and rel = assign_shape_names_rel [OF named]
  have get: "\<exists>r d sym. dict_get raw fp = Some r \<and> declare_shape r = Inr d \<and> s = d\<lparr>symbol := sym\<rparr>"
    if "dict_get shapes fp = Some s" for fp s
    using list_all2_dict_get [OF rel, of fp] that by (auto simp: rel_option_iff split: option.splits)
  have get': "\<exists>d sym. declare_shape r = Inr d \<and> dict_get shapes fp = Some (d\<lparr>symbol := sym\<rparr>)"
    if "dict_get raw fp = Some r" for fp r
    using list_all2_dict_get [OF rel, of fp] that by (auto simp: rel_option_iff split: option.splits)
  have "shape_ok shapes fp s" if s: "dict_get shapes fp = Some s" for fp s
  proof -
    from get [OF s] obtain r d sym where r: "dict_get raw fp = Some r"
      and d: "declare_shape r = Inr d" and sd: "s = d\<lparr>symbol := sym\<rparr>" by blast
    from collectedD(2) [OF col r] have v: "shape_of_visits (visits cs) fp r" .
    from d obtain occ where occ: "py_min_key occurrence_order (occurrences r) = Inr occ"
      and d': "d = r\<lparr>declaration_fork := snd occ\<rparr>" by (rule declare_shape_E)
    have dep: "dependency_ok shapes s g" if g: "g \<in> set (fp_field_deps fp)" for g
    proof -
      have cl: "\<exists>w. (o', w) \<in> set (visits cs) \<and> type_fingerprint w = Inr g"
        if "o' \<in> set (occurrences r)" for o'
      proof -
        from that v obtain w where "(o', w) \<in> set (visits cs)" "type_fingerprint w = Inr fp"
          unfolding shape_of_visits_def by blast
        from visits_closed [OF this g] show ?thesis .
      qed
      from cl [OF py_min_key_mem [OF occ]] collectedD(3) [OF col] obtain r'
        where r': "dict_get raw g = Some r'" by fastforce
      from collectedD(2) [OF col this] cl have "set (occurrences r) \<subseteq> set (occurrences r')"
        by (auto simp: shape_of_visits_def)
      moreover from get' [OF r'] obtain d2 sym2 where d2: "declare_shape r' = Inr d2"
        "dict_get shapes g = Some (d2\<lparr>symbol := sym2\<rparr>)" by blast
      ultimately show ?thesis
        using declare_shape_mono [OF d d2(1)] by (auto simp: dependency_ok_def sd)
    qed
    have "is_container_fp fp"
      using v nested_containers_kind by (fastforce simp: shape_of_visits_def visits_mem
          is_container_fp_def dest: kind_of_fingerprint)
    moreover have "declaration_fork s \<in> set FORKS"
      using min_occurrence_fork [OF occ py_min_key_mem [OF occ]] by (auto simp: sd d' py_index_mem)
    ultimately show ?thesis using v dep by (auto simp: shape_ok_def shape_of_visits_def sd d')
  qed
  moreover have "dict_wf shapes"
    using collectedD(1) [OF col] list_all2_dict_keys [OF rel] by (simp add: dict_wf_def)
  ultimately show ?thesis
    using assign_shape_names_E [OF named] by (auto simp: shapes_ok_def)
qed

section \<open>Symbols\<close>

text \<open>
  The rule behind the groups of \<^const>\<open>assign_shape_names\<close>: a class name that has one shape is
  the symbol; otherwise the fork of the first occurrence is appended, and its preset too when
  several shapes of the name share that fork.
\<close>

definition first_preset :: "shape \<Rightarrow> string" where
  "first_preset s =
     (case py_min_key occurrence_order (occurrences s) of Inl _ \<Rightarrow> [] | Inr occ \<Rightarrow> fst occ)"

definition expected_symbol :: "shape list \<Rightarrow> shape \<Rightarrow> string" where
  "expected_symbol ss s =
     (let variants = filter (\<lambda>t. sh_name t = sh_name s) ss;
          base = sh_name s @ pascal (declaration_fork s);
          collisions = filter (\<lambda>t. sh_name t @ pascal (declaration_fork t) = base) variants
      in if length variants = 1 then sh_name s
         else if length collisions = 1 then base
         else base @ pascal (first_preset s))"

abbreviation assignment :: "shape list \<Rightarrow> shape \<Rightarrow> fingerprint \<times> string" where
  "assignment ss s \<equiv> (sh_fingerprint s, expected_symbol ss s)"

lemma collision_symbols:
  assumes "rmap (collision_symbol base) cs = Inr asg"
  shows "set asg = (\<lambda>s. (sh_fingerprint s, base @ pascal (first_preset s))) ` set cs"
proof -
  have "list_all2 (\<lambda>s a. a = (sh_fingerprint s, base @ pascal (first_preset s))) cs asg"
    using assms by (auto simp: rmap_Inr_iff collision_symbol_def rbind_Inr_iff first_preset_def
        elim!: list_all2_mono)
  then show ?thesis by (induction rule: list_all2_induct) auto
qed

lemma base_symbols_set:
  assumes "base_symbols base cs = Inr asg" and "cs \<noteq> []"
  shows "set asg = (\<lambda>s. (sh_fingerprint s,
           if length cs = 1 then base else base @ pascal (first_preset s))) ` set cs"
proof (cases "length cs = 1")
  case True
  then obtain s where "cs = [s]" by (auto simp: length_Suc_conv)
  with assms show ?thesis by (auto simp: base_symbols_def)
next
  case False
  with assms have "rmap (collision_symbol base) cs = Inr asg"
    by (auto simp: base_symbols_def split: list.splits)
  with collision_symbols False show ?thesis by simp
qed

lemma name_symbols_set:
  assumes asg: "name_symbols name variants = Inr asg"
    and variants: "variants = filter (\<lambda>t. sh_name t = name) ss" and "variants \<noteq> []"
  shows "set asg = assignment ss ` set variants"
proof (cases "length variants = 1")
  case True
  then obtain s where "variants = [s]" by (auto simp: length_Suc_conv)
  moreover from this variants have "filter (\<lambda>t. sh_name t = sh_name s) ss = [s]" "sh_name s = name"
    using filter_set [of "\<lambda>t. sh_name t = name" ss] by auto
  ultimately show ?thesis using asg by (auto simp: name_symbols_def expected_symbol_def Let_def)
next
  case False
  let ?base = "\<lambda>s. name @ pascal (declaration_fork s)"
  let ?groups = "group_by ?base variants"
  have name: "sh_name s = name" if "s \<in> set variants" for s using that variants by simp
  from asg False assms(3) obtain parts where parts: "asg = concat parts"
    and all: "rmap (\<lambda>(base, collisions). base_symbols base collisions) ?groups = Inr parts"
    by (auto simp: name_symbols_def rbind_Inr_iff split: list.splits)
  have part: "set p = assignment ss ` set cs" if "(b, cs) \<in> set ?groups"
    and "base_symbols b cs = Inr p" for b cs p
  proof -
    note cs = group_by_mem [OF that(1)]
    have "expected_symbol ss s = (if length cs = 1 then b else b @ pascal (first_preset s))"
      if "s \<in> set cs" for s
    proof -
      from that cs(1) have s: "s \<in> set variants" "?base s = b" by auto
      then have "filter (\<lambda>t. sh_name t @ pascal (declaration_fork t) = b) variants = cs"
        unfolding cs(1) using name by (intro filter_cong) auto
      with s name [OF s(1)] False variants show ?thesis by (auto simp: expected_symbol_def Let_def)
    qed
    then show ?thesis by (auto simp: base_symbols_set [OF that(2) cs(2)])
  qed
  show ?thesis unfolding parts by (rule group_by_pass [OF all]) (simp add: part)
qed

lemma all_symbols_set:
  assumes "rmap (\<lambda>(name, variants). name_symbols name variants) (group_by sh_name ss) = Inr asgs"
  shows "set (concat asgs) = assignment ss ` set ss"
proof (rule group_by_pass [OF assms])
  fix n g p assume g: "(n, g) \<in> set (group_by sh_name ss)"
    and p: "(case (n, g) of (name, variants) \<Rightarrow> name_symbols name variants) = Inr p"
  from p have "name_symbols n g = Inr p" by simp
  from name_symbols_set [OF this group_by_mem [OF g]] show "set p = assignment ss ` set g" .
qed

lemma fold_set_symbol:
  fixes d :: shapes
  assumes "\<forall>a\<in>set asg. snd a = mk (fst a)"
  shows "fold set_symbol asg d = map (\<lambda>(k, s).
           (k, if sh_fingerprint s \<in> fst ` set asg then s\<lparr>symbol := mk (sh_fingerprint s)\<rparr> else s)) d"
  using assms
proof (induction asg arbitrary: d)
  case (Cons a asg)
  then have "snd a = mk (fst a)" by simp
  with Cons show ?case by (auto simp: set_symbol_def)
qed (simp add: case_prod_beta)

lemma expected_symbol_ignores_symbol:
  assumes "list_all2 symbol_set ss ts"
  shows "expected_symbol ts (s\<lparr>symbol := x\<rparr>) = expected_symbol ss s"
proof -
  have len: "length (filter P ts) = length (filter P ss)" if "\<And>u y. P (u\<lparr>symbol := y\<rparr>) = P u" for P
    using assms by (induction rule: list_all2_induct) (auto simp: that)
  show ?thesis by (simp add: expected_symbol_def Let_def first_preset_def len)
qed

lemma assigned_symbols:
  assumes named: "assign_shape_names raw = Inr shapes" and wf: "dict_wf raw"
    and keys: "\<forall>(k, s)\<in>set raw. sh_fingerprint s = k" and s: "s \<in> set (dict_values shapes)"
  shows "symbol s = expected_symbol (dict_values shapes) s"
  using named
proof (rule assign_shape_names_E)
  fix declared asgs
  assume d: "list_all2 (\<lambda>a b. fst a = fst b \<and> declare_shape (snd a) = Inr (snd b)) raw declared"
    and asgs: "rmap (\<lambda>(name, variants). name_symbols name variants)
           (group_by sh_name (dict_values declared)) = Inr asgs"
    and shapes: "shapes = fold set_symbol (concat asgs) declared"
  let ?ss = "dict_values declared"
  define mk where "mk fp = expected_symbol ?ss (the (dict_get declared fp))" for fp
  have wfd: "dict_wf declared" using wf list_all2_dict_keys [OF d] by (simp add: dict_wf_def)
  have fp: "sh_fingerprint t = k" if "(k, t) \<in> set declared" for k t
    using list_all2_rightD [OF d that] keys by (fastforce elim: declare_shape_E)
  have get: "dict_get declared (sh_fingerprint t) = Some t" if "t \<in> set ?ss" for t
    using that wfd fp by (auto simp: dict_wf_def)
  note set_asgs = all_symbols_set [OF asgs]
  have "\<forall>a\<in>set (concat asgs). snd a = mk (fst a)"
    unfolding set_asgs by (auto simp: mk_def get)
  from fold_set_symbol [OF this, of declared]
  have eq: "shapes = map (\<lambda>(k, t). (k, t\<lparr>symbol := mk (sh_fingerprint t)\<rparr>)) declared"
    unfolding shapes set_asgs by (force intro!: map_cong)
  with s obtain t where t: "t \<in> set ?ss" "s = t\<lparr>symbol := mk (sh_fingerprint t)\<rparr>"
    by force
  have rel: "list_all2 symbol_set ?ss (dict_values shapes)"
    unfolding eq by (auto simp: list_all2_map1 list_all2_map2 intro!: list_all2_refl)
  from expected_symbol_ignores_symbol [OF rel] t get show ?thesis by (simp add: mk_def)
qed

lemma collected_symbols:
  assumes "collect_shapes cs = Inr shapes" and "s \<in> set (dict_values shapes)"
  shows "symbol s = expected_symbol (dict_values shapes) s"
proof -
  from assms(1) obtain raw where raw: "rfold collect_context cs [] = Inr raw"
    and named: "assign_shape_names raw = Inr shapes"
    by (auto simp: collect_shapes_def result_simps)
  note col = collect_collected [OF raw]
  have "\<forall>(k, s)\<in>set raw. sh_fingerprint s = k"
    using collectedD(1,2) [OF col] by (force simp: dict_wf_def shape_of_visits_def)
  from assigned_symbols [OF named collectedD(1) [OF col] this assms(2)] show ?thesis .
qed

section \<open>Loading and collecting succeed\<close>

text \<open>
  A shape is named \<open>fingerprintable\<close> when every attribute the generator reads from it is
  there. Collecting such handlers can only fail on a symbol collision.
\<close>

definition context_ok :: "gen_context \<Rightarrow> bool" where
  "context_ok c \<longleftrightarrow> valid_occurrence (ctx_preset c, ctx_fork c) \<and>
     (\<forall>root\<in>set (dict_values (handlers c)). \<exists>fp. type_fingerprint root = Inr fp)"

lemma collect_value_total:
  "type_fingerprint v = Inr fp \<Longrightarrow> \<exists>t. collect_value (occ, v) u = Inr t"
  by (simp add: collect_value_def Let_def)

lemma collect_root_total:
  assumes "type_fingerprint root = Inr fp"
  shows "\<exists>t. collect_root occ root u = Inr t"
proof -
  from nested_containers_fp [OF assms] obtain vs where vs: "nested_containers root = Inr vs"
    and fps: "rmap type_fingerprint vs = Inr (fp_nested fp)" by blast
  have "\<exists>t. rfold (\<lambda>v. collect_value (occ, v)) vs u = Inr t \<and> True"
    by (rule rfold_succeeds) (use rmap_memberD [OF fps] collect_value_total in blast)+
  with vs show ?thesis by (simp add: collect_root_def)
qed

lemma collect_contexts_total:
  assumes "\<forall>c\<in>set cs. context_ok c"
  shows "\<exists>raw. rfold collect_context cs [] = Inr raw"
proof -
  have "\<exists>t. collect_context c u = Inr t \<and> True" if "c \<in> set cs" for c u
    unfolding collect_context_def
    by (rule rfold_succeeds) (use assms that collect_root_total in \<open>force simp: context_ok_def\<close>)+
  then have "\<exists>raw. rfold collect_context cs [] = Inr raw \<and> True"
    by (intro rfold_succeeds) auto
  then show ?thesis by simp
qed

lemma load_context_E:
  assumes "load_context iterdir getattr occ = Inr c"
  obtains names hs where "fixture_handlers iterdir (fst occ) (snd occ) = Inr names"
    and "rfold (add_handler (getattr (snd occ) (fst occ))) names [] = Inr hs"
    and "c = \<lparr>ctx_preset = fst occ, ctx_fork = snd occ, handlers = hs\<rparr>"
  using assms by (cases occ) (auto simp: load_context_def rbind_Inr_iff)

lemma add_handlers_containers:
  assumes "rfold (add_handler m) names [] = Inr hs"
  shows "dict_wf hs" and "set (dict_keys hs) = set names"
    and "\<forall>nv\<in>set hs. m (fst nv) = Some (snd nv)
           \<and> kind (snd nv) \<in> {Inr container, Inr progressive_container}"
proof -
  let ?P = "\<lambda>ns hs. dict_wf hs \<and> set (dict_keys hs) = set ns \<and>
    (\<forall>n v. dict_get hs n = Some v \<longrightarrow> m n = Some v
       \<and> kind v \<in> {Inr container, Inr progressive_container})"
  have "?P names hs"
  proof (rule rfold_prefix_invariant [where P = ?P, OF assms])
    fix ys x u v assume inv: "?P ys u" and step: "add_handler m x u = Inr v"
    from step obtain t where "m x = Some t" "kind t \<in> {Inr container, Inr progressive_container}"
      "v = dict_set u x t"
      by (auto simp: add_handler_def result_simps split: if_splits)
    with inv show "?P (ys @ [x]) v" by (auto simp: dict_simps simp del: map_map)
  qed (simp add: dict_wf_def)
  then show "dict_wf hs" and "set (dict_keys hs) = set names"
    and "\<forall>nv\<in>set hs. m (fst nv) = Some (snd nv)
           \<and> kind (snd nv) \<in> {Inr container, Inr progressive_container}"
    by (auto simp: dict_wf_def) blast+
qed

lemma load_contexts_occurrences:
  assumes "load_contexts iterdir getattr = Inr cs"
  shows "map (\<lambda>c. (ctx_preset c, ctx_fork c)) cs = List.product PRESETS FORKS"
proof -
  from assms have "list_all2 (\<lambda>occ c. load_context iterdir getattr occ = Inr c)
      (List.product PRESETS FORKS) cs" by (simp add: load_contexts_def rmap_Inr_iff)
  then show ?thesis
    by (induction rule: list_all2_induct) (auto elim!: load_context_E)
qed

end
