(* ===== verification/Ssz_Emit.thy ===== *)
theory Ssz_Emit
  imports Ssz_Shapes
begin

text \<open>
  The third part of the schema generator: the Zig text. A class is rendered twice, as a Zig
  type and as a codec expression; the shapes of a fork are ordered so that a container
  follows the containers of the same fork it refers to; and the modules and the index are
  lists of lines. The results say that rendering depends on the fingerprint only, that the
  order is a complete topological order, and that rendering collected shapes never raises.
\<close>

section \<open>Types and codecs\<close>

definition MAX_INLINE_FIXED_STORAGE :: nat where
  "MAX_INLINE_FIXED_STORAGE = 256"

definition container_ref :: "shapes \<Rightarrow> string \<Rightarrow> pytype \<Rightarrow> string result" where
  "container_ref shapes current_fork value =
     rbind (shape_for value shapes) (\<lambda>s. shape_ref s current_fork)"

function zig_type :: "shapes \<Rightarrow> string \<Rightarrow> pytype \<Rightarrow> string result" where
  "zig_type shapes current_fork value =
     rbind (kind value) (\<lambda>value_kind.
       (case value_kind of
          boolean \<Rightarrow> Inr ''bool''
        | uint \<Rightarrow> uint_name value
        | byte_vector \<Rightarrow> rbind (vector_length value) (\<lambda>length.
            Inr (if length \<le> MAX_INLINE_FIXED_STORAGE then ''['' @ show_nat length @ '']u8''
                 else ''[]const u8''))
        | byte_list \<Rightarrow> Inr ''[]const u8''
        | bitvector \<Rightarrow> rbind (vector_length value) (\<lambda>length.
            Inr (if length \<le> MAX_INLINE_FIXED_STORAGE then ''['' @ show_nat length @ '']bool''
                 else ''[]const bool''))
        | bitlist \<Rightarrow> Inr ''[]const bool''
        | progressive_bitlist \<Rightarrow> Inr ''[]const bool''
        | vector \<Rightarrow> rbind (element_cls value) (\<lambda>e.
            rbind (zig_type shapes current_fork e) (\<lambda>t. Inr (''[]const '' @ t)))
        | list \<Rightarrow> rbind (element_cls value) (\<lambda>e.
            rbind (zig_type shapes current_fork e) (\<lambda>t. Inr (''[]const '' @ t)))
        | progressive_list \<Rightarrow> rbind (element_cls value) (\<lambda>e.
            rbind (zig_type shapes current_fork e) (\<lambda>t. Inr (''[]const '' @ t)))
        | container \<Rightarrow> container_ref shapes current_fork value
        | progressive_container \<Rightarrow> container_ref shapes current_fork value))"
  by pat_completeness auto
termination
  by (relation "measure (\<lambda>(shapes, fork, v). size v)") (auto simp: termination_simp)

definition call :: "string \<Rightarrow> string \<Rightarrow> string" where
  "call f arg = f @ ''('' @ arg @ '')''"

definition storage_codec :: "string \<Rightarrow> nat \<Rightarrow> string" where
  "storage_codec f n =
     (let base = call f (show_nat n) in
      if n \<le> MAX_INLINE_FIXED_STORAGE then base else call ''ssz.Alloc'' base)"

definition vector_codec :: "string \<Rightarrow> nat \<Rightarrow> string" where
  "vector_codec child n = call ''ssz.Alloc'' (call ''ssz.VectorOf'' (child @ '', '' @ show_nat n))"

definition list_codec :: "string \<Rightarrow> nat \<Rightarrow> string" where
  "list_codec child n = call ''ssz.ListOf'' (child @ '', '' @ show_nat n)"

text \<open>The test \<^verbatim>\<open>kind(child) == "uint" and uint_name(child) == "u8"\<close>.\<close>

definition is_byte_class :: "pytype \<Rightarrow> bool result" where
  "is_byte_class child =
     rbind (kind child) (\<lambda>child_kind.
       if child_kind = uint then rbind (uint_name child) (\<lambda>n. Inr (n = ''u8'')) else Inr False)"

text \<open>
  The branches of \<^verbatim>\<open>codec_expr\<close> that do not look at an element class, and the text around an
  element's codec.
\<close>

definition basic_codec :: "shapes \<Rightarrow> string \<Rightarrow> pytype \<Rightarrow> string result" where
  "basic_codec shapes current_fork value =
     rbind (zig_type shapes current_fork value) (\<lambda>t. Inr (call ''ssz.Fixed'' t))"

definition byte_vector_codec :: "pytype \<Rightarrow> string result" where
  "byte_vector_codec value = rbind (vector_length value) (\<lambda>n. Inr (storage_codec ''ssz.ByteVector'' n))"

definition byte_list_codec :: "pytype \<Rightarrow> string result" where
  "byte_list_codec value = rbind (limit value) (\<lambda>n. Inr (call ''ssz.ByteList'' (show_nat n)))"

definition bitvector_codec :: "pytype \<Rightarrow> string result" where
  "bitvector_codec value = rbind (vector_length value) (\<lambda>n. Inr (storage_codec ''ssz.Bitvector'' n))"

definition bitlist_codec :: "pytype \<Rightarrow> string result" where
  "bitlist_codec value = rbind (limit value) (\<lambda>n. Inr (call ''ssz.Bitlist'' (show_nat n)))"

definition progressive_bitlist_codec :: string where
  "progressive_bitlist_codec = ''ssz.ProgressiveBitlist''"

definition progressive_byte_list_codec :: string where
  "progressive_byte_list_codec = ''ssz.ProgressiveByteList''"

definition progressive_list_codec :: "string \<Rightarrow> string" where
  "progressive_list_codec t = call ''ssz.ProgressiveListOf'' t"

definition container_codec :: "shapes \<Rightarrow> string \<Rightarrow> pytype \<Rightarrow> string result" where
  "container_codec shapes current_fork value =
     rbind (container_ref shapes current_fork value) (\<lambda>r. Inr (r @ ''.Ssz''))"

function codec_expr :: "shapes \<Rightarrow> string \<Rightarrow> pytype \<Rightarrow> string result" where
  "codec_expr shapes current_fork value =
     rbind (kind value) (\<lambda>value_kind.
       (case value_kind of
          boolean \<Rightarrow> basic_codec shapes current_fork value
        | uint \<Rightarrow> basic_codec shapes current_fork value
        | byte_vector \<Rightarrow> byte_vector_codec value
        | byte_list \<Rightarrow> byte_list_codec value
        | bitvector \<Rightarrow> bitvector_codec value
        | bitlist \<Rightarrow> bitlist_codec value
        | progressive_bitlist \<Rightarrow> Inr progressive_bitlist_codec
        | vector \<Rightarrow> rbind (element_cls value) (\<lambda>e.
            rbind (codec_expr shapes current_fork e) (\<lambda>child.
              rbind (vector_length value) (\<lambda>n. Inr (vector_codec child n))))
        | list \<Rightarrow> rbind (element_cls value) (\<lambda>e.
            rbind (codec_expr shapes current_fork e) (\<lambda>child.
              rbind (limit value) (\<lambda>n. Inr (list_codec child n))))
        | progressive_list \<Rightarrow> rbind (element_cls value) (\<lambda>child.
            rbind (is_byte_class child) (\<lambda>bytes.
              if bytes then Inr progressive_byte_list_codec
              else rbind (codec_expr shapes current_fork child) (\<lambda>t.
                     Inr (progressive_list_codec t))))
        | container \<Rightarrow> container_codec shapes current_fork value
        | progressive_container \<Rightarrow> container_codec shapes current_fork value))"
  by pat_completeness auto
termination
  by (relation "measure (\<lambda>(shapes, fork, v). size v)") (auto simp: termination_simp)

declare zig_type.simps [simp del]
declare codec_expr.simps [simp del]

definition needs_override :: "pytype \<Rightarrow> bool result" where
  "needs_override value =
     rbind (kind value) (\<lambda>value_kind.
       if value_kind \<in> {boolean, uint, container, progressive_container} then Inr False
       else if value_kind = byte_vector then
         rbind (vector_length value) (\<lambda>n. Inr (MAX_INLINE_FIXED_STORAGE < n))
       else Inr True)"

section \<open>Ordering the shapes of a fork\<close>

type_synonym visit_state = "fingerprint list \<times> shape list"

lemma shape_for_mem:
  "shape_for v shapes = Inr s \<Longrightarrow> s \<in> set (dict_values shapes)"
  by (force simp: shape_for_def result_simps dest: map_of_SomeD)

text \<open>
  Depth-first visiting terminates because the fingerprints of the dictionary that are not yet
  on the path decrease; a start shape from outside the dictionary counts one more.
\<close>

definition visit_weight :: "shapes \<Rightarrow> fingerprint list \<Rightarrow> shape \<Rightarrow> nat" where
  "visit_weight shapes visiting s =
     (let S = sh_fingerprint ` set (dict_values shapes)
      in 2 * card (S - set visiting) + (if sh_fingerprint s \<in> S then 0 else 1))"

lemma visit_weight_decreases:
  assumes "shape_for v shapes = Inr s'" and "sh_fingerprint s \<notin> set visiting"
  shows "visit_weight shapes (sh_fingerprint s # visiting) s' < visit_weight shapes visiting s"
proof -
  define S where "S = sh_fingerprint ` set (dict_values shapes)"
  have fin: "finite S" and s': "sh_fingerprint s' \<in> S"
    using shape_for_mem [OF assms(1)] by (simp_all add: S_def)
  show ?thesis
  proof (cases "sh_fingerprint s \<in> S")
    case True
    with assms(2) fin have "card (S - set (sh_fingerprint s # visiting)) < card (S - set visiting)"
      by (intro psubset_card_mono) auto
    with True s' show ?thesis unfolding visit_weight_def Let_def S_def [symmetric] by simp
  next
    case False
    then have "S - set (sh_fingerprint s # visiting) = S - set visiting" by auto
    with False s' show ?thesis unfolding visit_weight_def Let_def S_def [symmetric] by simp
  qed
qed

text \<open>
  The nested function \<^verbatim>\<open>visit\<close>. It adds its fingerprint to \<open>visiting\<close> on entry and removes it
  on exit, so \<open>visiting\<close> is an argument here; \<open>visited\<close> and \<open>ordered\<close> are the state.
\<close>

function visit :: "shapes \<Rightarrow> string \<Rightarrow> fingerprint list \<Rightarrow> shape \<Rightarrow> visit_state \<Rightarrow> visit_state result" where
  "visit shapes fork visiting s st =
     (if sh_fingerprint s \<in> set (fst st) then Inr st
      else if sh_fingerprint s \<in> set visiting
      then Inl (TypeError (''recursive container dependency at '' @ symbol s))
      else rbind (type_fields (sh_value s)) (\<lambda>fs.
           rbind (rfold (\<lambda>(name, field_type) st.
             rbind (direct_container_dependencies field_type) (\<lambda>dependencies.
               rfold (\<lambda>dependency st.
                 rbind (shape_for dependency shapes) (\<lambda>dependency_shape.
                   if declaration_fork dependency_shape = fork
                   then visit shapes fork (sh_fingerprint s # visiting) dependency_shape st
                   else rbind (fork_index (declaration_fork dependency_shape)) (\<lambda>d.
                        rbind (fork_index fork) (\<lambda>c.
                          if c < d then Inl (TypeError (symbol s @ '' depends on a future fork''))
                          else Inr st)))) dependencies st)) fs st)
             (\<lambda>st. Inr (fst st @ [sh_fingerprint s], snd st @ [s]))))"
  by pat_completeness auto
termination
  by (relation "measure (\<lambda>(shapes, fork, visiting, s, st). visit_weight shapes visiting s)")
     (auto intro: visit_weight_decreases)

declare visit.simps [simp del]

definition selected_shapes :: "string \<Rightarrow> shapes \<Rightarrow> shape list" where
  "selected_shapes fork shapes = filter (\<lambda>s. declaration_fork s = fork) (dict_values shapes)"

definition ordered_shapes_for_fork :: "string \<Rightarrow> shapes \<Rightarrow> shape list result" where
  "ordered_shapes_for_fork fork shapes =
     rbind (rfold (visit shapes fork []) (sort_key symbol (selected_shapes fork shapes)) ([], []))
       (\<lambda>st. Inr (snd st))"

section \<open>Modules and index\<close>

definition quoted :: "string \<Rightarrow> string" where
  "quoted s = CHR 0x22 # s @ [CHR 0x22]"

definition field_line :: "shapes \<Rightarrow> string \<Rightarrow> string \<times> pytype \<Rightarrow> string result" where
  "field_line shapes fork nt =
     rbind (zig_type shapes fork (snd nt)) (\<lambda>t.
       Inr (''    @'' @ quoted (fst nt) @ '': '' @ t @ '',''))"

definition override_line :: "shapes \<Rightarrow> string \<Rightarrow> string \<times> pytype \<Rightarrow> string list result" where
  "override_line shapes fork nt =
     rbind (needs_override (snd nt)) (\<lambda>override.
       if override
       then rbind (codec_expr shapes fork (snd nt)) (\<lambda>c.
              Inr [''        .@'' @ quoted (fst nt) @ '' = '' @ c @ '',''])
       else Inr [])"

definition emit_container :: "shape \<Rightarrow> shapes \<Rightarrow> string \<Rightarrow> string list result" where
  "emit_container s shapes fork =
     rbind (type_fields (sh_value s)) (\<lambda>fs.
     rbind (rmap (field_line shapes fork) fs) (\<lambda>field_lines.
     rbind (kind (sh_value s)) (\<lambda>k.
     rbind (if k = progressive_container
            then rbind (active_fields (sh_value s)) (\<lambda>active.
                   Inr (''    pub const Ssz = ssz.ProgressiveContainer(@This(), [_]bool{ ''
                     @ join '', '' (map (\<lambda>item. if item then ''true'' else ''false'') active)
                     @ '' }, .{''))
            else Inr ''    pub const Ssz = ssz.Container(@This(), .{'') (\<lambda>codec_line.
     rbind (rmap (override_line shapes fork) fs) (\<lambda>overrides.
       Inr ([''pub const '' @ symbol s @ '' = struct {''] @ field_lines @ [''''] @ [codec_line]
            @ concat overrides @ [''    });'', ''};'', '''']))))))"

definition type_dependency_forks :: "shapes \<Rightarrow> string \<Rightarrow> string \<times> pytype \<Rightarrow> string list result" where
  "type_dependency_forks shapes fork nt =
     rbind (direct_container_dependencies (snd nt)) (\<lambda>dependencies.
     rbind (rmap (\<lambda>dependency. shape_for dependency shapes) dependencies) (\<lambda>ss.
       Inr (filter (\<lambda>f. f \<noteq> fork) (map declaration_fork ss))))"

definition shape_dependency_forks :: "shapes \<Rightarrow> string \<Rightarrow> shape \<Rightarrow> string list result" where
  "shape_dependency_forks shapes fork s =
     rbind (type_fields (sh_value s)) (\<lambda>fs.
     rbind (rmap (type_dependency_forks shapes fork) fs) (\<lambda>forks. Inr (concat forks)))"

definition import_line :: "string \<Rightarrow> string" where
  "import_line f = ''const '' @ f @ ''_types = @import('' @ quoted (f @ ''.zig'') @ '');''"

definition emit_fork_lines :: "string \<Rightarrow> shapes \<Rightarrow> string list result" where
  "emit_fork_lines fork shapes =
     rbind (ordered_shapes_for_fork fork shapes) (\<lambda>ordered.
     rbind (rmap (shape_dependency_forks shapes fork) ordered) (\<lambda>referenced.
     rbind (fork_index fork) (\<lambda>index.
     rbind (rmap (\<lambda>s. emit_container s shapes fork) ordered) (\<lambda>containers.
       Inr ([''//! Generated from the consensus-specs resolved pyspec pinned by eest/consensus.zon.'',
             ''//! Unique named schema shapes first required at '' @ fork @ ''.'',
             ''//! Regenerate with scripts/generate-consensus-ssz-schemas.py.'',
             '''',
             ''const ssz = @import('' @ quoted ''ssz'' @ '');'']
            @ map import_line (filter (\<lambda>f. f \<in> set (concat referenced)) (take index FORKS))
            @ [''''] @ concat containers)))))"

definition emit_fork_module :: "string \<Rightarrow> shapes \<Rightarrow> string result" where
  "emit_fork_module fork shapes =
     rbind (emit_fork_lines fork shapes) (\<lambda>lines. Inr (join [newline] lines))"

definition handler_line :: "shapes \<Rightarrow> string \<times> pytype \<Rightarrow> string result" where
  "handler_line shapes nv =
     rbind (shape_for (snd nv) shapes) (\<lambda>s.
       Inr (''            .{ .name = '' @ quoted (fst nv) @ '', .codec = ''
            @ declaration_fork s @ ''_types.'' @ symbol s @ ''.Ssz },''))"

definition context_lines :: "(occurrence, gen_context) dict \<Rightarrow> shapes \<Rightarrow> string \<Rightarrow> string \<Rightarrow> string list result" where
  "context_lines by_context shapes preset fork =
     rbind (dict_index snd by_context (preset, fork)) (\<lambda>c.
     rbind (rmap (handler_line shapes) (handlers c)) (\<lambda>hs.
       Inr ([''    pub const '' @ fork @ '' = struct {'', ''        pub const handlers = .{'']
            @ hs @ [''        };'', ''    };''])))"

definition preset_lines :: "(occurrence, gen_context) dict \<Rightarrow> shapes \<Rightarrow> string \<Rightarrow> string list result" where
  "preset_lines by_context shapes preset =
     rbind (rmap (context_lines by_context shapes preset) FORKS) (\<lambda>forks.
       Inr ([''pub const '' @ preset @ '' = struct {''] @ concat forks @ [''};'', '''']))"

definition contexts_by_occurrence :: "gen_context list \<Rightarrow> (occurrence, gen_context) dict" where
  "contexts_by_occurrence contexts = fold (\<lambda>c d. dict_set d (ctx_preset c, ctx_fork c) c) contexts []"

definition emit_index :: "string \<Rightarrow> gen_context list \<Rightarrow> shapes \<Rightarrow> string result" where
  "emit_index version contexts shapes =
     rbind (rmap (preset_lines (contexts_by_occurrence contexts) shapes) PRESETS) (\<lambda>presets.
       Inr (join [newline]
         ([''//! Generated from the consensus-specs resolved pyspec pinned by eest/consensus.zon.'',
           ''//! Maps preset/fork fixture names to deduplicated schema codecs.'',
           ''//! Regenerate with scripts/generate-consensus-ssz-schemas.py.'',
           '''',
           ''pub const source_release = '' @ quoted version @ '';'',
           '''',
           ''pub const Preset = enum {'']
          @ map (\<lambda>preset. ''    '' @ preset @ '','') PRESETS @ [''};'', '''']
          @ [''pub const Fork = enum {''] @ map (\<lambda>fork. ''    '' @ fork @ '','') FORKS @ [''};'', '''']
          @ map import_line FORKS @ [''''] @ concat presets)))"

section \<open>Rendering depends on the fingerprint only\<close>

text \<open>
  The same functions, computed from a fingerprint. Rendering a class agrees with rendering
  its fingerprint, so classes with equal fingerprints are rendered alike.
\<close>

definition ref_fp :: "shapes \<Rightarrow> string \<Rightarrow> fingerprint \<Rightarrow> string \<Rightarrow> string result" where
  "ref_fp shapes fork fp name =
     rbind (dict_index (\<lambda>_. name) shapes fp) (\<lambda>s. shape_ref s fork)"

fun zig_fp :: "shapes \<Rightarrow> string \<Rightarrow> fingerprint \<Rightarrow> string result" where
  "zig_fp shapes fork (Fp k) = Inr (if k = boolean then ''bool'' else ''[]const bool'')"
| "zig_fp shapes fork (FpName k n) = Inr n"
| "zig_fp shapes fork (FpSize k n) =
     (let elem = (if k \<in> {byte_vector, byte_list} then ''u8'' else ''bool'') in
      Inr (if k \<in> {byte_vector, bitvector} \<and> n \<le> MAX_INLINE_FIXED_STORAGE
           then ''['' @ show_nat n @ '']'' @ elem else ''[]const '' @ elem))"
| "zig_fp shapes fork (FpSizeElem k n f) =
     rbind (zig_fp shapes fork f) (\<lambda>t. Inr (''[]const '' @ t))"
| "zig_fp shapes fork (FpElem k f) = rbind (zig_fp shapes fork f) (\<lambda>t. Inr (''[]const '' @ t))"
| "zig_fp shapes fork (FpFields k n a fs) = ref_fp shapes fork (FpFields k n a fs) n"

fun codec_fp :: "shapes \<Rightarrow> string \<Rightarrow> fingerprint \<Rightarrow> string result" where
  "codec_fp shapes fork (Fp k) =
     Inr (if k = boolean then call ''ssz.Fixed'' ''bool'' else progressive_bitlist_codec)"
| "codec_fp shapes fork (FpName k n) = Inr (call ''ssz.Fixed'' n)"
| "codec_fp shapes fork (FpSize k n) =
     Inr (if k = byte_vector then storage_codec ''ssz.ByteVector'' n
          else if k = bitvector then storage_codec ''ssz.Bitvector'' n
          else if k = byte_list then call ''ssz.ByteList'' (show_nat n)
          else call ''ssz.Bitlist'' (show_nat n))"
| "codec_fp shapes fork (FpSizeElem k n f) =
     rbind (codec_fp shapes fork f) (\<lambda>child.
       Inr (if k = vector then vector_codec child n else list_codec child n))"
| "codec_fp shapes fork (FpElem k f) =
     (if f = FpName uint ''u8'' then Inr progressive_byte_list_codec
      else rbind (codec_fp shapes fork f) (\<lambda>t. Inr (progressive_list_codec t)))"
| "codec_fp shapes fork (FpFields k n a fs) =
     rbind (ref_fp shapes fork (FpFields k n a fs) n) (\<lambda>r. Inr (r @ ''.Ssz''))"

lemma container_ref_fp:
  assumes "type_fingerprint v = Inr fp"
  shows "container_ref shapes fork v = ref_fp shapes fork fp (type_name v)"
  using assms by (simp add: container_ref_def shape_for_def ref_fp_def)

lemma zig_type_fp: "type_fingerprint v = Inr fp \<Longrightarrow> zig_type shapes fork v = zig_fp shapes fork fp"
proof (induction rule: fp_induct)
  case (fields v k active fs fps)
  then show ?case by (auto simp: zig_type.simps [of _ _ v] container_ref_fp)
qed (subst zig_type.simps, auto simp: Let_def)+

lemma is_byte_class_fp:
  "type_fingerprint v = Inr fp \<Longrightarrow> is_byte_class v = Inr (fp = FpName uint ''u8'')"
  by (erule type_fingerprint_E) (auto simp: is_byte_class_def)

lemma codec_expr_fp:
  "type_fingerprint v = Inr fp \<Longrightarrow> codec_expr shapes fork v = codec_fp shapes fork fp"
proof (induction rule: fp_induct)
  case (leaf v k)
  then show ?case
    by (auto simp: codec_expr.simps [of _ _ v] basic_codec_def zig_type.simps [of _ _ v])
next
  case (name v n)
  then show ?case
    by (auto simp: codec_expr.simps [of _ _ v] basic_codec_def zig_type.simps [of _ _ v])
next
  case (progressive v e f)
  then show ?case by (auto simp: codec_expr.simps [of _ _ v] is_byte_class_fp)
next
  case (fields v k active fs fps)
  then show ?case
    by (auto simp: codec_expr.simps [of _ _ v] container_codec_def container_ref_fp)
qed (subst codec_expr.simps, auto simp: byte_vector_codec_def bitvector_codec_def
    byte_list_codec_def bitlist_codec_def)+

definition needs_override_fp :: "fingerprint \<Rightarrow> bool" where
  "needs_override_fp fp =
     (case fp of
        FpSize k n \<Rightarrow> k \<noteq> byte_vector \<or> MAX_INLINE_FIXED_STORAGE < n
      | _ \<Rightarrow> fp_kind fp \<notin> {boolean, uint, container, progressive_container})"

lemma needs_override_of_fp: "type_fingerprint v = Inr fp \<Longrightarrow> needs_override v = Inr (needs_override_fp fp)"
  by (erule type_fingerprint_E) (auto simp: needs_override_def needs_override_fp_def)

lemma emitted_lines_fp:
  assumes "list_all2 field_fp fs fps"
  shows "rmap (field_line shapes fork) fs =
           rmap (\<lambda>(n, f). rbind (zig_fp shapes fork f) (\<lambda>t. Inr (''    @'' @ quoted n @ '': '' @ t @ '',''))) fps"
    and "rmap (override_line shapes fork) fs =
           rmap (\<lambda>(n, f). if needs_override_fp f
                  then rbind (codec_fp shapes fork f) (\<lambda>c.
                         Inr [''        .@'' @ quoted n @ '' = '' @ c @ '',''])
                  else Inr []) fps"
  using assms
proof (induction rule: list_all2_induct)
  case (Cons nt fs mf fps)
  then have "type_fingerprint (snd nt) = Inr (snd mf)" "fst nt = fst mf" by auto
  { case 1
    show ?case using Cons by (simp add: field_line_def zig_type_fp case_prod_beta)
  next
    case 2
    show ?case using Cons
      by (simp add: override_line_def needs_override_of_fp codec_expr_fp case_prod_beta) }
qed simp_all

lemma emit_container_fp:
  assumes v: "type_fingerprint (sh_value s) = Inr fp" and w: "type_fingerprint (sh_value t) = Inr fp"
    and "symbol s = symbol t" and "is_container_fp fp"
  shows "emit_container s shapes fork = emit_container t shapes fork"
  using v
proof (cases rule: type_fingerprint_E)
  case (fields k active fs fps)
  note sv = this
  from w show ?thesis
  proof (cases rule: type_fingerprint_E)
    case (fields k' active' fs' fps')
    with sv assms(3) show ?thesis
      by (auto simp: emit_container_def emitted_lines_fp)
  qed (use sv in auto)
qed (use assms(4) in \<open>auto simp: is_container_fp_def\<close>)

section \<open>The order is topological\<close>

text \<open>The container dependencies of a shape that are declared in the fork at hand.\<close>

definition fork_dep :: "shapes \<Rightarrow> string \<Rightarrow> fingerprint \<Rightarrow> fingerprint \<Rightarrow> bool" where
  "fork_dep shapes fork fp d \<longleftrightarrow>
     d \<in> set (fp_field_deps fp) \<and>
     (\<exists>s. dict_get shapes d = Some s \<and> declaration_fork s = fork)"

definition topo_state :: "shapes \<Rightarrow> string \<Rightarrow> visit_state \<Rightarrow> bool" where
  "topo_state shapes fork st \<longleftrightarrow>
     fst st = map sh_fingerprint (snd st) \<and> distinct (fst st) \<and>
     set (snd st) \<subseteq> set (selected_shapes fork shapes) \<and>
     (\<forall>i<length (fst st). \<forall>d. fork_dep shapes fork (fst st ! i) d \<longrightarrow> d \<in> set (take i (fst st)))"

text \<open>
  A visit only adds fingerprints, and none larger than a bound: sizes decrease along
  dependencies, which is why no visit meets itself.
\<close>

definition visited_le :: "nat \<Rightarrow> visit_state \<Rightarrow> visit_state \<Rightarrow> bool" where
  "visited_le n st st' \<longleftrightarrow>
     set (fst st) \<subseteq> set (fst st') \<and> (\<forall>g\<in>set (fst st') - set (fst st). size g \<le> n)"

interpretation visited_growth: growing_state "visited_le n" for n
  by unfold_locales (auto simp: visited_le_def)

lemma visited_le_mono: "visited_le m st st' \<Longrightarrow> m \<le> n \<Longrightarrow> visited_le n st st'"
  by (force simp: visited_le_def)

lemma topo_state_snoc:
  assumes "topo_state shapes fork st" and "s \<in> set (selected_shapes fork shapes)"
    and "sh_fingerprint s \<notin> set (fst st)"
    and "\<forall>d. fork_dep shapes fork (sh_fingerprint s) d \<longrightarrow> d \<in> set (fst st)"
  shows "topo_state shapes fork (fst st @ [sh_fingerprint s], snd st @ [s])"
  using assms by (auto simp: topo_state_def nth_append less_Suc_eq)

lemma selected_shape_ok:
  assumes "shapes_ok shapes" and "s \<in> set (selected_shapes fork shapes)"
  shows "shape_ok shapes (sh_fingerprint s) s" and "declaration_fork s = fork"
    and "dict_get shapes (sh_fingerprint s) = Some s"
proof -
  from assms have s: "s \<in> set (dict_values shapes)" "declaration_fork s = fork"
    by (auto simp: selected_shapes_def)
  with assms(1) obtain fp where fp: "dict_get shapes fp = Some s"
    using dict_wf_values [of shapes s] by (auto simp: shapes_ok_def)
  with assms(1) have "shape_ok shapes fp s" by (simp add: shapes_ok_def)
  then show "shape_ok shapes (sh_fingerprint s) s" "dict_get shapes (sh_fingerprint s) = Some s"
    using fp by (auto simp: shape_ok_def)
  show "declaration_fork s = fork" by fact
qed

lemma shape_for_fp:
  "type_fingerprint v = Inr d \<Longrightarrow> dict_get shapes d = Some s \<Longrightarrow> shape_for v shapes = Inr s"
  by (simp add: shape_for_def result_simps)

lemma container_fp_size: "type_fingerprint v = Inr fp \<Longrightarrow> is_container_fp fp \<Longrightarrow> 0 < size fp"
  by (erule type_fingerprint_E) (auto simp: is_container_fp_def)

lemma selected_of_get:
  "shapes_ok shapes \<Longrightarrow> dict_get shapes d = Some s \<Longrightarrow> declaration_fork s = fork \<Longrightarrow>
   s \<in> set (selected_shapes fork shapes) \<and> sh_fingerprint s = d"
  by (force simp: selected_shapes_def shapes_ok_def shape_ok_def dest: map_of_SomeD)

text \<open>The classes the loops of \<^const>\<open>visit\<close> run over, with their fingerprints.\<close>

lemma visit_dependencies:
  assumes "shapes_ok shapes" and "s \<in> set (selected_shapes fork shapes)"
  obtains fs where "type_fields (sh_value s) = Inr fs"
    and "\<And>n t. (n, t) \<in> set fs \<Longrightarrow> \<exists>ds. direct_container_dependencies t = Inr ds \<and>
           (\<forall>v\<in>set ds. \<exists>d\<in>set (fp_field_deps (sh_fingerprint s)). type_fingerprint v = Inr d)"
    and "\<And>d. d \<in> set (fp_field_deps (sh_fingerprint s)) \<Longrightarrow> \<exists>n t ds v. (n, t) \<in> set fs \<and>
           direct_container_dependencies t = Inr ds \<and> v \<in> set ds \<and> type_fingerprint v = Inr d"
proof -
  let ?fp = "sh_fingerprint s"
  from selected_shape_ok(1) [OF assms] have "type_fingerprint (sh_value s) = Inr ?fp" "is_container_fp ?fp"
    by (auto simp: shape_ok_def)
  then obtain fs ds where fs: "type_fields (sh_value s) = Inr fs"
    and ds: "list_all2 (\<lambda>nt d. direct_container_dependencies (snd nt) = Inr d) fs ds"
    and fps: "list_all2 (\<lambda>v d. type_fingerprint v = Inr d) (concat ds) (fp_field_deps ?fp)"
    by (auto elim!: field_dependencies_fp simp: rmap_Inr_iff case_prod_beta)
  show thesis
  proof (rule that [OF fs])
    fix n t assume "(n, t) \<in> set fs"
    from list_all2_leftD [OF ds this] obtain us where us: "us \<in> set ds"
      "direct_container_dependencies t = Inr us" by auto
    then have "\<forall>v\<in>set us. \<exists>d\<in>set (fp_field_deps ?fp). type_fingerprint v = Inr d"
      using list_all2_leftD [OF fps] by auto
    with us show "\<exists>ds. direct_container_dependencies t = Inr ds \<and>
        (\<forall>v\<in>set ds. \<exists>d\<in>set (fp_field_deps ?fp). type_fingerprint v = Inr d)" by auto
  next
    fix d assume "d \<in> set (fp_field_deps ?fp)"
    from list_all2_rightD [OF fps this] obtain us v where v: "us \<in> set ds" "v \<in> set us"
      "type_fingerprint v = Inr d" by auto
    from list_all2_rightD [OF ds v(1)] v show "\<exists>n t ds v. (n, t) \<in> set fs \<and>
        direct_container_dependencies t = Inr ds \<and> v \<in> set ds \<and> type_fingerprint v = Inr d"
      by (metis prod.collapse)
  qed
qed

text \<open>One dependency: the induction hypothesis for its visit, or nothing when it is older.\<close>

abbreviation visit_dependency :: "(shape \<Rightarrow> visit_state \<Rightarrow> visit_state result) \<Rightarrow> shapes \<Rightarrow> string \<Rightarrow>
    shape \<Rightarrow> pytype \<Rightarrow> visit_state \<Rightarrow> visit_state result" where
  "visit_dependency rec shapes fork s v u \<equiv>
     rbind (shape_for v shapes) (\<lambda>ds.
       if declaration_fork ds = fork then rec ds u
       else rbind (fork_index (declaration_fork ds)) (\<lambda>d. rbind (fork_index fork) (\<lambda>c.
              if c < d then Inl (TypeError (symbol s @ '' depends on a future fork'')) else Inr u)))"

definition dep_visited :: "shapes \<Rightarrow> string \<Rightarrow> fingerprint \<Rightarrow> pytype \<Rightarrow> visit_state \<Rightarrow> bool" where
  "dep_visited shapes fork fp v u \<longleftrightarrow>
     (\<forall>d. type_fingerprint v = Inr d \<longrightarrow> fork_dep shapes fork fp d \<longrightarrow> d \<in> set (fst u))"

lemma dep_visited_mono:
  "dep_visited shapes fork fp v u \<Longrightarrow> visited_le n u u' \<Longrightarrow> dep_visited shapes fork fp v u'"
  by (auto simp: dep_visited_def visited_le_def)

lemma visit_dependency_correct:
  assumes ok: "shapes_ok shapes" and s: "s \<in> set (selected_shapes fork shapes)"
    and v: "type_fingerprint v = Inr d" "d \<in> set (fp_field_deps (sh_fingerprint s))"
    and u: "topo_state shapes fork u"
    and rec: "\<And>s'. s' \<in> set (selected_shapes fork shapes) \<Longrightarrow> sh_fingerprint s' = d \<Longrightarrow>
      \<exists>u'. rec s' u = Inr u' \<and> topo_state shapes fork u' \<and> visited_le (size d) u u' \<and> d \<in> set (fst u')"
  shows "\<exists>u'. visit_dependency rec shapes fork s v u = Inr u' \<and> topo_state shapes fork u' \<and>
           dep_visited shapes fork (sh_fingerprint s) v u' \<and>
           visited_le (size (sh_fingerprint s) - 1) u u'"
proof -
  note sel = selected_shape_ok [OF ok s]
  from sel(1) v(2) obtain s' m n where s': "dict_get shapes d = Some s'"
    and idx: "fork_index (declaration_fork s') = Inr m" "fork_index fork = Inr n" "m \<le> n"
    using sel(2) by (auto simp: shape_ok_def dependency_ok_def)
  note sf = shape_for_fp [OF v(1) s']
  show ?thesis
  proof (cases "declaration_fork s' = fork")
    case True
    with selected_of_get [OF ok s'] rec obtain u' where "rec s' u = Inr u'"
      "topo_state shapes fork u'" "visited_le (size d) u u'" "d \<in> set (fst u')" by blast
    moreover have "size d \<le> size (sh_fingerprint s) - 1" using fp_field_deps_size [OF v(2)] by simp
    ultimately show ?thesis
      using sf True v(1) visited_le_mono by (fastforce simp: dep_visited_def)
  next
    case False
    then show ?thesis using sf idx v s' u
      by (auto simp: dep_visited_def fork_dep_def visited_growth.le_refl)
  qed
qed

text \<open>The two nested loops of a visit, over any loop body that treats one dependency.\<close>

lemma visit_loops:
  assumes st: "topo_state shapes fork st"
    and deps: "\<And>n t. (n, t) \<in> set fs \<Longrightarrow> \<exists>ds. direct_container_dependencies t = Inr ds \<and>
           (\<forall>v\<in>set ds. \<exists>d\<in>set (fp_field_deps fp). type_fingerprint v = Inr d)"
    and step: "\<And>v d u. type_fingerprint v = Inr d \<Longrightarrow> d \<in> set (fp_field_deps fp) \<Longrightarrow>
      topo_state shapes fork u \<Longrightarrow> \<exists>u'. step v u = Inr u' \<and> topo_state shapes fork u' \<and>
        dep_visited shapes fork fp v u' \<and> visited_le m u u'"
  shows "\<exists>u. rfold (\<lambda>(n, t) u. rbind (direct_container_dependencies t) (\<lambda>ds. rfold step ds u)) fs st = Inr u \<and>
    topo_state shapes fork u \<and> (\<forall>nt\<in>set fs. \<forall>ds. direct_container_dependencies (snd nt) = Inr ds \<longrightarrow>
      (\<forall>v\<in>set ds. dep_visited shapes fork fp v u)) \<and> visited_le m st u"
proof (rule visited_growth.rfold_achieves [where P = "topo_state shapes fork", OF st])
  fix nt u assume "nt \<in> set fs" and u: "topo_state shapes fork u"
  then obtain n t ds where [simp]: "nt = (n, t)" and ds: "direct_container_dependencies t = Inr ds"
    "\<forall>v\<in>set ds. \<exists>d\<in>set (fp_field_deps fp). type_fingerprint v = Inr d"
    using deps by (metis prod.collapse)
  have "\<exists>u'. rfold step ds u = Inr u' \<and> topo_state shapes fork u' \<and>
      (\<forall>v\<in>set ds. dep_visited shapes fork fp v u') \<and> visited_le m u u'"
    by (rule visited_growth.rfold_achieves [where P = "topo_state shapes fork", OF u])
       (use ds(2) step dep_visited_mono in blast)+
  with ds(1) show "\<exists>u'. (case nt of (n, t) \<Rightarrow> \<lambda>u. rbind (direct_container_dependencies t) (\<lambda>ds. rfold step ds u)) u = Inr u' \<and>
      topo_state shapes fork u' \<and> (\<forall>ds. direct_container_dependencies (snd nt) = Inr ds \<longrightarrow>
        (\<forall>v\<in>set ds. dep_visited shapes fork fp v u')) \<and> visited_le m u u'"
    by auto
qed (use dep_visited_mono in blast)

lemma visit_correct:
  assumes "shapes_ok shapes"
  shows "s \<in> set (selected_shapes fork shapes) \<Longrightarrow>
    \<forall>g\<in>set visiting. size (sh_fingerprint s) < size g \<Longrightarrow> topo_state shapes fork st \<Longrightarrow>
    \<exists>st'. visit shapes fork visiting s st = Inr st' \<and> topo_state shapes fork st' \<and>
      visited_le (size (sh_fingerprint s)) st st' \<and> sh_fingerprint s \<in> set (fst st')"
proof (induction "size (sh_fingerprint s)" arbitrary: s visiting st rule: less_induct)
  case less
  let ?fp = "sh_fingerprint s" and ?m = "size (sh_fingerprint s) - 1"
  show ?case
  proof (cases "?fp \<in> set (fst st)")
    case True
    with less.prems(3) show ?thesis by (auto simp: visit.simps [of _ _ _ s] visited_growth.le_refl)
  next
    case False
    let ?step = "visit_dependency (visit shapes fork (?fp # visiting)) shapes fork s"
    obtain fs where fs: "type_fields (sh_value s) = Inr fs"
      and deps: "\<And>n t. (n, t) \<in> set fs \<Longrightarrow> \<exists>ds. direct_container_dependencies t = Inr ds \<and>
           (\<forall>v\<in>set ds. \<exists>d\<in>set (fp_field_deps ?fp). type_fingerprint v = Inr d)"
      and cover: "\<And>d. d \<in> set (fp_field_deps ?fp) \<Longrightarrow> \<exists>n t ds v. (n, t) \<in> set fs \<and>
           direct_container_dependencies t = Inr ds \<and> v \<in> set ds \<and> type_fingerprint v = Inr d"
      using visit_dependencies [OF assms less.prems(1)] by blast
    have step: "\<exists>u'. ?step v u = Inr u' \<and> topo_state shapes fork u' \<and>
        dep_visited shapes fork ?fp v u' \<and> visited_le ?m u u'"
      if v: "type_fingerprint v = Inr d" "d \<in> set (fp_field_deps ?fp)"
        and u: "topo_state shapes fork u" for v d u
      using fp_field_deps_size [OF v(2)] less.hyps [of _ "?fp # visiting" u] less.prems(2) u
      by (intro visit_dependency_correct [OF assms less.prems(1) v u]) force
    have "\<exists>u. rfold (\<lambda>(n, t) u. rbind (direct_container_dependencies t) (\<lambda>ds. rfold ?step ds u)) fs st = Inr u \<and>
        topo_state shapes fork u \<and> (\<forall>nt\<in>set fs. \<forall>ds. direct_container_dependencies (snd nt) = Inr ds \<longrightarrow>
          (\<forall>v\<in>set ds. dep_visited shapes fork ?fp v u)) \<and> visited_le ?m st u"
      by (rule visit_loops [OF less.prems(3)]) (rule deps, assumption, rule step)
    then obtain u
      where u: "rfold (\<lambda>(n, t) u. rbind (direct_container_dependencies t) (\<lambda>ds. rfold ?step ds u)) fs st = Inr u"
        "topo_state shapes fork u" "visited_le ?m st u"
        "\<forall>nt\<in>set fs. \<forall>ds. direct_container_dependencies (snd nt) = Inr ds \<longrightarrow>
           (\<forall>v\<in>set ds. dep_visited shapes fork ?fp v u)" by blast
    have "0 < size ?fp"
      using selected_shape_ok(1) [OF assms less.prems(1)] by (auto simp: shape_ok_def container_fp_size)
    with u(3) False have new: "?fp \<notin> set (fst u)" by (force simp: visited_le_def)
    have "\<forall>d. fork_dep shapes fork ?fp d \<longrightarrow> d \<in> set (fst u)"
      using u(4) cover by (fastforce simp: dep_visited_def fork_dep_def)
    note topo = topo_state_snoc [OF u(2) less.prems(1) new this]
    have "?fp \<notin> set visiting" using less.prems(2) by auto
    with False fs u(1) have "visit shapes fork visiting s st = Inr (fst u @ [?fp], snd u @ [s])"
      by (simp add: visit.simps [of _ _ _ s])
    with visited_le_mono [OF u(3), of "size ?fp"] topo show ?thesis by (auto simp: visited_le_def)
  qed
qed

lemma ordered_shapes_correct:
  assumes ok: "shapes_ok shapes"
  shows "\<exists>ordered. ordered_shapes_for_fork fork shapes = Inr ordered \<and>
    topo_state shapes fork (map sh_fingerprint ordered, ordered) \<and>
    set ordered = set (selected_shapes fork shapes)"
proof -
  let ?sel = "sort_key symbol (selected_shapes fork shapes)"
  let ?n = "sum_list (map (\<lambda>s. size (sh_fingerprint s)) ?sel)"
  have start: "topo_state shapes fork ([], [])" by (simp add: topo_state_def)
  have "\<exists>t. rfold (visit shapes fork []) ?sel ([], []) = Inr t \<and> topo_state shapes fork t \<and>
      (\<forall>s\<in>set ?sel. sh_fingerprint s \<in> set (fst t)) \<and> visited_le ?n ([], []) t"
  proof (rule visited_growth.rfold_achieves [where P = "topo_state shapes fork", OF start])
    fix s u assume s: "s \<in> set ?sel" and u: "topo_state shapes fork u"
    then have "size (sh_fingerprint s) \<le> ?n" by (intro member_le_sum_list) auto
    with visit_correct [OF ok, of s fork "[]" u] s u visited_le_mono
    show "\<exists>v. visit shapes fork [] s u = Inr v \<and> topo_state shapes fork v \<and>
        sh_fingerprint s \<in> set (fst v) \<and> visited_le ?n u v" by fastforce
  qed (auto simp: visited_le_def)
  then obtain t where t: "rfold (visit shapes fork []) ?sel ([], []) = Inr t"
    "topo_state shapes fork t" "\<forall>s\<in>set ?sel. sh_fingerprint s \<in> set (fst t)" by blast
  have "s \<in> set (snd t)" if s: "s \<in> set (selected_shapes fork shapes)" for s
  proof -
    from s t(2,3) obtain s' where s': "s' \<in> set (snd t)" "sh_fingerprint s' = sh_fingerprint s"
      by (fastforce simp: topo_state_def)
    with t(2) have "s' \<in> set (selected_shapes fork shapes)" by (auto simp: topo_state_def)
    with s' s selected_shape_ok(3) [OF ok] have "s' = s" by (metis option.inject)
    with s' show ?thesis by simp
  qed
  with t show ?thesis
    by (intro exI [of _ "snd t"]) (auto simp: ordered_shapes_for_fork_def topo_state_def)
qed

section \<open>Rendering collected shapes never raises\<close>

definition ref_ok :: "shapes \<Rightarrow> string \<Rightarrow> fingerprint \<Rightarrow> bool" where
  "ref_ok shapes fork d \<longleftrightarrow>
     (\<exists>s m n. dict_get shapes d = Some s \<and> fork_index (declaration_fork s) = Inr m \<and>
        fork_index fork = Inr n \<and> m \<le> n)"

lemma ref_fp_total: "ref_ok shapes fork d \<Longrightarrow> \<exists>r. ref_fp shapes fork d name = Inr r"
  by (auto simp: ref_ok_def ref_fp_def dict_index_def shape_ref_def)

lemma zig_fp_total: "\<forall>d\<in>set (fp_deps f). ref_ok shapes fork d \<Longrightarrow> \<exists>z. zig_fp shapes fork f = Inr z"
  by (induction f) (auto simp: Let_def ref_fp_total)

lemma codec_fp_total: "\<forall>d\<in>set (fp_deps f). ref_ok shapes fork d \<Longrightarrow> \<exists>z. codec_fp shapes fork f = Inr z"
proof (induction f)
  case (FpFields k n a fs)
  then obtain r where "ref_fp shapes fork (FpFields k n a fs) n = Inr r"
    using ref_fp_total by fastforce
  then show ?case by simp
qed auto

lemma selected_refs_ok:
  assumes "shapes_ok shapes" and "s \<in> set (selected_shapes fork shapes)"
    and "d \<in> set (fp_field_deps (sh_fingerprint s))"
  shows "ref_ok shapes fork d"
  using selected_shape_ok [OF assms(1,2)] assms(3)
  by (auto simp: shape_ok_def dependency_ok_def ref_ok_def)

lemma emit_container_total:
  assumes ok: "shapes_ok shapes" and s: "s \<in> set (selected_shapes fork shapes)"
  shows "\<exists>ls. emit_container s shapes fork = Inr ls"
proof -
  from selected_shape_ok(1) [OF ok s] have fp: "type_fingerprint (sh_value s) = Inr (sh_fingerprint s)"
    "is_container_fp (sh_fingerprint s)" by (auto simp: shape_ok_def)
  from fp(1) show ?thesis
  proof (cases rule: type_fingerprint_E)
    case (fields k active fs fps)
    have refs: "\<forall>d\<in>set (fp_deps f). ref_ok shapes fork d" if "(m, f) \<in> set fps" for m f
      using selected_refs_ok [OF ok s] that fields(1) by auto
    have "\<exists>ls. rmap (field_line shapes fork) fs = Inr ls"
      unfolding emitted_lines_fp(1) [OF fields(5)]
      by (rule rmap_all_Inr) (use refs zig_fp_total in fastforce)
    moreover have "\<exists>ls. rmap (override_line shapes fork) fs = Inr ls"
      unfolding emitted_lines_fp(2) [OF fields(5)]
      by (rule rmap_all_Inr) (use refs codec_fp_total in fastforce)
    ultimately show ?thesis using fields by (auto simp: emit_container_def)
  qed (use fp(2) in \<open>auto simp: is_container_fp_def\<close>)
qed

text \<open>The forks a shape refers to, read off its fingerprint.\<close>

lemma shape_dependency_forks_spec:
  assumes ok: "shapes_ok shapes" and s: "s \<in> set (selected_shapes fork shapes)"
  shows "\<exists>forks. shape_dependency_forks shapes fork s = Inr forks \<and>
    (\<forall>d\<in>set (fp_field_deps (sh_fingerprint s)). \<forall>s'. dict_get shapes d = Some s' \<longrightarrow>
       declaration_fork s' \<noteq> fork \<longrightarrow> declaration_fork s' \<in> set forks)"
proof -
  obtain fs where fs: "type_fields (sh_value s) = Inr fs"
    and deps: "\<And>n t. (n, t) \<in> set fs \<Longrightarrow> \<exists>ds. direct_container_dependencies t = Inr ds \<and>
         (\<forall>v\<in>set ds. \<exists>d\<in>set (fp_field_deps (sh_fingerprint s)). type_fingerprint v = Inr d)"
    and cover: "\<And>d. d \<in> set (fp_field_deps (sh_fingerprint s)) \<Longrightarrow> \<exists>n t ds v. (n, t) \<in> set fs \<and>
         direct_container_dependencies t = Inr ds \<and> v \<in> set ds \<and> type_fingerprint v = Inr d"
    using visit_dependencies [OF ok s] by blast
  have line: "\<exists>forks. type_dependency_forks shapes fork (n, t) = Inr forks \<and>
      (\<forall>ds v d s'. direct_container_dependencies t = Inr ds \<longrightarrow> v \<in> set ds \<longrightarrow>
         shape_for v shapes = Inr s' \<longrightarrow> declaration_fork s' \<noteq> fork \<longrightarrow> declaration_fork s' \<in> set forks)"
    if nt: "(n, t) \<in> set fs" for n t
  proof -
    from deps [OF nt] obtain ds where ds: "direct_container_dependencies t = Inr ds"
      "\<forall>v\<in>set ds. \<exists>d\<in>set (fp_field_deps (sh_fingerprint s)). type_fingerprint v = Inr d" by blast
    have "\<forall>v\<in>set ds. \<exists>s'. shape_for v shapes = Inr s'"
      using ds(2) selected_refs_ok [OF ok s] shape_for_fp by (fastforce simp: ref_ok_def)
    from rmap_all_Inr [OF this] obtain ss where ss: "rmap (\<lambda>v. shape_for v shapes) ds = Inr ss" ..
    from rmap_memberD [OF ss] ds(1) ss show ?thesis
      by (fastforce simp: type_dependency_forks_def)
  qed
  then have "\<forall>nt\<in>set fs. \<exists>forks. type_dependency_forks shapes fork nt = Inr forks" by fastforce
  from rmap_all_Inr [OF this] obtain fl where fl: "rmap (type_dependency_forks shapes fork) fs = Inr fl" ..
  have "declaration_fork s' \<in> set (concat fl)"
    if d: "d \<in> set (fp_field_deps (sh_fingerprint s))" "dict_get shapes d = Some s'" "declaration_fork s' \<noteq> fork"
    for d s'
  proof -
    from cover [OF d(1)] obtain n t ds v where v: "(n, t) \<in> set fs"
      "direct_container_dependencies t = Inr ds" "v \<in> set ds" "type_fingerprint v = Inr d" by blast
    from rmap_memberD [OF fl v(1)] line [OF v(1)] v shape_for_fp [OF v(4) d(2)] d(3)
    show ?thesis by fastforce
  qed
  with fs fl show ?thesis by (auto simp: shape_dependency_forks_def)
qed

lemma emit_fork_lines_total:
  assumes ok: "shapes_ok shapes" and fork: "fork \<in> set FORKS"
  obtains ordered ls where "ordered_shapes_for_fork fork shapes = Inr ordered"
    and "emit_fork_lines fork shapes = Inr ls"
    and "\<And>s d s'. s \<in> set ordered \<Longrightarrow> d \<in> set (fp_field_deps (sh_fingerprint s)) \<Longrightarrow>
      dict_get shapes d = Some s' \<Longrightarrow> declaration_fork s' \<noteq> fork \<Longrightarrow>
      import_line (declaration_fork s') \<in> set ls"
proof -
  from ordered_shapes_correct [OF ok, of fork] obtain ordered
    where o: "ordered_shapes_for_fork fork shapes = Inr ordered"
      "set ordered = set (selected_shapes fork shapes)" by blast
  from fork obtain i where i: "fork_index fork = Inr i" by (auto simp: py_index_mem)
  have "\<forall>s\<in>set ordered. \<exists>fl. shape_dependency_forks shapes fork s = Inr fl"
    using shape_dependency_forks_spec [OF ok] o(2) by blast
  from rmap_all_Inr [OF this] obtain fl where fl: "rmap (shape_dependency_forks shapes fork) ordered = Inr fl" ..
  have "\<forall>s\<in>set ordered. \<exists>ls. emit_container s shapes fork = Inr ls"
    using emit_container_total [OF ok] o(2) by blast
  from rmap_all_Inr [OF this] obtain cl where cl: "rmap (\<lambda>s. emit_container s shapes fork) ordered = Inr cl" ..
  define imps where "imps = filter (\<lambda>f. f \<in> set (concat fl)) (take i FORKS)"
  obtain header where "emit_fork_lines fork shapes = Inr (header @ map import_line imps @ [''''] @ concat cl)"
    unfolding emit_fork_lines_def imps_def by (simp only: o(1) fl i cl rbind_simps)
  then show thesis
  proof (rule that [OF o(1)])
    fix s d s' assume s: "s \<in> set ordered" "d \<in> set (fp_field_deps (sh_fingerprint s))"
      "dict_get shapes d = Some s'" "declaration_fork s' \<noteq> fork"
    from s(1) o(2) have sel: "s \<in> set (selected_shapes fork shapes)" by simp
    from shape_dependency_forks_spec [OF ok sel] s rmap_memberD [OF fl s(1)]
    have mem: "declaration_fork s' \<in> set (concat fl)" by fastforce
    from selected_refs_ok [OF ok sel s(2)] s(3) i obtain m where m: "fork_index (declaration_fork s') = Inr m"
      "m \<le> i" by (auto simp: ref_ok_def)
    have "m \<noteq> i" using py_index_inject [OF m(1)] i s(4) by auto
    with m(2) py_index_Inr [OF m(1)] have "declaration_fork s' \<in> set (take i FORKS)"
      by (auto simp: in_set_conv_nth)
    with mem show "import_line (declaration_fork s') \<in> set (header @ map import_line imps @ [''''] @ concat cl)"
      by (auto simp: imps_def)
  qed
qed

lemma contexts_by_occurrence_get:
  "dict_get (contexts_by_occurrence cs) occ =
     map_of (rev (map (\<lambda>c. ((ctx_preset c, ctx_fork c), c)) cs)) occ"
proof -
  have "contexts_by_occurrence cs = py_dict.put_all [] (map (\<lambda>c. ((ctx_preset c, ctx_fork c), c)) cs)"
    by (simp add: contexts_by_occurrence_def py_dict.put_all_def fold_map comp_def)
  then show ?thesis
    by (simp add: py_dict.get_put_all dict_wf_def split: option.splits)
qed

lemma rfold_member_total:
  "rfold f xs s = Inr t \<Longrightarrow> x \<in> set xs \<Longrightarrow> \<exists>u v. f x u = Inr v"
  by (induction xs arbitrary: s) (auto simp: result_simps)

lemma handler_has_shape:
  assumes cs: "collect_shapes cs = Inr shapes" and c: "c \<in> set cs" "v \<in> set (dict_values (handlers c))"
    and k: "kind v \<in> {Inr container, Inr progressive_container}"
  shows "\<exists>fp s. type_fingerprint v = Inr fp \<and> dict_get shapes fp = Some s"
proof -
  from cs obtain raw where raw: "rfold collect_context cs [] = Inr raw"
    and named: "assign_shape_names raw = Inr shapes" by (auto simp: collect_shapes_def result_simps)
  note col = collect_collected [OF raw]
  from rfold_member_total [OF raw c(1)] obtain u w
    where "rfold (collect_root (ctx_preset c, ctx_fork c)) (dict_values (handlers c)) u = Inr w"
    unfolding collect_context_def by blast
  from rfold_member_total [OF this c(2)] obtain u w
    where "collect_root (ctx_preset c, ctx_fork c) v u = Inr w" by blast
  then obtain vs where vs: "nested_containers v = Inr vs" by (auto simp: collect_root_def result_simps)
  have "v \<in> set vs" using k vs by (auto simp: nested_containers.simps [of v] result_simps)
  with vs c have "((ctx_preset c, ctx_fork c), v) \<in> set (visits cs)" unfolding visits_mem by blast
  from collectedD(3) [OF col this] obtain fp r where r: "type_fingerprint v = Inr fp" "dict_get raw fp = Some r"
    by blast
  from list_all2_dict_get [OF assign_shape_names_rel [OF named], of fp] r
  show ?thesis by (auto simp: rel_option_iff split: option.splits)
qed

lemma load_contexts_handlers:
  assumes "load_contexts iterdir getattr = Inr cs" and "c \<in> set cs" and "v \<in> set (dict_values (handlers c))"
  shows "kind v \<in> {Inr container, Inr progressive_container}"
proof -
  from assms(1) have "list_all2 (\<lambda>occ c. load_context iterdir getattr occ = Inr c)
      (List.product PRESETS FORKS) cs" by (simp add: load_contexts_def rmap_Inr_iff)
  from list_all2_rightD [OF this assms(2)] obtain occ where "load_context iterdir getattr occ = Inr c" by blast
  then obtain names where "rfold (add_handler (getattr (snd occ) (fst occ))) names [] = Inr (handlers c)"
    by (auto elim: load_context_E)
  from add_handlers_containers(3) [OF this] assms(3) show ?thesis by auto
qed

lemma contexts_cover:
  assumes load: "load_contexts iterdir getattr = Inr cs" and "preset \<in> set PRESETS" "fork \<in> set FORKS"
  shows "\<exists>c\<in>set cs. dict_get (contexts_by_occurrence cs) (preset, fork) = Some c"
proof -
  let ?kvs = "rev (map (\<lambda>c. ((ctx_preset c, ctx_fork c), c)) cs)"
  have "set (List.product PRESETS FORKS) = (\<lambda>c. (ctx_preset c, ctx_fork c)) ` set cs"
    using load_contexts_occurrences [OF load] by (metis set_map)
  with assms(2,3) have "(preset, fork) \<in> (\<lambda>c. (ctx_preset c, ctx_fork c)) ` set cs" by auto
  then have "(preset, fork) \<in> fst ` set ?kvs" by (simp add: image_image)
  then have "map_of ?kvs (preset, fork) \<noteq> None" unfolding map_of_eq_None_iff by blast
  then obtain c where c: "map_of ?kvs (preset, fork) = Some c" by blast
  from map_of_SomeD [OF this] have "c \<in> set cs" by auto
  with c show ?thesis unfolding contexts_by_occurrence_get by blast
qed

lemma emit_index_total:
  assumes load: "load_contexts iterdir getattr = Inr cs" and col: "collect_shapes cs = Inr shapes"
  shows "\<exists>text. emit_index version cs shapes = Inr text"
proof -
  have line: "\<exists>l. handler_line shapes nv = Inr l" if c: "c \<in> set cs" and nv: "nv \<in> set (handlers c)" for c nv
  proof -
    from nv have v: "snd nv \<in> set (dict_values (handlers c))" by auto
    from handler_has_shape [OF col c v load_contexts_handlers [OF load c v]] shape_for_fp
    show ?thesis by (fastforce simp: handler_line_def)
  qed
  have ctx: "\<exists>ls. context_lines (contexts_by_occurrence cs) shapes preset fork = Inr ls"
    if pf: "preset \<in> set PRESETS" "fork \<in> set FORKS" for preset fork
  proof -
    from contexts_cover [OF load pf] obtain c where c: "c \<in> set cs" "dict_get (contexts_by_occurrence cs) (preset, fork) = Some c"
      by blast
    have "\<forall>nv\<in>set (handlers c). \<exists>l. handler_line shapes nv = Inr l" using line [OF c(1)] by blast
    from rmap_all_Inr [OF this] c(2) show ?thesis by (auto simp: context_lines_def dict_index_def)
  qed
  have "\<exists>ls. preset_lines (contexts_by_occurrence cs) shapes preset = Inr ls" if "preset \<in> set PRESETS" for preset
  proof -
    have "\<forall>fork\<in>set FORKS. \<exists>ls. context_lines (contexts_by_occurrence cs) shapes preset fork = Inr ls"
      using ctx that by blast
    from rmap_all_Inr [OF this] show ?thesis by (auto simp: preset_lines_def)
  qed
  then have "\<forall>preset\<in>set PRESETS. \<exists>ls. preset_lines (contexts_by_occurrence cs) shapes preset = Inr ls" by blast
  from rmap_all_Inr [OF this] obtain ls
    where "rmap (preset_lines (contexts_by_occurrence cs) shapes) PRESETS = Inr ls" ..
  then show ?thesis unfolding emit_index_def by (simp only: rbind_simps) blast
qed

section \<open>The generator as a whole\<close>

lemma check_symbols_error:
  "rfold check_symbol ss seen = Inl e \<Longrightarrow> \<exists>x. e = TypeError (''generated symbol collision: '' @ x)"
  by (induction ss arbitrary: seen) (auto simp: rbind_Inl_iff check_symbol_def [of "_ :: shape"] split: if_splits)

lemma min_occurrence_total:
  assumes "\<forall>occ\<in>set xs. valid_occurrence occ" and "xs \<noteq> []"
  shows "\<exists>occ. py_min_key occurrence_order xs = Inr occ"
  by (rule py_min_key_total [OF assms(2)]) (use assms(1) occurrence_order_total in blast)

lemma name_symbols_total:
  assumes "\<forall>s\<in>set variants. \<exists>occ. py_min_key occurrence_order (occurrences s) = Inr occ"
  shows "\<exists>a. name_symbols name variants = Inr a"
proof -
  have base: "\<exists>a. base_symbols b cs = Inr a" if "set cs \<subseteq> set variants" for b cs
  proof -
    have "\<forall>s\<in>set cs. \<exists>a. collision_symbol b s = Inr a"
      using assms that by (fastforce simp: collision_symbol_def)
    from rmap_all_Inr [OF this] show ?thesis by (auto simp: base_symbols_def split: list.split)
  qed
  let ?groups = "group_by (\<lambda>s. name @ pascal (declaration_fork s)) variants"
  have "\<forall>g\<in>set ?groups. \<exists>a. (case g of (b, cs) \<Rightarrow> base_symbols b cs) = Inr a"
    using base group_by_mem(1) [of _ _ _ variants] by fastforce
  from rmap_all_Inr [OF this] show ?thesis by (auto simp: name_symbols_def split: list.split)
qed

text \<open>On handlers with all their attributes, collecting fails on a symbol collision only.\<close>

lemma collect_shapes_error:
  assumes ok: "\<forall>c\<in>set cs. context_ok c" and err: "collect_shapes cs = Inl e"
  shows "\<exists>x. e = TypeError (''generated symbol collision: '' @ x)"
proof -
  from collect_contexts_total [OF ok] obtain raw where raw: "rfold collect_context cs [] = Inr raw" ..
  note col = collect_collected [OF raw]
  have occ: "\<exists>o'. py_min_key occurrence_order (occurrences s) = Inr o'" if "(k, s) \<in> set raw" for k s
  proof (rule min_occurrence_total)
    from that collectedD(1,2) [OF col] have v: "shape_of_visits (visits cs) k s" by (simp add: dict_wf_def)
    then show "\<forall>occ\<in>set (occurrences s). valid_occurrence occ"
      using ok by (auto simp: shape_of_visits_def visits_mem context_ok_def)
    from v show "occurrences s \<noteq> []" by (force simp: shape_of_visits_def)
  qed
  have "\<forall>ks\<in>set raw. \<exists>ks'. (case ks of (k, s) \<Rightarrow> rbind (declare_shape s) (\<lambda>s'. Inr (k, s'))) = Inr ks'"
    using occ by (fastforce simp: declare_shape_def)
  from rmap_all_Inr [OF this] obtain declared
    where d: "rmap (\<lambda>(k, s). rbind (declare_shape s) (\<lambda>s'. Inr (k, s'))) raw = Inr declared" ..
  have occ': "\<exists>o'. py_min_key occurrence_order (occurrences s) = Inr o'" if "(k, s) \<in> set declared" for k s
    using list_all2_rightD [OF d [unfolded rmap_Inr_iff] that] occ
    by (auto simp: rbind_Inr_iff elim!: declare_shape_E)
  have "\<forall>g\<in>set (group_by sh_name (dict_values declared)).
      \<exists>a. (case g of (name, variants) \<Rightarrow> name_symbols name variants) = Inr a"
  proof clarify
    fix n g assume "(n, g) \<in> set (group_by sh_name (dict_values declared))"
    from group_by_mem(1) [OF this] have "set g \<subseteq> set (dict_values declared)" by auto
    then have "\<forall>s\<in>set g. \<exists>k. (k, s) \<in> set declared" by (fastforce simp: subset_iff image_iff)
    then have "\<forall>s\<in>set g. \<exists>o'. py_min_key occurrence_order (occurrences s) = Inr o'"
      using occ' by blast
    then show "\<exists>a. name_symbols n g = Inr a" by (rule name_symbols_total)
  qed
  from rmap_all_Inr [OF this] obtain asgs
    where a: "rmap (\<lambda>(name, variants). name_symbols name variants)
      (group_by sh_name (dict_values declared)) = Inr asgs" ..
  from err raw d a have "rfold check_symbol (dict_values (fold set_symbol (concat asgs) declared)) [] = Inl e"
    by (auto simp: collect_shapes_def assign_shape_names_def Let_def rbind_Inl_iff)
  then show ?thesis by (rule check_symbols_error)
qed

text \<open>Every module and the index of loaded contexts and collected shapes are rendered.\<close>

lemma generator_renders:
  assumes load: "load_contexts iterdir getattr = Inr cs" and col: "collect_shapes cs = Inr shapes"
  shows "\<exists>body index. (\<forall>fork\<in>set FORKS. emit_fork_module fork shapes = Inr (body fork)) \<and>
    emit_index version cs shapes = Inr index"
proof -
  note ok = collect_shapes_ok [OF col]
  have "\<exists>text. emit_fork_module fork shapes = Inr text" if "fork \<in> set FORKS" for fork
    using emit_fork_lines_total [OF ok that] by (fastforce simp: emit_fork_module_def)
  then obtain body where "\<forall>fork\<in>set FORKS. emit_fork_module fork shapes = Inr (body fork)"
    by metis
  moreover obtain index where "emit_index version cs shapes = Inr index" using emit_index_total [OF load col] ..
  ultimately show ?thesis by blast
qed

end
