(* ===== verification/Py_Values.thy ===== *)
theory Py_Values
  imports Py_Strings
begin

text \<open>
  The values that \<^verbatim>\<open>json.loads\<close> returns and the built-in functions the tooling applies to
  them: \<^verbatim>\<open>int\<close>, \<^verbatim>\<open>str\<close>, \<^verbatim>\<open>repr\<close>, equality, \<^verbatim>\<open>get\<close>, indexing, and the two forms of
  \<^verbatim>\<open>json.dumps\<close> that are called. Python's limit on the number of digits of a decimal
  conversion is left out. A finite float carries the exact value \<open>m * 2 ^ e\<close> of the double
  and the text its \<^verbatim>\<open>repr\<close> prints, which is the shortest decimal that reads back.
\<close>

named_theorems value_simps \<open>computation and inversion of operations on JSON values\<close>

section \<open>Values\<close>

datatype pyfloat = Finite int int string | Infinite bool | NaN

datatype pyval =
    PNone
  | PBool bool
  | PInt int
  | PFloat pyfloat
  | PStr string
  | PList "pyval list"
  | PDict "(string \<times> pyval) list"

fun type_name :: "pyval \<Rightarrow> string" where
  "type_name PNone = ''NoneType''"
| "type_name (PBool _) = ''bool''"
| "type_name (PInt _) = ''int''"
| "type_name (PFloat _) = ''float''"
| "type_name (PStr _) = ''str''"
| "type_name (PList _) = ''list''"
| "type_name (PDict _) = ''dict''"

section \<open>Equality\<close>

text \<open>
  Numbers compare by value across \<^verbatim>\<open>bool\<close>, \<^verbatim>\<open>int\<close> and \<^verbatim>\<open>float\<close>; a dictionary ignores the
  order of its keys. Python's identity shortcut for NaN inside containers is left out.
\<close>

definition scaled_eq :: "int \<times> int \<Rightarrow> int \<times> int \<Rightarrow> bool" where
  "scaled_eq a b = (let k = min (snd a) (snd b)
     in fst a * 2 ^ nat (snd a - k) = fst b * 2 ^ nat (snd b - k))"

fun scaled :: "pyval \<Rightarrow> (int \<times> int) option" where
  "scaled (PBool b) = Some (if b then 1 else 0, 0)"
| "scaled (PInt n) = Some (n, 0)"
| "scaled (PFloat (Finite m e r)) = Some (m, e)"
| "scaled _ = None"

definition num_eq :: "pyval \<Rightarrow> pyval \<Rightarrow> bool" where
  "num_eq v w = (case (scaled v, scaled w) of (Some a, Some b) \<Rightarrow> scaled_eq a b | _ \<Rightarrow> False)"

primrec py_eq :: "pyval \<Rightarrow> pyval \<Rightarrow> bool" where
  "py_eq PNone w = (w = PNone)"
| "py_eq (PBool b) w = num_eq (PBool b) w"
| "py_eq (PInt n) w = num_eq (PInt n) w"
| "py_eq (PFloat f) w = (case f of
      Infinite neg \<Rightarrow> w = PFloat (Infinite neg)
    | _ \<Rightarrow> num_eq (PFloat f) w)"
| "py_eq (PStr s) w = (w = PStr s)"
| "py_eq (PList xs) w = (case w of
      PList ys \<Rightarrow> length xs = length ys \<and> list_all (\<lambda>(f, y). f y) (zip (map py_eq xs) ys)
    | _ \<Rightarrow> False)"
| "py_eq (PDict d) w = (case w of
      PDict e \<Rightarrow> length d = length e \<and>
        list_all (\<lambda>(k, f). case dict_get e k of None \<Rightarrow> False | Some y \<Rightarrow> f y)
          (map (map_prod id py_eq) d)
    | _ \<Rightarrow> False)"

lemma py_eq_PStr_right [value_simps]: "py_eq v (PStr s) \<longleftrightarrow> v = PStr s"
  by (cases v) (auto simp: num_eq_def split: pyfloat.splits)

lemma py_eq_PStr_left [value_simps]: "py_eq (PStr s) v \<longleftrightarrow> v = PStr s"
  by simp

lemma py_eq_PNone_right [value_simps]: "py_eq v PNone \<longleftrightarrow> v = PNone"
  by (cases v) (auto simp: num_eq_def split: pyfloat.splits)

lemma py_eq_int_int [value_simps]: "py_eq (PInt m) (PInt n) \<longleftrightarrow> m = n"
  by (simp add: num_eq_def scaled_eq_def)

section \<open>Conversion to an integer\<close>

text \<open>A decimal literal: an optional sign, then groups of digits separated by one underscore.\<close>

definition int_literal :: "string \<Rightarrow> int option" where
  "int_literal s =
     (let neg = startswith s ''-'';
          body = (if startswith s ''-'' \<or> startswith s ''+'' then tl s else s);
          groups = split_on (CHR ''_'') body
      in if \<forall>g\<in>set groups. g \<noteq> [] \<and> (\<forall>c\<in>set g. is_digit c)
         then Some ((if neg then - 1 else 1) * int (read_digits (concat groups))) else None)"

text \<open>\<^verbatim>\<open>repr\<close> of a string: the quote is chosen and the content escaped as CPython does.\<close>

definition hex_char :: "nat \<Rightarrow> char" where
  "hex_char d = (if d < 10 then char_of (48 + d) else char_of (87 + d))"

definition repr_char :: "char \<Rightarrow> char \<Rightarrow> string" where
  "repr_char q c =
     (if c = q \<or> c = CHR 0x5C then [CHR 0x5C, c]
      else if c = CHR 0x0A then [CHR 0x5C, CHR ''n'']
      else if c = CHR 0x0D then [CHR 0x5C, CHR ''r'']
      else if c = CHR 0x09 then [CHR 0x5C, CHR ''t'']
      else if ord c < 32 \<or> 127 \<le> ord c \<and> ord c \<le> 160 \<or> ord c = 173
      then [CHR 0x5C, CHR ''x'', hex_char (ord c div 16), hex_char (ord c mod 16)]
      else [c])"

definition str_repr :: "string \<Rightarrow> string" where
  "str_repr s =
     (let q = (if CHR 0x27 \<in> set s \<and> CHR 0x22 \<notin> set s then CHR 0x22 else CHR 0x27)
      in [q] @ concat (map (repr_char q) s) @ [q])"

definition trunc_scaled :: "int \<Rightarrow> int \<Rightarrow> int" where
  "trunc_scaled m e = (if 0 \<le> e then m * 2 ^ nat e else sgn m * (\<bar>m\<bar> div 2 ^ nat (- e)))"

text \<open>\<^verbatim>\<open>int(v)\<close>.\<close>

fun py_int :: "pyval \<Rightarrow> int result" where
  "py_int (PBool b) = Inr (if b then 1 else 0)"
| "py_int (PInt n) = Inr n"
| "py_int (PFloat (Finite m e r)) = Inr (trunc_scaled m e)"
| "py_int (PFloat (Infinite neg)) = Inl (OverflowError ''cannot convert float infinity to integer'')"
| "py_int (PFloat NaN) = Inl (ValueError ''cannot convert float NaN to integer'')"
| "py_int (PStr s) =
     (case int_literal (strip s) of
        Some n \<Rightarrow> Inr n
      | None \<Rightarrow> Inl (ValueError (''invalid literal for int() with base 10: '' @ str_repr s)))"
| "py_int v = Inl (TypeError (''int() argument must be a string, a bytes-like object or a real number, not ''
       @ CHR 0x27 # type_name v @ [CHR 0x27]))"

section \<open>Conversion to a string\<close>

fun float_repr :: "pyfloat \<Rightarrow> string" where
  "float_repr (Finite m e r) = r"
| "float_repr (Infinite neg) = (if neg then ''-inf'' else ''inf'')"
| "float_repr NaN = ''nan''"

primrec py_repr :: "pyval \<Rightarrow> string" where
  "py_repr PNone = ''None''"
| "py_repr (PBool b) = (if b then ''True'' else ''False'')"
| "py_repr (PInt n) = show_int n"
| "py_repr (PFloat f) = float_repr f"
| "py_repr (PStr s) = str_repr s"
| "py_repr (PList xs) = ''['' @ join '', '' (map py_repr xs) @ '']''"
| "py_repr (PDict d) =
     ''{'' @ join '', '' (map (\<lambda>(k, r). str_repr k @ '': '' @ r) (map (map_prod id py_repr) d)) @ ''}''"

text \<open>\<^verbatim>\<open>str(v)\<close> is \<^verbatim>\<open>repr(v)\<close> except on strings.\<close>

definition py_str :: "pyval \<Rightarrow> string" where
  "py_str v = (case v of PStr s \<Rightarrow> s | _ \<Rightarrow> py_repr v)"

lemma py_str_PStr [simp]: "py_str (PStr s) = s"
  by (simp add: py_str_def)

section \<open>Access\<close>

text \<open>\<^verbatim>\<open>v.get(k)\<close> and \<^verbatim>\<open>v.get(k, default)\<close>; only a dictionary has the method.\<close>

definition py_get_default :: "pyval \<Rightarrow> string \<Rightarrow> pyval \<Rightarrow> pyval result" where
  "py_get_default v k dflt = (case v of
      PDict d \<Rightarrow> Inr (case dict_get d k of None \<Rightarrow> dflt | Some x \<Rightarrow> x)
    | _ \<Rightarrow> Inl (AttributeError (CHR 0x27 # type_name v @ [CHR 0x27] @ '' object has no attribute get'')))"

abbreviation py_get :: "pyval \<Rightarrow> string \<Rightarrow> pyval result" where
  "py_get v k \<equiv> py_get_default v k PNone"

text \<open>\<^verbatim>\<open>v[k]\<close> for a string \<open>k\<close>.\<close>

definition py_item :: "pyval \<Rightarrow> string \<Rightarrow> pyval result" where
  "py_item v k = (case v of
      PDict d \<Rightarrow> dict_index str_repr d k
    | PList _ \<Rightarrow> Inl (TypeError ''list indices must be integers or slices, not str'')
    | PStr _ \<Rightarrow> Inl (TypeError ''string indices must be integers'')
    | _ \<Rightarrow> Inl (TypeError (CHR 0x27 # type_name v @ [CHR 0x27] @ '' object is not subscriptable'')))"

lemma py_get_Inr_iff [value_simps]:
  "py_get_default v k dflt = Inr x \<longleftrightarrow>
     (\<exists>d. v = PDict d \<and> x = (case dict_get d k of None \<Rightarrow> dflt | Some y \<Rightarrow> y))"
  by (cases v) (auto simp: py_get_default_def)

lemma py_item_Inr_iff [value_simps]: "py_item v k = Inr x \<longleftrightarrow> (\<exists>d. v = PDict d \<and> dict_get d k = Some x)"
  by (cases v) (auto simp: py_item_def result_simps)

lemma py_get_PDict [simp]:
  "py_get_default (PDict d) k dflt = Inr (case dict_get d k of None \<Rightarrow> dflt | Some y \<Rightarrow> y)"
  by (simp add: py_get_default_def)

lemma py_item_PDict: "py_item (PDict d) k = dict_index str_repr d k"
  by (simp add: py_item_def)

section \<open>Writing JSON\<close>

text \<open>\<^verbatim>\<open>json.dumps\<close> with its default \<^verbatim>\<open>ensure_ascii\<close>.\<close>

definition json_char :: "char \<Rightarrow> string" where
  "json_char c =
     (if c = CHR 0x22 \<or> c = CHR 0x5C then [CHR 0x5C, c]
      else if c = CHR 0x0A then [CHR 0x5C, CHR ''n'']
      else if c = CHR 0x0D then [CHR 0x5C, CHR ''r'']
      else if c = CHR 0x09 then [CHR 0x5C, CHR ''t'']
      else if c = CHR 0x0C then [CHR 0x5C, CHR ''f'']
      else if c = CHR 0x08 then [CHR 0x5C, CHR ''b'']
      else if ord c < 32 \<or> 126 < ord c
      then [CHR 0x5C, CHR ''u'', CHR ''0'', CHR ''0'', hex_char (ord c div 16), hex_char (ord c mod 16)]
      else [c])"

definition json_string :: "string \<Rightarrow> string" where
  "json_string s = [CHR 0x22] @ concat (map json_char s) @ [CHR 0x22]"

fun json_float :: "pyfloat \<Rightarrow> string" where
  "json_float (Finite m e r) = r"
| "json_float (Infinite neg) = (if neg then ''-Infinity'' else ''Infinity'')"
| "json_float NaN = ''NaN''"

text \<open>\<^verbatim>\<open>json.dumps(v, sort_keys=True, separators=(",", ":"))\<close>.\<close>

primrec json_compact :: "pyval \<Rightarrow> string" where
  "json_compact PNone = ''null''"
| "json_compact (PBool b) = (if b then ''true'' else ''false'')"
| "json_compact (PInt n) = show_int n"
| "json_compact (PFloat f) = json_float f"
| "json_compact (PStr s) = json_string s"
| "json_compact (PList xs) = ''['' @ join '','' (map json_compact xs) @ '']''"
| "json_compact (PDict d) =
     ''{'' @ join '','' (map (\<lambda>(k, r). json_string k @ '':'' @ r)
        (sort_key fst (map (map_prod id json_compact) d))) @ ''}''"

text \<open>\<^verbatim>\<open>json.dumps(v, indent=2, sort_keys=True)\<close>, at an indentation level.\<close>

definition indented :: "nat \<Rightarrow> string \<Rightarrow> string" where
  "indented n s = newline # replicate (2 * n) (CHR '' '') @ s"

definition json_block :: "char \<Rightarrow> char \<Rightarrow> string list \<Rightarrow> nat \<Rightarrow> string" where
  "json_block op cl items n =
     (if items = [] then [op, cl]
      else [op] @ join '','' (map (indented (Suc n)) items) @ indented n [cl])"

primrec json_indent :: "pyval \<Rightarrow> nat \<Rightarrow> string" where
  "json_indent PNone n = ''null''"
| "json_indent (PBool b) n = (if b then ''true'' else ''false'')"
| "json_indent (PInt i) n = show_int i"
| "json_indent (PFloat f) n = json_float f"
| "json_indent (PStr s) n = json_string s"
| "json_indent (PList xs) n =
     json_block (CHR ''['') (CHR '']'') (map (\<lambda>f. f (Suc n)) (map json_indent xs)) n"
| "json_indent (PDict d) n =
     json_block (CHR ''{'') (CHR ''}'')
       (map (\<lambda>(k, f). json_string k @ '': '' @ f (Suc n))
          (sort_key fst (map (map_prod id json_indent) d))) n"

section \<open>Facts on conversions\<close>

lemma digits_strip:
  assumes "s \<noteq> []" and "\<forall>c\<in>set s. is_digit c \<or> c = CHR ''-''"
  shows "strip s = s"
proof -
  have "\<not> is_space c" if "c \<in> set s" for c
    using assms(2) that by (auto simp: is_space_def is_digit_def)
  then show ?thesis using assms(1) by (intro strip_if_id) (auto simp: hd_in_set)
qed

lemma int_literal_digits:
  assumes "s \<noteq> []" and "\<forall>c\<in>set s. is_digit c"
  shows "int_literal s = Some (int (read_digits s))"
    and "int_literal (CHR ''-'' # s) = Some (- int (read_digits s))"
proof -
  have no: "CHR ''_'' \<notin> set s" "CHR ''-'' \<notin> set s" "CHR ''+'' \<notin> set s"
    using assms(2) by (auto simp: is_digit_def)
  then have "\<not> startswith s ''-''" and "\<not> startswith s ''+''"
    by (cases s; auto)+
  with no assms show "int_literal s = Some (int (read_digits s))"
    and "int_literal (CHR ''-'' # s) = Some (- int (read_digits s))"
    by (simp_all add: int_literal_def split_on_no_sep_id Let_def)
qed

text \<open>Reading back the decimal text of an integer gives the integer.\<close>

lemma py_int_show_int: "py_int (PStr (show_int n)) = Inr n"
proof -
  have "strip (show_int n) = show_int n"
    using show_nat_digits by (intro digits_strip) (auto simp: show_int_def show_nat_nonempty)
  moreover have "int_literal (show_int n) = Some n"
    using int_literal_digits [OF show_nat_nonempty show_nat_digits]
    by (auto simp: show_int_def read_show_nat)
  ultimately show ?thesis by simp
qed

lemma show_int_inject: "show_int m = show_int n \<longleftrightarrow> m = n"
  by (metis py_int_show_int sum.inject(2))

section \<open>Equality on well-formed values\<close>

text \<open>No NaN, and distinct keys in every dictionary, as decoding produces.\<close>

primrec val_ok :: "pyval \<Rightarrow> bool" where
  "val_ok PNone = True"
| "val_ok (PBool b) = True"
| "val_ok (PInt n) = True"
| "val_ok (PFloat f) = (f \<noteq> NaN)"
| "val_ok (PStr s) = True"
| "val_ok (PList xs) = list_all id (map val_ok xs)"
| "val_ok (PDict d) = (distinct (dict_keys d) \<and> list_all snd (map (map_prod id val_ok) d))"

lemma val_ok_PDict: "val_ok (PDict d) \<longleftrightarrow> dict_wf d \<and> (\<forall>(k, v)\<in>set d. val_ok v)"
  by (auto simp: dict_wf_def list_all_iff)

lemma val_ok_PList: "val_ok (PList xs) \<longleftrightarrow> (\<forall>x\<in>set xs. val_ok x)"
  by (simp add: list_all_iff)

lemma py_eq_PList:
  "py_eq (PList xs) w \<longleftrightarrow> (\<exists>ys. w = PList ys \<and> list_all2 py_eq xs ys)"
  by (cases w) (auto simp: list_all2_conv_all_nth list_all_length)

lemma py_eq_PDict:
  "py_eq (PDict d) w \<longleftrightarrow> (\<exists>e. w = PDict e \<and> length d = length e \<and>
     (\<forall>(k, x)\<in>set d. \<exists>y. dict_get e k = Some y \<and> py_eq x y))"
  by (cases w) (fastforce simp: list_all_iff split: option.splits)+

lemma scaled_eq_sym: "scaled_eq a b \<Longrightarrow> scaled_eq b a"
  by (simp add: scaled_eq_def Let_def min.commute)

lemma num_eq_refl: "scaled v \<noteq> None \<Longrightarrow> num_eq v v"
  by (auto simp: num_eq_def scaled_eq_def)

lemma py_eq_refl: "val_ok v \<Longrightarrow> py_eq v v"
proof (induction v)
  case (PFloat f)
  then show ?case by (cases f) (auto intro: num_eq_refl)
next
  case (PList xs)
  then show ?case unfolding py_eq_PList val_ok_PList by (auto intro: list.rel_refl_strong)
next
  case (PDict d)
  then have "\<exists>y. dict_get d k = Some y \<and> py_eq x y" if "(k, x) \<in> set d" for k x
    using that unfolding val_ok_PDict by (fastforce simp: dict_wf_def)
  then show ?case unfolding py_eq_PDict by blast
qed (auto intro: num_eq_refl)

text \<open>Two dictionaries of the same size, one included in the other, have the same keys.\<close>

lemma dict_same_keys:
  assumes "dict_wf d" and "dict_wf e" and "length d = length e" and "set (dict_keys d) \<subseteq> set (dict_keys e)"
  shows "set (dict_keys d) = set (dict_keys e)"
proof -
  have "card (set (dict_keys d)) = card (set (dict_keys e))"
    using assms(1-3) unfolding dict_wf_def by (metis distinct_card length_map)
  with assms(4) show ?thesis by (metis List.finite_set card_subset_eq)
qed

lemma py_eq_sym: "val_ok v \<Longrightarrow> val_ok w \<Longrightarrow> py_eq v w \<Longrightarrow> py_eq w v"
proof (induction v arbitrary: w)
  case PNone
  then show ?case by simp
next
  case (PBool b)
  then show ?case by (cases w) (auto simp: num_eq_def intro: scaled_eq_sym split: pyfloat.splits)
next
  case (PInt n)
  then show ?case by (cases w) (auto simp: num_eq_def intro: scaled_eq_sym split: pyfloat.splits)
next
  case (PFloat f)
  then show ?case by (cases w; cases f) (auto simp: num_eq_def intro: scaled_eq_sym split: pyfloat.splits)
next
  case (PStr s)
  then show ?case by simp
next
  case (PList xs)
  from PList.prems(3) obtain ys where ys: "w = PList ys" "list_all2 py_eq xs ys"
    unfolding py_eq_PList by blast
  have ok: "\<forall>x\<in>set xs. val_ok x" "\<forall>y\<in>set ys. val_ok y"
    using PList.prems(1,2) unfolding ys(1) val_ok_PList by blast+
  have "list_all2 py_eq ys xs" unfolding list_all2_conv_all_nth
    using ys(2) ok PList.IH by (auto simp: list_all2_conv_all_nth)
  then show ?case unfolding ys(1) py_eq_PList by blast
next
  case (PDict d)
  from PDict.prems(3) obtain e where e: "w = PDict e" "length d = length e"
    "\<And>k x. (k, x) \<in> set d \<Longrightarrow> \<exists>y. dict_get e k = Some y \<and> py_eq x y"
    unfolding py_eq_PDict by blast
  have ok: "dict_wf d" "dict_wf e" "\<forall>(k, v)\<in>set d. val_ok v" "\<forall>(k, v)\<in>set e. val_ok v"
    using PDict.prems(1,2) unfolding e(1) val_ok_PDict by blast+
  note wf = ok(1,2)
  have "set (dict_keys d) \<subseteq> set (dict_keys e)"
    using e(3) by (force dest: map_of_SomeD simp: image_iff)
  then have keys: "set (dict_keys d) = set (dict_keys e)" using dict_same_keys [OF wf e(2)] by blast
  have "\<exists>x. dict_get d k = Some x \<and> py_eq y x" if ky: "(k, y) \<in> set e" for k y
  proof -
    from ky keys obtain x where x: "(k, x) \<in> set d" by force
    with e(3) [OF x] ky wf(2) have "py_eq x y" by (auto simp: dict_wf_def)
    moreover have "val_ok x" "val_ok y" using x ky ok(3,4) by auto
    ultimately have "py_eq y x" using PDict.IH [of "(k, x)" x y] x by simp
    with x wf(1) show ?thesis by (auto simp: dict_wf_def)
  qed
  with e(2) show ?case unfolding e(1) py_eq_PDict by auto
qed


end
