(* ===== verification/Py_World.thy ===== *)
theory Py_World
  imports Py_Values
begin

text \<open>
  The effects of the tooling: paths, a file system without symbolic links, subprocesses and
  the sequencing of operations that change them and may raise. A program that a script runs
  is a function of its argument vector and of the files; the argument vectors are logged in
  order, so that statements about what is run, and when, can be made.
\<close>

named_theorems io_simps \<open>inversion of the operations on the world\<close>

section \<open>Paths\<close>

text \<open>
  A path is the list \<^verbatim>\<open>Path.parts\<close>: the root first when the path is absolute, no empty and no
  \<open>.\<close> components.
\<close>

type_synonym path = "string list"

definition path_root :: "string \<Rightarrow> string list" where
  "path_root s = (if startswith s ''//'' \<and> \<not> startswith s ''///'' then [''//'']
     else if startswith s ''/'' then [''/''] else [])"

definition path_of :: "string \<Rightarrow> path" where
  "path_of s = path_root s @ filter (\<lambda>c. c \<noteq> [] \<and> c \<noteq> ''.'') (split_on (CHR ''/'') s)"

definition is_root :: "string \<Rightarrow> bool" where
  "is_root c = (c = ''/'' \<or> c = ''//'')"

definition is_absolute :: "path \<Rightarrow> bool" where
  "is_absolute p = (case p of [] \<Rightarrow> False | c # _ \<Rightarrow> is_root c)"

text \<open>\<^verbatim>\<open>str(path)\<close>.\<close>

definition path_str :: "path \<Rightarrow> string" where
  "path_str p = (case p of [] \<Rightarrow> ''.'' | c # cs \<Rightarrow>
     if is_root c then c @ join ''/'' cs else join ''/'' p)"

text \<open>\<^verbatim>\<open>path / name\<close>: an absolute right-hand side replaces the path.\<close>

definition path_join :: "path \<Rightarrow> string \<Rightarrow> path" where
  "path_join p s = (if path_root s = [] then p @ path_of s else path_of s)"

definition path_name :: "path \<Rightarrow> string" where
  "path_name p = (if p = [] \<or> is_absolute p \<and> length p = 1 then [] else last p)"

definition path_parent :: "path \<Rightarrow> path" where
  "path_parent p = (if is_absolute p \<and> length p = 1 then p else butlast p)"

definition relative_to :: "path \<Rightarrow> path \<Rightarrow> path" where
  "relative_to root p = drop (length root) p"

text \<open>\<^verbatim>\<open>Path.resolve\<close> without symbolic links: relative paths start at \<open>cwd\<close>, \<open>..\<close> removes a part.\<close>

definition resolve_part :: "path \<Rightarrow> string \<Rightarrow> path" where
  "resolve_part acc c = (if c = ''..'' then (if length acc \<le> 1 then acc else butlast acc) else acc @ [c])"

definition path_resolve :: "path \<Rightarrow> path \<Rightarrow> path" where
  "path_resolve cwd p = foldl resolve_part [] (if is_absolute p then p else cwd @ p)"

section \<open>The file system and the log of commands\<close>

datatype node = DirNode | FileNode string

type_synonym files = "(path, node) dict"

record world =
  world_files :: files
  world_commands :: "string list list"

record completed =
  returncode :: int
  run_stdout :: string
  run_stderr :: string

text \<open>Any program: its outcome and the files it leaves, \<open>Inl\<close> when it cannot be started.\<close>

type_synonym runner = "string list \<Rightarrow> files \<Rightarrow> completed result \<times> files"

definition is_dir :: "files \<Rightarrow> path \<Rightarrow> bool" where
  "is_dir fs p = (p = [] \<or> is_absolute p \<and> length p = 1 \<or> dict_get fs p = Some DirNode)"

definition is_file :: "files \<Rightarrow> path \<Rightarrow> bool" where
  "is_file fs p = (case dict_get fs p of Some (FileNode _) \<Rightarrow> True | _ \<Rightarrow> False)"

definition path_exists :: "files \<Rightarrow> path \<Rightarrow> bool" where
  "path_exists fs p = (is_dir fs p \<or> is_file fs p)"

definition children :: "files \<Rightarrow> path \<Rightarrow> path list" where
  "children fs p = filter (\<lambda>q. q \<noteq> [] \<and> butlast q = p) (dict_keys fs)"

text \<open>\<^verbatim>\<open>p.rglob(pattern)\<close> with the pattern as a test of the entry's name.\<close>

definition rglob :: "files \<Rightarrow> path \<Rightarrow> (string \<Rightarrow> bool) \<Rightarrow> path list" where
  "rglob fs p matches = filter (\<lambda>q. strict_prefix p q \<and> matches (last q)) (dict_keys fs)"

section \<open>Sequencing\<close>

type_synonym 'a io = "world \<Rightarrow> 'a result \<times> world"

definition ret :: "'a \<Rightarrow> 'a io" where
  "ret x w = (Inr x, w)"

definition raise :: "pyexc \<Rightarrow> 'a io" where
  "raise e w = (Inl e, w)"

definition lift :: "'a result \<Rightarrow> 'a io" where
  "lift r w = (r, w)"

definition bnd :: "'a io \<Rightarrow> ('a \<Rightarrow> 'b io) \<Rightarrow> 'b io" where
  "bnd m f w = (case m w of (Inl e, w') \<Rightarrow> (Inl e, w') | (Inr x, w') \<Rightarrow> f x w')"

definition io_raise_if :: "bool \<Rightarrow> pyexc \<Rightarrow> 'a io \<Rightarrow> 'a io" where
  "io_raise_if b e m = (if b then raise e else m)"

fun io_map :: "('a \<Rightarrow> 'b io) \<Rightarrow> 'a list \<Rightarrow> 'b list io" where
  "io_map f [] = ret []"
| "io_map f (x # xs) = bnd (f x) (\<lambda>y. bnd (io_map f xs) (\<lambda>ys. ret (y # ys)))"

definition get_files :: "files io" where
  "get_files w = (Inr (world_files w), w)"

definition set_files :: "files \<Rightarrow> unit io" where
  "set_files fs w = (Inr (), w\<lparr>world_files := fs\<rparr>)"

text \<open>\<^verbatim>\<open>subprocess.run(argv)\<close>, and the same with \<^verbatim>\<open>check=True\<close>.\<close>

definition run_process :: "runner \<Rightarrow> string list \<Rightarrow> completed io" where
  "run_process run argv w = (case run argv (world_files w) of (r, fs) \<Rightarrow>
     (r, w\<lparr>world_files := fs, world_commands := world_commands w @ [argv]\<rparr>))"

definition run_checked :: "runner \<Rightarrow> string list \<Rightarrow> completed io" where
  "run_checked run argv = bnd (run_process run argv) (\<lambda>c.
     io_raise_if (returncode c \<noteq> 0) (CalledProcessError (run_stderr c)) (ret c))"

section \<open>File operations\<close>

definition mkdir :: "path \<Rightarrow> unit io" where
  "mkdir p = bnd get_files (\<lambda>fs.
     if path_exists fs p then raise (FileExistsError (path_str p))
     else if is_file fs (path_parent p) then raise (OSError (path_str p))
     else if \<not> is_dir fs (path_parent p) then raise (FileNotFoundError (path_str p))
     else set_files (dict_set fs p DirNode))"

text \<open>\<^verbatim>\<open>p.mkdir(parents=True, exist_ok=True)\<close>: every missing prefix is made, outermost first.\<close>

definition make_prefix :: "path \<Rightarrow> path \<Rightarrow> files \<Rightarrow> files result" where
  "make_prefix p q fs =
     (if is_dir fs q then Inr fs
      else if is_file fs q then Inl (if q = p then FileExistsError (path_str p) else OSError (path_str p))
      else Inr (dict_set fs q DirNode))"

definition mkdir_parents :: "path \<Rightarrow> unit io" where
  "mkdir_parents p = bnd get_files (\<lambda>fs. bnd (lift (rfold (make_prefix p) (prefixes p) fs)) set_files)"

definition write_file :: "path \<Rightarrow> string \<Rightarrow> unit io" where
  "write_file p s = bnd get_files (\<lambda>fs.
     if is_dir fs p then raise (OSError (path_str p))
     else if is_file fs (path_parent p) then raise (OSError (path_str p))
     else if \<not> is_dir fs (path_parent p) then raise (FileNotFoundError (path_str p))
     else set_files (dict_set fs p (FileNode s)))"

definition read_file :: "path \<Rightarrow> string io" where
  "read_file p = bnd get_files (\<lambda>fs.
     case dict_get fs p of
       Some (FileNode s) \<Rightarrow> ret s
     | _ \<Rightarrow> if is_dir fs p then raise (OSError (path_str p)) else raise (FileNotFoundError (path_str p)))"

definition unlink :: "path \<Rightarrow> unit io" where
  "unlink p = bnd get_files (\<lambda>fs.
     if is_dir fs p then raise (OSError (path_str p))
     else if is_file fs p then set_files (filter (\<lambda>(q, n). q \<noteq> p) fs)
     else raise (FileNotFoundError (path_str p)))"

section \<open>Laws of sequencing\<close>

lemma bnd_Inr_iff [io_simps]:
  "bnd m f w = (Inr y, w') \<longleftrightarrow> (\<exists>x v. m w = (Inr x, v) \<and> f x v = (Inr y, w'))"
  by (auto simp: bnd_def split: prod.splits sum.splits)

lemma bnd_cases:
  assumes "bnd m f w = (r, w')"
  obtains (stop) e where "m w = (Inl e, w')" and "r = Inl e"
    | (go) x v where "m w = (Inr x, v)" and "f x v = (r, w')"
  using assms by (auto simp: bnd_def split: prod.splits sum.splits)

lemma bnd_step:
  assumes "bnd m f w = (r, w')"
  shows "\<exists>q z. m w = (q, z) \<and> (case q of Inl e \<Rightarrow> r = Inl e \<and> z = w' | Inr x \<Rightarrow> f x z = (r, w'))"
  using assms by (auto simp: bnd_def split: prod.splits sum.splits)

lemma basic_io [simp]:
  "ret x w = (Inr x, w)"
  "raise e w = (Inl e, w)"
  "lift r w = (r, w)"
  "get_files w = (Inr (world_files w), w)"
  "set_files fs w = (Inr (), w\<lparr>world_files := fs\<rparr>)"
  by (simp_all add: ret_def raise_def lift_def get_files_def set_files_def)

lemma bnd_ret [simp]: "bnd (ret x) f = f x"
  by (rule ext) (simp add: bnd_def)

lemma bnd_raise [simp]: "bnd (raise e) f = raise e"
  by (rule ext) (simp add: bnd_def raise_def)

lemma bnd_lift [simp]: "bnd (lift (Inr x)) f = f x" "bnd (lift (Inl e)) f = raise e"
  by (rule ext, simp add: bnd_def)+

lemma bnd_get_files [simp]: "bnd get_files f w = f (world_files w) w"
  by (simp add: bnd_def)

lemma io_raise_if_Inr_iff [io_simps]:
  "io_raise_if b e m w = (Inr x, w') \<longleftrightarrow> \<not> b \<and> m w = (Inr x, w')"
  by (simp add: io_raise_if_def)

lemma io_raise_if_simps [simp]: "io_raise_if True e m = raise e" "io_raise_if False e m = m"
  by (simp_all add: io_raise_if_def)

lemma io_map_Inr:
  assumes "io_map f xs w = (Inr ys, w')" and "\<And>x y u v. f x u = (Inr y, v) \<Longrightarrow> P x y"
  shows "list_all2 P xs ys"
  using assms(1)
proof (induction xs arbitrary: ys w)
  case (Cons x xs)
  then show ?case using assms(2) by (auto simp: bnd_Inr_iff)
qed simp

lemma lift_Inr_iff [io_simps]: "lift r w = (Inr x, w') \<longleftrightarrow> r = Inr x \<and> w' = w"
  by (auto simp: lift_def)

lemma run_checked_Inr_iff [io_simps]:
  "run_checked run argv w = (Inr c, w') \<longleftrightarrow> run_process run argv w = (Inr c, w') \<and> returncode c = 0"
  by (auto simp: run_checked_def io_simps)

section \<open>Relations that every operation keeps\<close>

text \<open>
  A preorder on worlds that the primitive operations of a computation satisfy is satisfied by
  the computation, whether it returns or raises.
\<close>

locale world_preorder =
  fixes R :: "world \<Rightarrow> world \<Rightarrow> bool"
  assumes R_refl: "R w w"
    and R_trans: "R u v \<Longrightarrow> R v w \<Longrightarrow> R u w"
begin

definition keeps :: "'a io \<Rightarrow> bool" where
  "keeps m = (\<forall>w. R w (snd (m w)))"

lemma keeps_basic: "keeps (ret x)" "keeps (raise e)" "keeps (lift r)" "keeps get_files"
  by (simp_all add: keeps_def R_refl)

lemma keeps_bnd:
  assumes "keeps m" and "\<And>x. keeps (f x)"
  shows "keeps (bnd m f)"
  unfolding keeps_def
proof
  fix w
  obtain r v where m: "m w = (r, v)" by force
  with assms(1) have "R w v" unfolding keeps_def by (metis snd_conv)
  moreover have "R v (snd (f x v))" for x using assms(2) by (simp add: keeps_def)
  ultimately show "R w (snd (bnd m f w))"
    using m R_trans by (auto simp: bnd_def split: sum.splits)
qed

lemma keeps_if: "keeps m \<Longrightarrow> keeps n \<Longrightarrow> keeps (if b then m else n)"
  by simp

lemma keeps_raise_if: "keeps m \<Longrightarrow> keeps (io_raise_if b e m)"
  by (simp add: io_raise_if_def keeps_basic)

lemma keeps_map: "(\<And>x. x \<in> set xs \<Longrightarrow> keeps (f x)) \<Longrightarrow> keeps (io_map f xs)"
  by (induction xs) (auto intro!: keeps_bnd keeps_basic)

lemma keepsD: "keeps m \<Longrightarrow> m w = (r, w') \<Longrightarrow> R w w'"
  by (metis keeps_def snd_conv)

lemmas keeps_intros = keeps_basic keeps_bnd keeps_if keeps_raise_if keeps_map

end

text \<open>The log of commands only grows.\<close>

definition log_grows :: "world \<Rightarrow> world \<Rightarrow> bool" where
  "log_grows v w = prefix (world_commands v) (world_commands w)"

interpretation log: world_preorder log_grows
  by unfold_locales (auto simp: log_grows_def)

lemma log_run_process: "log.keeps (run_process run argv)"
  by (auto simp: log.keeps_def run_process_def log_grows_def split: prod.splits)

lemma log_set_files: "log.keeps (set_files fs)"
  by (simp add: log.keeps_def log_grows_def)

text \<open>No command is run.\<close>

definition same_log :: "world \<Rightarrow> world \<Rightarrow> bool" where
  "same_log v w = (world_commands w = world_commands v)"

interpretation quiet: world_preorder same_log
  by unfold_locales (auto simp: same_log_def)

lemma quiet_set_files: "quiet.keeps (set_files fs)"
  by (simp add: quiet.keeps_def same_log_def)

lemma quiet_file_ops:
  "quiet.keeps (mkdir p)" "quiet.keeps (mkdir_parents p)" "quiet.keeps (write_file p s)"
  "quiet.keeps (read_file p)" "quiet.keeps (unlink p)"
  by (auto simp: mkdir_def mkdir_parents_def write_file_def read_file_def unlink_def
      intro!: quiet.keeps_intros quiet_set_files split: option.splits node.splits)

text \<open>The files are left alone.\<close>

definition same_files :: "world \<Rightarrow> world \<Rightarrow> bool" where
  "same_files v w = (world_files w = world_files v)"

interpretation pure: world_preorder same_files
  by unfold_locales (auto simp: same_files_def)

lemma pure_read_file: "pure.keeps (read_file p)"
  by (auto simp: read_file_def intro!: pure.keeps_intros split: option.splits node.splits)

section \<open>Facts on file operations\<close>

lemma write_file_Inr_iff [io_simps]:
  "write_file p s w = (Inr u, w') \<longleftrightarrow> \<not> is_dir (world_files w) p \<and> is_dir (world_files w) (path_parent p) \<and>
     \<not> is_file (world_files w) (path_parent p) \<and>
     w' = w\<lparr>world_files := dict_set (world_files w) p (FileNode s)\<rparr>"
  by (auto simp: write_file_def)

lemma mkdir_Inr_iff [io_simps]:
  "mkdir p w = (Inr u, w') \<longleftrightarrow> \<not> path_exists (world_files w) p \<and> is_dir (world_files w) (path_parent p) \<and>
     \<not> is_file (world_files w) (path_parent p) \<and>
     w' = w\<lparr>world_files := dict_set (world_files w) p DirNode\<rparr>"
  by (auto simp: mkdir_def)

lemma read_file_Inr_iff [io_simps]:
  "read_file p w = (Inr s, w') \<longleftrightarrow> dict_get (world_files w) p = Some (FileNode s) \<and> w' = w"
  by (auto simp: read_file_def split: option.splits node.splits if_splits)

lemma run_process_eq [io_simps]:
  "run_process run argv w = (r, w') \<longleftrightarrow> (\<exists>fs. run argv (world_files w) = (r, fs) \<and>
     w' = w\<lparr>world_files := fs, world_commands := world_commands w @ [argv]\<rparr>)"
  by (auto simp: run_process_def split: prod.splits)

lemma path_join_name:
  assumes "CHR ''/'' \<notin> set c" and "c \<noteq> []" and "c \<noteq> ''.''"
  shows "path_join p c = p @ [c]"
proof -
  have "\<not> startswith c ''/''" and "\<not> startswith c ''//''" using assms by (auto simp: prefix_def)
  then show ?thesis using assms by (simp add: path_join_def path_root_def path_of_def split_on_no_sep_id)
qed

text \<open>A file that is in place stays in place.\<close>

definition file_kept :: "path \<Rightarrow> world \<Rightarrow> world \<Rightarrow> bool" where
  "file_kept q v w = (\<forall>s. dict_get (world_files v) q = Some (FileNode s) \<longrightarrow> dict_get (world_files w) q = Some (FileNode s))"

interpretation kept: world_preorder "file_kept q" for q
  by unfold_locales (auto simp: file_kept_def)

lemma kept_write_file: "p \<noteq> q \<Longrightarrow> kept.keeps q (write_file p s)"
  unfolding write_file_def
  by (auto simp: kept.keeps_def file_kept_def dict_simps)

lemma make_prefix_keeps:
  "make_prefix p r fs = Inr fs' \<Longrightarrow> dict_get fs q = Some (FileNode s) \<Longrightarrow> dict_get fs' q = Some (FileNode s)"
  by (auto simp: make_prefix_def dict_simps is_file_def split: if_splits)

lemma kept_mkdir_parents: "kept.keeps q (mkdir_parents p)"
  unfolding kept.keeps_def file_kept_def
proof (intro allI impI)
  fix w :: world and s assume q: "dict_get (world_files w) q = Some (FileNode s)"
  show "dict_get (world_files (snd (mkdir_parents p w))) q = Some (FileNode s)"
  proof (cases "rfold (make_prefix p) (prefixes p) (world_files w)")
    case (Inl e)
    with q show ?thesis by (simp add: mkdir_parents_def)
  next
    case (Inr fs)
    then have "dict_get fs q = Some (FileNode s)"
      by (rule rfold_invariant [where P = "\<lambda>fs. dict_get fs q = Some (FileNode s)"])
         (use q make_prefix_keeps in \<open>auto\<close>)
    with Inr show ?thesis by (simp add: mkdir_parents_def)
  qed
qed

end
