(* ===== verification/Ssz_Generator.thy ===== *)
theory Ssz_Generator
  imports Ssz_Emit Py_World
begin

text \<open>
  The \<^verbatim>\<open>main\<close> of \<^verbatim>\<open>eest/scripts/generate-consensus-ssz-schemas.py\<close> on the files: the output directory is
  made and checked, the modules are rendered and written one after the other, then the index, and \<^verbatim>\<open>zig fmt\<close> runs on
  all of them. The tree of fixtures and the modules of the pyspec are parameters.
\<close>

definition validate_output_directory :: "string list \<Rightarrow> unit result" where
  "validate_output_directory names =
     (let expected = ''index.zig'' # map (\<lambda>fork. fork @ ''.zig'') FORKS;
          stale = sort (filter (\<lambda>n. suffix ''.zig'' n \<and> n \<notin> set expected) names)
      in if stale \<noteq> []
         then Inl (RuntimeError (''remove stale generated schema files: '' @ join '', '' stale))
         else Inr ())"

text \<open>
  \<^verbatim>\<open>path.write_text(text, encoding="ascii")\<close>: the file is opened, and emptied, before the text is encoded. The
  \<^verbatim>\<open>UnicodeEncodeError\<close> of other text is a \<^verbatim>\<open>ValueError\<close>; its message is reduced to the name of the codec.
\<close>

definition is_ascii :: "string \<Rightarrow> bool" where
  "is_ascii s = list_all (\<lambda>c. (of_char c :: nat) < 128) s"

definition ascii_error :: pyexc where
  "ascii_error = ValueError ''ascii codec''"

definition write_ascii :: "path \<Rightarrow> string \<Rightarrow> unit io" where
  "write_ascii p s = bnd (write_file p []) (\<lambda>_. if is_ascii s then write_file p s else raise ascii_error)"

definition module_path :: "path \<Rightarrow> string \<Rightarrow> path" where
  "module_path dir fork = path_join dir (fork @ ''.zig'')"

definition write_module :: "path \<Rightarrow> shapes \<Rightarrow> string \<Rightarrow> path io" where
  "write_module dir shapes fork =
     bnd (lift (emit_fork_module fork shapes)) (\<lambda>text.
     bnd (write_ascii (module_path dir fork) text) (\<lambda>_. ret (module_path dir fork)))"

definition generate_schemas :: "runner \<Rightarrow> path \<Rightarrow> dir_listing \<Rightarrow> spec_module \<Rightarrow> string \<Rightarrow> unit io" where
  "generate_schemas run dir iterdir getattr version =
     bnd (mkdir_parents dir) (\<lambda>_.
     bnd get_files (\<lambda>fs.
     bnd (lift (validate_output_directory (map path_name (children fs dir)))) (\<lambda>_.
     bnd (lift (load_contexts iterdir getattr)) (\<lambda>contexts.
     bnd (lift (collect_shapes contexts)) (\<lambda>shapes.
     bnd (io_map (write_module dir shapes) FORKS) (\<lambda>generated.
     bnd (lift (emit_index version contexts shapes)) (\<lambda>index.
     bnd (write_ascii (module_path dir ''index'') index) (\<lambda>_.
     bnd (run_checked run ([''zig'', ''fmt''] @ map path_str (generated @ [module_path dir ''index'']))) (\<lambda>_.
       ret ())))))))))"

section \<open>Writing the modules\<close>

definition modules :: "string list" where
  "modules = FORKS @ [''index'']"

text \<open>A directory the modules can be written to: it is one, and none of their paths is.\<close>

definition takes_modules :: "files \<Rightarrow> path \<Rightarrow> bool" where
  "takes_modules fs dir \<longleftrightarrow> is_dir fs dir \<and> \<not> is_file fs dir \<and> (\<forall>m\<in>set modules. \<not> is_dir fs (module_path dir m))"

lemma module_path_child: "m \<in> set modules \<Longrightarrow> module_path dir m = dir @ [m @ ''.zig'']"
  by (auto simp: modules_def FORKS_def module_path_def path_join_def path_root_def path_of_def)

lemma module_path_parent: "m \<in> set modules \<Longrightarrow> path_parent (module_path dir m) = dir"
  by (cases dir) (auto simp: module_path_child path_parent_def is_absolute_def is_root_def modules_def FORKS_def)

lemma module_path_differs: "m \<in> set modules \<Longrightarrow> module_path dir m \<noteq> dir"
  by (simp add: module_path_child)

lemma module_path_eq: "m \<in> set modules \<Longrightarrow> n \<in> set modules \<Longrightarrow> module_path dir m = module_path dir n \<longleftrightarrow> m = n"
  by (simp add: module_path_child)

lemma takes_modules_set:
  assumes "takes_modules fs dir" and "m \<in> set modules"
  shows "takes_modules (dict_set fs (module_path dir m) (FileNode s)) dir"
  using assms module_path_differs [OF assms(2)]
  by (auto simp: takes_modules_def is_dir_def is_file_def dict_simps)

lemma write_ascii_result:
  assumes "takes_modules (world_files w) dir" and "m \<in> set modules"
  shows "\<exists>fs. write_ascii (module_path dir m) s w = (if is_ascii s then Inr () else Inl ascii_error, w\<lparr>world_files := fs\<rparr>) \<and>
    takes_modules fs dir \<and> (is_ascii s \<longrightarrow> dict_get fs (module_path dir m) = Some (FileNode s)) \<and>
    (\<forall>q. q \<noteq> module_path dir m \<longrightarrow> dict_get fs q = dict_get (world_files w) q)"
proof -
  let ?p = "module_path dir m" and ?fs = "\<lambda>s. dict_set (world_files w) (module_path dir m) (FileNode s)"
  have t: "takes_modules (?fs []) dir" "takes_modules (dict_set (?fs []) ?p (FileNode s)) dir"
    using takes_modules_set assms by blast+
  have put: "write_file ?p x v = (Inr (), v\<lparr>world_files := dict_set (world_files v) ?p (FileNode x)\<rparr>)"
    if "takes_modules (world_files v) dir" for x v
    using that assms(2) module_path_parent [OF assms(2)] by (auto simp: write_file_def takes_modules_def)
  have "write_ascii ?p s w = (if is_ascii s
      then (Inr (), w\<lparr>world_files := dict_set (?fs []) ?p (FileNode s)\<rparr>) else (Inl ascii_error, w\<lparr>world_files := ?fs []\<rparr>))"
    using t by (simp add: write_ascii_def bnd_def put assms(1))
  then show ?thesis
    using t by (intro exI [of _ "if is_ascii s then dict_set (?fs []) ?p (FileNode s) else ?fs []"])
      (auto simp: dict_simps)
qed

lemma write_modules:
  assumes "set forks \<subseteq> set modules" and "distinct forks" and "takes_modules (world_files w) dir"
    and "\<forall>fork\<in>set forks. emit_fork_module fork shapes = Inr (body fork)"
  shows "\<exists>fs. io_map (write_module dir shapes) forks w =
      (if \<forall>fork\<in>set forks. is_ascii (body fork) then Inr (map (module_path dir) forks) else Inl ascii_error, w\<lparr>world_files := fs\<rparr>) \<and>
    ((\<forall>fork\<in>set forks. is_ascii (body fork)) \<longrightarrow> takes_modules fs dir \<and>
      (\<forall>fork\<in>set forks. dict_get fs (module_path dir fork) = Some (FileNode (body fork))) \<and>
      (\<forall>q. q \<notin> module_path dir ` set forks \<longrightarrow> dict_get fs q = dict_get (world_files w) q))"
  using assms
proof (induction forks arbitrary: w)
  case Nil
  then show ?case by (intro exI [of _ "world_files w"]) simp
next
  case (Cons f forks)
  have f: "f \<in> set modules" and b: "emit_fork_module f shapes = Inr (body f)" using Cons.prems by simp_all
  obtain fs1 where w1: "write_ascii (module_path dir f) (body f) w =
      (if is_ascii (body f) then Inr () else Inl ascii_error, w\<lparr>world_files := fs1\<rparr>)"
    and t1: "takes_modules fs1 dir" "is_ascii (body f) \<longrightarrow> dict_get fs1 (module_path dir f) = Some (FileNode (body f))"
    and k1: "\<forall>q. q \<noteq> module_path dir f \<longrightarrow> dict_get fs1 q = dict_get (world_files w) q"
    using write_ascii_result [OF Cons.prems(3) f] by blast
  show ?case
  proof (cases "is_ascii (body f)")
    case False
    then show ?thesis using w1 b by (intro exI [of _ fs1]) (simp add: write_module_def bnd_def)
  next
    case True
    let ?w1 = "w\<lparr>world_files := fs1\<rparr>"
    have one: "write_module dir shapes f w = (Inr (module_path dir f), ?w1)"
      using w1 b True by (simp add: write_module_def bnd_def)
    obtain fs2 where w2: "io_map (write_module dir shapes) forks ?w1 =
        (if \<forall>fork\<in>set forks. is_ascii (body fork) then Inr (map (module_path dir) forks) else Inl ascii_error, ?w1\<lparr>world_files := fs2\<rparr>)"
      and t2: "(\<forall>fork\<in>set forks. is_ascii (body fork)) \<longrightarrow> takes_modules fs2 dir \<and>
        (\<forall>fork\<in>set forks. dict_get fs2 (module_path dir fork) = Some (FileNode (body fork))) \<and>
        (\<forall>q. q \<notin> module_path dir ` set forks \<longrightarrow> dict_get fs2 q = dict_get fs1 q)"
      using Cons.IH [of ?w1] Cons.prems t1(1) by auto
    have "module_path dir f \<notin> module_path dir ` set forks"
      using module_path_eq [OF f] Cons.prems(1,2) by auto
    then show ?thesis
      using one w2 t2 t1 k1 True by (intro exI [of _ fs2]) (auto simp: bnd_def)
  qed
qed

lemma bnd_go: "m w = (Inr x, v) \<Longrightarrow> bnd m f w = f x v" "m w = (Inl e, v) \<Longrightarrow> bnd m f w = (Inl e, v)"
  by (simp_all add: bnd_def)

text \<open>The generator after its directory is made and checked and its shapes are collected.\<close>

lemma generator_writes:
  assumes mk: "mkdir_parents dir w = (Inr (), v)" and takes: "takes_modules (world_files v) dir"
    and clean: "validate_output_directory (map path_name (children (world_files v) dir)) = Inr ()"
    and load: "load_contexts iterdir getattr = Inr cs" and col: "collect_shapes cs = Inr shapes"
  shows "\<exists>body index fs. (\<forall>fork\<in>set FORKS. emit_fork_module fork shapes = Inr (body fork)) \<and> emit_index version cs shapes = Inr index \<and>
    (if (\<forall>fork\<in>set FORKS. is_ascii (body fork)) \<and> is_ascii index
     then (\<forall>fork\<in>set FORKS. dict_get fs (module_path dir fork) = Some (FileNode (body fork))) \<and>
       dict_get fs (module_path dir ''index'') = Some (FileNode index) \<and>
       generate_schemas run dir iterdir getattr version w =
         bnd (run_checked run ([''zig'', ''fmt''] @ map (\<lambda>m. path_str (module_path dir m)) modules)) (\<lambda>_. ret ()) (v\<lparr>world_files := fs\<rparr>)
     else generate_schemas run dir iterdir getattr version w = (Inl ascii_error, v\<lparr>world_files := fs\<rparr>))"
proof -
  obtain body index where r: "\<forall>fork\<in>set FORKS. emit_fork_module fork shapes = Inr (body fork)"
    "emit_index version cs shapes = Inr index" using generator_renders [OF load col, of version] by blast
  have F: "set FORKS \<subseteq> set modules" "distinct FORKS" and ix: "''index'' \<in> set modules" "''index'' \<notin> set FORKS"
    by (simp_all add: modules_def FORKS_def)
  obtain fs1 where w1: "io_map (write_module dir shapes) FORKS v =
      (if \<forall>fork\<in>set FORKS. is_ascii (body fork) then Inr (map (module_path dir) FORKS) else Inl ascii_error, v\<lparr>world_files := fs1\<rparr>)"
    and t1: "(\<forall>fork\<in>set FORKS. is_ascii (body fork)) \<longrightarrow> takes_modules fs1 dir \<and>
      (\<forall>fork\<in>set FORKS. dict_get fs1 (module_path dir fork) = Some (FileNode (body fork)))"
    using write_modules [OF F takes r(1)] by blast
  have start: "generate_schemas run dir iterdir getattr version w =
      bnd (io_map (write_module dir shapes) FORKS) (\<lambda>generated.
      bnd (lift (emit_index version cs shapes)) (\<lambda>index.
      bnd (write_ascii (module_path dir ''index'') index) (\<lambda>_.
      bnd (run_checked run ([''zig'', ''fmt''] @ map path_str (generated @ [module_path dir ''index'']))) (\<lambda>_. ret ())))) v"
    unfolding generate_schemas_def bnd_go(1) [of "mkdir_parents dir", OF mk] bnd_get_files clean bnd_lift load col ..
  show ?thesis
  proof (cases "\<forall>fork\<in>set FORKS. is_ascii (body fork)")
    case False
    then have "io_map (write_module dir shapes) FORKS v = (Inl ascii_error, v\<lparr>world_files := fs1\<rparr>)" using w1 by simp
    then have "generate_schemas run dir iterdir getattr version w = (Inl ascii_error, v\<lparr>world_files := fs1\<rparr>)"
      unfolding start by (rule bnd_go(2))
    then show ?thesis
      by (intro exI [of _ body] exI [of _ index] exI [of _ fs1] conjI r) (simp only: False simp_thms if_False)
  next
    case True
    then have m: "io_map (write_module dir shapes) FORKS v = (Inr (map (module_path dir) FORKS), v\<lparr>world_files := fs1\<rparr>)"
      using w1 by simp
    have t: "takes_modules (world_files (v\<lparr>world_files := fs1\<rparr>)) dir" using t1 True by simp
    obtain fs2 where w2: "write_ascii (module_path dir ''index'') index (v\<lparr>world_files := fs1\<rparr>) =
        (if is_ascii index then Inr () else Inl ascii_error, v\<lparr>world_files := fs2\<rparr>)"
      and t2: "is_ascii index \<longrightarrow> dict_get fs2 (module_path dir ''index'') = Some (FileNode index)"
      and k2: "\<forall>q. q \<noteq> module_path dir ''index'' \<longrightarrow> dict_get fs2 q = dict_get fs1 q"
      using write_ascii_result [OF t ix(1)] by auto
    have kept: "dict_get fs2 (module_path dir fork) = Some (FileNode (body fork))" if "fork \<in> set FORKS" for fork
    proof -
      have "module_path dir fork \<noteq> module_path dir ''index''"
        using module_path_eq [OF _ ix(1)] that F(1) ix(2) by blast
      then show ?thesis using k2 t1 True that by simp
    qed
    have after: "generate_schemas run dir iterdir getattr version w =
      bnd (write_ascii (module_path dir ''index'') index) (\<lambda>_.
      bnd (run_checked run ([''zig'', ''fmt''] @ map (\<lambda>m. path_str (module_path dir m)) modules)) (\<lambda>_. ret ())) (v\<lparr>world_files := fs1\<rparr>)"
      unfolding start bnd_go(1) [of "io_map (write_module dir shapes) FORKS", OF m] r(2) bnd_lift by (simp add: modules_def comp_def)
    show ?thesis
    proof (cases "is_ascii index")
      case False
      then have "generate_schemas run dir iterdir getattr version w = (Inl ascii_error, v\<lparr>world_files := fs2\<rparr>)"
        unfolding after by (intro bnd_go(2)) (simp add: w2)
      then show ?thesis
        by (intro exI [of _ body] exI [of _ index] exI [of _ fs2] conjI r) (simp only: False simp_thms if_False)
    next
      case ix: True
      then have "generate_schemas run dir iterdir getattr version w =
         bnd (run_checked run ([''zig'', ''fmt''] @ map (\<lambda>m. path_str (module_path dir m)) modules)) (\<lambda>_. ret ()) (v\<lparr>world_files := fs2\<rparr>)"
        unfolding after by (intro bnd_go(1)) (simp add: w2)
      moreover have "\<forall>fork\<in>set FORKS. dict_get fs2 (module_path dir fork) = Some (FileNode (body fork))" using kept by blast
      ultimately show ?thesis using t2 ix
        by (intro exI [of _ body] exI [of _ index] exI [of _ fs2] conjI r) (simp only: eqTrueI [OF True] simp_thms if_True)
    qed
  qed
qed

end
