(* ===== verification/Ssz_Properties.thy ===== *)
theory Ssz_Properties
  imports Ssz_Generator
begin

text \<open>
  The properties of the schema generator, each with a sample run: two contexts whose classes
  share the container \<open>Checkpoint\<close>.
\<close>

section \<open>A sample of pyspec classes\<close>

definition sample_uint64 :: pytype where
  "sample_uint64 = PyType [Py_uint] ''uint64'' ''uint64'' None None None None None"

definition sample_bitlist :: pytype where
  "sample_bitlist = PyType [Py_Bitlist] ''Bitlist'' ''Bitlist'' None (Some 8) None None None"

definition sample_checkpoint :: pytype where
  "sample_checkpoint = PyType [Py_Container] ''Checkpoint'' ''Checkpoint'' None None None
     (Some [(''epoch'', sample_uint64)]) None"

definition sample_attestation :: pytype where
  "sample_attestation = PyType [Py_Container] ''Attestation'' ''Attestation'' None None None
     (Some [(''bits'', sample_bitlist), (''target'', sample_checkpoint)]) None"

definition sample_contexts :: "gen_context list" where
  "sample_contexts =
     [\<lparr>ctx_preset = ''mainnet'', ctx_fork = ''phase0'', handlers = [(''Checkpoint'', sample_checkpoint)]\<rparr>,
      \<lparr>ctx_preset = ''mainnet'', ctx_fork = ''altair'', handlers = [(''Attestation'', sample_attestation)]\<rparr>]"

definition sample_checkpoint_fp :: fingerprint where
  "sample_checkpoint_fp = FpFields container ''Checkpoint'' [] [(''epoch'', FpName uint ''u64'')]"

definition sample_attestation_fp :: fingerprint where
  "sample_attestation_fp = FpFields container ''Attestation'' []
     [(''bits'', FpSize bitlist 8), (''target'', sample_checkpoint_fp)]"

definition sample_checkpoint_shape :: shape where
  "sample_checkpoint_shape = \<lparr>sh_fingerprint = sample_checkpoint_fp, sh_name = ''Checkpoint'',
     sh_value = sample_checkpoint, occurrences = [(''mainnet'', ''phase0''), (''mainnet'', ''altair'')],
     declaration_fork = ''phase0'', symbol = ''Checkpoint''\<rparr>"

definition sample_attestation_shape :: shape where
  "sample_attestation_shape = \<lparr>sh_fingerprint = sample_attestation_fp, sh_name = ''Attestation'',
     sh_value = sample_attestation, occurrences = [(''mainnet'', ''altair'')],
     declaration_fork = ''altair'', symbol = ''Attestation''\<rparr>"

definition sample_shapes :: shapes where
  "sample_shapes = [(sample_checkpoint_fp, sample_checkpoint_shape),
     (sample_attestation_fp, sample_attestation_shape)]"

lemma sample_collected: "collect_shapes sample_contexts = Inr sample_shapes"
  by code_simp

lemma sample_get_checkpoint: "dict_get sample_shapes sample_checkpoint_fp = Some sample_checkpoint_shape"
  by (simp add: sample_shapes_def)

lemma sample_nested: "nested_containers sample_attestation = Inr [sample_attestation, sample_checkpoint]"
  by code_simp

section \<open>Collecting\<close>

text \<open>
  C12: Deduplication by fingerprint is sound. Every container class nested in a handler of some
  context has a shape, the context is among the shape's occurrences, and the Zig declaration
  emitted for the shape, which was built from the first class with that fingerprint, is
  the declaration this class itself would give, in every fork's module.
\<close>

theorem deduplication_sound:
  assumes "collect_shapes cs = Inr shapes" and "c \<in> set cs"
    and "root \<in> set (dict_values (handlers c))"
    and "nested_containers root = Inr vs" and "v \<in> set vs"
  shows "\<exists>s. shape_for v shapes = Inr s \<and> (ctx_preset c, ctx_fork c) \<in> set (occurrences s) \<and>
           (\<forall>fork. emit_container s shapes fork = emit_container (s\<lparr>sh_value := v\<rparr>) shapes fork)"
proof -
  from assms have "((ctx_preset c, ctx_fork c), v) \<in> set (visits cs)" unfolding visits_mem by blast
  with collected_visit [OF assms(1)] obtain fp s where s: "type_fingerprint v = Inr fp"
    "dict_get shapes fp = Some s" "(ctx_preset c, ctx_fork c) \<in> set (occurrences s)" by blast
  from collect_shapes_ok [OF assms(1)] s(2) have "shape_ok shapes fp s" by (simp add: shapes_ok_def)
  then have "emit_container s shapes fork = emit_container (s\<lparr>sh_value := v\<rparr>) shapes fork" for fork
    using s(1) by (intro emit_container_fp [of s fp]) (auto simp: shape_ok_def)
  with s shape_for_fp show ?thesis by blast
qed

theorem deduplication_sound_witness:
  "\<exists>s. shape_for sample_checkpoint sample_shapes = Inr s \<and> (''mainnet'', ''altair'') \<in> set (occurrences s) \<and>
     (\<forall>fork. emit_container s sample_shapes fork
        = emit_container (s\<lparr>sh_value := sample_checkpoint\<rparr>) sample_shapes fork)"
  using deduplication_sound [OF sample_collected, of "sample_contexts ! 1" sample_attestation
      "[sample_attestation, sample_checkpoint]" sample_checkpoint] sample_nested
  by (simp add: sample_contexts_def)

text \<open>
  C33: What a collected shape is. Its occurrences are exactly the contexts in which a class with
  its fingerprint is nested in a handler, and its declaration fork is the earliest fork among
  them.
\<close>

theorem collected_occurrences:
  assumes "collect_shapes cs = Inr shapes" and "dict_get shapes fp = Some s"
  shows "set (occurrences s) =
      {(ctx_preset c, ctx_fork c) |c. c \<in> set cs \<and>
         (\<exists>root\<in>set (dict_values (handlers c)). \<exists>vs v. nested_containers root = Inr vs \<and> v \<in> set vs \<and>
            type_fingerprint v = Inr fp)}
    \<and> declaration_fork s \<in> snd ` set (occurrences s)
    \<and> (\<exists>m. fork_index (declaration_fork s) = Inr m \<and>
         (\<forall>occ\<in>set (occurrences s). \<exists>n. fork_index (snd occ) = Inr n \<and> m \<le> n))"
proof -
  from collected_final [OF assms] obtain r d x where r: "shape_of_visits (visits cs) fp r"
    and d: "declare_shape r = Inr d" "s = d\<lparr>symbol := x\<rparr>" by blast
  from d(1) obtain occ where occ: "py_min_key occurrence_order (occurrences r) = Inr occ"
    and d': "d = r\<lparr>declaration_fork := snd occ\<rparr>" by (rule declare_shape_E)
  note mem = py_min_key_mem [OF occ]
  have "set (occurrences s) = {occ. \<exists>v. (occ, v) \<in> set (visits cs) \<and> type_fingerprint v = Inr fp}"
    using r by (simp add: d(2) d' shape_of_visits_def)
  also have "\<dots> = {(ctx_preset c, ctx_fork c) |c. c \<in> set cs \<and>
      (\<exists>root\<in>set (dict_values (handlers c)). \<exists>vs v. nested_containers root = Inr vs \<and> v \<in> set vs \<and>
         type_fingerprint v = Inr fp)}"
    unfolding visits_mem by blast
  finally show ?thesis
    using mem min_occurrence_fork [OF occ mem] min_occurrence_fork [OF occ]
    by (fastforce simp: d(2) d')
qed

theorem collected_occurrences_witness:
  "declaration_fork sample_checkpoint_shape \<in> snd ` set (occurrences sample_checkpoint_shape)"
  using collected_occurrences [OF sample_collected sample_get_checkpoint] by blast

section \<open>Naming\<close>

text \<open>
  C32: Symbols identify shapes. After naming, no two shapes have the same Zig symbol, and each
  symbol follows the rule of the naming pass: the class name when one shape has it, otherwise
  the class name with the declaration fork, and with the preset as well when several shapes of
  the name are first declared in the same fork.
\<close>

theorem symbols_unique_and_systematic:
  assumes "collect_shapes cs = Inr shapes"
  shows "distinct (map symbol (dict_values shapes)) \<and>
    (\<forall>s\<in>set (dict_values shapes). symbol s = expected_symbol (dict_values shapes) s)"
  using collect_shapes_ok [OF assms] collected_symbols [OF assms] by (simp add: shapes_ok_def)

theorem symbols_unique_and_systematic_witness:
  "distinct (map symbol (dict_values sample_shapes)) \<and>
   symbol sample_checkpoint_shape = expected_symbol (dict_values sample_shapes) sample_checkpoint_shape"
proof -
  have "sample_checkpoint_shape \<in> set (dict_values sample_shapes)" by code_simp
  then show ?thesis using symbols_unique_and_systematic [OF sample_collected] by blast
qed

section \<open>Ordering and rendering\<close>

text \<open>
  C21: The declaration order of a fork is a complete topological order. For collected shapes the
  depth-first visit never raises, lists every shape declared in the fork exactly once, and puts
  each shape after all the shapes of the same fork that its fields refer to.
\<close>

theorem ordered_shapes_topological:
  assumes "collect_shapes cs = Inr shapes"
  shows "\<exists>ordered. ordered_shapes_for_fork fork shapes = Inr ordered \<and> distinct ordered \<and>
    set ordered = {s \<in> set (dict_values shapes). declaration_fork s = fork} \<and>
    (\<forall>i<length ordered. \<forall>d\<in>set (fp_field_deps (sh_fingerprint (ordered ! i))). \<forall>s.
       dict_get shapes d = Some s \<longrightarrow> declaration_fork s = fork \<longrightarrow> s \<in> set (take i ordered))"
proof -
  note ok = collect_shapes_ok [OF assms]
  from ordered_shapes_correct [OF ok, of fork] obtain ordered
    where o: "ordered_shapes_for_fork fork shapes = Inr ordered"
      "topo_state shapes fork (map sh_fingerprint ordered, ordered)"
      "set ordered = set (selected_shapes fork shapes)" by blast
  have before: "s \<in> set (take i ordered)"
    if i: "i < length ordered" and d: "d \<in> set (fp_field_deps (sh_fingerprint (ordered ! i)))"
      and s: "dict_get shapes d = Some s" "declaration_fork s = fork" for i d s
  proof -
    from d s have "fork_dep shapes fork (sh_fingerprint (ordered ! i)) d" by (auto simp: fork_dep_def)
    with o(2) i obtain t where t: "t \<in> set (take i ordered)" "sh_fingerprint t = d"
      by (fastforce simp: topo_state_def take_map)
    then have "t \<in> set (selected_shapes fork shapes)" using o(3) in_set_takeD by fastforce
    from selected_shape_ok(3) [OF ok this] t s show ?thesis by simp
  qed
  have "distinct ordered" using o(2) by (auto simp: topo_state_def distinct_map)
  with o before show ?thesis by (auto simp: selected_shapes_def)
qed

theorem ordered_shapes_topological_witness:
  "\<exists>ordered. ordered_shapes_for_fork ''altair'' sample_shapes = Inr ordered \<and> distinct ordered"
  using ordered_shapes_topological [OF sample_collected, of "''altair''"] by blast

text \<open>
  C22: Rendering a fork's module never raises on collected shapes, and every reference to a
  container of another fork is covered by an import of that fork's module; in particular no
  shape refers to a fork that comes later.
\<close>

theorem module_references_imported:
  assumes "collect_shapes cs = Inr shapes" and "fork \<in> set FORKS"
  shows "\<exists>ordered ls. ordered_shapes_for_fork fork shapes = Inr ordered \<and>
    emit_fork_module fork shapes = Inr (join [newline] ls) \<and>
    (\<forall>s\<in>set ordered. \<forall>d\<in>set (fp_field_deps (sh_fingerprint s)). \<exists>s'. dict_get shapes d = Some s' \<and>
       (declaration_fork s' = fork \<or> import_line (declaration_fork s') \<in> set ls))"
proof -
  note ok = collect_shapes_ok [OF assms(1)]
  obtain ordered ls where o: "ordered_shapes_for_fork fork shapes = Inr ordered"
    and ls: "emit_fork_lines fork shapes = Inr ls"
    and imp: "\<And>s d s'. s \<in> set ordered \<Longrightarrow> d \<in> set (fp_field_deps (sh_fingerprint s)) \<Longrightarrow>
      dict_get shapes d = Some s' \<Longrightarrow> declaration_fork s' \<noteq> fork \<Longrightarrow>
      import_line (declaration_fork s') \<in> set ls"
    using emit_fork_lines_total [OF ok assms(2)] by blast
  have "\<exists>s'. dict_get shapes d = Some s'"
    if "s \<in> set ordered" "d \<in> set (fp_field_deps (sh_fingerprint s))" for s d
    using that o ordered_shapes_correct [OF ok, of fork] selected_refs_ok [OF ok, of s fork d]
    by (auto simp: ref_ok_def)
  with o ls imp show ?thesis by (force simp: emit_fork_module_def)
qed

theorem module_references_imported_witness:
  "\<exists>ls. emit_fork_module ''altair'' sample_shapes = Inr (join [newline] ls)"
  using module_references_imported [OF sample_collected, of "''altair''"] by (auto simp: FORKS_def)

section \<open>The whole generator\<close>

definition sample_listing :: dir_listing where
  "sample_listing preset fork = Some [(''Checkpoint'', True), (''README'', False)]"

definition sample_module :: spec_module where
  "sample_module fork preset name = (if name = ''Checkpoint'' then Some sample_checkpoint else None)"

definition sample_loaded :: "gen_context list" where
  "sample_loaded = map (\<lambda>occ. \<lparr>ctx_preset = fst occ, ctx_fork = snd occ,
     handlers = [(''Checkpoint'', sample_checkpoint)]\<rparr>) (List.product PRESETS FORKS)"

lemma sample_load: "load_contexts sample_listing sample_module = Inr sample_loaded"
  by code_simp

lemma sample_loaded_ok: "\<forall>c\<in>set sample_loaded. context_ok c"
proof -
  have "type_fingerprint sample_checkpoint = Inr sample_checkpoint_fp" by code_simp
  then show ?thesis by (auto simp: sample_loaded_def context_ok_def valid_occurrence_def)
qed

text \<open>
  C25: Once the output directory is made, holds no stale file and can take the modules (it is a directory, none of their paths is
  one), and once the contexts are loaded, with handler classes that have all their attributes, the generator ends in one of these ways:
  it stops with the error that names a colliding symbol, before it writes anything; or every module and the index
  are rendered, and when one of them is not ASCII it stops with the encoding error, before it starts a program; or all of them are
  on disk, one per fork and the index, when the generator starts \<^verbatim>\<open>zig fmt\<close> on exactly them, whose outcome is that of the run.
\<close>

theorem generator_total:
  assumes "mkdir_parents dir w = (Inr (), v)" and "takes_modules (world_files v) dir"
    and "validate_output_directory (map path_name (children (world_files v) dir)) = Inr ()"
    and "load_contexts iterdir getattr = Inr cs" and "\<forall>c\<in>set cs. context_ok c"
  shows "(\<exists>x. collect_shapes cs = Inl (TypeError (''generated symbol collision: '' @ x)) \<and>
      generate_schemas run dir iterdir getattr version w = (Inl (TypeError (''generated symbol collision: '' @ x)), v)) \<or>
    (\<exists>shapes body index fs. collect_shapes cs = Inr shapes \<and>
      (\<forall>fork\<in>set FORKS. emit_fork_module fork shapes = Inr (body fork)) \<and> emit_index version cs shapes = Inr index \<and>
      (if (\<forall>fork\<in>set FORKS. is_ascii (body fork)) \<and> is_ascii index
       then (\<forall>fork\<in>set FORKS. dict_get fs (module_path dir fork) = Some (FileNode (body fork))) \<and>
         dict_get fs (module_path dir ''index'') = Some (FileNode index) \<and>
         generate_schemas run dir iterdir getattr version w =
           bnd (run_checked run ([''zig'', ''fmt''] @ map (\<lambda>m. path_str (module_path dir m)) (FORKS @ [''index'']))) (\<lambda>_. ret ())
             (v\<lparr>world_files := fs\<rparr>)
       else generate_schemas run dir iterdir getattr version w = (Inl ascii_error, v\<lparr>world_files := fs\<rparr>)))"
proof (cases "collect_shapes cs")
  case (Inl e)
  with collect_shapes_error [OF assms(5)] obtain x
    where x: "e = TypeError (''generated symbol collision: '' @ x)" by blast
  have "generate_schemas run dir iterdir getattr version w = (Inl e, v)"
    unfolding generate_schemas_def bnd_go(1) [of "mkdir_parents dir", OF assms(1)] bnd_get_files assms(3,4) bnd_lift Inl by simp
  then show ?thesis using Inl x by blast
next
  case (Inr shapes)
  note F = generator_writes [OF assms(1-4) Inr, of version run, unfolded modules_def]
  show ?thesis by (rule disjI2, rule exI [of _ shapes], simp only: Inr simp_thms, rule F)
qed

definition sample_world :: world where
  "sample_world = \<lparr>world_files = [([''out''], DirNode)], world_commands = []\<rparr>"

definition sample_fmt :: runner where
  "sample_fmt argv fs = (Inr \<lparr>returncode = 0, run_stdout = [], run_stderr = []\<rparr>, fs)"

theorem generator_total_witness:
  "(\<exists>x. generate_schemas sample_fmt [''out''] sample_listing sample_module ''v1'' sample_world =
      (Inl (TypeError (''generated symbol collision: '' @ x)), sample_world)) \<or>
   (\<exists>fs. generate_schemas sample_fmt [''out''] sample_listing sample_module ''v1'' sample_world =
      (Inl ascii_error, sample_world\<lparr>world_files := fs\<rparr>)) \<or>
   (\<exists>w. generate_schemas sample_fmt [''out''] sample_listing sample_module ''v1'' sample_world = (Inr (), w) \<and>
      length (world_commands w) = 1)"
proof -
  have mk: "mkdir_parents [''out''] sample_world = (Inr (), sample_world)" by code_simp
  have takes: "takes_modules (world_files sample_world) [''out'']"
    unfolding takes_modules_def modules_def by code_simp
  have clean: "validate_output_directory (map path_name (children (world_files sample_world) [''out''])) = Inr ()" by code_simp
  have fmt: "bnd (run_checked sample_fmt argv) (\<lambda>_. ret ()) w = (Inr (), w\<lparr>world_commands := world_commands w @ [argv]\<rparr>)" for argv w
    by (simp add: run_checked_def run_process_def sample_fmt_def bnd_def)
  show ?thesis
    using generator_total [OF mk takes clean sample_load sample_loaded_ok, of sample_fmt "''v1''"]
    by (elim disjE exE conjE) (auto simp: fmt sample_world_def split: if_splits)
qed

end
