(* ===== verification/Devnet_Batches.thy ===== *)
theory Devnet_Batches
  imports Py_World
begin

text \<open>
  The corpus downloader \<^verbatim>\<open>eest/scripts/fetch-devnet-batches.py\<close>: validation of batch records,
  resolution of the catalog, the check of archive members, the download of one batch and the
  whole run. The programs it starts (\<^verbatim>\<open>curl\<close>, \<^verbatim>\<open>tar\<close>), \<^verbatim>\<open>json.loads\<close>, SHA-256, the clock and the
  working directory are fields of an environment, and every statement holds for all of them.
\<close>

section \<open>Environment and data\<close>

record devnet_env =
  env_run :: runner
  env_loads :: "string \<Rightarrow> pyval result"
  env_sha256 :: "string \<Rightarrow> string"
  env_now :: string
  env_cwd :: path

record corpus =
  corpus_id :: string
  corpus_network :: string
  corpus_catalog_url :: string
  corpus_generated_at :: pyval
  corpus_digest :: string
  corpus_batches :: "pyval list"

record block_info =
  block_number :: int
  block_hash :: string
  slot_number :: int
  gas_used :: int
  stateless_input_byte_length :: int
  block_fixture :: string

record devnet_args =
  catalog_url :: string
  latest_batches :: int
  arg_network :: string
  output_root :: path
  resolved_manifest :: path

section \<open>Fetching\<close>

definition curl_argv :: "string \<Rightarrow> nat \<Rightarrow> string list" where
  "curl_argv url attempts =
     [''curl'', ''-fsSL'', ''--proto'', ''=https'', ''--tlsv1.2'', ''--retry'', show_nat attempts,
      ''--user-agent'', ''evmz-ci/1'', url]"

definition fetch_bytes :: "devnet_env \<Rightarrow> string \<Rightarrow> nat \<Rightarrow> string io" where
  "fetch_bytes env url attempts =
     bnd (run_process (env_run env) (curl_argv url attempts)) (\<lambda>c.
     io_raise_if (returncode c \<noteq> 0)
       (CorpusError (''failed to download '' @ url @ '': '' @ strip (run_stderr c)))
       (ret (run_stdout c)))"

section \<open>Validation of a batch record\<close>

definition is_hex :: "char \<Rightarrow> bool" where
  "is_hex c = (is_digit c \<or> 97 \<le> ord c \<and> ord c \<le> 102 \<or> 65 \<le> ord c \<and> ord c \<le> 70)"

definition sha256_hex :: "pyval \<Rightarrow> string result" where
  "sha256_hex v =
     (let digits = (if startswith (py_str v) ''0x'' then drop 2 (py_str v) else py_str v)
      in if length digits \<noteq> 64 \<or> (\<exists>c\<in>set digits. \<not> is_hex c)
         then Inl (CorpusError (''invalid sha256: '' @ py_str v))
         else Inr (lower digits))"

definition required_fields :: "string list" where
  "required_fields = [''schemaVersion'', ''network'', ''batchStartBlock'', ''batchEndBlock'',
     ''batchSize'', ''artifactCount'', ''byteLength'', ''sha256'', ''path'']"

text \<open>\<^verbatim>\<open>int(batch[key])\<close>.\<close>

definition batch_int :: "pyval \<Rightarrow> string \<Rightarrow> int result" where
  "batch_int batch key = rbind (py_item batch key) py_int"

definition range_text :: "int \<Rightarrow> int \<Rightarrow> string" where
  "range_text a b = show_int a @ ''-'' @ show_int b"

definition check_batch_ranges :: "int \<Rightarrow> int \<Rightarrow> int \<Rightarrow> int \<Rightarrow> int \<Rightarrow> unit result" where
  "check_batch_ranges start end batch_size artifacts byte_length =
     raise_if (start < 0 \<or> end < start \<or> end - start + 1 \<noteq> batch_size)
       (CorpusError (''invalid batch range: '' @ range_text start end @ '' size='' @ show_int batch_size))
    (raise_if (artifacts < batch_size)
       (CorpusError (''incomplete batch '' @ range_text start end @ '': '' @ show_int artifacts @ ''/''
          @ show_int batch_size @ '' artifacts''))
    (raise_if (byte_length \<le> 0)
       (CorpusError (''empty batch '' @ range_text start end))
    (Inr ())))"

definition safe_batch_path :: "string \<Rightarrow> bool" where
  "safe_batch_path p = (\<not> (startswith p ''/'' \<or> ''..'' \<in> set (path_of p) \<or> \<not> endswith p ''.tar.zst''))"

definition validate_fields :: "(string \<times> pyval) list \<Rightarrow> string \<Rightarrow> pyval result" where
  "validate_fields d network =
     rbind (py_item (PDict d) ''schemaVersion'') (\<lambda>schema.
     raise_if (\<not> py_eq schema (PInt 2)) (CorpusError (''unsupported batch schema: '' @ py_str schema)) (
     rbind (py_item (PDict d) ''network'') (\<lambda>net.
     raise_if (\<not> py_eq net (PStr network))
       (CorpusError (''batch network '' @ py_str net @ '' does not match '' @ network)) (
     rbind (batch_int (PDict d) ''batchStartBlock'') (\<lambda>start.
     rbind (batch_int (PDict d) ''batchEndBlock'') (\<lambda>end.
     rbind (batch_int (PDict d) ''batchSize'') (\<lambda>batch_size.
     rbind (batch_int (PDict d) ''artifactCount'') (\<lambda>artifacts.
     rbind (batch_int (PDict d) ''byteLength'') (\<lambda>byte_length.
     rbind (py_item (PDict d) ''path'') (\<lambda>path.
     rbind (check_batch_ranges start end batch_size artifacts byte_length) (\<lambda>_.
     raise_if (\<not> safe_batch_path (py_str path)) (CorpusError (''unsafe batch path: '' @ py_str path)) (
     rbind (py_item (PDict d) ''sha256'') (\<lambda>sha.
     rbind (sha256_hex sha) (\<lambda>h.
       Inr (PDict (dict_set d ''sha256'' (PStr (''0x'' @ h))))))))))))))))))"

definition missing_fields :: "(string \<times> pyval) list \<Rightarrow> string list" where
  "missing_fields d = sort (filter (\<lambda>k. k \<notin> set (dict_keys d)) required_fields)"

definition validate_batch :: "pyval \<Rightarrow> string \<Rightarrow> pyval result" where
  "validate_batch batch network = (case batch of
      PDict d \<Rightarrow>
        raise_if (missing_fields d \<noteq> [])
          (CorpusError (''batch is missing fields: '' @ join '', '' (missing_fields d)))
          (validate_fields d network)
    | _ \<Rightarrow> Inl (AttributeError (CHR 0x27 # type_name batch @ [CHR 0x27] @ '' object has no attribute keys'')))"

section \<open>The sequence of batches and the catalog\<close>

definition item_text :: "pyval \<Rightarrow> string \<Rightarrow> string result" where
  "item_text batch key = rbind (py_item batch key) (\<lambda>v. Inr (py_str v))"

definition check_adjacent :: "pyval \<times> pyval \<Rightarrow> unit result" where
  "check_adjacent pair = (case pair of (previous, current) \<Rightarrow>
     rbind (batch_int previous ''batchEndBlock'') (\<lambda>e.
     rbind (batch_int current ''batchStartBlock'') (\<lambda>s.
       if e + 1 \<noteq> s then
         rbind (item_text previous ''batchStartBlock'') (\<lambda>ps.
         rbind (item_text previous ''batchEndBlock'') (\<lambda>pe.
         rbind (item_text current ''batchStartBlock'') (\<lambda>cs.
         rbind (item_text current ''batchEndBlock'') (\<lambda>ce.
           Inl (CorpusError (''non-contiguous batches: '' @ ps @ ''-'' @ pe @ '' then '' @ cs @ ''-'' @ ce))))))
       else Inr ())))"

definition validate_sequence :: "pyval list \<Rightarrow> unit result" where
  "validate_sequence batches =
     raise_if (batches = []) (CorpusError ''corpus has no batches'')
       (rbind (rmap check_adjacent (zip batches (tl batches))) (\<lambda>_. Inr ()))"

fun corpus_or_json_error :: "pyexc \<Rightarrow> bool" where
  "corpus_or_json_error (CorpusError _) = True"
| "corpus_or_json_error (JSONDecodeError _) = True"
| "corpus_or_json_error _ = False"

text \<open>One line of \<^verbatim>\<open>batches.jsonl\<close>: its number, from 1, and its bytes.\<close>

definition parse_record :: "devnet_env \<Rightarrow> string \<Rightarrow> nat \<times> string \<Rightarrow> pyval result" where
  "parse_record env network numbered = (case numbered of (n, line) \<Rightarrow>
     except_as corpus_or_json_error
       (\<lambda>e. CorpusError (''invalid batches.jsonl line '' @ show_nat n @ '': '' @ exc_message e))
       (rbind (env_loads env line) (\<lambda>v. validate_batch v network)))"

definition numbered_lines :: "string \<Rightarrow> (nat \<times> string) list" where
  "numbered_lines text = filter (\<lambda>(n, line). strip_if is_bytes_space line \<noteq> [])
     (List.enumerate 1 (bytes_splitlines text))"

definition catalog_records :: "devnet_env \<Rightarrow> string \<Rightarrow> string \<Rightarrow> pyval list result" where
  "catalog_records env network text =
     rbind (rmap (parse_record env network) (numbered_lines text))
       (py_sort_key (\<lambda>batch. batch_int batch ''batchStartBlock''))"

definition select_batches :: "int \<Rightarrow> pyval list \<Rightarrow> pyval list result" where
  "select_batches requested records =
     (let batches = take_last (nat requested) records
      in raise_if (int (length batches) \<noteq> requested)
           (CorpusError (''catalog contains only '' @ show_nat (length batches) @ '' batches, expected '' @ show_int requested))
           (rbind (validate_sequence batches) (\<lambda>_. Inr batches)))"

definition make_corpus :: "devnet_env \<Rightarrow> string \<Rightarrow> string \<Rightarrow> pyval \<Rightarrow> pyval list \<Rightarrow> corpus result" where
  "make_corpus env url network generated_at batches =
     (let digest = env_sha256 env (json_compact (PList batches))
      in rbind (rbind (py_first batches) (\<lambda>b. batch_int b ''batchStartBlock'')) (\<lambda>start.
         rbind (rbind (py_last batches) (\<lambda>b. batch_int b ''batchEndBlock'')) (\<lambda>end.
           Inr \<lparr>corpus_id = network @ ''-'' @ show_int start @ ''-'' @ show_int end @ ''-'' @ take 16 digest,
                corpus_network = network, corpus_catalog_url = url, corpus_generated_at = generated_at,
                corpus_digest = digest, corpus_batches = batches\<rparr>)))"

definition resolve_catalog :: "devnet_env \<Rightarrow> string \<Rightarrow> string \<Rightarrow> int \<Rightarrow> corpus io" where
  "resolve_catalog env catalog network requested =
     io_raise_if (requested \<le> 0) (CorpusError ''latest batch count must be positive'') (
     let url = rstrip_if (\<lambda>c. c = CHR ''/'') catalog in
     bnd (fetch_bytes env (url @ ''/manifest.json'') 3) (\<lambda>manifest_text.
     bnd (lift (env_loads env manifest_text)) (\<lambda>manifest.
     bnd (lift (py_get manifest ''schemaVersion'')) (\<lambda>schema.
     io_raise_if (\<not> py_eq schema (PInt 2)) (CorpusError (''unsupported catalog schema: '' @ py_str schema)) (
     bnd (lift (py_get manifest ''network'')) (\<lambda>net.
     io_raise_if (\<not> py_eq net (PStr network))
       (CorpusError (''catalog network '' @ py_str net @ '' does not match '' @ network)) (
     bnd (fetch_bytes env (url @ ''/batches.jsonl'') 3) (\<lambda>lines_text.
     bnd (lift (catalog_records env network lines_text)) (\<lambda>records.
     bnd (lift (select_batches requested records)) (\<lambda>batches.
     bnd (lift (py_get manifest ''generatedAt'')) (\<lambda>generated_at.
       lift (make_corpus env url network generated_at batches))))))))))))"

section \<open>Archive members\<close>

text \<open>\<^verbatim>\<open>posixpath.normpath\<close>.\<close>

definition initial_slashes :: "string \<Rightarrow> nat" where
  "initial_slashes s = (if startswith s ''//'' \<and> \<not> startswith s ''///'' then 2
     else if startswith s ''/'' then 1 else 0)"

definition norm_step :: "nat \<Rightarrow> string list \<Rightarrow> string \<Rightarrow> string list" where
  "norm_step slashes new_comps c =
     (if c = [] \<or> c = ''.'' then new_comps
      else if c \<noteq> ''..'' \<or> slashes = 0 \<and> new_comps = [] \<or> new_comps \<noteq> [] \<and> last new_comps = ''..''
      then new_comps @ [c]
      else if new_comps \<noteq> [] then butlast new_comps
      else new_comps)"

definition norm_comps :: "string \<Rightarrow> string list" where
  "norm_comps s = foldl (norm_step (initial_slashes s)) [] (split_on (CHR ''/'') s)"

definition normpath :: "string \<Rightarrow> string" where
  "normpath s =
     (let p = replicate (initial_slashes s) (CHR ''/'') @ join ''/'' (norm_comps s)
      in if s = [] \<or> p = [] then ''.'' else p)"

definition unsafe_member :: "string \<Rightarrow> bool" where
  "unsafe_member name =
     (let normalized = normpath name
      in startswith normalized ''/'' \<or> normalized = ''..'' \<or> startswith normalized ''../'')"

definition check_member :: "string \<Rightarrow> unit result" where
  "check_member name =
     raise_if (unsafe_member name) (CorpusError (''unsafe archive member: '' @ name)) (Inr ())"

definition list_argv :: "path \<Rightarrow> string list" where
  "list_argv archive = [''tar'', ''--zstd'', ''-tf'', path_str archive]"

definition safe_archive_members :: "devnet_env \<Rightarrow> path \<Rightarrow> unit io" where
  "safe_archive_members env archive =
     bnd (run_checked (env_run env) (list_argv archive)) (\<lambda>c.
     bnd (lift (rmap check_member (splitlines (run_stdout c)))) (\<lambda>_. ret ()))"

section \<open>Downloading one batch\<close>

definition batch_id :: "int \<Rightarrow> int \<Rightarrow> string" where
  "batch_id start end = show_int start @ ''-'' @ show_int end"

definition extract_argv :: "path \<Rightarrow> path \<Rightarrow> string list" where
  "extract_argv archive extract_root =
     [''tar'', ''--zstd'', ''--no-same-owner'', ''--no-same-permissions'', ''-xf'', path_str archive,
      ''-C'', path_str extract_root]"

definition extracted_fixtures :: "files \<Rightarrow> path \<Rightarrow> path list" where
  "extracted_fixtures fs extract_root =
     filter (\<lambda>p. ''blockchain_tests'' \<in> set (relative_to extract_root p))
       (rglob fs extract_root (\<lambda>name. endswith name ''.json''))"

text \<open>Lines 185--191: the payload, once its length and its hash are the recorded ones.\<close>

definition fetch_verified :: "devnet_env \<Rightarrow> string \<Rightarrow> pyval \<Rightarrow> string \<Rightarrow> string io" where
  "fetch_verified env catalog batch bid =
     bnd (lift (item_text batch ''path'')) (\<lambda>path.
     bnd (fetch_bytes env (catalog @ ''/'' @ path) 3) (\<lambda>payload.
     bnd (lift (batch_int batch ''byteLength'')) (\<lambda>byte_length.
     io_raise_if (int (length payload) \<noteq> byte_length) (CorpusError (''batch '' @ bid @ '' length mismatch'')) (
     bnd (lift (rbind (py_item batch ''sha256'') sha256_hex)) (\<lambda>expected.
     io_raise_if (env_sha256 env payload \<noteq> expected)
       (CorpusError (''batch '' @ bid @ '' sha256 mismatch: '' @ env_sha256 env payload @ '' != '' @ expected))
       (ret payload))))))"

text \<open>Lines 193--209: the archive is written, its members checked, extracted and removed.\<close>

definition unpack :: "devnet_env \<Rightarrow> path \<Rightarrow> path \<Rightarrow> string \<Rightarrow> unit io" where
  "unpack env archive extract_root payload =
     bnd (write_file archive payload) (\<lambda>_.
     bnd (safe_archive_members env archive) (\<lambda>_.
     bnd (mkdir extract_root) (\<lambda>_.
     bnd (run_checked (env_run env) (extract_argv archive extract_root)) (\<lambda>_.
       unlink archive))))"

text \<open>Lines 223--231: the identity the archive's own manifest states.\<close>

definition identity_matches :: "pyval \<Rightarrow> pyval \<Rightarrow> int \<Rightarrow> int \<Rightarrow> bool result" where
  "identity_matches manifest network start end =
     rbind (py_get manifest ''schemaVersion'') (\<lambda>schema.
     rbind (py_get manifest ''network'') (\<lambda>net.
     rbind (py_get manifest ''batchStartBlock'') (\<lambda>s.
     rbind (py_get manifest ''batchEndBlock'') (\<lambda>e.
       Inr (py_eq schema (PInt 2) \<and> py_eq net network \<and> py_eq s (PInt start) \<and> py_eq e (PInt end))))))"

text \<open>Lines 232--238: the artifacts, a list of \<open>expected\<close> objects.\<close>

definition artifact_list :: "pyval \<Rightarrow> int \<Rightarrow> string \<Rightarrow> pyval list result" where
  "artifact_list manifest expected bid =
     rbind (py_get manifest ''artifacts'') (\<lambda>artifacts.
       (case artifacts of
          PList xs \<Rightarrow> if int (length xs) \<noteq> expected \<or> (\<exists>x\<in>set xs. type_name x \<noteq> ''dict'')
            then Inl (CorpusError (''batch '' @ bid @ '' has invalid artifact metadata'')) else Inr xs
        | _ \<Rightarrow> Inl (CorpusError (''batch '' @ bid @ '' has invalid artifact metadata''))))"

definition artifact_name :: "pyval \<Rightarrow> string result" where
  "artifact_name artifact = rbind (py_get artifact ''archivePath'') (\<lambda>v. Inr (py_str v))"

definition read_block :: "pyval \<Rightarrow> block_info result" where
  "read_block artifact =
     rbind (batch_int artifact ''blockNumber'') (\<lambda>number.
     rbind (item_text artifact ''blockHash'') (\<lambda>hash.
     rbind (batch_int artifact ''slotNumber'') (\<lambda>slot.
     rbind (batch_int artifact ''gasUsed'') (\<lambda>gas.
     rbind (batch_int artifact ''statelessInputByteLength'') (\<lambda>len.
     rbind (item_text artifact ''archivePath'') (\<lambda>name.
       Inr \<lparr>block_number = number, block_hash = hash, slot_number = slot, gas_used = gas,
            stateless_input_byte_length = len, block_fixture = name\<rparr>))))))"

fun malformed_error :: "pyexc \<Rightarrow> bool" where
  "malformed_error (KeyError _) = True"
| "malformed_error (TypeError _) = True"
| "malformed_error e = is_value_error e"

definition read_blocks :: "string \<Rightarrow> pyval list \<Rightarrow> block_info list result" where
  "read_blocks bid artifacts =
     rmap (\<lambda>a. except_as malformed_error
       (\<lambda>_. CorpusError (''batch '' @ bid @ '' has malformed block metadata'')) (read_block a)) artifacts"

text \<open>Lines 211--259: the extracted tree agrees with the record and with its own manifest.\<close>

definition check_extracted :: "devnet_env \<Rightarrow> pyval \<Rightarrow> path \<Rightarrow> int \<Rightarrow> int \<Rightarrow> block_info list io" where
  "check_extracted env batch extract_root start end =
     (let bid = batch_id start end in
     bnd get_files (\<lambda>fs.
     let fixtures = extracted_fixtures fs extract_root in
     bnd (lift (batch_int batch ''artifactCount'')) (\<lambda>expected.
     io_raise_if (int (length fixtures) \<noteq> expected)
       (CorpusError (''batch '' @ bid @ '' extracted '' @ show_nat (length fixtures) @ '' fixtures, expected ''
          @ show_int expected)) (
     bnd (read_file (extract_root @ [''.meta'', ''manifest.json''])) (\<lambda>manifest_text.
     bnd (lift (env_loads env manifest_text)) (\<lambda>manifest.
     bnd (lift (py_item batch ''network'')) (\<lambda>network.
     bnd (lift (identity_matches manifest network start end)) (\<lambda>same.
     io_raise_if (\<not> same) (CorpusError (''batch '' @ bid @ '' has mismatched archive metadata'')) (
     bnd (lift (artifact_list manifest expected bid)) (\<lambda>artifacts.
     bnd (lift (rmap artifact_name artifacts)) (\<lambda>names.
     io_raise_if (set (map (\<lambda>p. path_str (relative_to extract_root p)) fixtures) \<noteq> set names)
       (CorpusError (''batch '' @ bid @ '' artifact paths do not match extracted fixtures'')) (
       lift (read_blocks bid artifacts)))))))))))))"

definition download_batch :: "devnet_env \<Rightarrow> string \<Rightarrow> path \<Rightarrow> pyval \<Rightarrow> block_info list io" where
  "download_batch env catalog root batch =
     bnd (lift (batch_int batch ''batchStartBlock'')) (\<lambda>start.
     bnd (lift (batch_int batch ''batchEndBlock'')) (\<lambda>end.
     let bid = batch_id start end;
         archive = root @ [bid @ ''.tar.zst''];
         extract_root = root @ [bid] in
     bnd (fetch_verified env catalog batch bid) (\<lambda>payload.
     bnd (unpack env archive extract_root payload) (\<lambda>_.
       check_extracted env batch extract_root start end))))"

section \<open>The whole run\<close>

definition block_json :: "block_info \<Rightarrow> pyval" where
  "block_json b = PDict
     [(''block_number'', PInt (block_number b)), (''block_hash'', PStr (block_hash b)),
      (''slot_number'', PInt (slot_number b)), (''gas_used'', PInt (gas_used b)),
      (''stateless_input_byte_length'', PInt (stateless_input_byte_length b)),
      (''fixture'', PStr (block_fixture b))]"

definition resolved_json :: "devnet_env \<Rightarrow> corpus \<Rightarrow> int \<Rightarrow> string list \<Rightarrow> block_info list \<Rightarrow> pyval" where
  "resolved_json env c fixture_count fixture_roots blocks = PDict
     [(''schema_version'', PInt 1), (''id'', PStr (corpus_id c)), (''network'', PStr (corpus_network c)),
      (''catalog_url'', PStr (corpus_catalog_url c)), (''catalog_generated_at'', corpus_generated_at c),
      (''corpus_digest'', PStr (corpus_digest c)), (''mode'', PStr ''rolling''),
      (''batches'', PList (corpus_batches c)), (''resolved_at'', PStr (env_now env)),
      (''fixture_count'', PInt fixture_count), (''fixture_roots'', PList (map PStr fixture_roots)),
      (''blocks'', PList (map block_json (sort_key block_number blocks)))]"

definition fixture_roots_of :: "devnet_env \<Rightarrow> files \<Rightarrow> path \<Rightarrow> string list" where
  "fixture_roots_of env fs root =
     sort (map (\<lambda>p. path_str (path_resolve (env_cwd env) p))
       (filter (is_dir fs) (rglob fs root (\<lambda>name. name = ''blockchain_tests''))))"

definition download_all :: "devnet_env \<Rightarrow> corpus \<Rightarrow> path \<Rightarrow> block_info list io" where
  "download_all env c root =
     bnd (io_map (download_batch env (corpus_catalog_url c) root) (corpus_batches c)) (\<lambda>bs. ret (concat bs))"

text \<open>\<^verbatim>\<open>output_root.exists() and any(output_root.iterdir())\<close>.\<close>

definition require_empty :: "path \<Rightarrow> unit io" where
  "require_empty root = bnd get_files (\<lambda>fs.
     if is_file fs root then raise (OSError (path_str root))
     else io_raise_if (is_dir fs root \<and> children fs root \<noteq> [])
       (CorpusError (''output root is not empty: '' @ path_str root)) (ret ()))"

definition fetch_corpus :: "devnet_env \<Rightarrow> devnet_args \<Rightarrow> unit io" where
  "fetch_corpus env args =
     bnd (resolve_catalog env (catalog_url args) (arg_network args) (latest_batches args)) (\<lambda>c.
     bnd (require_empty (output_root args)) (\<lambda>_.
     bnd (mkdir_parents (output_root args)) (\<lambda>_.
     bnd (download_all env c (output_root args)) (\<lambda>blocks.
     bnd get_files (\<lambda>fs.
     let fixture_roots = fixture_roots_of env fs (output_root args) in
     io_raise_if (length fixture_roots \<noteq> length (corpus_batches c))
       (CorpusError (''extracted '' @ show_nat (length fixture_roots) @ '' fixture roots for ''
          @ show_nat (length (corpus_batches c)) @ '' batches'')) (
     bnd (lift (rmap (\<lambda>b. batch_int b ''artifactCount'') (corpus_batches c))) (\<lambda>counts.
     bnd (mkdir_parents (path_parent (resolved_manifest args))) (\<lambda>_.
       write_file (resolved_manifest args)
         (json_indent (resolved_json env c (sum_list counts) fixture_roots blocks) 0 @ [newline]))))))))) "

fun handled_error :: "pyexc \<Rightarrow> bool" where
  "handled_error (CorpusError _) = True"
| "handled_error (CalledProcessError _) = True"
| "handled_error (JSONDecodeError _) = True"
| "handled_error e = is_os_error e"

text \<open>\<^verbatim>\<open>main\<close>: the exit code, 1 for the errors the handler names; other exceptions escape.\<close>

definition devnet_main :: "devnet_env \<Rightarrow> devnet_args \<Rightarrow> int io" where
  "devnet_main env args w = (case fetch_corpus env args w of
      (Inr _, w') \<Rightarrow> (Inr 0, w')
    | (Inl e, w') \<Rightarrow> if handled_error e then (Inr 1, w') else (Inl e, w'))"


section \<open>Hashes and batch records\<close>

lemma to_lower_hex:
  assumes "is_hex c"
  shows "is_hex (to_lower c)" and "\<not> is_upper (to_lower c)"
proof -
  have "is_hex (to_lower c) \<and> \<not> is_upper (to_lower c)"
  proof (cases "is_upper c")
    case True
    with assms have "65 \<le> ord c" and "ord c \<le> 70" by (auto simp: is_hex_def is_upper_def is_digit_def)
    then show ?thesis by (simp add: True to_lower_def is_hex_def is_upper_def is_digit_def)
  qed (use assms in \<open>simp add: to_lower_def\<close>)
  then show "is_hex (to_lower c)" and "\<not> is_upper (to_lower c)" by auto
qed

lemma lower_fixed: "\<forall>c\<in>set s. \<not> is_upper c \<Longrightarrow> lower s = s"
  by (induction s) (auto simp: lower_def to_lower_def)

lemma hex_no_prefix: "\<forall>c\<in>set s. is_hex c \<Longrightarrow> \<not> startswith s ''0x''"
  by (cases s; cases "tl s") (auto simp: is_hex_def is_digit_def)

text \<open>A hash in normal form: 64 lower-case hexadecimal digits.\<close>

definition normal_hash :: "string \<Rightarrow> bool" where
  "normal_hash h = (length h = 64 \<and> (\<forall>c\<in>set h. is_hex c \<and> \<not> is_upper c))"

lemma sha256_hex_normal: "sha256_hex v = Inr h \<Longrightarrow> normal_hash h"
  using to_lower_hex by (auto simp: sha256_hex_def normal_hash_def lower_def Let_def split: if_splits)

lemma sha256_hex_fixed: "normal_hash h \<Longrightarrow> sha256_hex (PStr (''0x'' @ h)) = Inr h"
  by (auto simp: sha256_hex_def normal_hash_def Let_def lower_fixed)

lemma check_batch_ranges_Inr [value_simps]:
  "check_batch_ranges start end n artifacts len = Inr u \<longleftrightarrow>
     0 \<le> start \<and> start \<le> end \<and> n = end - start + 1 \<and> n \<le> artifacts \<and> 0 < len"
  by (auto simp: check_batch_ranges_def raise_if_def)

lemma batch_int_Inr [value_simps]:
  "batch_int b k = Inr n \<longleftrightarrow> (\<exists>d v. b = PDict d \<and> dict_get d k = Some v \<and> py_int v = Inr n)"
  by (auto simp: batch_int_def result_simps value_simps)

lemma missing_fields_empty:
  "missing_fields d = [] \<longleftrightarrow> (\<forall>k\<in>set required_fields. \<exists>v. dict_get d k = Some v)"
proof -
  have "(\<exists>v. dict_get d k = Some v) \<longleftrightarrow> k \<in> set (dict_keys d)" for k
    using dict_get_keys [of d k] by (cases "dict_get d k") auto
  then show ?thesis
    by (metis (no_types, lifting) missing_fields_def filter_empty_conv length_0_conv length_sort)
qed

text \<open>What an accepted record satisfies, and what validation makes of it.\<close>

definition accepted_batch :: "string \<Rightarrow> (string \<times> pyval) list \<Rightarrow> string \<Rightarrow> bool" where
  "accepted_batch network d h \<longleftrightarrow> (\<exists>schema start end artifacts len path sha.
     dict_get d ''schemaVersion'' = Some schema \<and> py_eq schema (PInt 2) \<and>
     dict_get d ''network'' = Some (PStr network) \<and>
     batch_int (PDict d) ''batchStartBlock'' = Inr start \<and> batch_int (PDict d) ''batchEndBlock'' = Inr end \<and>
     batch_int (PDict d) ''batchSize'' = Inr (end - start + 1) \<and>
     batch_int (PDict d) ''artifactCount'' = Inr artifacts \<and> batch_int (PDict d) ''byteLength'' = Inr len \<and>
     0 \<le> start \<and> start \<le> end \<and> end - start + 1 \<le> artifacts \<and> 0 < len \<and>
     dict_get d ''path'' = Some path \<and> safe_batch_path (py_str path) \<and>
     dict_get d ''sha256'' = Some sha \<and> sha256_hex sha = Inr h)"

lemma validate_fields_Inr:
  "validate_fields d network = Inr v \<longleftrightarrow>
     (\<exists>h. accepted_batch network d h \<and> v = PDict (dict_set d ''sha256'' (PStr (''0x'' @ h))))"
  unfolding validate_fields_def accepted_batch_def
  by (simp add: result_simps value_simps) blast

lemma accepted_batch_fields: "accepted_batch network d h \<Longrightarrow> missing_fields d = []"
  by (auto simp: missing_fields_empty required_fields_def accepted_batch_def value_simps)

lemma validate_batch_Inr:
  "validate_batch b network = Inr v \<longleftrightarrow>
     (\<exists>d h. b = PDict d \<and> accepted_batch network d h \<and> v = PDict (dict_set d ''sha256'' (PStr (''0x'' @ h))))"
  using accepted_batch_fields
  by (cases b) (fastforce simp: validate_batch_def result_simps validate_fields_Inr)+

lemma dict_set_idem: "dict_set (dict_set d k v) k v = dict_set d k v"
  by (induction d) auto

lemma accepted_batch_normalized:
  assumes "accepted_batch network d h"
  shows "accepted_batch network (dict_set d ''sha256'' (PStr (''0x'' @ h))) h"
proof -
  from assms have "normal_hash h" by (auto simp: accepted_batch_def dest: sha256_hex_normal)
  from sha256_hex_fixed [OF this] assms show ?thesis
    by (auto simp: accepted_batch_def batch_int_Inr dict_simps)
qed

lemma validate_batch_idem:
  assumes "validate_batch b network = Inr v"
  shows "validate_batch v network = Inr v"
proof -
  from assms obtain d h where "accepted_batch network d h"
    and v: "v = PDict (dict_set d ''sha256'' (PStr (''0x'' @ h)))" by (auto simp: validate_batch_Inr)
  from accepted_batch_normalized [OF this(1)] v show ?thesis
    by (auto simp: validate_batch_Inr dict_set_idem)
qed


section \<open>Sequences of batches\<close>

text \<open>The block range of a record.\<close>

definition batch_range :: "pyval \<Rightarrow> int \<times> int \<Rightarrow> bool" where
  "batch_range b r \<longleftrightarrow>
     batch_int b ''batchStartBlock'' = Inr (fst r) \<and> batch_int b ''batchEndBlock'' = Inr (snd r)"

definition adjacent :: "(int \<times> int) list \<Rightarrow> bool" where
  "adjacent rs = (\<forall>i. Suc i < length rs \<longrightarrow> snd (rs ! i) + 1 = fst (rs ! Suc i))"

lemma adjacent_Cons:
  "adjacent (r # rs) \<longleftrightarrow> (rs \<noteq> [] \<longrightarrow> snd r + 1 = fst (hd rs)) \<and> adjacent rs"
  by (auto simp: adjacent_def hd_conv_nth nth_Cons split: nat.splits)

lemma adjacent_Nil: "adjacent []"
  by (simp add: adjacent_def)

lemma adjacent_sum:
  "adjacent rs \<Longrightarrow> rs \<noteq> [] \<Longrightarrow> (\<Sum>r\<leftarrow>rs. snd r - fst r + 1) = snd (last rs) - fst (hd rs) + 1"
  by (induction rs) (auto simp: adjacent_Cons)

lemma check_adjacent_Inr:
  "check_adjacent (p, c) = Inr u \<longleftrightarrow> (\<exists>e. batch_int p ''batchEndBlock'' = Inr e \<and>
     batch_int c ''batchStartBlock'' = Inr (e + 1))"
  by (auto simp: check_adjacent_def result_simps)

lemma check_adjacent_all:
  assumes "rmap check_adjacent (zip bs (tl bs)) = Inr us" and "list_all2 batch_range bs rs"
  shows "adjacent rs"
  using assms(2,1)
proof (induction bs rs arbitrary: us rule: list_all2_induct)
  case (Cons b bs r rs)
  then show ?case
    by (cases bs; cases rs)
       (auto simp: adjacent_Cons adjacent_Nil batch_range_def check_adjacent_Inr rbind_Inr_iff)
qed (simp add: adjacent_Nil)

lemma accepted_range:
  assumes "validate_batch b network = Inr b"
  shows "\<exists>r. batch_range b r \<and> 0 \<le> fst r \<and> fst r \<le> snd r \<and>
    batch_int b ''batchSize'' = Inr (snd r - fst r + 1)"
proof -
  from assms obtain d h where "b = PDict d" and "accepted_batch network d h"
    by (auto simp: validate_batch_Inr)
  then show ?thesis unfolding accepted_batch_def batch_range_def by (metis fst_conv snd_conv)
qed

lemma list_all2_exists: "\<forall>x\<in>set xs. \<exists>y. P x y \<Longrightarrow> \<exists>ys. list_all2 P xs ys"
  by (induction xs) (auto intro: list_all2_Cons [THEN iffD2])

lemma parse_record_Inr:
  "parse_record env network nl = Inr b \<Longrightarrow> \<exists>v. env_loads env (snd nl) = Inr v \<and> validate_batch v network = Inr b"
  by (auto simp: parse_record_def result_simps split: prod.splits)

lemma catalog_records_valid:
  assumes "catalog_records env network text = Inr records" and "b \<in> set records"
  shows "validate_batch b network = Inr b"
proof -
  from assms(1) obtain rs where rs: "rmap (parse_record env network) (numbered_lines text) = Inr rs"
    and sorted: "py_sort_key (\<lambda>batch. batch_int batch ''batchStartBlock'') rs = Inr records"
    by (auto simp: catalog_records_def rbind_Inr_iff)
  have "b \<in> set rs" using assms(2) py_sort_key_Inr(1) [OF sorted] by (metis set_mset_mset)
  with rs obtain nl where "parse_record env network nl = Inr b"
    by (auto simp: rmap_Inr_iff dest: list_all2_rightD)
  from parse_record_Inr [OF this] show ?thesis by (auto dest: validate_batch_idem)
qed

lemma select_batches_Inr:
  assumes "select_batches n records = Inr bs"
  shows "bs = take_last (nat n) records" and "int (length bs) = n" and "bs \<noteq> []"
    and "\<exists>us. rmap check_adjacent (zip bs (tl bs)) = Inr us"
  using assms by (auto simp: select_batches_def validate_sequence_def Let_def raise_if_Inr_iff rbind_Inr_iff)

lemma selected_ranges:
  assumes records: "catalog_records env network text = Inr records"
    and bs: "select_batches n records = Inr bs"
  shows "\<exists>rs. list_all2 batch_range bs rs \<and> adjacent rs \<and> rs \<noteq> [] \<and>
    (\<forall>r\<in>set rs. 0 \<le> fst r \<and> fst r \<le> snd r) \<and>
    list_all2 (\<lambda>b r. batch_int b ''batchSize'' = Inr (snd r - fst r + 1)) bs rs"
proof -
  have "b \<in> set records" if "b \<in> set bs" for b
    using that select_batches_Inr(1) [OF bs] set_take_last [of "nat n" records] by auto
  then have "\<forall>b\<in>set bs. \<exists>r. batch_range b r \<and> 0 \<le> fst r \<and> fst r \<le> snd r \<and>
      batch_int b ''batchSize'' = Inr (snd r - fst r + 1)"
    using catalog_records_valid [OF records] accepted_range by blast
  from list_all2_exists [OF this] obtain rs where rs: "list_all2 (\<lambda>b r. batch_range b r \<and> 0 \<le> fst r \<and>
      fst r \<le> snd r \<and> batch_int b ''batchSize'' = Inr (snd r - fst r + 1)) bs rs" ..
  then have "list_all2 batch_range bs rs"
    and "list_all2 (\<lambda>b r. batch_int b ''batchSize'' = Inr (snd r - fst r + 1)) bs rs"
    by (auto elim: list_all2_mono)
  moreover have "\<forall>r\<in>set rs. 0 \<le> fst r \<and> fst r \<le> snd r" using rs by (auto dest: list_all2_rightD)
  moreover have "rs \<noteq> []" using rs select_batches_Inr(3) [OF bs] by auto
  ultimately show ?thesis using select_batches_Inr(4) [OF bs] check_adjacent_all by blast
qed

lemma make_corpus_Inr:
  assumes "make_corpus env url network gen bs = Inr c" and "list_all2 batch_range bs rs"
  shows "corpus_batches c = bs" and "corpus_catalog_url c = url" and "corpus_network c = network"
    and "corpus_digest c = env_sha256 env (json_compact (PList bs))"
    and "corpus_id c = network @ ''-'' @ show_int (fst (hd rs)) @ ''-'' @ show_int (snd (last rs)) @ ''-''
      @ take 16 (corpus_digest c)"
proof -
  have ne: "bs \<noteq> []" using assms(1) by (auto simp: make_corpus_def py_first_def Let_def)
  then have rs: "rs \<noteq> []" using assms(2) by auto
  have "batch_range (hd bs) (hd rs)" and "batch_range (last bs) (last rs)"
    using assms(2) ne rs list_all2_lengthD [OF assms(2)]
    by (simp_all add: hd_conv_nth last_conv_nth list_all2_nthD)
  with assms(1) ne show "corpus_batches c = bs" and "corpus_catalog_url c = url"
    and "corpus_network c = network" and "corpus_digest c = env_sha256 env (json_compact (PList bs))"
    and "corpus_id c = network @ ''-'' @ show_int (fst (hd rs)) @ ''-'' @ show_int (snd (last rs)) @ ''-''
      @ take 16 (corpus_digest c)"
    by (cases bs; auto simp: make_corpus_def py_first_def py_last_def Let_def batch_range_def)+
qed

lemma resolve_catalog_Inr:
  assumes "resolve_catalog env catalog network n w = (Inr c, w')"
  obtains input records bs gen where
    "catalog_records env network input = Inr records" and "select_batches n records = Inr bs"
    and "make_corpus env (rstrip_if (\<lambda>c. c = CHR ''/'') catalog) network gen bs = Inr c" and "0 < n"
  using assms that by (auto simp: resolve_catalog_def Let_def io_simps)


section \<open>Archive members\<close>

text \<open>
  The lexical depth of a member below the extraction directory: a component goes down one
  level, \<open>..\<close> goes up one, and empty components and \<open>.\<close> stay.
\<close>

definition is_void :: "string \<Rightarrow> bool" where
  "is_void c = (c = [] \<or> c = ''.'')"

definition depth :: "string list \<Rightarrow> int" where
  "depth cs = (\<Sum>c\<leftarrow>cs. if is_void c then 0 else if c = ''..'' then - 1 else 1)"

definition climbs_out :: "string list \<Rightarrow> bool" where
  "climbs_out cs = (\<exists>n. depth (take n cs) < 0)"

lemma depth_snoc: "depth (cs @ [c]) = depth cs + (if is_void c then 0 else if c = ''..'' then - 1 else 1)"
  by (simp add: depth_def)

lemma climbs_out_snoc: "climbs_out (cs @ [c]) \<longleftrightarrow> climbs_out cs \<or> depth (cs @ [c]) < 0"
proof
  assume "climbs_out (cs @ [c])"
  then obtain n where n: "depth (take n (cs @ [c])) < 0" by (auto simp: climbs_out_def)
  show "climbs_out cs \<or> depth (cs @ [c]) < 0"
  proof (cases "n \<le> length cs")
    case True
    with n show ?thesis by (auto simp: climbs_out_def)
  next
    case False
    with n show ?thesis by simp
  qed
next
  have "climbs_out (cs @ [c])" if "depth (take n cs) < 0" for n
    using that unfolding climbs_out_def
    by (intro exI [of _ "min n (length cs)"]) (cases "n \<le> length cs", auto)
  moreover have "climbs_out (cs @ [c])" if "depth (cs @ [c]) < 0"
    using that unfolding climbs_out_def by (intro exI [of _ "Suc (length cs)"]) simp
  moreover assume "climbs_out cs \<or> depth (cs @ [c]) < 0"
  ultimately show "climbs_out (cs @ [c])" unfolding climbs_out_def [of cs] by blast
qed

text \<open>
  What normalisation of a relative name computes: leading \<open>..\<close> components exactly when the name
  climbs out, and otherwise the components of the position the name denotes.
\<close>

definition normal_form :: "string list \<Rightarrow> nat \<Rightarrow> string list \<Rightarrow> bool" where
  "normal_form cs k ns \<longleftrightarrow> foldl (norm_step 0) [] cs = replicate k ''..'' @ ns \<and>
     (\<forall>c\<in>set ns. c \<noteq> ''..'' \<and> \<not> is_void c \<and> c \<in> set cs) \<and> (0 < k \<longleftrightarrow> climbs_out cs) \<and>
     (k = 0 \<longrightarrow> depth cs = int (length ns) \<and>
        (\<forall>root. root \<noteq> [] \<longrightarrow> foldl resolve_part root (filter (\<lambda>c. \<not> is_void c) cs) = root @ ns))"

lemma normal_form_void: "normal_form cs k ns \<Longrightarrow> is_void c \<Longrightarrow> normal_form (cs @ [c]) k ns"
  by (auto simp: normal_form_def climbs_out_snoc depth_snoc norm_step_def is_void_def)

lemma normal_form_up:
  assumes "normal_form cs k []"
  shows "normal_form (cs @ [''..'']) (Suc k) []"
proof -
  have "norm_step 0 (replicate k ''..'') ''..'' = replicate (Suc k) ''..''"
    by (cases k) (auto simp: norm_step_def replicate_append_same)
  with assms show ?thesis by (cases k) (simp_all add: normal_form_def climbs_out_snoc depth_snoc is_void_def)
qed

lemma normal_form_back:
  assumes "normal_form cs k ns" and "ns \<noteq> []"
  shows "normal_form (cs @ [''..'']) k (butlast ns)"
proof -
  have "last ns \<noteq> ''..''" using assms by (simp add: normal_form_def)
  then have "norm_step 0 (replicate k ''..'' @ ns) ''..'' = replicate k ''..'' @ butlast ns"
    using assms(2) by (simp add: norm_step_def butlast_append)
  moreover have "resolve_part (root @ ns) ''..'' = root @ butlast ns" if "root \<noteq> []" for root
    using assms(2) that by (cases root; cases ns) (auto simp: resolve_part_def butlast_append)
  moreover have "int (length ns) - 1 = int (length (butlast ns))" using assms(2) by (cases ns) auto
  ultimately show ?thesis using assms
    by (auto simp: normal_form_def climbs_out_snoc depth_snoc is_void_def simp del: length_butlast
        dest: in_set_butlastD)
qed

lemma normal_form_down:
  "normal_form cs k ns \<Longrightarrow> c \<noteq> ''..'' \<Longrightarrow> \<not> is_void c \<Longrightarrow> normal_form (cs @ [c]) k (ns @ [c])"
  by (auto simp: normal_form_def climbs_out_snoc depth_snoc norm_step_def is_void_def resolve_part_def)

lemma normal_form_exists: "\<exists>k ns. normal_form cs k ns"
proof (induction cs rule: rev_induct)
  case Nil
  show ?case by (rule exI [of _ 0], rule exI [of _ "[]"]) (simp add: normal_form_def climbs_out_def depth_def)
next
  case (snoc c cs)
  then obtain k ns where nf: "normal_form cs k ns" by blast
  show ?case
  proof (cases "c = ''..''")
    case True
    with nf normal_form_up normal_form_back show ?thesis by (cases "ns = []") blast+
  next
    case False
    with nf normal_form_void normal_form_down show ?thesis by (cases "is_void c") blast+
  qed
qed

text \<open>
  A member name is refused exactly when it is absolute or climbs out of the extraction
  directory on the way.
\<close>

lemma join_up: "0 < k \<Longrightarrow> join ''/'' (replicate k ''..'' @ ns) = ''..'' \<or>
    startswith (join ''/'' (replicate k ''..'' @ ns)) ''../''"
  by (cases "replicate (k - 1) ''..'' @ ns") (cases k; auto)+

lemma join_down:
  assumes "\<forall>c\<in>set ns. c \<noteq> ''..'' \<and> c \<noteq> [] \<and> CHR ''/'' \<notin> set c"
  shows "\<not> startswith (join ''/'' ns) ''/''" and "join ''/'' ns \<noteq> ''..''"
    and "\<not> startswith (join ''/'' ns) ''../''"
proof -
  have split: "split_on (CHR ''/'') (join ''/'' ns) = ns" if "ns \<noteq> []"
    using assms that by (intro split_on_join) auto
  show "\<not> startswith (join ''/'' ns) ''/''"
    using assms split by (cases ns) (auto simp: prefix_def)
  show "join ''/'' ns \<noteq> ''..''"
    using assms split by (cases ns) (auto dest!: arg_cong [of _ _ "split_on (CHR ''/'')"])
  show "\<not> startswith (join ''/'' ns) ''../''"
    using assms split by (cases ns) (auto simp: prefix_def)
qed

lemma unsafe_member_iff:
  "unsafe_member name \<longleftrightarrow> startswith name ''/'' \<or> climbs_out (split_on (CHR ''/'') name)"
proof (cases "startswith name ''/''")
  case True
  then have "0 < initial_slashes name" by (simp add: initial_slashes_def)
  then have "startswith (normpath name) ''/''"
    using True by (cases "initial_slashes name") (auto simp: normpath_def Let_def)
  with True show ?thesis by (simp add: unsafe_member_def)
next
  case False
  then have slashes: "initial_slashes name = 0" by (auto simp: initial_slashes_def prefix_def)
  obtain k ns where nf: "normal_form (split_on (CHR ''/'') name) k ns" using normal_form_exists by blast
  let ?j = "join ''/'' (replicate k ''..'' @ ns)"
  from nf slashes have norm: "normpath name = (if name = [] \<or> ?j = [] then ''.'' else ?j)"
    by (simp add: normpath_def norm_comps_def normal_form_def)
  have ns: "\<forall>c\<in>set ns. c \<noteq> ''..'' \<and> c \<noteq> [] \<and> CHR ''/'' \<notin> set c"
    using nf split_on_no_sep by (fastforce simp: normal_form_def is_void_def)
  show ?thesis
  proof (cases "k = 0")
    case True
    with join_down [OF ns] norm have "\<not> unsafe_member name" by (simp add: unsafe_member_def)
    with True nf False show ?thesis by (simp add: normal_form_def)
  next
    case k: False
    then have "name \<noteq> []" using nf by (auto simp: normal_form_def norm_step_def)
    with k join_up [of k ns] norm have "unsafe_member name" by (auto simp: unsafe_member_def)
    with k nf show ?thesis by (simp add: normal_form_def)
  qed
qed

lemma foldl_resolve_clean:
  "''..'' \<notin> set p \<Longrightarrow> foldl resolve_part acc p = acc @ p"
  by (induction p arbitrary: acc) (auto simp: resolve_part_def)

text \<open>A member that is not refused stays below the extraction directory.\<close>

lemma safe_member_stays:
  assumes "\<not> unsafe_member name" and "is_absolute root" and "''..'' \<notin> set root"
  shows "prefix root (path_resolve root (path_of name))"
proof -
  let ?cs = "split_on (CHR ''/'') name"
  from assms(1) have rel: "\<not> startswith name ''/''" and "\<not> climbs_out ?cs"
    by (simp_all add: unsafe_member_iff)
  with normal_form_exists [of ?cs] obtain ns where nf: "normal_form ?cs 0 ns"
    by (auto simp: normal_form_def)
  have parts: "path_of name = filter (\<lambda>c. \<not> is_void c) ?cs"
    using rel by (auto simp: path_of_def path_root_def is_void_def prefix_def)
  have "\<not> is_absolute (path_of name)"
  proof (cases "path_of name")
    case (Cons c cs)
    then have "c \<in> set ?cs" using parts by (auto dest!: sym [of "filter _ _"] simp: filter_eq_Cons_iff)
    then have "CHR ''/'' \<notin> set c" by (rule split_on_no_sep)
    with Cons show ?thesis by (auto simp: is_absolute_def is_root_def)
  qed (simp add: is_absolute_def)
  moreover have "root \<noteq> []" using assms(2) by (auto simp: is_absolute_def)
  ultimately have "path_resolve root (path_of name) = root @ ns"
    using nf foldl_resolve_clean [OF assms(3), of "[]"] by (simp add: path_resolve_def normal_form_def parts)
  then show ?thesis by simp
qed

section \<open>What one download does\<close>

definition logged :: "world \<Rightarrow> world \<Rightarrow> string list list \<Rightarrow> bool" where
  "logged w w' new = (world_commands w' = world_commands w @ new)"

lemma logged_trans: "logged u v xs \<Longrightarrow> logged v w ys \<Longrightarrow> logged u w (xs @ ys)"
  by (simp add: logged_def)

lemma logged_quiet: "quiet.keeps m \<Longrightarrow> m w = (r, w') \<Longrightarrow> logged w w' []"
  by (drule (1) quiet.keepsD) (simp add: same_log_def logged_def)

lemma run_process_logged: "run_process run argv w = (r, w') \<Longrightarrow> logged w w' [argv]"
  by (auto simp: run_process_eq logged_def)

lemma run_checked_cases:
  assumes "run_checked run argv w = (r, w')"
  shows "logged w w' [argv]"
    and "r = Inr c \<Longrightarrow> run argv (world_files w) = (Inr c, world_files w') \<and> returncode c = 0"
proof -
  from assms show "logged w w' [argv]" unfolding run_checked_def
    by (elim bnd_cases) (auto simp: run_process_eq logged_def io_raise_if_def split: if_splits)
  show "run argv (world_files w) = (Inr c, world_files w') \<and> returncode c = 0" if "r = Inr c"
    using assms that by (auto simp: run_checked_Inr_iff run_process_eq)
qed

lemma fetch_bytes_cases:
  assumes "fetch_bytes env url n w = (r, w')"
  shows "logged w w' [curl_argv url n]"
    and "r = Inr payload \<Longrightarrow> \<exists>c. env_run env (curl_argv url n) (world_files w) = (Inr c, world_files w') \<and>
      returncode c = 0 \<and> run_stdout c = payload"
proof -
  from assms show "logged w w' [curl_argv url n]" unfolding fetch_bytes_def
    by (elim bnd_cases) (auto simp: run_process_eq logged_def io_raise_if_def split: if_splits)
  show "\<exists>c. env_run env (curl_argv url n) (world_files w) = (Inr c, world_files w') \<and>
      returncode c = 0 \<and> run_stdout c = payload" if "r = Inr payload"
    using assms that by (auto simp: fetch_bytes_def io_simps)
qed

text \<open>The payload is what the batch record describes.\<close>

definition payload_verified :: "devnet_env \<Rightarrow> pyval \<Rightarrow> string \<Rightarrow> bool" where
  "payload_verified env batch payload \<longleftrightarrow> batch_int batch ''byteLength'' = Inr (int (length payload)) \<and>
     rbind (py_item batch ''sha256'') sha256_hex = Inr (env_sha256 env payload)"

lemma fetch_verified_cases:
  assumes "fetch_verified env catalog batch bid w = (r, w')"
  obtains (none) e where "r = Inl e" and "w' = w"
    | (curl) p where "item_text batch ''path'' = Inr p" and "logged w w' [curl_argv (catalog @ ''/'' @ p) 3]"
        and "\<And>payload. r = Inr payload \<Longrightarrow> payload_verified env batch payload \<and>
          (\<exists>c. env_run env (curl_argv (catalog @ ''/'' @ p) 3) (world_files w) = (Inr c, world_files w') \<and>
             returncode c = 0 \<and> run_stdout c = payload)"
proof (cases "item_text batch ''path''")
  case (Inl e)
  with assms have "r = Inl e" and "w' = w" by (simp_all add: fetch_verified_def)
  with that(1) show thesis by blast
next
  case (Inr p)
  let ?url = "catalog @ ''/'' @ p"
  obtain q v where q: "fetch_bytes env ?url 3 w = (q, v)" by force
  with assms Inr have "world_commands w' = world_commands v \<and> world_files w' = world_files v \<and>
      (\<forall>payload. r = Inr payload \<longrightarrow> q = Inr payload \<and> payload_verified env batch payload)"
    unfolding fetch_verified_def
    by (auto simp: payload_verified_def io_raise_if_def split: if_splits elim!: bnd_cases)
  with fetch_bytes_cases [OF q] Inr that(2) show thesis by (auto simp: logged_def)
qed

lemma safe_archive_members_cases:
  assumes "safe_archive_members env archive w = (r, w')"
  shows "logged w w' [list_argv archive]"
    and "r = Inr u \<Longrightarrow> \<exists>c. env_run env (list_argv archive) (world_files w) = (Inr c, world_files w') \<and>
      returncode c = 0 \<and> (\<forall>name\<in>set (splitlines (run_stdout c)). \<not> unsafe_member name)"
proof -
  from assms show "logged w w' [list_argv archive]" unfolding safe_archive_members_def
    by (auto elim!: bnd_cases dest: run_checked_cases(1))
  show "\<exists>c. env_run env (list_argv archive) (world_files w) = (Inr c, world_files w') \<and>
      returncode c = 0 \<and> (\<forall>name\<in>set (splitlines (run_stdout c)). \<not> unsafe_member name)" if "r = Inr u"
  proof -
    from assms that obtain c v us where c: "run_checked (env_run env) (list_argv archive) w = (Inr c, v)"
      and us: "rmap check_member (splitlines (run_stdout c)) = Inr us" and "w' = v"
      by (auto simp: safe_archive_members_def bnd_Inr_iff lift_Inr_iff)
    moreover have "\<not> unsafe_member name" if "name \<in> set (splitlines (run_stdout c))" for name
      using rmap_memberD [OF us that] by (auto simp: check_member_def raise_if_Inr_iff)
    ultimately show ?thesis using run_checked_cases(2) [OF c] by auto
  qed
qed

lemma unpack_cases:
  assumes "unpack env archive extract_root payload w = (r, w')"
  shows "\<exists>new. logged w w' new \<and> prefix new [list_argv archive, extract_argv archive extract_root] \<and>
    (extract_argv archive extract_root \<in> set new \<longrightarrow> (\<exists>c fs.
       env_run env (list_argv archive) (dict_set (world_files w) archive (FileNode payload)) = (Inr c, fs) \<and>
       returncode c = 0 \<and> (\<forall>name\<in>set (splitlines (run_stdout c)). \<not> unsafe_member name)))"
proof -
  let ?l = "list_argv archive" and ?x = "extract_argv archive extract_root"
  have ne: "?l \<noteq> ?x" by (simp add: list_argv_def extract_argv_def)
  from assms show ?thesis unfolding unpack_def
  proof (rule bnd_cases)
    fix e assume "write_file archive payload w = (Inl e, w')"
    from logged_quiet [OF quiet_file_ops(3) this] show ?thesis by auto
  next
    fix x v assume wr: "write_file archive payload w = (Inr x, v)"
      and "bnd (safe_archive_members env archive) (\<lambda>_. bnd (mkdir extract_root) (\<lambda>_.
        bnd (run_checked (env_run env) ?x) (\<lambda>_. unlink archive))) v = (r, w')"
    from this(2) obtain q z where q: "safe_archive_members env archive v = (q, z)" and
      rest: "case q of Inl e \<Rightarrow> r = Inl e \<and> z = w' | Inr _ \<Rightarrow> bnd (mkdir extract_root) (\<lambda>_.
        bnd (run_checked (env_run env) ?x) (\<lambda>_. unlink archive)) z = (r, w')"
      by (blast dest: bnd_step)
    have l: "logged w z [?l]"
      using safe_archive_members_cases(1) [OF q] wr by (simp add: logged_def write_file_Inr_iff)
    show ?thesis
    proof (cases q)
      case (Inl e)
      with rest l ne show ?thesis by (intro exI [of _ "[?l]"]) simp
    next
      case (Inr u)
      with rest have "logged z w' [] \<or> logged z w' [?x]"
        by (auto elim!: bnd_cases dest!: run_checked_cases(1) logged_quiet [OF quiet_file_ops(1)]
            logged_quiet [OF quiet_file_ops(5)] simp: logged_def)
      with l have "logged w w' [?l] \<or> logged w w' [?l, ?x]" by (auto simp: logged_def)
      with safe_archive_members_cases(2) [OF q Inr] wr show ?thesis
        by (auto simp: write_file_Inr_iff intro: exI [of _ "[?l]"] exI [of _ "[?l, ?x]"])
    qed
  qed
qed

lemma check_extracted_quiet: "quiet.keeps (check_extracted env batch root s e)"
  unfolding check_extracted_def Let_def by (intro quiet.keeps_intros quiet_file_ops)

lemma download_batch_trace:
  assumes "download_batch env catalog root batch w = (r, w')"
    and "batch_int batch ''batchStartBlock'' = Inr s" and "batch_int batch ''batchEndBlock'' = Inr e"
    and "archive = root @ [batch_id s e @ ''.tar.zst'']" and "extract_root = root @ [batch_id s e]"
    and "item_text batch ''path'' = Inr p"
  shows "\<exists>new. logged w w' new \<and>
    prefix new [curl_argv (catalog @ ''/'' @ p) 3, list_argv archive, extract_argv archive extract_root] \<and>
    (extract_argv archive extract_root \<in> set new \<longrightarrow> (\<exists>payload c fs fs'. payload_verified env batch payload \<and>
       env_run env (list_argv archive) (dict_set fs archive (FileNode payload)) = (Inr c, fs') \<and>
       returncode c = 0 \<and> (\<forall>name\<in>set (splitlines (run_stdout c)). \<not> unsafe_member name)))"
proof -
  let ?l = "list_argv archive" and ?x = "extract_argv archive extract_root"
    and ?c = "curl_argv (catalog @ ''/'' @ p) 3"
  have ne: "?c \<noteq> ?x" by (simp add: curl_argv_def extract_argv_def)
  from assms have run: "bnd (fetch_verified env catalog batch (batch_id s e)) (\<lambda>payload.
      bnd (unpack env archive extract_root payload) (\<lambda>_. check_extracted env batch extract_root s e)) w = (r, w')"
    by (simp add: download_batch_def Let_def)
  then show ?thesis
  proof (rule bnd_cases)
    fix e' assume "fetch_verified env catalog batch (batch_id s e) w = (Inl e', w')"
    then show ?thesis
    proof (cases rule: fetch_verified_cases)
      case none
      then show ?thesis by (intro exI [of _ "[]"]) (simp add: logged_def)
    next
      case (curl p')
      then show ?thesis using assms(6) ne by (intro exI [of _ "[?c]"]) simp
    qed
  next
    fix payload v assume fetch: "fetch_verified env catalog batch (batch_id s e) w = (Inr payload, v)"
      and "bnd (unpack env archive extract_root payload) (\<lambda>_. check_extracted env batch extract_root s e) v = (r, w')"
    from this(2) obtain q z where q: "unpack env archive extract_root payload v = (q, z)" and
      "case q of Inl e' \<Rightarrow> r = Inl e' \<and> z = w' | Inr _ \<Rightarrow> check_extracted env batch extract_root s e z = (r, w')"
      by (blast dest: bnd_step)
    moreover from this(2) have "logged z w' []"
      by (cases q) (auto simp: logged_def [of w' w'] intro: logged_quiet [OF check_extracted_quiet])
    ultimately obtain new where new: "logged v w' new" "prefix new [?l, ?x]"
      "?x \<in> set new \<longrightarrow> (\<exists>c fs. env_run env ?l (dict_set (world_files v) archive (FileNode payload)) = (Inr c, fs) \<and>
         returncode c = 0 \<and> (\<forall>name\<in>set (splitlines (run_stdout c)). \<not> unsafe_member name))"
      using unpack_cases [OF q] by (metis append_Nil2 logged_trans)
    from fetch have "logged w v [?c]" and ok: "payload_verified env batch payload"
      by (cases rule: fetch_verified_cases; use assms(6) in simp)+
    with new(1) have "logged w w' (?c # new)" by (simp add: logged_def)
    with new(2,3) ok ne show ?thesis by (intro exI [of _ "?c # new"]) auto
  qed
qed

section \<open>What a completed download guarantees\<close>

definition fixture_names :: "files \<Rightarrow> path \<Rightarrow> string list" where
  "fixture_names fs extract_root =
     map (\<lambda>p. path_str (relative_to extract_root p)) (extracted_fixtures fs extract_root)"

lemma read_block_name:
  assumes "read_block a = Inr b" and "artifact_name a = Inr n"
  shows "block_fixture b = n"
  using assms by (auto simp: read_block_def artifact_name_def item_text_def batch_int_def result_simps value_simps)

lemma read_blocks_Inr: "read_blocks bid artifacts = Inr blocks \<longleftrightarrow> list_all2 (\<lambda>a b. read_block a = Inr b) artifacts blocks"
  by (simp add: read_blocks_def rmap_Inr_iff except_as_Inr_iff)

lemma block_names:
  assumes "list_all2 (\<lambda>a b. read_block a = Inr b) artifacts blocks"
    and "list_all2 (\<lambda>a n. artifact_name a = Inr n) artifacts names"
  shows "names = map block_fixture blocks"
  using assms
proof (induction arbitrary: names rule: list_all2_induct)
  case (Cons a as b bs)
  then show ?case by (auto simp: list_all2_Cons1 read_block_name)
qed simp

lemma artifact_list_length: "artifact_list m expected bid = Inr xs \<Longrightarrow> int (length xs) = expected"
  unfolding artifact_list_def rbind_Inr_iff
  by (elim exE conjE, rename_tac x, case_tac x) (auto split: if_splits)

lemma check_extracted_Inr:
  assumes "check_extracted env batch root s e w = (Inr blocks, w')"
  shows "w' = w" and "batch_int batch ''artifactCount'' = Inr (int (length blocks))"
    and "length blocks = length (fixture_names (world_files w) root)"
    and "set (map block_fixture blocks) = set (fixture_names (world_files w) root)"
proof -
  from assms obtain expected manifest artifacts names where
      expected: "batch_int batch ''artifactCount'' = Inr expected"
    and fixtures: "int (length (extracted_fixtures (world_files w) root)) = expected"
    and artifacts: "artifact_list manifest expected (batch_id s e) = Inr artifacts"
    and names: "rmap artifact_name artifacts = Inr names"
    and same: "set (fixture_names (world_files w) root) = set names"
    and blocks: "read_blocks (batch_id s e) artifacts = Inr blocks" and w: "w' = w"
    unfolding check_extracted_def Let_def fixture_names_def
    by (auto simp only: bnd_Inr_iff bnd_get_files lift_Inr_iff io_raise_if_Inr_iff read_file_Inr_iff not_not)
  note list = names [unfolded rmap_Inr_iff] blocks [unfolded read_blocks_Inr]
  show "w' = w" by (rule w)
  show "batch_int batch ''artifactCount'' = Inr (int (length blocks))"
    using expected artifact_list_length [OF artifacts] list_all2_lengthD [OF list(2)] by simp
  show "length blocks = length (fixture_names (world_files w) root)"
    using fixtures artifact_list_length [OF artifacts] list_all2_lengthD [OF list(2)]
    by (simp add: fixture_names_def)
  show "set (map block_fixture blocks) = set (fixture_names (world_files w) root)"
    using same block_names [OF list(2,1)] by simp
qed

lemma download_batch_Inr:
  assumes "download_batch env catalog root batch w = (Inr blocks, w')"
  shows "\<exists>s e. batch_range batch (s, e) \<and> batch_int batch ''artifactCount'' = Inr (int (length blocks)) \<and>
    length blocks = length (fixture_names (world_files w') (root @ [batch_id s e])) \<and>
    set (map block_fixture blocks) = set (fixture_names (world_files w') (root @ [batch_id s e]))"
proof -
  from assms obtain s e v where "batch_range batch (s, e)"
    and "check_extracted env batch (root @ [batch_id s e]) s e v = (Inr blocks, w')"
    by (auto simp: download_batch_def Let_def bnd_Inr_iff lift_Inr_iff batch_range_def)
  with check_extracted_Inr [OF this(2)] show ?thesis by blast
qed

lemma download_all_count:
  assumes "download_all env c root w = (Inr blocks, w')"
    and "rmap (\<lambda>b. batch_int b ''artifactCount'') (corpus_batches c) = Inr counts"
  shows "sum_list counts = int (length blocks)"
proof -
  from assms(1) obtain bs where bs: "io_map (download_batch env (corpus_catalog_url c) root) (corpus_batches c) w = (Inr bs, w')"
    and "blocks = concat bs"
    by (auto simp: download_all_def bnd_Inr_iff)
  have "list_all2 (\<lambda>b ys. batch_int b ''artifactCount'' = Inr (int (length ys))) (corpus_batches c) bs"
    using download_batch_Inr by (intro io_map_Inr [OF bs]) blast
  then have "counts = map (\<lambda>ys. int (length ys)) bs" using assms(2)
  proof (induction "corpus_batches c" bs arbitrary: c counts rule: list_all2_induct)
    case Nil
    then show ?case by simp
  next
    case (Cons b bs' ys yss)
    from Cons(4,2,1) Cons(3) [of "c\<lparr>corpus_batches := bs'\<rparr>"] Cons.prems show ?case
      by (auto simp: rbind_Inr_iff simp flip: Cons(4))
  qed
  then show ?thesis using \<open>blocks = concat bs\<close> by (induction bs arbitrary: counts blocks) (auto simp: length_concat)
qed

lemma fetch_corpus_Inr:
  assumes "fetch_corpus env args w = (Inr u, w')"
  obtains c v blocks roots where
    "resolve_catalog env (catalog_url args) (arg_network args) (latest_batches args) w = (Inr c, v)"
    and "length roots = length (corpus_batches c)"
    and "\<exists>counts. rmap (\<lambda>b. batch_int b ''artifactCount'') (corpus_batches c) = Inr counts \<and>
      sum_list counts = int (length blocks)"
    and "dict_get (world_files w') (resolved_manifest args) =
      Some (FileNode (json_indent (resolved_json env c (int (length blocks)) roots blocks) 0 @ [newline]))"
proof -
  let ?root = "output_root args"
  from assms obtain c v w1 w2 blocks w3 counts where
      c: "resolve_catalog env (catalog_url args) (arg_network args) (latest_batches args) w = (Inr c, v)"
    and blocks: "download_all env c ?root w2 = (Inr blocks, w3)"
    and roots: "length (fixture_roots_of env (world_files w3) ?root) = length (corpus_batches c)"
    and counts: "rmap (\<lambda>b. batch_int b ''artifactCount'') (corpus_batches c) = Inr counts"
    and out: "write_file (resolved_manifest args) (json_indent (resolved_json env c (sum_list counts)
      (fixture_roots_of env (world_files w3) ?root) blocks) 0 @ [newline]) w1 = (Inr u, w')"
    unfolding fetch_corpus_def Let_def
    by (auto simp only: bnd_Inr_iff bnd_get_files lift_Inr_iff io_raise_if_Inr_iff not_not prod.inject
      sum.inject)
  from out download_all_count [OF blocks counts] have "dict_get (world_files w') (resolved_manifest args) =
      Some (FileNode (json_indent (resolved_json env c (int (length blocks))
        (fixture_roots_of env (world_files w3) ?root) blocks) 0 @ [newline]))"
    by (auto simp: write_file_Inr_iff dict_simps)
  with that [OF c roots] counts download_all_count [OF blocks counts] show thesis by blast
qed

section \<open>Numbers that \<^verbatim>\<open>int\<close> rejects\<close>

text \<open>The fields of a record that are converted to numbers, in the order of the conversions.\<close>

definition numeric_fields :: "string list" where
  "numeric_fields = [''batchStartBlock'', ''batchEndBlock'', ''batchSize'', ''artifactCount'', ''byteLength'']"

lemma py_int_error: "py_int v = Inl e \<Longrightarrow> \<not> handled_error e \<and> \<not> corpus_or_json_error e"
  by (cases v rule: py_int.cases) (auto split: option.splits)

lemma rmap_first_error: "\<forall>x\<in>set xs. \<exists>y. f x = Inr y \<Longrightarrow> f z = Inl e \<Longrightarrow> rmap f (xs @ z # ys) = Inl e"
  by (induction xs) auto

lemma numeric_error:
  assumes "missing_fields d = []" and "rmap (batch_int (PDict d)) numeric_fields = Inl e"
  shows "\<not> handled_error e \<and> \<not> corpus_or_json_error e"
proof -
  obtain k where k: "k \<in> set numeric_fields" "batch_int (PDict d) k = Inl e" using rmap_Inl [OF assms(2)] by blast
  then obtain v where "dict_get d k = Some v"
    using assms(1) by (auto simp: missing_fields_empty numeric_fields_def required_fields_def)
  then have "py_int v = Inl e" using k(2) by (simp add: batch_int_def py_item_PDict dict_index_def)
  then show ?thesis by (rule py_int_error)
qed

lemma numeric_error_raised:
  assumes "missing_fields d = []" and "dict_get d ''schemaVersion'' = Some schema" and "py_eq schema (PInt 2)"
    and "dict_get d ''network'' = Some net" and "py_eq net (PStr network)"
    and "rmap (batch_int (PDict d)) numeric_fields = Inl e"
  shows "validate_batch (PDict d) network = Inl e"
  using assms
  by (auto simp: validate_batch_def validate_fields_def py_item_PDict dict_index_def numeric_fields_def raise_if_def
      rbind_Inl_iff simp del: py_eq.simps)

end
