(* ===== verification/Devnet_Properties.thy ===== *)
theory Devnet_Properties
  imports Devnet_Batches
begin

text \<open>
  The properties of the corpus downloader, with a sample catalog on which they are used.
\<close>

section \<open>A sample catalog\<close>

definition sample_hash :: string where
  "sample_hash = replicate 64 (CHR ''a'')"

definition sample_batch :: pyval where
  "sample_batch = PDict
     [(''schemaVersion'', PInt 2), (''network'', PStr ''devnet''), (''batchStartBlock'', PInt 1),
      (''batchEndBlock'', PInt 2), (''batchSize'', PInt 2), (''artifactCount'', PInt 2),
      (''byteLength'', PInt 3), (''sha256'', PStr (''0x'' @ sample_hash)), (''path'', PStr ''b/1-2.tar.zst'')]"

definition sample_bad_batch :: "(string \<times> pyval) list" where
  "sample_bad_batch =
     [(''schemaVersion'', PInt 2), (''network'', PStr ''devnet''), (''batchStartBlock'', PStr ''one''),
      (''batchEndBlock'', PInt 2), (''batchSize'', PInt 2), (''artifactCount'', PInt 2),
      (''byteLength'', PInt 3), (''sha256'', PStr sample_hash), (''path'', PStr ''b/1-2.tar.zst'')]"

definition sample_catalog :: pyval where
  "sample_catalog = PDict [(''schemaVersion'', PInt 2), (''network'', PStr ''devnet''), (''generatedAt'', PStr ''now'')]"

definition sample_archive_manifest :: pyval where
  "sample_archive_manifest = PDict
     [(''schemaVersion'', PInt 2), (''network'', PStr ''devnet''), (''batchStartBlock'', PInt 1),
      (''batchEndBlock'', PInt 2), (''artifacts'', PList
        [PDict [(''blockNumber'', PInt 2), (''blockHash'', PStr ''h2''), (''slotNumber'', PInt 12),
           (''gasUsed'', PInt 5), (''statelessInputByteLength'', PInt 7), (''archivePath'', PStr ''blockchain_tests/2.json'')],
         PDict [(''blockNumber'', PInt 1), (''blockHash'', PStr ''h1''), (''slotNumber'', PInt 11),
           (''gasUsed'', PInt 4), (''statelessInputByteLength'', PInt 6), (''archivePath'', PStr ''blockchain_tests/1.json'')]])]"

definition sample_loads :: "string \<Rightarrow> pyval result" where
  "sample_loads s = (if s = ''C'' then Inr sample_catalog else if s = ''B'' then Inr sample_batch
     else if s = ''M'' then Inr sample_archive_manifest
     else if s = ''X'' then Inr (PDict sample_bad_batch)
     else Inl (JSONDecodeError ''Expecting value''))"

definition sample_tree :: "path \<Rightarrow> files" where
  "sample_tree d = [(d @ [''.meta''], DirNode), (d @ [''.meta'', ''manifest.json''], FileNode ''M''),
     (d @ [''blockchain_tests''], DirNode), (d @ [''blockchain_tests'', ''1.json''], FileNode ''{}''),
     (d @ [''blockchain_tests'', ''2.json''], FileNode ''{}'')]"

definition sample_run :: runner where
  "sample_run argv fs =
     (let ok = (\<lambda>out. Inr \<lparr>returncode = 0, run_stdout = out, run_stderr = []\<rparr>)
      in if argv = curl_argv ''https://c/manifest.json'' 3 then (ok ''C'', fs)
         else if argv = curl_argv ''https://c/batches.jsonl'' 3 then (ok ''B'', fs)
         else if argv = curl_argv ''https://c/b/1-2.tar.zst'' 3 then (ok ''zst'', fs)
         else if argv = list_argv [''out'', ''1-2.tar.zst''] then (ok ''blockchain_tests/1.json'', fs)
         else if argv = extract_argv [''out'', ''1-2.tar.zst''] [''out'', ''1-2''] then (ok [], fs @ sample_tree [''out'', ''1-2''])
         else (Inl (FileNotFoundError (hd argv)), fs))"

definition sample_env :: devnet_env where
  "sample_env = \<lparr>env_run = sample_run, env_loads = sample_loads, env_sha256 = (\<lambda>_. sample_hash),
     env_now = ''now'', env_cwd = [''/'', ''w'']\<rparr>"

definition sample_args :: devnet_args where
  "sample_args = \<lparr>catalog_url = ''https://c/'', latest_batches = 1, arg_network = ''devnet'',
     output_root = [''out''], resolved_manifest = [''resolved.json'']\<rparr>"

definition empty_world :: world where
  "empty_world = \<lparr>world_files = [], world_commands = []\<rparr>"

lemma sample_main_runs: "fst (devnet_main sample_env sample_args empty_world) = Inr 0"
  by code_simp

section \<open>The catalog\<close>

text \<open>
  C26: A resolved corpus is what was asked for: exactly the requested number of batches, each a
  valid record of the network, whose block ranges are non-empty and follow one another without a
  gap or an overlap, so that the sizes add up to the length of the whole range; the identifier
  names the network, the first and the last block and the digest of the batches.
\<close>

theorem resolved_corpus_contiguous:
  assumes "resolve_catalog env catalog network requested w = (Inr c, w')"
  shows "int (length (corpus_batches c)) = requested \<and>
    (\<forall>b\<in>set (corpus_batches c). validate_batch b network = Inr b) \<and>
    (\<exists>rs. list_all2 batch_range (corpus_batches c) rs \<and> adjacent rs \<and>
       (\<forall>r\<in>set rs. 0 \<le> fst r \<and> fst r \<le> snd r) \<and>
       list_all2 (\<lambda>b r. batch_int b ''batchSize'' = Inr (snd r - fst r + 1)) (corpus_batches c) rs \<and>
       (\<Sum>r\<leftarrow>rs. snd r - fst r + 1) = snd (last rs) - fst (hd rs) + 1 \<and>
       corpus_id c = network @ ''-'' @ show_int (fst (hd rs)) @ ''-'' @ show_int (snd (last rs)) @ ''-''
         @ take 16 (corpus_digest c))"
proof -
  from assms obtain input records bs gen where records: "catalog_records env network input = Inr records"
    and bs: "select_batches requested records = Inr bs"
    and c: "make_corpus env (rstrip_if (\<lambda>c. c = CHR ''/'') catalog) network gen bs = Inr c"
    by (rule resolve_catalog_Inr)
  from selected_ranges [OF records bs] obtain rs where rs: "list_all2 batch_range bs rs" "adjacent rs" "rs \<noteq> []"
    "\<forall>r\<in>set rs. 0 \<le> fst r \<and> fst r \<le> snd r"
    "list_all2 (\<lambda>b r. batch_int b ''batchSize'' = Inr (snd r - fst r + 1)) bs rs" by blast
  have "validate_batch b network = Inr b" if "b \<in> set bs" for b
    using that catalog_records_valid [OF records] select_batches_Inr(1) [OF bs] set_take_last by fastforce
  with rs select_batches_Inr(2) [OF bs] adjacent_sum [OF rs(2,3)] make_corpus_Inr [OF c rs(1)]
  show ?thesis by auto
qed

theorem resolved_corpus_contiguous_witness:
  "\<exists>c w'. resolve_catalog sample_env ''https://c/'' ''devnet'' 1 empty_world = (Inr c, w') \<and>
     int (length (corpus_batches c)) = 1"
proof -
  obtain r w' where r: "resolve_catalog sample_env ''https://c/'' ''devnet'' 1 empty_world = (r, w')" by force
  have "isl (fst (resolve_catalog sample_env ''https://c/'' ''devnet'' 1 empty_world)) = False" by code_simp
  with r obtain c where "r = Inr c" by (cases r) auto
  with r resolved_corpus_contiguous [of sample_env "''https://c/''" "''devnet''" 1 empty_world c w']
  show ?thesis by blast
qed

text \<open>
  The batches of a corpus are the latest ones. The records of the catalog are the accepted
  lines, reordered; the selected batches are a suffix of them, and no record left out starts
  after a selected one.
\<close>

theorem latest_batches_selected:
  assumes "catalog_records env network input = Inr records" and "select_batches requested records = Inr bs"
  shows "(\<exists>parsed. rmap (parse_record env network) (numbered_lines input) = Inr parsed \<and>
      mset records = mset parsed) \<and>
    (\<exists>older. records = older @ bs \<and> (\<forall>x\<in>set older. \<forall>b\<in>set bs. \<exists>m n.
       batch_int x ''batchStartBlock'' = Inr m \<and> batch_int b ''batchStartBlock'' = Inr n \<and> m \<le> n))"
proof -
  from assms(1) obtain parsed where parsed: "rmap (parse_record env network) (numbered_lines input) = Inr parsed"
    and sorted: "py_sort_key (\<lambda>batch. batch_int batch ''batchStartBlock'') parsed = Inr records"
    by (auto simp: catalog_records_def rbind_Inr_iff)
  from py_sort_key_Inr [OF sorted] obtain ks where mset: "mset records = mset parsed" and ks: "sorted ks"
    and keyed: "list_all2 (\<lambda>b n. batch_int b ''batchStartBlock'' = Inr n) records ks" by blast
  define older where "older = take (length records - nat requested) records"
  have split: "records = older @ bs"
    using select_batches_Inr(1) [OF assms(2)] by (simp add: older_def take_last_def)
  with keyed obtain us vs where "ks = us @ vs"
    and us: "list_all2 (\<lambda>b n. batch_int b ''batchStartBlock'' = Inr n) older us"
    and vs: "list_all2 (\<lambda>b n. batch_int b ''batchStartBlock'' = Inr n) bs vs"
    by (auto simp: list_all2_append1)
  with ks have le: "\<forall>m\<in>set us. \<forall>n\<in>set vs. m \<le> n" by (simp add: sorted_append)
  have "\<exists>m n. batch_int x ''batchStartBlock'' = Inr m \<and> batch_int b ''batchStartBlock'' = Inr n \<and> m \<le> n"
    if "x \<in> set older" "b \<in> set bs" for x b
    using list_all2_leftD [OF us that(1)] list_all2_leftD [OF vs that(2)] le by blast
  with parsed mset split show ?thesis by blast
qed

theorem latest_batches_selected_witness:
  "catalog_records sample_env ''devnet'' ''B'' = Inr [sample_batch] \<and> select_batches 1 [sample_batch] = Inr [sample_batch] \<and>
   (\<exists>parsed. rmap (parse_record sample_env ''devnet'') (numbered_lines ''B'') = Inr parsed \<and>
      mset [sample_batch] = mset parsed)"
proof -
  have "catalog_records sample_env ''devnet'' ''B'' = Inr [sample_batch]"
    and "select_batches 1 [sample_batch] = Inr [sample_batch]" by code_simp+
  with latest_batches_selected [OF this] show ?thesis by blast
qed

section \<open>Batch records\<close>

text \<open>
  Validation accepts a record exactly when it is an object with every required field, the
  supported schema and the requested network, a block range that starts at or after zero and
  has the stated size, at least one artifact per block, a positive length, a relative archive path
  without parent components, and a SHA-256 in hexadecimal; it changes nothing but the hash,
  which it rewrites to the normal form, and it accepts its own result unchanged.
\<close>

theorem validate_batch_accepts:
  "(validate_batch b network = Inr v \<longleftrightarrow>
     (\<exists>d h. b = PDict d \<and> accepted_batch network d h \<and> v = PDict (dict_set d ''sha256'' (PStr (''0x'' @ h))))) \<and>
   (validate_batch b network = Inr v \<longrightarrow> validate_batch v network = Inr v \<and>
     (\<exists>h. py_item v ''sha256'' = Inr (PStr (''0x'' @ h)) \<and> normal_hash h))"
proof -
  have "\<exists>h. py_item v ''sha256'' = Inr (PStr (''0x'' @ h)) \<and> normal_hash h" if "validate_batch b network = Inr v"
  proof -
    from that obtain d h where "accepted_batch network d h"
      and "v = PDict (dict_set d ''sha256'' (PStr (''0x'' @ h)))" by (auto simp: validate_batch_Inr)
    moreover from this(1) have "normal_hash h" by (auto simp: accepted_batch_def dest: sha256_hex_normal)
    ultimately show ?thesis by (auto simp: py_item_Inr_iff dict_simps)
  qed
  with validate_batch_Inr validate_batch_idem show ?thesis by blast
qed

theorem validate_batch_accepts_witness:
  "validate_batch sample_batch ''devnet'' = Inr sample_batch \<and>
   (\<exists>h. py_item sample_batch ''sha256'' = Inr (PStr (''0x'' @ h)) \<and> normal_hash h)"
proof -
  have "validate_batch sample_batch ''devnet'' = Inr sample_batch" by code_simp
  with validate_batch_accepts [of sample_batch "''devnet''" sample_batch] show ?thesis by blast
qed

text \<open>
  C35: A number that \<^verbatim>\<open>int\<close> rejects is not reported as a corpus error. When the catalog is fetched and its manifest is the right
  one, the first records are accepted, and the next is a complete record of the right schema and network in which
  \<^verbatim>\<open>int\<close> rejects one of the five numbers, then the exception of \<^verbatim>\<open>int\<close> passes the handler of the catalog loop, which adds the line
  number, and the handler of \<^verbatim>\<open>main\<close>, which prints the error and returns 1: it escapes from \<^verbatim>\<open>main\<close>.
\<close>

theorem malformed_number_escapes:
  assumes "url = rstrip_if (\<lambda>c. c = CHR ''/'') (catalog_url args)" and "0 < latest_batches args"
    and "fetch_bytes env (url @ ''/manifest.json'') 3 w = (Inr manifest_text, w1)"
    and "env_loads env manifest_text = Inr (PDict m)" and "dict_get m ''schemaVersion'' = Some (PInt 2)"
    and "dict_get m ''network'' = Some (PStr (arg_network args))"
    and "fetch_bytes env (url @ ''/batches.jsonl'') 3 w1 = (Inr records_text, w2)"
    and "numbered_lines records_text = accepted @ (n, line) # rest"
    and "\<forall>l\<in>set accepted. \<exists>b. parse_record env (arg_network args) l = Inr b"
    and "env_loads env line = Inr (PDict d)" and "missing_fields d = []"
    and "dict_get d ''schemaVersion'' = Some (PInt 2)" and "dict_get d ''network'' = Some (PStr (arg_network args))"
    and "rmap (batch_int (PDict d)) numeric_fields = Inl e"
  shows "devnet_main env args w = (Inl e, w2) \<and> \<not> handled_error e \<and> \<not> corpus_or_json_error e"
proof -
  have e: "\<not> handled_error e" "\<not> corpus_or_json_error e" using numeric_error [OF assms(11,14)] by blast+
  have two: "py_eq (PInt 2) (PInt 2)" by code_simp
  have "validate_batch (PDict d) (arg_network args) = Inl e"
    by (rule numeric_error_raised [OF assms(11,12) two assms(13) _ assms(14)]) simp
  then have "parse_record env (arg_network args) (n, line) = Inl e"
    using e(2) by (simp add: parse_record_def assms(10) except_as_def)
  then have "catalog_records env (arg_network args) records_text = Inl e"
    unfolding catalog_records_def assms(8) using rmap_first_error [OF assms(9)] by simp
  moreover have "py_get (PDict m) ''schemaVersion'' = Inr (PInt 2)" "py_get (PDict m) ''network'' = Inr (PStr (arg_network args))"
    using assms(5,6) by simp_all
  ultimately have "resolve_catalog env (catalog_url args) (arg_network args) (latest_batches args) w = (Inl e, w2)"
    using assms(2) unfolding resolve_catalog_def Let_def assms(1) [symmetric]
    by (simp add: bnd_def [of "fetch_bytes _ _ _"] assms(3,4,7) raise_def two [simplified])
  then have "fetch_corpus env args w = (Inl e, w2)" by (simp add: fetch_corpus_def bnd_def)
  then show ?thesis using e by (simp add: devnet_main_def)
qed

definition sample_bad_env :: devnet_env where
  "sample_bad_env = sample_env\<lparr>env_run := (\<lambda>argv fs.
     (Inr \<lparr>returncode = 0, run_stdout = (if argv = curl_argv ''https://c/manifest.json'' 3 then ''C'' else ''B'' @ [newline] @ ''X''),
        run_stderr = []\<rparr>, fs))\<rparr>"

theorem malformed_number_escapes_witness:
  "\<exists>e w2. devnet_main sample_bad_env sample_args empty_world = (Inl e, w2) \<and> \<not> handled_error e"
proof -
  have "isl (rmap (batch_int (PDict sample_bad_batch)) numeric_fields)" by code_simp
  then obtain e where e: "rmap (batch_int (PDict sample_bad_batch)) numeric_fields = Inl e"
    by (cases "rmap (batch_int (PDict sample_bad_batch)) numeric_fields") auto
  let ?w = "\<lambda>cs. empty_world\<lparr>world_commands := cs\<rparr>"
  let ?m = "curl_argv ''https://c/manifest.json'' 3" and ?b = "curl_argv ''https://c/batches.jsonl'' 3"
  have "''https://c'' = rstrip_if (\<lambda>c. c = CHR ''/'') (catalog_url sample_args)" "0 < latest_batches sample_args"
    "arg_network sample_args = ''devnet''" by code_simp+
  moreover have "fetch_bytes sample_bad_env (''https://c'' @ ''/manifest.json'') 3 empty_world = (Inr ''C'', ?w [?m])"
    "fetch_bytes sample_bad_env (''https://c'' @ ''/batches.jsonl'') 3 (?w [?m]) = (Inr (''B'' @ [newline] @ ''X''), ?w [?m, ?b])"
    by code_simp+
  moreover have "numbered_lines (''B'' @ [newline] @ ''X'') = [(1, ''B'')] @ (2, ''X'') # []"
    "parse_record sample_bad_env ''devnet'' (1, ''B'') = Inr sample_batch" by code_simp+
  moreover have "env_loads sample_bad_env ''C'' = Inr (PDict [(''schemaVersion'', PInt 2), (''network'', PStr ''devnet''), (''generatedAt'', PStr ''now'')])"
    "env_loads sample_bad_env ''X'' = Inr (PDict sample_bad_batch)" "missing_fields sample_bad_batch = []"
    "dict_get sample_bad_batch ''schemaVersion'' = Some (PInt 2)" "dict_get sample_bad_batch ''network'' = Some (PStr ''devnet'')"
    by code_simp+
  ultimately show ?thesis
    using malformed_number_escapes [of "''https://c''" sample_args sample_bad_env empty_world "''C''" "?w [?m]"
        "[(''schemaVersion'', PInt 2), (''network'', PStr ''devnet''), (''generatedAt'', PStr ''now'')]"
        "''B'' @ [newline] @ ''X''" "?w [?m, ?b]" "[(1, ''B'')]" 2 "''X''" "[]" sample_bad_batch e] e
    by auto
qed

section \<open>Archives\<close>

text \<open>
  C10: The check of archive members is exact and keeps extraction inside its directory. A name is
  refused exactly when it is absolute or when some prefix of its components leads above the
  extraction directory, and a name that is not refused denotes a path below that directory.
\<close>

theorem archive_members_confined:
  "(unsafe_member name \<longleftrightarrow> startswith name ''/'' \<or> (\<exists>n. depth (take n (split_on (CHR ''/'') name)) < 0)) \<and>
   (\<not> unsafe_member name \<longrightarrow> is_absolute root \<longrightarrow> ''..'' \<notin> set root \<longrightarrow>
      prefix root (path_resolve root (path_of name)))"
  using unsafe_member_iff [of name] safe_member_stays by (auto simp: climbs_out_def)

theorem archive_members_confined_witness:
  "prefix [''/'', ''out''] (path_resolve [''/'', ''out''] (path_of ''a/../b//./c''))"
proof -
  have "\<not> unsafe_member ''a/../b//./c''" and "is_absolute [''/'', ''out'']"
    and "''..'' \<notin> set [''/'', ''out'']" by code_simp+
  with archive_members_confined show ?thesis by blast
qed

text \<open>
  C8: Nothing is extracted before it is verified. Whatever a download returns or raises, it runs
  at most the fetch, the listing and the extraction, in this order; when the extraction is run,
  the payload had the recorded length and hash, the listing of exactly that payload had
  succeeded, and no listed member was unsafe.
\<close>

theorem extraction_after_verification:
  assumes "download_batch env catalog root batch w = (r, w')"
    and "batch_range batch (s, e)" and "item_text batch ''path'' = Inr p"
    and "archive = root @ [batch_id s e @ ''.tar.zst'']" and "extract_root = root @ [batch_id s e]"
  shows "\<exists>new. world_commands w' = world_commands w @ new \<and>
    prefix new [curl_argv (catalog @ ''/'' @ p) 3, list_argv archive, extract_argv archive extract_root] \<and>
    (extract_argv archive extract_root \<in> set new \<longrightarrow> (\<exists>payload c fs fs'.
       batch_int batch ''byteLength'' = Inr (int (length payload)) \<and>
       rbind (py_item batch ''sha256'') sha256_hex = Inr (env_sha256 env payload) \<and>
       env_run env (list_argv archive) (dict_set fs archive (FileNode payload)) = (Inr c, fs') \<and>
       returncode c = 0 \<and> (\<forall>name\<in>set (splitlines (run_stdout c)). \<not> unsafe_member name)))"
  using download_batch_trace [OF assms(1) _ _ assms(4,5,3)] assms(2)
  by (simp add: batch_range_def logged_def payload_verified_def conj_assoc)

theorem extraction_after_verification_witness:
  "\<exists>new w'. snd (download_batch sample_env ''https://c'' [''out''] sample_batch
       (empty_world\<lparr>world_files := [([''out''], DirNode)]\<rparr>)) = w' \<and> world_commands w' = new \<and>
     prefix new [curl_argv ''https://c/b/1-2.tar.zst'' 3, list_argv [''out'', ''1-2.tar.zst''],
       extract_argv [''out'', ''1-2.tar.zst''] [''out'', ''1-2'']]"
proof -
  let ?w = "empty_world\<lparr>world_files := [([''out''], DirNode)]\<rparr>"
  have "batch_range sample_batch (1, 2)" and "item_text sample_batch ''path'' = Inr ''b/1-2.tar.zst''"
    and "[''out'', ''1-2.tar.zst''] = [''out''] @ [batch_id 1 2 @ ''.tar.zst'']"
    and "[''out'', ''1-2''] = [''out''] @ [batch_id 1 2]" by code_simp+
  from extraction_after_verification [OF prod.collapse [symmetric] this, of sample_env "''https://c''" ?w]
  show ?thesis by (auto simp: empty_world_def)
qed

text \<open>
  A completed download returns one block per extracted fixture: as many blocks as the record
  announces artifacts, whose fixture paths are exactly the paths of the extracted fixtures, each
  once when the extracted paths are distinct.
\<close>

theorem downloaded_blocks_match:
  assumes "download_batch env catalog root batch w = (Inr blocks, w')" and "batch_range batch (s, e)"
  shows "batch_int batch ''artifactCount'' = Inr (int (length blocks)) \<and>
    set (map block_fixture blocks) = set (fixture_names (world_files w') (root @ [batch_id s e])) \<and>
    (distinct (fixture_names (world_files w') (root @ [batch_id s e])) \<longrightarrow> distinct (map block_fixture blocks))"
proof -
  from download_batch_Inr [OF assms(1)] assms(2)
  have count: "batch_int batch ''artifactCount'' = Inr (int (length blocks))"
    and len: "length blocks = length (fixture_names (world_files w') (root @ [batch_id s e]))"
    and same: "set (map block_fixture blocks) = set (fixture_names (world_files w') (root @ [batch_id s e]))"
    by (auto simp: batch_range_def)
  then have "distinct (map block_fixture blocks)"
    if "distinct (fixture_names (world_files w') (root @ [batch_id s e]))"
    using that by (metis card_distinct distinct_card length_map)
  with count same show ?thesis by blast
qed

definition sample_root_world :: world where
  "sample_root_world = empty_world\<lparr>world_files := [([''out''], DirNode)]\<rparr>"

definition sample_blocks :: "block_info list" where
  "sample_blocks =
     [\<lparr>block_number = 2, block_hash = ''h2'', slot_number = 12, gas_used = 5, stateless_input_byte_length = 7,
        block_fixture = ''blockchain_tests/2.json''\<rparr>,
      \<lparr>block_number = 1, block_hash = ''h1'', slot_number = 11, gas_used = 4, stateless_input_byte_length = 6,
        block_fixture = ''blockchain_tests/1.json''\<rparr>]"

theorem downloaded_blocks_match_witness:
  "batch_int sample_batch ''artifactCount'' = Inr (int (length sample_blocks))"
proof -
  have "fst (download_batch sample_env ''https://c'' [''out''] sample_batch sample_root_world) = Inr sample_blocks"
    by code_simp
  then obtain w' where "download_batch sample_env ''https://c'' [''out''] sample_batch sample_root_world
    = (Inr sample_blocks, w')" by (metis prod.collapse)
  moreover have "batch_range sample_batch (1, 2)" by code_simp
  ultimately show ?thesis using downloaded_blocks_match by blast
qed

section \<open>The whole run\<close>

text \<open>
  C34: A run that exits with 0 has written the resolved manifest, and the manifest is consistent:
  it describes a corpus resolved by this run with the requested number of batches, one fixture
  root per batch, and a fixture count that is the sum of the batches' artifact counts and the
  number of block entries.
\<close>

theorem manifest_consistent:
  assumes "devnet_main env args w = (Inr 0, w')"
  shows "\<exists>c v blocks roots counts.
    resolve_catalog env (catalog_url args) (arg_network args) (latest_batches args) w = (Inr c, v) \<and>
    int (length (corpus_batches c)) = latest_batches args \<and> length roots = length (corpus_batches c) \<and>
    rmap (\<lambda>b. batch_int b ''artifactCount'') (corpus_batches c) = Inr counts \<and>
    sum_list counts = int (length blocks) \<and>
    dict_get (world_files w') (resolved_manifest args) =
      Some (FileNode (json_indent (resolved_json env c (int (length blocks)) roots blocks) 0 @ [newline]))"
proof -
  from assms obtain u where "fetch_corpus env args w = (Inr u, w')"
    by (auto simp: devnet_main_def split: prod.splits sum.splits if_splits)
  then obtain c v blocks roots where
    c: "resolve_catalog env (catalog_url args) (arg_network args) (latest_batches args) w = (Inr c, v)"
    and rest: "length roots = length (corpus_batches c)"
      "\<exists>counts. rmap (\<lambda>b. batch_int b ''artifactCount'') (corpus_batches c) = Inr counts \<and>
        sum_list counts = int (length blocks)"
      "dict_get (world_files w') (resolved_manifest args) =
        Some (FileNode (json_indent (resolved_json env c (int (length blocks)) roots blocks) 0 @ [newline]))"
    by (rule fetch_corpus_Inr)
  from c have "int (length (corpus_batches c)) = latest_batches args"
    by (rule resolve_catalog_Inr) (use selected_ranges make_corpus_Inr(1) select_batches_Inr(2) in metis)
  with c rest show ?thesis by blast
qed

theorem manifest_consistent_witness:
  "\<exists>w' s. devnet_main sample_env sample_args empty_world = (Inr 0, w') \<and>
     dict_get (world_files w') [''resolved.json''] = Some (FileNode s)"
proof -
  obtain w' where run: "devnet_main sample_env sample_args empty_world = (Inr 0, w')"
    using sample_main_runs by (metis prod.collapse)
  moreover have "resolved_manifest sample_args = [''resolved.json'']" by (simp add: sample_args_def)
  ultimately show ?thesis using manifest_consistent [OF run] by auto
qed
end
