(* ===== verification/Fixture_Consumer.thy ===== *)
theory Fixture_Consumer
  imports Py_World
begin

text \<open>
  The consume-direct adapters: the shared subprocess boundary
  \<^verbatim>\<open>eest/consume/evmz_consumer_common.py\<close> and the two consumers that use it,
  \<^verbatim>\<open>evmz_consumer.py\<close> and \<^verbatim>\<open>evmz_zkevm_consumer.py\<close>. The subprocess, \<^verbatim>\<open>json.loads\<close>, the
  framework's \<^verbatim>\<open>dump_files_to_directory\<close> and the BLAKE2s digest are parameters. A fixture path is
  the text of the normalised \<^verbatim>\<open>Path\<close>.
\<close>

section \<open>Distribution of fixture files over workers\<close>

text \<open>A test item: the \<^verbatim>\<open>test_case\<close> parameter of its call specification, and its group markers.\<close>

datatype test_case = IndexFile string | OtherCase

record test_item =
  item_params :: "test_case option option"
  item_groups :: "string list"

definition distributed :: "string list \<Rightarrow> bool" where
  "distributed args = (\<exists>arg\<in>set args. arg = ''-n'' \<or> startswith arg ''-n'')"

definition group_name :: "(string \<Rightarrow> string) \<Rightarrow> string \<Rightarrow> string" where
  "group_name blake2s json_path = ''evmz-file-'' @ blake2s json_path"

definition group_item :: "(string \<Rightarrow> string) \<Rightarrow> test_item \<Rightarrow> test_item" where
  "group_item blake2s item = (case item_params item of
      Some (Some (IndexFile json_path)) \<Rightarrow>
        item\<lparr>item_groups := item_groups item @ [group_name blake2s json_path]\<rparr>
    | _ \<Rightarrow> item)"

definition group_fixture_files :: "(string \<Rightarrow> string) \<Rightarrow> string list \<Rightarrow> test_item list \<Rightarrow> test_item list" where
  "group_fixture_files blake2s args items =
     (if distributed args then map (group_item blake2s) items else items)"

section \<open>Running a fixture file once\<close>

record cached_run =
  cached_command :: "string list"
  cached_returncode :: int
  cached_stdout :: string
  cached_stderr :: string
  cached_records :: "pyval list"

type_synonym cache_key = "string \<times> string"
type_synonym run_cache = "(cache_key, cached_run) dict"

record consumer_env =
  c_run :: runner
  c_loads :: "string \<Rightarrow> pyval result"
  c_dump :: "path \<Rightarrow> (string \<times> pyval) list \<Rightarrow> files \<Rightarrow> unit result \<times> files"

definition json_error :: "pyexc \<Rightarrow> bool" where
  "json_error e = (case e of JSONDecodeError _ \<Rightarrow> True | _ \<Rightarrow> False)"

text \<open>Lines 56--66: the records of a completed run.\<close>

definition parse_records :: "consumer_env \<Rightarrow> string \<Rightarrow> completed \<Rightarrow> pyval list result" where
  "parse_records env subcommand c =
     (if returncode c = 0 then
        rbind (except_as json_error
            (\<lambda>_. RuntimeError (''invalid evmz '' @ subcommand @ '' JSON: '' @ run_stdout c))
            (c_loads env (run_stdout c))) (\<lambda>parsed.
          (case parsed of PList xs \<Rightarrow> Inr xs
           | _ \<Rightarrow> Inl (RuntimeError (''invalid evmz '' @ subcommand @ '' result: '' @ py_repr parsed))))
      else Inr [])"

definition command_of :: "string \<Rightarrow> cache_key \<Rightarrow> string list" where
  "command_of binary key = [binary, fst key, snd key]"

definition run_fixture :: "consumer_env \<Rightarrow> string \<Rightarrow> cache_key \<Rightarrow> cached_run io" where
  "run_fixture env binary key =
     bnd (run_process (c_run env) (command_of binary key)) (\<lambda>c.
     bnd (lift (parse_records env (fst key) c)) (\<lambda>parsed.
       ret \<lparr>cached_command = command_of binary key, cached_returncode = returncode c,
            cached_stdout = run_stdout c, cached_stderr = run_stderr c, cached_records = parsed\<rparr>))"

definition ensure_cached :: "consumer_env \<Rightarrow> string \<Rightarrow> cache_key \<Rightarrow> run_cache \<Rightarrow> (run_cache \<times> cached_run) io" where
  "ensure_cached env binary key cache = (case dict_get cache key of
      Some r \<Rightarrow> ret (cache, r)
    | None \<Rightarrow> bnd (run_fixture env binary key) (\<lambda>r. ret (dict_set cache key r, r)))"

section \<open>Reporting one result\<close>

definition dump_run :: "consumer_env \<Rightarrow> cache_key \<Rightarrow> string \<Rightarrow> cached_run \<Rightarrow> unit io" where
  "dump_run env key debug r =
     bnd (\<lambda>w. (case c_dump env (path_of debug)
         [(''consume_direct_args.py'', PList (map PStr (cached_command r))),
          (''consume_direct_returncode.txt'', PInt (cached_returncode r)),
          (''consume_direct_stdout.txt'', PStr (cached_stdout r)),
          (''consume_direct_stderr.txt'', PStr (cached_stderr r))] (world_files w) of
         (res, fs) \<Rightarrow> (res, w\<lparr>world_files := fs\<rparr>))) (\<lambda>_.
     bnd (read_file (path_of (snd key))) (\<lambda>content.
       write_file (path_join (path_of debug) ''fixtures.json'') content))"

definition named :: "string \<Rightarrow> pyval \<Rightarrow> bool" where
  "named name record = (case record of
      PDict d \<Rightarrow> py_eq (case dict_get d ''name'' of None \<Rightarrow> PNone | Some v \<Rightarrow> v) (PStr name)
    | _ \<Rightarrow> False)"

definition select_records :: "string option \<Rightarrow> pyval list \<Rightarrow> pyval list result" where
  "select_records fixture_name records = (case fixture_name of
      None \<Rightarrow> Inr records
    | Some name \<Rightarrow>
        (let selected = filter (named name) records
         in raise_if (length selected \<noteq> 1)
              (RuntimeError (''expected one result for '' @ name @ '', got '' @ show_nat (length selected)))
              (Inr selected)))"

datatype verdict = Passed | Failure string | Skip string

definition classify_record :: "string \<Rightarrow> pyval \<Rightarrow> verdict result" where
  "classify_record subcommand record = (case record of
      PDict d \<Rightarrow>
        rbind (py_get record ''name'') (\<lambda>name.
        rbind (py_get record ''pass'') (\<lambda>passed.
        rbind (py_get_default record ''skip'' (PBool False)) (\<lambda>skipped.
        rbind (py_get record ''error'') (\<lambda>message.
          (case (name, passed, skipped, message) of
             (PStr n, PBool p, PBool s, PStr m) \<Rightarrow>
               if p \<and> s then Inl (RuntimeError (''invalid evmz '' @ subcommand @ '' record: '' @ py_repr record))
               else if s then Inr (Skip (n @ '': '' @ m))
               else if \<not> p then Inr (Failure (n @ '': '' @ m))
               else Inr Passed
           | _ \<Rightarrow> Inl (RuntimeError (''invalid evmz '' @ subcommand @ '' record: '' @ py_repr record)))))))
    | _ \<Rightarrow> Inl (TypeError (''invalid evmz '' @ subcommand @ '' record: '' @ py_repr record)))"

fun verdict_failures :: "verdict list \<Rightarrow> string list" where
  "verdict_failures [] = []"
| "verdict_failures (Failure m # vs) = m # verdict_failures vs"
| "verdict_failures (v # vs) = verdict_failures vs"

fun verdict_skips :: "verdict list \<Rightarrow> string list" where
  "verdict_skips [] = []"
| "verdict_skips (Skip m # vs) = m # verdict_skips vs"
| "verdict_skips (v # vs) = verdict_skips vs"

definition report_verdicts :: "string \<Rightarrow> verdict list \<Rightarrow> unit result" where
  "report_verdicts subcommand verdicts =
     raise_if (verdict_failures verdicts \<noteq> [])
       (RuntimeError (''evmz '' @ subcommand @ '' failed:'' @ [newline] @ join [newline] (verdict_failures verdicts)))
    (raise_if (verdict_skips verdicts \<noteq> [] \<and> length (verdict_skips verdicts) = length verdicts)
       (Skipped (''evmz '' @ subcommand @ '': fixture has no inputs for this adapter''))
    (Inr ()))"

definition report_run :: "string \<Rightarrow> string option \<Rightarrow> cached_run \<Rightarrow> unit result" where
  "report_run subcommand fixture_name r =
     raise_if (cached_returncode r \<noteq> 0)
       (RuntimeError (''evmz '' @ subcommand @ '' exited '' @ show_int (cached_returncode r) @ '':'' @ [newline]
          @ cached_stderr r))
    (rbind (select_records fixture_name (cached_records r)) (\<lambda>selected.
     rbind (rmap (classify_record subcommand) selected) (\<lambda>verdicts.
       report_verdicts subcommand verdicts)))"

record consume_call =
  call_path :: string
  call_name :: "string option"
  call_debug :: "string option"

text \<open>The shared function: the cache is returned with the outcome.\<close>

definition consume_fixture ::
  "consumer_env \<Rightarrow> string \<Rightarrow> string \<Rightarrow> consume_call \<Rightarrow> run_cache \<Rightarrow> world \<Rightarrow> unit result \<times> run_cache \<times> world" where
  "consume_fixture env binary subcommand call cache w =
     (let key = (subcommand, call_path call)
      in case ensure_cached env binary key cache w of
           (Inl e, w1) \<Rightarrow> (Inl e, cache, w1)
         | (Inr (cache', r), w1) \<Rightarrow>
             (case (bnd (case call_debug call of None \<Rightarrow> ret () | Some d \<Rightarrow> dump_run env key d r) (\<lambda>_.
                lift (report_run subcommand (call_name call) r))) w1 of
                (res, w2) \<Rightarrow> (res, cache', w2)))"

section \<open>The two consumers\<close>

text \<open>The fixture formats the consumers name; any other format is known by its name.\<close>

datatype fixture_format = StateFixture | BlockchainFixture | TransactionFixture | OtherFixture string

record consumer =
  consumer_binary :: string
  consumer_trace :: bool
  consumer_cache :: run_cache

definition new_consumer :: "string \<Rightarrow> bool \<Rightarrow> consumer" where
  "new_consumer binary trace = \<lparr>consumer_binary = binary, consumer_trace = trace, consumer_cache = []\<rparr>"

type_synonym format_call = "fixture_format \<times> consume_call"

fun subcommand_of :: "fixture_format \<Rightarrow> string option" where
  "subcommand_of StateFixture = Some ''statetest''"
| "subcommand_of BlockchainFixture = Some ''blocktest''"
| "subcommand_of TransactionFixture = Some ''transactiontest''"
| "subcommand_of (OtherFixture _) = None"

fun zkevm_subcommand :: "fixture_format \<Rightarrow> string option" where
  "zkevm_subcommand BlockchainFixture = Some ''zkevmtest''"
| "zkevm_subcommand _ = None"

text \<open>A method call: the mutated consumer is returned.\<close>

definition consume_as :: "(fixture_format \<Rightarrow> string option) \<Rightarrow> (fixture_format \<Rightarrow> pyexc) \<Rightarrow> consumer_env \<Rightarrow>
    consumer \<Rightarrow> format_call \<Rightarrow> world \<Rightarrow> unit result \<times> consumer \<times> world" where
  "consume_as sub unsupported env self call w = (case sub (fst call) of
      None \<Rightarrow> (Inl (unsupported (fst call)), self, w)
    | Some subcommand \<Rightarrow>
        (case consume_fixture env (consumer_binary self) subcommand (snd call) (consumer_cache self) w of
           (res, cache', w') \<Rightarrow> (res, self\<lparr>consumer_cache := cache'\<rparr>, w')))"

definition unsupported_format :: "(fixture_format \<Rightarrow> string) \<Rightarrow> fixture_format \<Rightarrow> pyexc" where
  "unsupported_format format_name f = ValueError (''unsupported evmz fixture format: '' @ format_name f)"

definition unsupported_zkevm_format :: "(fixture_format \<Rightarrow> string) \<Rightarrow> fixture_format \<Rightarrow> pyexc" where
  "unsupported_zkevm_format format_name f = ValueError (''unsupported evmz zkEVM fixture format: '' @ format_name f)"

definition evmz_consume :: "(fixture_format \<Rightarrow> string) \<Rightarrow> consumer_env \<Rightarrow> consumer \<Rightarrow> format_call \<Rightarrow> world \<Rightarrow>
    unit result \<times> consumer \<times> world" where
  "evmz_consume format_name = consume_as subcommand_of (unsupported_format format_name)"

definition zkevm_consume :: "(fixture_format \<Rightarrow> string) \<Rightarrow> consumer_env \<Rightarrow> consumer \<Rightarrow> format_call \<Rightarrow> world \<Rightarrow>
    unit result \<times> consumer \<times> world" where
  "zkevm_consume format_name = consume_as zkevm_subcommand (unsupported_zkevm_format format_name)"

text \<open>\<^verbatim>\<open>pytest_configure\<close>: the supported formats after the hook, from whether an evmz consumer is active.\<close>

definition pytest_configure :: "bool list \<Rightarrow> fixture_format list \<Rightarrow> fixture_format list" where
  "pytest_configure is_evmz formats =
     (if (\<exists>c\<in>set is_evmz. c) \<and> TransactionFixture \<notin> set formats then formats @ [TransactionFixture] else formats)"

section \<open>Sessions\<close>

text \<open>A session is any sequence of calls on one consumer, whatever each of them returns or raises.\<close>

inductive session :: "('c \<Rightarrow> 'a \<Rightarrow> world \<Rightarrow> unit result \<times> 'c \<times> world) \<Rightarrow> 'c \<Rightarrow> world \<Rightarrow> 'c \<Rightarrow> world \<Rightarrow> bool"
  for consume where
  session_start: "session consume c w c w"
| session_call: "session consume c w c1 w1 \<Longrightarrow> consume c1 a w1 = (r, c2, w2) \<Longrightarrow> session consume c w c2 w2"

inductive_cases session_E: "session consume c w c' w'"

text \<open>
  What a consumer promises its framework: a stored run is kept, and a call starts at most the
  command of its own key, and only when the key has no stored run.
\<close>

locale caching_consumer =
  fixes consume :: "'c \<Rightarrow> 'a \<Rightarrow> world \<Rightarrow> unit result \<times> 'c \<times> world"
    and stored :: "'c \<Rightarrow> 'k \<Rightarrow> 'r option"
    and argv :: "'c \<Rightarrow> 'k \<Rightarrow> string list"
    and key :: "'a \<Rightarrow> 'k option"
  assumes stored_kept: "consume c a w = (r, c', w') \<Longrightarrow> stored c k = Some x \<Longrightarrow> stored c' k = Some x"
    and argv_fixed: "consume c a w = (r, c', w') \<Longrightarrow> argv c' = argv c"
    and argv_inject: "argv c k = argv c k' \<Longrightarrow> k = k'"
    and runs_own_key: "consume c a w = (r, c', w') \<Longrightarrow> world_commands w' = world_commands w \<or>
      (\<exists>k. key a = Some k \<and> stored c k = None \<and> world_commands w' = world_commands w @ [argv c k])"
begin

lemma session_argv: "session consume c w c' w' \<Longrightarrow> argv c' = argv c"
  by (induction rule: session.induct) (auto dest: argv_fixed)

lemma session_stored: "session consume c w c' w' \<Longrightarrow> stored c k = Some x \<Longrightarrow> stored c' k = Some x"
  by (induction rule: session.induct) (auto dest: stored_kept)

text \<open>Once a key has a stored run, its command is never started again.\<close>

lemma session_no_rerun:
  assumes "session consume c w c' w'" and "stored c k = Some x"
  shows "\<exists>new. world_commands w' = world_commands w @ new \<and> argv c k \<notin> set new"
  using assms
proof (induction rule: session.induct)
  case (session_call c w c1 w1 a r c2 w2)
  then obtain new where new: "world_commands w1 = world_commands w @ new" "argv c k \<notin> set new" by blast
  have stored: "stored c1 k = Some x" using session_stored session_call by blast
  show ?case using runs_own_key [OF session_call.hyps(2)]
  proof (elim disjE exE conjE)
    fix k' assume k': "stored c1 k' = None" "world_commands w2 = world_commands w1 @ [argv c1 k']"
    with stored have "argv c1 k \<noteq> argv c1 k'" using argv_inject by fastforce
    with new k' session_argv [OF session_call.hyps(1)] show ?case by auto
  qed (use new in auto)
qed simp

end

text \<open>Both consumers keep the promise, since they share the cached subprocess boundary.\<close>

lemma run_fixture_logged: "run_fixture env binary key w = (r, w') \<Longrightarrow>
    world_commands w' = world_commands w @ [command_of binary key]"
  unfolding run_fixture_def by (auto simp: run_process_eq elim!: bnd_cases)

lemma dump_run_quiet: "quiet.keeps (dump_run env key d r)"
  unfolding dump_run_def
  by (intro quiet.keeps_intros quiet_file_ops)
     (simp add: quiet.keeps_def same_log_def split: prod.splits)

lemma ensure_cached_cases:
  assumes "ensure_cached env binary key cache w = (res, w')"
  obtains (hit) r where "dict_get cache key = Some r" and "res = Inr (cache, r)" and "w' = w"
    | (run) r where "dict_get cache key = None" and "res = Inr (dict_set cache key r, r)"
        and "run_fixture env binary key w = (Inr r, w')"
    | (fail) e where "dict_get cache key = None" and "res = Inl e" and "run_fixture env binary key w = (Inl e, w')"
proof (cases "dict_get cache key")
  case None
  with assms have "bnd (run_fixture env binary key) (\<lambda>r. ret (dict_set cache key r, r)) w = (res, w')"
    by (simp add: ensure_cached_def)
  then show thesis using None run fail by (elim bnd_cases) auto
next
  case (Some r)
  with assms hit show thesis by (simp add: ensure_cached_def)
qed

lemma consume_fixture_cases:
  assumes "consume_fixture env binary sub call cache w = (res, cache', w')"
  shows "dict_get cache k = Some x \<Longrightarrow> dict_get cache' k = Some x"
    and "world_commands w' = world_commands w \<or> dict_get cache (sub, call_path call) = None \<and>
      world_commands w' = world_commands w @ [command_of binary (sub, call_path call)]"
proof -
  let ?key = "(sub, call_path call)"
  obtain q v where q: "ensure_cached env binary ?key cache w = (q, v)" by force
  have tail: "world_commands w' = world_commands v \<and> (case q of Inl _ \<Rightarrow> cache' = cache | Inr p \<Rightarrow> cache' = fst p)"
  proof (cases q)
    case (Inl e)
    with assms q show ?thesis by (simp add: consume_fixture_def)
  next
    case (Inr p)
    obtain cc r where p: "p = (cc, r)" by force
    let ?m = "bnd (case call_debug call of None \<Rightarrow> ret () | Some d \<Rightarrow> dump_run env ?key d r) (\<lambda>_.
      lift (report_run sub (call_name call) r))"
    have "quiet.keeps ?m"
      by (intro quiet.keeps_intros) (auto split: option.splits intro: dump_run_quiet quiet.keeps_intros)
    moreover from assms q Inr p have "?m v = (res, w')" and "cache' = cc"
      by (auto simp: consume_fixture_def split: prod.splits)
    ultimately show ?thesis using Inr p by (auto dest: quiet.keepsD simp: same_log_def)
  qed
  from q show "dict_get cache k = Some x \<Longrightarrow> dict_get cache' k = Some x"
    by (cases rule: ensure_cached_cases) (use tail in \<open>auto simp: dict_simps\<close>)
  from q show "world_commands w' = world_commands w \<or> dict_get cache ?key = None \<and>
      world_commands w' = world_commands w @ [command_of binary ?key]"
    by (cases rule: ensure_cached_cases) (use tail in \<open>auto dest: run_fixture_logged\<close>)
qed

definition call_key :: "(fixture_format \<Rightarrow> string option) \<Rightarrow> format_call \<Rightarrow> cache_key option" where
  "call_key sub call = map_option (\<lambda>s. (s, call_path (snd call))) (sub (fst call))"

lemma consume_as_cases:
  assumes "consume_as sub unsupported env self call w = (res, self', w')"
  shows "dict_get (consumer_cache self) k = Some x \<Longrightarrow> dict_get (consumer_cache self') k = Some x"
    and "consumer_binary self' = consumer_binary self"
    and "world_commands w' = world_commands w \<or> (\<exists>k. call_key sub call = Some k \<and>
      dict_get (consumer_cache self) k = None \<and>
      world_commands w' = world_commands w @ [command_of (consumer_binary self) k])"
proof -
  have "(dict_get (consumer_cache self) k = Some x \<longrightarrow> dict_get (consumer_cache self') k = Some x) \<and>
    consumer_binary self' = consumer_binary self \<and>
    (world_commands w' = world_commands w \<or> (\<exists>k. call_key sub call = Some k \<and>
      dict_get (consumer_cache self) k = None \<and>
      world_commands w' = world_commands w @ [command_of (consumer_binary self) k]))"
  proof (cases "sub (fst call)")
    case None
    with assms show ?thesis by (simp add: consume_as_def)
  next
    case (Some s)
    obtain q cc v where q: "consume_fixture env (consumer_binary self) s (snd call) (consumer_cache self) w = (q, cc, v)"
      by (metis prod_cases3)
    with assms Some have "self' = self\<lparr>consumer_cache := cc\<rparr>" and "w' = v" by (simp_all add: consume_as_def)
    with consume_fixture_cases [OF q] Some show ?thesis by (auto simp: call_key_def)
  qed
  then show "dict_get (consumer_cache self) k = Some x \<Longrightarrow> dict_get (consumer_cache self') k = Some x"
    and "consumer_binary self' = consumer_binary self"
    and "world_commands w' = world_commands w \<or> (\<exists>k. call_key sub call = Some k \<and>
      dict_get (consumer_cache self) k = None \<and>
      world_commands w' = world_commands w @ [command_of (consumer_binary self) k])" by auto
qed

lemma command_of_inject: "command_of b k = command_of b k' \<Longrightarrow> k = k'"
  by (simp add: command_of_def prod_eq_iff)

interpretation evmz: caching_consumer "evmz_consume fn env" "\<lambda>c. dict_get (consumer_cache c)"
    "\<lambda>c. command_of (consumer_binary c)" "call_key subcommand_of" for fn env
  by unfold_locales (auto simp: evmz_consume_def dest: consume_as_cases command_of_inject)

interpretation zkevm: caching_consumer "zkevm_consume fn env" "\<lambda>c. dict_get (consumer_cache c)"
    "\<lambda>c. command_of (consumer_binary c)" "call_key zkevm_subcommand" for fn env
  by unfold_locales (auto simp: zkevm_consume_def dest: consume_as_cases command_of_inject)

section \<open>Outcomes\<close>

lemma named_iff: "named name v \<longleftrightarrow> (\<exists>d. v = PDict d \<and> dict_get d ''name'' = Some (PStr name))"
  by (cases v) (auto simp: named_def value_simps split: option.splits)

text \<open>The record of a test that ran: its name, verdict and message are well-formed.\<close>

definition record_ok :: "pyval \<Rightarrow> string \<Rightarrow> bool \<Rightarrow> bool \<Rightarrow> string \<Rightarrow> bool" where
  "record_ok v name passed skipped message \<longleftrightarrow> (\<exists>d. v = PDict d \<and> dict_get d ''name'' = Some (PStr name) \<and>
     dict_get d ''pass'' = Some (PBool passed) \<and> dict_get d ''error'' = Some (PStr message) \<and>
     (dict_get d ''skip'' = Some (PBool skipped) \<or> dict_get d ''skip'' = None \<and> \<not> skipped) \<and>
     \<not> (passed \<and> skipped))"

definition verdict_of :: "string \<Rightarrow> bool \<Rightarrow> bool \<Rightarrow> string \<Rightarrow> verdict" where
  "verdict_of name passed skipped message =
     (if skipped then Skip (name @ '': '' @ message)
      else if passed then Passed else Failure (name @ '': '' @ message))"

lemma classify_record_Inr:
  "classify_record sub v = Inr r \<longleftrightarrow>
     (\<exists>name passed skipped message. record_ok v name passed skipped message \<and>
        r = verdict_of name passed skipped message)"
proof (cases v)
  case (PDict d)
  show ?thesis
  proof
    assume "classify_record sub v = Inr r"
    then show "\<exists>name passed skipped message. record_ok v name passed skipped message \<and>
        r = verdict_of name passed skipped message"
      unfolding PDict by (auto simp: classify_record_def record_ok_def verdict_of_def
          split: pyval.split_asm option.split_asm if_splits)
  next
    assume "\<exists>name passed skipped message. record_ok v name passed skipped message \<and>
        r = verdict_of name passed skipped message"
    then show "classify_record sub v = Inr r"
      unfolding PDict by (auto simp: classify_record_def record_ok_def verdict_of_def)
  qed
qed (auto simp: classify_record_def record_ok_def)

lemma verdict_failures_iff: "verdict_failures vs = [] \<longleftrightarrow> (\<forall>m. Failure m \<notin> set vs)"
  by (induction vs rule: verdict_failures.induct) auto

lemma verdict_skips_length:
  "length (verdict_skips vs) \<le> length vs"
  "length (verdict_skips vs) = length vs \<longleftrightarrow> (\<forall>v\<in>set vs. \<exists>m. v = Skip m)"
proof -
  show le: "length (verdict_skips vs) \<le> length vs" for vs
    by (induction vs rule: verdict_skips.induct) auto
  show "length (verdict_skips vs) = length vs \<longleftrightarrow> (\<forall>v\<in>set vs. \<exists>m. v = Skip m)"
  proof (induction vs)
    case (Cons v vs)
    then show ?case using le [of vs] by (cases v) auto
  qed simp
qed

lemma report_verdicts_Inr:
  "report_verdicts sub vs = Inr u \<longleftrightarrow> (\<forall>m. Failure m \<notin> set vs) \<and> (vs = [] \<or> Passed \<in> set vs)"
proof -
  have "verdict_skips vs = [] \<or> length (verdict_skips vs) \<noteq> length vs \<longleftrightarrow> vs = [] \<or> Passed \<in> set vs"
    if "\<forall>m. Failure m \<notin> set vs"
  proof -
    have "(\<forall>v\<in>set vs. \<exists>m. v = Skip m) \<longleftrightarrow> Passed \<notin> set vs" using that by (metis verdict.exhaust verdict.distinct(3))
    then show ?thesis using verdict_skips_length(2) [of vs] by (cases vs) auto
  qed
  then show ?thesis by (auto simp: report_verdicts_def raise_if_Inr_iff verdict_failures_iff)
qed


end
