(* ===== verification/Consumer_Properties.thy ===== *)
theory Consumer_Properties
  imports Fixture_Consumer
begin

text \<open>
  The properties of the consume-direct adapters, with a sample program that answers every fixture
  file with one passing, one failing and one skipped test.
\<close>

section \<open>A sample program\<close>

definition sample_record :: "string \<Rightarrow> bool \<Rightarrow> bool \<Rightarrow> pyval" where
  "sample_record name passed skipped = PDict [(''name'', PStr name), (''pass'', PBool passed),
     (''skip'', PBool skipped), (''error'', PStr ''none'')]"

definition sample_records :: "pyval list" where
  "sample_records = [sample_record ''a'' True False, sample_record ''b'' False False, sample_record ''c'' False True]"

definition sample_consumer_env :: consumer_env where
  "sample_consumer_env = \<lparr>
     c_run = (\<lambda>argv fs. (Inr \<lparr>returncode = (if argv ! 2 = ''crash.json'' then 139 else 0), run_stdout = ''[...]'',
        run_stderr = ''segfault''\<rparr>, fs)),
     c_loads = (\<lambda>_. Inr (PList sample_records)),
     c_dump = (\<lambda>_ _ fs. (Inr (), fs))\<rparr>"

definition sample_call :: "string \<Rightarrow> string option \<Rightarrow> format_call" where
  "sample_call path name = (BlockchainFixture, \<lparr>call_path = path, call_name = name, call_debug = None\<rparr>)"

definition sample_consumer_world :: world where
  "sample_consumer_world = \<lparr>world_files = [], world_commands = []\<rparr>"

definition sample_cached :: cached_run where
  "sample_cached = \<lparr>cached_command = [''evmz-eest'', ''blocktest'', ''f.json''], cached_returncode = 0,
     cached_stdout = ''[...]'', cached_stderr = ''segfault'', cached_records = sample_records\<rparr>"

definition sample_crashed :: cached_run where
  "sample_crashed = \<lparr>cached_command = [''evmz-eest'', ''zkevmtest'', ''crash.json''], cached_returncode = 139,
     cached_stdout = ''[...]'', cached_stderr = ''segfault'', cached_records = []\<rparr>"

definition after_call :: consumer where
  "after_call = \<lparr>consumer_binary = ''evmz-eest'', consumer_trace = False,
     consumer_cache = [((''blocktest'', ''f.json''), sample_cached)]\<rparr>"

definition after_crash :: consumer where
  "after_crash = \<lparr>consumer_binary = ''evmz-eest'', consumer_trace = False,
     consumer_cache = [((''zkevmtest'', ''crash.json''), sample_crashed)]\<rparr>"

section \<open>Running once\<close>

text \<open>
  C18: A fixture file is run once. In any further session of either consumer, whatever the calls
  return, a run that is in the cache stays there unchanged and its command is not started again.
\<close>

theorem fixture_file_run_once:
  assumes "session (evmz_consume fn env) c w c' w' \<or> session (zkevm_consume fn env) c w c' w'"
    and "dict_get (consumer_cache c) k = Some run"
  shows "dict_get (consumer_cache c') k = Some run \<and>
    (\<exists>new. world_commands w' = world_commands w @ new \<and> command_of (consumer_binary c) k \<notin> set new)"
  using assms evmz.session_stored [of fn env c w c' w' k run] zkevm.session_stored [of fn env c w c' w' k run]
    evmz.session_no_rerun [of fn env c w c' w' k run] zkevm.session_no_rerun [of fn env c w c' w' k run] by blast

theorem fixture_file_run_once_witness:
  "\<exists>w'. session (evmz_consume (\<lambda>_. ''other'') sample_consumer_env) after_call sample_consumer_world after_call w' \<and>
     (\<exists>new. world_commands w' = new \<and> [''evmz-eest'', ''blocktest'', ''f.json''] \<notin> set new)"
proof -
  let ?consume = "evmz_consume (\<lambda>_. ''other'') sample_consumer_env"
  have "?consume after_call (sample_call ''f.json'' (Some ''a'')) sample_consumer_world
      = (Inr (), after_call, sample_consumer_world)" by code_simp
  then have s: "session ?consume after_call sample_consumer_world after_call sample_consumer_world"
    by (rule session_call [where consume = ?consume, rotated]) (rule session_start)
  have "dict_get (consumer_cache after_call) (''blocktest'', ''f.json'') = Some sample_cached"
    by (simp add: after_call_def)
  from fixture_file_run_once [OF disjI1 [OF s] this] s show ?thesis
    by (auto simp: sample_consumer_world_def)
qed

text \<open>
  C36: A crash is reported for every test of the file. When the stored run of a file had a non-zero
  exit code, every call for the file, in any later state of the session, starts nothing, keeps the cache, and raises
  the error that shows the exit code and the standard error of that run; with a debug path the dump comes first, and
  when writing it raises, the call raises that error instead.
\<close>

theorem crash_reported_every_time:
  assumes "session (zkevm_consume fn env) c w c' w'"
    and "dict_get (consumer_cache c) (''zkevmtest'', path) = Some run" and "cached_returncode run \<noteq> 0"
    and "zkevm_consume fn env c' (BlockchainFixture, \<lparr>call_path = path, call_name = name, call_debug = debug\<rparr>) w' = (result, c'', w'')"
  shows "c'' = c' \<and> world_commands w'' = world_commands w' \<and>
    (result = Inl (RuntimeError (''evmz zkevmtest exited '' @ show_int (cached_returncode run) @ '':'' @ [newline]
       @ cached_stderr run)) \<or>
     (\<exists>d e. debug = Some d \<and> dump_run env (''zkevmtest'', path) d run w' = (Inl e, w'') \<and> result = Inl e))"
proof -
  have stored: "dict_get (consumer_cache c') (''zkevmtest'', path) = Some run"
    using zkevm.session_stored assms(1,2) by blast
  let ?dump = "case debug of None \<Rightarrow> ret () | Some d \<Rightarrow> dump_run env (''zkevmtest'', path) d run"
  let ?report = "report_run ''zkevmtest'' name run"
  have report: "?report = Inl (RuntimeError (''evmz zkevmtest exited '' @ show_int (cached_returncode run) @ '':'' @ [newline]
       @ cached_stderr run))" using assms(3) by (simp add: report_run_def raise_if_def)
  have quiet: "quiet.keeps ?dump"
    by (auto simp: dump_run_def split: option.splits intro!: quiet.keeps_intros quiet_file_ops quiet_set_files)
       (auto simp: quiet.keeps_def same_log_def split: prod.splits)
  have c'': "c'' = c'" and run: "bnd ?dump (\<lambda>_. lift ?report) w' = (result, w'')"
    using assms(4) stored
    by (auto simp: zkevm_consume_def consume_as_def consume_fixture_def ensure_cached_def Let_def split: prod.splits)
  from run show ?thesis
  proof (cases rule: bnd_cases)
    case (stop e)
    then show ?thesis using c'' quiet.keepsD [OF quiet stop(1)] by (cases debug) (auto simp: same_log_def)
  next
    case (go x v)
    then show ?thesis using c'' report quiet.keepsD [OF quiet go(1)] by (auto simp: same_log_def)
  qed
qed

theorem crash_reported_every_time_witness:
  "zkevm_consume (\<lambda>_. ''other'') sample_consumer_env after_crash
     (BlockchainFixture, \<lparr>call_path = ''crash.json'', call_name = Some ''b'', call_debug = None\<rparr>) sample_consumer_world =
   (Inl (RuntimeError (''evmz zkevmtest exited 139:'' @ [newline] @ ''segfault'')), after_crash, sample_consumer_world)"
proof -
  let ?call = "zkevm_consume (\<lambda>_. ''other'') sample_consumer_env after_crash
     (BlockchainFixture, \<lparr>call_path = ''crash.json'', call_name = Some ''b'', call_debug = None\<rparr>) sample_consumer_world"
  obtain result c w where run: "?call = (result, c, w)" by (metis prod_cases3)
  have w: "snd (snd ?call) = sample_consumer_world" by code_simp
  have "dict_get (consumer_cache after_crash) (''zkevmtest'', ''crash.json'') = Some sample_crashed"
    and "cached_returncode sample_crashed \<noteq> 0" by (simp_all add: after_crash_def sample_crashed_def)
  moreover have "show_int 139 = ''139''" by code_simp
  ultimately show ?thesis
    using crash_reported_every_time [OF session_start, of after_crash "''crash.json''" sample_crashed
        "\<lambda>_. ''other''" sample_consumer_env "Some ''b''" None sample_consumer_world, OF _ _ run] run w
    by (simp add: sample_crashed_def)
qed

section \<open>Reporting\<close>

text \<open>
  C31: A named test passes exactly when the run exited with 0 and printed exactly one record of that
  name, a well-formed one that says it passed; it is skipped exactly when that one record says it
  was skipped, and every other case is a runtime error.
\<close>

theorem named_result_exact:
  "(report_run sub (Some name) run = Inr () \<longleftrightarrow> cached_returncode run = 0 \<and>
      (\<exists>v message. filter (named name) (cached_records run) = [v] \<and> record_ok v name True False message)) \<and>
   ((\<exists>m. report_run sub (Some name) run = Inl (Skipped m)) \<longleftrightarrow> cached_returncode run = 0 \<and>
      (\<exists>v message. filter (named name) (cached_records run) = [v] \<and> record_ok v name False True message)) \<and>
   (report_run sub (Some name) run = Inr () \<or> (\<exists>m. report_run sub (Some name) run = Inl (Skipped m)) \<or>
      (\<exists>m. report_run sub (Some name) run = Inl (RuntimeError m)))"
proof (cases "cached_returncode run = 0 \<and> length (filter (named name) (cached_records run)) = 1")
  case False
  then show ?thesis by (auto simp: report_run_def select_records_def Let_def raise_if_def)
next
  case True
  then obtain v where v: "filter (named name) (cached_records run) = [v]" by (auto simp: length_Suc_conv)
  then have "v \<in> set (filter (named name) (cached_records run))" by simp
  then have "named name v" by simp
  then obtain d where d: "v = PDict d" "dict_get d ''name'' = Some (PStr name)" by (auto simp: named_iff)
  have run: "report_run sub (Some name) run = rbind (classify_record sub v) (\<lambda>x. report_verdicts sub [x])"
    using True v by (cases "classify_record sub v") (simp_all add: report_run_def select_records_def)
  show ?thesis
  proof (cases "classify_record sub v")
    case (Inl e)
    then have "\<exists>m. e = RuntimeError m" unfolding d
      by (auto simp: classify_record_def split: pyval.split_asm if_splits option.split_asm)
    moreover have "\<not> record_ok v name p s m" for p s m
      using Inl classify_record_Inr [of sub v] by fastforce
    ultimately show ?thesis using run Inl v True by auto
  next
    case (Inr x)
    then obtain p s m where ok: "record_ok v name p s m" "x = verdict_of name p s m"
      unfolding classify_record_Inr using d by (auto simp: record_ok_def)
    have unique: "record_ok v name p' s' m' \<Longrightarrow> p' = p \<and> s' = s" for p' s' m'
      using ok(1) by (auto simp: record_ok_def)
    show ?thesis using run Inr v True ok unique
      by (cases s; cases p) (auto simp: verdict_of_def report_verdicts_def record_ok_def raise_if_def)
  qed
qed

text \<open>
  A call for a whole file succeeds exactly when the run exited with 0, every record is
  well-formed, no test failed, and at least one test passed or the file has no tests at all.
\<close>

theorem whole_file_result_exact:
  "report_run sub None run = Inr () \<longleftrightarrow> cached_returncode run = 0 \<and>
     (\<forall>v\<in>set (cached_records run). \<exists>name passed skipped message. record_ok v name passed skipped message \<and>
        (passed \<or> skipped)) \<and>
     (cached_records run = [] \<or> (\<exists>v\<in>set (cached_records run). \<exists>name message. record_ok v name True False message))"
proof -
  have pass: "classify_record sub v = Inr Passed \<longleftrightarrow> (\<exists>name message. record_ok v name True False message)" for v
    by (auto simp: classify_record_Inr verdict_of_def split: if_splits)
  have good: "(\<exists>x. classify_record sub v = Inr x \<and> (\<forall>m. x \<noteq> Failure m)) \<longleftrightarrow>
      (\<exists>name passed skipped message. record_ok v name passed skipped message \<and> (passed \<or> skipped))" for v
  proof -
    have "(\<forall>m'. verdict_of name p k m \<noteq> Failure m') \<longleftrightarrow> p \<or> k" for name p k m by (simp add: verdict_of_def)
    then show ?thesis unfolding classify_record_Inr by metis
  qed
  let ?R = "cached_records run"
  have "(\<exists>xs. rmap (classify_record sub) ?R = Inr xs \<and> report_verdicts sub xs = Inr ()) \<longleftrightarrow>
      (\<forall>v\<in>set ?R. \<exists>x. classify_record sub v = Inr x \<and> (\<forall>m. x \<noteq> Failure m)) \<and>
      (?R = [] \<or> (\<exists>v\<in>set ?R. classify_record sub v = Inr Passed))"
  proof (cases "\<exists>xs. rmap (classify_record sub) ?R = Inr xs")
    case True
    then obtain xs where xs: "rmap (classify_record sub) ?R = Inr xs" ..
    then have set: "set xs = {x. \<exists>v\<in>set ?R. classify_record sub v = Inr x}" by (rule rmap_set)
    have empty: "xs = [] \<longleftrightarrow> ?R = []" using rmap_length [OF xs] by auto
    have fail: "(\<forall>m. Failure m \<notin> set xs) \<longleftrightarrow>
        (\<forall>v\<in>set ?R. \<exists>x. classify_record sub v = Inr x \<and> (\<forall>m. x \<noteq> Failure m))"
    proof -
      have "\<exists>x. classify_record sub v = Inr x" if "v \<in> set ?R" for v using rmap_memberD [OF xs that] by blast
      then show ?thesis unfolding set by fastforce
    qed
    have "Passed \<in> set xs \<longleftrightarrow> (\<exists>v\<in>set ?R. classify_record sub v = Inr Passed)" by (simp add: set)
    with xs empty fail show ?thesis by (simp add: report_verdicts_Inr)
  next
    case False
    with rmap_Inr_ex [of "classify_record sub" ?R] show ?thesis by blast
  qed
  then show ?thesis unfolding pass good
    by (simp add: report_run_def select_records_def raise_if_Inr_iff rbind_Inr_iff)
qed

theorem whole_file_result_exact_witness:
  "report_run ''blocktest'' None (sample_cached\<lparr>cached_records := [sample_record ''a'' True False, sample_record ''c'' False True]\<rparr>)
     = Inr ()"
proof -
  have a: "record_ok (sample_record ''a'' True False) ''a'' True False ''none''"
    and c: "record_ok (sample_record ''c'' False True) ''c'' False True ''none''"
    by (simp_all add: record_ok_def sample_record_def)
  show ?thesis unfolding whole_file_result_exact using a c by (auto simp: sample_cached_def)
qed

section \<open>Workers\<close>

text \<open>
  With a distribution option, the tests of one fixture file are on one worker: items of the
  same file end in the same group, items of files with different digests end in different
  groups, and items without an indexed file are not touched.
\<close>

theorem fixture_files_grouped:
  assumes "distributed args" and "i < length items" and "j < length items"
    and "item_params (items ! i) = Some (Some (IndexFile p))" and "item_params (items ! j) = Some (Some (IndexFile q))"
  shows "length (group_fixture_files blake2s args items) = length items \<and>
    (last (item_groups (group_fixture_files blake2s args items ! i)) =
       last (item_groups (group_fixture_files blake2s args items ! j)) \<longleftrightarrow> blake2s p = blake2s q) \<and>
    (\<forall>k<length items. (\<forall>r. item_params (items ! k) \<noteq> Some (Some (IndexFile r))) \<longrightarrow>
       group_fixture_files blake2s args items ! k = items ! k)"
  using assms
  by (auto simp: group_fixture_files_def group_item_def group_name_def split: option.splits test_case.splits)

theorem fixture_files_grouped_witness:
  "let items = [\<lparr>item_params = Some (Some (IndexFile ''a.json'')), item_groups = []\<rparr>,
                \<lparr>item_params = Some (Some (IndexFile ''b.json'')), item_groups = []\<rparr>]
   in last (item_groups (group_fixture_files (\<lambda>s. s) [''-n4''] items ! 0)) \<noteq>
      last (item_groups (group_fixture_files (\<lambda>s. s) [''-n4''] items ! 1))"
proof -
  have "distributed [''-n4'']" by code_simp
  from fixture_files_grouped [OF this, of 0 "[\<lparr>item_params = Some (Some (IndexFile ''a.json'')), item_groups = []\<rparr>,
      \<lparr>item_params = Some (Some (IndexFile ''b.json'')), item_groups = []\<rparr>]" 1 "''a.json''" "''b.json''" "\<lambda>s. s"]
  show ?thesis by simp
qed

text \<open>
  Only the short form of the worker option is recognised. With the long form
  \<^verbatim>\<open>--numprocesses\<close> no item gets a group, although tests are then distributed too.
\<close>

theorem long_worker_option_ungrouped:
  "group_fixture_files blake2s [''--numprocesses'', workers] items = items \<or> startswith workers ''-n''"
  by (auto simp: group_fixture_files_def distributed_def)

end
