(* ===== verification/Differential.thy ===== *)
theory Differential
  imports Py_World
begin

text \<open>
  The differential transition tool \<^verbatim>\<open>eest/consume/evmz_differential.py\<close>: canonical form and
  comparison of outputs, the evaluation of one transition by evmz, a reference and an optional
  arbiter, the preserved artifacts, and the life cycle of the tool in a test session. The wrapped
  tools, the serialiser of the framework's models, SHA-256 and \<^verbatim>\<open>difflib\<close> are parameters.
\<close>

section \<open>Outputs in canonical form\<close>

text \<open>
  An exception field of the framework: absent, resolved by the exception mapper to a list of
  alternatives, or an unresolved message.
\<close>

datatype tx_exception = NoException | ExceptionWithMessage "string list" | UndefinedException string

record rejected_tx =
  rejected_dump :: "(string \<times> pyval) list"
  rejected_error :: tx_exception

text \<open>
  An output: what the serialiser returns for the allocation and for the result without the excluded
  fields, the rejected transactions and the block exception.
\<close>

record tool_output =
  alloc_dump :: pyval
  result_dump :: "(string \<times> pyval) list"
  rejected_transactions :: "rejected_tx list"
  block_exception :: tx_exception

fun canonical_exception :: "tx_exception \<Rightarrow> pyval" where
  "canonical_exception NoException = PNone"
| "canonical_exception (ExceptionWithMessage exceptions) = PList (map PStr (sort exceptions))"
| "canonical_exception (UndefinedException message) = PDict [(''undefined'', PStr message)]"

definition canonical_rejected :: "rejected_tx \<Rightarrow> (string \<times> pyval) list" where
  "canonical_rejected r = dict_set (rejected_dump r) ''error'' (canonical_exception (rejected_error r))"

definition canonical_result :: "tool_output \<Rightarrow> (string \<times> pyval) list" where
  "canonical_result o1 =
     dict_set (dict_set (result_dump o1) ''rejected''
         (PList (map (\<lambda>r. PDict (canonical_rejected r)) (rejected_transactions o1))))
       ''blockException'' (canonical_exception (block_exception o1))"

definition canonical_output :: "tool_output \<Rightarrow> pyval" where
  "canonical_output o1 = PDict [(''alloc'', alloc_dump o1), (''result'', PDict (canonical_result o1))]"

section \<open>Comparison\<close>

definition exceptions_equivalent :: "pyval \<Rightarrow> pyval \<Rightarrow> bool" where
  "exceptions_equivalent left right = (case (left, right) of
      (PList xs, PList ys) \<Rightarrow> \<not> (set xs \<inter> set ys = {})
    | _ \<Rightarrow> py_eq left right)"

text \<open>\<^verbatim>\<open>d.pop(k)\<close>: the value and the dictionary without the key.\<close>

definition dict_pop :: "(string \<times> pyval) list \<Rightarrow> string \<Rightarrow> (pyval \<times> (string \<times> pyval) list) result" where
  "dict_pop d k = (case dict_get d k of
      None \<Rightarrow> Inl (KeyError (str_repr k))
    | Some v \<Rightarrow> Inr (v, filter (\<lambda>(k', _). k' \<noteq> k) d))"

text \<open>Lines 311--315: one pair of rejected transactions.\<close>

definition rejected_equivalent :: "rejected_tx \<times> rejected_tx \<Rightarrow> bool result" where
  "rejected_equivalent pair =
     rbind (dict_pop (canonical_rejected (fst pair)) ''error'') (\<lambda>(left_error, left_tx).
     rbind (dict_pop (canonical_rejected (snd pair)) ''error'') (\<lambda>(right_error, right_tx).
       Inr (py_eq (PDict left_tx) (PDict right_tx) \<and> exceptions_equivalent left_error right_error)))"

fun all_equivalent :: "(rejected_tx \<times> rejected_tx) list \<Rightarrow> bool result" where
  "all_equivalent [] = Inr True"
| "all_equivalent (p # ps) = rbind (rejected_equivalent p) (\<lambda>b. if b then all_equivalent ps else Inr False)"

definition outputs_equivalent :: "tool_output option \<Rightarrow> tool_output option \<Rightarrow> bool result" where
  "outputs_equivalent left right = (case (left, right) of
      (Some l, Some r) \<Rightarrow>
        rbind (dict_pop (canonical_result l) ''rejected'') (\<lambda>(_, left_result).
        rbind (dict_pop (canonical_result r) ''rejected'') (\<lambda>(_, right_result).
          if \<not> py_eq (PDict [(''alloc'', alloc_dump l), (''result'', PDict left_result)])
                     (PDict [(''alloc'', alloc_dump r), (''result'', PDict right_result)])
             \<or> length (rejected_transactions l) \<noteq> length (rejected_transactions r)
          then Inr False
          else all_equivalent (zip (rejected_transactions l) (rejected_transactions r))))
    | _ \<Rightarrow> Inl (AssertionError []))"

section \<open>The tools\<close>

record transition_data =
  td_fork_name :: string
  td_chain_id :: int
  td_reward :: int
  td_to_files :: "path \<Rightarrow> files \<Rightarrow> unit result \<times> files"

text \<open>
  A wrapped tool: an answer is an output or the \<^verbatim>\<open>repr\<close> of the exception it raised; asking for its version may raise.
\<close>

record transition_tool =
  t_evaluate :: "transition_data \<Rightarrow> bool \<Rightarrow> string + tool_output"
  t_version :: "string result"
  t_fork_supported :: "string \<Rightarrow> bool"
  t_supports_xdist :: bool
  t_shutdown :: "unit result"

record diff_tool =
  primary :: transition_tool
  reference :: transition_tool
  arbiter :: "transition_tool option"
  diff_output_root :: path
  diff_supports_xdist :: bool
  test_id :: string
  test_call :: nat

definition tools :: "diff_tool \<Rightarrow> (string \<times> transition_tool) list" where
  "tools self = [(''primary'', primary self), (''reference'', reference self)] @
     (case arbiter self of None \<Rightarrow> [] | Some a \<Rightarrow> [(''arbiter'', a)])"

definition new_diff_tool :: "transition_tool \<Rightarrow> transition_tool \<Rightarrow> transition_tool option \<Rightarrow> path \<Rightarrow> diff_tool" where
  "new_diff_tool p r a root =
     (let self = \<lparr>primary = p, reference = r, arbiter = a, diff_output_root = root, diff_supports_xdist = False,
        test_id = ''session'', test_call = 0\<rparr>
      in self\<lparr>diff_supports_xdist := (\<forall>t\<in>set (dict_values (tools self)). t_supports_xdist t)\<rparr>)"

definition begin_test :: "string \<Rightarrow> diff_tool \<Rightarrow> diff_tool" where
  "begin_test nodeid self = self\<lparr>test_id := nodeid, test_call := 0\<rparr>"

definition diff_version :: "diff_tool \<Rightarrow> string result" where
  "diff_version self =
     rbind (rmap (\<lambda>(name, t). rbind (t_version t) (\<lambda>v. Inr (name, strip v))) (tools self)) (\<lambda>versions.
       let versions' = dict_set versions ''primary''
            (''evmz differential: '' @ (case dict_get versions ''primary'' of None \<Rightarrow> [] | Some v \<Rightarrow> v))
       in Inr (join '' | '' (map (\<lambda>(name, v). name @ '': '' @ v) versions')))"

definition diff_fork_supported :: "diff_tool \<Rightarrow> string \<Rightarrow> bool" where
  "diff_fork_supported self fork = (\<forall>t\<in>set (dict_values (tools self)). t_fork_supported t fork)"

definition diff_shutdown :: "diff_tool \<Rightarrow> unit result" where
  "diff_shutdown self = rbind (rmap t_shutdown (dict_values (tools self))) (\<lambda>_. Inr ())"

text \<open>\<^verbatim>\<open>pytest_sessionstart\<close>: the wrapped tool, from the options.\<close>

definition pytest_sessionstart :: "transition_tool option \<Rightarrow> (string \<Rightarrow> transition_tool result) \<Rightarrow>
    transition_tool \<Rightarrow> string option \<Rightarrow> bool \<Rightarrow> path \<Rightarrow> diff_tool result" where
  "pytest_sessionstart default_tool from_binary_path p reference_path arbitrate root =
     (case reference_path of
        None \<Rightarrow>
          raise_if arbitrate (UsageError ''--evmz-diff-arbitrate requires --evmz-diff-reference'')
            (case default_tool of
               None \<Rightarrow> Inl (AssertionError [])
             | Some d \<Rightarrow> Inr (new_diff_tool p d None root))
      | Some binary \<Rightarrow>
          rbind (from_binary_path binary) (\<lambda>r.
            if arbitrate then
              (case default_tool of
                 None \<Rightarrow> Inl (AssertionError [])
               | Some d \<Rightarrow> Inr (new_diff_tool p r (Some d) root))
            else Inr (new_diff_tool p r None root)))"

section \<open>Artifacts\<close>

record evaluation =
  ev_name :: string
  ev_output :: "tool_output option"
  ev_error :: "string option"

definition run_tool :: "string \<Rightarrow> transition_tool \<Rightarrow> transition_data \<Rightarrow> bool \<Rightarrow> evaluation" where
  "run_tool name t data slow = (case t_evaluate t data slow of
      Inr o1 \<Rightarrow> \<lparr>ev_name = name, ev_output = Some o1, ev_error = None\<rparr>
    | Inl e \<Rightarrow> \<lparr>ev_name = name, ev_output = None, ev_error = Some e\<rparr>)"

definition slug_char :: "char \<Rightarrow> bool" where
  "slug_char c = (is_alnum c \<or> c = CHR ''_'' \<or> c = CHR ''.'' \<or> c = CHR ''-'')"

text \<open>\<^verbatim>\<open>re.sub(r"[^A-Za-z0-9_.-]+", "-", s)\<close>: each run of other characters becomes one hyphen.\<close>

fun slugify :: "bool \<Rightarrow> string \<Rightarrow> string" where
  "slugify in_run [] = []"
| "slugify in_run (c # cs) =
     (if slug_char c then c # slugify False cs
      else if in_run then slugify True cs else CHR ''-'' # slugify True cs)"

record diff_env =
  d_sha256 :: "string \<Rightarrow> string"
  d_unified_diff :: "string list \<Rightarrow> string list \<Rightarrow> string"

definition artifact_dir :: "diff_env \<Rightarrow> string \<Rightarrow> string" where
  "artifact_dir env nodeid =
     take 120 (strip_if (\<lambda>c. c = CHR ''-'') (slugify False nodeid)) @ ''-'' @ take 12 (d_sha256 env nodeid)"

definition artifact_path :: "diff_env \<Rightarrow> diff_tool \<Rightarrow> nat \<Rightarrow> path" where
  "artifact_path env self call =
     path_join (path_join (diff_output_root self) (artifact_dir env (test_id self))) (''call-'' @ show_nat call)"

definition format_json :: "pyval \<Rightarrow> string" where
  "format_json v = json_indent v 0 @ [newline]"

definition write_json :: "path \<Rightarrow> pyval \<Rightarrow> unit io" where
  "write_json p v = bnd (mkdir_parents (path_parent p)) (\<lambda>_. write_file p (format_json v))"

text \<open>\<^verbatim>\<open>str.splitlines(keepends=True)\<close> on text whose only line breaks are newlines.\<close>

fun keepends :: "string \<Rightarrow> string \<Rightarrow> string list" where
  "keepends w [] = (if w = [] then [] else [rev w])"
| "keepends w (c # cs) = (if c = newline then rev (c # w) # keepends [] cs else keepends (c # w) cs)"

definition context_json :: "diff_tool \<Rightarrow> transition_data \<Rightarrow> nat \<Rightarrow> string \<Rightarrow> pyval result" where
  "context_json self data call classification =
     rbind (rmap (\<lambda>(name, t). rbind (t_version t) (\<lambda>v. Inr (name @ ''_version'', PStr (strip v)))) (tools self)) (\<lambda>versions.
       Inr (PDict
         ([(''classification'', PStr classification), (''pytest_node_id'', PStr (test_id self)),
           (''transition_call'', PInt (int call)), (''fork'', PStr (td_fork_name data)),
           (''chain_id'', PInt (td_chain_id data)), (''reward'', PInt (td_reward data))] @ versions)))"

text \<open>Lines 246--253: the files of one evaluation.\<close>

definition dump_evaluation :: "path \<Rightarrow> evaluation \<Rightarrow> unit io" where
  "dump_evaluation artifact ev =
     bnd (case ev_output ev of
            None \<Rightarrow> ret ()
          | Some o1 \<Rightarrow> write_json (path_join artifact (ev_name ev @ ''.json'')) (canonical_output o1)) (\<lambda>_.
       case ev_error ev of
         None \<Rightarrow> ret ()
       | Some e \<Rightarrow> write_file (path_join artifact (ev_name ev @ ''-error.txt'')) (e @ [newline]))"

definition outputs_of :: "evaluation list \<Rightarrow> (string, pyval) dict" where
  "outputs_of evs = fold (\<lambda>ev d. case ev_output ev of None \<Rightarrow> d | Some o1 \<Rightarrow> dict_set d (ev_name ev) (canonical_output o1)) evs []"

definition write_diff :: "diff_env \<Rightarrow> path \<Rightarrow> evaluation list \<Rightarrow> unit io" where
  "write_diff env artifact evs = (case (dict_get (outputs_of evs) ''evmz'', dict_get (outputs_of evs) ''reference'') of
      (Some local, Some expected) \<Rightarrow>
        write_file (path_join artifact ''diff.txt'')
          (d_unified_diff env (keepends [] (format_json expected)) (keepends [] (format_json local)))
    | _ \<Rightarrow> ret ())"

definition dump :: "diff_env \<Rightarrow> diff_tool \<Rightarrow> transition_data \<Rightarrow> nat \<Rightarrow> string \<Rightarrow> evaluation list \<Rightarrow> path io" where
  "dump env self data call classification evs =
     (let artifact = artifact_path env self call; input_dir = path_join artifact ''input'' in
     bnd (mkdir_parents input_dir) (\<lambda>_.
     bnd (\<lambda>w. (case td_to_files data input_dir (world_files w) of (r, fs) \<Rightarrow> (r, w\<lparr>world_files := fs\<rparr>))) (\<lambda>_.
     bnd (lift (context_json self data call classification)) (\<lambda>context.
     bnd (write_json (path_join artifact ''context.json'') context) (\<lambda>_.
     bnd (io_map (dump_evaluation artifact) evs) (\<lambda>_.
     bnd (write_diff env artifact evs) (\<lambda>_.
       ret artifact)))))))"

section \<open>Evaluating one transition\<close>

definition fail :: "diff_env \<Rightarrow> diff_tool \<Rightarrow> transition_data \<Rightarrow> nat \<Rightarrow> string \<Rightarrow> evaluation list \<Rightarrow> string \<Rightarrow> 'a io" where
  "fail env self data call classification evs message =
     bnd (dump env self data call classification evs) (\<lambda>artifact.
       raise (AssertionError (message @ ''; differential preserved at '' @ path_str artifact)))"

definition classify_divergence :: "evaluation \<Rightarrow> evaluation \<Rightarrow> evaluation \<Rightarrow> string result" where
  "classify_divergence evmz ref arb = (case ev_output ref of
      None \<Rightarrow> Inr ''evmz_divergence_with_reference_error''
    | Some _ \<Rightarrow>
        rbind (outputs_equivalent (ev_output ref) (ev_output arb)) (\<lambda>b1.
        if b1 then Inr ''evmz_divergence''
        else rbind (outputs_equivalent (ev_output evmz) (ev_output ref)) (\<lambda>b2.
          if b2 then Inr ''evmz_and_reference_divergence'' else Inr ''three_way_divergence'')))"

text \<open>Lines 193--214: the arbiter's part.\<close>

definition arbitrate :: "diff_env \<Rightarrow> diff_tool \<Rightarrow> transition_data \<Rightarrow> nat \<Rightarrow> evaluation \<Rightarrow> evaluation \<Rightarrow> evaluation \<Rightarrow> tool_output io" where
  "arbitrate env self data call evmz ref arb =
     (let evs = [evmz, ref, arb] in
      case ev_output arb of
        None \<Rightarrow> fail env self data call
          (if ev_output ref \<noteq> None then ''arbiter_error'' else ''reference_and_arbiter_error'') evs ''EELS arbitration failed''
      | Some arb_out \<Rightarrow>
          bnd (lift (outputs_equivalent (ev_output evmz) (ev_output arb))) (\<lambda>agree.
          if agree then
            bnd (if ev_output ref = None then ret True
                 else bnd (lift (outputs_equivalent (ev_output evmz) (ev_output ref))) (\<lambda>b. ret (\<not> b))) (\<lambda>diverges.
            bnd (if diverges then bnd (dump env self data call ''reference_divergence'' evs) (\<lambda>_. ret ()) else ret ()) (\<lambda>_.
              ret arb_out))
          else
            bnd (lift (classify_divergence evmz ref arb)) (\<lambda>classification.
              fail env self data call classification evs (str_replace ''_'' '' '' classification))))"

definition evaluate_transition :: "diff_env \<Rightarrow> diff_tool \<Rightarrow> transition_data \<Rightarrow> bool \<Rightarrow> nat \<Rightarrow> tool_output io" where
  "evaluate_transition env self data slow call =
     (let evmz = run_tool ''evmz'' (primary self) data slow in
      if ev_output evmz = None then fail env self data call ''tool_error'' [evmz] ''evmz t8n failed''
      else
        let ref = run_tool ''reference'' (reference self) data slow in
        case arbiter self of
          None \<Rightarrow>
            (case ev_output ref of
               None \<Rightarrow> fail env self data call ''tool_error'' [evmz, ref] ''reference t8n failed''
             | Some ref_out \<Rightarrow>
                 bnd (lift (outputs_equivalent (ev_output evmz) (ev_output ref))) (\<lambda>same.
                   if \<not> same then fail env self data call ''unclassified_divergence'' [evmz, ref] ''t8n outputs differ''
                   else ret ref_out))
        | Some a \<Rightarrow> arbitrate env self data call evmz ref (run_tool ''arbiter'' a data slow))"

text \<open>\<^verbatim>\<open>_evaluate\<close>: the call number is taken and advanced before anything is run.\<close>

definition diff_evaluate :: "diff_env \<Rightarrow> transition_data \<Rightarrow> bool \<Rightarrow> diff_tool \<Rightarrow> world \<Rightarrow>
    tool_output result \<times> diff_tool \<times> world" where
  "diff_evaluate env data slow self w =
     (let call = test_call self; self' = self\<lparr>test_call := Suc call\<rparr>
      in case evaluate_transition env self' data slow call w of (r, w') \<Rightarrow> (r, self', w'))"

section \<open>What the comparison decides\<close>

text \<open>The compared parts of an output, and of a rejected transaction without its error.\<close>

definition consensus_result :: "tool_output \<Rightarrow> (string \<times> pyval) list" where
  "consensus_result o1 = filter (\<lambda>(k, _). k \<noteq> ''rejected'') (canonical_result o1)"

definition rejected_rest :: "rejected_tx \<Rightarrow> (string \<times> pyval) list" where
  "rejected_rest r = filter (\<lambda>(k, _). k \<noteq> ''error'') (canonical_rejected r)"

definition same_rejection :: "rejected_tx \<Rightarrow> rejected_tx \<Rightarrow> bool" where
  "same_rejection r s \<longleftrightarrow> py_eq (PDict (rejected_rest r)) (PDict (rejected_rest s)) \<and>
     exceptions_equivalent (canonical_exception (rejected_error r)) (canonical_exception (rejected_error s))"

definition equivalent :: "tool_output \<Rightarrow> tool_output \<Rightarrow> bool" where
  "equivalent l r \<longleftrightarrow> py_eq (alloc_dump l) (alloc_dump r) \<and>
     py_eq (PDict (consensus_result l)) (PDict (consensus_result r)) \<and>
     list_all2 same_rejection (rejected_transactions l) (rejected_transactions r)"

lemma pop_rejected: "\<exists>v. dict_pop (canonical_result o1) ''rejected'' = Inr (v, consensus_result o1)"
  by (simp add: dict_pop_def canonical_result_def consensus_result_def dict_simps)

lemma rejected_equivalent_eq: "rejected_equivalent (r, s) = Inr (same_rejection r s)"
  by (simp add: rejected_equivalent_def same_rejection_def rejected_rest_def dict_pop_def
      canonical_rejected_def dict_simps)

lemma all_equivalent_eq:
  "length rs = length ss \<Longrightarrow> all_equivalent (zip rs ss) = Inr (list_all2 same_rejection rs ss)"
  by (induction rs ss rule: list_induct2) (simp_all add: rejected_equivalent_eq)

lemma outputs_equivalent_Some: "outputs_equivalent (Some l) (Some r) = Inr (equivalent l r)"
proof -
  obtain v u where "dict_pop (canonical_result l) ''rejected'' = Inr (v, consensus_result l)"
    and "dict_pop (canonical_result r) ''rejected'' = Inr (u, consensus_result r)"
    using pop_rejected by blast
  then show ?thesis
    by (auto simp: outputs_equivalent_def equivalent_def all_equivalent_eq simp del: py_eq.simps(7)
        dest: list_all2_lengthD) (simp_all add: py_eq_PDict)
qed

text \<open>Serialised parts without NaN and with distinct keys, as the serialiser produces.\<close>

definition output_ok :: "tool_output \<Rightarrow> bool" where
  "output_ok o1 \<longleftrightarrow> val_ok (alloc_dump o1) \<and> val_ok (PDict (consensus_result o1)) \<and>
     (\<forall>r\<in>set (rejected_transactions o1). val_ok (PDict (rejected_rest r)))"

lemma canonical_exception_ok: "val_ok (canonical_exception e)"
  by (cases e) (auto simp: list_all_iff)

lemma exceptions_equivalent_sym:
  "val_ok a \<Longrightarrow> val_ok b \<Longrightarrow> exceptions_equivalent a b \<Longrightarrow> exceptions_equivalent b a"
  using py_eq_sym [of a b] by (cases a; cases b) (auto simp: exceptions_equivalent_def)

lemma same_rejection_sym:
  assumes "val_ok (PDict (rejected_rest r))" and "val_ok (PDict (rejected_rest s))" and "same_rejection r s"
  shows "same_rejection s r"
  using assms py_eq_sym exceptions_equivalent_sym [OF canonical_exception_ok canonical_exception_ok]
  unfolding same_rejection_def by blast

lemma equivalent_sym:
  assumes "output_ok l" and "output_ok r" and "equivalent l r"
  shows "equivalent r l"
proof -
  have "list_all2 same_rejection (rejected_transactions r) (rejected_transactions l)"
    using assms same_rejection_sym by (auto simp: equivalent_def output_ok_def list_all2_conv_all_nth)
  with assms py_eq_sym show ?thesis unfolding equivalent_def output_ok_def by blast
qed

section \<open>The decision table\<close>

datatype diff_verdict = Accept tool_output | AcceptNoting string tool_output | Reject string string

text \<open>
  What an evaluation must do, from the answers of the tools and an equivalence of outputs. The
  arbiter, when there is one, and otherwise the reference has authority.
\<close>

fun diff_table :: "(tool_output \<Rightarrow> tool_output \<Rightarrow> bool) \<Rightarrow> tool_output option \<Rightarrow> tool_output option \<Rightarrow>
    tool_output option option \<Rightarrow> diff_verdict" where
  "diff_table eq None r a = Reject ''tool_error'' ''evmz t8n failed''"
| "diff_table eq (Some e) None None = Reject ''tool_error'' ''reference t8n failed''"
| "diff_table eq (Some e) (Some r) None =
     (if eq e r then Accept r else Reject ''unclassified_divergence'' ''t8n outputs differ'')"
| "diff_table eq (Some e) None (Some None) = Reject ''reference_and_arbiter_error'' ''EELS arbitration failed''"
| "diff_table eq (Some e) (Some r) (Some None) = Reject ''arbiter_error'' ''EELS arbitration failed''"
| "diff_table eq (Some e) None (Some (Some a)) =
     (if eq e a then AcceptNoting ''reference_divergence'' a
      else Reject ''evmz_divergence_with_reference_error'' ''evmz divergence with reference error'')"
| "diff_table eq (Some e) (Some r) (Some (Some a)) =
     (if eq e a then if eq e r then Accept a else AcceptNoting ''reference_divergence'' a
      else if eq r a then Reject ''evmz_divergence'' ''evmz divergence''
      else if eq e r then Reject ''evmz_and_reference_divergence'' ''evmz and reference divergence''
      else Reject ''three_way_divergence'' ''three way divergence'')"

definition answer :: "transition_tool \<Rightarrow> transition_data \<Rightarrow> bool \<Rightarrow> tool_output option" where
  "answer t data slow = (case t_evaluate t data slow of Inl _ \<Rightarrow> None | Inr o1 \<Rightarrow> Some o1)"

lemma run_tool_output [simp]: "ev_output (run_tool name t data slow) = answer t data slow"
  by (simp add: run_tool_def answer_def split: sum.splits)

text \<open>The evaluations that an artifact of this evaluation shows.\<close>

definition evaluations :: "diff_tool \<Rightarrow> transition_data \<Rightarrow> bool \<Rightarrow> evaluation list" where
  "evaluations self data slow =
     (let evmz = run_tool ''evmz'' (primary self) data slow in
      if ev_output evmz = None then [evmz]
      else [evmz, run_tool ''reference'' (reference self) data slow] @
        (case arbiter self of None \<Rightarrow> [] | Some a \<Rightarrow> [run_tool ''arbiter'' a data slow]))"

definition verdict_action :: "diff_env \<Rightarrow> diff_tool \<Rightarrow> transition_data \<Rightarrow> nat \<Rightarrow> evaluation list \<Rightarrow> diff_verdict \<Rightarrow> tool_output io" where
  "verdict_action env self data call evs v = (case v of
      Accept o1 \<Rightarrow> ret o1
    | AcceptNoting c o1 \<Rightarrow> bnd (dump env self data call c evs) (\<lambda>_. ret o1)
    | Reject c m \<Rightarrow> fail env self data call c evs m)"

definition table_verdict :: "diff_tool \<Rightarrow> transition_data \<Rightarrow> bool \<Rightarrow> diff_verdict" where
  "table_verdict self data slow = diff_table equivalent (answer (primary self) data slow)
     (answer (reference self) data slow) (map_option (\<lambda>t. answer t data slow) (arbiter self))"

lemma bnd_assoc: "bnd (bnd m f) g = bnd m (\<lambda>x. bnd (f x) g)"
  by (rule ext) (simp add: bnd_def split: prod.splits sum.splits)

lemma spaced_classifications:
  "str_replace ''_'' '' '' ''evmz_divergence_with_reference_error'' = ''evmz divergence with reference error''"
  "str_replace ''_'' '' '' ''evmz_divergence'' = ''evmz divergence''"
  "str_replace ''_'' '' '' ''evmz_and_reference_divergence'' = ''evmz and reference divergence''"
  "str_replace ''_'' '' '' ''three_way_divergence'' = ''three way divergence''"
  by (simp_all add: str_replace_char)

lemma evaluate_transition_table:
  "evaluate_transition env self data slow call =
     verdict_action env self data call (evaluations self data slow) (table_verdict self data slow)"
proof (cases "answer (primary self) data slow")
  case None
  then show ?thesis
    by (simp add: evaluate_transition_def verdict_action_def evaluations_def table_verdict_def)
next
  case e: (Some e)
  show ?thesis
  proof (cases "arbiter self")
    case None
    with e show ?thesis
      by (cases "answer (reference self) data slow")
         (auto simp: evaluate_transition_def verdict_action_def evaluations_def table_verdict_def
            outputs_equivalent_Some)
  next
    case (Some t)
    with e show ?thesis
      by (cases "answer (reference self) data slow"; cases "answer t data slow")
         (auto simp: evaluate_transition_def arbitrate_def classify_divergence_def verdict_action_def
            evaluations_def table_verdict_def outputs_equivalent_Some spaced_classifications bnd_assoc
            simp del: basic_io)
  qed
qed


section \<open>Artifact directories\<close>

text \<open>What the artifact names rely on: SHA-256 digests are 64 hexadecimal characters.\<close>

definition digest_ok :: "(string \<Rightarrow> string) \<Rightarrow> bool" where
  "digest_ok sha \<longleftrightarrow> (\<forall>s. length (sha s) = 64 \<and> (\<forall>c\<in>set (sha s). is_alnum c))"

lemma slugify_chars: "c \<in> set (slugify b s) \<Longrightarrow> slug_char c"
  by (induction b s rule: slugify.induct) (auto simp: slug_char_def split: if_splits)

lemma slug_char_no_slash: "\<not> slug_char (CHR ''/'')"
  by (simp add: slug_char_def is_alnum_def is_lower_def is_upper_def is_digit_def)

lemma artifact_dir_chars:
  assumes "digest_ok (d_sha256 env)" and "c \<in> set (artifact_dir env nodeid)"
  shows "slug_char c"
  using assms slugify_chars set_strip_if
  by (fastforce simp: artifact_dir_def digest_ok_def slug_char_def dest: in_set_takeD)

lemma artifact_dir_name:
  assumes "digest_ok (d_sha256 env)"
  shows "CHR ''/'' \<notin> set (artifact_dir env nodeid)" and "artifact_dir env nodeid \<noteq> []"
    and "artifact_dir env nodeid \<noteq> ''.''" and "artifact_dir env nodeid \<noteq> ''..''"
proof -
  show "CHR ''/'' \<notin> set (artifact_dir env nodeid)"
    using artifact_dir_chars [OF assms, of "CHR ''/''" nodeid] slug_char_no_slash by blast
  have "CHR ''-'' \<in> set (artifact_dir env nodeid)" by (simp add: artifact_dir_def)
  then show "artifact_dir env nodeid \<noteq> []" and "artifact_dir env nodeid \<noteq> ''.''"
    and "artifact_dir env nodeid \<noteq> ''..''" by auto
qed

lemma call_dir_name: "CHR ''/'' \<notin> set (''call-'' @ show_nat n)" "''call-'' @ show_nat n \<noteq> []" "''call-'' @ show_nat n \<noteq> ''.''"
  using show_nat_digits [of n] by (auto simp: is_digit_def)

lemma artifact_path_eq:
  assumes "digest_ok (d_sha256 env)"
  shows "artifact_path env self n = diff_output_root self @ [artifact_dir env (test_id self), ''call-'' @ show_nat n]"
  unfolding artifact_path_def
  by (simp add: path_join_name [OF artifact_dir_name(1-3) [OF assms]] path_join_name [OF call_dir_name, simplified])

lemma artifact_dir_digest:
  assumes "digest_ok (d_sha256 env)" and "artifact_dir env s = artifact_dir env t"
  shows "take 12 (d_sha256 env s) = take 12 (d_sha256 env t)"
proof -
  have "length (take 12 (d_sha256 env u)) = 12" for u using assms(1) by (simp add: digest_ok_def)
  then have "drop (length (artifact_dir env u) - 12) (artifact_dir env u) = take 12 (d_sha256 env u)" for u
    by (simp add: artifact_dir_def)
  with assms(2) show ?thesis by metis
qed

section \<open>Sessions of the tool\<close>

text \<open>
  A test session begins tests, with node ids that were not used before, and evaluates transitions,
  whatever each evaluation returns or raises. The history lists the identities under which
  artifacts of the transitions are preserved.
\<close>

inductive diff_session :: "diff_env \<Rightarrow> diff_tool \<Rightarrow> world \<Rightarrow> (string \<times> nat) list \<Rightarrow> diff_tool \<Rightarrow> world \<Rightarrow> bool"
  for env self0 w0 where
  diff_start: "diff_session env self0 w0 [] self0 w0"
| diff_begin: "diff_session env self0 w0 used self w \<Longrightarrow> nodeid \<notin> fst ` set used \<Longrightarrow>
    diff_session env self0 w0 used (begin_test nodeid self) w"
| diff_call: "diff_session env self0 w0 used self w \<Longrightarrow> diff_evaluate env data slow self w = (r, self', w') \<Longrightarrow>
    diff_session env self0 w0 (used @ [(test_id self, test_call self)]) self' w'"

lemma diff_evaluate_state:
  "diff_evaluate env data slow self w = (r, self', w') \<Longrightarrow> self' = self\<lparr>test_call := Suc (test_call self)\<rparr>"
  by (auto simp: diff_evaluate_def Let_def split: prod.splits)

lemma diff_session_invariant:
  assumes "diff_session env self0 w0 used self w"
  shows "distinct used \<and> (\<forall>n. (test_id self, n) \<in> set used \<longrightarrow> n < test_call self) \<and>
    diff_output_root self = diff_output_root self0"
  using assms
proof (induction rule: diff_session.induct)
  case (diff_begin used self w nodeid)
  then show ?case by (force simp: begin_test_def)
next
  case (diff_call used self w data slow r self' w')
  then show ?case using diff_evaluate_state [OF diff_call.hyps(2)] by (auto simp: less_Suc_eq)
qed simp

section \<open>Preserved contexts\<close>

lemma kept_lift_files: "kept.keeps q (write_json p v)" if "p \<noteq> q" for p v
  unfolding write_json_def using that by (intro kept.keeps_intros kept_mkdir_parents kept_write_file)

lemma path_join_suffix:
  assumes "CHR ''/'' \<notin> set name" and "name \<noteq> []" and "name \<noteq> ''.''" and "name \<noteq> ''context.json''"
  shows "path_join artifact name \<noteq> artifact @ [''context.json'']"
  using assms by (simp add: path_join_name)

lemma kept_dump_evaluation:
  assumes "ev_name ev \<in> {''evmz'', ''reference'', ''arbiter''}"
  shows "kept.keeps (artifact @ [''context.json'']) (dump_evaluation artifact ev)"
proof -
  have "path_join artifact (ev_name ev @ ''.json'') \<noteq> artifact @ [''context.json'']"
    and "path_join artifact (ev_name ev @ ''-error.txt'') \<noteq> artifact @ [''context.json'']"
    using assms by (auto simp: path_join_name)
  then show ?thesis unfolding dump_evaluation_def
    by (intro kept.keeps_bnd)
       (auto split: option.splits intro: kept.keeps_basic kept_lift_files kept_write_file)
qed

lemma kept_write_diff: "kept.keeps (artifact @ [''context.json'']) (write_diff env artifact evs)"
  unfolding write_diff_def
  by (auto split: option.splits intro!: kept.keeps_basic kept_write_file simp: path_join_name)

lemma run_tool_name: "ev_name (run_tool name t data slow) = name"
  by (simp add: run_tool_def split: sum.splits)

lemma evaluations_names: "ev \<in> set (evaluations self data slow) \<Longrightarrow> ev_name ev \<in> {''evmz'', ''reference'', ''arbiter''}"
  by (cases "arbiter self") (auto simp: evaluations_def run_tool_name Let_def split: if_splits)

text \<open>A finished dump leaves the context of the transition, with its classification, in the artifact.\<close>

lemma dump_context:
  assumes "dump env self data n c evs w = (Inr artifact, w')"
    and "\<forall>ev\<in>set evs. ev_name ev \<in> {''evmz'', ''reference'', ''arbiter''}"
  shows "artifact = artifact_path env self n \<and> (\<exists>ctx. context_json self data n c = Inr ctx \<and>
    dict_get (world_files w') (artifact @ [''context.json'']) = Some (FileNode (format_json ctx)))"
proof -
  let ?a = "artifact_path env self n"
  from assms(1) obtain v1 v2 v3 ys ctx where a: "artifact = ?a" and c: "context_json self data n c = Inr ctx"
    and ctx: "write_json (path_join ?a ''context.json'') ctx v1 = (Inr (), v2)"
    and evs: "io_map (dump_evaluation ?a) evs v2 = (Inr ys, v3)" and diff: "write_diff env ?a evs v3 = (Inr (), w')"
    unfolding dump_def Let_def by (auto simp: bnd_Inr_iff lift_Inr_iff simp del: basic_io(3))
  have "path_join ?a ''context.json'' = ?a @ [''context.json'']" by (simp add: path_join_name)
  then have "dict_get (world_files v2) (?a @ [''context.json'']) = Some (FileNode (format_json ctx))"
    using ctx by (auto simp: write_json_def bnd_Inr_iff write_file_Inr_iff dict_simps)
  moreover have "file_kept (?a @ [''context.json'']) v2 v3"
    using kept.keeps_map [of evs _ "dump_evaluation ?a"] kept_dump_evaluation assms(2) evs kept.keepsD by blast
  moreover have "file_kept (?a @ [''context.json'']) v3 w'"
    using kept_write_diff kept.keepsD diff by blast
  ultimately show ?thesis using a c by (auto simp: file_kept_def)
qed

end
