(* ===== verification/Differential_Properties.thy ===== *)
theory Differential_Properties
  imports Differential
begin

text \<open>
  The properties of the differential tool, with sample tools that reject one transaction with
  different alternatives.
\<close>

section \<open>Sample tools\<close>

definition sample_output :: "string list \<Rightarrow> tool_output" where
  "sample_output exceptions = \<lparr>alloc_dump = PDict [], result_dump = [(''stateRoot'', PStr ''0x01'')],
     rejected_transactions = [\<lparr>rejected_dump = [(''index'', PInt 0)], rejected_error = ExceptionWithMessage exceptions\<rparr>],
     block_exception = NoException\<rparr>"

definition sample_tool :: "string list \<Rightarrow> transition_tool" where
  "sample_tool exceptions = \<lparr>t_evaluate = (\<lambda>_ _. Inr (sample_output exceptions)), t_version = Inr ''v1 '',
     t_fork_supported = (\<lambda>_. True), t_supports_xdist = True, t_shutdown = Inr ()\<rparr>"

definition sample_data :: transition_data where
  "sample_data = \<lparr>td_fork_name = ''Osaka'', td_chain_id = 1, td_reward = 0, td_to_files = (\<lambda>_ fs. (Inr (), fs))\<rparr>"

definition sample_diff :: "string list \<Rightarrow> string list \<Rightarrow> string list \<Rightarrow> diff_tool" where
  "sample_diff p r a = new_diff_tool (sample_tool p) (sample_tool r) (Some (sample_tool a)) [''out'']"

definition sample_diff_env :: diff_env where
  "sample_diff_env = \<lparr>d_sha256 = (\<lambda>_. replicate 64 (CHR ''0'')), d_unified_diff = (\<lambda>a b. concat a @ concat b)\<rparr>"

definition no_files :: world where
  "no_files = \<lparr>world_files = [], world_commands = []\<rparr>"

lemma sample_digest_ok: "digest_ok (d_sha256 sample_diff_env)"
  by (simp add: digest_ok_def sample_diff_env_def is_alnum_def is_digit_def)

lemma sample_agreement:
  "equivalent (sample_output [''A'']) (sample_output [''A'', ''B''])"
  "equivalent (sample_output [''B'']) (sample_output [''A'', ''B''])"
  "\<not> equivalent (sample_output [''A'']) (sample_output [''B''])"
  by code_simp+

section \<open>Verdicts\<close>

text \<open>
  C19: An evaluation follows the decision table. For every answer of the tools, the call does what
  the table says: it returns the authority's output, returns it after preserving a reference
  divergence, or preserves the classified artifact and raises; the comparison the table uses is
  equality of the serialised consensus fields together with overlapping alternatives for each
  rejected transaction, and the call number advances by one in every case.
\<close>

theorem evaluation_follows_table:
  "diff_evaluate env data slow self w =
     (let n = test_call self; self' = self\<lparr>test_call := Suc n\<rparr>;
          verdict = diff_table equivalent (answer (primary self) data slow) (answer (reference self) data slow)
            (map_option (\<lambda>t. answer t data slow) (arbiter self))
      in case (case verdict of
                 Accept o1 \<Rightarrow> ret o1
               | AcceptNoting c o1 \<Rightarrow> bnd (dump env self' data n c (evaluations self' data slow)) (\<lambda>_. ret o1)
               | Reject c m \<Rightarrow> fail env self' data n c (evaluations self' data slow) m) w of
           (r, w') \<Rightarrow> (r, self', w'))"
  by (simp add: diff_evaluate_def evaluate_transition_table verdict_action_def table_verdict_def Let_def
      split: diff_verdict.splits)

text \<open>
  C11: No divergence from the authority is accepted. When an evaluation returns an output, evmz gave
  an equivalent one, and the returned output is the arbiter's, or the reference's when there is no
  arbiter.
\<close>

theorem accepted_transitions_agree:
  assumes "diff_evaluate env data slow self w = (Inr out, self', w')"
  shows "\<exists>e. answer (primary self) data slow = Some e \<and>
    answer (case arbiter self of None \<Rightarrow> reference self | Some a \<Rightarrow> a) data slow = Some out \<and>
    outputs_equivalent (Some e) (Some out) = Inr True"
proof -
  let ?n = "test_call self" and ?self = "self\<lparr>test_call := Suc (test_call self)\<rparr>"
  from assms have run: "verdict_action env ?self data ?n (evaluations ?self data slow) (table_verdict self data slow) w
      = (Inr out, w')"
    by (auto simp: diff_evaluate_def evaluate_transition_table table_verdict_def Let_def split: prod.splits)
  then have "table_verdict self data slow = Accept out \<or> (\<exists>c. table_verdict self data slow = AcceptNoting c out)"
    by (cases "table_verdict self data slow") (auto simp: verdict_action_def fail_def bnd_Inr_iff)
  then show ?thesis
    unfolding table_verdict_def
    by (cases "arbiter self"; cases "answer (primary self) data slow"; cases "answer (reference self) data slow";
        cases "answer (the (arbiter self)) data slow")
       (auto simp: outputs_equivalent_Some split: if_splits)
qed

theorem accepted_transitions_agree_witness:
  "\<exists>e. answer (sample_tool [''A'']) sample_data False = Some e \<and>
     outputs_equivalent (Some e) (Some (sample_output [''A'', ''B''])) = Inr True"
proof -
  let ?self = "sample_diff [''A''] [''A''] [''A'', ''B'']"
  have "fst (diff_evaluate sample_diff_env sample_data False ?self no_files) = Inr (sample_output [''A'', ''B''])"
    by code_simp
  then obtain self' w' where "diff_evaluate sample_diff_env sample_data False ?self no_files
      = (Inr (sample_output [''A'', ''B'']), self', w')" by (metis prod.collapse)
  moreover have "primary ?self = sample_tool [''A'']" by (simp add: sample_diff_def new_diff_tool_def Let_def)
  ultimately show ?thesis using accepted_transitions_agree by metis
qed

text \<open>
  C20: A divergence is preserved before it is reported. When the table rejects, no output is
  returned; either writing the artifact failed, and that error is raised, or the artifact holds the
  context of the transition with the classification, and the assertion error that is raised names
  the artifact.
\<close>

theorem divergence_preserved:
  assumes "diff_evaluate env data slow self w = (r, self', w')"
    and "diff_table equivalent (answer (primary self) data slow) (answer (reference self) data slow)
      (map_option (\<lambda>t. answer t data slow) (arbiter self)) = Reject c m"
  shows "(\<exists>e. dump env self' data (test_call self) c (evaluations self' data slow) w = (Inl e, w') \<and> r = Inl e) \<or>
    (r = Inl (AssertionError (m @ ''; differential preserved at '' @ path_str (artifact_path env self' (test_call self)))) \<and>
     (\<exists>ctx. context_json self' data (test_call self) c = Inr ctx \<and>
       dict_get (world_files w') (artifact_path env self' (test_call self) @ [''context.json'']) =
         Some (FileNode (format_json ctx))))"
proof -
  have self': "self' = self\<lparr>test_call := Suc (test_call self)\<rparr>" using diff_evaluate_state [OF assms(1)] .
  from assms have run: "fail env self' data (test_call self) c (evaluations self' data slow) m w = (r, w')"
    by (auto simp: diff_evaluate_def evaluate_transition_table verdict_action_def table_verdict_def self' Let_def
        split: prod.splits)
  from bnd_step [OF run [unfolded fail_def]] obtain q z where
    q: "dump env self' data (test_call self) c (evaluations self' data slow) w = (q, z)"
    and rest: "case q of Inl e \<Rightarrow> r = Inl e \<and> z = w'
      | Inr a \<Rightarrow> raise (AssertionError (m @ ''; differential preserved at '' @ path_str a)) z = (r, w')" by blast
  show ?thesis
  proof (cases q)
    case (Inl e)
    with q rest show ?thesis by auto
  next
    case (Inr a)
    with q have "dump env self' data (test_call self) c (evaluations self' data slow) w = (Inr a, z)" by simp
    from dump_context [OF this] evaluations_names rest Inr show ?thesis by auto
  qed
qed

theorem divergence_preserved_witness:
  "\<exists>r self' w'. diff_evaluate sample_diff_env sample_data False (sample_diff [''A''] [''B''] [''B'']) no_files = (r, self', w') \<and>
     (\<exists>e. r = Inl e)"
proof -
  let ?self = "sample_diff [''A''] [''B''] [''B'']"
  obtain r self' w' where run: "diff_evaluate sample_diff_env sample_data False ?self no_files = (r, self', w')"
    by (metis prod_cases3)
  have "diff_table equivalent (answer (primary ?self) sample_data False)
      (answer (reference ?self) sample_data False) (map_option (\<lambda>t. answer t sample_data False) (arbiter ?self))
      = Reject ''evmz_divergence'' ''evmz divergence''" by code_simp
  from divergence_preserved [OF run this] have "\<exists>e. r = Inl e" by auto
  with run show ?thesis by blast
qed

section \<open>Artifacts\<close>

text \<open>
  C37: Every transition of a session has its own artifact directory, two levels below the output
  root. With distinct node ids whose digests differ in the first twelve characters, the paths of
  all evaluated transitions are distinct, and no component is a parent reference or contains a
  separator, whatever the node id contains.
\<close>

theorem artifact_paths_distinct:
  assumes "diff_session env self0 w0 used self w" and "digest_ok (d_sha256 env)"
    and "inj_on (\<lambda>t. take 12 (d_sha256 env t)) (fst ` set used)"
  shows "distinct (map (\<lambda>(t, n). artifact_path env (self\<lparr>test_id := t\<rparr>) n) used) \<and>
    (\<forall>t n. \<exists>dir call. artifact_path env (self\<lparr>test_id := t\<rparr>) n = diff_output_root self0 @ [dir, call] \<and>
       CHR ''/'' \<notin> set dir \<and> CHR ''/'' \<notin> set call \<and> dir \<notin> {[], ''.'', ''..''} \<and> call \<notin> {[], ''.'', ''..''})"
proof -
  have inv: "distinct used" and root: "diff_output_root self = diff_output_root self0"
    using diff_session_invariant [OF assms(1)] by blast+
  note path = artifact_path_eq [OF assms(2)]
  have "inj_on (\<lambda>(t, n). artifact_path env (self\<lparr>test_id := t\<rparr>) n) (set used)"
  proof (rule inj_onI, clarify)
    fix s m t n
    assume mem: "(s, m) \<in> set used" "(t, n) \<in> set used"
      and eq: "artifact_path env (self\<lparr>test_id := s\<rparr>) m = artifact_path env (self\<lparr>test_id := t\<rparr>) n"
    from eq have "artifact_dir env s = artifact_dir env t" and "m = n" by (auto simp: path show_nat_inject)
    moreover have "s \<in> fst ` set used" and "t \<in> fst ` set used" using mem by force+
    ultimately have "s = t" using artifact_dir_digest [OF assms(2)] inj_onD [OF assms(3)] by blast
    with \<open>m = n\<close> show "s = t \<and> m = n" by simp
  qed
  with inv have "distinct (map (\<lambda>(t, n). artifact_path env (self\<lparr>test_id := t\<rparr>) n) used)"
    by (simp add: distinct_map)
  moreover have "\<exists>dir call. artifact_path env (self\<lparr>test_id := t\<rparr>) n = diff_output_root self0 @ [dir, call] \<and>
       CHR ''/'' \<notin> set dir \<and> CHR ''/'' \<notin> set call \<and> dir \<notin> {[], ''.'', ''..''} \<and> call \<notin> {[], ''.'', ''..''}" for t n
    using artifact_dir_name [OF assms(2), of t] call_dir_name [of n]
    by (intro exI [of _ "artifact_dir env t"] exI [of _ "''call-'' @ show_nat n"]) (auto simp: path root)
  ultimately show ?thesis by blast
qed

theorem artifact_paths_distinct_witness:
  "\<exists>self'. distinct (map (\<lambda>(t, n). artifact_path sample_diff_env (self'\<lparr>test_id := t\<rparr>) n) [(''session'', 0), (''session'', 1)])"
proof -
  let ?self = "sample_diff [''A''] [''A''] [''A'']"
  have start: "test_id ?self = ''session''" "test_call ?self = 0"
    by (simp_all add: sample_diff_def new_diff_tool_def Let_def)
  obtain r1 self1 w1 where run1: "diff_evaluate sample_diff_env sample_data False ?self no_files = (r1, self1, w1)"
    by (metis prod_cases3)
  obtain r2 self2 w2 where run2: "diff_evaluate sample_diff_env sample_data False self1 w1 = (r2, self2, w2)"
    by (metis prod_cases3)
  have one: "self1 = ?self\<lparr>test_call := 1\<rparr>" using diff_evaluate_state [OF run1] start by simp
  have "diff_session sample_diff_env ?self no_files [(''session'', 0), (''session'', 1)] self2 w2"
    using diff_call [OF diff_call [OF diff_start run1] run2] start by (simp add: one)
  from artifact_paths_distinct [OF this sample_digest_ok] show ?thesis by auto
qed

section \<open>The comparison\<close>

text \<open>
  The comparison of outputs is symmetric on serialised outputs: which tool is called left and
  which right does not matter.
\<close>

theorem comparison_symmetric:
  assumes "output_ok l" and "output_ok r"
  shows "outputs_equivalent (Some l) (Some r) = outputs_equivalent (Some r) (Some l)"
  using assms equivalent_sym by (auto simp: outputs_equivalent_Some)

theorem comparison_symmetric_witness:
  "outputs_equivalent (Some (sample_output [''A''])) (Some (sample_output [''A'', ''B''])) =
   outputs_equivalent (Some (sample_output [''A'', ''B''])) (Some (sample_output [''A'']))"
proof -
  have "output_ok (sample_output [''A''])" and "output_ok (sample_output [''A'', ''B''])" by code_simp+
  then show ?thesis by (rule comparison_symmetric)
qed

text \<open>
  C38: the comparison is not transitive, because alternatives only have to overlap, and the reference is compared with evmz. When
  evmz and the reference both agree with the arbiter but not with each other, an evaluation that returns gives the arbiter's
  output and has preserved the transition as a divergence of the reference; when preserving it raises, the evaluation raises that error.
\<close>

theorem agreeing_reference_blamed:
  assumes "answer (primary self) data slow = Some e" and "answer (reference self) data slow = Some r"
    and "arbiter self = Some t" and "answer t data slow = Some a"
    and "outputs_equivalent (Some e) (Some a) = Inr True" and "outputs_equivalent (Some r) (Some a) = Inr True"
    and "outputs_equivalent (Some e) (Some r) = Inr False"
    and "diff_evaluate env data slow self w = (result, self', w')"
  shows "(\<exists>x. dump env self' data (test_call self) ''reference_divergence'' (evaluations self' data slow) w = (Inl x, w') \<and> result = Inl x) \<or>
    (result = Inr a \<and> (\<exists>ctx. context_json self' data (test_call self) ''reference_divergence'' = Inr ctx \<and>
      dict_get (world_files w') (artifact_path env self' (test_call self) @ [''context.json'']) = Some (FileNode (format_json ctx))))"
proof -
  have self': "self' = self\<lparr>test_call := Suc (test_call self)\<rparr>" using diff_evaluate_state [OF assms(8)] .
  have "table_verdict self' data slow = AcceptNoting ''reference_divergence'' a"
    using assms(1-7) by (simp add: table_verdict_def self' outputs_equivalent_Some)
  then have run: "bnd (dump env self' data (test_call self) ''reference_divergence'' (evaluations self' data slow)) (\<lambda>_. ret a) w = (result, w')"
    using assms(8) by (auto simp: diff_evaluate_def evaluate_transition_table verdict_action_def self' Let_def split: prod.splits)
  then show ?thesis
  proof (cases rule: bnd_cases)
    case (stop x)
    then show ?thesis by blast
  next
    case (go artifact v)
    then show ?thesis using dump_context [OF go(1)] evaluations_names by auto
  qed
qed

theorem agreeing_reference_blamed_witness:
  "\<exists>self' w' text. diff_evaluate sample_diff_env sample_data False (sample_diff [''A''] [''B''] [''A'', ''B'']) no_files =
      (Inr (sample_output [''A'', ''B'']), self', w') \<and>
    dict_get (world_files w') (artifact_path sample_diff_env self' 0 @ [''context.json'']) = Some (FileNode text)"
proof -
  let ?self = "sample_diff [''A''] [''B''] [''A'', ''B'']"
  let ?out = "sample_output [''A'', ''B'']"
  have parts: "answer (primary ?self) sample_data False = Some (sample_output [''A''])"
    "answer (reference ?self) sample_data False = Some (sample_output [''B''])"
    "arbiter ?self = Some (sample_tool [''A'', ''B''])" "answer (sample_tool [''A'', ''B'']) sample_data False = Some ?out"
    "test_call ?self = 0"
    by (simp_all add: sample_diff_def new_diff_tool_def answer_def sample_tool_def)
  have agree: "outputs_equivalent (Some (sample_output [''A''])) (Some ?out) = Inr True"
    "outputs_equivalent (Some (sample_output [''B''])) (Some ?out) = Inr True"
    "outputs_equivalent (Some (sample_output [''A''])) (Some (sample_output [''B''])) = Inr False"
    using sample_agreement by (simp_all add: outputs_equivalent_Some)
  have "fst (diff_evaluate sample_diff_env sample_data False ?self no_files) = Inr ?out" by code_simp
  then obtain self' w' where run: "diff_evaluate sample_diff_env sample_data False ?self no_files = (Inr ?out, self', w')"
    by (metis prod.collapse)
  from agreeing_reference_blamed [OF parts(1-4) agree run] obtain ctx where
    "dict_get (world_files w') (artifact_path sample_diff_env self' (test_call ?self) @ [''context.json'']) = Some (FileNode (format_json ctx))"
    by auto
  then show ?thesis using run unfolding parts(5) by blast
qed

text \<open>
  C39: Block exceptions are compared exactly, unlike the errors of rejected transactions: outputs
  that are equivalent have equal canonical block exceptions, so lists of alternatives that overlap
  without being equal count as a divergence.
\<close>

theorem block_exceptions_exact:
  assumes "outputs_equivalent (Some l) (Some r) = Inr True"
  shows "py_eq (canonical_exception (block_exception l)) (canonical_exception (block_exception r))"
proof -
  from assms have eq: "py_eq (PDict (consensus_result l)) (PDict (consensus_result r))"
    by (simp add: outputs_equivalent_Some equivalent_def)
  have get: "dict_get (consensus_result x) ''blockException'' = Some (canonical_exception (block_exception x))" for x
    by (simp add: consensus_result_def map_of_filter_in canonical_result_def dict_simps)
  from map_of_SomeD [OF get] eq obtain y where "dict_get (consensus_result r) ''blockException'' = Some y"
    and "py_eq (canonical_exception (block_exception l)) y" unfolding py_eq_PDict by fastforce
  with get show ?thesis by simp
qed

theorem block_exceptions_exact_witness:
  "py_eq (canonical_exception (block_exception (sample_output [''A''])))
     (canonical_exception (block_exception (sample_output [''A'', ''B''])))"
proof (rule block_exceptions_exact)
  show "outputs_equivalent (Some (sample_output [''A''])) (Some (sample_output [''A'', ''B''])) = Inr True"
    using sample_agreement(1) by (simp add: outputs_equivalent_Some)
qed

end
