(* ===== verification/Shell.thy ===== *)
theory Shell
  imports Py_Strings
begin

text \<open>
  How a POSIX shell reads a command line without expansions: words are separated by blanks, a
  single-quoted part is literal, a double-quoted part is literal when it has no \<^verbatim>\<open>$\<close>, backquote or
  backslash, and outside quotes only characters that no shell treats specially are accepted. What
  this reader accepts, every POSIX shell splits in the same way. The quoting functions of the
  tooling are proved against it.
\<close>

definition sh_blank :: "char \<Rightarrow> bool" where
  "sh_blank c = (c = CHR '' '' \<or> c = CHR 0x09 \<or> c = newline)"

definition sh_plain :: "char \<Rightarrow> bool" where
  "sh_plain c = (is_alnum c \<or> c \<in> set ''_./:=+-@%,'')"

definition sh_single :: char where
  "sh_single = CHR 0x27"

definition sh_double :: char where
  "sh_double = CHR 0x22"

definition until :: "char \<Rightarrow> string \<Rightarrow> (string \<times> string) option" where
  "until q s = (if q \<in> set s then Some (takeWhile (\<lambda>c. c \<noteq> q) s, tl (dropWhile (\<lambda>c. c \<noteq> q) s)) else None)"

definition double_literal :: "string \<Rightarrow> bool" where
  "double_literal s = (\<forall>c\<in>set s. c \<noteq> CHR ''$'' \<and> c \<noteq> CHR 0x60 \<and> c \<noteq> CHR 0x5C)"

lemma until_shorter: "until q s = Some (a, b) \<Longrightarrow> length b < length s"
proof -
  assume "until q s = Some (a, b)"
  then have "q \<in> set s" and b: "b = tl (dropWhile (\<lambda>c. c \<noteq> q) s)" by (auto simp: until_def split: if_splits)
  then have "dropWhile (\<lambda>c. c \<noteq> q) s \<noteq> []" by auto
  moreover have "length (dropWhile (\<lambda>c. c \<noteq> q) s) \<le> length s" by (rule length_dropWhile_le)
  ultimately show ?thesis unfolding b by (cases "dropWhile (\<lambda>c. c \<noteq> q) s") auto
qed

abbreviation word_so_far :: "string option \<Rightarrow> string" where
  "word_so_far cur \<equiv> (case cur of None \<Rightarrow> [] | Some w \<Rightarrow> w)"

function sh_words :: "string option \<Rightarrow> string \<Rightarrow> string list option" where
  "sh_words cur [] = Some (case cur of None \<Rightarrow> [] | Some w \<Rightarrow> [w])"
| "sh_words cur (c # cs) =
     (if sh_blank c then
        (case cur of None \<Rightarrow> sh_words None cs | Some w \<Rightarrow> map_option (Cons w) (sh_words None cs))
      else if c = sh_single then
        (case until sh_single cs of
           None \<Rightarrow> None
         | Some (lit, rest) \<Rightarrow> sh_words (Some (word_so_far cur @ lit)) rest)
      else if c = sh_double then
        (case until sh_double cs of
           None \<Rightarrow> None
         | Some (lit, rest) \<Rightarrow> if double_literal lit then sh_words (Some (word_so_far cur @ lit)) rest else None)
      else if sh_plain c then sh_words (Some (word_so_far cur @ [c])) cs
      else None)"
  by pat_completeness auto
termination
  by (relation "measure (\<lambda>(cur, s). length s)") (auto dest: until_shorter)

declare sh_words.simps(2) [simp del]

definition sh_split :: "string \<Rightarrow> string list option" where
  "sh_split s = sh_words None s"

section \<open>Quoting\<close>

text \<open>A word in single quotes, with each single quote written as a double-quoted one.\<close>

definition single_quoted :: "string \<Rightarrow> string" where
  "single_quoted s = [sh_single] @ str_replace [sh_single] [sh_single, sh_double, sh_single, sh_double, sh_single] s
     @ [sh_single]"

text \<open>The safe characters of the report script and of \<^verbatim>\<open>shlex.quote\<close>.\<close>

definition report_safe :: "char \<Rightarrow> bool" where
  "report_safe c = (is_alnum c \<or> c \<in> set ''_./:=+-'')"

definition shlex_safe :: "char \<Rightarrow> bool" where
  "shlex_safe c = (is_alnum c \<or> c \<in> set ''_@%+=:,./-'')"

definition shell_quote :: "string \<Rightarrow> string" where
  "shell_quote s = (if s \<noteq> [] \<and> (\<forall>c\<in>set s. report_safe c) then s else single_quoted s)"

definition shlex_quote :: "string \<Rightarrow> string" where
  "shlex_quote s = (if s = [] then [sh_single, sh_single]
     else if \<forall>c\<in>set s. shlex_safe c then s else single_quoted s)"

definition shlex_join :: "string list \<Rightarrow> string" where
  "shlex_join args = join '' '' (map shlex_quote args)"

section \<open>Reading quoted words back\<close>

lemma until_first: "q \<notin> set a \<Longrightarrow> until q (a @ q # b) = Some (a, b)"
  by (auto simp: until_def takeWhile_append dropWhile_append)

lemma quote_chars [simp]: "\<not> sh_blank sh_single" "\<not> sh_blank sh_double" "sh_single \<noteq> sh_double"
  by (simp_all add: sh_blank_def sh_single_def sh_double_def)

lemma sh_words_single: "sh_single \<notin> set a \<Longrightarrow>
    sh_words cur (sh_single # a @ sh_single # rest) = sh_words (Some (word_so_far cur @ a)) rest"
  by (subst sh_words.simps) (simp add: until_first)

lemma sh_words_double: "sh_double \<notin> set a \<Longrightarrow> double_literal a \<Longrightarrow>
    sh_words cur (sh_double # a @ sh_double # rest) = sh_words (Some (word_so_far cur @ a)) rest"
  using quote_chars(3) [symmetric] by (subst sh_words.simps) (simp add: until_first)

lemma sh_words_plain:
  assumes "\<forall>c\<in>set s. sh_plain c"
  shows "sh_words (Some w) (s @ rest) = sh_words (Some (w @ s)) rest"
    and "s \<noteq> [] \<Longrightarrow> sh_words None (s @ rest) = sh_words (Some s) rest"
proof -
  have special: "\<not> sh_blank c \<and> c \<noteq> sh_single \<and> c \<noteq> sh_double" if "sh_plain c" for c
    using that by (auto simp: sh_plain_def sh_blank_def sh_single_def sh_double_def is_alnum_def is_lower_def
        is_upper_def is_digit_def)
  have step: "sh_words cur (c # r) = sh_words (Some (word_so_far cur @ [c])) r" if "sh_plain c" for cur c r
    using special [OF that] that by (subst sh_words.simps) simp
  have some: "sh_words (Some u) (t @ rest) = sh_words (Some (u @ t)) rest" if "\<forall>c\<in>set t. sh_plain c" for u t
    using that by (induction t arbitrary: u) (auto simp: step)
  show "sh_words (Some w) (s @ rest) = sh_words (Some (w @ s)) rest" using some assms by blast
  show "sh_words None (s @ rest) = sh_words (Some s) rest" if "s \<noteq> []"
    using assms that some [of "tl s" "[hd s]"] by (cases s) (auto simp: step)
qed

abbreviation escaped :: "string \<Rightarrow> string" where
  "escaped s \<equiv> str_replace [sh_single] [sh_single, sh_double, sh_single, sh_double, sh_single] s"

lemma escaped_no_quote: "sh_single \<notin> set s \<Longrightarrow> escaped s = s"
  by (induction s) (auto simp: str_replace_char)

lemma sh_words_quoted:
  "sh_words cur (sh_single # escaped s @ sh_single # rest) = sh_words (Some (word_so_far cur @ s)) rest"
proof (induction "length s" arbitrary: s cur rule: less_induct)
  case less
  show ?case
  proof (cases "sh_single \<in> set s")
    case False
    then show ?thesis by (simp add: escaped_no_quote sh_words_single)
  next
    case True
    then obtain a b where s: "s = a @ sh_single # b" and a: "sh_single \<notin> set a" by (metis split_list_first)
    have "escaped s = a @ [sh_single, sh_double, sh_single, sh_double, sh_single] @ escaped b"
      using a escaped_no_quote [OF a] by (simp add: s str_replace_char)
    then have "sh_words cur (sh_single # escaped s @ sh_single # rest)
        = sh_words cur (sh_single # a @ sh_single # sh_double # [sh_single] @ sh_double # sh_single # escaped b @ sh_single # rest)"
      by simp
    also have "\<dots> = sh_words (Some (word_so_far cur @ a)) (sh_double # [sh_single] @ sh_double # sh_single # escaped b @ sh_single # rest)"
      by (rule sh_words_single [OF a])
    also have "\<dots> = sh_words (Some ((word_so_far cur @ a) @ [sh_single])) (sh_single # escaped b @ sh_single # rest)"
      by (subst sh_words_double) (auto simp: double_literal_def sh_single_def sh_double_def)
    also have "\<dots> = sh_words (Some (word_so_far cur @ s)) rest"
      using less [of b "Some ((word_so_far cur @ a) @ [sh_single])"] s by simp
    finally show ?thesis .
  qed
qed

text \<open>
  A quoting function is faithful when reading its result, in front of anything, gives the word it
  was applied to. The laws of whole command lines are proved once from this.
\<close>

locale faithful_quoting =
  fixes quote :: "string \<Rightarrow> string"
  assumes read_quoted: "sh_words None (quote s @ rest) = sh_words (Some s) rest"
begin

lemma split_join: "sh_split (join '' '' (map quote args)) = Some args"
  unfolding sh_split_def
proof (induction args)
  case (Cons a args)
  show ?case
  proof (cases "args = []")
    case True
    then show ?thesis using read_quoted [of a "[]"] by simp
  next
    case False
    have "join '' '' (map quote (a # args)) = quote a @ CHR '' '' # join '' '' (map quote args)"
      using False by (simp add: join_Cons)
    moreover have "sh_words (Some a) (CHR '' '' # t) = map_option (Cons a) (sh_words None t)" for t
      by (subst sh_words.simps) (simp add: sh_blank_def)
    ultimately show ?thesis using read_quoted Cons by simp
  qed
qed simp

lemma split_line: "sh_split (join '' '' (map quote args) @ [newline]) = Some args"
  unfolding sh_split_def
proof (induction args)
  case Nil
  show ?case by (simp add: sh_words.simps(2) sh_blank_def)
next
  case (Cons a args)
  have blank: "sh_words (Some a) (c # t) = map_option (Cons a) (sh_words None t)" if "sh_blank c" for c t
    using that by (subst sh_words.simps) simp
  show ?case
  proof (cases "args = []")
    case True
    then show ?thesis using read_quoted [of a "[newline]"] blank [of newline "[]"] by (simp add: sh_blank_def)
  next
    case False
    then have "join '' '' (map quote (a # args)) @ [newline] = quote a @ CHR '' '' # join '' '' (map quote args) @ [newline]"
      by (simp add: join_Cons)
    then show ?thesis using read_quoted blank [of "CHR '' ''"] Cons by (simp add: sh_blank_def)
  qed
qed

end

lemma single_quoted_read: "sh_words None (single_quoted s @ rest) = sh_words (Some s) rest"
  using sh_words_quoted [of None s rest] by (simp add: single_quoted_def)

lemma safe_plain: "report_safe c \<Longrightarrow> sh_plain c" "shlex_safe c \<Longrightarrow> sh_plain c"
  by (auto simp: report_safe_def shlex_safe_def sh_plain_def)

interpretation report: faithful_quoting shell_quote
proof unfold_locales
  fix s rest
  show "sh_words None (shell_quote s @ rest) = sh_words (Some s) rest"
    using single_quoted_read sh_words_plain(2) [of s rest] safe_plain(1) by (auto simp: shell_quote_def)
qed

interpretation shlex: faithful_quoting shlex_quote
proof unfold_locales
  fix s rest
  have "sh_words None ([sh_single, sh_single] @ rest) = sh_words (Some []) rest"
    using sh_words_single [of "[]" None rest] by simp
  then show "sh_words None (shlex_quote s @ rest) = sh_words (Some s) rest"
    using single_quoted_read sh_words_plain(2) [of s rest] safe_plain(2) by (auto simp: shlex_quote_def)
qed

end
