(* ===== verification/Eest_Tools.thy ===== *)
theory Eest_Tools
  imports Py_World Shell
begin

text \<open>
  The smaller EEST programs: the resolver of a fixture source
  \<^verbatim>\<open>eest/consume/evmz_fixture_source.py\<close>, the transition-tool adapter
  \<^verbatim>\<open>eest/consume/evmz_transition_tool.py\<close> and the launcher \<^verbatim>\<open>eest/scripts/fill.py\<close>. The framework's
  fixture source and output validator, \<^verbatim>\<open>json.load\<close>, the INI reader and the subprocess are
  parameters.
\<close>

section \<open>The fixture source\<close>

record fixtures_source =
  source_path :: path
  source_url :: pyval
  release_page :: string
  input_option :: string

record source_env =
  s_loads :: "string \<Rightarrow> pyval result"
  s_ini_commit :: "files \<Rightarrow> path \<Rightarrow> string"
  s_cwd :: path

text \<open>\<^verbatim>\<open>urllib.parse.unquote\<close> on percent-escapes; incomplete escapes are kept.\<close>

definition hex_value :: "char \<Rightarrow> nat option" where
  "hex_value c = (if is_digit c then Some (ord c - 48)
     else if 97 \<le> ord c \<and> ord c \<le> 102 then Some (ord c - 87)
     else if 65 \<le> ord c \<and> ord c \<le> 70 then Some (ord c - 55) else None)"

fun unquote :: "string \<Rightarrow> string" where
  "unquote (p # a # b # s) =
     (if p = CHR ''%'' then
        (case (hex_value a, hex_value b) of
           (Some x, Some y) \<Rightarrow> char_of (16 * x + y) # unquote s
         | _ \<Rightarrow> p # unquote (a # b # s))
      else p # unquote (a # b # s))"
| "unquote s = s"

text \<open>
  \<^verbatim>\<open>urlparse(url).path\<close>: the scheme, the authority, the query and the fragment are cut off. A
  scheme starts with a letter and consists of letters, digits, \<open>+\<close>, \<open>-\<close> and \<open>.\<close>; the parameters
  after the last \<open>;\<close> of the last segment are cut off too.
\<close>

definition cut_at :: "char \<Rightarrow> string \<Rightarrow> string" where
  "cut_at c s = takeWhile (\<lambda>x. x \<noteq> c) s"

definition after_scheme :: "string \<Rightarrow> string" where
  "after_scheme s =
     (let scheme = cut_at (CHR '':'') s
      in if CHR '':'' \<in> set s \<and> scheme \<noteq> [] \<and> (is_lower (hd scheme) \<or> is_upper (hd scheme)) \<and>
            (\<forall>c\<in>set scheme. is_alnum c \<or> c = CHR ''+'' \<or> c = CHR ''-'' \<or> c = CHR ''.'')
         then drop (Suc (length scheme)) s else s)"

definition after_authority :: "string \<Rightarrow> string" where
  "after_authority s =
     (if startswith s ''//'' then dropWhile (\<lambda>c. c \<noteq> CHR ''/'' \<and> c \<noteq> CHR ''?'' \<and> c \<noteq> CHR ''#'') (drop 2 s) else s)"

definition cut_params :: "string \<Rightarrow> string" where
  "cut_params s = (let segs = split_on (CHR ''/'') s in join ''/'' (butlast segs @ [cut_at (CHR '';'') (last segs)]))"

definition url_path :: "string \<Rightarrow> string" where
  "url_path url = cut_params (cut_at (CHR ''?'') (cut_at (CHR ''#'') (after_authority (after_scheme url))))"

definition resolved_id :: "fixtures_source \<Rightarrow> string" where
  "resolved_id source = (if release_page source = [] then input_option source
     else unquote (path_name (path_of (url_path (release_page source)))))"

text \<open>\<^verbatim>\<open>case.get("format") == "blockchain_test"\<close>.\<close>

definition is_blockchain_case :: "pyval \<Rightarrow> bool result" where
  "is_blockchain_case c = rbind (py_get c ''format'') (\<lambda>f. Inr (py_eq f (PStr ''blockchain_test'')))"

fun select_cases :: "pyval list \<Rightarrow> pyval list result" where
  "select_cases [] = Inr []"
| "select_cases (c # cs) = rbind (is_blockchain_case c) (\<lambda>b.
     rbind (select_cases cs) (\<lambda>rest. Inr (if b then c # rest else rest)))"

text \<open>The set comprehension of \<^verbatim>\<open>json_path\<close> values, in order of first occurrence.\<close>

definition case_path :: "pyval \<Rightarrow> string result" where
  "case_path c = rbind (py_item c ''json_path'') (\<lambda>v. (case v of
      PStr s \<Rightarrow> Inr s | _ \<Rightarrow> Inl (TypeError ''expected str'')))"

definition case_paths :: "pyval list \<Rightarrow> string list result" where
  "case_paths test_cases = rbind (select_cases test_cases) (\<lambda>cs.
     rbind (rmap case_path cs) (\<lambda>ps. Inr (fold set_add ps [])))"

definition dict_items :: "pyval \<Rightarrow> pyval list result" where
  "dict_items v = (case v of PDict d \<Rightarrow> Inr (dict_values d)
     | _ \<Rightarrow> Inl (AttributeError (CHR 0x27 # type_name v @ [CHR 0x27] @ '' object has no attribute values'')))"

definition iterate :: "pyval \<Rightarrow> pyval list result" where
  "iterate v = (case v of
      PList xs \<Rightarrow> Inr xs
    | PStr s \<Rightarrow> Inr (map (\<lambda>c. PStr [c]) s)
    | PDict d \<Rightarrow> Inr (map PStr (dict_keys d))
    | _ \<Rightarrow> Inl (TypeError (CHR 0x27 # type_name v @ [CHR 0x27] @ '' object is not iterable'')))"

definition count_block :: "pyval \<Rightarrow> nat result" where
  "count_block block = rbind (py_get block ''statelessInputBytes'') (\<lambda>v.
     Inr (case v of PStr _ \<Rightarrow> 1 | _ \<Rightarrow> 0))"

definition count_fixture :: "pyval \<Rightarrow> nat result" where
  "count_fixture fixture = rbind (py_get_default fixture ''blocks'' (PList [])) (\<lambda>blocks.
     rbind (iterate blocks) (\<lambda>bs. rbind (rmap count_block bs) (\<lambda>ns. Inr (sum_list ns))))"

definition count_document :: "pyval \<Rightarrow> nat result" where
  "count_document doc = rbind (dict_items doc) (\<lambda>fixtures.
     rbind (rmap count_fixture fixtures) (\<lambda>ns. Inr (sum_list ns)))"

definition count_file :: "source_env \<Rightarrow> path \<Rightarrow> string \<Rightarrow> nat io" where
  "count_file env root relative =
     bnd (read_file (path_join root relative)) (\<lambda>content.
     bnd (lift (s_loads env content)) (\<lambda>doc. lift (count_document doc)))"

definition count_stateless_blocks :: "source_env \<Rightarrow> path \<Rightarrow> pyval list \<Rightarrow> (nat \<times> nat) io" where
  "count_stateless_blocks env root test_cases =
     bnd (lift (case_paths test_cases)) (\<lambda>paths.
     bnd (io_map (count_file env root) paths) (\<lambda>ns. ret (length paths, sum_list ns)))"

text \<open>\<^verbatim>\<open>"To" not in fork\<close>: a substring test on a string, membership otherwise.\<close>

definition has_substring :: "string \<Rightarrow> string \<Rightarrow> bool" where
  "has_substring sub s = (\<exists>t\<in>set (suffixes s). startswith t sub)"

definition fork_names :: "pyval list \<Rightarrow> string list result" where
  "fork_names forks = rmap (\<lambda>f. case f of PStr s \<Rightarrow> Inr s
     | _ \<Rightarrow> Inl (TypeError (''argument of type '' @ type_name f @ '' is not iterable''))) forks"

definition release_forks :: "pyval list \<Rightarrow> string list result" where
  "release_forks forks = rbind (fork_names forks) (\<lambda>fs. Inr (filter (\<lambda>f. \<not> has_substring ''To'' f) fs))"

definition source_manifest :: "fixtures_source \<Rightarrow> path \<Rightarrow> string \<Rightarrow> string \<Rightarrow> string list \<Rightarrow> nat \<Rightarrow> nat \<Rightarrow> nat \<Rightarrow> pyval" where
  "source_manifest source root root_hash commit forks files indexed blocks = PDict
     [(''schema_version'', PInt 1), (''mode'', PStr ''tests-zkevm''), (''id'', PStr (resolved_id source)),
      (''corpus_digest'', PStr root_hash), (''fixture_release'', PStr (resolved_id source)),
      (''network'', PStr (if join '','' forks = [] then ''unknown'' else join '','' forks)),
      (''source_commit'', PStr commit), (''source_url'', source_url source),
      (''release_page'', PStr (release_page source)), (''fixture_root'', PStr (path_str root)),
      (''fixture_roots'', PList [PStr (path_str (root @ [''blockchain_tests'']))]),
      (''fixture_files'', PInt (int files)), (''indexed_tests'', PInt (int indexed)),
      (''fixture_count'', PInt (int blocks))]"

definition check_root_hash :: "path \<Rightarrow> pyval \<Rightarrow> string result" where
  "check_root_hash index_path h = (case h of
      PStr s \<Rightarrow> if startswith s ''0x'' then Inr s
        else Inl (SystemExit (''fixture index has no root hash: '' @ path_str index_path))
    | _ \<Rightarrow> Inl (SystemExit (''fixture index has no root hash: '' @ path_str index_path)))"

definition source_main :: "source_env \<Rightarrow> fixtures_source \<Rightarrow> path \<Rightarrow> unit io" where
  "source_main env source manifest =
     (let root = path_resolve (s_cwd env) (source_path source);
          index_path = root @ [''.meta'', ''index.json'']; properties_path = root @ [''.meta'', ''fixtures.ini''];
          blockchain_root = root @ [''blockchain_tests''] in
     bnd get_files (\<lambda>fs.
     io_raise_if (\<not> is_file fs index_path \<or> \<not> is_dir fs blockchain_root)
       (SystemExit (''not a blockchain fixture corpus: '' @ path_str root)) (
     bnd (read_file index_path) (\<lambda>content.
     bnd (lift (s_loads env content)) (\<lambda>index.
     bnd (lift (rbind (py_get index ''root_hash'') (check_root_hash index_path))) (\<lambda>root_hash.
     bnd (lift (rbind (py_get_default index ''test_cases'' (PList [])) iterate)) (\<lambda>test_cases.
     bnd (count_stateless_blocks env root test_cases) (\<lambda>(files, blocks).
     bnd (lift (select_cases test_cases)) (\<lambda>indexed.
     bnd (lift (rbind (py_get_default index ''forks'' (PList [])) (\<lambda>f. rbind (iterate f) release_forks))) (\<lambda>forks.
     bnd (mkdir_parents (path_parent manifest)) (\<lambda>_.
       write_file manifest (json_indent (source_manifest source root root_hash (s_ini_commit env fs properties_path)
         forks files (length indexed) blocks) 0 @ [newline])))))))))))) "

section \<open>The fill launcher\<close>

text \<open>
  \<^verbatim>\<open>fill.py\<close>: the program that replaces the process and its argument vector, from \<^verbatim>\<open>sys.argv[1:]\<close>.
\<close>

definition default_selectors :: "string list \<Rightarrow> string list" where
  "default_selectors command = (if ''--evmz-diff-output'' \<in> set command then [''tests'']
     else [''--fork'', ''Shanghai'', ''tests/shanghai/eip3855_push0/test_push0.py'', ''-k'', ''key_sstore''])"

definition fill :: "string list \<Rightarrow> (string \<times> string list) result" where
  "fill args =
     rbind (py_index args ''--'') (\<lambda>separator.
     let command = take separator args;
         selectors = (if drop (Suc separator) args = [] then default_selectors command else drop (Suc separator) args)
     in rbind (py_first command) (\<lambda>program. Inr (program, command @ selectors)))"

section \<open>The transition tool\<close>

definition supported_forks :: "string list" where
  "supported_forks = [''Merge'', ''Paris'', ''Shanghai'', ''Cancun'', ''Prague'', ''Osaka'', ''Amsterdam'']"

definition is_fork_supported :: "string \<Rightarrow> bool" where
  "is_fork_supported transition_tool_name = (transition_tool_name \<in> set supported_forks)"

record t8n_data =
  t8n_fork_name :: string
  t8n_chain_id :: int
  t8n_reward :: int
  t8n_state_test :: bool
  t8n_to_files :: "path \<Rightarrow> files \<Rightarrow> (string, string) dict result \<times> files"

text \<open>The framework: the subprocess, the fork names it maps, and the validation of the output directory.\<close>

record 'o t8n_env =
  x_run :: runner
  x_fork_name_map :: "(string, string) dict"
  x_validate :: "path \<Rightarrow> files \<Rightarrow> 'o result"
  x_is_lazy :: "'o \<Rightarrow> bool"

definition input_args :: "(string, string) dict \<Rightarrow> string \<Rightarrow> string list result" where
  "input_args inputs name = rbind (dict_index str_repr inputs name) (\<lambda>p. Inr [''--input.'' @ name, p])"

definition t8n_args :: "'o t8n_env \<Rightarrow> string \<Rightarrow> bool \<Rightarrow> t8n_data \<Rightarrow> path \<Rightarrow> (string, string) dict \<Rightarrow> string list result" where
  "t8n_args env binary trace data directory inputs =
     rbind (rmap (input_args inputs) [''alloc'', ''env'', ''txs'']) (\<lambda>ins.
       Inr ([binary, ''t8n''] @ concat ins @
         [''--state.fork'', (case dict_get (x_fork_name_map env) (t8n_fork_name data) of
             None \<Rightarrow> t8n_fork_name data | Some f \<Rightarrow> f),
          ''--state.chainid'', show_int (t8n_chain_id data),
          ''--state.reward'', show_int (t8n_reward data),
          ''--output.basedir'', path_str directory,
          ''--output.alloc'', ''output/alloc.json'',
          ''--output.result'', ''output/result.json'',
          ''--output.body'', ''output/txs.rlp''] @
         (if t8n_state_test data then [''--state-test''] else []) @
         (if trace then [''--trace''] else [])))"

text \<open>\<^verbatim>\<open>shutil.rmtree\<close> of a path that exists: a plain file is a \<^verbatim>\<open>NotADirectoryError\<close>.\<close>

definition rmtree :: "path \<Rightarrow> unit io" where
  "rmtree p = bnd get_files (\<lambda>fs.
     if is_dir fs p then set_files (filter (\<lambda>(q, _). \<not> prefix p q) fs) else raise (OSError (path_str p)))"

text \<open>\<^verbatim>\<open>shutil.copytree\<close> into a directory that does not exist.\<close>

definition copytree :: "path \<Rightarrow> path \<Rightarrow> unit io" where
  "copytree src dst =
     bnd (mkdir_parents dst) (\<lambda>_.
     bnd get_files (\<lambda>fs.
       set_files (fold (\<lambda>(q, n) acc. dict_set acc (dst @ drop (length src) q) n)
         (filter (\<lambda>(q, _). strict_prefix src q) fs) fs)))"

definition replay_args :: "path \<Rightarrow> path \<Rightarrow> string list \<Rightarrow> string list" where
  "replay_args directory debug args = map (str_replace (path_str directory) (path_str debug)) args"

definition replay_script :: "string list \<Rightarrow> string" where
  "replay_script args = ''#!/bin/sh'' @ [newline] @ shlex_join args @ [newline]"

text \<open>Lines 100--110.\<close>

definition dump_t8n :: "path \<Rightarrow> path \<Rightarrow> string list \<Rightarrow> completed \<Rightarrow> unit io" where
  "dump_t8n directory debug args c =
     bnd get_files (\<lambda>fs.
     bnd (if path_exists fs debug then rmtree debug else ret ()) (\<lambda>_.
     bnd (copytree directory debug) (\<lambda>_.
     bnd (write_file (debug @ [''args.py'']) (json_indent (PList (map PStr (replay_args directory debug args))) 0)) (\<lambda>_.
     bnd (write_file (debug @ [''t8n.sh'']) (replay_script (replay_args directory debug args))) (\<lambda>_.
     bnd (write_file (debug @ [''returncode.txt'']) (show_int (returncode c))) (\<lambda>_.
     bnd (write_file (debug @ [''stdout.txt'']) (run_stdout c)) (\<lambda>_.
       write_file (debug @ [''stderr.txt'']) (run_stderr c))))))))"

definition write_inputs :: "t8n_data \<Rightarrow> path \<Rightarrow> (string, string) dict io" where
  "write_inputs data directory w = (case t8n_to_files data (directory @ [''input'']) (world_files w) of
     (r, fs) \<Rightarrow> (r, w\<lparr>world_files := fs\<rparr>))"

text \<open>
  \<^verbatim>\<open>_evaluate_filesystem\<close>: the output, and the directory it keeps alive when its allocation is lazy.
  The name of the temporary directory is a parameter.
\<close>

definition evaluate_filesystem :: "'o t8n_env \<Rightarrow> string \<Rightarrow> bool \<Rightarrow> t8n_data \<Rightarrow> path \<Rightarrow> path option \<Rightarrow> ('o \<times> path option) io" where
  "evaluate_filesystem env binary trace data directory debug =
     bnd (mkdir directory) (\<lambda>_.
     bnd (mkdir (directory @ [''input''])) (\<lambda>_.
     bnd (mkdir (directory @ [''output''])) (\<lambda>_.
     bnd (write_inputs data directory) (\<lambda>inputs.
     bnd (lift (t8n_args env binary trace data directory inputs)) (\<lambda>args.
     bnd (run_process (x_run env) args) (\<lambda>c.
     bnd (case debug of None \<Rightarrow> ret () | Some d \<Rightarrow> dump_t8n directory d args c) (\<lambda>_.
     io_raise_if (returncode c \<noteq> 0) (RuntimeError (''evmz t8n failed: '' @ run_stderr c)) (
     bnd get_files (\<lambda>fs.
     bnd (lift (x_validate env (directory @ [''output'']) fs)) (\<lambda>out.
       ret (out, if x_is_lazy env out then Some directory else None)))))))))))"

section \<open>Facts\<close>

text \<open>Counting is defined by a comprehension in one pass over well-formed documents.\<close>

lemma select_cases_Inr:
  "select_cases cs = Inr sel \<Longrightarrow> sel = filter (\<lambda>c. is_blockchain_case c = Inr True) cs \<and>
     (\<forall>c\<in>set cs. \<exists>b. is_blockchain_case c = Inr b)"
  by (induction cs arbitrary: sel) (fastforce simp: result_simps)+

lemma fold_set_add: "distinct acc \<Longrightarrow> distinct (fold set_add xs acc) \<and> set (fold set_add xs acc) = set acc \<union> set xs"
  by (induction xs arbitrary: acc) auto

lemma case_paths_Inr:
  assumes "case_paths cs = Inr ps"
  shows "\<exists>sel. select_cases cs = Inr sel \<and> distinct ps \<and> set ps = {p. \<exists>c\<in>set sel. case_path c = Inr p} \<and>
    length ps \<le> length sel"
proof -
  from assms obtain sel qs where sel: "select_cases cs = Inr sel" and qs: "rmap case_path sel = Inr qs"
    and ps: "ps = fold set_add qs []" by (auto simp: case_paths_def result_simps)
  have d: "distinct ps" and s: "set ps = set qs" using fold_set_add [of "[]" qs] ps by auto
  have "length ps = card (set qs)" using d s by (metis distinct_card)
  also have "\<dots> \<le> length sel" using card_length [of qs] rmap_length [OF qs] by simp
  finally show ?thesis using sel d s rmap_set [OF qs] by auto
qed

lemma count_block_Inr: "count_block b = Inr n \<Longrightarrow>
    n = (if \<exists>d s. b = PDict d \<and> dict_get d ''statelessInputBytes'' = Some (PStr s) then 1 else 0)"
  by (auto simp: count_block_def result_simps value_simps split: option.splits pyval.splits)

lemma rmap_count:
  assumes "rmap f xs = Inr ns" and "\<And>x n. f x = Inr n \<Longrightarrow> n = g x"
  shows "sum_list ns = (\<Sum>x\<leftarrow>xs. g x)"
  using assms by (induction xs arbitrary: ns) (auto simp: result_simps)

lemma run_t8n_logged:
  assumes "evaluate_filesystem env binary trace data directory debug w = (Inr (out, keep), w')"
  obtains inputs args c fs fs' where "t8n_args env binary trace data directory inputs = Inr args"
    and "x_run env args fs = (Inr c, fs')" and "returncode c = 0"
    and "world_commands w' = world_commands w @ [args]"
    and "x_validate env (directory @ [''output'']) (world_files w') = Inr out"
    and "keep = (if x_is_lazy env out then Some directory else None)"
proof -
  let ?D = "\<lambda>args c. case debug of None \<Rightarrow> ret () | Some d \<Rightarrow> dump_t8n directory d args c"
  have q: "quiet.keeps (?D args c)" for args c
    by (auto simp: dump_t8n_def copytree_def rmtree_def split: option.splits
        intro!: quiet.keeps_intros quiet_file_ops quiet_set_files)
  from assms obtain v1 v2 v3 v4 inputs args c v5 where
    m: "mkdir directory w = (Inr (), v1)" "mkdir (directory @ [''input'']) v1 = (Inr (), v2)"
      "mkdir (directory @ [''output'']) v2 = (Inr (), v3)" "write_inputs data directory v3 = (Inr inputs, v4)"
    and args: "t8n_args env binary trace data directory inputs = Inr args"
    and run: "run_process (x_run env) args v4 = (Inr c, v5)" and dump: "?D args c v5 = (Inr (), w')"
    and rc: "returncode c = 0" and val: "x_validate env (directory @ [''output'']) (world_files w') = Inr out"
    and keep: "keep = (if x_is_lazy env out then Some directory else None)"
    unfolding evaluate_filesystem_def by (auto simp: bnd_Inr_iff lift_Inr_iff io_raise_if_Inr_iff)
  have "world_commands v4 = world_commands w"
    using m by (auto simp: mkdir_Inr_iff write_inputs_def split: prod.splits)
  moreover have "world_commands w' = world_commands v5"
    using quiet.keepsD [OF q dump] by (simp add: same_log_def)
  ultimately have log: "world_commands w' = world_commands w @ [args]"
    and x: "\<exists>fs fs'. x_run env args fs = (Inr c, fs')" using run by (auto simp: run_process_eq)
  from x that [OF args _ rc log val keep] show thesis by blast
qed

lemma fill_split:
  assumes "''--'' \<notin> set command" and "command \<noteq> []"
  shows "fill (command @ ''--'' # selectors) =
    Inr (hd command, command @ (if selectors = [] then default_selectors command else selectors))"
proof -
  have "py_index (command @ ''--'' # selectors) ''--'' = Inr (length command)"
    using assms(1) by (induction command) auto
  then show ?thesis using assms(2) by (cases command) (auto simp: fill_def py_first_def Let_def)
qed

lemma fill_no_separator: "''--'' \<notin> set args \<Longrightarrow> fill args = Inl (ValueError ''not in list'')"
proof -
  assume "''--'' \<notin> set args"
  then have "py_index args ''--'' = Inl (ValueError ''not in list'')" by (induction args) auto
  then show ?thesis by (simp add: fill_def)
qed


end
