(* ===== verification/Eest_Properties.thy ===== *)
theory Eest_Properties
  imports Eest_Tools
begin

text \<open>
  The properties of the fixture source resolver, the transition-tool adapter and the fill launcher.
\<close>

section \<open>Counting the corpus\<close>

text \<open>The blocks of a fixture document, and which of them carry a stateless input.\<close>

definition fixture_blocks :: "pyval \<Rightarrow> pyval list" where
  "fixture_blocks f = (case py_get_default f ''blocks'' (PList []) of Inr (PList bs) \<Rightarrow> bs | _ \<Rightarrow> [])"

definition document_blocks :: "pyval \<Rightarrow> pyval list" where
  "document_blocks doc = (case doc of PDict d \<Rightarrow> concat (map fixture_blocks (dict_values d)) | _ \<Rightarrow> [])"

definition has_stateless_input :: "pyval \<Rightarrow> bool" where
  "has_stateless_input b = (case b of
      PDict d \<Rightarrow> (case dict_get d ''statelessInputBytes'' of Some (PStr _) \<Rightarrow> True | _ \<Rightarrow> False) | _ \<Rightarrow> False)"

lemma sum_indicator: "(\<Sum>x\<leftarrow>xs. if P x then 1 else 0) = length (filter P xs)" for P :: "'a \<Rightarrow> bool"
  by (induction xs) auto

lemma count_fixture_eq: "count_fixture f = Inr n \<Longrightarrow> n = length (filter has_stateless_input (fixture_blocks f))"
proof -
  assume "count_fixture f = Inr n"
  then obtain v bs ns where v: "py_get_default f ''blocks'' (PList []) = Inr v" and bs: "iterate v = Inr bs"
    and ns: "rmap count_block bs = Inr ns" and n: "n = sum_list ns"
    unfolding count_fixture_def rbind_Inr_iff by blast
  have stateless: "has_stateless_input b \<longleftrightarrow> (\<exists>d s. b = PDict d \<and> dict_get d ''statelessInputBytes'' = Some (PStr s))" for b
    by (auto simp: has_stateless_input_def split: pyval.splits option.splits)
  have "m = (if has_stateless_input b then 1 else 0)" if "count_block b = Inr m" for b m
    using count_block_Inr [OF that] by (simp add: stateless)
  from rmap_count [OF ns this] have "sum_list ns = length (filter has_stateless_input bs)"
    by (simp add: sum_indicator)
  moreover have "fixture_blocks f = bs"
  proof (cases v)
    case (PList xs)
    then show ?thesis using v bs by (simp add: fixture_blocks_def iterate_def)
  next
    case (PStr s)
    then have "bs = []" using bs ns
      by (cases s) (auto simp: iterate_def rbind_Inr_iff count_block_def py_get_default_def)
    with PStr v show ?thesis by (simp add: fixture_blocks_def)
  next
    case (PDict d)
    then have "bs = []" using bs ns
      by (cases d) (auto simp: iterate_def rbind_Inr_iff count_block_def py_get_default_def)
    with PDict v show ?thesis by (simp add: fixture_blocks_def)
  qed (use bs in \<open>simp_all add: iterate_def\<close>)
  ultimately show ?thesis using n by simp
qed

lemma count_document_eq: "count_document doc = Inr n \<Longrightarrow> n = length (filter has_stateless_input (document_blocks doc))"
proof -
  assume "count_document doc = Inr n"
  then obtain d ns where doc: "doc = PDict d" and ns: "rmap count_fixture (dict_values d) = Inr ns" and n: "n = sum_list ns"
    unfolding count_document_def rbind_Inr_iff dict_items_def by (auto split: pyval.splits)
  from rmap_count [OF ns count_fixture_eq] n show ?thesis
    by (simp add: doc document_blocks_def filter_concat length_concat comp_def)
qed

lemma count_file_eq:
  assumes "count_file env root p w = (Inr n, w')"
  shows "w' = w \<and> (\<exists>content doc. dict_get (world_files w) (path_join root p) = Some (FileNode content) \<and>
    s_loads env content = Inr doc \<and> n = length (filter has_stateless_input (document_blocks doc)))"
  using assms count_document_eq by (auto simp: count_file_def bnd_Inr_iff lift_Inr_iff read_file_Inr_iff)

lemma count_files_eq:
  assumes "io_map (count_file env root) ps w = (Inr ns, w')"
  shows "w' = w \<and> list_all2 (\<lambda>p n. \<exists>content doc. dict_get (world_files w) (path_join root p) = Some (FileNode content) \<and>
    s_loads env content = Inr doc \<and> n = length (filter has_stateless_input (document_blocks doc))) ps ns"
  using assms
proof (induction ps arbitrary: ns)
  case (Cons p ps)
  then obtain n v ms where "count_file env root p w = (Inr n, v)" and "io_map (count_file env root) ps v = (Inr ms, w')"
    and "ns = n # ms" by (auto simp: bnd_Inr_iff)
  with count_file_eq [OF this(1)] Cons.IH show ?case by auto
qed simp

text \<open>
  The corpus counts are exact. The number of files is the number of distinct paths of the indexed
  blockchain tests, at most the number of those tests; the number of blocks is the number of blocks
  with a stateless input string in the decoded documents of these files, each file counted once; and
  nothing is written.
\<close>

theorem corpus_counts_exact:
  assumes "count_stateless_blocks env root test_cases w = (Inr (files, blocks), w')"
  shows "w' = w \<and> (\<exists>paths counts. distinct paths \<and> files = length paths \<and> blocks = sum_list counts \<and>
    set paths = {p. \<exists>c\<in>set test_cases. is_blockchain_case c = Inr True \<and> case_path c = Inr p} \<and>
    length paths \<le> length (filter (\<lambda>c. is_blockchain_case c = Inr True) test_cases) \<and>
    list_all2 (\<lambda>p n. \<exists>content doc. dict_get (world_files w) (path_join root p) = Some (FileNode content) \<and>
      s_loads env content = Inr doc \<and> n = length (filter has_stateless_input (document_blocks doc))) paths counts)"
proof -
  from assms obtain paths counts where paths: "case_paths test_cases = Inr paths"
    and counts: "io_map (count_file env root) paths w = (Inr counts, w')"
    and out: "files = length paths" "blocks = sum_list counts"
    by (auto simp: count_stateless_blocks_def bnd_Inr_iff lift_Inr_iff)
  from case_paths_Inr [OF paths] obtain sel where sel: "select_cases test_cases = Inr sel" and d: "distinct paths"
    "set paths = {p. \<exists>c\<in>set sel. case_path c = Inr p}" "length paths \<le> length sel" by blast
  have "sel = filter (\<lambda>c. is_blockchain_case c = Inr True) test_cases" using select_cases_Inr [OF sel] by blast
  with d have "set paths = {p. \<exists>c\<in>set test_cases. is_blockchain_case c = Inr True \<and> case_path c = Inr p}"
    and "length paths \<le> length (filter (\<lambda>c. is_blockchain_case c = Inr True) test_cases)" by auto
  with d(1) out count_files_eq [OF counts] show ?thesis by blast
qed

definition sample_source_env :: source_env where
  "sample_source_env = \<lparr>s_loads = (\<lambda>_. Inr (PDict [(''t'', PDict [(''blocks'', PList
     [PDict [(''statelessInputBytes'', PStr ''0x00'')], PDict []])])])), s_ini_commit = (\<lambda>_ _. []), s_cwd = [''/'']\<rparr>"

definition sample_cases :: "pyval list" where
  "sample_cases = [PDict [(''format'', PStr ''blockchain_test''), (''json_path'', PStr ''a.json'')],
     PDict [(''format'', PStr ''blockchain_test''), (''json_path'', PStr ''a.json'')], PDict [(''format'', PStr ''state_test'')]]"

definition sample_corpus :: world where
  "sample_corpus = \<lparr>world_files = [([''/'', ''c'', ''a.json''], FileNode ''{}'')], world_commands = []\<rparr>"

theorem corpus_counts_exact_witness:
  "\<exists>paths :: string list. distinct paths \<and> 1 = length paths"
proof -
  have "count_stateless_blocks sample_source_env [''/'', ''c''] sample_cases sample_corpus = (Inr (1, 1), sample_corpus)"
    by code_simp
  from corpus_counts_exact [OF this] show ?thesis by blast
qed

section \<open>The transition tool\<close>

text \<open>
  A returned output is the validated result of one successful run. The adapter starts exactly one
  program, with the argument vector built from the inputs; it exited with 0, the output is the
  validation of the directory the run left, and the temporary directory is kept exactly when the
  allocation is lazy.
\<close>

theorem t8n_output_validated:
  assumes "evaluate_filesystem env binary trace data directory debug w = (Inr (out, keep), w')"
  shows "\<exists>inputs args c fs fs'. t8n_args env binary trace data directory inputs = Inr args \<and>
    world_commands w' = world_commands w @ [args] \<and> x_run env args fs = (Inr c, fs') \<and> returncode c = 0 \<and>
    x_validate env (directory @ [''output'']) (world_files w') = Inr out \<and>
    keep = (if x_is_lazy env out then Some directory else None)"
  using assms by (rule run_t8n_logged) blast

definition sample_t8n_env :: "string t8n_env" where
  "sample_t8n_env = \<lparr>x_run = (\<lambda>_ fs. (Inr \<lparr>returncode = 0, run_stdout = [], run_stderr = []\<rparr>, fs)), x_fork_name_map = [],
     x_validate = (\<lambda>_ _. Inr ''output''), x_is_lazy = (\<lambda>_. True)\<rparr>"

definition sample_t8n_data :: t8n_data where
  "sample_t8n_data = \<lparr>t8n_fork_name = ''Osaka'', t8n_chain_id = 1, t8n_reward = 0, t8n_state_test = True,
     t8n_to_files = (\<lambda>p fs. (Inr [(''alloc'', ''a''), (''env'', ''e''), (''txs'', ''t'')], fs))\<rparr>"

definition sample_t8n_world :: world where
  "sample_t8n_world = \<lparr>world_files = [([''/'', ''tmp''], DirNode)], world_commands = []\<rparr>"

theorem t8n_output_validated_witness:
  "\<exists>w' args. evaluate_filesystem sample_t8n_env ''evmz'' False sample_t8n_data [''/'', ''tmp'', ''d''] (Some [''/'', ''tmp'', ''g''])
      sample_t8n_world = (Inr (''output'', Some [''/'', ''tmp'', ''d'']), w') \<and> world_commands w' = [args]"
proof -
  let ?run = "evaluate_filesystem sample_t8n_env ''evmz'' False sample_t8n_data [''/'', ''tmp'', ''d''] (Some [''/'', ''tmp'', ''g''])
      sample_t8n_world"
  have "fst ?run = Inr (''output'', Some [''/'', ''tmp'', ''d''])" by code_simp
  then obtain w' where run: "?run = (Inr (''output'', Some [''/'', ''tmp'', ''d'']), w')" by (metis prod.collapse)
  from t8n_output_validated [OF run] run show ?thesis by (auto simp: sample_t8n_world_def)
qed

text \<open>
  C29: The preserved script replays the run. After a debug dump the script file is there, and a POSIX
  shell reads its command line as exactly the argument vector of the run with the temporary
  directory replaced by the preserved one.
\<close>

theorem replay_script_exact:
  assumes "dump_t8n directory debug args c w = (Inr u, w')"
  shows "\<exists>line. dict_get (world_files w') (debug @ [''t8n.sh'']) =
      Some (FileNode (''#!/bin/sh'' @ [newline] @ line @ [newline])) \<and>
    sh_split line = Some (map (str_replace (path_str directory) (path_str debug)) args)"
proof -
  let ?script = "replay_script (replay_args directory debug args)"
  let ?q = "debug @ [''t8n.sh'']"
  from assms obtain v1 v2 v3 v4 x y z where sh: "write_file ?q ?script v1 = (Inr x, v2)"
    and rest: "write_file (debug @ [''returncode.txt'']) (show_int (returncode c)) v2 = (Inr y, v3)"
      "write_file (debug @ [''stdout.txt'']) (run_stdout c) v3 = (Inr z, v4)"
      "write_file (debug @ [''stderr.txt'']) (run_stderr c) v4 = (Inr u, w')"
    unfolding dump_t8n_def bnd_Inr_iff bnd_get_files by blast
  have "file_kept ?q v2 v3" and "file_kept ?q v3 v4" and "file_kept ?q v4 w'"
    by (rule kept.keepsD [OF kept_write_file rest(1)], simp) (rule kept.keepsD [OF kept_write_file rest(2)], simp,
        rule kept.keepsD [OF kept_write_file rest(3)], simp)
  then have "file_kept ?q v2 w'" using kept.R_trans by blast
  moreover have "dict_get (world_files v2) ?q = Some (FileNode ?script)"
    using sh by (auto simp: write_file_Inr_iff dict_simps)
  ultimately have "dict_get (world_files w') ?q = Some (FileNode ?script)" by (simp add: file_kept_def)
  moreover have "sh_split (shlex_join (replay_args directory debug args)) = Some (replay_args directory debug args)"
    unfolding shlex_join_def by (rule shlex.split_join)
  ultimately show ?thesis
    by (intro exI [of _ "shlex_join (replay_args directory debug args)"])
       (simp add: replay_script_def replay_args_def)
qed

theorem replay_script_exact_witness:
  "\<exists>line. sh_split line = Some [''it'' @ [CHR 0x27] @ ''s'', ''/keep/x'']"
proof -
  let ?w = "sample_t8n_world\<lparr>world_files := [([''/'', ''tmp''], DirNode)]\<rparr>"
  let ?dump = "dump_t8n [''/'', ''tmp''] [''/'', ''keep''] [''it'' @ [CHR 0x27] @ ''s'', ''/tmp/x'']
    \<lparr>returncode = 0, run_stdout = [], run_stderr = []\<rparr> ?w"
  have "isl (fst ?dump) = False" by code_simp
  then obtain u where "fst ?dump = Inr u" by (cases "fst ?dump") auto
  then obtain w' where "?dump = (Inr u, w')" by (metis prod.collapse)
  from replay_script_exact [OF this] obtain line where
    "sh_split line = Some (map (str_replace (path_str [''/'', ''tmp'']) (path_str [''/'', ''keep'']))
      [''it'' @ [CHR 0x27] @ ''s'', ''/tmp/x''])" by blast
  moreover have "map (str_replace (path_str [''/'', ''tmp'']) (path_str [''/'', ''keep''])) [''it'' @ [CHR 0x27] @ ''s'', ''/tmp/x'']
      = [''it'' @ [CHR 0x27] @ ''s'', ''/keep/x'']" by code_simp
  ultimately show ?thesis by auto
qed

section \<open>The fill launcher\<close>

text \<open>
  The launcher replaces only missing selectors. With a separator after a command, the program is
  the first word of the command and its argument vector is the command followed by the given
  selectors, or by the bounded defaults when none are given; without a separator nothing is
  executed.
\<close>

theorem fill_argv_exact:
  "(\<forall>command selectors. ''--'' \<notin> set command \<longrightarrow> command \<noteq> [] \<longrightarrow> fill (command @ ''--'' # selectors) =
      Inr (hd command, command @ (if selectors = [] then default_selectors command else selectors))) \<and>
   (''--'' \<notin> set args \<longrightarrow> fill args = Inl (ValueError ''not in list''))"
  using fill_split fill_no_separator by blast

theorem fill_argv_exact_witness:
  "fill [''uv'', ''run'', ''fill'', ''--'', ''tests/osaka''] = Inr (''uv'', [''uv'', ''run'', ''fill'', ''tests/osaka''])"
proof -
  have "''--'' \<notin> set [''uv'', ''run'', ''fill'']" and "[''uv'', ''run'', ''fill''] \<noteq> []" by simp_all
  from fill_argv_exact [THEN conjunct1, rule_format, OF this, of "[''tests/osaka'']"] show ?thesis by simp
qed

end
