(* ===== verification/Bench_Text.thy ===== *)
theory Bench_Text
  imports Complex_Main Py_World Shell
begin

text \<open>
  The text layer of the benchmark report \<^verbatim>\<open>bench/scripts/report.py\<close>: key-value lines, CSV text,
  tool versions, number formatting, medians and Markdown tables. Rounding arithmetic on doubles,
  reading and formatting them are operations of a record; comparison is exact. A conversion of an
  integer gives \<open>None\<close> where Python raises \<^verbatim>\<open>OverflowError\<close> because the result is no double.
  The limit of \<^verbatim>\<open>csv\<close> on the size of a field is left out.
\<close>

section \<open>Floating point\<close>

record float_ops =
  fl_parse :: "string \<Rightarrow> pyfloat option"
  fl_of_int :: "int \<Rightarrow> pyfloat option"
  fl_int_div :: "int \<Rightarrow> int \<Rightarrow> pyfloat option"
  fl_add :: "pyfloat \<Rightarrow> pyfloat \<Rightarrow> pyfloat"
  fl_sub :: "pyfloat \<Rightarrow> pyfloat \<Rightarrow> pyfloat"
  fl_mul :: "pyfloat \<Rightarrow> pyfloat \<Rightarrow> pyfloat"
  fl_div :: "pyfloat \<Rightarrow> pyfloat \<Rightarrow> pyfloat"
  fl_fmt :: "nat \<Rightarrow> pyfloat \<Rightarrow> string"

text \<open>\<^verbatim>\<open>a < b\<close>: exact on finite values, false when a NaN is involved.\<close>

fun pf_less :: "pyfloat \<Rightarrow> pyfloat \<Rightarrow> bool" where
  "pf_less (Finite m e r) (Finite m' e' r') =
     (let k = min e e' in m * 2 ^ nat (e - k) < m' * 2 ^ nat (e' - k))"
| "pf_less (Infinite neg) (Finite m e r) = neg"
| "pf_less (Finite m e r) (Infinite neg) = (\<not> neg)"
| "pf_less (Infinite neg) (Infinite neg') = (neg \<and> \<not> neg')"
| "pf_less _ _ = False"

definition pf_nonneg :: "pyfloat \<Rightarrow> bool" where
  "pf_nonneg f = (case f of Finite m e r \<Rightarrow> 0 \<le> m | Infinite neg \<Rightarrow> \<not> neg | NaN \<Rightarrow> False)"

text \<open>\<^verbatim>\<open>bool(f)\<close>: everything but zero.\<close>

definition pf_true :: "pyfloat \<Rightarrow> bool" where
  "pf_true f = (case f of Finite m e r \<Rightarrow> m \<noteq> 0 | _ \<Rightarrow> True)"

section \<open>Sorting by a comparison\<close>

text \<open>
  \<^verbatim>\<open>sorted\<close> with a comparison: an element goes in front of the first one it is less than. On a
  strict weak order this is the stable sort; where a NaN breaks the order, the outcome of Python's
  sort is an implementation detail and not claimed.
\<close>

fun insert_by :: "('a \<Rightarrow> 'a \<Rightarrow> bool) \<Rightarrow> 'a \<Rightarrow> 'a list \<Rightarrow> 'a list" where
  "insert_by lt x [] = [x]"
| "insert_by lt x (y # ys) = (if lt x y then x # y # ys else y # insert_by lt x ys)"

definition sort_by :: "('a \<Rightarrow> 'a \<Rightarrow> bool) \<Rightarrow> 'a list \<Rightarrow> 'a list" where
  "sort_by lt xs = fold (insert_by lt) xs []"

section \<open>Numbers in rows\<close>

definition is_unknown :: "pyval \<Rightarrow> bool" where
  "is_unknown v = (v = PNone \<or> py_eq v (PStr []) \<or> py_eq v (PStr ''unknown''))"

definition int_value :: "pyval \<Rightarrow> int option result" where
  "int_value v = (if is_unknown v then Inr None else rbind (py_int v) (\<lambda>n. Inr (Some n)))"

fun py_float :: "float_ops \<Rightarrow> pyval \<Rightarrow> pyfloat result" where
  "py_float fl (PFloat f) = Inr f"
| "py_float fl (PInt n) = (case fl_of_int fl n of
      Some f \<Rightarrow> Inr f | None \<Rightarrow> Inl (OverflowError ''int too large to convert to float''))"
| "py_float fl (PBool b) = Inr (if b then Finite 1 0 ''1.0'' else Finite 0 0 ''0.0'')"
| "py_float fl (PStr s) = (case fl_parse fl s of
      Some f \<Rightarrow> Inr f | None \<Rightarrow> Inl (ValueError (''could not convert string to float: '' @ str_repr s)))"
| "py_float fl v = Inl (TypeError (''float() argument must be a string or a real number, not '' @ type_name v))"

definition float_value :: "float_ops \<Rightarrow> pyval \<Rightarrow> pyfloat option result" where
  "float_value fl v = (if is_unknown v then Inr None else rbind (py_float fl v) (\<lambda>f. Inr (Some f)))"

definition fmt_int :: "pyval \<Rightarrow> string result" where
  "fmt_int v = rbind (int_value v) (\<lambda>p. Inr (case p of None \<Rightarrow> ''-'' | Some n \<Rightarrow> show_int n))"

definition fmt_float :: "float_ops \<Rightarrow> pyval \<Rightarrow> nat \<Rightarrow> string result" where
  "fmt_float fl v digits = rbind (float_value fl v) (\<lambda>p. Inr (case p of None \<Rightarrow> ''-'' | Some f \<Rightarrow> fl_fmt fl digits f))"

definition fmt_ratio :: "float_ops \<Rightarrow> pyval \<Rightarrow> string result" where
  "fmt_ratio fl v = rbind (float_value fl v) (\<lambda>p. Inr (case p of None \<Rightarrow> ''-'' | Some f \<Rightarrow> fl_fmt fl 2 f @ ''x''))"

definition fmt_percent :: "float_ops \<Rightarrow> pyfloat \<Rightarrow> string" where
  "fmt_percent fl f = (if pf_nonneg f then ''+'' else []) @ fl_fmt fl 1 (fl_mul fl f (Finite 100 0 ''100.0'')) @ ''%''"

definition opt_float :: "pyfloat option \<Rightarrow> pyval" where
  "opt_float p = (case p of None \<Rightarrow> PNone | Some f \<Rightarrow> PFloat f)"

definition opt_int :: "int option \<Rightarrow> pyval" where
  "opt_int p = (case p of None \<Rightarrow> PNone | Some n \<Rightarrow> PInt n)"

definition per_run :: "float_ops \<Rightarrow> int option \<Rightarrow> nat \<Rightarrow> pyfloat option result" where
  "per_run fl tot runs = (case tot of None \<Rightarrow> Inr None
     | Some t \<Rightarrow> if runs = 0 then Inr None
         else (case fl_int_div fl t (int runs) of
             Some f \<Rightarrow> Inr (Some f)
           | None \<Rightarrow> Inl (OverflowError ''integer division result too large for a float'')))"

text \<open>\<^verbatim>\<open>statistics.median\<close>; its error is a subclass of \<^verbatim>\<open>ValueError\<close>.\<close>

definition median :: "float_ops \<Rightarrow> pyfloat list \<Rightarrow> pyfloat result" where
  "median fl values =
     (let data = sort_by pf_less values; n = length data; i = n div 2
      in if n = 0 then Inl (ValueError ''no median for empty data'')
         else if n mod 2 = 1 then Inr (data ! i)
         else Inr (fl_div fl (fl_add fl (data ! (i - 1)) (data ! i)) (Finite 2 0 ''2.0'')))"

definition pick :: "(pyfloat \<Rightarrow> pyfloat \<Rightarrow> bool) \<Rightarrow> pyfloat list \<Rightarrow> pyfloat option" where
  "pick better xs = (case xs of [] \<Rightarrow> None | x # ys \<Rightarrow> Some (fold (\<lambda>y best. if better y best then y else best) ys x))"

section \<open>Lines of key-value pairs\<close>

definition parse_token :: "string \<Rightarrow> (string, string) dict \<Rightarrow> (string, string) dict" where
  "parse_token token flds = (if CHR ''='' \<in> set token then
      (case split_first (CHR ''='') token of [key, value] \<Rightarrow> dict_set flds key value | _ \<Rightarrow> flds)
    else flds)"

definition parse_key_values :: "string \<Rightarrow> (string, string) dict" where
  "parse_key_values line = fold parse_token (split_ws line) []"

definition dict_update :: "('k, 'v) dict \<Rightarrow> ('k, 'v) dict \<Rightarrow> ('k, 'v) dict" where
  "dict_update d e = fold (\<lambda>(k, v) acc. dict_set acc k v) e d"

definition parse_prefixed_key_values :: "string \<Rightarrow> string \<Rightarrow> (string, string) dict" where
  "parse_prefixed_key_values text prefix1 =
     fold (\<lambda>raw flds. let line = strip raw in
       if startswith line prefix1 then dict_update flds (parse_key_values (drop (length prefix1) line)) else flds)
       (splitlines text) []"

definition first_line :: "string \<Rightarrow> string" where
  "first_line text = (case filter (\<lambda>line. strip line \<noteq> []) (splitlines text) of [] \<Rightarrow> [] | line # _ \<Rightarrow> strip line)"

section \<open>CSV text\<close>

definition combine_line :: "string \<Rightarrow> string option \<times> string list \<Rightarrow> string option \<times> string list" where
  "combine_line raw st = (case st of (header, ls) \<Rightarrow>
     let line = strip raw in
     if line = [] then (header, ls)
     else case header of
       None \<Rightarrow> (Some line, ls @ [line])
     | Some h \<Rightarrow> if line = h then (header, ls) else (header, ls @ [line]))"

definition combine_csv_text :: "string list \<Rightarrow> string" where
  "combine_csv_text parts =
     (let ls = snd (fold (\<lambda>text st. fold combine_line (splitlines text) st) parts (None, []))
      in rstrip (join [newline] ls) @ [newline])"

text \<open>\<^verbatim>\<open>csv.reader\<close> with the default dialect.\<close>

datatype csv_mode = FieldStart | Unquoted | Quoted | QuoteEnd

fun csv_go :: "csv_mode \<Rightarrow> string \<Rightarrow> string list \<Rightarrow> string \<Rightarrow> string list list" where
  "csv_go mode field row [] = (if mode = FieldStart \<and> row = [] then [] else [rev (rev field # row)])"
| "csv_go mode field row (c # cs) =
     (if mode = Quoted then
        (if c = CHR 0x22 then csv_go QuoteEnd field row cs else csv_go Quoted (c # field) row cs)
      else if c = CHR '','' then csv_go FieldStart [] (rev field # row) cs
      else if c = CHR 0x0A \<or> c = CHR 0x0D then
        (if mode = FieldStart \<and> row = [] then csv_go FieldStart [] [] cs
         else rev (rev field # row) # csv_go FieldStart [] [] cs)
      else if mode = FieldStart \<and> c = CHR 0x22 then csv_go Quoted [] row cs
      else if mode = QuoteEnd \<and> c = CHR 0x22 then csv_go Quoted (c # field) row cs
      else csv_go Unquoted (c # field) row cs)"

definition csv_rows :: "string \<Rightarrow> string list list" where
  "csv_rows text = csv_go FieldStart [] [] text"

text \<open>\<^verbatim>\<open>csv.DictReader\<close>: missing fields are \<^verbatim>\<open>None\<close>; surplus fields, stored under the key \<^verbatim>\<open>None\<close>, are never read.\<close>

definition dict_row :: "string list \<Rightarrow> string list \<Rightarrow> (string, pyval) dict" where
  "dict_row names row = fold (\<lambda>(k, v) d. dict_set d k v)
     (zip names (map PStr row @ replicate (length names - length row) PNone)) []"

definition read_csv_text :: "string \<Rightarrow> (string, pyval) dict list" where
  "read_csv_text text = (case csv_rows text of [] \<Rightarrow> [] | names # rows \<Rightarrow> map (dict_row names) rows)"

text \<open>\<^verbatim>\<open>csv.writer\<close> with the default dialect.\<close>

definition csv_special :: "char \<Rightarrow> bool" where
  "csv_special c = (c = CHR '','' \<or> c = CHR 0x22 \<or> c = CHR 0x0A \<or> c = CHR 0x0D)"

definition csv_field :: "string \<Rightarrow> string" where
  "csv_field s = (if \<exists>c\<in>set s. csv_special c then [CHR 0x22] @ str_replace [CHR 0x22] [CHR 0x22, CHR 0x22] s @ [CHR 0x22] else s)"

definition csv_value :: "pyval \<Rightarrow> string" where
  "csv_value v = (if v = PNone then [] else py_str v)"

definition csv_line :: "string list \<Rightarrow> string" where
  "csv_line flds = (if flds = [[]] then [CHR 0x22, CHR 0x22] else join '','' (map csv_field flds)) @ [CHR 0x0D, CHR 0x0A]"

definition csv_row_fields :: "string list \<Rightarrow> (string, pyval) dict \<Rightarrow> string list result" where
  "csv_row_fields columns row =
     raise_if (\<exists>k\<in>set (dict_keys row). k \<notin> set columns) (ValueError ''dict contains fields not in fieldnames'')
       (Inr (map (\<lambda>c. case dict_get row c of None \<Rightarrow> [] | Some v \<Rightarrow> csv_value v) columns))"

text \<open>
  The text a \<^verbatim>\<open>csv.DictWriter\<close> has written when its loop ends, and whether it ended by a row with an
  unknown field: the rows before it are in the file.
\<close>

fun csv_body :: "string list \<Rightarrow> (string, pyval) dict list \<Rightarrow> string \<times> unit result" where
  "csv_body columns [] = ([], Inr ())"
| "csv_body columns (row # rows) = (case csv_row_fields columns row of
      Inl e \<Rightarrow> ([], Inl e)
    | Inr flds \<Rightarrow> (case csv_body columns rows of (t, r) \<Rightarrow> (csv_line flds @ t, r)))"

definition csv_text :: "(string, pyval) dict list \<Rightarrow> string list \<Rightarrow> string \<times> unit result" where
  "csv_text rows columns = (case csv_body columns rows of (t, r) \<Rightarrow> (csv_line columns @ t, r))"

section \<open>Markdown tables\<close>

definition column_widths :: "string list list \<Rightarrow> nat list result" where
  "column_widths rows = (case rows of [] \<Rightarrow> Inr [] | r # _ \<Rightarrow>
     if \<exists>row\<in>set rows. length row < length r then Inl (IndexError ''list index out of range'')
     else Inr (map (\<lambda>i. Max (set (map (\<lambda>row. length (row ! i)) rows))) [0..<length r]))"

definition table_line :: "nat list \<Rightarrow> string list \<Rightarrow> string result" where
  "table_line widths row =
     (if length widths < length row then Inl (IndexError ''list index out of range'')
      else Inr (''| '' @ join '' | '' (map (\<lambda>(w, cell). ljust w cell) (zip widths row)) @ '' |''))"

definition rule_line :: "nat list \<Rightarrow> string" where
  "rule_line widths = ''| '' @ join '' | '' (map (\<lambda>w. replicate w (CHR ''-'')) widths) @ '' |''"

definition markdown_table :: "string list list \<Rightarrow> string list result" where
  "markdown_table rows =
     rbind (column_widths rows) (\<lambda>widths.
     rbind (rmap (table_line widths) rows) (\<lambda>ls.
       Inr (case ls of [] \<Rightarrow> [] | l # rest \<Rightarrow> l # rule_line widths # rest)))"

section \<open>Versions\<close>

definition name_char :: "char \<Rightarrow> bool" where
  "name_char c = (is_alnum c \<or> c = CHR ''_'' \<or> c = CHR ''.'' \<or> c = CHR ''-'')"

text \<open>The match of \<^verbatim>\<open>^([A-Za-z0-9_.-]+)\s+([0-9][^\s)]*)\<close>.\<close>

definition tool_major_version :: "string \<Rightarrow> string" where
  "tool_major_version output =
     (let s = strip output; name = takeWhile name_char s; rest = dropWhile name_char s;
          after = dropWhile is_space rest;
          version = takeWhile (\<lambda>c. \<not> is_space c \<and> c \<noteq> CHR '')'') after
      in if name \<noteq> [] \<and> rest \<noteq> after \<and> after \<noteq> [] \<and> is_digit (hd after) then name @ '' '' @ version else output)"

definition solc_line :: "string \<Rightarrow> string" where
  "solc_line line = ''solc '' @ hd (split_first (CHR ''+'') (strip (removeprefix line ''Version:'')))"

definition solc_version_of :: "string \<Rightarrow> string result" where
  "solc_version_of output = (case filter (\<lambda>line. startswith line ''Version:'') (splitlines output) of
      line # _ \<Rightarrow> Inr (solc_line line)
    | [] \<Rightarrow> if output = [] then Inr ''not found'' else py_first (splitlines output))"

section \<open>The order of doubles\<close>

text \<open>The value of a finite double, and a key that orders all doubles but NaN.\<close>

definition pf_value :: "int \<Rightarrow> int \<Rightarrow> rat" where
  "pf_value m e = of_int m * 2 powi e"

definition pf_key :: "pyfloat \<Rightarrow> int \<times> rat" where
  "pf_key f = (case f of Finite m e r \<Rightarrow> (0, pf_value m e) | Infinite neg \<Rightarrow> (if neg then - 1 else 1, 0) | NaN \<Rightarrow> (2, 0))"

lemma pf_value_shift: "k \<le> e \<Longrightarrow> pf_value m e = of_int (m * 2 ^ nat (e - k)) * pf_value 1 k"
proof -
  assume "k \<le> e"
  then have "(2::rat) powi e = 2 powi (int (nat (e - k))) * 2 powi k"
    by (subst power_int_add [symmetric]) auto
  also have "(2::rat) powi (int (nat (e - k))) = 2 ^ nat (e - k)" by (rule power_int_of_nat)
  finally show ?thesis by (simp add: pf_value_def)
qed

lemma pf_less_key: "a \<noteq> NaN \<Longrightarrow> b \<noteq> NaN \<Longrightarrow> pf_less a b \<longleftrightarrow> pf_key a < pf_key b"
proof (cases a; cases b)
  fix m e r m' e' r'
  assume a: "a = Finite m e r" and b: "b = Finite m' e' r'"
  let ?k = "min e e'"
  have "0 < pf_value 1 ?k" by (simp add: pf_value_def)
  moreover have "pf_value m e = of_int (m * 2 ^ nat (e - ?k)) * pf_value 1 ?k"
    and "pf_value m' e' = of_int (m' * 2 ^ nat (e' - ?k)) * pf_value 1 ?k"
    by (rule pf_value_shift, simp)+
  ultimately have "pf_value m e < pf_value m' e' \<longleftrightarrow> m * 2 ^ nat (e - ?k) < m' * 2 ^ nat (e' - ?k)"
    by (simp only: mult_less_cancel_right_pos of_int_less_iff)
  then show ?thesis by (simp add: a b pf_key_def Let_def)
qed (auto simp: pf_key_def)

section \<open>Sorting\<close>

lemma insert_by_mset [simp]: "mset (insert_by lt x xs) = add_mset x (mset xs)"
  by (induction xs) auto

lemma sort_by_mset [simp]: "mset (sort_by lt xs) = mset xs"
proof -
  have "mset (fold (insert_by lt) xs acc) = mset xs + mset acc" for acc
    by (induction xs arbitrary: acc) auto
  then show ?thesis by (simp add: sort_by_def)
qed

lemma sort_by_set [simp]: "set (sort_by lt xs) = set xs" and sort_by_length [simp]: "length (sort_by lt xs) = length xs"
  using sort_by_mset [of lt xs] by (metis set_mset_mset, metis size_mset)

lemma insert_by_sorted:
  assumes "\<forall>y\<in>set ys. lt x y \<longleftrightarrow> k x < k y" and "sorted (map k ys)"
  shows "sorted (map k (insert_by lt x ys))"
  using assms
proof (induction ys)
  case (Cons y ys)
  have "set (insert_by lt x ys) = insert x (set ys)" using insert_by_mset [of lt x ys] by (metis set_mset_add_mset_insert set_mset_mset)
  with Cons show ?case by auto
qed simp

lemma sort_by_sorted:
  assumes "\<And>x y. x \<in> set xs \<Longrightarrow> y \<in> set xs \<Longrightarrow> lt x y \<longleftrightarrow> k x < k y"
  shows "sorted (map k (sort_by lt xs))"
proof -
  have "sorted (map k (fold (insert_by lt) ys acc))"
    if "sorted (map k acc)" and "set ys \<union> set acc \<subseteq> set xs" for ys acc
    using that
  proof (induction ys arbitrary: acc)
    case (Cons y ys)
    have "set (insert_by lt y acc) = insert y (set acc)" using insert_by_mset [of lt y acc] by (metis set_mset_add_mset_insert set_mset_mset)
    moreover have "sorted (map k (insert_by lt y acc))" using Cons.prems assms by (intro insert_by_sorted) auto
    ultimately show ?case using Cons by auto
  qed simp
  then show ?thesis by (simp add: sort_by_def)
qed

text \<open>At most \<open>i\<close> elements of a sorted list are below its \<open>i\<close>-th one, and no more than the rest are above it.\<close>

lemma sorted_below_nth:
  fixes k :: "'a \<Rightarrow> 'k::linorder"
  assumes srt: "sorted (map k data)" and i: "i < length data"
  shows "length (filter (\<lambda>x. k x < k (data ! i)) data) \<le> i"
    and "length (filter (\<lambda>x. k (data ! i) < k x) data) \<le> length data - Suc i"
proof -
  have mono: "k (data ! a) \<le> k (data ! b)" if "a \<le> b" "b < length data" for a b
    using sorted_nth_mono [OF srt, of a b] that by simp
  have "{j. j < length data \<and> k (data ! j) < k (data ! i)} \<subseteq> {..<i}"
  proof
    fix j assume "j \<in> {j. j < length data \<and> k (data ! j) < k (data ! i)}"
    then show "j \<in> {..<i}" using mono [of i j] by (cases "i \<le> j") auto
  qed
  from card_mono [OF finite_lessThan this] show "length (filter (\<lambda>x. k x < k (data ! i)) data) \<le> i"
    by (simp add: length_filter_conv_card)
  have "{j. j < length data \<and> k (data ! i) < k (data ! j)} \<subseteq> {i<..<length data}"
  proof
    fix j assume "j \<in> {j. j < length data \<and> k (data ! i) < k (data ! j)}"
    then show "j \<in> {i<..<length data}" using mono [of j i] i by (cases "j \<le> i") auto
  qed
  from card_mono [OF finite_greaterThanLessThan this] show "length (filter (\<lambda>x. k (data ! i) < k x) data) \<le> length data - Suc i"
    by (simp add: length_filter_conv_card)
qed

lemma median_odd:
  assumes "odd (length xs)" and "NaN \<notin> set xs"
  shows "\<exists>m\<in>set xs. median fl xs = Inr m \<and> 2 * length (filter (\<lambda>x. pf_less x m) xs) < length xs
    \<and> 2 * length (filter (\<lambda>x. pf_less m x) xs) < length xs"
proof -
  define data where "data = sort_by pf_less xs"
  define m where "m = data ! (length xs div 2)"
  have len: "length data = length xs" and sx: "set data = set xs" by (simp_all add: data_def)
  have i: "length xs div 2 < length data" using assms(1) len by (cases "length xs") auto
  have m: "m \<in> set xs" unfolding m_def sx [symmetric] by (rule nth_mem [OF i])
  have key: "pf_less x y \<longleftrightarrow> pf_key x < pf_key y" if "x \<in> set xs" "y \<in> set xs" for x y
    using that assms(2) pf_less_key [of x y] by blast
  then have srt: "sorted (map pf_key data)" unfolding data_def by (rule sort_by_sorted)
  have cnt: "length (filter P xs) = length (filter P data)" for P
  proof -
    have "mset (filter P xs) = mset (filter P data)" by (simp add: data_def)
    then show ?thesis by (rule mset_eq_length)
  qed
  have "filter (\<lambda>x. pf_less x m) xs = filter (\<lambda>x. pf_key x < pf_key m) xs"
    and "filter (\<lambda>x. pf_less m x) xs = filter (\<lambda>x. pf_key m < pf_key x) xs"
    using key m by (auto intro!: filter_cong)
  then have "length (filter (\<lambda>x. pf_less x m) xs) \<le> length xs div 2"
    and "length (filter (\<lambda>x. pf_less m x) xs) \<le> length xs - Suc (length xs div 2)"
    using sorted_below_nth [OF srt i] unfolding m_def by (simp_all add: cnt len)
  moreover have "2 * (length xs div 2) < length xs" "2 * (length xs - Suc (length xs div 2)) < length xs"
    using assms(1) by presburger+
  moreover have "median fl xs = Inr m"
    using assms(1) i len by (auto simp: median_def data_def [symmetric] m_def Let_def odd_iff_mod_2_eq_one)
  ultimately show ?thesis using m by (intro bexI [of _ m]) auto
qed

section \<open>Combined CSV text\<close>

text \<open>The lines of all parts, stripped and without the blank ones.\<close>

definition content_lines :: "string list \<Rightarrow> string list" where
  "content_lines parts = filter (\<lambda>l. l \<noteq> []) (map strip (concat (map splitlines parts)))"

text \<open>The header once, then every other line in order.\<close>

definition one_header :: "string list \<Rightarrow> string list" where
  "one_header ls = (case ls of [] \<Rightarrow> [] | h # rest \<Rightarrow> h # filter (\<lambda>l. l \<noteq> h) rest)"

lemma combine_fold:
  "fold combine_line raws (Some h, ls) = (Some h, ls @ filter (\<lambda>l. l \<noteq> [] \<and> l \<noteq> h) (map strip raws))"
  by (induction raws arbitrary: ls) (auto simp: combine_line_def Let_def)

lemma combine_fold_None:
  "snd (fold combine_line raws (None, [])) = one_header (filter (\<lambda>l. l \<noteq> []) (map strip raws))"
proof (induction raws)
  case (Cons r raws)
  show ?case
  proof (cases "strip r = []")
    case False
    then have "fold combine_line (r # raws) (None, []) = fold combine_line raws (Some (strip r), [strip r])"
      by (simp add: combine_line_def Let_def)
    also have "\<dots> = (Some (strip r), [strip r] @ filter (\<lambda>l. l \<noteq> [] \<and> l \<noteq> strip r) (map strip raws))"
      by (rule combine_fold)
    finally show ?thesis using False by (simp add: one_header_def conj_commute)
  qed (use Cons in \<open>simp add: combine_line_def\<close>)
qed (simp add: one_header_def)

lemma fold_concat_map: "fold (\<lambda>x st. fold f (g x) st) xs st = fold f (concat (map g xs)) st"
  by (induction xs arbitrary: st) auto

lemma set_one_header: "set (one_header ls) = set ls"
  by (cases ls) (auto simp: one_header_def)

lemma content_line:
  assumes "l \<in> set (content_lines parts)"
  shows "l \<noteq> [] \<and> (\<forall>c\<in>set l. \<not> is_linebreak c) \<and> \<not> is_space (hd l) \<and> \<not> is_space (last l)"
proof -
  from assms obtain raw part where l: "l = strip raw" "l \<noteq> []" and raw: "raw \<in> set (splitlines part)"
    by (auto simp: content_lines_def)
  then show ?thesis using splitlines_no_break [OF raw] set_strip_if [of is_space raw] strip_if_edges [of is_space raw] by auto
qed

lemma last_join: "ps \<noteq> [] \<Longrightarrow> last ps \<noteq> [] \<Longrightarrow> join sep ps \<noteq> [] \<and> last (join sep ps) = last (last ps)"
  by (induction sep ps rule: join.induct) auto

lemma combine_csv_text_eq:
  "combine_csv_text parts = join [newline] (one_header (content_lines parts)) @ [newline]"
proof -
  have "snd (fold (\<lambda>t st. fold combine_line (splitlines t) st) parts (None, [])) = one_header (content_lines parts)"
    by (simp add: fold_concat_map combine_fold_None content_lines_def)
  moreover have "rstrip (join [newline] (one_header (content_lines parts))) = join [newline] (one_header (content_lines parts))"
  proof (cases "content_lines parts = []")
    case False
    then have ne: "one_header (content_lines parts) \<noteq> []" by (metis set_empty set_one_header)
    then have "last (one_header (content_lines parts)) \<in> set (content_lines parts)" using set_one_header last_in_set by metis
    from content_line [OF this] show ?thesis using last_join [OF ne] by (intro rstrip_if_id) auto
  qed (simp add: one_header_def rstrip_if_def)
  ultimately show ?thesis by (simp add: combine_csv_text_def Let_def)
qed

lemma combine_csv_text_lines:
  assumes "content_lines parts \<noteq> []"
  shows "splitlines (combine_csv_text parts) = one_header (content_lines parts)"
proof -
  have lines: "splitlines (join [newline] ls @ [newline]) = ls"
    if "\<forall>l\<in>set ls. \<forall>c\<in>set l. \<not> is_linebreak c" and "ls \<noteq> []" for ls
    using that
  proof (induction ls)
    case (Cons l ls)
    have e: "splitlines [] = []" by (simp add: splitlines_def)
    show ?case
    proof (cases "ls = []")
      case True
      then show ?thesis using Cons.prems splitlines_line [of l "[]"] e by simp
    next
      case False
      then show ?thesis using Cons splitlines_line [of l "join [newline] ls @ [newline]"] by (simp add: join_Cons)
    qed
  qed simp
  show ?thesis unfolding combine_csv_text_eq
    using content_line set_one_header assms by (intro lines) (auto, metis set_empty)
qed

section \<open>Reading written CSV text\<close>

lemma csv_quoted:
  "csv_go Quoted acc row (str_replace [CHR 0x22] [CHR 0x22, CHR 0x22] s @ CHR 0x22 # rest)
     = csv_go QuoteEnd (rev s @ acc) row rest \<or> (\<exists>cs. rest = CHR 0x22 # cs)"
proof (induction s arbitrary: acc)
  case (Cons c s)
  then show ?case by (cases "c = CHR 0x22") (auto simp: str_replace_char)
qed (simp)

lemma csv_plain:
  assumes "\<forall>c\<in>set s. \<not> csv_special c"
  shows "csv_go Unquoted acc row (s @ rest) = csv_go Unquoted (rev s @ acc) row rest"
  using assms by (induction s arbitrary: acc) (auto simp: csv_special_def)

text \<open>The state of the reader after a written field, in front of a separator or the end of the line.\<close>

lemma csv_field_read:
  assumes "c = CHR '','' \<or> c = CHR 0x0D"
  shows "\<exists>mode. csv_go FieldStart [] row (csv_field s @ c # rest) = csv_go mode (rev s) row (c # rest) \<and>
    (mode = FieldStart \<longrightarrow> s = []) \<and> mode \<noteq> Quoted"
proof (cases "\<exists>c\<in>set s. csv_special c")
  case True
  have "csv_go FieldStart [] row (csv_field s @ c # rest)
      = csv_go Quoted [] row (str_replace [CHR 0x22] [CHR 0x22, CHR 0x22] s @ CHR 0x22 # c # rest)"
    using True by (simp add: csv_field_def)
  also have "\<dots> = csv_go QuoteEnd (rev s) row (c # rest)" using csv_quoted [of "[]" row s "c # rest"] assms by auto
  finally show ?thesis by auto
next
  case False
  then have f: "csv_field s = s" by (simp add: csv_field_def)
  show ?thesis
  proof (cases s)
    case (Cons x xs)
    then have "csv_go FieldStart [] row (s @ c # rest) = csv_go Unquoted [x] row (xs @ c # rest)"
      using False by (auto simp: csv_special_def)
    also have "\<dots> = csv_go Unquoted (rev s) row (c # rest)" using False Cons csv_plain [of xs "[x]" row "c # rest"] by auto
    finally show ?thesis using f by auto
  qed (use f in auto)
qed

lemma csv_fields_read:
  assumes "flds \<noteq> []" and "row = [] \<Longrightarrow> flds \<noteq> [[]]"
  shows "csv_go FieldStart [] row (join '','' (map csv_field flds) @ [CHR 0x0D, CHR 0x0A] @ rest)
    = (rev row @ flds) # csv_go FieldStart [] [] rest"
  using assms
proof (induction flds arbitrary: row)
  case (Cons s flds)
  show ?case
  proof (cases "flds = []")
    case True
    obtain mode where "csv_go FieldStart [] row (csv_field s @ CHR 0x0D # CHR 0x0A # rest) = csv_go mode (rev s) row (CHR 0x0D # CHR 0x0A # rest)"
      and "mode = FieldStart \<longrightarrow> s = []" and "mode \<noteq> Quoted"
      using csv_field_read [of "CHR 0x0D" row s "CHR 0x0A # rest"] by blast
    with True Cons.prems show ?thesis by auto
  next
    case False
    obtain mode where "csv_go FieldStart [] row (csv_field s @ CHR '','' # join '','' (map csv_field flds) @ [CHR 0x0D, CHR 0x0A] @ rest)
        = csv_go mode (rev s) row (CHR '','' # join '','' (map csv_field flds) @ [CHR 0x0D, CHR 0x0A] @ rest)" and "mode \<noteq> Quoted"
      using csv_field_read [of "CHR '',''" row s "join '','' (map csv_field flds) @ [CHR 0x0D, CHR 0x0A] @ rest"] by blast
    then have "csv_go FieldStart [] row (csv_field s @ CHR '','' # join '','' (map csv_field flds) @ [CHR 0x0D, CHR 0x0A] @ rest)
        = csv_go FieldStart [] (s # row) (join '','' (map csv_field flds) @ [CHR 0x0D, CHR 0x0A] @ rest)" by simp
    with False Cons.IH [of "s # row"] show ?thesis by (simp add: join_Cons)
  qed
qed simp

lemma csv_line_read: "flds \<noteq> [] \<Longrightarrow> csv_go FieldStart [] [] (csv_line flds @ rest) = flds # csv_go FieldStart [] [] rest"
proof (cases "flds = [[]]")
  case False
  then show "flds \<noteq> [] \<Longrightarrow> csv_go FieldStart [] [] (csv_line flds @ rest) = flds # csv_go FieldStart [] [] rest"
    using csv_fields_read [of flds "[]" rest] by (simp add: csv_line_def)
qed (simp add: csv_line_def)

lemma csv_lines_read: "\<forall>flds\<in>set rows. flds \<noteq> [] \<Longrightarrow> csv_rows (concat (map csv_line rows)) = rows"
  unfolding csv_rows_def by (induction rows) (auto simp: csv_line_read)

text \<open>The row that reading gives back: each cell as text, in the order of the columns.\<close>

definition text_cell :: "(string, pyval) dict \<Rightarrow> string \<Rightarrow> string" where
  "text_cell row c = (case dict_get row c of None \<Rightarrow> [] | Some v \<Rightarrow> csv_value v)"

definition text_row :: "string list \<Rightarrow> (string, pyval) dict \<Rightarrow> (string, pyval) dict" where
  "text_row columns row = map (\<lambda>c. (c, PStr (text_cell row c))) columns"

lemma dict_set_new: "k \<notin> set (dict_keys d) \<Longrightarrow> dict_set d k v = d @ [(k, v)]"
  by (induction d) auto

lemma fold_dict_set:
  "distinct (map fst kvs) \<Longrightarrow> set (map fst kvs) \<inter> set (dict_keys d) = {} \<Longrightarrow> fold (\<lambda>(k, v) d. dict_set d k v) kvs d = d @ kvs"
  by (induction kvs arbitrary: d) (auto simp: dict_set_new)

lemma dict_row_full: "distinct names \<Longrightarrow> length row = length names \<Longrightarrow> dict_row names row = zip names (map PStr row)"
  unfolding dict_row_def by (subst fold_dict_set) auto

lemma csv_body_Inr: "csv_body columns rows = (t, Inr ()) \<Longrightarrow>
   t = concat (map (\<lambda>r. csv_line (map (text_cell r) columns)) rows)"
  by (induction rows arbitrary: t)
    (auto simp: csv_row_fields_def text_cell_def [abs_def] raise_if_def split: sum.splits prod.splits if_splits)

lemma csv_text_read:
  assumes "csv_text rows columns = (t, Inr ())" and "columns \<noteq> []" and "distinct columns"
  shows "read_csv_text t = map (text_row columns) rows"
proof -
  have "t = concat (map csv_line (columns # map (\<lambda>r. map (text_cell r) columns) rows))"
    using assms(1) csv_body_Inr [of columns rows] by (auto simp: csv_text_def comp_def split: prod.splits)
  then have "csv_rows t = columns # map (\<lambda>r. map (text_cell r) columns) rows"
    using csv_lines_read [of "columns # map (\<lambda>r. map (text_cell r) columns) rows"] assms(2) by auto
  then show ?thesis using assms(3) by (simp add: read_csv_text_def dict_row_full text_row_def zip_map_fst_snd zip_map2 zip_same_conv_map comp_def)
qed

section \<open>Aligned tables\<close>

definition table_width :: "nat list \<Rightarrow> nat" where
  "table_width widths = sum_list widths + 3 * length widths + 1"

lemma join_length: "ps \<noteq> [] \<Longrightarrow> length (join sep ps) = sum_list (map length ps) + length sep * (length ps - 1)"
  by (induction sep ps rule: join.induct) (auto simp: algebra_simps)

lemma framed_length: "length ps = n \<Longrightarrow> 0 < n \<Longrightarrow>
    length (''| '' @ join '' | '' ps @ '' |'') = sum_list (map length ps) + 3 * n + 1"
  using join_length [of ps "'' | ''"] by (cases ps) auto

lemma rule_line_length: "widths \<noteq> [] \<Longrightarrow> length (rule_line widths) = table_width widths"
  using framed_length [of "map (\<lambda>w. replicate w (CHR ''-'')) widths" "length widths"]
  by (simp add: rule_line_def table_width_def comp_def)

lemma padded_lengths: "list_all2 (\<lambda>w cell. length cell \<le> w) widths row \<Longrightarrow>
    map length (map (\<lambda>(w, cell). ljust w cell) (zip widths row)) = widths"
  by (induction rule: list_all2_induct) (auto simp: length_ljust)

lemma table_line_length:
  assumes "list_all2 (\<lambda>w cell. length cell \<le> w) widths row" and "widths \<noteq> []"
  shows "\<exists>l. table_line widths row = Inr l \<and> length l = table_width widths"
proof -
  have "length row = length widths" using assms(1) list_all2_lengthD by metis
  then show ?thesis
    using framed_length [of "map (\<lambda>(w, cell). ljust w cell) (zip widths row)" "length widths"] assms(2)
    by (simp add: table_line_def table_width_def padded_lengths [OF assms(1), simplified])
qed

lemma column_widths_rectangular:
  assumes "rows \<noteq> []" and rect: "\<forall>row\<in>set rows. length row = n"
  obtains widths where "column_widths rows = Inr widths" and "length widths = n"
    and "\<And>row. row \<in> set rows \<Longrightarrow> list_all2 (\<lambda>w cell. length cell \<le> w) widths row"
proof
  let ?ws = "map (\<lambda>i. Max (set (map (\<lambda>row. length (row ! i)) rows))) [0..<n]"
  show "column_widths rows = Inr ?ws" using assms by (cases rows) (auto simp: column_widths_def)
  show "length ?ws = n" by simp
  show "list_all2 (\<lambda>w cell. length cell \<le> w) ?ws row" if "row \<in> set rows" for row
    using rect that by (auto simp: list_all2_conv_all_nth intro!: Max_ge)
qed

lemma markdown_table_rectangular:
  assumes "rows \<noteq> []" and "\<forall>row\<in>set rows. length row = n" and "0 < n"
  shows "\<exists>widths ls. column_widths rows = Inr widths \<and> length widths = n \<and> markdown_table rows = Inr ls \<and>
    length ls = Suc (length rows) \<and> (\<forall>l\<in>set ls. length l = table_width widths)"
proof -
  obtain widths where w: "column_widths rows = Inr widths" "length widths = n"
    and fit: "\<And>row. row \<in> set rows \<Longrightarrow> list_all2 (\<lambda>w cell. length cell \<le> w) widths row"
    using column_widths_rectangular assms(1,2) by blast
  then have ne: "widths \<noteq> []" using assms(3) by auto
  have ok: "\<forall>row\<in>set rows. \<exists>l. table_line widths row = Inr l \<and> length l = table_width widths"
    using table_line_length [OF fit ne] by blast
  then obtain ls where ls: "rmap (table_line widths) rows = Inr ls" using rmap_all_Inr [of rows "table_line widths"] by blast
  have len: "length ls = length rows" by (rule rmap_length [OF ls])
  have "length l = table_width widths" if "l \<in> set ls" for l
    using that rmap_set [OF ls] ok by fastforce
  moreover obtain l rest where "ls = l # rest" using len assms(1) by (cases ls) auto
  ultimately show ?thesis using w ls len rule_line_length [OF ne] by (auto simp: markdown_table_def)
qed

end
