(* ===== verification/Bench_Report.thy ===== *)
theory Bench_Report
  imports Bench_Text
begin

text \<open>
  The benchmark report \<^verbatim>\<open>bench/scripts/report.py\<close> above its text layer: the commands of the benchmark
  layers, the rows they give, the consistency check of the kernel rows, the checkpoint, and the
  rendered report. The started programs (by working directory and environment), the environment
  variables, the clock, the JSON reader and the location of the script are parameters; progress
  lines printed to the terminal are left out.
\<close>

section \<open>Arguments and environment\<close>

record bench_args =
  evm2_nightly :: bool
  zig_exe :: string
  optimize :: string
  profile :: string
  native_keccak :: string
  out_dir :: string
  report_arg :: "string option"
  checkpoint_arg :: "string option"
  baseline_arg :: "string option"
  kernel_iterations :: int
  repeats :: int
  warmups :: int

text \<open>Lines 97--99: the zkVM profile always uses the standard hash.\<close>

definition finish_args :: "bench_args \<Rightarrow> bench_args" where
  "finish_args args = (if profile args = ''zkvm'' then args\<lparr>native_keccak := ''std''\<rparr> else args)"

record bench_env =
  b_fl :: float_ops
  b_run :: "path option \<Rightarrow> (string, string) dict option \<Rightarrow> runner"
  b_environ :: "(string, string) dict"
  b_loads :: "string \<Rightarrow> pyval result"
  b_platform :: string
  b_now :: string
  b_bench_dir :: path
  b_repo_root :: path

type_synonym row = "(string, pyval) dict"

definition VM_LOOP_FIXTURES :: "string list" where
  "VM_LOOP_FIXTURES = map (\<lambda>name. ''fixtures/vm-loop/'' @ name)
     [''arithmetic-loop'', ''memory-mstore-loop'', ''keccak-loop'', ''ten-thousand-hashes'', ''storage-sload-loop'',
      ''storage-sstore-loop'', ''log0-loop'', ''log0-data32-loop'', ''log4-loop'', ''log4-data32-loop'', ''erc20-mint'',
      ''erc20-transfer'', ''erc20-approval-transfer'', ''snailtracer'']"

definition VM_LOOP_BASELINE_ENGINE :: string where
  "VM_LOOP_BASELINE_ENGINE = ''evmz''"

definition VM_LOOP_ENGINES :: "string list" where
  "VM_LOOP_ENGINES = [VM_LOOP_BASELINE_ENGINE, ''evmone-baseline'', ''evmone'', ''evm2'']"

definition resolve_path :: "bench_env \<Rightarrow> string \<Rightarrow> path" where
  "resolve_path env value = (if is_absolute (path_of value) then path_of value
     else path_resolve (b_bench_dir env) (path_of value))"

definition display_path :: "bench_env \<Rightarrow> path \<Rightarrow> string" where
  "display_path env p = (if prefix (b_repo_root env) p then path_str (relative_to (b_repo_root env) p) else path_str p)"

definition file_not_found :: "pyexc \<Rightarrow> bool" where
  "file_not_found e = (case e of FileNotFoundError _ \<Rightarrow> True | _ \<Rightarrow> False)"

definition command_version :: "bench_env \<Rightarrow> string list \<Rightarrow> string io" where
  "command_version env argv w = (case run_process (b_run env None None) argv w of
      (Inl e, w') \<Rightarrow> if file_not_found e then (Inr ''not found'', w') else (Inl e, w')
    | (Inr c, w') \<Rightarrow>
        (let output = strip (if run_stdout c \<noteq> [] then run_stdout c else run_stderr c)
         in (Inr (if output \<noteq> [] then output else ''exit '' @ show_int (returncode c)), w')))"

definition solc_version :: "bench_env \<Rightarrow> string io" where
  "solc_version env = bnd (command_version env [''solc'', ''--version'']) (\<lambda>output. lift (solc_version_of output))"

definition collect_environment :: "bench_env \<Rightarrow> bench_args \<Rightarrow> row io" where
  "collect_environment env args =
     bnd (command_version env [zig_exe args, ''version'']) (\<lambda>zig.
     bnd (command_version env [''rustc'', ''+1.96.0'', ''--version'']) (\<lambda>rustc.
     bnd (command_version env [''cargo'', ''+1.96.0'', ''--version'']) (\<lambda>cargo.
     bnd (if evm2_nightly args
          then bnd (command_version env [''rustc'', ''+nightly-2026-06-01'', ''--version'']) (\<lambda>v. ret (PStr v))
          else ret PNone) (\<lambda>nightly.
     bnd (solc_version env) (\<lambda>solc.
       ret [(''generated_at'', PStr (b_now env)), (''platform'', PStr (b_platform env)), (''zig'', PStr zig),
            (''profile'', PStr (profile args)), (''native_keccak'', PStr (native_keccak args)),
            (''keccak_provider'', PStr (if profile args = ''native'' then native_keccak args else ''zkvm'')),
            (''secp256k1_provider'', PStr (if profile args = ''native'' then ''libsecp256k1'' else ''zkvm'')),
            (''rustc'', PStr (tool_major_version rustc)), (''cargo'', PStr (tool_major_version cargo)),
            (''evm2_nightly_rustc'', nightly), (''solc'', PStr solc), (''lane'', PStr ''rust-native-release''),
            (''rustflags'', PStr ''-C target-cpu=native -C force-frame-pointers=no''), (''rust_lto'', PStr ''fat'')])))))"

section \<open>Running a benchmark command\<close>

definition evm2_steps :: "string list" where
  "evm2_steps = [''evm2-kernel'', ''evm2-vm-loop'', ''evm2-packed-nightly-vm-loop'', ''evm2-tail-vm-loop'']"

definition command_env :: "bench_env \<Rightarrow> string list \<Rightarrow> (string, string) dict option" where
  "command_env env argv = (if \<not> (\<exists>step\<in>set evm2_steps. step \<in> set argv) then None
     else Some (dict_set (dict_set (dict_set (b_environ env)
       ''RUSTFLAGS'' ''-C target-cpu=native -C force-frame-pointers=no'')
       ''CARGO_PROFILE_RELEASE_LTO'' ''fat'') ''CARGO_PROFILE_RELEASE_CODEGEN_UNITS'' ''1''))"

definition command_text :: "string list \<Rightarrow> string" where
  "command_text argv = join '' '' (map shell_quote argv) @ [newline]"

definition run_command :: "bench_env \<Rightarrow> path \<Rightarrow> string \<Rightarrow> string list \<Rightarrow> (string \<times> string) io" where
  "run_command env raw_dir name argv =
     bnd (run_process (b_run env (Some (b_bench_dir env)) (command_env env argv)) argv) (\<lambda>c.
     bnd (write_file (path_join raw_dir (name @ ''.cmd'')) (command_text argv)) (\<lambda>_.
     bnd (write_file (path_join raw_dir (name @ ''.stdout'')) (run_stdout c)) (\<lambda>_.
     bnd (write_file (path_join raw_dir (name @ ''.stderr'')) (run_stderr c)) (\<lambda>_.
     io_raise_if (returncode c \<noteq> 0) (SystemExit (name @ '' failed with exit code '' @ show_int (returncode c)))
       (ret (run_stdout c, run_stderr c))))))"

definition build_profile_args :: "bench_args \<Rightarrow> string list" where
  "build_profile_args args = [''-Dprofile='' @ profile args, ''-Dnative-keccak='' @ native_keccak args]"

section \<open>The VM loop layer\<close>

definition engine_name :: "string \<Rightarrow> string" where
  "engine_name engine = (if engine = ''evmone'' then ''evmone-advanced'' else engine)"

definition evm2_engines :: "string list" where
  "evm2_engines = [''evm2'', ''evm2-packed-nightly'', ''evm2-tail'']"

definition vm_loop_scope :: "string \<Rightarrow> string" where
  "vm_loop_scope engine =
     (if engine = VM_LOOP_BASELINE_ENGINE then ''interpreter-prepared-execute''
      else if engine = ''evmone'' then ''advanced-analyzed-execute''
      else if engine = ''evmone-baseline'' then ''baseline-analyzed-execute''
      else if engine \<in> set evm2_engines then ''raw-interpreter''
      else [])"

definition fixture_options :: "string \<Rightarrow> string list" where
  "fixture_options fixture = [''--fixture'', fixture, ''--spec'', ''osaka'', ''--summary'']"

text \<open>The name of the raw files and the argument vector of one engine on one fixture.\<close>

definition vm_loop_command :: "bench_args \<Rightarrow> string \<Rightarrow> string \<Rightarrow> string \<Rightarrow> string \<times> string list" where
  "vm_loop_command args fixture name engine =
     (if engine \<in> set evm2_engines then
        (''vm-loop-'' @ name @ ''-'' @ engine,
         [zig_exe args, ''build''] @ build_profile_args args @ [engine @ ''-vm-loop'', ''--''] @ fixture_options fixture)
      else if startswith engine ''evmone'' then
        (''vm-loop-'' @ name @ ''-'' @ engine_name engine,
         [zig_exe args, ''build'', ''-Doptimize='' @ optimize args] @ build_profile_args args @
         [''evmone-vm-loop'', ''--''] @ fixture_options fixture @
         (if engine = ''evmone-baseline'' then [''--mode'', ''baseline''] else []))
      else
        (''vm-loop-'' @ name @ ''-'' @ engine_name engine,
         [zig_exe args, ''build'', ''-Doptimize='' @ optimize args] @ build_profile_args args @
         [''vm-loop'', ''--'', ''--engine'', engine] @ fixture_options fixture))"

definition run_vm_loop_engine :: "bench_env \<Rightarrow> bench_args \<Rightarrow> path \<Rightarrow> string \<Rightarrow> string \<Rightarrow> string \<Rightarrow> (string \<times> string) io" where
  "run_vm_loop_engine env args raw_dir fixture name engine =
     (case vm_loop_command args fixture name engine of (raw, argv) \<Rightarrow> run_command env raw_dir raw argv)"

definition parse_times :: "float_ops \<Rightarrow> string \<Rightarrow> pyfloat list result" where
  "parse_times fl text = rmap (\<lambda>line. py_float fl (PStr (strip line)))
     (filter (\<lambda>line. strip line \<noteq> []) (splitlines text))"

abbreviation summary_get :: "(string, string) dict \<Rightarrow> string \<Rightarrow> pyval" where
  "summary_get summary k \<equiv> (case dict_get summary k of None \<Rightarrow> PNone | Some v \<Rightarrow> PStr v)"

definition summary_default :: "(string, string) dict \<Rightarrow> string \<Rightarrow> string \<Rightarrow> string" where
  "summary_default summary k dflt = (case dict_get summary k of None \<Rightarrow> dflt | Some v \<Rightarrow> v)"

definition summary_scope :: "(string, string) dict \<Rightarrow> string \<Rightarrow> string" where
  "summary_scope summary engine = (case dict_get summary ''scope'' of
      Some s \<Rightarrow> if s \<noteq> [] then s else vm_loop_scope engine | None \<Rightarrow> vm_loop_scope engine)"

text \<open>Lines 160--191: the row of one run, from its two output streams.\<close>

definition vm_loop_row :: "float_ops \<Rightarrow> string \<Rightarrow> string \<Rightarrow> string \<Rightarrow> string \<Rightarrow> row result" where
  "vm_loop_row fl name engine out err =
     rbind (parse_times fl out) (\<lambda>times.
     let summary = parse_key_values (first_line err); counters = parse_prefixed_key_values err ''timed.'' in
     rbind (int_value (summary_get summary ''logs'')) (\<lambda>logs0.
     rbind (if logs0 = None then int_value (summary_get counters ''log'') else Inr logs0) (\<lambda>logs.
     rbind (int_value (summary_get summary ''runtime_bytes'')) (\<lambda>runtime_bytes.
     rbind (int_value (summary_get summary ''deploy_host_calls'')) (\<lambda>deploy.
     rbind (int_value (summary_get summary ''timed_host_calls'')) (\<lambda>timed.
     rbind (per_run fl timed (length times)) (\<lambda>timed_per_run.
     rbind (int_value (summary_get summary ''warmup_ms'')) (\<lambda>warmup_ms.
     rbind (int_value (summary_get summary ''warmup_calls'')) (\<lambda>warmup_calls.
     rbind (float_value fl (summary_get summary ''warmup_elapsed_ms'')) (\<lambda>elapsed.
     rbind (median fl times) (\<lambda>med.
       Inr [(''fixture'', PStr name), (''engine'', PStr (summary_default summary ''engine'' (engine_name engine))),
            (''scope'', PStr (summary_scope summary engine)), (''dispatch'', summary_get summary ''dispatch''),
            (''rustc'', summary_get summary ''rustc''),
            (''host_profile'', PStr (summary_default summary ''host_profile'' [])),
            (''spec'', PStr (summary_default summary ''spec'' [])), (''runs'', PInt (int (length times))),
            (''runtime_bytes'', opt_int runtime_bytes), (''deploy_host_calls'', opt_int deploy),
            (''timed_host_calls'', opt_int timed),
            (''timed_host_calls_per_run'', opt_float timed_per_run),
            (''logs'', opt_int logs), (''warmup_ms'', opt_int warmup_ms), (''warmup_calls'', opt_int warmup_calls),
            (''warmup_elapsed_ms'', opt_float elapsed), (''median_ms'', PFloat med),
            (''min_ms'', opt_float (pick pf_less times)), (''max_ms'', opt_float (pick (\<lambda>a b. pf_less b a) times))])))))))))))"

definition VM_LOOP_COLUMNS :: "string list" where
  "VM_LOOP_COLUMNS = [''fixture'', ''engine'', ''scope'', ''dispatch'', ''rustc'', ''host_profile'', ''spec'', ''runs'',
     ''runtime_bytes'', ''deploy_host_calls'', ''timed_host_calls'', ''timed_host_calls_per_run'', ''logs'', ''warmup_ms'',
     ''warmup_calls'', ''warmup_elapsed_ms'', ''median_ms'', ''min_ms'', ''max_ms'']"

definition vm_loop_engines :: "bench_args \<Rightarrow> string list" where
  "vm_loop_engines args = VM_LOOP_ENGINES @ (if evm2_nightly args then [''evm2-packed-nightly'', ''evm2-tail''] else [])"

definition vm_loop_pairs :: "bench_args \<Rightarrow> (string \<times> string) list" where
  "vm_loop_pairs args = List.product VM_LOOP_FIXTURES (vm_loop_engines args)"

definition run_vm_loop_pair :: "bench_env \<Rightarrow> bench_args \<Rightarrow> path \<Rightarrow> string \<times> string \<Rightarrow> row io" where
  "run_vm_loop_pair env args raw_dir pair = (case pair of (fixture, engine) \<Rightarrow>
     let name = path_name (path_of fixture) in
     bnd (run_vm_loop_engine env args raw_dir fixture name engine) (\<lambda>(out, err).
       lift (vm_loop_row (b_fl env) name engine out err)))"

definition write_csv :: "path \<Rightarrow> row list \<Rightarrow> string list \<Rightarrow> unit io" where
  "write_csv p rows columns =
     bnd (mkdir_parents (path_parent p)) (\<lambda>_.
     case csv_text rows columns of (content, outcome) \<Rightarrow>
       bnd (write_file p content) (\<lambda>_. lift outcome))"

definition run_vm_loop :: "bench_env \<Rightarrow> bench_args \<Rightarrow> path \<Rightarrow> row list io" where
  "run_vm_loop env args raw_dir =
     bnd (io_map (run_vm_loop_pair env args raw_dir) (vm_loop_pairs args)) (\<lambda>rows.
     bnd (write_csv (path_join (path_parent raw_dir) ''vm_loop_summary.csv'') rows VM_LOOP_COLUMNS) (\<lambda>_.
       ret rows))"

section \<open>The kernel layer\<close>

definition kernel_options :: "bench_args \<Rightarrow> string list" where
  "kernel_options args = [''--spec'', ''osaka'', ''--tier'', ''all'', ''--iterations'', show_int (kernel_iterations args),
     ''--repeats'', show_int (repeats args), ''--warmups'', show_int (warmups args)]"

definition kernel_zig_argv :: "bench_args \<Rightarrow> string list" where
  "kernel_zig_argv args = [zig_exe args, ''build'', ''-Doptimize='' @ optimize args] @ build_profile_args args @
     [''kernel'', ''--'', ''--engine'', ''evmz'', ''--engine'', ''evmone-baseline'', ''--engine'', ''evmone''] @ kernel_options args"

definition kernel_evm2_argv :: "bench_args \<Rightarrow> string list" where
  "kernel_evm2_argv args = [zig_exe args, ''build''] @ build_profile_args args @ [''evm2-kernel'', ''--''] @ kernel_options args"

definition row_item :: "row \<Rightarrow> string \<Rightarrow> pyval result" where
  "row_item r k = py_item (PDict r) k"

type_synonym kernel_references = "(pyval \<times> pyval, pyval \<times> pyval) dict"

definition key_text :: "pyval \<times> pyval \<Rightarrow> string" where
  "key_text key = ''('' @ py_repr (fst key) @ '', '' @ py_repr (snd key) @ '')''"

definition check_kernel_row :: "row \<Rightarrow> kernel_references \<Rightarrow> kernel_references result" where
  "check_kernel_row r references =
     rbind (row_item r ''case'') (\<lambda>cs.
     rbind (row_item r ''iterations'') (\<lambda>its.
     rbind (row_item r ''bytecode_bytes'') (\<lambda>code.
     rbind (row_item r ''gas_used'') (\<lambda>gas.
     let references' = dict_setdefault references (cs, its) (code, gas) in
     rbind (if dict_get references' (cs, its) \<noteq> Some (code, gas)
            then rbind (row_item r ''engine'') (\<lambda>e. Inl (ValueError (''kernel bytecode/gas mismatch: '' @ key_text (cs, its) @ '', '' @ py_str e)))
            else Inr ()) (\<lambda>_.
     rbind (rbind (row_item r ''host_calls'') py_int) (\<lambda>calls.
     rbind (if calls \<noteq> 0
            then rbind (row_item r ''engine'') (\<lambda>e. Inl (ValueError (''kernel touched host: '' @ key_text (cs, its) @ '', '' @ py_str e)))
            else Inr ()) (\<lambda>_.
       Inr references')))))))"

definition check_kernel_rows :: "row list \<Rightarrow> unit result" where
  "check_kernel_rows rows = rbind (rfold check_kernel_row rows []) (\<lambda>_. Inr ())"

definition read_csv_rows :: "path \<Rightarrow> row list io" where
  "read_csv_rows p = bnd (read_file p) (\<lambda>content. ret (read_csv_text content))"

definition run_kernel :: "bench_env \<Rightarrow> bench_args \<Rightarrow> path \<Rightarrow> path \<Rightarrow> row list io" where
  "run_kernel env args raw_dir out =
     bnd (run_command env raw_dir ''kernel-zig'' (kernel_zig_argv args)) (\<lambda>(zig_out, _).
     bnd (run_command env raw_dir ''kernel-evm2'' (kernel_evm2_argv args)) (\<lambda>(evm2_out, _).
     let p = path_join out ''kernel_summary.csv'' in
     bnd (write_file p (combine_csv_text [zig_out, evm2_out])) (\<lambda>_.
     bnd (read_csv_rows p) (\<lambda>rows.
     bnd (lift (check_kernel_rows rows)) (\<lambda>_. ret rows)))))"

section \<open>Medians and the checkpoint\<close>

type_synonym medians = "(string list, pyfloat) dict"

definition row_get :: "row \<Rightarrow> string \<Rightarrow> pyval \<Rightarrow> pyval" where
  "row_get r k dflt = (case dict_get r k of None \<Rightarrow> dflt | Some v \<Rightarrow> v)"

definition group_value :: "float_ops \<Rightarrow> string list \<Rightarrow> string \<Rightarrow> row \<Rightarrow> (string list, pyfloat list) dict \<Rightarrow>
    (string list, pyfloat list) dict result" where
  "group_value fl ks value_key r groups =
     rbind (float_value fl (row_get r value_key PNone)) (\<lambda>value.
       Inr (case value of None \<Rightarrow> groups
            | Some v \<Rightarrow> dict_append groups (map (\<lambda>k. py_str (row_get r k (PStr []))) ks) v))"

definition grouped_medians :: "float_ops \<Rightarrow> row list \<Rightarrow> string list \<Rightarrow> string \<Rightarrow> medians result" where
  "grouped_medians fl rows ks value_key =
     rbind (rfold (group_value fl ks value_key) rows []) (\<lambda>groups.
       rmap (\<lambda>(k, vs). rbind (median fl vs) (\<lambda>m. Inr (k, m))) groups)"

definition flatten_step :: "string \<Rightarrow> string list \<times> pyfloat \<Rightarrow> (string, pyfloat) dict \<Rightarrow> (string, pyfloat) dict" where
  "flatten_step engine kv values = (case fst kv of
      [key_engine, name] \<Rightarrow> if key_engine = engine then dict_set values name (snd kv) else values
    | _ \<Rightarrow> values)"

definition flatten_engine_map :: "medians \<Rightarrow> string \<Rightarrow> (string, pyfloat) dict" where
  "flatten_engine_map grouped engine = sort_key fst (fold (flatten_step engine) grouped [])"

text \<open>The median times of the baseline engine, a later row of a fixture replacing an earlier one.\<close>

definition baseline_step :: "row \<Rightarrow> (string, pyval) dict \<Rightarrow> (string, pyval) dict result" where
  "baseline_step r values =
     (if py_eq (row_get r ''engine'' PNone) (PStr VM_LOOP_BASELINE_ENGINE) \<and> row_get r ''median_ms'' PNone \<noteq> PNone
      then rbind (row_item r ''fixture'') (\<lambda>f. rbind (row_item r ''median_ms'') (\<lambda>m. Inr (dict_set values (py_str f) m)))
      else Inr values)"

definition build_checkpoint :: "float_ops \<Rightarrow> row \<Rightarrow> bench_args \<Rightarrow> row list \<Rightarrow> row list \<Rightarrow> row result" where
  "build_checkpoint fl environment args vm_rows kernel_rows =
     rbind (grouped_medians fl kernel_rows [''engine'', ''case''] ''ns_per_iter'') (\<lambda>kernel.
     rbind (rfold baseline_step vm_rows []) (\<lambda>vm.
       Inr [(''schema'', PInt 2), (''environment'', PDict environment),
            (''parameters'', PDict [(''optimize'', PStr (optimize args)), (''kernel_iterations'', PInt (kernel_iterations args)),
               (''repeats'', PInt (repeats args)), (''warmups'', PInt (warmups args))]),
            (''evmz'', PDict [(''vm_loop_engine'', PStr VM_LOOP_BASELINE_ENGINE), (''vm_loop_median_ms'', PDict vm),
               (''kernel_ns_per_iter'', PDict (map (\<lambda>(k, v). (k, PFloat v)) (flatten_engine_map kernel ''evmz'')))])]))"

section \<open>The rendered report\<close>

text \<open>Cells are converted with \<^verbatim>\<open>str\<close> when the row is built, which the table writer does to every cell.\<close>

abbreviation str_item :: "row \<Rightarrow> string \<Rightarrow> string result" where
  "str_item r k \<equiv> rbind (row_item r k) (\<lambda>v. Inr (py_str v))"

definition fixture_key :: "row \<Rightarrow> string \<times> string" where
  "fixture_key r = (py_str (row_get r ''fixture'' (PStr [])), py_str (row_get r ''engine'' (PStr [])))"

definition index_median :: "float_ops \<Rightarrow> row \<Rightarrow> (string \<times> string, pyfloat option) dict \<Rightarrow>
    (string \<times> string, pyfloat option) dict result" where
  "index_median fl r d = rbind (float_value fl (row_get r ''median_ms'' PNone)) (\<lambda>v. Inr (dict_set d (fixture_key r) v))"

definition known :: "pyfloat option option \<Rightarrow> pyfloat option" where
  "known v = (case v of Some (Some f) \<Rightarrow> if pf_true f then Some f else None | _ \<Rightarrow> None)"

definition ratio_of :: "float_ops \<Rightarrow> pyfloat option option \<Rightarrow> pyfloat option \<Rightarrow> pyval" where
  "ratio_of fl a b = (case (known a, known (Some b)) of (Some x, Some y) \<Rightarrow> PFloat (fl_div fl x y) | _ \<Rightarrow> PNone)"

definition vm_loop_cells :: "float_ops \<Rightarrow> (string \<times> string, pyfloat option) dict \<Rightarrow> row \<Rightarrow> string list result" where
  "vm_loop_cells fl by_fixture_engine r =
     rbind (str_item r ''fixture'') (\<lambda>fixture.
     rbind (float_value fl (row_get r ''median_ms'' PNone)) (\<lambda>row_ms.
     rbind (str_item r ''engine'') (\<lambda>engine.
     rbind (str_item r ''host_profile'') (\<lambda>host.
     rbind (str_item r ''runs'') (\<lambda>runs.
     rbind (rbind (row_item r ''runtime_bytes'') fmt_int) (\<lambda>runtime_bytes.
     rbind (fmt_float fl (row_get r ''timed_host_calls_per_run'' PNone) 1) (\<lambda>calls.
     rbind (fmt_int (row_get r ''logs'' PNone)) (\<lambda>logs.
     rbind (rbind (row_item r ''median_ms'') (\<lambda>v. fmt_float fl v 3)) (\<lambda>ms.
     rbind (fmt_ratio fl (ratio_of fl (dict_get by_fixture_engine (fixture, VM_LOOP_BASELINE_ENGINE)) row_ms)) (\<lambda>ratio.
       Inr [fixture, engine, py_str (row_get r ''scope'' (PStr [])), host, runs, runtime_bytes, calls, logs, ms, ratio]))))))))))"

definition vm_loop_heading :: "string list" where
  "vm_loop_heading = [''fixture'', ''engine'', ''scope'', ''host'', ''runs'', ''runtime bytes'', ''host calls/run'', ''logs'',
     ''median ms'', VM_LOOP_BASELINE_ENGINE @ ''/engine'']"

definition vm_loop_note :: string where
  "vm_loop_note = ''VM-core comparison over the same deployed-runtime fixture protocol. Deploy/runtime setup is outside the timed call. '' @
     ''evmz times direct `Interpreter.execute` with prepared metadata, evmone baseline/advanced use analyzed-code execution '' @
     ''from the standalone C++ runner, and EVM2 times its low-level interpreter loop with prepared bytecode. '' @
     ''EVM2 uses stable packed dispatch with Rust 1.96.0; opt-in nightly rows use nightly-2026-06-01 and identify packed '' @
     ''versus tail-call dispatch separately. The executor/transaction lane is intentionally left out of this default report '' @
     ''until it has matching EVM2/evmone transaction-level adapters.''"

definition render_vm_loop :: "float_ops \<Rightarrow> row list \<Rightarrow> string list result" where
  "render_vm_loop fl rows =
     rbind (rfold (index_median fl) rows []) (\<lambda>by_fixture_engine.
     rbind (rmap (vm_loop_cells fl by_fixture_engine) rows) (\<lambda>cells.
     rbind (markdown_table (vm_loop_heading # cells)) (\<lambda>table.
       Inr ([''## VM-loop comparison'', [], vm_loop_note, []] @ table @ [[]]))))"

definition pf_eq :: "pyfloat \<Rightarrow> pyfloat \<Rightarrow> bool" where
  "pf_eq a b = py_eq (PFloat a) (PFloat b)"

definition ranked_less :: "pyfloat \<times> string \<Rightarrow> pyfloat \<times> string \<Rightarrow> bool" where
  "ranked_less p q = (if pf_eq (fst p) (fst q) then snd p < snd q else pf_less (fst p) (fst q))"

definition kernel_cases :: "medians \<Rightarrow> string list" where
  "kernel_cases medians = sort (remdups (map (\<lambda>k. k ! 1) (dict_keys medians)))"

definition kernel_rivals :: "string list" where
  "kernel_rivals = [''evmone-baseline'', ''evmone-advanced'', ''evm2-interpreter'']"

definition best_rival :: "medians \<Rightarrow> string \<Rightarrow> pyfloat option" where
  "best_rival medians cs = pick pf_less (filter pf_true (List.map_filter (\<lambda>e. dict_get medians [e, cs]) kernel_rivals))"

definition rank_case :: "float_ops \<Rightarrow> medians \<Rightarrow> string \<Rightarrow> (pyfloat \<times> string) option" where
  "rank_case fl medians cs = (case (dict_get medians [''evmz'', cs], best_rival medians cs) of
      (Some m, Some best) \<Rightarrow> if pf_true m \<and> pf_true best then Some (fl_div fl m best, cs) else None
    | _ \<Rightarrow> None)"

text \<open>\<^verbatim>\<open>sort(reverse=True)\<close> reverses before and after, which keeps equal elements in order.\<close>

definition kernel_ranking :: "float_ops \<Rightarrow> medians \<Rightarrow> (pyfloat \<times> string) list" where
  "kernel_ranking fl medians = rev (sort_by ranked_less (rev (List.map_filter (rank_case fl medians) (kernel_cases medians))))"

definition kernel_cells :: "float_ops \<Rightarrow> medians \<Rightarrow> pyfloat \<times> string \<Rightarrow> string list result" where
  "kernel_cells fl medians p = (case p of (ratio, cs) \<Rightarrow>
     rbind (rmap (\<lambda>e. fmt_float fl (opt_float (dict_get medians [e, cs])) 2) (''evmz'' # kernel_rivals)) (\<lambda>cells.
     rbind (fmt_ratio fl (PFloat ratio)) (\<lambda>last_cell. Inr ([cs] @ cells @ [last_cell]))))"

definition kernel_note :: string where
  "kernel_note = ''Median ns/iteration. All kernel rows time direct interpreter execution; bytecode generation, analysis, and '' @
     ''interpreter setup are excluded. EVM2 uses stable packed dispatch and reports execution gas without transaction overhead.''"

definition render_kernel :: "float_ops \<Rightarrow> row list \<Rightarrow> string list result" where
  "render_kernel fl rows =
     rbind (grouped_medians fl rows [''engine'', ''case''] ''ns_per_iter'') (\<lambda>medians.
     rbind (rmap (kernel_cells fl medians) (take 14 (kernel_ranking fl medians))) (\<lambda>cells.
     rbind (markdown_table ([''case'', ''evmz'', ''evmone base'', ''evmone adv'', ''EVM2 packed'', ''evmz/best''] # cells)) (\<lambda>table.
       Inr ([''## Opcode kernel comparison'', [], kernel_note, []] @ table @ [[]]))))"

section \<open>The checkpoint delta\<close>

text \<open>\<^verbatim>\<open>bool(v)\<close>.\<close>

definition py_true :: "pyval \<Rightarrow> bool" where
  "py_true v = (case v of PNone \<Rightarrow> False | PBool b \<Rightarrow> b | PInt n \<Rightarrow> n \<noteq> 0 | PFloat f \<Rightarrow> pf_true f
     | PStr s \<Rightarrow> s \<noteq> [] | PList xs \<Rightarrow> xs \<noteq> [] | PDict d \<Rightarrow> d \<noteq> [])"

text \<open>The strings in \<^verbatim>\<open>set(v)\<close>; a list with an unhashable element and a value that is no iterable raise.\<close>

definition string_members :: "pyval \<Rightarrow> string list result" where
  "string_members v = (case v of
      PDict d \<Rightarrow> Inr (dict_keys d)
    | PStr s \<Rightarrow> Inr (map (\<lambda>c. [c]) s)
    | PList xs \<Rightarrow>
        if \<exists>x\<in>set xs. (case x of PList _ \<Rightarrow> True | PDict _ \<Rightarrow> True | _ \<Rightarrow> False) then Inl (TypeError ''unhashable type'')
        else Inr (List.map_filter (\<lambda>x. case x of PStr s \<Rightarrow> Some s | _ \<Rightarrow> None) xs)
    | _ \<Rightarrow> Inl (TypeError (CHR 0x27 # type_name v @ [CHR 0x27] @ '' object is not iterable'')))"

definition delta_sections :: "(string \<times> string) list" where
  "delta_sections = [(''kernel_ns_per_iter'', ''lower''), (''vm_loop_median_ms'', ''lower'')]"

definition section_map :: "pyval \<Rightarrow> string \<Rightarrow> pyval result" where
  "section_map v sect = rbind (py_get_default v ''evmz'' (PDict [])) (\<lambda>e. py_get_default e sect (PDict []))"

definition delta_of :: "float_ops \<Rightarrow> string \<Rightarrow> pyfloat \<Rightarrow> pyfloat \<Rightarrow> pyfloat" where
  "delta_of fl direction old current = (if direction = ''lower'' then fl_div fl (fl_sub fl old current) old
     else fl_div fl (fl_sub fl current old) old)"

definition delta_row :: "float_ops \<Rightarrow> string \<Rightarrow> string \<Rightarrow> pyval \<Rightarrow> pyval \<Rightarrow> string \<Rightarrow> string list list result" where
  "delta_row fl sect direction current_map baseline_map name =
     rbind (rbind (py_get current_map name) (float_value fl)) (\<lambda>current0.
     rbind (rbind (py_get baseline_map name) (float_value fl)) (\<lambda>old0.
     case (current0, old0) of
       (Some current, Some old) \<Rightarrow>
         if \<not> pf_true old then Inr []
         else rbind (fmt_float fl (PFloat old) 2) (\<lambda>a. rbind (fmt_float fl (PFloat current) 2) (\<lambda>b.
           Inr [[sect, name, a, b, fmt_percent fl (delta_of fl direction old current)]]))
     | _ \<Rightarrow> Inr []))"

definition delta_section_rows :: "float_ops \<Rightarrow> pyval \<Rightarrow> pyval \<Rightarrow> string \<times> string \<Rightarrow> string list list result" where
  "delta_section_rows fl checkpoint baseline sd = (case sd of (sect, direction) \<Rightarrow>
     rbind (section_map checkpoint sect) (\<lambda>current_map.
     rbind (section_map baseline sect) (\<lambda>baseline_map.
     rbind (string_members current_map) (\<lambda>ks.
     rbind (string_members baseline_map) (\<lambda>bs.
     rbind (rmap (delta_row fl sect direction current_map baseline_map) (sort (remdups (filter (\<lambda>k. k \<in> set bs) ks)))) (\<lambda>rows.
       Inr (concat rows)))))))"

definition no_baseline_note :: string where
  "no_baseline_note = ''No baseline supplied. Pass `--baseline <checkpoint.json>` after an optimization branch.''"

definition render_checkpoint_delta :: "float_ops \<Rightarrow> pyval \<Rightarrow> pyval \<Rightarrow> string list result" where
  "render_checkpoint_delta fl checkpoint baseline =
     (if \<not> py_true baseline then Inr [''## Evmz checkpoint delta'', [], no_baseline_note, []]
      else rbind (rmap (delta_section_rows fl checkpoint baseline) delta_sections) (\<lambda>parts.
        rbind (markdown_table (take 24 ([''metric'', ''case'', ''baseline'', ''current'', ''delta''] # concat parts))) (\<lambda>table.
          Inr ([''## Evmz checkpoint delta'', []] @ table @ [[]]))))"

section \<open>The whole report\<close>

definition code_item :: "row \<Rightarrow> string \<Rightarrow> string result" where
  "code_item environment k = rbind (row_item environment k) (\<lambda>v. Inr (''- '' @ k @ '': `'' @ py_str v @ ''`''))"

definition release_note :: string where
  "release_note = ''Native release means Zig `fast` for Zig/C++ runners and Cargo release for Rust runners; stable Rust rows use '' @
     ''1.96.0 and opt-in nightly rows use nightly-2026-06-01. all compared engines explicitly omit frame pointers, and all '' @
     ''Rust variants use `target-cpu=native`.''"

definition render_report :: "bench_env \<Rightarrow> row \<Rightarrow> row list \<Rightarrow> row list \<Rightarrow> path \<Rightarrow> path option \<Rightarrow> pyval \<Rightarrow> pyval \<Rightarrow> string result" where
  "render_report env environment vm_rows kernel_rows checkpoint_path baseline_path checkpoint baseline =
     rbind (rmap (code_item environment) [''generated_at'', ''lane'', ''platform'', ''zig'', ''rustc'', ''cargo'', ''solc'']) (\<lambda>items.
     rbind (render_vm_loop (b_fl env) vm_rows) (\<lambda>vm_part.
     rbind (render_kernel (b_fl env) kernel_rows) (\<lambda>kernel_part.
     rbind (render_checkpoint_delta (b_fl env) checkpoint baseline) (\<lambda>delta_part.
       Inr (join [newline] ([''# evm.zig Benchmark Report'', []] @ items @
         [''- checkpoint: `'' @ display_path env checkpoint_path @ ''`''] @
         (case baseline_path of None \<Rightarrow> [] | Some p \<Rightarrow> [''- baseline: `'' @ display_path env p @ ''`'']) @
         [[], release_note, []] @ vm_part @ kernel_part @ delta_part) @ [newline])))))"

definition load_json :: "bench_env \<Rightarrow> path \<Rightarrow> pyval io" where
  "load_json env p = bnd (read_file p) (\<lambda>content. lift (b_loads env content))"

text \<open>An option that is absent or the empty string counts as not given.\<close>

definition given :: "string option \<Rightarrow> string option" where
  "given v = (case v of Some s \<Rightarrow> if s = [] then None else Some s | None \<Rightarrow> None)"

definition output_path :: "bench_env \<Rightarrow> string option \<Rightarrow> path \<Rightarrow> string \<Rightarrow> path" where
  "output_path env arg out name = (case given arg of Some s \<Rightarrow> resolve_path env s | None \<Rightarrow> path_join out name)"

definition bench_main :: "bench_env \<Rightarrow> bench_args \<Rightarrow> int io" where
  "bench_main env args0 =
     (let args = finish_args args0;
          out = resolve_path env (out_dir args);
          raw_dir = path_join out ''raw'';
          checkpoint_path = output_path env (checkpoint_arg args) out ''evmz-checkpoint.json'';
          report_path = output_path env (report_arg args) out ''report.md'';
          baseline_path = map_option (resolve_path env) (given (baseline_arg args))
      in bnd (mkdir_parents out) (\<lambda>_.
         bnd (mkdir_parents raw_dir) (\<lambda>_.
         bnd (collect_environment env args) (\<lambda>environment.
         bnd (run_vm_loop env args raw_dir) (\<lambda>vm_rows.
         bnd (run_kernel env args raw_dir out) (\<lambda>kernel_rows.
         bnd (lift (build_checkpoint (b_fl env) environment args vm_rows kernel_rows)) (\<lambda>checkpoint.
         bnd (mkdir_parents (path_parent checkpoint_path)) (\<lambda>_.
         bnd (write_file checkpoint_path (json_indent (PDict checkpoint) 0 @ [newline])) (\<lambda>_.
         bnd (case baseline_path of None \<Rightarrow> ret PNone | Some p \<Rightarrow> load_json env p) (\<lambda>baseline.
         bnd (lift (render_report env environment vm_rows kernel_rows checkpoint_path baseline_path (PDict checkpoint) baseline)) (\<lambda>report.
         bnd (mkdir_parents (path_parent report_path)) (\<lambda>_.
         bnd (write_file report_path report) (\<lambda>_.
           ret 0)))))))))))))"

section \<open>The consistency check\<close>

text \<open>
  What the kernel layer promises of a row, and of two rows. A field is there when the row has its key: the
  \<^verbatim>\<open>None\<close> that a \<^verbatim>\<open>DictReader\<close> puts into a missing cell counts as there, as for the script.
\<close>

definition kernel_key :: "row \<Rightarrow> (pyval \<times> pyval) option" where
  "kernel_key r = (case (dict_get r ''case'', dict_get r ''iterations'') of (Some a, Some b) \<Rightarrow> Some (a, b) | _ \<Rightarrow> None)"

definition kernel_result :: "row \<Rightarrow> (pyval \<times> pyval) option" where
  "kernel_result r = (case (dict_get r ''bytecode_bytes'', dict_get r ''gas_used'') of (Some a, Some b) \<Rightarrow> Some (a, b) | _ \<Rightarrow> None)"

definition kernel_row_ok :: "row \<Rightarrow> bool" where
  "kernel_row_ok r = (kernel_key r \<noteq> None \<and> kernel_result r \<noteq> None \<and>
     (case dict_get r ''host_calls'' of None \<Rightarrow> False | Some v \<Rightarrow> py_int v = Inr 0))"

definition kernel_consistent :: "row list \<Rightarrow> bool" where
  "kernel_consistent rows = ((\<forall>r\<in>set rows. kernel_row_ok r) \<and>
     (\<forall>r\<in>set rows. \<forall>q\<in>set rows. kernel_key r = kernel_key q \<longrightarrow> kernel_result r = kernel_result q))"

lemma check_kernel_row_Inr_iff:
  "check_kernel_row r refs = Inr refs' \<longleftrightarrow> kernel_row_ok r \<and>
     (\<exists>k v. kernel_key r = Some k \<and> kernel_result r = Some v \<and> refs' = dict_setdefault refs k v \<and> dict_get refs' k = Some v)"
  by (auto simp: check_kernel_row_def kernel_row_ok_def kernel_key_def kernel_result_def row_item_def Let_def
      result_simps value_simps split: option.splits)

text \<open>The references after a prefix of the rows are the results of that prefix, by key.\<close>

definition refs_of :: "row list \<Rightarrow> kernel_references \<Rightarrow> bool" where
  "refs_of rows refs = (\<forall>k v. dict_get refs k = Some v \<longleftrightarrow> (\<exists>r\<in>set rows. kernel_key r = Some k \<and> kernel_result r = Some v))"

lemma setdefault_lookup:
  "dict_get (dict_setdefault d k v) j = (if j = k \<and> dict_get d k = None then Some v else dict_get d j)"
  by (auto simp: dict_simps)

lemma consistent_snoc:
  "kernel_consistent (rows @ [r]) \<longleftrightarrow> kernel_consistent rows \<and> kernel_row_ok r \<and>
     (\<forall>q\<in>set rows. kernel_key q = kernel_key r \<longrightarrow> kernel_result q = kernel_result r)"
proof -
  have "(\<forall>q\<in>set rows. kernel_key r = kernel_key q \<longrightarrow> kernel_result r = kernel_result q) \<longleftrightarrow>
      (\<forall>q\<in>set rows. kernel_key q = kernel_key r \<longrightarrow> kernel_result q = kernel_result r)" by metis
  then show ?thesis
    unfolding kernel_consistent_def set_append list.set ball_Un ball_simps ball_conj_distrib simp_thms by argo
qed

lemma row_okE:
  assumes "kernel_row_ok r"
  obtains k v where "kernel_key r = Some k" and "kernel_result r = Some v"
  using assms by (auto simp: kernel_row_ok_def)

lemma consistent_okD: "kernel_consistent rows \<Longrightarrow> q \<in> set rows \<Longrightarrow> kernel_row_ok q"
  by (simp add: kernel_consistent_def)

lemma check_kernel_row_step:
  assumes refs: "refs_of rows refs" and cons: "kernel_consistent rows"
  shows "check_kernel_row r refs = Inr refs' \<Longrightarrow> kernel_consistent (rows @ [r]) \<and> refs_of (rows @ [r]) refs'"
    and "kernel_consistent (rows @ [r]) \<Longrightarrow> \<exists>refs'. check_kernel_row r refs = Inr refs'"
proof -
  assume "check_kernel_row r refs = Inr refs'"
  then obtain k v where ok: "kernel_row_ok r" and kv: "kernel_key r = Some k" "kernel_result r = Some v"
    and refs': "refs' = dict_setdefault refs k v" "dict_get refs' k = Some v"
    by (auto simp: check_kernel_row_Inr_iff)
  have same: "kernel_result q = kernel_result r" if q: "q \<in> set rows" "kernel_key q = kernel_key r" for q
  proof -
    obtain u where u: "kernel_result q = Some u" using row_okE [OF consistent_okD [OF cons q(1)]] by metis
    then have "dict_get refs k = Some u" using refs q kv unfolding refs_of_def by metis
    then show ?thesis using refs' u kv by (simp add: setdefault_lookup)
  qed
  then have "kernel_consistent (rows @ [r])" using cons ok by (auto simp: consistent_snoc)
  moreover have "refs_of (rows @ [r]) refs'"
    unfolding refs_of_def
  proof (intro allI)
    fix j u
    show "dict_get refs' j = Some u \<longleftrightarrow> (\<exists>q\<in>set (rows @ [r]). kernel_key q = Some j \<and> kernel_result q = Some u)"
    proof (cases "j = k")
      case True
      then show ?thesis using refs'(2) kv same by auto
    next
      case False
      then show ?thesis using refs [unfolded refs_of_def, rule_format, of j u] kv
        by (simp only: refs'(1) setdefault_lookup set_append) auto
    qed
  qed
  ultimately show "kernel_consistent (rows @ [r]) \<and> refs_of (rows @ [r]) refs'" ..
next
  assume "kernel_consistent (rows @ [r])"
  then have ok: "kernel_row_ok r" and same: "\<forall>q\<in>set rows. kernel_key q = kernel_key r \<longrightarrow> kernel_result q = kernel_result r"
    by (simp_all add: consistent_snoc)
  obtain k v where kv: "kernel_key r = Some k" "kernel_result r = Some v" using row_okE [OF ok] .
  have "u = v" if "dict_get refs k = Some u" for u
    using refs that same kv unfolding refs_of_def by (metis option.inject)
  then have "dict_get (dict_setdefault refs k v) k = Some v"
    by (cases "dict_get refs k") (auto simp: setdefault_lookup)
  then show "\<exists>refs'. check_kernel_row r refs = Inr refs'" using ok kv by (auto simp: check_kernel_row_Inr_iff)
qed

lemma check_rows_fold:
  "(rfold check_kernel_row rows [] = Inr refs \<longrightarrow> kernel_consistent rows \<and> refs_of rows refs) \<and>
   (kernel_consistent rows \<longrightarrow> (\<exists>refs. rfold check_kernel_row rows [] = Inr refs))"
proof (induction rows arbitrary: refs rule: rev_induct)
  case Nil
  then show ?case by (auto simp: kernel_consistent_def refs_of_def)
next
  case (snoc r rows)
  show ?case
  proof (rule conjI; rule impI)
    assume "rfold check_kernel_row (rows @ [r]) [] = Inr refs"
    then obtain mid where "rfold check_kernel_row rows [] = Inr mid" and "check_kernel_row r mid = Inr refs"
      by (auto simp: rfold_append result_simps)
    then show "kernel_consistent (rows @ [r]) \<and> refs_of (rows @ [r]) refs"
      using check_kernel_row_step(1) [of rows mid r refs] snoc.IH by blast
  next
    assume c: "kernel_consistent (rows @ [r])"
    then have "kernel_consistent rows" by (simp add: consistent_snoc)
    then obtain mid where mid: "rfold check_kernel_row rows [] = Inr mid" using snoc.IH by blast
    then have "refs_of rows mid" and "kernel_consistent rows" using snoc.IH by blast+
    then obtain refs' where "check_kernel_row r mid = Inr refs'" using check_kernel_row_step(2) c by blast
    with mid show "\<exists>refs. rfold check_kernel_row (rows @ [r]) [] = Inr refs" by (simp add: rfold_append)
  qed
qed

lemma check_kernel_rows_iff: "check_kernel_rows rows = Inr () \<longleftrightarrow> kernel_consistent rows"
  using check_rows_fold [of rows] by (auto simp: check_kernel_rows_def result_simps)

section \<open>The log of a computation\<close>

text \<open>When the computation returns, exactly these commands have been started, in this order.\<close>

definition logs :: "'a io \<Rightarrow> string list list \<Rightarrow> bool" where
  "logs m cs = (\<forall>w x w'. m w = (Inr x, w') \<longrightarrow> world_commands w' = world_commands w @ cs)"

lemma logsI: "(\<And>w x w'. m w = (Inr x, w') \<Longrightarrow> world_commands w' = world_commands w @ cs) \<Longrightarrow> logs m cs"
  by (simp add: logs_def)

lemma logsD: "logs m cs \<Longrightarrow> m w = (Inr x, w') \<Longrightarrow> world_commands w' = world_commands w @ cs"
  by (simp add: logs_def)

lemma logs_bnd: "logs m cs \<Longrightarrow> (\<And>x. logs (f x) ds) \<Longrightarrow> logs (bnd m f) (cs @ ds)"
proof (rule logsI)
  fix w y w' assume m: "logs m cs" and f: "\<And>x. logs (f x) ds" and "bnd m f w = (Inr y, w')"
  then obtain x v where "m w = (Inr x, v)" and "f x v = (Inr y, w')" by (auto simp: bnd_Inr_iff)
  then show "world_commands w' = world_commands w @ cs @ ds" using logsD [OF m] logsD [OF f] by simp
qed

lemma logs_bnd_Cons: "logs m [c] \<Longrightarrow> (\<And>x. logs (f x) ds) \<Longrightarrow> logs (bnd m f) (c # ds)"
  using logs_bnd [of m "[c]" f ds] by simp

lemma logs_quiet: "quiet.keeps m \<Longrightarrow> logs m []"
  by (rule logsI) (auto simp: same_log_def dest: quiet.keepsD)

lemma logs_quiet_bnd: "quiet.keeps m \<Longrightarrow> (\<And>x. logs (f x) ds) \<Longrightarrow> logs (bnd m f) ds"
  using logs_bnd [OF logs_quiet] by (metis append_Nil)

lemma logs_bnd_quiet: "logs m cs \<Longrightarrow> (\<And>x. quiet.keeps (f x)) \<Longrightarrow> logs (bnd m f) cs"
  using logs_bnd [OF _ logs_quiet] by (metis append_Nil2)

lemma logs_map: "(\<And>x. x \<in> set xs \<Longrightarrow> logs (f x) (g x)) \<Longrightarrow> logs (io_map f xs) (concat (map g xs))"
proof (induction xs)
  case Nil
  show ?case by (rule logsI) simp
next
  case (Cons x xs)
  then have "logs (f x) (g x)" and "logs (io_map f xs) (concat (map g xs))" by auto
  then show ?case by (simp add: logs_bnd logs_bnd_quiet quiet.keeps_basic)
qed

lemma logs_run_process: "logs (run_process run argv) [argv]"
  by (rule logsI) (auto simp: io_simps)

lemma logs_run_command: "logs (run_command env raw_dir name argv) [argv]"
  unfolding run_command_def
  by (intro logs_bnd_quiet logs_run_process quiet.keeps_intros quiet_file_ops)

lemma logs_command_version: "logs (command_version env argv) [argv]"
  by (rule logsI) (auto simp: command_version_def run_process_def Let_def split: prod.splits sum.splits if_splits)

definition version_commands :: "bench_args \<Rightarrow> string list list" where
  "version_commands args = [[zig_exe args, ''version''], [''rustc'', ''+1.96.0'', ''--version''], [''cargo'', ''+1.96.0'', ''--version'']] @
     (if evm2_nightly args then [[''rustc'', ''+nightly-2026-06-01'', ''--version'']] else []) @ [[''solc'', ''--version'']]"

definition pair_command :: "bench_args \<Rightarrow> string \<times> string \<Rightarrow> string list" where
  "pair_command args pair = (case pair of (fixture, engine) \<Rightarrow>
     snd (vm_loop_command args fixture (path_name (path_of fixture)) engine))"

lemma logs_environment: "logs (collect_environment env args) (version_commands args)"
proof -
  have solc: "logs (solc_version env) [[''solc'', ''--version'']]"
    unfolding solc_version_def by (intro logs_bnd_quiet logs_command_version quiet.keeps_intros)
  have nightly: "logs (if evm2_nightly args then bnd (command_version env [''rustc'', ''+nightly-2026-06-01'', ''--version'']) (\<lambda>v. ret (PStr v))
      else ret PNone) (if evm2_nightly args then [[''rustc'', ''+nightly-2026-06-01'', ''--version'']] else [])"
    by (auto intro!: logs_bnd_quiet logs_command_version quiet.keeps_intros logs_quiet)
  show ?thesis
    unfolding collect_environment_def version_commands_def append_Cons append_Nil
    by (intro logs_bnd_Cons [OF logs_command_version] logs_bnd [OF nightly] logs_bnd_quiet [OF solc] quiet.keeps_basic)
qed

lemma logs_pair: "logs (run_vm_loop_pair env args raw_dir pair) [pair_command args pair]"
  by (auto simp: run_vm_loop_pair_def pair_command_def run_vm_loop_engine_def Let_def
      intro!: logs_bnd_quiet logs_run_command quiet.keeps_intros split: prod.splits)

lemma logs_vm_loop: "logs (run_vm_loop env args raw_dir) (map (pair_command args) (vm_loop_pairs args))"
proof -
  have "logs (io_map (run_vm_loop_pair env args raw_dir) (vm_loop_pairs args)) (concat (map (\<lambda>p. [pair_command args p]) (vm_loop_pairs args)))"
    by (rule logs_map) (rule logs_pair)
  then show ?thesis unfolding run_vm_loop_def write_csv_def
    by (auto intro!: logs_bnd_quiet quiet.keeps_intros quiet_file_ops split: prod.splits)
qed

lemma logs_kernel: "logs (run_kernel env args raw_dir out) [kernel_zig_argv args, kernel_evm2_argv args]"
  unfolding run_kernel_def read_csv_rows_def Let_def split_def
  by (intro logs_bnd_Cons [OF logs_run_command] logs_bnd_quiet [OF logs_run_command] quiet.keeps_basic quiet.keeps_bnd quiet_file_ops)

text \<open>All commands of a report, in order.\<close>

definition bench_commands :: "bench_args \<Rightarrow> string list list" where
  "bench_commands args = version_commands args @ map (pair_command args) (vm_loop_pairs args) @
     [kernel_zig_argv args, kernel_evm2_argv args]"

lemma quiet_load_json: "quiet.keeps (load_json env p)"
  unfolding load_json_def by (intro quiet.keeps_basic quiet.keeps_bnd quiet_file_ops)

lemma quiet_baseline: "quiet.keeps (case b of None \<Rightarrow> ret PNone | Some p \<Rightarrow> load_json env p)"
  by (cases b) (simp_all add: quiet.keeps_basic quiet_load_json)

lemma logs_main: "logs (bench_main env args) (bench_commands (finish_args args))"
  unfolding bench_main_def bench_commands_def Let_def
  by (intro logs_quiet_bnd logs_bnd [OF logs_environment] logs_bnd [OF logs_vm_loop] logs_bnd_quiet [OF logs_kernel]
      quiet.keeps_basic quiet.keeps_bnd quiet_file_ops quiet_baseline)

section \<open>Inversion of the layers\<close>

lemma run_command_Inr:
  assumes "run_command env raw_dir name argv w = (Inr (out, err), w')"
  shows "\<exists>c fs. b_run env (Some (b_bench_dir env)) (command_env env argv) argv (world_files w) = (Inr c, fs) \<and>
    returncode c = 0 \<and> out = run_stdout c \<and> err = run_stderr c \<and>
    world_files w' = dict_set (dict_set (dict_set fs (path_join raw_dir (name @ ''.cmd'')) (FileNode (command_text argv)))
      (path_join raw_dir (name @ ''.stdout'')) (FileNode out)) (path_join raw_dir (name @ ''.stderr'')) (FileNode err)"
  using assms unfolding run_command_def bnd_Inr_iff run_process_eq write_file_Inr_iff io_raise_if_Inr_iff
  by (auto)

lemma raw_path: "CHR ''/'' \<notin> set name \<Longrightarrow> CHR ''/'' \<notin> set ext \<Longrightarrow> 1 < length ext \<Longrightarrow>
    path_join raw_dir (name @ ext) = raw_dir @ [name @ ext]"
  by (rule path_join_name) (auto dest: arg_cong [of _ _ length])

lemma run_kernel_checked:
  assumes "run_kernel env args raw_dir out w = (Inr rows, w')"
  shows "kernel_consistent rows"
  using assms unfolding run_kernel_def Let_def bnd_Inr_iff lift_Inr_iff split_def
  by (auto simp: check_kernel_rows_iff)

lemma vm_loop_row_fixture: "vm_loop_row fl name engine out err = Inr r \<Longrightarrow> dict_get r ''fixture'' = Some (PStr name)"
  unfolding vm_loop_row_def Let_def rbind_Inr_iff by auto

text \<open>A run of a command that exited with 0.\<close>

definition ran :: "bench_env \<Rightarrow> string list \<Rightarrow> completed \<Rightarrow> bool" where
  "ran env argv c \<longleftrightarrow> (\<exists>fs fs'. b_run env (Some (b_bench_dir env)) (command_env env argv) argv fs = (Inr c, fs')) \<and> returncode c = 0"

text \<open>
  The rows of a sweep: one for every fixture and engine, in order, each read from the output of a run of the command of its
  fixture and engine.
\<close>

definition sweep_rows :: "bench_env \<Rightarrow> bench_args \<Rightarrow> row list \<Rightarrow> bool" where
  "sweep_rows env args rows = list_all2 (\<lambda>pair r. \<exists>c. ran env (pair_command args pair) c \<and>
       vm_loop_row (b_fl env) (path_name (path_of (fst pair))) (snd pair) (run_stdout c) (run_stderr c) = Inr r)
     (vm_loop_pairs args) rows"

text \<open>The rows of the kernel layer: those of the combined output of its two runs.\<close>

definition kernel_rows_of :: "completed \<Rightarrow> completed \<Rightarrow> row list" where
  "kernel_rows_of c d = read_csv_text (combine_csv_text [run_stdout c, run_stdout d])"

definition kernel_ran :: "bench_env \<Rightarrow> bench_args \<Rightarrow> row list \<Rightarrow> bool" where
  "kernel_ran env args rows \<longleftrightarrow>
     (\<exists>c d. ran env (kernel_zig_argv args) c \<and> ran env (kernel_evm2_argv args) d \<and> rows = kernel_rows_of c d)"

lemma run_command_ran:
  assumes "run_command env raw_dir name argv w = (Inr (out, err), w')"
  shows "\<exists>c. ran env argv c \<and> out = run_stdout c \<and> err = run_stderr c"
proof -
  obtain c v where "run_process (b_run env (Some (b_bench_dir env)) (command_env env argv)) argv w = (Inr c, v)"
    and "returncode c = 0" "out = run_stdout c" "err = run_stderr c"
    using assms unfolding run_command_def bnd_Inr_iff io_raise_if_Inr_iff by auto
  then show ?thesis unfolding run_process_def ran_def by (auto split: prod.splits)
qed

lemma run_kernel_ran:
  assumes "run_kernel env args raw_dir out w = (Inr rows, w')"
  shows "kernel_ran env args rows"
proof -
  obtain a e b f w1 w2 w3 w4 where a: "run_command env raw_dir ''kernel-zig'' (kernel_zig_argv args) w = (Inr (a, e), w1)"
    and b: "run_command env raw_dir ''kernel-evm2'' (kernel_evm2_argv args) w1 = (Inr (b, f), w2)"
    and wr: "write_file (path_join out ''kernel_summary.csv'') (combine_csv_text [a, b]) w2 = (Inr (), w3)"
    and rd: "read_csv_rows (path_join out ''kernel_summary.csv'') w3 = (Inr rows, w4)"
    using assms unfolding run_kernel_def Let_def bnd_Inr_iff lift_Inr_iff split_def by fastforce
  have "dict_get (world_files w3) (path_join out ''kernel_summary.csv'') = Some (FileNode (combine_csv_text [a, b]))"
    using wr by (auto simp: io_simps dict_simps)
  then have "rows = read_csv_text (combine_csv_text [a, b])"
    using rd by (simp add: read_csv_rows_def read_file_def bnd_def)
  then show ?thesis using run_command_ran [OF a] run_command_ran [OF b] unfolding kernel_ran_def kernel_rows_of_def by blast
qed

lemma run_vm_loop_rows:
  assumes "run_vm_loop env args raw_dir w = (Inr rows, w')"
  shows "sweep_rows env args rows"
proof -
  obtain v where v: "io_map (run_vm_loop_pair env args raw_dir) (vm_loop_pairs args) w = (Inr rows, v)"
    using assms unfolding run_vm_loop_def bnd_Inr_iff by auto
  show ?thesis unfolding sweep_rows_def
  proof (rule io_map_Inr [OF v])
    fix pair r u v
    assume "run_vm_loop_pair env args raw_dir pair u = (Inr r, v)"
    then obtain out err w1 where run: "run_vm_loop_engine env args raw_dir (fst pair) (path_name (path_of (fst pair))) (snd pair) u = (Inr (out, err), w1)"
      and r: "vm_loop_row (b_fl env) (path_name (path_of (fst pair))) (snd pair) out err = Inr r"
      by (cases pair) (auto simp: run_vm_loop_pair_def Let_def bnd_Inr_iff lift_Inr_iff)
    obtain raw where "run_command env raw_dir raw (pair_command args pair) u = (Inr (out, err), w1)"
      using run by (cases pair) (auto simp: run_vm_loop_engine_def pair_command_def split: prod.splits)
    from run_command_ran [OF this] r show "\<exists>c. ran env (pair_command args pair) c \<and>
       vm_loop_row (b_fl env) (path_name (path_of (fst pair))) (snd pair) (run_stdout c) (run_stderr c) = Inr r" by blast
  qed
qed

lemma blank_output_raises:
  assumes "\<forall>line\<in>set (splitlines out). strip line = []"
  shows "\<exists>e. vm_loop_row fl name engine out err = Inl e"
proof -
  have "filter (\<lambda>line. strip line \<noteq> []) (splitlines out) = []" using assms by (simp add: filter_empty_conv)
  then have "parse_times fl out = Inr []" by (simp add: parse_times_def)
  moreover have "median fl [] = Inl (ValueError ''no median for empty data'')"
    by (simp add: median_def sort_by_def)
  ultimately have "\<nexists>r. vm_loop_row fl name engine out err = Inr r"
    unfolding vm_loop_row_def Let_def rbind_Inr_iff by auto
  then show ?thesis by (cases "vm_loop_row fl name engine out err") auto
qed

lemma write_csv_Inr:
  assumes "write_csv p rows columns w = (Inr u, w')"
  shows "\<exists>t. csv_text rows columns = (t, Inr ()) \<and> dict_get (world_files w') p = Some (FileNode t)"
proof -
  obtain t r where t: "csv_text rows columns = (t, r)" by force
  then obtain v where "write_file p t v = (Inr (), w')" and "r = Inr ()"
    using assms unfolding write_csv_def bnd_Inr_iff by (auto simp: io_simps)
  then show ?thesis using t by (auto simp: io_simps dict_simps)
qed

lemma bench_main_Inr:
  assumes "bench_main env args0 w = (Inr code, w')"
  defines "args \<equiv> finish_args args0"
  defines "out \<equiv> resolve_path env (out_dir args)"
  defines "checkpoint_path \<equiv> output_path env (checkpoint_arg args) out ''evmz-checkpoint.json''"
  defines "report_path \<equiv> output_path env (report_arg args) out ''report.md''"
  defines "baseline_path \<equiv> map_option (resolve_path env) (given (baseline_arg args))"
  shows "code = 0 \<and> (\<exists>environment vm_rows kernel_rows checkpoint baseline report.
    (\<exists>v v'. collect_environment env args v = (Inr environment, v')) \<and>
    sweep_rows env args vm_rows \<and> kernel_ran env args kernel_rows \<and> kernel_consistent kernel_rows \<and>
    (case baseline_path of None \<Rightarrow> baseline = PNone | Some p \<Rightarrow> \<exists>content. b_loads env content = Inr baseline) \<and>
    build_checkpoint (b_fl env) environment args vm_rows kernel_rows = Inr checkpoint \<and>
    render_report env environment vm_rows kernel_rows checkpoint_path baseline_path (PDict checkpoint) baseline = Inr report \<and>
    dict_get (world_files w') report_path = Some (FileNode report) \<and>
    (checkpoint_path \<noteq> report_path \<longrightarrow>
       dict_get (world_files w') checkpoint_path = Some (FileNode (json_indent (PDict checkpoint) 0 @ [newline]))))"
proof -
  obtain environment vm_rows kernel_rows checkpoint baseline report v w0 w1 w2 w3 w4 w5 w6 where
    e: "collect_environment env args v = (Inr environment, w0)"
    and vm: "run_vm_loop env args (path_join out ''raw'') w0 = (Inr vm_rows, w1)"
    and k: "run_kernel env args (path_join out ''raw'') out w1 = (Inr kernel_rows, w2)"
    and c: "build_checkpoint (b_fl env) environment args vm_rows kernel_rows = Inr checkpoint"
    and wc: "write_file checkpoint_path (json_indent (PDict checkpoint) 0 @ [newline]) w3 = (Inr (), w4)"
    and b: "(case baseline_path of None \<Rightarrow> ret PNone | Some p \<Rightarrow> load_json env p) w4 = (Inr baseline, w5)"
    and r: "render_report env environment vm_rows kernel_rows checkpoint_path baseline_path (PDict checkpoint) baseline = Inr report"
    and mk: "mkdir_parents (path_parent report_path) w5 = (Inr (), w6)"
    and wr: "write_file report_path report w6 = (Inr (), w')" and code: "code = 0"
    using assms(1) unfolding bench_main_def Let_def bnd_Inr_iff lift_Inr_iff ret_def args_def [symmetric]
      out_def [symmetric] checkpoint_path_def [symmetric] report_path_def [symmetric] baseline_path_def [symmetric]
    by auto
  have "sweep_rows env args vm_rows" by (rule run_vm_loop_rows [OF vm])
  moreover have "kernel_consistent kernel_rows" by (rule run_kernel_checked [OF k])
  moreover have "dict_get (world_files w') report_path = Some (FileNode report)"
    using wr by (auto simp: io_simps dict_simps)
  moreover have "dict_get (world_files w') checkpoint_path = Some (FileNode (json_indent (PDict checkpoint) 0 @ [newline]))"
    if "checkpoint_path \<noteq> report_path"
  proof -
    have "pure.keeps (case baseline_path of None \<Rightarrow> ret PNone | Some p \<Rightarrow> load_json env p)"
      by (cases baseline_path) (auto simp: load_json_def intro!: pure.keeps_intros pure_read_file)
    then have "world_files w5 = world_files w4" using b pure.keepsD [of _ w4] unfolding same_files_def by blast
    then have "dict_get (world_files w5) checkpoint_path = Some (FileNode (json_indent (PDict checkpoint) 0 @ [newline]))"
      using wc by (auto simp: io_simps dict_simps)
    then have "dict_get (world_files w6) checkpoint_path = Some (FileNode (json_indent (PDict checkpoint) 0 @ [newline]))"
      using kept.keepsD [OF kept_mkdir_parents mk] unfolding file_kept_def by blast
    then show ?thesis using wr that by (auto simp: io_simps dict_simps)
  qed
  moreover have "case baseline_path of None \<Rightarrow> baseline = PNone | Some p \<Rightarrow> \<exists>content. b_loads env content = Inr baseline"
    using b by (cases baseline_path) (auto simp: load_json_def bnd_Inr_iff lift_Inr_iff simp del: basic_io(3))
  moreover note run_kernel_ran [OF k]
  ultimately show ?thesis using c r code e by blast
qed

end
