(* ===== verification/Bench_Completion.thy ===== *)
theory Bench_Completion
  imports Bench_Report
begin

text \<open>
  The benchmark report is finished: with a toolchain whose programs answer, and with nothing in the
  way of the output directory, no step of \<^verbatim>\<open>bench/scripts/report.py\<close> raises. The steps are
  composed with a rule of total correctness against an invariant of the files.
\<close>

section \<open>Total correctness\<close>

text \<open>
  Total correctness of a computation against an invariant of the files: started where the
  invariant holds, it returns, with a value that satisfies a postcondition, and keeps the
  invariant.
\<close>

locale file_invariant =
  fixes I :: "files \<Rightarrow> bool"
begin

definition completes :: "'a io \<Rightarrow> ('a \<Rightarrow> bool) \<Rightarrow> bool" where
  "completes m P = (\<forall>w. I (world_files w) \<longrightarrow> (\<exists>x w'. m w = (Inr x, w') \<and> I (world_files w') \<and> P x))"

lemma completesD: "completes m P \<Longrightarrow> I (world_files w) \<Longrightarrow> \<exists>x w'. m w = (Inr x, w') \<and> I (world_files w') \<and> P x"
  by (simp add: completes_def)

lemma completes_ret: "P x \<Longrightarrow> completes (ret x) P"
  by (simp add: completes_def)

lemma completes_lift: "r = Inr x \<Longrightarrow> P x \<Longrightarrow> completes (lift r) P"
  by (simp add: completes_def)

lemma completes_bnd:
  assumes "completes m P" and "\<And>x. P x \<Longrightarrow> completes (f x) Q"
  shows "completes (bnd m f) Q"
  unfolding completes_def
proof (intro allI impI)
  fix w :: world assume "I (world_files w)"
  then obtain x v where x: "m w = (Inr x, v)" and v: "I (world_files v)" and P: "P x" using completesD [OF assms(1)] by blast
  obtain y u where "f x v = (Inr y, u)" "I (world_files u)" "Q y" using completesD [OF assms(2) [OF P] v] by blast
  then show "\<exists>y u. bnd m f w = (Inr y, u) \<and> I (world_files u) \<and> Q y" using x by (auto simp: bnd_def)
qed

lemma completes_map: "(\<And>x. x \<in> set xs \<Longrightarrow> completes (f x) P) \<Longrightarrow> completes (io_map f xs) (\<lambda>ys. \<forall>y\<in>set ys. P y)"
proof (induction xs)
  case (Cons x xs)
  then have "completes (f x) P" and "completes (io_map f xs) (\<lambda>ys. \<forall>y\<in>set ys. P y)" by auto
  then show ?case by (auto intro!: completes_bnd [of "f x" P] completes_bnd [of "io_map f xs"] completes_ret)
qed (simp add: completes_ret)

lemma completes_weaken: "completes m P \<Longrightarrow> (\<And>x. P x \<Longrightarrow> Q x) \<Longrightarrow> completes m Q"
  unfolding completes_def by blast

end

text \<open>
  The output directory is in place with its raw directory, and nothing below it but the raw
  directory is a directory.
\<close>

definition ready :: "path \<Rightarrow> files \<Rightarrow> bool" where
  "ready out fs = ((\<forall>p. prefix p out \<longrightarrow> is_dir fs p \<and> \<not> is_file fs p) \<and> dict_get fs (out @ [''raw'']) = Some DirNode \<and>
     (\<forall>q. strict_prefix out q \<longrightarrow> dict_get fs q = Some DirNode \<longrightarrow> q = out @ [''raw'']))"

interpretation bench: file_invariant "ready out" for out .

text \<open>Before the start: no file is in the way, and nothing is below the output directory.\<close>

definition clean :: "path \<Rightarrow> files \<Rightarrow> bool" where
  "clean out fs = ((\<forall>p. prefix p out \<longrightarrow> \<not> is_file fs p) \<and> (\<forall>q. strict_prefix out q \<longrightarrow> dict_get fs q = None))"

text \<open>A program leaves the output directory, what is below it and its parents alone.\<close>

definition untouched :: "path \<Rightarrow> files \<Rightarrow> files \<Rightarrow> bool" where
  "untouched out fs fs' = (\<forall>p. prefix p out \<or> prefix out p \<longrightarrow> dict_get fs' p = dict_get fs p)"

lemma ready_untouched: "ready out fs \<Longrightarrow> untouched out fs fs' \<Longrightarrow> ready out fs'"
  unfolding ready_def untouched_def is_dir_def is_file_def by auto

lemma make_prefixes:
  assumes "\<forall>q\<in>set ps. \<not> is_file fs q"
  shows "\<exists>fs'. rfold (make_prefix p) ps fs = Inr fs' \<and> (\<forall>q\<in>set ps. is_dir fs' q) \<and> (\<forall>q. is_dir fs q \<longrightarrow> is_dir fs' q) \<and>
    (\<forall>q. is_file fs' q = is_file fs q) \<and> (\<forall>q. q \<notin> set ps \<longrightarrow> dict_get fs' q = dict_get fs q)"
  using assms
proof (induction ps arbitrary: fs)
  case (Cons q ps)
  then have nf: "\<not> is_file fs q" by simp
  obtain fs1 where fs1: "make_prefix p q fs = Inr fs1" and "is_dir fs1 q"
    and d: "\<forall>r. is_dir fs r \<longrightarrow> is_dir fs1 r" and f: "\<forall>r. is_file fs1 r = is_file fs r" and o: "\<forall>r. r \<noteq> q \<longrightarrow> dict_get fs1 r = dict_get fs r"
    using nf by (cases "is_dir fs q") (auto simp: make_prefix_def is_dir_def is_file_def dict_simps split: option.splits node.splits)
  moreover obtain fs2 where "rfold (make_prefix p) ps fs1 = Inr fs2" "\<forall>q\<in>set ps. is_dir fs2 q" "\<forall>q. is_dir fs1 q \<longrightarrow> is_dir fs2 q"
    "\<forall>q. is_file fs2 q = is_file fs1 q" "\<forall>q. q \<notin> set ps \<longrightarrow> dict_get fs2 q = dict_get fs1 q"
    using Cons.IH [of fs1] Cons.prems f by auto
  ultimately show ?case by auto
qed simp

lemma mkdir_parents_makes:
  assumes "\<forall>q. prefix q p \<longrightarrow> \<not> is_file (world_files w) q"
  shows "\<exists>w'. mkdir_parents p w = (Inr (), w') \<and> (\<forall>q. prefix q p \<longrightarrow> is_dir (world_files w') q) \<and>
    (\<forall>q. is_file (world_files w') q = is_file (world_files w) q) \<and> (\<forall>q. is_dir (world_files w) q \<longrightarrow> is_dir (world_files w') q) \<and>
    (\<forall>q. \<not> prefix q p \<longrightarrow> dict_get (world_files w') q = dict_get (world_files w) q)"
  using make_prefixes [of "prefixes p" "world_files w" p] assms by (auto simp: mkdir_parents_def bnd_def)

lemma make_ready:
  assumes "clean out (world_files w)" and "out \<noteq> []"
  shows "\<exists>w1 w2. mkdir_parents out w = (Inr (), w1) \<and> mkdir_parents (out @ [''raw'']) w1 = (Inr (), w2) \<and> ready out (world_files w2)"
proof -
  let ?raw = "out @ [''raw'']"
  obtain w1 where w1: "mkdir_parents out w = (Inr (), w1)" "\<forall>q. prefix q out \<longrightarrow> is_dir (world_files w1) q"
      "\<forall>q. is_file (world_files w1) q = is_file (world_files w) q" "\<forall>q. \<not> prefix q out \<longrightarrow> dict_get (world_files w1) q = dict_get (world_files w) q"
    using mkdir_parents_makes [of out w] assms(1) unfolding clean_def by blast
  have below: "dict_get (world_files w1) q = None" if "strict_prefix out q" for q
  proof -
    have "\<not> prefix q out" using that by (metis prefix_order.less_le_not_le)
    then show ?thesis using w1(4) that assms(1) unfolding clean_def by simp
  qed
  have "\<forall>q. prefix q ?raw \<longrightarrow> \<not> is_file (world_files w1) q"
  proof (intro allI impI)
    fix q assume "prefix q ?raw"
    then consider "prefix q out" | "q = ?raw" by (metis prefix_snoc)
    then show "\<not> is_file (world_files w1) q"
    proof cases
      case 1
      then show ?thesis using w1(3) assms(1) unfolding clean_def by blast
    next
      case 2
      then show ?thesis using below [of ?raw] by (simp add: is_file_def strict_prefix_def)
    qed
  qed
  then obtain w2 where w2: "mkdir_parents ?raw w1 = (Inr (), w2)" "\<forall>q. prefix q ?raw \<longrightarrow> is_dir (world_files w2) q"
      "\<forall>q. is_file (world_files w2) q = is_file (world_files w1) q" "\<forall>q. \<not> prefix q ?raw \<longrightarrow> dict_get (world_files w2) q = dict_get (world_files w1) q"
    using mkdir_parents_makes [of ?raw w1] by blast
  have "is_dir (world_files w2) ?raw" using w2(2) by blast
  then have "dict_get (world_files w2) ?raw = Some DirNode" using assms(2) by (simp add: is_dir_def)
  moreover have "q = ?raw" if q: "strict_prefix out q" "dict_get (world_files w2) q = Some DirNode" for q
  proof (rule ccontr)
    assume "q \<noteq> ?raw"
    then have "\<not> prefix q ?raw" using q(1) by (metis prefix_order.less_le_not_le prefix_snoc)
    then show False using w2(4) below [OF q(1)] q(2) by simp
  qed
  moreover have "is_dir (world_files w2) p \<and> \<not> is_file (world_files w2) p" if "prefix p out" for p
    using that w2(2,3) w1(3) assms(1) unfolding clean_def by (metis prefix_prefix prefix_snoc)
  ultimately have "ready out (world_files w2)" unfolding ready_def by blast
  with w1(1) w2(1) show ?thesis by blast
qed

lemma ready_write:
  assumes "ready out fs" and "strict_prefix out p" and "p \<noteq> out @ [''raw'']"
  shows "ready out (dict_set fs p (FileNode s))"
proof -
  have "\<not> prefix p out" using assms(2) by (metis prefix_order.less_le_not_le)
  then have "q \<noteq> p" if "prefix q out" for q using that by blast
  then show ?thesis using assms unfolding ready_def is_dir_def is_file_def by (auto simp: dict_simps)
qed

lemma ready_write_file:
  assumes "ready out (world_files w)" and "out \<noteq> []" and "path_parent p = out \<or> path_parent p = out @ [''raw'']"
    and "strict_prefix out p" and "p \<noteq> out @ [''raw'']"
  shows "write_file p s w = (Inr (), w\<lparr>world_files := dict_set (world_files w) p (FileNode s)\<rparr>)"
proof -
  let ?fs = "world_files w"
  have "length out < length p" using assms(4) by (rule prefix_length_less)
  then have "p \<noteq> []" "length p \<noteq> 1" using assms(2) by (cases out; auto)+
  moreover have "dict_get ?fs p \<noteq> Some DirNode" using assms(1,4,5) unfolding ready_def by blast
  ultimately have "\<not> is_dir ?fs p" by (simp add: is_dir_def)
  moreover have "is_dir ?fs (path_parent p)" "\<not> is_file ?fs (path_parent p)"
    using assms(1,3) unfolding ready_def is_dir_def is_file_def by (auto split: option.splits)
  ultimately show ?thesis by (simp add: write_file_def)
qed

lemma completes_write:
  assumes "out \<noteq> []" and "path_parent p = out \<or> path_parent p = out @ [''raw'']" and "strict_prefix out p" and "p \<noteq> out @ [''raw'']"
  shows "bench.completes out (write_file p s) (\<lambda>_. True)"
  unfolding bench.completes_def using ready_write_file assms ready_write by fastforce

lemma out_file: "out \<noteq> [] \<Longrightarrow> path_parent (out @ [c]) = out" "strict_prefix out (out @ [c])"
  by (simp_all add: path_parent_def strict_prefix_def)

lemma completes_out_file: "out \<noteq> [] \<Longrightarrow> c \<noteq> ''raw'' \<Longrightarrow> bench.completes out (write_file (out @ [c]) s) (\<lambda>_. True)"
  by (rule completes_write) (simp_all add: out_file)

lemma completes_raw_file: "out \<noteq> [] \<Longrightarrow> bench.completes out (write_file (out @ [''raw'', c]) s) (\<lambda>_. True)"
  using completes_write [of out "(out @ [''raw'']) @ [c]" s] out_file(1) [of "out @ [''raw'']" c]
  by (simp add: strict_prefix_def)

lemma completes_mkdir: "bench.completes out (mkdir_parents out) (\<lambda>_. True)"
  unfolding bench.completes_def
proof (intro allI impI)
  fix w :: world assume r: "ready out (world_files w)"
  have "rfold (make_prefix out) ps fs = Inr fs" if "\<forall>q\<in>set ps. is_dir fs q" for ps fs
    using that by (induction ps) (auto simp: make_prefix_def)
  then have "mkdir_parents out w = (Inr (), w)" using r by (simp add: mkdir_parents_def bnd_def ready_def)
  then show "\<exists>x w'. mkdir_parents out w = (Inr x, w') \<and> ready out (world_files w') \<and> True" using r by auto
qed

section \<open>The layers return\<close>

text \<open>A version query that is answered or whose program is missing, and a benchmark command that succeeds with a given output.\<close>

definition queried :: "bench_env \<Rightarrow> path \<Rightarrow> string list \<Rightarrow> bool" where
  "queried env out argv = (\<forall>fs. \<exists>r fs'. b_run env None None argv fs = (r, fs') \<and> untouched out fs fs' \<and>
     (case r of Inl e \<Rightarrow> file_not_found e | Inr c \<Rightarrow> True))"

definition answers :: "bench_env \<Rightarrow> path \<Rightarrow> string list \<Rightarrow> completed \<Rightarrow> bool" where
  "answers env out argv c = (returncode c = 0 \<and>
     (\<forall>fs. \<exists>fs'. b_run env (Some (b_bench_dir env)) (command_env env argv) argv fs = (Inr c, fs') \<and> untouched out fs fs'))"

lemma completes_version: "queried env out argv \<Longrightarrow> bench.completes out (command_version env argv) (\<lambda>v. v \<noteq> [])"
  unfolding bench.completes_def
proof (intro allI impI)
  fix w :: world assume q: "queried env out argv" and w: "ready out (world_files w)"
  obtain r fs where r: "b_run env None None argv (world_files w) = (r, fs)" and u: "untouched out (world_files w) fs"
    and ok: "case r of Inl e \<Rightarrow> file_not_found e | Inr c \<Rightarrow> True" using q unfolding queried_def by blast
  have "ready out fs" by (rule ready_untouched [OF w u])
  then show "\<exists>x w'. command_version env argv w = (Inr x, w') \<and> ready out (world_files w') \<and> x \<noteq> []"
    using r ok by (cases r) (auto simp: command_version_def run_process_def Let_def)
qed

lemma splitlines_nonempty: "s \<noteq> [] \<Longrightarrow> splitlines s \<noteq> []"
proof -
  have "w \<noteq> [] \<or> s \<noteq> [] \<Longrightarrow> splitlines_aux br w s \<noteq> []" for br w
    by (induction br w s rule: splitlines_aux.induct) auto
  then show "s \<noteq> [] \<Longrightarrow> splitlines s \<noteq> []" by (simp add: splitlines_def)
qed

lemma solc_version_total: "s \<noteq> [] \<Longrightarrow> \<exists>v. solc_version_of s = Inr v"
  using splitlines_nonempty [of s] by (auto simp: solc_version_of_def py_first_def split: list.splits)

definition REPORTED :: "string list" where
  "REPORTED = [''generated_at'', ''lane'', ''platform'', ''zig'', ''rustc'', ''cargo'', ''solc'']"

lemma completes_environment:
  assumes "\<forall>argv\<in>set (version_commands args). queried env out argv"
  shows "bench.completes out (collect_environment env args) (\<lambda>e. \<forall>k\<in>set REPORTED. \<exists>v. dict_get e k = Some v)"
proof -
  have v: "bench.completes out (command_version env argv) (\<lambda>v. v \<noteq> [])" if "argv \<in> set (version_commands args)" for argv
    using assms that completes_version by blast
  have s: "bench.completes out (solc_version env) (\<lambda>v. True)"
    unfolding solc_version_def
  proof (rule bench.completes_bnd)
    show "bench.completes out (command_version env [''solc'', ''--version'']) (\<lambda>v. v \<noteq> [])"
      by (rule v) (simp add: version_commands_def)
    fix x :: string assume "x \<noteq> []"
    then obtain v where "solc_version_of x = Inr v" using solc_version_total by blast
    then show "bench.completes out (lift (solc_version_of x)) (\<lambda>v. True)" by (rule bench.completes_lift) simp
  qed
  have n: "bench.completes out (if evm2_nightly args then bnd (command_version env [''rustc'', ''+nightly-2026-06-01'', ''--version'']) (\<lambda>v. ret (PStr v))
      else ret PNone) (\<lambda>v. True)"
    using v [of "[''rustc'', ''+nightly-2026-06-01'', ''--version'']"]
    by (auto simp: version_commands_def intro!: bench.completes_bnd bench.completes_ret)
  show ?thesis unfolding collect_environment_def
    by (intro bench.completes_bnd [OF v] bench.completes_bnd [OF s] bench.completes_bnd [OF n] bench.completes_ret)
       (auto simp: version_commands_def REPORTED_def)
qed

lemma completes_process:
  assumes "answers env out argv c"
  shows "bench.completes out (run_process (b_run env (Some (b_bench_dir env)) (command_env env argv)) argv) (\<lambda>x. x = c)"
  unfolding bench.completes_def
proof (intro allI impI)
  fix w :: world assume w: "ready out (world_files w)"
  obtain fs where "b_run env (Some (b_bench_dir env)) (command_env env argv) argv (world_files w) = (Inr c, fs)" "untouched out (world_files w) fs"
    using assms unfolding answers_def by blast
  then show "\<exists>x w'. run_process (b_run env (Some (b_bench_dir env)) (command_env env argv)) argv w = (Inr x, w') \<and> ready out (world_files w') \<and> x = c"
    using ready_untouched [OF w] by (auto simp: run_process_def)
qed

lemma completes_command:
  assumes "answers env out argv c" and "out \<noteq> []" and "CHR ''/'' \<notin> set name"
  shows "bench.completes out (run_command env (out @ [''raw'']) name argv) (\<lambda>x. x = (run_stdout c, run_stderr c))"
proof -
  have p: "path_join (out @ [''raw'']) (name @ ext) = out @ [''raw'', name @ ext]" if "ext \<in> {''.cmd'', ''.stdout'', ''.stderr''}" for ext
    using raw_path [OF assms(3), of ext "out @ [''raw'']"] that by auto
  have "returncode c = 0" using assms(1) by (simp add: answers_def)
  then show ?thesis unfolding run_command_def
    by (intro bench.completes_bnd [OF completes_process [OF assms(1)]])
      (auto simp: p intro!: bench.completes_bnd [OF completes_raw_file [OF assms(2)]] bench.completes_ret)
qed

definition vm_row :: "float_ops \<Rightarrow> row \<Rightarrow> bool" where
  "vm_row fl r = (\<exists>name engine out err. vm_loop_row fl name engine out err = Inr r)"

lemma vm_loop_names: "list_all (\<lambda>f. CHR ''/'' \<notin> set (path_name (path_of f))) VM_LOOP_FIXTURES"
  by code_simp

lemma vm_loop_engine_names:
  "list_all (\<lambda>e. CHR ''/'' \<notin> set e \<and> CHR ''/'' \<notin> set (engine_name e)) (VM_LOOP_ENGINES @ [''evm2-packed-nightly'', ''evm2-tail''])"
  by code_simp

lemma pair_names: "(f, e) \<in> set (vm_loop_pairs args) \<Longrightarrow>
    CHR ''/'' \<notin> set (fst (vm_loop_command args f (path_name (path_of f)) e))"
  using vm_loop_names vm_loop_engine_names
  by (auto simp: vm_loop_pairs_def vm_loop_engines_def vm_loop_command_def list_all_iff split: if_splits)

text \<open>The output of every run of the sweep can be read.\<close>

definition sweep_readable :: "bench_env \<Rightarrow> path \<Rightarrow> bench_args \<Rightarrow> bool" where
  "sweep_readable env out args = (\<forall>(f, e)\<in>set (vm_loop_pairs args). \<exists>c r. answers env out (pair_command args (f, e)) c \<and>
     vm_loop_row (b_fl env) (path_name (path_of f)) e (run_stdout c) (run_stderr c) = Inr r)"

lemma completes_pair:
  assumes "sweep_readable env out args" and "pair \<in> set (vm_loop_pairs args)" and "out \<noteq> []"
  shows "bench.completes out (run_vm_loop_pair env args (out @ [''raw'']) pair) (vm_row (b_fl env))"
proof -
  obtain f e where pair: "pair = (f, e)" by force
  obtain c r where c: "answers env out (pair_command args (f, e)) c"
    and r: "vm_loop_row (b_fl env) (path_name (path_of f)) e (run_stdout c) (run_stderr c) = Inr r"
    using assms(1,2) unfolding sweep_readable_def pair by blast
  have row: "vm_row (b_fl env) r" using r unfolding vm_row_def by blast
  obtain raw argv where cmd: "vm_loop_command args f (path_name (path_of f)) e = (raw, argv)" by force
  then have "answers env out argv c" and "CHR ''/'' \<notin> set raw"
    using c pair_names [of f e args] assms(2) by (simp_all add: pair pair_command_def)
  from completes_command [OF this(1) assms(3) this(2)] show ?thesis
    unfolding run_vm_loop_pair_def pair prod.case Let_def run_vm_loop_engine_def cmd
    by (rule bench.completes_bnd) (use r row in \<open>auto intro: bench.completes_lift\<close>)
qed

lemma vm_row_keys: "vm_row fl r \<Longrightarrow> dict_keys r = VM_LOOP_COLUMNS"
  unfolding vm_row_def vm_loop_row_def Let_def rbind_Inr_iff VM_LOOP_COLUMNS_def by auto

lemma csv_text_total:
  assumes "\<forall>r\<in>set rows. dict_keys r = columns"
  shows "\<exists>t. csv_text rows columns = (t, Inr ())"
proof -
  have "\<exists>t. csv_body columns rows = (t, Inr ())"
    using assms by (induction rows) (auto simp: csv_row_fields_def)
  then show ?thesis by (auto simp: csv_text_def)
qed

lemma completes_vm_loop:
  assumes "sweep_readable env out args" and "out \<noteq> []"
  shows "bench.completes out (run_vm_loop env args (out @ [''raw''])) (\<lambda>rows. \<forall>r\<in>set rows. vm_row (b_fl env) r)"
  unfolding run_vm_loop_def
proof (rule bench.completes_bnd)
  show "bench.completes out (io_map (run_vm_loop_pair env args (out @ [''raw''])) (vm_loop_pairs args)) (\<lambda>rows. \<forall>r\<in>set rows. vm_row (b_fl env) r)"
    using completes_pair [OF assms(1) _ assms(2)] by (rule bench.completes_map)
  fix rows assume rows: "\<forall>r\<in>set rows. vm_row (b_fl env) r"
  then obtain t where t: "csv_text rows VM_LOOP_COLUMNS = (t, Inr ())" using csv_text_total vm_row_keys by blast
  have p: "path_join out ''vm_loop_summary.csv'' = out @ [''vm_loop_summary.csv'']" by (rule path_join_name) auto
  have w: "bench.completes out (write_csv (out @ [''vm_loop_summary.csv'']) rows VM_LOOP_COLUMNS) (\<lambda>_. True)"
    unfolding write_csv_def t out_file(1) [OF assms(2)] prod.case
    by (intro bench.completes_bnd [OF completes_mkdir] bench.completes_bnd [OF completes_out_file [OF assms(2)]] bench.completes_lift [of _ "()"]) auto
  show "bench.completes out (bnd (write_csv (path_join (path_parent (out @ [''raw''])) ''vm_loop_summary.csv'') rows VM_LOOP_COLUMNS) (\<lambda>_. ret rows))
      (\<lambda>rows. \<forall>r\<in>set rows. vm_row (b_fl env) r)"
    unfolding out_file(1) [OF assms(2)] p by (intro bench.completes_bnd [OF w] bench.completes_ret rows)
qed

text \<open>What is asked of the rows of the two kernel runs.\<close>

definition timed_rows :: "float_ops \<Rightarrow> row list \<Rightarrow> bool" where
  "timed_rows fl rows = (\<forall>r\<in>set rows. \<exists>v. float_value fl (row_get r ''ns_per_iter'' PNone) = Inr v)"

lemma completes_write_read:
  assumes "out \<noteq> []" and "c \<noteq> ''raw''" and "bench.completes out (g (read_csv_text t)) Q"
  shows "bench.completes out (bnd (write_file (out @ [c]) t) (\<lambda>_. bnd (read_csv_rows (out @ [c])) g)) Q"
  unfolding bench.completes_def
proof (intro allI impI)
  fix w :: world assume w: "ready out (world_files w)"
  let ?w = "w\<lparr>world_files := dict_set (world_files w) (out @ [c]) (FileNode t)\<rparr>"
  have "write_file (out @ [c]) t w = (Inr (), ?w)"
    using ready_write_file [OF w assms(1)] out_file(1) [OF assms(1)] assms(2) by (simp add: out_file(2))
  moreover have "ready out (world_files ?w)" using ready_write [OF w] assms(2) by (simp add: out_file)
  moreover have "read_csv_rows (out @ [c]) ?w = (Inr (read_csv_text t), ?w)"
    by (simp add: read_csv_rows_def read_file_def bnd_def dict_simps)
  ultimately show "\<exists>x w'. bnd (write_file (out @ [c]) t) (\<lambda>_. bnd (read_csv_rows (out @ [c])) g) w = (Inr x, w') \<and> ready out (world_files w') \<and> Q x"
    using bench.completesD [OF assms(3), of ?w] by (simp add: bnd_def)
qed

lemma completes_kernel:
  assumes "answers env out (kernel_zig_argv args) c" and "answers env out (kernel_evm2_argv args) d" and "out \<noteq> []"
    and "kernel_consistent (kernel_rows_of c d)"
  shows "bench.completes out (run_kernel env args (out @ [''raw'']) out) (\<lambda>rows. rows = kernel_rows_of c d)"
proof -
  have p: "path_join out ''kernel_summary.csv'' = out @ [''kernel_summary.csv'']" by (rule path_join_name) auto
  have chk: "check_kernel_rows (kernel_rows_of c d) = Inr ()" using assms(4) by (simp add: check_kernel_rows_iff)
  have "bench.completes out (bnd (lift (check_kernel_rows (kernel_rows_of c d))) (\<lambda>_. ret (kernel_rows_of c d))) (\<lambda>rows. rows = kernel_rows_of c d)"
    by (intro bench.completes_bnd [OF bench.completes_lift [OF chk, of "\<lambda>_. True"]] bench.completes_ret) simp_all
  then have w: "bench.completes out (bnd (write_file (out @ [''kernel_summary.csv'']) (combine_csv_text [run_stdout c, run_stdout d]))
      (\<lambda>_. bnd (read_csv_rows (out @ [''kernel_summary.csv''])) (\<lambda>rows. bnd (lift (check_kernel_rows rows)) (\<lambda>_. ret rows))))
      (\<lambda>rows. rows = kernel_rows_of c d)"
    by (intro completes_write_read assms(3)) (simp_all only: kernel_rows_of_def, simp)
  have zig: "bench.completes out (run_command env (out @ [''raw'']) ''kernel-zig'' (kernel_zig_argv args)) (\<lambda>x. x = (run_stdout c, run_stderr c))"
    and evm2: "bench.completes out (run_command env (out @ [''raw'']) ''kernel-evm2'' (kernel_evm2_argv args)) (\<lambda>x. x = (run_stdout d, run_stderr d))"
    using completes_command [OF assms(1,3)] completes_command [OF assms(2,3)] by auto
  show ?thesis unfolding run_kernel_def Let_def p split_def
    by (intro bench.completes_bnd [OF zig] bench.completes_bnd [OF evm2]) (use w in \<open>simp only: fst_conv\<close>)
qed

section \<open>Rendering returns\<close>

lemma float_value_total [simp]: "float_value fl (PFloat f) = Inr (Some f)" "float_value fl PNone = Inr None"
  by (simp_all add: float_value_def is_unknown_def value_simps)

lemma int_value_total [simp]: "int_value (PInt n) = Inr (Some n)" "int_value PNone = Inr None"
  by (simp_all add: int_value_def is_unknown_def value_simps)

lemma fmt_total:
  "\<exists>s. fmt_int (opt_int p) = Inr s" "\<exists>s. fmt_float fl (opt_float q) n = Inr s" "\<exists>s. fmt_float fl (PFloat f) n = Inr s"
  "\<exists>s. fmt_ratio fl (opt_float q) = Inr s" "\<exists>s. fmt_ratio fl (ratio_of fl a b) = Inr s"
  by (auto simp: fmt_int_def fmt_float_def fmt_ratio_def opt_int_def opt_float_def ratio_of_def split: option.splits)

lemma median_total: "xs \<noteq> [] \<Longrightarrow> \<exists>m. median fl xs = Inr m"
proof -
  assume "xs \<noteq> []"
  then have "length (sort_by pf_less xs) \<noteq> 0" by simp
  then show ?thesis unfolding median_def Let_def by (cases "length (sort_by pf_less xs) mod 2 = 1") auto
qed

lemma dict_set_subset: "set (dict_set d k u) \<subseteq> insert (k, u) (set d)"
  by (induction d k u rule: dict_set.induct) (auto split: if_splits)

lemma group_value_nonempty:
  assumes "group_value fl ks key r groups = Inr groups'" and "\<forall>(k, vs)\<in>set groups. vs \<noteq> []"
  shows "\<forall>(k, vs)\<in>set groups'. vs \<noteq> []"
proof -
  have "\<forall>(j, ws)\<in>set (dict_append d k v). ws \<noteq> []" if "\<forall>(j, ws)\<in>set d. ws \<noteq> []" for d :: "(string list, pyfloat list) dict" and k v
    using dict_set_subset [of d k] that by (fastforce simp: dict_append_def split: option.splits)
  moreover obtain v where "groups' = (case v of None \<Rightarrow> groups
      | Some f \<Rightarrow> dict_append groups (map (\<lambda>k. py_str (row_get r k (PStr []))) ks) f)"
    using assms(1) unfolding group_value_def rbind_Inr_iff by auto
  ultimately show ?thesis using assms(2) by (cases v) simp_all
qed

lemma grouped_medians_total:
  assumes "timed_rows fl rows"
  shows "\<exists>m. grouped_medians fl rows ks ''ns_per_iter'' = Inr m"
proof -
  have "\<exists>groups. rfold (group_value fl ks ''ns_per_iter'') rows [] = Inr groups \<and> (\<forall>(k, vs)\<in>set groups. vs \<noteq> [])"
  proof (rule rfold_succeeds)
    fix r and u :: "(string list, pyfloat list) dict" assume "r \<in> set rows" and u: "\<forall>(k, vs)\<in>set u. vs \<noteq> []"
    then obtain v where "float_value fl (row_get r ''ns_per_iter'' PNone) = Inr v" using assms unfolding timed_rows_def by blast
    then obtain u' where "group_value fl ks ''ns_per_iter'' r u = Inr u'" by (simp add: group_value_def)
    then show "\<exists>u'. group_value fl ks ''ns_per_iter'' r u = Inr u' \<and> (\<forall>(k, vs)\<in>set u'. vs \<noteq> [])"
      using group_value_nonempty u by blast
  qed simp
  then obtain groups where g: "rfold (group_value fl ks ''ns_per_iter'') rows [] = Inr groups" and ne: "\<forall>(k, vs)\<in>set groups. vs \<noteq> []" by blast
  have "\<forall>kv\<in>set groups. \<exists>y. (case kv of (k, vs) \<Rightarrow> rbind (median fl vs) (\<lambda>m. Inr (k, m))) = Inr y"
  proof
    fix kv assume "kv \<in> set groups"
    with ne have "snd kv \<noteq> []" by auto
    then obtain m where "median fl (snd kv) = Inr m" using median_total by blast
    then show "\<exists>y. (case kv of (k, vs) \<Rightarrow> rbind (median fl vs) (\<lambda>m. Inr (k, m))) = Inr y" by (cases kv) simp
  qed
  then have "\<exists>m. rmap (\<lambda>(k, vs). rbind (median fl vs) (\<lambda>m. Inr (k, m))) groups = Inr m" by (rule rmap_all_Inr)
  then show ?thesis using g by (simp add: grouped_medians_def)
qed

lemma vm_rowE:
  assumes "vm_row fl r"
  obtains fixture engine scope dispatch rustc host spec runs bytes deploy timed per logs wm wc we med mn mx where
    "r = [(''fixture'', PStr fixture), (''engine'', PStr engine), (''scope'', PStr scope), (''dispatch'', dispatch),
       (''rustc'', rustc), (''host_profile'', PStr host), (''spec'', PStr spec), (''runs'', PInt runs),
       (''runtime_bytes'', opt_int bytes), (''deploy_host_calls'', opt_int deploy), (''timed_host_calls'', opt_int timed),
       (''timed_host_calls_per_run'', opt_float per), (''logs'', opt_int logs), (''warmup_ms'', opt_int wm),
       (''warmup_calls'', opt_int wc), (''warmup_elapsed_ms'', opt_float we), (''median_ms'', PFloat med),
       (''min_ms'', opt_float mn), (''max_ms'', opt_float mx)]"
  using assms that unfolding vm_row_def vm_loop_row_def Let_def rbind_Inr_iff by auto

lemma vm_row_median: "vm_row fl r \<Longrightarrow> \<exists>f. row_get r ''median_ms'' PNone = PFloat f"
  by (erule vm_rowE) (simp add: row_get_def)

lemma vm_row_cells: "vm_row fl r \<Longrightarrow> \<exists>cells. vm_loop_cells fl d r = Inr cells \<and> length cells = 10"
proof (erule vm_rowE)
  fix fixture engine scope dispatch rustc host spec runs bytes deploy timed per logs wm wc we med mn mx
  assume r: "r = [(''fixture'', PStr fixture), (''engine'', PStr engine), (''scope'', PStr scope), (''dispatch'', dispatch),
       (''rustc'', rustc), (''host_profile'', PStr host), (''spec'', PStr spec), (''runs'', PInt runs),
       (''runtime_bytes'', opt_int bytes), (''deploy_host_calls'', opt_int deploy), (''timed_host_calls'', opt_int timed),
       (''timed_host_calls_per_run'', opt_float per), (''logs'', opt_int logs), (''warmup_ms'', opt_int wm),
       (''warmup_calls'', opt_int wc), (''warmup_elapsed_ms'', opt_float we), (''median_ms'', PFloat med),
       (''min_ms'', opt_float mn), (''max_ms'', opt_float mx)]"
  obtain s1 s2 s3 s4 s5 where "fmt_int (opt_int bytes) = Inr s1" "fmt_float fl (opt_float per) 1 = Inr s2" "fmt_int (opt_int logs) = Inr s3"
    "fmt_float fl (PFloat med) 3 = Inr s4" "fmt_ratio fl (ratio_of fl (dict_get d (fixture, VM_LOOP_BASELINE_ENGINE)) (Some med)) = Inr s5"
    using fmt_total by metis
  then show "\<exists>cells. vm_loop_cells fl d r = Inr cells \<and> length cells = 10"
    by (simp add: r vm_loop_cells_def row_item_def py_item_PDict dict_index_def row_get_def)
qed

lemma table_total: "rows \<noteq> [] \<Longrightarrow> \<forall>row\<in>set rows. length row = n \<Longrightarrow> 0 < n \<Longrightarrow> \<exists>ls. markdown_table rows = Inr ls"
  using markdown_table_rectangular by blast

lemma render_vm_loop_total:
  assumes "\<forall>r\<in>set rows. vm_row fl r"
  shows "\<exists>ls. render_vm_loop fl rows = Inr ls"
proof -
  have "\<exists>d. rfold (index_median fl) rows [] = Inr d \<and> True"
    by (rule rfold_succeeds) (use assms vm_row_median in \<open>force simp: index_median_def\<close>)+
  then obtain d where d: "rfold (index_median fl) rows [] = Inr d" by blast
  obtain cells where c: "rmap (vm_loop_cells fl d) rows = Inr cells"
    using rmap_all_Inr [of rows "vm_loop_cells fl d"] assms vm_row_cells by blast
  have "length row = 10" if "row \<in> set cells" for row
    using that rmap_set [OF c] assms vm_row_cells [of fl _ d] by fastforce
  then obtain ls where "markdown_table (vm_loop_heading # cells) = Inr ls"
    using table_total [of "vm_loop_heading # cells" 10] by (auto simp: vm_loop_heading_def)
  with d c show ?thesis by (simp add: render_vm_loop_def)
qed

lemma kernel_cells_total: "\<exists>cells. kernel_cells fl m p = Inr cells \<and> length cells = 6"
proof -
  obtain ratio cs where p: "p = (ratio, cs)" by force
  obtain a where a: "rmap (\<lambda>e. fmt_float fl (opt_float (dict_get m [e, cs])) 2) (''evmz'' # kernel_rivals) = Inr a"
    using rmap_all_Inr [of "''evmz'' # kernel_rivals" "\<lambda>e. fmt_float fl (opt_float (dict_get m [e, cs])) 2"] fmt_total(2) by blast
  moreover obtain b where "fmt_ratio fl (PFloat ratio) = Inr b" by (simp add: fmt_ratio_def)
  moreover have "length a = 4" using rmap_length [OF a] by (simp add: kernel_rivals_def)
  ultimately show ?thesis unfolding kernel_cells_def p prod.case by simp
qed

lemma render_kernel_total:
  assumes "timed_rows fl rows"
  shows "\<exists>ls. render_kernel fl rows = Inr ls"
proof -
  obtain m where m: "grouped_medians fl rows [''engine'', ''case''] ''ns_per_iter'' = Inr m" using grouped_medians_total [OF assms] by blast
  let ?ranked = "take 14 (kernel_ranking fl m)"
  obtain cells where c: "rmap (kernel_cells fl m) ?ranked = Inr cells"
    using rmap_all_Inr [of ?ranked "kernel_cells fl m"] kernel_cells_total by blast
  have "length row = 6" if "row \<in> set cells" for row
  proof -
    obtain x where "kernel_cells fl m x = Inr row" using \<open>row \<in> set cells\<close> rmap_set [OF c] by blast
    then show ?thesis using kernel_cells_total [of fl m x] by auto
  qed
  then obtain ls where "markdown_table ([''case'', ''evmz'', ''evmone base'', ''evmone adv'', ''EVM2 packed'', ''evmz/best''] # cells) = Inr ls"
    using table_total [of "[''case'', ''evmz'', ''evmone base'', ''evmone adv'', ''EVM2 packed'', ''evmz/best''] # cells" 6] by auto
  with m c show ?thesis by (simp add: render_kernel_def)
qed

lemma build_checkpoint_total:
  assumes "timed_rows fl kernel_rows" and "\<forall>r\<in>set vm_rows. vm_row fl r"
  shows "\<exists>c. build_checkpoint fl environment args vm_rows kernel_rows = Inr c"
proof -
  have "\<exists>d. rfold baseline_step vm_rows [] = Inr d \<and> True"
  proof (rule rfold_succeeds)
    fix r d assume "r \<in> set vm_rows"
    with assms(2) have "vm_row fl r" by blast
    then show "\<exists>d'. baseline_step r d = Inr d' \<and> True"
      by (rule vm_rowE) (simp add: baseline_step_def row_item_def py_item_PDict dict_index_def)
  qed simp
  then show ?thesis using grouped_medians_total [OF assms(1), of "[''engine'', ''case'']"] by (auto simp: build_checkpoint_def)
qed

lemma render_report_total:
  assumes "timed_rows (b_fl env) kernel_rows" and "\<forall>r\<in>set vm_rows. vm_row (b_fl env) r"
    and "\<forall>k\<in>set REPORTED. \<exists>v. dict_get environment k = Some v"
  shows "\<exists>s. render_report env environment vm_rows kernel_rows checkpoint_path None checkpoint PNone = Inr s"
proof -
  obtain items where "rmap (code_item environment) REPORTED = Inr items"
    using rmap_all_Inr [of REPORTED "code_item environment"] assms(3)
    by (fastforce simp: code_item_def row_item_def py_item_PDict dict_index_def)
  moreover obtain a b where "render_vm_loop (b_fl env) vm_rows = Inr a" "render_kernel (b_fl env) kernel_rows = Inr b"
    using render_vm_loop_total [OF assms(2)] render_kernel_total [OF assms(1)] by blast
  moreover obtain c where "render_checkpoint_delta (b_fl env) checkpoint PNone = Inr c"
    by (simp add: render_checkpoint_delta_def py_true_def)
  ultimately show ?thesis unfolding render_report_def REPORTED_def [symmetric] by simp
qed

section \<open>The report is finished\<close>

text \<open>
  A toolchain that answers: the version queries are answered or the tool is missing, every run of
  the sweep prints what can be read, the kernel runs agree and are timed.
\<close>

definition toolchain_ok :: "bench_env \<Rightarrow> path \<Rightarrow> bench_args \<Rightarrow> bool" where
  "toolchain_ok env out args = ((\<forall>argv\<in>set (version_commands args). queried env out argv) \<and> sweep_readable env out args \<and>
     (\<exists>c d. answers env out (kernel_zig_argv args) c \<and> answers env out (kernel_evm2_argv args) d \<and>
       kernel_consistent (kernel_rows_of c d) \<and> timed_rows (b_fl env) (kernel_rows_of c d)))"

lemma bnd_returns: "m w = (Inr x, v) \<Longrightarrow> bnd m f w = f x v"
  by (simp add: bnd_def)

lemma bench_completes:
  assumes tools: "toolchain_ok env out (finish_args args)" and w: "clean out (world_files w)"
    and out: "out = resolve_path env (out_dir args)" "out \<noteq> []"
    and default: "given (report_arg args) = None" "given (checkpoint_arg args) = None" "given (baseline_arg args) = None"
  shows "\<exists>w'. bench_main env args w = (Inr 0, w')"
proof -
  let ?args = "finish_args args"
  obtain c d where c: "answers env out (kernel_zig_argv ?args) c" and d: "answers env out (kernel_evm2_argv ?args) d"
    and k: "kernel_consistent (kernel_rows_of c d)" and t: "timed_rows (b_fl env) (kernel_rows_of c d)"
    and v: "\<forall>argv\<in>set (version_commands ?args). queried env out argv" and s: "sweep_readable env out ?args"
    using tools unfolding toolchain_ok_def by blast
  have same: "out_dir ?args = out_dir args" "report_arg ?args = report_arg args" "checkpoint_arg ?args = checkpoint_arg args"
    "baseline_arg ?args = baseline_arg args" by (simp_all add: finish_args_def)
  have p: "path_join out ''raw'' = out @ [''raw'']" "path_join out ''evmz-checkpoint.json'' = out @ [''evmz-checkpoint.json'']"
    "path_join out ''report.md'' = out @ [''report.md'']" by (rule path_join_name, simp_all)+
  let ?tail = "bnd (collect_environment env ?args) (\<lambda>environment. bnd (run_vm_loop env ?args (out @ [''raw''])) (\<lambda>vm_rows.
     bnd (run_kernel env ?args (out @ [''raw'']) out) (\<lambda>kernel_rows.
     bnd (lift (build_checkpoint (b_fl env) environment ?args vm_rows kernel_rows)) (\<lambda>checkpoint.
     bnd (mkdir_parents out) (\<lambda>_. bnd (write_file (out @ [''evmz-checkpoint.json'']) (json_indent (PDict checkpoint) 0 @ [newline])) (\<lambda>_.
     bnd (ret PNone) (\<lambda>baseline.
     bnd (lift (render_report env environment vm_rows kernel_rows (out @ [''evmz-checkpoint.json'']) None (PDict checkpoint) baseline)) (\<lambda>report.
     bnd (mkdir_parents out) (\<lambda>_. bnd (write_file (out @ [''report.md'']) report) (\<lambda>_. ret (0::int)))))))))))"
  have main: "bench_main env args = bnd (mkdir_parents out) (\<lambda>_. bnd (mkdir_parents (out @ [''raw''])) (\<lambda>_. ?tail))"
    unfolding bench_main_def Let_def output_path_def same default out(1) [symmetric] option.case option.map p out_file(1) [OF out(2)] ..
  have total: "bench.completes out (lift q) (\<lambda>_. True)" if "\<exists>x. q = Inr x" for q :: "'x result"
    using that by (auto intro: bench.completes_lift)
  have "bench.completes out ?tail (\<lambda>code. code = 0)"
    by (intro bench.completes_bnd [OF completes_environment [OF v]] bench.completes_bnd [OF completes_vm_loop [OF s out(2)]]
        bench.completes_bnd [OF completes_kernel [OF c d out(2) k]] bench.completes_bnd [OF completes_mkdir]
        bench.completes_bnd [OF completes_out_file [OF out(2)]] bench.completes_bnd [OF total]
        bench.completes_bnd [OF bench.completes_ret [where P = "\<lambda>x. x = PNone"]] bench.completes_ret)
      (use t in \<open>simp_all add: build_checkpoint_total render_report_total\<close>)
  moreover obtain w1 w2 where w1: "mkdir_parents out w = (Inr (), w1)" and w2: "mkdir_parents (out @ [''raw'']) w1 = (Inr (), w2)"
    and "ready out (world_files w2)" using make_ready [OF w out(2)] by blast
  ultimately obtain w3 where "?tail w2 = (Inr 0, w3)" using bench.completesD by blast
  then show ?thesis unfolding main bnd_returns [of "mkdir_parents out", OF w1] bnd_returns [of "mkdir_parents (out @ [''raw''])", OF w2] by blast
qed

end
