(* ===== verification/Bench_Properties.thy ===== *)
theory Bench_Properties
  imports Bench_Completion
begin

text \<open>
  What the benchmark report promises: which commands it runs and what it leaves on disk, that it is
  finished when the toolchain answers, that inconsistent kernel runs are refused, and that the
  command lines, CSV files, medians and tables it writes are exact.
\<close>

section \<open>A sample run\<close>

definition sample_floats :: float_ops where
  "sample_floats = \<lparr>fl_parse = (\<lambda>s. if s = ''1.5'' then Some (Finite 3 (- 1) s) else None), fl_of_int = (\<lambda>n. None),
     fl_int_div = (\<lambda>a b. None), fl_add = (\<lambda>a b. a), fl_sub = (\<lambda>a b. a), fl_mul = (\<lambda>a b. a), fl_div = (\<lambda>a b. a),
     fl_fmt = (\<lambda>n f. float_repr f)\<rparr>"

definition sample_output :: "string list \<Rightarrow> completed" where
  "sample_output argv = \<lparr>returncode = 0,
     run_stdout = (if ''--tier'' \<in> set argv
       then ''engine,case,iterations,bytecode_bytes,gas_used,host_calls,ns_per_iter'' @ [newline] @ ''evmz,add,100,8,300,0,1.5''
       else ''1.5''), run_stderr = []\<rparr>"

definition sample_bench :: bench_env where
  "sample_bench = \<lparr>b_fl = sample_floats, b_run = (\<lambda>cwd environ argv fs. (Inr (sample_output argv), fs)), b_environ = [],
     b_loads = (\<lambda>s. Inl (JSONDecodeError s)), b_platform = ''Linux x86_64'', b_now = ''2026-01-01T00:00:00Z'',
     b_bench_dir = [''/'', ''b''], b_repo_root = [''/'']\<rparr>"

definition sample_bench_args :: bench_args where
  "sample_bench_args = \<lparr>evm2_nightly = False, zig_exe = ''zig'', optimize = ''fast'', profile = ''native'', native_keccak = ''xkcp'',
     out_dir = ''o'', report_arg = None, checkpoint_arg = None, baseline_arg = None, kernel_iterations = 100, repeats = 1, warmups = 0\<rparr>"

definition empty_world :: world where
  "empty_world = \<lparr>world_files = [], world_commands = []\<rparr>"

abbreviation sample_out :: path where
  "sample_out \<equiv> [''/'', ''b'', ''o'']"

lemma sample_out: "resolve_path sample_bench (out_dir sample_bench_args) = sample_out"
  by code_simp

lemma sample_clean: "clean sample_out (world_files empty_world)"
  by (simp add: clean_def empty_world_def is_file_def)

lemma sample_answers: "answers sample_bench out argv (sample_output argv)"
  by (simp add: answers_def sample_bench_def untouched_def sample_output_def)

lemma sample_row: "\<exists>r. vm_loop_row sample_floats name engine ''1.5'' [] = Inr r"
proof -
  have "parse_times sample_floats ''1.5'' = Inr [Finite 3 (- 1) ''1.5'']" by code_simp
  moreover have "parse_key_values (first_line []) = []" "parse_prefixed_key_values [] ''timed.'' = []" by code_simp+
  moreover have "median sample_floats [Finite 3 (- 1) ''1.5''] = Inr (Finite 3 (- 1) ''1.5'')" by code_simp
  moreover have "per_run sample_floats None n = Inr None" for n by (simp add: per_run_def)
  ultimately show ?thesis by (simp add: vm_loop_row_def)
qed

lemma sample_sweep: "list_all (\<lambda>p. ''--tier'' \<notin> set (pair_command sample_bench_args p)) (vm_loop_pairs sample_bench_args)"
  by code_simp

lemma sample_kernel:
  "kernel_consistent (kernel_rows_of (sample_output (kernel_zig_argv sample_bench_args)) (sample_output (kernel_evm2_argv sample_bench_args)))"
  "list_all (\<lambda>r. row_get r ''ns_per_iter'' PNone = PStr ''1.5'')
     (kernel_rows_of (sample_output (kernel_zig_argv sample_bench_args)) (sample_output (kernel_evm2_argv sample_bench_args)))"
  by code_simp+

lemma sample_toolchain: "toolchain_ok sample_bench sample_out (finish_args sample_bench_args)"
proof -
  have fin: "finish_args sample_bench_args = sample_bench_args" by (simp add: finish_args_def sample_bench_args_def)
  have fl: "b_fl sample_bench = sample_floats" by (simp add: sample_bench_def)
  have "queried sample_bench sample_out argv" for argv
    by (simp add: queried_def sample_bench_def untouched_def)
  moreover have "sweep_readable sample_bench sample_out sample_bench_args"
    unfolding sweep_readable_def
  proof clarify
    fix f e assume "(f, e) \<in> set (vm_loop_pairs sample_bench_args)"
    then have "''--tier'' \<notin> set (pair_command sample_bench_args (f, e))" using sample_sweep by (auto simp: list_all_iff)
    then have "run_stdout (sample_output (pair_command sample_bench_args (f, e))) = ''1.5''"
      "run_stderr (sample_output (pair_command sample_bench_args (f, e))) = []" by (simp_all add: sample_output_def)
    then show "\<exists>c r. answers sample_bench sample_out (pair_command sample_bench_args (f, e)) c \<and>
        vm_loop_row (b_fl sample_bench) (path_name (path_of f)) e (run_stdout c) (run_stderr c) = Inr r"
      using sample_answers sample_row unfolding fl by metis
  qed
  moreover have "timed_rows sample_floats (kernel_rows_of (sample_output (kernel_zig_argv sample_bench_args)) (sample_output (kernel_evm2_argv sample_bench_args)))"
    using sample_kernel(2)
    by (auto simp: timed_rows_def list_all_iff float_value_def is_unknown_def value_simps sample_floats_def)
  ultimately show ?thesis unfolding toolchain_ok_def fin fl using sample_answers sample_kernel(1) by blast
qed

lemma sample_completes: "\<exists>w'. bench_main sample_bench sample_bench_args empty_world = (Inr 0, w')"
  by (rule bench_completes [OF sample_toolchain sample_clean])
     (simp_all add: sample_out, simp_all add: sample_bench_args_def given_def)

section \<open>Properties\<close>

text \<open>
  C17: when the report script returns, it has run exactly the version queries, one command for each
  fixture and engine in order, and the two kernel commands; the report on disk was rendered from one
  row for each fixture and engine, read from the output of a run of the command of that fixture and engine that exited with 0,
  and from kernel rows that are those of the two kernel runs and consistent, with the collected environment and the given baseline, and the checkpoint on disk
  is the one the report was rendered with, when the two paths differ.
\<close>

theorem bench_report_sound:
  assumes "bench_main env args w = (Inr code, w')"
  shows "code = 0 \<and> world_commands w' = world_commands w @ bench_commands (finish_args args) \<and>
    (\<exists>out checkpoint_path report_path environment vm_rows kernel_rows checkpoint baseline report.
      out = resolve_path env (out_dir args) \<and>
      checkpoint_path = output_path env (checkpoint_arg args) out ''evmz-checkpoint.json'' \<and>
      report_path = output_path env (report_arg args) out ''report.md'' \<and>
      (\<exists>v v'. collect_environment env (finish_args args) v = (Inr environment, v')) \<and>
      sweep_rows env (finish_args args) vm_rows \<and> kernel_ran env (finish_args args) kernel_rows \<and> kernel_consistent kernel_rows \<and>
      (case given (baseline_arg args) of None \<Rightarrow> baseline = PNone | Some _ \<Rightarrow> \<exists>content. b_loads env content = Inr baseline) \<and>
      build_checkpoint (b_fl env) environment (finish_args args) vm_rows kernel_rows = Inr checkpoint \<and>
      render_report env environment vm_rows kernel_rows checkpoint_path
        (map_option (resolve_path env) (given (baseline_arg args))) (PDict checkpoint) baseline = Inr report \<and>
      dict_get (world_files w') report_path = Some (FileNode report) \<and>
      (checkpoint_path = report_path \<or>
        dict_get (world_files w') checkpoint_path = Some (FileNode (json_indent (PDict checkpoint) 0 @ [newline]))))"
proof -
  have same: "out_dir (finish_args args) = out_dir args" "report_arg (finish_args args) = report_arg args"
    "checkpoint_arg (finish_args args) = checkpoint_arg args" "baseline_arg (finish_args args) = baseline_arg args"
    by (simp_all add: finish_args_def)
  have base: "(case map_option (resolve_path env) (given (baseline_arg args)) of None \<Rightarrow> b = PNone | Some p \<Rightarrow> Q) =
      (case given (baseline_arg args) of None \<Rightarrow> b = PNone | Some _ \<Rightarrow> Q)" for b Q
    by (cases "given (baseline_arg args)") simp_all
  show ?thesis using bench_main_Inr [OF assms] logsD [OF logs_main assms] unfolding same base by blast
qed

theorem bench_report_sound_witness:
  "\<exists>w'. bench_main sample_bench sample_bench_args empty_world = (Inr 0, w') \<and>
     world_commands w' = bench_commands (finish_args sample_bench_args) \<and>
     (\<exists>report. dict_get (world_files w') (output_path sample_bench (report_arg sample_bench_args) sample_out ''report.md'') = Some (FileNode report))"
proof -
  obtain w' where w': "bench_main sample_bench sample_bench_args empty_world = (Inr 0, w')" using sample_completes by blast
  show ?thesis using w' bench_report_sound [OF w'] unfolding sample_out by (auto simp: empty_world_def)
qed

text \<open>
  C27: when every version query is answered or its tool is missing, every run of the sweep exits with 0 and prints what
  can be read, the kernel runs exit with 0 and their rows are consistent and timed, no program touches the output directory,
  no part of its path is a plain file and nothing is below it, the script with the default report and checkpoint paths and
  without \<^verbatim>\<open>--baseline\<close> runs to the end and returns 0.
\<close>

theorem report_completes:
  assumes "toolchain_ok env out (finish_args args)" and "clean out (world_files w)"
    and "out = resolve_path env (out_dir args)" and "out \<noteq> []"
    and "given (report_arg args) = None" and "given (checkpoint_arg args) = None" and "given (baseline_arg args) = None"
  shows "\<exists>w'. bench_main env args w = (Inr 0, w')"
  using assms by (rule bench_completes)

theorem report_completes_witness:
  "\<exists>w'. bench_main sample_bench sample_bench_args empty_world = (Inr 0, w')"
  by (rule report_completes [OF sample_toolchain sample_clean])
     (simp_all add: sample_out, simp_all add: sample_bench_args_def given_def)

text \<open>
  C28: the consistency check of the kernel rows accepts exactly the rows that each have a case, an
  iteration count, a bytecode size, a gas value (a cell read as \<^verbatim>\<open>None\<close> is one) and no host call, and among which two rows of the
  same case and iteration count have the same bytecode size and gas, whatever their engine.
\<close>

theorem kernel_check_exact: "check_kernel_rows rows = Inr () \<longleftrightarrow> kernel_consistent rows"
  by (rule check_kernel_rows_iff)

text \<open>
  C30: a benchmark command that returns leaves its output streams and a command file in the raw
  directory, and a shell that reads the command file runs the same argument vector.
\<close>

theorem command_file_roundtrip:
  assumes "run_command env raw_dir name argv w = (Inr (out, err), w')" and "CHR ''/'' \<notin> set name"
  shows "\<exists>line. dict_get (world_files w') (path_join raw_dir (name @ ''.cmd'')) = Some (FileNode line) \<and>
    sh_split line = Some argv \<and>
    dict_get (world_files w') (path_join raw_dir (name @ ''.stdout'')) = Some (FileNode out) \<and>
    dict_get (world_files w') (path_join raw_dir (name @ ''.stderr'')) = Some (FileNode err)"
proof -
  have paths: "path_join raw_dir (name @ ''.cmd'') = raw_dir @ [name @ ''.cmd'']"
    "path_join raw_dir (name @ ''.stdout'') = raw_dir @ [name @ ''.stdout'']"
    "path_join raw_dir (name @ ''.stderr'') = raw_dir @ [name @ ''.stderr'']"
    using raw_path [OF assms(2)] by simp_all
  show ?thesis using run_command_Inr [OF assms(1)] report.split_line [of argv]
    by (auto simp: paths dict_simps command_text_def)
qed

theorem command_file_roundtrip_witness:
  "\<exists>w'. run_command sample_bench [''/''] ''kernel'' [''zig'', ''a b'', ''it'' @ [CHR 0x27] @ ''s''] empty_world = (Inr (''1.5'', []), w') \<and>
     (\<exists>line. dict_get (world_files w') [''/'', ''kernel.cmd''] = Some (FileNode line) \<and>
       sh_split line = Some [''zig'', ''a b'', ''it'' @ [CHR 0x27] @ ''s''])"
proof -
  have "fst (run_command sample_bench [''/''] ''kernel'' [''zig'', ''a b'', ''it'' @ [CHR 0x27] @ ''s''] empty_world) = Inr (''1.5'', [])"
    by code_simp
  then obtain w' where w': "run_command sample_bench [''/''] ''kernel'' [''zig'', ''a b'', ''it'' @ [CHR 0x27] @ ''s''] empty_world = (Inr (''1.5'', []), w')"
    by (metis prod.collapse)
  have "path_join [''/''] (''kernel'' @ ''.cmd'') = [''/'', ''kernel.cmd'']" by code_simp
  then show ?thesis using w' command_file_roundtrip [OF w'] by auto
qed

text \<open>
  Reading a CSV file that was written gives one row for each row written, in order, with the
  text of every cell, for any values, quotes, commas and line breaks included.
\<close>

theorem csv_roundtrip:
  assumes "write_csv p rows columns w = (Inr u, w')" and "columns \<noteq> []" and "distinct columns"
  shows "read_csv_rows p w' = (Inr (map (text_row columns) rows), w')"
proof -
  obtain t where "csv_text rows columns = (t, Inr ())" and "dict_get (world_files w') p = Some (FileNode t)"
    using write_csv_Inr [OF assms(1)] by blast
  then show ?thesis using csv_text_read assms(2,3) by (simp add: read_csv_rows_def read_file_def bnd_def)
qed

theorem csv_roundtrip_witness:
  "\<exists>w'. write_csv [''/'', ''t''] [[(''a'', PStr ''x, y''), (''b'', PStr [CHR 0x22, newline])]] [''a'', ''b''] empty_world = (Inr (), w') \<and>
     read_csv_rows [''/'', ''t''] w' = (Inr [[(''a'', PStr ''x, y''), (''b'', PStr [CHR 0x22, newline])]], w')"
proof -
  let ?rows = "[[(''a'', PStr ''x, y''), (''b'', PStr [CHR 0x22, newline])]]"
  have "fst (write_csv [''/'', ''t''] ?rows [''a'', ''b''] empty_world) = Inr ()" by code_simp
  then obtain w' where w': "write_csv [''/'', ''t''] ?rows [''a'', ''b''] empty_world = (Inr (), w')" by (metis prod.collapse)
  have "map (text_row [''a'', ''b'']) ?rows = ?rows" by code_simp
  then show ?thesis using w' csv_roundtrip [OF w'] by auto
qed

text \<open>
  Combining CSV texts gives the first non-blank line as the header, once, followed by every
  other non-blank line of all parts in order, stripped, without the repeated headers.
\<close>

theorem combined_csv_lines:
  "combine_csv_text parts = join [newline] (one_header (content_lines parts)) @ [newline]"
  by (rule combine_csv_text_eq)

text \<open>
  The median of an odd number of times, none of them NaN, is one of them, with fewer than half
  of the times below it and fewer than half above it.
\<close>

theorem median_central:
  assumes "odd (length xs)" and "NaN \<notin> set xs"
  shows "\<exists>m. median fl xs = Inr m \<and> m \<in> set xs \<and>
    2 * length (filter (\<lambda>x. pf_less x m) xs) < length xs \<and> 2 * length (filter (\<lambda>x. pf_less m x) xs) < length xs"
  using median_odd [OF assms] by blast

theorem median_central_witness:
  "\<exists>m. median sample_floats [Finite 3 0 ''3.0'', Finite 1 0 ''1.0'', Finite 1 1 ''2.0''] = Inr m \<and>
     m \<in> {Finite 3 0 ''3.0'', Finite 1 0 ''1.0'', Finite 1 1 ''2.0''}"
  using median_central [of "[Finite 3 0 ''3.0'', Finite 1 0 ''1.0'', Finite 1 1 ''2.0'']" sample_floats] by auto

text \<open>
  A table whose rows all have the same positive number of cells is rendered as one line for
  each row and a rule, all of exactly the same width, which the widest cell of each column decides.
\<close>

theorem table_aligned:
  assumes "rows \<noteq> []" and "list_all (\<lambda>row. length row = n) rows" and "0 < n"
  shows "\<exists>widths ls. column_widths rows = Inr widths \<and> length widths = n \<and> markdown_table rows = Inr ls \<and>
    length ls = Suc (length rows) \<and> list_all (\<lambda>l. length l = sum_list widths + 3 * n + 1) ls"
  using markdown_table_rectangular [OF assms(1) _ assms(3)] assms(2) by (fastforce simp: list_all_iff table_width_def)

theorem table_aligned_witness:
  "\<exists>ls. markdown_table [[''case'', ''ns''], [''add'', ''10.25'']] = Inr ls \<and> length ls = 3"
  using table_aligned [of "[[''case'', ''ns''], [''add'', ''10.25'']]" 2] by auto

text \<open>
  C40: when the command of some fixture and engine, in any state of the files in which it exits with 0, prints no time, the
  script never returns: it ends with an exception (a run that fails does so too), although the row's minimum and
  maximum are written for a run without times.
\<close>

theorem blank_run_raises:
  assumes "(fixture, engine) \<in> set (vm_loop_pairs (finish_args args))"
    and "\<And>cwd environ fs c fs'. b_run env cwd environ (pair_command (finish_args args) (fixture, engine)) fs = (Inr c, fs') \<Longrightarrow>
      returncode c = 0 \<Longrightarrow> list_all (\<lambda>line. strip line = []) (splitlines (run_stdout c))"
  shows "\<exists>e w'. bench_main env args w = (Inl e, w')"
proof (cases "fst (bench_main env args w)")
  case (Inl e)
  then show ?thesis by (metis prod.collapse)
next
  case (Inr code)
  then obtain w' where "bench_main env args w = (Inr code, w')" by (metis prod.collapse)
  from bench_main_Inr [OF this] obtain rows where "sweep_rows env (finish_args args) rows" by blast
  then obtain c r where c: "ran env (pair_command (finish_args args) (fixture, engine)) c"
    and r: "vm_loop_row (b_fl env) (path_name (path_of fixture)) engine (run_stdout c) (run_stderr c) = Inr r"
    using assms(1) unfolding sweep_rows_def list_all2_conv_all_nth in_set_conv_nth by fastforce
  have "list_all (\<lambda>line. strip line = []) (splitlines (run_stdout c))" using c assms(2) by (auto simp: ran_def)
  with blank_output_raises [of "run_stdout c" "b_fl env" "path_name (path_of fixture)" engine "run_stderr c"] r
  show ?thesis by (auto simp: list_all_iff)
qed

text \<open>The sample toolchain without the times.\<close>

definition blank_bench :: bench_env where
  "blank_bench = sample_bench\<lparr>b_run := (\<lambda>cwd environ argv fs.
     (Inr \<lparr>returncode = 0, run_stdout = '' '' @ [newline], run_stderr = []\<rparr>, fs))\<rparr>"

theorem blank_run_raises_witness:
  "\<exists>e w'. bench_main blank_bench sample_bench_args empty_world = (Inl e, w')"
proof -
  have "vm_loop_pairs (finish_args sample_bench_args) \<noteq> []" by code_simp
  then have "(fst (hd (vm_loop_pairs (finish_args sample_bench_args))), snd (hd (vm_loop_pairs (finish_args sample_bench_args))))
      \<in> set (vm_loop_pairs (finish_args sample_bench_args))" by simp
  moreover have "list_all (\<lambda>line. strip line = []) (splitlines ('' '' @ [newline]))" by code_simp
  ultimately show ?thesis
    using blank_run_raises [of "fst (hd (vm_loop_pairs (finish_args sample_bench_args)))"
        "snd (hd (vm_loop_pairs (finish_args sample_bench_args)))" sample_bench_args blank_bench empty_world]
    by (auto simp: blank_bench_def)
qed

end
