(* ===== verification/Zig_Words.thy ===== *)
theory Zig_Words
  imports Main "HOL-Library.Word" "HOL-Library.Sublist"
begin

text \<open>
  The machine integers of the Zig library: words of fixed width, the checked, saturating and
  wrapping operations it uses, and the outcome of code that may trap. A \<^verbatim>\<open>usize\<close> is a natural
  number with the bound \<open>usize_max\<close> of a 64-bit target, which is where the code tests it.
\<close>

unbundle bit_operations_syntax

named_theorems zig_simps \<open>inversion of outcomes and of checked arithmetic\<close>

type_synonym u8 = "8 word"
type_synonym u64 = "64 word"
type_synonym u256 = "256 word"
type_synonym bytes = "8 word list"

definition usize_max :: nat where
  "usize_max = 2 ^ 64 - 1"

section \<open>Outcomes\<close>

text \<open>
  \<open>Trap\<close> is a failed safety check or an illegal overflow; \<open>Fails e\<close> is a returned error.
\<close>

datatype ('e, 'a) outcome = Done 'a | Fails 'e | Trap

fun zbind :: "('e, 'a) outcome \<Rightarrow> ('a \<Rightarrow> ('e, 'b) outcome) \<Rightarrow> ('e, 'b) outcome" where
  "zbind (Done x) f = f x"
| "zbind (Fails e) f = Fails e"
| "zbind Trap f = Trap"

definition zassert :: "bool \<Rightarrow> ('e, 'a) outcome \<Rightarrow> ('e, 'a) outcome" where
  "zassert b m = (if b then m else Trap)"

definition zguard :: "bool \<Rightarrow> 'e \<Rightarrow> ('e, 'a) outcome \<Rightarrow> ('e, 'a) outcome" where
  "zguard b e m = (if b then Fails e else m)"

lemma zbind_Done_iff [zig_simps]: "zbind m f = Done y \<longleftrightarrow> (\<exists>x. m = Done x \<and> f x = Done y)"
  by (cases m) auto

lemma zbind_Trap_iff [zig_simps]: "zbind m f = Trap \<longleftrightarrow> m = Trap \<or> (\<exists>x. m = Done x \<and> f x = Trap)"
  by (cases m) auto

lemma zassert_Done_iff [zig_simps]: "zassert b m = Done x \<longleftrightarrow> b \<and> m = Done x"
  by (simp add: zassert_def)

lemma zguard_Done_iff [zig_simps]: "zguard b e m = Done x \<longleftrightarrow> \<not> b \<and> m = Done x"
  by (simp add: zguard_def)

lemma zassert_simps [simp]: "zassert True m = m" "zassert False m = Trap"
  by (simp_all add: zassert_def)

lemma zguard_simps [simp]: "zguard True e m = Fails e" "zguard False e m = m"
  by (simp_all add: zguard_def)

section \<open>Checked and saturating arithmetic\<close>

definition checked_add :: "'w::len word \<Rightarrow> 'w word \<Rightarrow> 'w word option" where
  "checked_add a b = (if unat a + unat b < 2 ^ LENGTH('w) then Some (a + b) else None)"

definition checked_mul :: "'w::len word \<Rightarrow> 'w word \<Rightarrow> 'w word option" where
  "checked_mul a b = (if unat a * unat b < 2 ^ LENGTH('w) then Some (a * b) else None)"

definition sat_add :: "'w::len word \<Rightarrow> 'w word \<Rightarrow> 'w word" where
  "sat_add a b = (if unat a + unat b < 2 ^ LENGTH('w) then a + b else - 1)"

definition sat_sub :: "'w::len word \<Rightarrow> 'w word \<Rightarrow> 'w word" where
  "sat_sub a b = (if b \<le> a then a - b else 0)"

definition sat_mul :: "'w::len word \<Rightarrow> 'w word \<Rightarrow> 'w word" where
  "sat_mul a b = (if unat a * unat b < 2 ^ LENGTH('w) then a * b else - 1)"

lemma checked_add_Some [zig_simps]:
  fixes a b c :: "'w::len word"
  shows "checked_add a b = Some c \<longleftrightarrow> unat c = unat a + unat b"
proof
  assume "unat c = unat a + unat b"
  then have "unat a + unat b < 2 ^ LENGTH('w)" by (metis unsigned_less)
  moreover from this have "unat (a + b) = unat c" using \<open>unat c = unat a + unat b\<close> by (simp add: unat_word_ariths)
  ultimately show "checked_add a b = Some c" by (simp add: checked_add_def word_unat_eq_iff)
qed (auto simp: checked_add_def unat_word_ariths split: if_splits)

lemma checked_mul_Some [zig_simps]:
  fixes a b c :: "'w::len word"
  shows "checked_mul a b = Some c \<longleftrightarrow> unat c = unat a * unat b"
proof
  assume "unat c = unat a * unat b"
  then have "unat a * unat b < 2 ^ LENGTH('w)" by (metis unsigned_less)
  moreover from this have "unat (a * b) = unat c" using \<open>unat c = unat a * unat b\<close> by (simp add: unat_word_ariths)
  ultimately show "checked_mul a b = Some c" by (simp add: checked_mul_def word_unat_eq_iff)
qed (auto simp: checked_mul_def unat_word_ariths split: if_splits)

lemma checked_add_None [zig_simps]:
  "checked_add (a :: 'w::len word) b = None \<longleftrightarrow> 2 ^ LENGTH('w) \<le> unat a + unat b"
  by (auto simp: checked_add_def)

lemma checked_mul_None [zig_simps]:
  "checked_mul (a :: 'w::len word) b = None \<longleftrightarrow> 2 ^ LENGTH('w) \<le> unat a * unat b"
  by (auto simp: checked_mul_def)

lemma unat_minus_one_full [simp]: "unat (- 1 :: 'w::len word) = 2 ^ LENGTH('w) - 1"
  by (simp add: unsigned_minus_1_eq_mask mask_eq_exp_minus_1)

lemma unat_sat_add: "unat (sat_add (a :: 'w::len word) b) = min (unat a + unat b) (2 ^ LENGTH('w) - 1)"
  by (auto simp: sat_add_def unat_word_ariths min_def)

lemma unat_sat_mul: "unat (sat_mul (a :: 'w::len word) b) = min (unat a * unat b) (2 ^ LENGTH('w) - 1)"
proof (cases "unat a * unat b < 2 ^ LENGTH('w)")
  case False
  then have "2 ^ LENGTH('w) - 1 \<le> unat a * unat b" by linarith
  with False show ?thesis by (simp add: sat_mul_def min_def)
next
  case True
  then have "unat a * unat b \<le> 2 ^ LENGTH('w) - 1" by linarith
  then have "min (unat a * unat b) (2 ^ LENGTH('w) - 1) = unat a * unat b" by (rule min_absorb1)
  with True show ?thesis by (simp add: sat_mul_def unat_word_ariths del: min_def)
qed

lemma unat_drop_bit: "unat (drop_bit n (a :: 'w::len word)) = unat a div 2 ^ n"
  unfolding unat_drop_bit_eq by (rule drop_bit_eq_div)

lemma unat_u256_less: "unat (a :: u256) < 2 ^ 256"
  using unsigned_less [of a] by simp

lemma unat_u64_less: "unat (a :: u64) < 2 ^ 64"
  using unsigned_less [of a] by simp

section \<open>Leading zeros\<close>

text \<open>\<^verbatim>\<open>@clz\<close> of the low \<open>w\<close> bits.\<close>

definition clz :: "nat \<Rightarrow> 'w::len word \<Rightarrow> nat" where
  "clz w v = length (takeWhile (\<lambda>i. \<not> bit v i) (rev [0..<w]))"

lemma clz_le: "clz w v \<le> w"
  unfolding clz_def by (rule le_trans [OF length_takeWhile_le]) simp

lemma bit_word_width:
  "v \<noteq> 0 \<Longrightarrow> unat v < 2 ^ w \<Longrightarrow> 0 < w - clz w v \<and> 2 ^ (w - clz w v - 1) \<le> unat v \<and> unat v < 2 ^ (w - clz w v)"
proof (induction w)
  case 0
  then show ?case by (simp add: unat_eq_0)
next
  case (Suc w)
  have bw: "bit v w \<longleftrightarrow> odd (unat v div 2 ^ w)"
    using bit_iff_odd [of "unat v" w] by (simp add: bit_unsigned_iff)
  show ?case
  proof (cases "bit v w")
    case True
    then have "clz (Suc w) v = 0" by (simp add: clz_def)
    moreover have "unat v div 2 ^ w \<noteq> 0" using True bw by (metis even_zero)
    then have "2 ^ w \<le> unat v" by (simp add: div_eq_0_iff)
    ultimately show ?thesis using Suc.prems by simp
  next
    case False
    then have z: "clz (Suc w) v = Suc (clz w v)" by (simp add: clz_def)
    have "unat v div 2 ^ w < 2" using Suc.prems by (simp add: less_mult_imp_div_less)
    moreover have "even (unat v div 2 ^ w)" using False bw by simp
    ultimately have "unat v div 2 ^ w = 0" by (auto simp: less_2_cases_iff)
    then have "unat v < 2 ^ w" by (simp add: div_eq_0_iff)
    with z show ?thesis using Suc by simp
  qed
qed

end
