(* ===== verification/Zig_Jumpdest.thy ===== *)
theory Zig_Jumpdest
  imports Zig_Words
begin

text \<open>
  Jump destination analysis, \<^verbatim>\<open>src/src/code/scanner.zig\<close> and \<^verbatim>\<open>JumpDestMap.zig\<close>. The native scan
  walks 64-byte blocks without a branch that depends on the code: each group of 16 bytes follows
  all its walks at once by pointer doubling, with the byte table lookup of either processor. The
  serial walk and the linear reference read one instruction at a time. The theory defines the
  three as the code writes them, with the instruction starts as an inductive set that none of
  them computes, and shows what each group and block of the doubled walks holds.
\<close>

unbundle bit_operations_syntax

section \<open>The framing rule of the code format\<close>

definition JUMPDEST :: u8 where "JUMPDEST = 0x5b"
definition PUSH0 :: u8 where "PUSH0 = 0x5f"
definition PUSH1 :: u8 where "PUSH1 = 0x60"
definition PUSH32 :: u8 where "PUSH32 = 0x7f"

lemmas opcode_defs = JUMPDEST_def PUSH0_def PUSH1_def PUSH32_def

definition isPushN :: "u8 \<Rightarrow> bool" where
  "isPushN b = (PUSH1 \<le> b \<and> b \<le> PUSH32)"

definition pushImmediateLen :: "u8 \<Rightarrow> u8" where
  "pushImmediateLen b = (if \<not> isPushN b then 0 else b - PUSH0)"

text \<open>The positions at which an instruction starts: no code computes this set.\<close>

inductive instr_start :: "bytes \<Rightarrow> nat \<Rightarrow> bool" for bs where
  entry: "instr_start bs 0"
| next_instr: "instr_start bs p \<Longrightarrow> p < length bs \<Longrightarrow>
     instr_start bs (p + 1 + unat (pushImmediateLen (bs ! p)))"

section \<open>The bit set of the standard library\<close>

record bit_set =
  bit_length :: nat
  masks :: "u64 list"

definition bits_initEmpty :: "nat \<Rightarrow> bit_set" where
  "bits_initEmpty n = \<lparr>bit_length = n, masks = replicate ((n + 63) div 64) 0\<rparr>"

definition mark_bit :: "u64 list \<Rightarrow> nat \<Rightarrow> u64 list" where
  "mark_bit ms i = ms[i div 64 := ms ! (i div 64) OR push_bit (i mod 64) 1]"

definition mask_bit :: "u64 list \<Rightarrow> nat \<Rightarrow> bool" where
  "mask_bit ms i = bit (ms ! (i div 64)) (i mod 64)"

definition bits_set :: "bit_set \<Rightarrow> nat \<Rightarrow> ('e, bit_set) outcome" where
  "bits_set m i = zassert (i < bit_length m) (Done (m\<lparr>masks := mark_bit (masks m) i\<rparr>))"

definition bits_isSet :: "bit_set \<Rightarrow> nat \<Rightarrow> ('e, bool) outcome" where
  "bits_isSet m i = zassert (i < bit_length m) (Done (mask_bit (masks m) i))"

section \<open>The serial walk and the linear reference\<close>

definition instr_lengths :: "u8 list" where
  "instr_lengths = fold (\<lambda>i result. result[unat PUSH1 + i := word_of_nat (i + 2)]) [0..<32] (replicate 256 1)"

lemma nth_fold_update: "k < length xs \<Longrightarrow>
    fold (\<lambda>i r. r[b + i := f i]) [0..<n] xs ! k = (if b \<le> k \<and> k < b + n then f (k - b) else xs ! k)"
proof (induction n)
  case (Suc n)
  have len: "length (fold (\<lambda>i r. r[b + i := f i]) [0..<n] xs) = length xs"
    by (induction n) auto
  show ?case
  proof (cases "k = b + n")
    case True
    with Suc.prems len show ?thesis by simp
  next
    case False
    with Suc len show ?thesis by auto
  qed
qed auto

lemma unat_pushImmediateLen:
  "unat (pushImmediateLen b) = (if 96 \<le> unat b \<and> unat b \<le> 127 then unat b - 95 else 0)"
  by (auto simp: pushImmediateLen_def isPushN_def opcode_defs word_le_nat_alt unat_sub)

lemma pushImmediateLen_le: "unat (pushImmediateLen b) \<le> 32"
  unfolding unat_pushImmediateLen by (split if_split) linarith

lemma instr_lengths_nth: "unat (instr_lengths ! unat b) = 1 + unat (pushImmediateLen b)"
proof -
  have b: "unat b < length (replicate 256 (1 :: u8))" using unsigned_less [of b] by simp
  have w: "unat (word_of_nat (i + 2) :: u8) = i + 2" if "i < 32" for i
    using that by (simp only: unat_of_nat) simp
  have "instr_lengths ! unat b =
      (if 96 \<le> unat b \<and> unat b < 96 + 32 then word_of_nat (unat b - 96 + 2) else 1)"
    unfolding instr_lengths_def nth_fold_update [OF b] using b by (simp add: PUSH1_def)
  moreover have "unat (word_of_nat (unat b - 96 + 2) :: u8) = unat b - 96 + 2" if "unat b < 128"
    using w [of "unat b - 96"] that by linarith
  ultimately show ?thesis by (cases "unat b < 128") (simp_all only: unat_pushImmediateLen, auto)
qed

function markWordsFrom :: "u64 list \<Rightarrow> bytes \<Rightarrow> nat \<Rightarrow> ('e, u64 list) outcome" where
  "markWordsFrom ms bs pc = (if pc < length bs then
     let opcode_byte = bs ! pc;
         next = pc + unat (instr_lengths ! unat opcode_byte)
     in if opcode_byte = JUMPDEST
        then zassert (pc div 64 < length ms) (markWordsFrom (mark_bit ms pc) bs next)
        else markWordsFrom ms bs next
   else Done ms)"
  by pat_completeness auto
termination by (relation "measure (\<lambda>(ms, bs, pc). length bs - pc)") (auto simp: instr_lengths_nth)

declare markWordsFrom.simps [simp del]

definition markJumpDestWords :: "u64 list \<Rightarrow> bytes \<Rightarrow> ('e, u64 list) outcome" where
  "markJumpDestWords ms bs = markWordsFrom ms bs 0"

function markLinearFrom :: "bit_set \<Rightarrow> bytes \<Rightarrow> nat \<Rightarrow> ('e, bit_set) outcome" where
  "markLinearFrom m bs pc = (if pc < length bs then
     zbind (if bs ! pc = JUMPDEST then bits_set m pc else Done m) (\<lambda>m'.
       markLinearFrom m' bs (min (length bs) (pc + 1 + unat (pushImmediateLen (bs ! pc)))))
   else Done m)"
  by pat_completeness auto
termination by (relation "measure (\<lambda>(m, bs, pc). length bs - pc)") auto

declare markLinearFrom.simps [simp del]

definition markLinear :: "bit_set \<Rightarrow> bytes \<Rightarrow> ('e, bit_set) outcome" where
  "markLinear m bs = markLinearFrom m bs 0"

section \<open>The block scan\<close>

datatype arch = AArch64 | X86_64

type_synonym lanes = "u8 list"

definition lookup_lane :: "arch \<Rightarrow> lanes \<Rightarrow> u8 \<Rightarrow> u8" where
  "lookup_lane a table i = (case a of
     AArch64 \<Rightarrow> if unat i < 16 then table ! unat i else 0
   | X86_64 \<Rightarrow> let j = i + 0x70 in if bit j 7 then 0 else table ! unat (j AND 15))"

definition lookup :: "arch \<Rightarrow> lanes \<Rightarrow> lanes \<Rightarrow> lanes" where
  "lookup a table indices = map (lookup_lane a table) indices"

record walks =
  exits :: lanes
  low :: lanes
  high :: lanes

definition walk_round :: "arch \<Rightarrow> nat \<Rightarrow> walks \<Rightarrow> walks" where
  "walk_round a r w =
     (let lw = if r < 3 then map2 (OR) (low w) (lookup a (low w) (exits w)) else low w;
          hg = map2 (OR) (high w) (lookup a (high w) (exits w));
          ex = map2 max (exits w) (lookup a (exits w) (exits w))
      in \<lparr>exits = ex, low = lw, high = hg\<rparr>)"

definition walks_init :: "lanes \<Rightarrow> walks" where
  "walks_init bs =
     (let is_push = map (\<lambda>b. b AND 0xe0 = PUSH1) bs;
          immediates = map2 (\<lambda>p b. if p then b - (PUSH1 - 1) else 0) is_push bs
      in \<lparr>exits = map2 (+) [1, 2, 3, 4, 5, 6, 7, 8, 9, 10, 11, 12, 13, 14, 15, 16] immediates,
          low = [1, 2, 4, 8, 16, 32, 64, 128, 0, 0, 0, 0, 0, 0, 0, 0],
          high = [0, 0, 0, 0, 0, 0, 0, 0, 1, 2, 4, 8, 16, 32, 64, 128]\<rparr>)"

definition groupWalks :: "arch \<Rightarrow> lanes \<Rightarrow> walks" where
  "groupWalks a bs = fold (walk_round a) [0..<4] (walks_init bs)"

definition blockWalks :: "arch \<Rightarrow> bytes \<Rightarrow> walks" where
  "blockWalks a chunk =
     (let gs = map (\<lambda>g. groupWalks a (take 16 (drop (g * 16) chunk))) [0..<4]
      in \<lparr>exits = concat (map (\<lambda>g. map (\<lambda>x. x + word_of_nat (g * 16)) (exits (gs ! g))) [0..<4]),
          low = concat (map low gs), high = concat (map high gs)\<rparr>)"

definition follow :: "walks \<Rightarrow> nat \<times> u64 \<Rightarrow> nat \<times> u64" where
  "follow w st = (case st of (at, opcodes) \<Rightarrow>
     let inside = at < 64; i = at mod 64;
         stops = ucast (low w ! i) OR push_bit 8 (ucast (high w ! i)) :: u64
     in (if inside then unat (exits w ! i) else at,
         opcodes OR push_bit (i AND 48) (if inside then stops else 0)))"

definition jumpdest_lanes :: "bytes \<Rightarrow> u64" where
  "jumpdest_lanes chunk = horner_sum of_bool 2 (map (\<lambda>b. b = JUMPDEST) chunk)"

definition markBlock :: "arch \<Rightarrow> bytes \<Rightarrow> nat \<Rightarrow> ('e, u64 \<times> nat) outcome" where
  "markBlock a chunk carry =
     (case (follow (blockWalks a chunk) ^^ 4) (carry, 0) of (at, opcodes) \<Rightarrow>
       zassert (64 \<le> at) (Done (jumpdest_lanes chunk AND opcodes, at - 64)))"

fun markFull :: "arch \<Rightarrow> bytes \<Rightarrow> nat \<Rightarrow> nat \<Rightarrow> nat \<Rightarrow> u64 list \<Rightarrow> ('e, u64 list \<times> nat) outcome" where
  "markFull a bs index 0 carry ms = Done (ms, carry)"
| "markFull a bs index (Suc n) carry ms =
     zbind (markBlock a (take 64 (drop (index * 64) bs)) carry) (\<lambda>(mask, carry').
       markFull a bs (Suc index) n carry' (ms[index := mask]))"

definition markJumpDestBlocks :: "arch \<Rightarrow> u64 list \<Rightarrow> bytes \<Rightarrow> ('e, u64 list) outcome" where
  "markJumpDestBlocks a ms bs =
     (let full = length bs div 64 in
      zassert (full \<le> length ms)
      (zbind (markFull a bs 0 full 0 ms) (\<lambda>(ms', carry).
       if length bs mod 64 \<noteq> 0
       then let rest = drop (full * 64) bs;
                tail = rest @ replicate (64 - length bs mod 64) 0
            in zassert (full < length ms')
               (zbind (markBlock a tail carry) (\<lambda>(mask, _). Done (ms'[full := mask])))
       else Done ms')))"

text \<open>
  The scan a build selects: \<^term>\<open>Some a\<close> is the block scan on the processor \<open>a\<close>, \<^term>\<open>None\<close> a
  zkVM guest or a target without the byte table lookup.
\<close>

definition markJumpDests :: "arch option \<Rightarrow> bit_set \<Rightarrow> bytes \<Rightarrow> ('e, bit_set) outcome" where
  "markJumpDests block_scan m bs =
     zassert (length bs \<le> bit_length m)
     (let mask_count = (bit_length m + 63) div 64; view = take mask_count (masks m) in
      zbind (case block_scan of Some a \<Rightarrow> markJumpDestBlocks a view bs | None \<Rightarrow> markJumpDestWords view bs)
        (\<lambda>view'. Done (m\<lparr>masks := view' @ drop mask_count (masks m)\<rparr>)))"

section \<open>The map of a piece of code\<close>

record jump_dest_map =
  map_bits :: bit_set
  analyzed :: bool

datatype alloc_error = OutOfMemory

definition empty_map :: jump_dest_map where
  "empty_map = \<lparr>map_bits = \<lparr>bit_length = 0, masks = []\<rparr>, analyzed = False\<rparr>"

definition prepared_empty :: jump_dest_map where
  "prepared_empty = \<lparr>map_bits = \<lparr>bit_length = 0, masks = []\<rparr>, analyzed = True\<rparr>"

definition analyze :: "arch option \<Rightarrow> bool \<Rightarrow> jump_dest_map \<Rightarrow> bytes \<Rightarrow> (alloc_error, jump_dest_map) outcome" where
  "analyze block_scan alloc_fails self bs =
     zassert (\<not> analyzed self)
     (if length bs = 0 then Done (self\<lparr>analyzed := True\<rparr>)
      else zguard alloc_fails OutOfMemory
        (zbind (markJumpDests block_scan (bits_initEmpty (length bs)) bs) (\<lambda>marked.
           Done (self\<lparr>map_bits := marked, analyzed := True\<rparr>))))"

definition isValidPrepared :: "jump_dest_map \<Rightarrow> bytes \<Rightarrow> nat \<Rightarrow> ('e, bool) outcome" where
  "isValidPrepared self bs target =
     zassert (analyzed self)
     (if length bs \<le> target then Done False
      else if bs ! target \<noteq> JUMPDEST then Done False
      else bits_isSet (map_bits self) target)"

end
