(* ===== verification/Zig_Jumpdest_Walks.thy ===== *)
theory Zig_Jumpdest_Walks
  imports Zig_Jumpdest
begin

text \<open>
  What the doubled walks of the block scan hold: the orbit of an instruction start, the sixteen
  walks of a group after each round, the walk through the four groups of a block, and the blocks
  of the code one after the other.
\<close>

unbundle bit_operations_syntax

section \<open>Orbits of the instruction walk\<close>

definition instr_next :: "(nat \<Rightarrow> u8) \<Rightarrow> nat \<Rightarrow> nat" where
  "instr_next B p = p + 1 + unat (pushImmediateLen (B p))"

definition orbit :: "(nat \<Rightarrow> u8) \<Rightarrow> nat \<Rightarrow> nat set" where
  "orbit B p = {q. \<exists>k. q = (instr_next B ^^ k) p}"

lemma instr_next_gt: "p < instr_next B p"
  by (simp add: instr_next_def)

lemma instr_next_le: "instr_next B p \<le> p + 33"
  using pushImmediateLen_le [of "B p"] by (simp add: instr_next_def)

lemma orbit_self [simp]: "p \<in> orbit B p"
  unfolding orbit_def by (auto intro: exI [of _ 0])

lemma funpow_comp: "(f ^^ m) ((f ^^ n) x) = (f ^^ (m + n)) x"
  by (simp add: funpow_add)

lemma orbit_trans: "q \<in> orbit B p \<Longrightarrow> r \<in> orbit B q \<Longrightarrow> r \<in> orbit B p"
  by (auto simp: orbit_def funpow_comp)

lemma orbit_next: "q \<in> orbit B p \<Longrightarrow> instr_next B q \<in> orbit B p"
  unfolding orbit_def by (clarsimp, metis funpow.simps(2) comp_apply)

lemma orbit_unfold: "orbit B p = insert p (orbit B (instr_next B p))"
proof (intro equalityI subsetI)
  fix q assume "q \<in> orbit B p"
  then obtain k where q: "q = (instr_next B ^^ k) p" by (auto simp: orbit_def)
  show "q \<in> insert p (orbit B (instr_next B p))"
    using q by (cases k) (auto simp: orbit_def funpow_swap1)
next
  fix q assume "q \<in> insert p (orbit B (instr_next B p))"
  then show "q \<in> orbit B p"
    using orbit_trans [OF orbit_next [OF orbit_self]] by auto
qed

lemma funpow_instr_next_ge: "p + k \<le> (instr_next B ^^ k) p"
proof (induction k)
  case (Suc k)
  then show ?case using instr_next_gt [of "(instr_next B ^^ k) p" B] by simp
qed simp

lemma orbit_ge: "q \<in> orbit B p \<Longrightarrow> p \<le> q"
  using funpow_instr_next_ge [of p _ B] by (auto simp: orbit_def intro: le_trans [OF le_add1])

lemma orbit_next_ge: "q \<in> orbit B p \<Longrightarrow> q \<noteq> p \<Longrightarrow> instr_next B p \<le> q"
  by (subst (asm) orbit_unfold) (auto dest: orbit_ge)

lemma orbit_from: "q \<in> orbit B p \<Longrightarrow> r \<in> orbit B p \<Longrightarrow> q \<le> r \<Longrightarrow> r \<in> orbit B q"
proof -
  assume q: "q \<in> orbit B p" and r: "r \<in> orbit B p" and le: "q \<le> r"
  obtain k l where k: "q = (instr_next B ^^ k) p" and l: "r = (instr_next B ^^ l) p"
    using q r by (auto simp: orbit_def)
  show ?thesis
  proof (cases "k \<le> l")
    case True
    then have "r = (instr_next B ^^ (l - k)) q" by (simp add: k l funpow_comp)
    then show ?thesis by (auto simp: orbit_def)
  next
    case False
    then have "q = (instr_next B ^^ (k - l)) r" by (simp add: k l funpow_comp)
    then have "r + (k - l) \<le> q" using funpow_instr_next_ge [of r "k - l" B] by simp
    with le False show ?thesis by simp
  qed
qed

section \<open>The lanes of a group\<close>

lemma all_u8: "(\<forall>n\<in>set [0..<256]. P (word_of_nat n)) \<Longrightarrow> P (b :: u8)"
proof -
  assume all: "\<forall>n\<in>set [0..<256]. P (word_of_nat n)"
  have "unat b \<in> set [0..<256]" using unsigned_less [of b] by simp
  from bspec [OF all this] show "P b" by simp
qed

lemma x86_inside: "\<forall>n\<in>set [0..<16]. \<not> bit (word_of_nat n + 0x70 :: u8) 7 \<and> unat ((word_of_nat n + 0x70 :: u8) AND 15) = n"
  by code_simp

lemma x86_outside: "\<forall>n\<in>set [16..<144]. bit (word_of_nat n + 0x70 :: u8) 7"
  by code_simp

lemma push_mask: "\<forall>n\<in>set [0..<256]. ((word_of_nat n :: u8) AND 0xe0 = PUSH1) = (96 \<le> n \<and> n \<le> 127)"
  by code_simp

lemma unat_in_range: "m \<le> unat (i :: u8) \<Longrightarrow> unat i < n \<Longrightarrow> unat i \<in> set [m..<n]"
  by simp

lemma lookup_lane_inside: "unat i < 16 \<Longrightarrow> lookup_lane a table i = table ! unat i"
  using bspec [OF x86_inside unat_in_range, of i] by (cases a) (simp_all add: lookup_lane_def Let_def)

lemma lookup_lane_outside: "16 \<le> unat i \<Longrightarrow> unat i < 144 \<Longrightarrow> lookup_lane a table i = 0"
  using bspec [OF x86_outside unat_in_range, of i] by (cases a) (simp_all add: lookup_lane_def Let_def)

lemma push_mask_iff: "((b :: u8) AND 0xe0 = PUSH1) = (96 \<le> unat b \<and> unat b \<le> 127)"
  using bspec [OF push_mask unat_in_range, of b] unsigned_less [of b] by simp

text \<open>One step of a walk that is still inside the group; a walk that left stays put.\<close>

definition group_next :: "lanes \<Rightarrow> nat \<Rightarrow> nat" where
  "group_next g i = (if i < 16 then i + 1 + unat (pushImmediateLen (g ! i)) else i)"

lemma group_next_ge: "i \<le> group_next g i"
  by (simp add: group_next_def)

lemma group_next_le: "i \<le> 48 \<Longrightarrow> group_next g i \<le> 48"
  using pushImmediateLen_le [of "g ! i"] by (simp add: group_next_def)

lemma group_walk_le: "i \<le> 48 \<Longrightarrow> (group_next g ^^ k) i \<le> 48"
  by (induction k) (simp_all add: group_next_le)

lemma group_walk_ge: "i \<le> (group_next g ^^ k) i"
  by (induction k) (auto intro: le_trans group_next_ge)

lemma group_walk_out: "16 \<le> i \<Longrightarrow> (group_next g ^^ k) i = i"
  by (induction k) (simp_all add: group_next_def)

lemma group_walk_progress: "min 16 (i + k) \<le> (group_next g ^^ k) i"
proof (induction k)
  case (Suc k)
  have "min 16 (Suc n) \<le> group_next g m" if "min 16 n \<le> m" for m n
    using that by (auto simp: group_next_def)
  from this [OF Suc] show ?case by simp
qed simp

lemma doubled: "(\<exists>k<2 ^ Suc r. P k) \<longleftrightarrow> (\<exists>k<2 ^ r. P k) \<or> (\<exists>k<2 ^ r. P (k + 2 ^ r))" for P :: "nat \<Rightarrow> bool"
proof
  assume "\<exists>k<2 ^ Suc r. P k"
  then obtain k where k: "k < 2 ^ Suc r" "P k" by blast
  show "(\<exists>k<2 ^ r. P k) \<or> (\<exists>k<2 ^ r. P (k + 2 ^ r))"
  proof (cases "k < 2 ^ r")
    case False
    then have "P (k - 2 ^ r + 2 ^ r)" "k - 2 ^ r < 2 ^ r" using k by simp_all
    then show ?thesis by blast
  qed (use k in blast)
next
  assume "(\<exists>k<2 ^ r. P k) \<or> (\<exists>k<2 ^ r. P (k + 2 ^ r))"
  moreover have "k < 2 ^ Suc r" "k + 2 ^ r < 2 ^ Suc r" if "k < 2 ^ r" for k :: nat
    using that by simp_all
  ultimately show "\<exists>k<2 ^ Suc r. P k" by blast
qed

definition lane_holds :: "lanes \<Rightarrow> nat \<Rightarrow> nat \<Rightarrow> walks \<Rightarrow> bool" where
  "lane_holds g r i w \<longleftrightarrow> unat (exits w ! i) = (group_next g ^^ (2 ^ r)) i \<and>
     (\<forall>j<8. bit (low w ! i) j = (\<exists>k<2 ^ min r 3. (group_next g ^^ k) i = j)) \<and>
     (\<forall>j<8. bit (high w ! i) j = (\<exists>k<2 ^ r. (group_next g ^^ k) i = j + 8))"

definition walks_hold :: "lanes \<Rightarrow> nat \<Rightarrow> walks \<Rightarrow> bool" where
  "walks_hold g r w \<longleftrightarrow> length (exits w) = 16 \<and> length (low w) = 16 \<and> length (high w) = 16 \<and>
     (\<forall>i<16. lane_holds g r i w)"

lemma walk_round_holds: assumes "walks_hold g r w" shows "walks_hold g (Suc r) (walk_round a r w)"
proof -
  have len: "length (exits w) = 16" "length (low w) = 16" "length (high w) = 16"
    and lane: "\<And>i. i < 16 \<Longrightarrow> lane_holds g r i w"
    using assms by (auto simp: walks_hold_def)
  have "lane_holds g (Suc r) i (walk_round a r w)" if i: "i < 16" for i
  proof -
    let ?F = "group_next g" and ?e = "exits w ! i"
    have e: "unat ?e = (?F ^^ (2 ^ r)) i" using lane [OF i] by (simp add: lane_holds_def)
    have le: "unat ?e \<le> 48" using i by (simp add: e group_walk_le)
    have comp2: "(?F ^^ (k + 2 ^ r)) i = (?F ^^ k) (unat ?e)" for k by (simp add: e funpow_comp)
    have exit: "unat (max ?e (lookup_lane a (exits w) ?e)) = (?F ^^ (2 ^ Suc r)) i"
    proof (cases "unat ?e < 16")
      case True
      have "unat (exits w ! unat ?e) = (?F ^^ (2 ^ r)) (unat ?e)"
        using lane [OF True] by (simp add: lane_holds_def)
      moreover have "unat ?e \<le> (?F ^^ (2 ^ r)) (unat ?e)" by (rule group_walk_ge)
      moreover have "(?F ^^ (2 ^ Suc r)) i = (?F ^^ (2 ^ r)) (unat ?e)" by (simp add: comp2 [symmetric] mult_2)
      ultimately show ?thesis by (simp add: lookup_lane_inside True max_def word_le_nat_alt)
    next
      case False
      then have "(?F ^^ (2 ^ Suc r)) i = unat ?e"
        using group_walk_out [of "unat ?e" "2 ^ r" g] by (simp add: comp2 [symmetric] mult_2)
      with False le show ?thesis by (simp add: lookup_lane_outside max_def)
    qed
    have bits: "bit (t ! i OR lookup_lane a t ?e) j \<longleftrightarrow> (\<exists>k<2 ^ Suc r. (?F ^^ k) i = j + c)"
      if t: "\<And>i j. i < 16 \<Longrightarrow> j < 8 \<Longrightarrow> bit (t ! i) j = (\<exists>k<2 ^ r. (?F ^^ k) i = j + c)"
        and j: "j < 8" "j + c < 16" for t :: lanes and c j
    proof (cases "unat ?e < 16")
      case True
      then show ?thesis using t [OF i j(1)] t [OF True j(1)]
        by (simp only: doubled comp2 lookup_lane_inside bit_or_iff)
    next
      case False
      then have "(?F ^^ k) (unat ?e) \<noteq> j + c" for k using j(2) group_walk_out [of "unat ?e" k g] by simp
      then show ?thesis using t [OF i j(1)] False le
        by (simp only: doubled comp2 lookup_lane_outside bit_or_iff) auto
    qed
    have lowr: "bit (low w ! i') j = (\<exists>k<2 ^ min r 3. (?F ^^ k) i' = j)" if "i' < 16" "j < 8" for i' j
      using lane [OF that(1)] that(2) by (simp add: lane_holds_def)
    have highr: "bit (high w ! i') j = (\<exists>k<2 ^ r. (?F ^^ k) i' = j + 8)" if "i' < 16" "j < 8" for i' j
      using lane [OF that(1)] that(2) by (simp add: lane_holds_def)
    have ex: "unat (exits (walk_round a r w) ! i) = (?F ^^ (2 ^ Suc r)) i"
      using i exit by (simp add: walk_round_def Let_def lookup_def len)
    have lw: "bit (low (walk_round a r w) ! i) j = (\<exists>k<2 ^ min (Suc r) 3. (?F ^^ k) i = j)" if j: "j < 8" for j
    proof (cases "r < 3")
      case True
      then have "min r 3 = r" "min (Suc r) 3 = Suc r" by auto
      with bits [of "low w" 0 j] lowr j show ?thesis
        by (simp add: walk_round_def Let_def lookup_def len i True del: bit_or_iff)
    next
      case False
      then have "min r 3 = 3" "min (Suc r) 3 = 3" by auto
      with lowr [OF i j] False show ?thesis by (simp add: walk_round_def Let_def)
    qed
    have hg: "bit (high (walk_round a r w) ! i) j = (\<exists>k<2 ^ Suc r. (?F ^^ k) i = j + 8)" if j: "j < 8" for j
      using bits [of "high w" 8 j] highr j
      by (simp add: walk_round_def Let_def lookup_def len i del: bit_or_iff)
    show ?thesis unfolding lane_holds_def using ex lw hg by blast
  qed
  then show ?thesis by (simp add: walks_hold_def walk_round_def Let_def lookup_def len)
qed

lemma init_low: "\<forall>i\<in>set [0..<16]. \<forall>j\<in>set [0..<8].
    bit ([1, 2, 4, 8, 16, 32, 64, 128, 0, 0, 0, 0, 0, 0, 0, 0] ! i :: u8) j = (i = j)"
  by code_simp

lemma init_high: "\<forall>i\<in>set [0..<16]. \<forall>j\<in>set [0..<8].
    bit ([0, 0, 0, 0, 0, 0, 0, 0, 1, 2, 4, 8, 16, 32, 64, 128] ! i :: u8) j = (i = j + 8)"
  by code_simp

lemma init_exits: "\<forall>i\<in>set [0..<16]. unat ([1, 2, 3, 4, 5, 6, 7, 8, 9, 10, 11, 12, 13, 14, 15, 16] ! i :: u8) = i + 1"
  by code_simp

lemma immediate_lane: "unat (if (b :: u8) AND 0xe0 = PUSH1 then b - (PUSH1 - 1) else 0) = unat (pushImmediateLen b)"
  unfolding push_mask_iff by (auto simp: unat_pushImmediateLen PUSH1_def word_le_nat_alt unat_sub)

lemma walks_init_holds: assumes g: "length g = 16" shows "walks_hold g 0 (walks_init g)"
proof -
  have "lane_holds g 0 i (walks_init g)" if i: "i < 16" for i
  proof -
    have im: "i \<in> set [0..<16]" using i by simp
    let ?x = "[1, 2, 3, 4, 5, 6, 7, 8, 9, 10, 11, 12, 13, 14, 15, 16] ! i :: u8"
    let ?d = "if (g ! i) AND 0xe0 = PUSH1 then g ! i - (PUSH1 - 1) else 0"
    have x: "unat ?x = i + 1" using bspec [OF init_exits im] .
    have d: "unat ?d = unat (pushImmediateLen (g ! i))" by (rule immediate_lane)
    have "unat (?x + ?d) = unat ?x + unat ?d"
      using x d i pushImmediateLen_le [of "g ! i"] by (subst unat_add_lem [symmetric]) simp
    moreover have "exits (walks_init g) ! i = ?x + ?d" using i g by (simp add: walks_init_def Let_def)
    ultimately have "unat (exits (walks_init g) ! i) = group_next g i"
      using x d i by (simp only: group_next_def) simp
    moreover have "bit (low (walks_init g) ! i) j = (i = j)" if "j < 8" for j
      using bspec [OF bspec [OF init_low im], of j] that by (simp add: walks_init_def Let_def)
    moreover have "bit (high (walks_init g) ! i) j = (i = j + 8)" if "j < 8" for j
      using bspec [OF bspec [OF init_high im], of j] that by (simp add: walks_init_def Let_def)
    ultimately show ?thesis unfolding lane_holds_def by simp
  qed
  then show ?thesis by (simp add: walks_hold_def) (simp add: walks_init_def Let_def g)
qed

lemma groupWalks_hold: assumes g: "length g = 16" shows "walks_hold g 4 (groupWalks a g)"
proof -
  have "walks_hold g n (fold (walk_round a) [0..<n] (walks_init g))" for n
    by (induction n) (simp_all add: walks_init_holds [OF g] walk_round_holds)
  then show ?thesis by (simp only: groupWalks_def)
qed

text \<open>The walk of a lane, over the positions of the code the group stands at.\<close>

lemma group_walk_instr:
  assumes B: "\<And>j. j < 16 \<Longrightarrow> g ! j = B (b + j)"
  shows "\<exists>l. b + (group_next g ^^ k) i = (instr_next B ^^ l) (b + i) \<and>
    (\<forall>m<l. (instr_next B ^^ m) (b + i) < b + 16)"
proof (induction k)
  case 0
  show ?case by (intro exI [of _ 0]) simp
next
  case (Suc k)
  then obtain l where l: "b + (group_next g ^^ k) i = (instr_next B ^^ l) (b + i)"
    "\<forall>m<l. (instr_next B ^^ m) (b + i) < b + 16" by blast
  let ?x = "(group_next g ^^ k) i"
  show ?case
  proof (cases "?x < 16")
    case True
    have "b + group_next g ?x = instr_next B (b + ?x)"
      using True by (simp add: group_next_def instr_next_def B)
    with l True show ?thesis by (intro exI [of _ "Suc l"]) (auto simp: less_Suc_eq)
  next
    case False
    then have "group_next g ?x = ?x" by (simp add: group_next_def)
    with l show ?thesis by auto
  qed
qed

lemma group_walk_orbit:
  assumes B: "\<And>j. j < 16 \<Longrightarrow> g ! j = B (b + j)" and ji: "j < 16"
  shows "(\<exists>k. (group_next g ^^ k) i = j) \<longleftrightarrow> b + j \<in> orbit B (b + i)"
proof
  assume "\<exists>k. (group_next g ^^ k) i = j"
  then obtain k where k: "(group_next g ^^ k) i = j" by blast
  obtain l where "b + (group_next g ^^ k) i = (instr_next B ^^ l) (b + i)"
    using group_walk_instr [of g B b k i, OF B] by blast
  with k show "b + j \<in> orbit B (b + i)" by (auto simp: orbit_def)
next
  assume "b + j \<in> orbit B (b + i)"
  then obtain n where n: "b + j = (instr_next B ^^ n) (b + i)" by (auto simp: orbit_def)
  have "b + (group_next g ^^ k) i = (instr_next B ^^ k) (b + i)" if "k \<le> n" for k
    using that
  proof (induction k)
    case (Suc k)
    let ?x = "(group_next g ^^ k) i"
    have x: "b + ?x = (instr_next B ^^ k) (b + i)" using Suc by simp
    have "(instr_next B ^^ n) (b + i) = (instr_next B ^^ (n - k)) (b + ?x)"
      using Suc.prems by (simp add: x funpow_comp)
    then have "?x \<le> j" using funpow_instr_next_ge [of "b + ?x" "n - k" B] n by simp
    then have "b + group_next g ?x = instr_next B (b + ?x)"
      using ji by (simp add: group_next_def instr_next_def B)
    then show ?case by (simp add: x)
  qed simp
  from this [of n] n have "(group_next g ^^ n) i = j" by linarith
  then show "\<exists>k. (group_next g ^^ k) i = j" ..
qed

definition lane_stops :: "walks \<Rightarrow> nat \<Rightarrow> u64" where
  "lane_stops w i = ucast (low w ! i) OR push_bit 8 (ucast (high w ! i))"

lemma bit_lane_stops: "bit (lane_stops w i) j \<longleftrightarrow>
    (if j < 8 then bit (low w ! i) j else j < 16 \<and> bit (high w ! i) (j - 8))"
  by (auto simp: lane_stops_def bit_simps not_less dest: bit_imp_le_length)

lemma group_lane:
  assumes g: "length g = 16" and B: "\<And>j. j < 16 \<Longrightarrow> g ! j = B (b + j)" and i: "i < 16"
  shows "bit (lane_stops (groupWalks a g) i) j \<longleftrightarrow> j < 16 \<and> b + j \<in> orbit B (b + i)"
    and "16 \<le> unat (exits (groupWalks a g) ! i)" "unat (exits (groupWalks a g) ! i) \<le> 48"
    and "b + unat (exits (groupWalks a g) ! i) \<in> orbit B (b + i)"
    and "q \<in> orbit B (b + i) \<Longrightarrow> q < b + unat (exits (groupWalks a g) ! i) \<Longrightarrow> q < b + 16"
proof -
  let ?F = "group_next g" and ?w = "groupWalks a g"
  have holds: "lane_holds g 4 i ?w" using groupWalks_hold [OF g] i by (simp add: walks_hold_def)
  have e: "unat (exits ?w ! i) = (?F ^^ 16) i" using holds by (simp add: lane_holds_def)
  have ex: "(\<exists>k<n. (?F ^^ k) i = m) \<longleftrightarrow> b + m \<in> orbit B (b + i)" if "m < 16" "m < n" for m n
  proof -
    have "k < n" if "(?F ^^ k) i = m" for k
      using group_walk_progress [of i k g] that \<open>m < 16\<close> \<open>m < n\<close> by simp
    then show ?thesis using group_walk_orbit [of g B b m i, OF B that(1)] by blast
  qed
  have lw: "bit (low ?w ! i) j = (b + j \<in> orbit B (b + i))" if "j < 8" for j
    using holds ex [of j 8] that by (simp add: lane_holds_def)
  have hg: "bit (high ?w ! i) j = (b + (j + 8) \<in> orbit B (b + i))" if "j < 8" for j
    using holds ex [of "j + 8" 16] that by (simp add: lane_holds_def)
  show "bit (lane_stops ?w i) j \<longleftrightarrow> j < 16 \<and> b + j \<in> orbit B (b + i)"
    unfolding bit_lane_stops using lw [of j] hg [of "j - 8"] by auto
  show "16 \<le> unat (exits ?w ! i)" using group_walk_progress [of i 16 g] by (simp add: e)
  show "unat (exits ?w ! i) \<le> 48" using i by (simp add: e group_walk_le)
  obtain l where l: "b + (?F ^^ 16) i = (instr_next B ^^ l) (b + i)"
    "\<forall>m<l. (instr_next B ^^ m) (b + i) < b + 16"
    using group_walk_instr [of g B b 16 i, OF B] by blast
  show "b + unat (exits ?w ! i) \<in> orbit B (b + i)" using l(1) by (auto simp: e orbit_def)
  assume q: "q \<in> orbit B (b + i)" "q < b + unat (exits ?w ! i)"
  then obtain n where n: "q = (instr_next B ^^ n) (b + i)" by (auto simp: orbit_def)
  have "n < l"
  proof (rule ccontr)
    assume "\<not> n < l"
    then have "q = (instr_next B ^^ (n - l)) (b + (?F ^^ 16) i)" by (simp add: n l(1) funpow_comp)
    then have "b + (?F ^^ 16) i \<le> q" using funpow_instr_next_ge [of "b + (?F ^^ 16) i" "n - l" B] by simp
    with q(2) e show False by simp
  qed
  with l(2) n show "q < b + 16" by blast
qed

section \<open>A block\<close>

lemma nth_concat_map: "(\<And>x. x < n \<Longrightarrow> length (f x) = k) \<Longrightarrow> i < n * k \<Longrightarrow>
    concat (map f [0..<n]) ! i = f (i div k) ! (i mod k)"
proof (induction n)
  case (Suc n)
  have len: "length (concat (map f [0..<m])) = m * k" if "m \<le> n" for m
    using that by (induction m) (simp_all add: Suc.prems(1))
  show ?case
  proof (cases "i < n * k")
    case True
    with Suc len [of n] show ?thesis by (simp add: nth_append)
  next
    case False
    then have "i = n * k + (i - n * k)" "i - n * k < k" using Suc.prems(2) by simp_all
    then have "i div k = n" "i mod k = i - n * k"
      by (metis div_mult_self3 add.right_neutral div_less mult.commute gr_implies_not0 add.commute,
          metis mod_less mod_mult_self3)
    with False len [of n] show ?thesis by (simp add: nth_append)
  qed
qed simp

lemma group_start: "\<forall>i\<in>set [0..<64]. (i :: nat) AND 48 = 16 * (i div 16)"
  by code_simp

lemma block_lane:
  fixes a :: arch
  assumes c: "length chunk = 64" and i: "i < 64"
  defines "w \<equiv> groupWalks a (take 16 (drop (i div 16 * 16) chunk))"
  shows "low (blockWalks a chunk) ! i = low w ! (i mod 16)"
    and "high (blockWalks a chunk) ! i = high w ! (i mod 16)"
    and "exits (blockWalks a chunk) ! i = exits w ! (i mod 16) + word_of_nat (i div 16 * 16)"
proof -
  let ?G = "\<lambda>g. groupWalks a (take 16 (drop (g * 16) chunk))"
  have len: "length (low (?G g)) = 16" "length (high (?G g)) = 16" "length (exits (?G g)) = 16" if "g < 4" for g
    using groupWalks_hold [of "take 16 (drop (g * 16) chunk)" a] that c by (simp_all add: walks_hold_def)
  have i': "i < 4 * 16" and g: "i div 16 < 4" using i by simp_all
  note at = nth_concat_map [OF _ i']
  have gs: "map low (map ?G [0..<4]) = map (\<lambda>g. low (?G g)) [0..<4]"
      "map high (map ?G [0..<4]) = map (\<lambda>g. high (?G g)) [0..<4]"
    by simp_all
  show "low (blockWalks a chunk) ! i = low w ! (i mod 16)"
    using at [of "\<lambda>g. low (?G g)"] len by (simp add: blockWalks_def Let_def w_def gs del: map_map)
  show "high (blockWalks a chunk) ! i = high w ! (i mod 16)"
    using at [of "\<lambda>g. high (?G g)"] len by (simp add: blockWalks_def Let_def w_def gs del: map_map)
  have "exits (blockWalks a chunk) ! i =
      map (\<lambda>x. x + word_of_nat (i div 16 * 16)) (exits (map ?G [0..<4] ! (i div 16))) ! (i mod 16)"
    using at [of "\<lambda>g. map (\<lambda>x. x + word_of_nat (g * 16)) (exits (map ?G [0..<4] ! g))"] len
    by (simp add: blockWalks_def Let_def del: upt.simps upt_rec_numeral)
  then show "exits (blockWalks a chunk) ! i = exits w ! (i mod 16) + word_of_nat (i div 16 * 16)"
    using g len [OF g] by (simp add: w_def)
qed

text \<open>The walk through the block: what is marked is what lies behind the position.\<close>

definition follow_inv :: "(nat \<Rightarrow> u8) \<Rightarrow> nat \<Rightarrow> nat \<Rightarrow> nat \<Rightarrow> nat \<times> u64 \<Rightarrow> bool" where
  "follow_inv B b e k st = (case st of (at, ops) \<Rightarrow>
     (16 * k \<le> at \<or> 64 \<le> at) \<and> b + at \<in> orbit B (b + e) \<and>
     (\<forall>j. bit ops j \<longleftrightarrow> j < 64 \<and> j < at \<and> b + j \<in> orbit B (b + e)) \<and>
     (\<forall>q\<in>orbit B (b + e). q < b + at \<longrightarrow> q < b + 64))"

lemma follow_step:
  assumes c: "length chunk = 64" and B: "\<And>j. j < 64 \<Longrightarrow> chunk ! j = B (b + j)"
    and inv: "follow_inv B b e k st"
  shows "follow_inv B b e (Suc k) (follow (blockWalks a chunk) st)"
proof -
  obtain at ops where st: "st = (at, ops)" by (cases st)
  show ?thesis
  proof (cases "at < 64")
    case False
    with inv show ?thesis by (simp add: st follow_def follow_inv_def Let_def)
  next
    case True
    define s where "s = 16 * (at div 16)"
    define g where "g = take 16 (drop (at div 16 * 16) chunk)"
    define w where "w = groupWalks a g"
    have at: "b + s + at mod 16 = b + at" "s \<le> at" "s + 16 \<le> 64" "at < s + 16"
      using True by (simp_all add: s_def)
    have "at div 16 * 16 + 16 \<le> 64" using at(3) by (simp add: s_def)
    then have g: "length g = 16" using c by (simp add: g_def min_absorb2)
    have gB: "g ! j = B (b + s + j)" if "j < 16" for j
      using that B [of "s + j"] at c by (simp add: g_def s_def mult.commute add.assoc)
    note lane = group_lane [where b = "b + s" and i = "at mod 16" and a = a, OF g gB, simplified, folded w_def, unfolded at(1)]
    note blk = block_lane [OF c True, of a, folded g_def w_def]
    define at' where "at' = s + unat (exits w ! (at mod 16))"
    have x: "unat (exits (blockWalks a chunk) ! at) = at'"
    proof -
      have u: "unat (word_of_nat (at div 16 * 16) :: u8) = s"
        using at by (simp add: s_def unat_of_nat mult.commute del: of_nat_mult)
      have "unat (exits w ! (at mod 16) + word_of_nat (at div 16 * 16)) = unat (exits w ! (at mod 16)) + s"
        using lane(3) at u by (subst unat_add_lem [THEN iffD1]) (simp_all only: u, simp_all)
      then show ?thesis by (simp only: blk at'_def add.commute)
    qed
    have new: "follow (blockWalks a chunk) st = (at', ops OR push_bit s (lane_stops w (at mod 16)))"
      using True bspec [OF group_start, of at] x
      by (simp add: st follow_def Let_def blk lane_stops_def s_def)
    have into: "b + at \<in> orbit B (b + e)" and old: "\<And>j. bit ops j \<longleftrightarrow> j < 64 \<and> j < at \<and> b + j \<in> orbit B (b + e)"
      and gap: "\<And>q. q \<in> orbit B (b + e) \<Longrightarrow> q < b + at \<Longrightarrow> q < b + 64" and prog: "16 * k \<le> at \<or> 64 \<le> at"
      using inv by (auto simp: follow_inv_def st)
    have far: "s + 16 \<le> at'" using lane(2) by (simp add: at'_def)
    have stop: "bit (push_bit s (lane_stops w (at mod 16))) j \<longleftrightarrow>
        s \<le> j \<and> j < s + 16 \<and> b + j \<in> orbit B (b + at)" for j
      using lane(1) [of "j - s"] at(3) by (auto simp: bit_push_bit_iff)
    have near: "q < b + s + 16" if "q \<in> orbit B (b + at)" "q < b + at'" for q
      using lane(5) that by (simp add: at'_def add.assoc)
    have split: "q < b + at \<or> q \<in> orbit B (b + at)" if "q \<in> orbit B (b + e)" for q
      using orbit_from [OF into that] by (cases "b + at \<le> q") auto
    have "bit (ops OR push_bit s (lane_stops w (at mod 16))) j \<longleftrightarrow> j < 64 \<and> j < at' \<and> b + j \<in> orbit B (b + e)" for j
      unfolding bit_or_iff old stop
      using split [of "b + j"] near [of "b + j"] orbit_trans [OF into] orbit_ge [of "b + j" B "b + at"] far at(2-4)
      by auto
    moreover have "b + at' \<in> orbit B (b + e)"
      using orbit_trans [OF into lane(4)] by (simp add: at'_def add.assoc)
    moreover have "q < b + 64" if "q \<in> orbit B (b + e)" "q < b + at'" for q
      using split [OF that(1)] gap [OF that(1)] near [of q] that(2) at(3) by auto
    moreover have "k \<le> at div 16" using prog True by linarith
    then have "16 * Suc k \<le> at'" using far by (simp add: s_def)
    ultimately show ?thesis by (auto simp: new follow_inv_def)
  qed
qed

lemma bit_jumpdest_lanes: "length chunk = 64 \<Longrightarrow>
    bit (jumpdest_lanes chunk) j \<longleftrightarrow> j < 64 \<and> chunk ! j = JUMPDEST"
  by (auto simp: jumpdest_lanes_def bit_horner_sum_bit_word_iff)

lemma markBlock_spec:
  assumes c: "length chunk = 64" and B: "\<And>j. j < 64 \<Longrightarrow> chunk ! j = B (b + j)"
  obtains mask carry where "markBlock a chunk e = Done (mask, carry)"
    and "\<And>j. bit mask j \<longleftrightarrow> j < 64 \<and> chunk ! j = JUMPDEST \<and> j < 64 + carry \<and> b + j \<in> orbit B (b + e)"
    and "b + 64 + carry \<in> orbit B (b + e)"
    and "\<And>q. q \<in> orbit B (b + e) \<Longrightarrow> q < b + 64 + carry \<Longrightarrow> q < b + 64"
proof -
  have "follow_inv B b e k ((follow (blockWalks a chunk) ^^ k) (e, 0))" for k
  proof (induction k)
    case 0
    show ?case by (auto simp: follow_inv_def dest: orbit_ge)
  next
    case (Suc k)
    then show ?case using follow_step [OF c, of B b e k, OF B] by simp
  qed
  then have "follow_inv B b e 4 ((follow (blockWalks a chunk) ^^ 4) (e, 0))" .
  moreover obtain at ops where st: "(follow (blockWalks a chunk) ^^ 4) (e, 0) = (at, ops)" by fastforce
  ultimately have inv: "64 \<le> at" "b + at \<in> orbit B (b + e)"
    "\<And>j. bit ops j \<longleftrightarrow> j < 64 \<and> j < at \<and> b + j \<in> orbit B (b + e)"
    "\<And>q. q \<in> orbit B (b + e) \<Longrightarrow> q < b + at \<Longrightarrow> q < b + 64"
    by (auto simp: follow_inv_def)
  show ?thesis
  proof (rule that)
    show "markBlock a chunk e = Done (jumpdest_lanes chunk AND ops, at - 64)"
      using inv(1) by (simp add: markBlock_def st)
    show "bit (jumpdest_lanes chunk AND ops) j \<longleftrightarrow>
        j < 64 \<and> chunk ! j = JUMPDEST \<and> j < 64 + (at - 64) \<and> b + j \<in> orbit B (b + e)" for j
      using inv(1) by (auto simp: bit_and_iff inv(3) bit_jumpdest_lanes [OF c])
  qed (use inv in auto)
qed

section \<open>The code\<close>

text \<open>The byte at a position of the code; past its end every byte is a STOP.\<close>

definition code_at :: "bytes \<Rightarrow> nat \<Rightarrow> u8" where
  "code_at bs p = (if p < length bs then bs ! p else 0)"

lemma instr_start_orbit: "instr_start bs t \<Longrightarrow> t \<in> orbit (code_at bs) 0"
proof (induction rule: instr_start.induct)
  case (next_instr p)
  then have "instr_next (code_at bs) p \<in> orbit (code_at bs) 0" by (intro orbit_next)
  with next_instr.hyps show ?case by (simp add: instr_next_def [of "code_at bs" p] code_at_def [of bs p])
qed simp

lemma orbit_instr_start:
  assumes "t \<in> orbit (code_at bs) 0" and "t < length bs"
  shows "instr_start bs t"
proof -
  let ?N = "instr_next (code_at bs)"
  have "(?N ^^ k) 0 < length bs \<Longrightarrow> instr_start bs ((?N ^^ k) 0)" for k
  proof (induction k)
    case (Suc k)
    let ?x = "(?N ^^ k) 0"
    have x: "?x < length bs" using Suc.prems instr_next_gt [of ?x "code_at bs"] by simp
    from instr_start.next_instr [OF Suc.IH [OF x] x] show ?case
      using x by (simp add: instr_next_def [of "code_at bs" ?x] code_at_def [of bs ?x])
  qed (simp add: instr_start.entry)
  with assms show ?thesis by (auto simp: orbit_def)
qed

text \<open>The mask words that mark exactly the jump destinations.\<close>

definition marks :: "bytes \<Rightarrow> nat \<Rightarrow> bool" where
  "marks bs t \<longleftrightarrow> t < length bs \<and> bs ! t = JUMPDEST \<and> instr_start bs t"

lemma marks_orbit: "marks bs t \<longleftrightarrow> code_at bs t = JUMPDEST \<and> t \<in> orbit (code_at bs) 0"
proof -
  have "(0 :: u8) \<noteq> JUMPDEST" by (simp add: JUMPDEST_def)
  then show ?thesis
    using instr_start_orbit [of bs t] orbit_instr_start [of t bs]
    by (auto simp: marks_def code_at_def split: if_splits)
qed

lemma mask_bit_mark_bit: "i < 64 * length ms \<Longrightarrow> t < 64 * length ms \<Longrightarrow>
    mask_bit (mark_bit ms i) t \<longleftrightarrow> mask_bit ms t \<or> t = i"
proof -
  assume i: "i < 64 * length ms" and t: "t < 64 * length ms"
  have "i div 64 < length ms" using i by simp
  moreover have "t = i \<longleftrightarrow> t div 64 = i div 64 \<and> t mod 64 = i mod 64"
    by (metis mult_div_mod_eq)
  ultimately show ?thesis
    by (auto simp: mask_bit_def mark_bit_def nth_list_update bit_or_iff bit_exp_iff possible_bit_def)
qed

lemma length_mark_bit [simp]: "length (mark_bit ms i) = length ms"
  by (simp add: mark_bit_def)

lemma mask_bits_eq:
  assumes len: "length ms = length ms'" and eq: "\<And>t. t < 64 * length ms \<Longrightarrow> mask_bit ms t = mask_bit ms' t"
  shows "ms = ms'"
proof (rule nth_equalityI [OF len])
  fix q assume q: "q < length ms"
  show "ms ! q = ms' ! q"
  proof (rule bit_eqI)
    fix n assume "possible_bit TYPE(u64) n"
    then have n: "n < 64" by simp
    then have "64 * q + n < 64 * length ms" "(64 * q + n) div 64 = q" "(64 * q + n) mod 64 = n"
      using q by simp_all
    with eq [of "64 * q + n"] show "bit (ms ! q) n = bit (ms' ! q) n" by (simp add: mask_bit_def)
  qed
qed

lemma mask_bit_zero: "t < 64 * n \<Longrightarrow> \<not> mask_bit (replicate n 0) t"
  by (simp add: mask_bit_def)

lemma markWordsFrom_marks:
  "length bs \<le> 64 * length ms \<Longrightarrow>
   \<exists>ms'. (markWordsFrom ms bs pc :: ('e, u64 list) outcome) = Done ms' \<and> length ms' = length ms \<and>
     (\<forall>t<64 * length ms. mask_bit ms' t \<longleftrightarrow>
        mask_bit ms t \<or> t < length bs \<and> bs ! t = JUMPDEST \<and> t \<in> orbit (code_at bs) pc)"
proof (induction ms bs pc rule: markWordsFrom.induct)
  case (1 ms bs pc)
  show ?case
  proof (cases "pc < length bs")
    case False
    then show ?thesis by (subst markWordsFrom.simps) (auto dest: orbit_ge)
  next
    case True
    let ?n = "pc + unat (instr_lengths ! unat (bs ! pc))"
    have n: "instr_next (code_at bs) pc = ?n"
      using True by (simp add: instr_next_def code_at_def [of bs pc] instr_lengths_nth)
    have orb: "t \<in> orbit (code_at bs) pc \<longleftrightarrow> t = pc \<or> t \<in> orbit (code_at bs) ?n" for t
      by (subst orbit_unfold) (simp add: n)
    have room: "pc div 64 < length ms" "pc < 64 * length ms" using True 1(3) by simp_all
    show ?thesis
    proof (cases "bs ! pc = JUMPDEST")
      case False
      from 1(2) [OF True refl refl False 1(3)] show ?thesis
        using False by (subst markWordsFrom.simps) (auto simp: True orb Let_def)
    next
      case jd: True
      have "length bs \<le> 64 * length (mark_bit ms pc)" using 1(3) by simp
      from 1(1) [OF True refl refl jd this] obtain ms' where
        "(markWordsFrom (mark_bit ms pc) bs ?n :: ('e, u64 list) outcome) = Done ms'"
        "length ms' = length ms"
        "\<forall>t<64 * length ms. mask_bit ms' t \<longleftrightarrow>
          mask_bit (mark_bit ms pc) t \<or> t < length bs \<and> bs ! t = JUMPDEST \<and> t \<in> orbit (code_at bs) ?n"
        by auto
      then show ?thesis using jd True room
        by (subst markWordsFrom.simps) (auto simp: orb Let_def mask_bit_mark_bit)
    qed
  qed
qed

lemma markJumpDestWords_marks:
  assumes "length bs \<le> 64 * n"
  obtains ms where "(markJumpDestWords (replicate n 0) bs :: ('e, u64 list) outcome) = Done ms"
    "length ms = n" "\<And>t. t < 64 * n \<Longrightarrow> mask_bit ms t \<longleftrightarrow> marks bs t"
proof -
  have "\<exists>ms'. (markWordsFrom (replicate n 0) bs 0 :: ('e, u64 list) outcome) = Done ms' \<and> length ms' = n \<and>
     (\<forall>t<64 * n. mask_bit ms' t \<longleftrightarrow>
        mask_bit (replicate n 0) t \<or> t < length bs \<and> bs ! t = JUMPDEST \<and> t \<in> orbit (code_at bs) 0)"
    using markWordsFrom_marks [of bs "replicate n 0" 0] assms by simp
  then obtain ms' where ms': "(markWordsFrom (replicate n 0) bs 0 :: ('e, u64 list) outcome) = Done ms'"
    "length ms' = n" "\<And>t. t < 64 * n \<Longrightarrow> mask_bit ms' t \<longleftrightarrow>
        mask_bit (replicate n 0) t \<or> t < length bs \<and> bs ! t = JUMPDEST \<and> t \<in> orbit (code_at bs) 0" by blast
  show ?thesis
  proof (rule that [of ms'])
    show "mask_bit ms' t \<longleftrightarrow> marks bs t" if "t < 64 * n" for t
      using ms'(3) [OF that] mask_bit_zero [OF that] instr_start_orbit [of bs t] orbit_instr_start [of t bs]
      by (auto simp: marks_def)
  qed (use ms' in \<open>simp_all add: markJumpDestWords_def\<close>)
qed

text \<open>The blocks already scanned, with the position the next one is entered at.\<close>

definition blocks_done :: "bytes \<Rightarrow> nat \<Rightarrow> nat \<Rightarrow> nat \<Rightarrow> u64 list \<Rightarrow> bool" where
  "blocks_done bs n index carry ms \<longleftrightarrow> length ms = n \<and>
     64 * index + carry \<in> orbit (code_at bs) 0 \<and>
     (\<forall>q\<in>orbit (code_at bs) 0. q < 64 * index + carry \<longrightarrow> q < 64 * index) \<and>
     (\<forall>t<64 * n. mask_bit ms t \<longleftrightarrow> t < 64 * index \<and> marks bs t)"

lemma block_done:
  assumes inv: "blocks_done bs n index carry ms" and c: "length chunk = 64" and room: "index < n"
    and B: "\<And>j. j < 64 \<Longrightarrow> chunk ! j = code_at bs (64 * index + j)"
  obtains mask carry' where "(markBlock a chunk carry :: ('e, u64 \<times> nat) outcome) = Done (mask, carry')"
    "blocks_done bs n (Suc index) carry' (ms[index := mask])"
proof -
  let ?O = "orbit (code_at bs)" and ?b = "64 * index"
  have into: "?b + carry \<in> ?O 0" and gap: "\<And>q. q \<in> ?O 0 \<Longrightarrow> q < ?b + carry \<Longrightarrow> q < ?b"
    and old: "\<And>t. t < 64 * n \<Longrightarrow> mask_bit ms t \<longleftrightarrow> t < ?b \<and> marks bs t" and len: "length ms = n"
    using inv by (auto simp: blocks_done_def)
  obtain mask carry' where m: "(markBlock a chunk carry :: ('e, u64 \<times> nat) outcome) = Done (mask, carry')"
    and bit: "\<And>j. bit mask j \<longleftrightarrow> j < 64 \<and> chunk ! j = JUMPDEST \<and> j < 64 + carry' \<and> ?b + j \<in> ?O (?b + carry)"
    and out: "?b + 64 + carry' \<in> ?O (?b + carry)"
    and out_gap: "\<And>q. q \<in> ?O (?b + carry) \<Longrightarrow> q < ?b + 64 + carry' \<Longrightarrow> q < ?b + 64"
    by (rule markBlock_spec [OF c, of "code_at bs" ?b a carry, OF B]) blast+
  have from_entry: "q \<in> ?O (?b + carry) \<longleftrightarrow> q \<in> ?O 0" if "?b \<le> q" for q
    using orbit_trans [OF into] orbit_from [OF into] gap [of q] that by (meson leD leI)
  have bits: "bit mask j \<longleftrightarrow> marks bs (?b + j)" if "j < 64" for j
    using that by (auto simp: bit marks_orbit from_entry B)
  show ?thesis
  proof (rule that [OF m])
    have "mask_bit (ms[index := mask]) t \<longleftrightarrow> t < 64 * Suc index \<and> marks bs t" if t: "t < 64 * n" for t
    proof (cases "t div 64 = index")
      case True
      then have "?b + t mod 64 = t" "t < 64 * Suc index" by auto
      with bits [of "t mod 64"] True room len show ?thesis by (simp add: mask_bit_def)
    next
      case False
      then have "mask_bit (ms[index := mask]) t = mask_bit ms t" by (simp add: mask_bit_def)
      moreover have "t < 64 * Suc index \<longleftrightarrow> t < ?b" using False by auto
      ultimately show ?thesis using old [OF t] by simp
    qed
    moreover have "64 * Suc index + carry' \<in> ?O 0" using orbit_trans [OF into out] by (simp add: add.commute)
    moreover have "q < 64 * Suc index" if "q \<in> ?O 0" "q < 64 * Suc index + carry'" for q
    proof (cases "?b \<le> q")
      case True
      with out_gap [of q] that from_entry [OF True] show ?thesis by simp
    qed simp
    ultimately show "blocks_done bs n (Suc index) carry' (ms[index := mask])"
      using len by (auto simp: blocks_done_def)
  qed
qed

lemma markFull_done:
  "blocks_done bs m index carry ms \<Longrightarrow> 64 * (index + n) \<le> length bs \<Longrightarrow> index + n \<le> m \<Longrightarrow>
   \<exists>ms' carry'. (markFull a bs index n carry ms :: ('e, u64 list \<times> nat) outcome) = Done (ms', carry') \<and>
     blocks_done bs m (index + n) carry' ms'"
proof (induction n arbitrary: index carry ms)
  case (Suc n)
  let ?chunk = "take 64 (drop (index * 64) bs)"
  have c: "length ?chunk = 64" and room: "index < m" using Suc.prems by simp_all
  have B: "?chunk ! j = code_at bs (64 * index + j)" if "j < 64" for j
    using that Suc.prems(2) by (simp add: code_at_def mult.commute)
  obtain mask carry' where m: "(markBlock a ?chunk carry :: ('e, u64 \<times> nat) outcome) = Done (mask, carry')"
    and d: "blocks_done bs m (Suc index) carry' (ms[index := mask])"
    using block_done [OF Suc.prems(1) c room B] by blast
  from Suc.IH [OF d] Suc.prems show ?case by (simp add: m)
qed simp

lemma markJumpDestBlocks_marks:
  assumes n: "length bs \<le> 64 * n"
  obtains ms where "(markJumpDestBlocks a (replicate n 0) bs :: ('e, u64 list) outcome) = Done ms"
    "length ms = n" "\<And>t. t < 64 * n \<Longrightarrow> mask_bit ms t \<longleftrightarrow> marks bs t"
proof -
  note result = that
  let ?full = "length bs div 64"
  have room: "?full \<le> n" using n by simp
  have zero: "blocks_done bs n 0 0 (replicate n 0)"
    by (simp add: blocks_done_def mask_bit_zero)
  obtain ms carry where ms: "(markFull a bs 0 ?full 0 (replicate n 0) :: ('e, u64 list \<times> nat) outcome) = Done (ms, carry)"
    and d: "blocks_done bs n ?full carry ms"
    using markFull_done [OF zero, of ?full a] room by auto
  have len: "length ms = n" using d by (simp add: blocks_done_def)
  have covers: thesis if full: "blocks_done bs n k c' ms'" and k: "length bs \<le> 64 * k"
    and r: "(markJumpDestBlocks a (replicate n 0) bs :: ('e, u64 list) outcome) = Done ms'" for k c' ms'
  proof (rule result [OF r])
    show "length ms' = n" using full by (simp add: blocks_done_def)
    show "mask_bit ms' t \<longleftrightarrow> marks bs t" if "t < 64 * n" for t
      using full that k by (auto simp: blocks_done_def marks_def)
  qed
  show ?thesis
  proof (cases "length bs mod 64 = 0")
    case True
    then have "length bs \<le> 64 * ?full" by auto
    moreover have "(markJumpDestBlocks a (replicate n 0) bs :: ('e, u64 list) outcome) = Done ms"
      using True room by (simp add: markJumpDestBlocks_def ms)
    ultimately show ?thesis using covers [OF d] by blast
  next
    case False
    let ?tail = "drop (?full * 64) bs @ replicate (64 - length bs mod 64) 0"
    have "64 * ?full + length bs mod 64 = length bs" by simp
    then have room': "?full < n" using n False by linarith
    have lenb: "length bs - ?full * 64 = length bs mod 64" by (rule minus_div_mult_eq_mod)
    have c: "length ?tail = 64" by (simp add: lenb)
    have B: "?tail ! j = code_at bs (64 * ?full + j)" if "j < 64" for j
    proof (cases "j < length bs mod 64")
      case True
      then have "64 * ?full + j < length bs" "j < length bs - 64 * ?full" using lenb by linarith+
      with True show ?thesis by (simp add: nth_append code_at_def mult.commute)
    next
      case nj: False
      then have "\<not> 64 * ?full + j < length bs" using lenb by linarith
      moreover have "\<not> j < length bs - 64 * ?full" using nj lenb by linarith
      ultimately show ?thesis using nj that lenb by (simp add: nth_append code_at_def mult.commute)
    qed
    obtain mask carry' where m: "(markBlock a ?tail carry :: ('e, u64 \<times> nat) outcome) = Done (mask, carry')"
      and d': "blocks_done bs n (Suc ?full) carry' (ms[?full := mask])"
      using block_done [OF d c room' B] by blast
    have "(markJumpDestBlocks a (replicate n 0) bs :: ('e, u64 list) outcome) = Done (ms[?full := mask])"
      using False room room' by (simp add: markJumpDestBlocks_def ms m len)
    moreover have "length bs \<le> 64 * Suc ?full" by simp
    ultimately show ?thesis using covers [OF d'] by blast
  qed
qed

lemma markLinearFrom_marks:
  "length bs \<le> bit_length m \<Longrightarrow> bit_length m \<le> 64 * length (masks m) \<Longrightarrow>
   \<exists>ms'. (markLinearFrom m bs pc :: ('e, bit_set) outcome) = Done (m\<lparr>masks := ms'\<rparr>) \<and> length ms' = length (masks m) \<and>
     (\<forall>t<64 * length (masks m). mask_bit ms' t \<longleftrightarrow>
        mask_bit (masks m) t \<or> t < length bs \<and> bs ! t = JUMPDEST \<and> t \<in> orbit (code_at bs) pc)"
proof (induction m bs pc rule: markLinearFrom.induct)
  case (1 m bs pc)
  show ?case
  proof (cases "pc < length bs")
    case False
    then show ?thesis
      by (subst markLinearFrom.simps) (auto dest: orbit_ge intro!: exI [of _ "masks m"])
  next
    case True
    let ?next = "pc + 1 + unat (pushImmediateLen (bs ! pc))"
    let ?n = "min (length bs) ?next"
    have n: "instr_next (code_at bs) pc = ?next"
      using True by (simp add: instr_next_def code_at_def [of bs pc])
    have orb: "t \<in> orbit (code_at bs) pc \<longleftrightarrow> t = pc \<or> t \<in> orbit (code_at bs) ?n" if "t < length bs" for t
      using that orbit_ge [of t "code_at bs" ?n] orbit_ge [of t "code_at bs" ?next]
      by (subst orbit_unfold) (auto simp: n min_def)
    let ?m = "if bs ! pc = JUMPDEST then m\<lparr>masks := mark_bit (masks m) pc\<rparr> else m"
    have m: "(if bs ! pc = JUMPDEST then bits_set m pc else Done m) = (Done ?m :: ('e, bit_set) outcome)"
      using True 1(2) by (simp add: bits_set_def)
    have "length bs \<le> bit_length ?m" "bit_length ?m \<le> 64 * length (masks ?m)" using 1(2,3) by auto
    from 1(1) [OF True this] obtain ms' where ms':
      "(markLinearFrom ?m bs ?n :: ('e, bit_set) outcome) = Done (?m\<lparr>masks := ms'\<rparr>)"
      "length ms' = length (masks ?m)"
      "\<And>t. t < 64 * length (masks ?m) \<Longrightarrow> mask_bit ms' t \<longleftrightarrow>
        mask_bit (masks ?m) t \<or> t < length bs \<and> bs ! t = JUMPDEST \<and> t \<in> orbit (code_at bs) ?n"
      by auto
    have pc: "pc < 64 * length (masks m)" using True 1(2,3) by simp
    have bits: "mask_bit ms' t \<longleftrightarrow>
        mask_bit (masks m) t \<or> t < length bs \<and> bs ! t = JUMPDEST \<and> t \<in> orbit (code_at bs) pc"
      if "t < 64 * length (masks m)" for t
      using ms'(3) [of t] that pc True orb [of t] by (auto simp: mask_bit_mark_bit)
    have run: "(markLinearFrom m bs pc :: ('e, bit_set) outcome) = markLinearFrom ?m bs ?n"
      by (subst markLinearFrom.simps) (simp only: True m zbind.simps if_True)
    show ?thesis
      using ms'(1,2) bits by (intro exI [of _ ms']) (auto simp: run split: if_splits)
  qed
qed

lemma initEmpty_covers: "(n :: nat) \<le> 64 * ((n + 63) div 64)"
  using div_mult_mod_eq [of "n + 63" 64] mod_less_divisor [of 64 "n + 63"] by linarith

lemma markLinear_initEmpty:
  obtains ms where "(markLinear (bits_initEmpty (length bs)) bs :: ('e, bit_set) outcome) =
      Done \<lparr>bit_length = length bs, masks = ms\<rparr>" "length ms = (length bs + 63) div 64"
    "\<And>t. t < 64 * ((length bs + 63) div 64) \<Longrightarrow> mask_bit ms t \<longleftrightarrow> marks bs t"
proof -
  let ?m = "bits_initEmpty (length bs)"
  have m: "length bs \<le> bit_length ?m" "bit_length ?m \<le> 64 * length (masks ?m)"
    using initEmpty_covers by (simp_all add: bits_initEmpty_def)
  obtain ms where ms: "(markLinearFrom ?m bs 0 :: ('e, bit_set) outcome) = Done (?m\<lparr>masks := ms\<rparr>)"
    "length ms = length (masks ?m)"
    "\<And>t. t < 64 * length (masks ?m) \<Longrightarrow> mask_bit ms t \<longleftrightarrow>
        mask_bit (masks ?m) t \<or> t < length bs \<and> bs ! t = JUMPDEST \<and> t \<in> orbit (code_at bs) 0"
    using markLinearFrom_marks [OF m, of 0] by blast
  show ?thesis
  proof (rule that [of ms])
    show "mask_bit ms t \<longleftrightarrow> marks bs t" if "t < 64 * ((length bs + 63) div 64)" for t
      using ms(3) [of t] that mask_bit_zero [OF that] instr_start_orbit [of bs t] orbit_instr_start [of t bs]
      by (auto simp: marks_def bits_initEmpty_def)
  qed (use ms(1,2) in \<open>simp_all add: markLinear_def bits_initEmpty_def\<close>)
qed

lemma markJumpDests_initEmpty:
  obtains ms where "(markJumpDests conf (bits_initEmpty (length bs)) bs :: ('e, bit_set) outcome) =
      Done \<lparr>bit_length = length bs, masks = ms\<rparr>" "length ms = (length bs + 63) div 64"
    "\<And>t. t < 64 * ((length bs + 63) div 64) \<Longrightarrow> mask_bit ms t \<longleftrightarrow> marks bs t"
proof -
  let ?n = "(length bs + 63) div 64"
  have "\<exists>ms. (case conf of Some a \<Rightarrow> markJumpDestBlocks a (replicate ?n 0) bs
      | None \<Rightarrow> markJumpDestWords (replicate ?n 0) bs) = (Done ms :: ('e, u64 list) outcome) \<and>
    length ms = ?n \<and> (\<forall>t. t < 64 * ?n \<longrightarrow> mask_bit ms t = marks bs t)"
  proof (cases conf)
    case None
    obtain ms where "(markJumpDestWords (replicate ?n 0) bs :: ('e, u64 list) outcome) = Done ms" "length ms = ?n"
      "\<And>t. t < 64 * ?n \<Longrightarrow> mask_bit ms t = marks bs t"
      by (rule markJumpDestWords_marks [OF initEmpty_covers]) blast
    with None show ?thesis by auto
  next
    case (Some a)
    obtain ms where "(markJumpDestBlocks a (replicate ?n 0) bs :: ('e, u64 list) outcome) = Done ms" "length ms = ?n"
      "\<And>t. t < 64 * ?n \<Longrightarrow> mask_bit ms t = marks bs t"
      by (rule markJumpDestBlocks_marks [OF initEmpty_covers]) blast
    with Some show ?thesis by auto
  qed
  then obtain ms where ms: "(case conf of Some a \<Rightarrow> markJumpDestBlocks a (replicate ?n 0) bs
      | None \<Rightarrow> markJumpDestWords (replicate ?n 0) bs) = (Done ms :: ('e, u64 list) outcome)"
    "length ms = ?n" "\<And>t. t < 64 * ?n \<Longrightarrow> mask_bit ms t = marks bs t" by blast
  show ?thesis
    by (rule that [of ms]) (use ms in \<open>cases conf; simp add: markJumpDests_def bits_initEmpty_def Let_def\<close>)+
qed

end
