(* ===== verification/Zig_Rlp.thy ===== *)
theory Zig_Rlp
  imports Zig_Words
begin

text \<open>
  Canonical RLP: the encoding primitives of \<^verbatim>\<open>src/pkg/rlp/src/encoding.zig\<close> over the two kinds of
  writer of \<^verbatim>\<open>raw.zig\<close>, and the strict cursor, the integer reader and the validation without
  recursion of \<^verbatim>\<open>raw.zig\<close>. A length is a natural number; where the code computes one from bytes it
  is a 64-bit word. What the cursor holds after an error is not modelled: every caller returns.
\<close>

unbundle bit_operations_syntax

section \<open>Writers\<close>

datatype write_error = WriterOutOfMemory | NoSpaceLeft | EncodedLengthOverflow

datatype writer = Allocating bytes | Borrowed bytes nat

definition written :: "writer \<Rightarrow> bytes" where
  "written w = (case w of Allocating out \<Rightarrow> out | Borrowed buffer len \<Rightarrow> take len buffer)"

definition truncate_writer :: "nat \<Rightarrow> writer \<Rightarrow> writer" where
  "truncate_writer n w = (case w of Allocating out \<Rightarrow> Allocating (take n out) | Borrowed buffer len \<Rightarrow> Borrowed buffer n)"

text \<open>
  A step leaves the writer as it is when an error returns, with the error if there is one. The
  allocator is the argument \<open>can_hold\<close>: whether a list may grow to a length.
\<close>

type_synonym write_step = "writer \<Rightarrow> writer \<times> write_error option"

definition wskip :: write_step where
  "wskip w = (w, None)"

definition wthen :: "write_step \<Rightarrow> write_step \<Rightarrow> write_step" where
  "wthen f g w = (case f w of (w', None) \<Rightarrow> g w' | (w', Some e) \<Rightarrow> (w', Some e))"

definition appendByte :: "(nat \<Rightarrow> bool) \<Rightarrow> u8 \<Rightarrow> write_step" where
  "appendByte can_hold b w = (case w of
     Allocating out \<Rightarrow> if can_hold (length out + 1) then (Allocating (out @ [b]), None) else (w, Some WriterOutOfMemory)
   | Borrowed buffer len \<Rightarrow>
       if len = length buffer then (w, Some NoSpaceLeft)
       else (Borrowed (buffer[len := b]) (len + 1), None))"

definition appendSlice :: "(nat \<Rightarrow> bool) \<Rightarrow> bytes \<Rightarrow> write_step" where
  "appendSlice can_hold bs w = (case w of
     Allocating out \<Rightarrow> if can_hold (length out + length bs) then (Allocating (out @ bs), None)
       else (w, Some WriterOutOfMemory)
   | Borrowed buffer len \<Rightarrow>
       if length bs > length buffer - len then (w, Some NoSpaceLeft)
       else (Borrowed (take len buffer @ bs @ drop (len + length bs) buffer) (len + length bs), None))"

definition allOrNothing :: "write_step \<Rightarrow> write_step" where
  "allOrNothing step w = (case step w of
     (w', Some e) \<Rightarrow> (truncate_writer (length (written w)) w', Some e) | r \<Rightarrow> r)"

section \<open>Encoding\<close>

function byte_count_from :: "u64 \<Rightarrow> nat" where
  "byte_count_from remaining = (if remaining \<noteq> 0 then 1 + byte_count_from (drop_bit 8 remaining) else 0)"
  by pat_completeness auto
termination
proof (relation "measure unat")
  fix r :: u64
  assume "r \<noteq> 0"
  then have "0 < unat r" by (simp add: unat_gt_0)
  then show "(drop_bit 8 r, r) \<in> measure unat" by (simp only: in_measure unat_drop_bit) simp
qed simp

declare byte_count_from.simps [simp del]

definition lengthByteCount :: "nat \<Rightarrow> nat option" where
  "lengthByteCount n = (if n \<le> usize_max then Some (byte_count_from (word_of_nat n)) else None)"

text \<open>The loop that fills the array of eight bytes from its end.\<close>

fun fill_length :: "nat \<Rightarrow> nat \<Rightarrow> u64 \<Rightarrow> bytes \<Rightarrow> bytes" where
  "fill_length index 0 remaining encoded = encoded"
| "fill_length index (Suc k) remaining encoded =
     fill_length (index - 1) k (drop_bit 8 remaining) (encoded[index - 1 := ucast remaining])"

definition writeLengthPrefix :: "(nat \<Rightarrow> bool) \<Rightarrow> u8 \<Rightarrow> u8 \<Rightarrow> nat \<Rightarrow> write_step" where
  "writeLengthPrefix can_hold short_base long_base payload_len =
     (if payload_len < 56 then appendByte can_hold (short_base + word_of_nat payload_len)
      else case lengthByteCount payload_len of
        None \<Rightarrow> (\<lambda>w. (w, Some EncodedLengthOverflow))
      | Some len_of_len \<Rightarrow>
          wthen (appendByte can_hold (long_base + word_of_nat len_of_len))
            (appendSlice can_hold
              (drop (8 - len_of_len) (fill_length 8 len_of_len (word_of_nat payload_len) (replicate 8 0)))))"

definition writeBytes :: "(nat \<Rightarrow> bool) \<Rightarrow> bytes \<Rightarrow> write_step" where
  "writeBytes can_hold payload =
     (if length payload = 1 \<and> payload ! 0 < 0x80 then appendByte can_hold (payload ! 0)
      else wthen (writeLengthPrefix can_hold 0x80 0xb7 (length payload)) (appendSlice can_hold payload))"

definition writeListPayload :: "(nat \<Rightarrow> bool) \<Rightarrow> bytes \<Rightarrow> write_step" where
  "writeListPayload can_hold payload =
     wthen (writeLengthPrefix can_hold 0xc0 0xf7 (length payload)) (appendSlice can_hold payload)"

text \<open>Unsigned integers of \<open>w\<close> bits, 1 to 256, held in 256.\<close>

definition significantBytes :: "nat \<Rightarrow> u256 \<Rightarrow> nat" where
  "significantBytes w v = (if v = 0 then 0 else (w - clz w v + 7) div 8)"

definition byteLen :: "nat \<Rightarrow> nat" where
  "byteLen w = (w + 7) div 8"

definition intBytes :: "nat \<Rightarrow> u256 \<Rightarrow> bytes" where
  "intBytes w v = map (\<lambda>i. ucast (drop_bit (8 * (byteLen w - 1 - i)) v)) [0..<byteLen w]"

definition writeInt :: "(nat \<Rightarrow> bool) \<Rightarrow> nat \<Rightarrow> u256 \<Rightarrow> write_step" where
  "writeInt can_hold w v =
     (if v = 0 then writeBytes can_hold []
      else let encoded = intBytes w v; first = length encoded - significantBytes w v
           in writeBytes can_hold (drop first encoded))"

definition writer_bytes :: "(nat \<Rightarrow> bool) \<Rightarrow> bytes \<Rightarrow> write_step" where
  "writer_bytes can_hold payload = allOrNothing (writeBytes can_hold payload)"

definition writer_int :: "(nat \<Rightarrow> bool) \<Rightarrow> nat \<Rightarrow> u256 \<Rightarrow> write_step" where
  "writer_int can_hold w v = allOrNothing (writeInt can_hold w v)"

definition writer_listPayload :: "(nat \<Rightarrow> bool) \<Rightarrow> bytes \<Rightarrow> write_step" where
  "writer_listPayload can_hold payload = allOrNothing (writeListPayload can_hold payload)"

section \<open>The strict cursor\<close>

datatype parse_error = ExpectedBytes | ExpectedList | InputTooShort | IntTooLarge | LengthOverflow
  | NonCanonicalInteger | NonCanonicalLength | NonCanonicalSingleByte | TrailingBytes | UnexpectedLength
  | ValidationDepthExceeded | ValidationItemLimitExceeded

record span =
  span_encoded :: bytes
  span_payload :: bytes

datatype item = BytesItem span | ListItem span

record cursor =
  cur_input :: bytes
  cur_offset :: nat

type_synonym 'a parsed = "(parse_error, 'a) outcome"

definition slice :: "bytes \<Rightarrow> nat \<Rightarrow> nat \<Rightarrow> bytes" where
  "slice bs from stop = take (stop - from) (drop from bs)"

definition checkedEnd :: "nat \<Rightarrow> nat \<Rightarrow> nat \<Rightarrow> nat parsed" where
  "checkedEnd off len limit =
     zassert (off \<le> limit)
     (if len > limit - off
      then (if len > usize_max - off then Fails LengthOverflow else Fails InputTooShort)
      else Done (off + len))"

definition be_word :: "bytes \<Rightarrow> 'w::len word" where
  "be_word bs = foldl (\<lambda>v b. push_bit 8 v OR ucast b) 0 bs"

definition readLongLength :: "bytes \<Rightarrow> nat \<Rightarrow> nat \<Rightarrow> nat parsed" where
  "readLongLength bs off len_of_len =
     zbind (checkedEnd off len_of_len (length bs)) (\<lambda>stop.
     let bv = slice bs off stop in
     zguard (length bv = 0 \<or> bv ! 0 = 0) NonCanonicalLength
     (zguard (length bv > 8) LengthOverflow
     (Done (unat (be_word bv :: u64)))))"

definition next_short :: "(span \<Rightarrow> item) \<Rightarrow> bytes \<Rightarrow> nat \<Rightarrow> nat \<Rightarrow> (item \<times> cursor) parsed" where
  "next_short mk bs start len =
     zbind (checkedEnd (start + 1) len (length bs)) (\<lambda>stop.
       Done (mk \<lparr>span_encoded = slice bs start stop, span_payload = slice bs (start + 1) stop\<rparr>,
             \<lparr>cur_input = bs, cur_offset = stop\<rparr>))"

definition next_long :: "(span \<Rightarrow> item) \<Rightarrow> bytes \<Rightarrow> nat \<Rightarrow> nat \<Rightarrow> (item \<times> cursor) parsed" where
  "next_long mk bs start len_of_len =
     zbind (readLongLength bs (start + 1) len_of_len) (\<lambda>payload_len.
     zguard (payload_len < 56) NonCanonicalLength
     (zbind (checkedEnd (start + 1) len_of_len (length bs)) (\<lambda>off.
      zbind (checkedEnd off payload_len (length bs)) (\<lambda>stop.
        Done (mk \<lparr>span_encoded = slice bs start stop, span_payload = slice bs off stop\<rparr>,
              \<lparr>cur_input = bs, cur_offset = stop\<rparr>)))))"

definition cursor_next :: "cursor \<Rightarrow> (item \<times> cursor) parsed" where
  "cursor_next c =
     (let bs = cur_input c; start = cur_offset c in
      zguard (length bs \<le> start) InputTooShort
      (let prefix = bs ! start in
       if prefix < 0x80 then
         Done (BytesItem \<lparr>span_encoded = slice bs start (start + 1), span_payload = slice bs start (start + 1)\<rparr>,
               \<lparr>cur_input = bs, cur_offset = start + 1\<rparr>)
       else if prefix \<le> 0xb7 then
         let len = unat (prefix - 0x80) in
         zbind (checkedEnd (start + 1) len (length bs)) (\<lambda>stop.
         let payload = slice bs (start + 1) stop in
         zguard (len = 1 \<and> payload ! 0 < 0x80) NonCanonicalSingleByte
         (Done (BytesItem \<lparr>span_encoded = slice bs start stop, span_payload = payload\<rparr>,
                \<lparr>cur_input = bs, cur_offset = stop\<rparr>)))
       else if prefix \<le> 0xbf then next_long BytesItem bs start (unat (prefix - 0xb7))
       else if prefix \<le> 0xf7 then next_short ListItem bs start (unat (prefix - 0xc0))
       else next_long ListItem bs start (unat (prefix - 0xf7))))"

definition cursor_init :: "bytes \<Rightarrow> cursor" where
  "cursor_init bs = \<lparr>cur_input = bs, cur_offset = 0\<rparr>"

definition isDone :: "cursor \<Rightarrow> bool" where
  "isDone c = (cur_offset c = length (cur_input c))"

definition expectDone :: "cursor \<Rightarrow> unit parsed" where
  "expectDone c = zguard (\<not> isDone c) TrailingBytes (Done ())"

definition parseExact :: "bytes \<Rightarrow> item parsed" where
  "parseExact bs =
     zbind (cursor_next (cursor_init bs)) (\<lambda>(v, c). zbind (expectDone c) (\<lambda>_. Done v))"

definition asBytes :: "item \<Rightarrow> bytes parsed" where
  "asBytes it = (case it of BytesItem s \<Rightarrow> Done (span_payload s) | ListItem s \<Rightarrow> Fails ExpectedBytes)"

definition asBytesExact :: "item \<Rightarrow> nat \<Rightarrow> bytes parsed" where
  "asBytesExact it n =
     zbind (asBytes it) (\<lambda>bv. zguard (length bv \<noteq> n) UnexpectedLength (Done bv))"

definition asInt :: "nat \<Rightarrow> item \<Rightarrow> u256 parsed" where
  "asInt w it =
     zbind (asBytes it) (\<lambda>bv.
     if length bv = 0 then Done 0
     else zguard (bv ! 0 = 0) NonCanonicalInteger
       (zguard (length bv > byteLen w) IntTooLarge
         (let v = be_word bv in if unat v < 2 ^ w then Done v else Fails IntTooLarge)))"

definition listCursor :: "item \<Rightarrow> cursor parsed" where
  "listCursor it = (case it of BytesItem s \<Rightarrow> Fails ExpectedList | ListItem s \<Rightarrow> Done (cursor_init (span_payload s)))"

definition is_list :: "item \<Rightarrow> bool" where
  "is_list it = (case it of BytesItem s \<Rightarrow> False | ListItem s \<Rightarrow> True)"

definition cursor_peek :: "cursor \<Rightarrow> item parsed" where
  "cursor_peek c = zbind (cursor_next c) (\<lambda>(it, _). Done it)"

definition nextList :: "cursor \<Rightarrow> (cursor \<times> cursor) parsed" where
  "nextList c = zbind (cursor_next c) (\<lambda>(it, c'). zbind (listCursor it) (\<lambda>v. Done (v, c')))"

definition nextBytes :: "cursor \<Rightarrow> (bytes \<times> cursor) parsed" where
  "nextBytes c = zbind (cursor_next c) (\<lambda>(it, c'). zbind (asBytes it) (\<lambda>v. Done (v, c')))"

definition nextBytesExact :: "nat \<Rightarrow> cursor \<Rightarrow> (bytes \<times> cursor) parsed" where
  "nextBytesExact n c = zbind (cursor_next c) (\<lambda>(it, c'). zbind (asBytesExact it n) (\<lambda>v. Done (v, c')))"

definition nextInt :: "nat \<Rightarrow> cursor \<Rightarrow> (u256 \<times> cursor) parsed" where
  "nextInt w c = zbind (cursor_next c) (\<lambda>(it, c'). zbind (asInt w it) (\<lambda>v. Done (v, c')))"

definition item_encoded :: "item \<Rightarrow> bytes" where
  "item_encoded it = (case it of BytesItem s \<Rightarrow> span_encoded s | ListItem s \<Rightarrow> span_encoded s)"

definition writer_raw :: "(nat \<Rightarrow> bool) \<Rightarrow> item \<Rightarrow> write_step" where
  "writer_raw can_hold it = allOrNothing (appendSlice can_hold (item_encoded it))"

definition listPrefix :: "nat \<Rightarrow> bytes parsed" where
  "listPrefix payload_len =
     (case writeLengthPrefix (\<lambda>_. False) 0xc0 0xf7 payload_len (Borrowed (replicate 9 0) 0) of
        (w, None) \<Rightarrow> Done (written w) | (w, Some e) \<Rightarrow> Trap)"

section \<open>Validation without recursion\<close>

text \<open>
  The loop over a stack of suspended cursors, an array of which the first \<open>saved\<close> entries are in
  use. An index out of the array traps.
\<close>

lemma checkedEnd_Done [zig_simps]:
  "checkedEnd off len limit = Done n \<longleftrightarrow> off \<le> limit \<and> len \<le> limit - off \<and> n = off + len"
  by (auto simp: checkedEnd_def zassert_def)

definition remaining :: "cursor \<Rightarrow> nat" where
  "remaining c = length (cur_input c) - cur_offset c"

lemma length_slice: "length (slice bs i j) = min (j - i) (length bs - i)"
  by (simp add: slice_def)

lemma cursor_next_ListItem:
  "cursor_next c = Done (ListItem s, c') \<Longrightarrow> length (span_payload s) + remaining c' < remaining c"
  by (auto simp: cursor_next_def Let_def zig_simps next_short_def next_long_def readLongLength_def
      length_slice remaining_def split: if_splits)

lemma cursor_next_BytesItem:
  "cursor_next c = Done (BytesItem s, c') \<Longrightarrow> remaining c' < remaining c"
  by (auto simp: cursor_next_def Let_def zig_simps next_short_def next_long_def readLongLength_def
      remaining_def split: if_splits)

function validate_loop :: "nat \<Rightarrow> cursor \<Rightarrow> cursor list \<Rightarrow> nat \<Rightarrow> nat \<Rightarrow> nat parsed" where
  "validate_loop max_items cur stack saved items =
     (if isDone cur then
        if saved = 0 then Done items
        else if saved - 1 < length stack
        then validate_loop max_items (stack ! (saved - 1)) stack (saved - 1) items
        else Trap
      else case cursor_next cur of
        Fails e \<Rightarrow> Fails e
      | Trap \<Rightarrow> Trap
      | Done (child, cur') \<Rightarrow>
          if items + 1 > usize_max then Fails ValidationItemLimitExceeded
          else if items + 1 > max_items then Fails ValidationItemLimitExceeded
          else case child of
            BytesItem s \<Rightarrow> validate_loop max_items cur' stack saved (items + 1)
          | ListItem s \<Rightarrow>
              if saved = length stack then Fails ValidationDepthExceeded
              else if saved < length stack
              then validate_loop max_items (cursor_init (span_payload s)) (stack[saved := cur']) (saved + 1) (items + 1)
              else Trap)"
  by pat_completeness auto
termination
proof (relation "inv_image (less_than <*lex*> less_than)
    (\<lambda>(m, cur, stack, saved, items). (remaining cur + sum_list (map remaining (take saved stack)), saved))")
  fix m cur stack saved items
  assume "isDone cur" "saved \<noteq> 0" "saved - 1 < length (stack :: cursor list)"
  then obtain k where k: "saved = Suc k" "k < length stack" by (cases saved) auto
  have "remaining cur = 0" using \<open>isDone cur\<close> by (simp add: isDone_def remaining_def)
  with k show "((m, stack ! (saved - 1), stack, saved - 1, items), m, cur, stack, saved, items)
    \<in> inv_image (less_than <*lex*> less_than)
      (\<lambda>(m, cur, stack, saved, items). (remaining cur + sum_list (map remaining (take saved stack)), saved))"
    by (simp add: take_Suc_conv_app_nth)
next
  fix m cur stack saved items x child cur' s
  assume "cursor_next cur = Done x" "(child, cur') = x" "child = ListItem s" "saved < length (stack :: cursor list)"
  moreover from this have "length (span_payload s) + remaining cur' < remaining cur"
    using cursor_next_ListItem by blast
  ultimately show "((m, cursor_init (span_payload s), stack[saved := cur'], saved + 1, items + 1), m, cur, stack, saved, items)
    \<in> inv_image (less_than <*lex*> less_than)
      (\<lambda>(m, cur, stack, saved, items). (remaining cur + sum_list (map remaining (take saved stack)), saved))"
    by (simp add: take_Suc_conv_app_nth remaining_def cursor_init_def)
qed (use cursor_next_BytesItem in \<open>auto\<close>)

declare validate_loop.simps [simp del]

definition validateExactCounted :: "bytes \<Rightarrow> cursor list \<Rightarrow> nat \<Rightarrow> nat parsed" where
  "validateExactCounted bs list_stack max_items =
     zbind (parseExact bs) (\<lambda>root.
     zguard (max_items = 0) ValidationItemLimitExceeded
     (if \<not> is_list root then Done 1
      else zbind (listCursor root) (\<lambda>current. validate_loop max_items current list_stack 0 1)))"

definition validateExact :: "bytes \<Rightarrow> cursor list \<Rightarrow> nat \<Rightarrow> unit parsed" where
  "validateExact bs list_stack max_items =
     zbind (validateExactCounted bs list_stack max_items) (\<lambda>_. Done ())"

end
