(* ===== verification/Zig_Rlp_Codec.thy ===== *)
theory Zig_Rlp_Codec
  imports Zig_Rlp
begin

text \<open>
  The canonical encoding as a function on byte lists, what the writers append, what the cursor
  accepts, and the trees whose encodings the validation accepts.
\<close>

unbundle bit_operations_syntax

section \<open>Big-endian numbers\<close>

fun be_val :: "bytes \<Rightarrow> nat" where
  "be_val [] = 0"
| "be_val (b # bs) = unat b * 256 ^ length bs + be_val bs"

lemma be_val_snoc [simp]: "be_val (bs @ [b]) = be_val bs * 256 + unat b"
  by (induction bs) (simp_all add: algebra_simps)

lemma u8_less [simp]: "unat (b :: u8) < 256"
  using unsigned_less [of b] by simp

lemma be_val_less: "be_val bs < 256 ^ length bs"
proof (induction bs rule: rev_induct)
  case (snoc b bs)
  have b: "unat b < 256" by (rule u8_less)
  have "be_val bs + 1 \<le> 256 ^ length bs" using snoc by simp
  then have "(be_val bs + 1) * 256 \<le> 256 ^ length bs * 256" by (rule mult_le_mono1)
  then have "be_val bs * 256 + 256 \<le> 256 ^ length bs * 256" unfolding add_mult_distrib by simp
  with b have "be_val bs * 256 + unat b < 256 ^ length bs * 256" by linarith
  then show ?case by (simp add: mult.commute)
qed simp

lemma push_or: fixes v :: "'w::len word" and b :: u8
  assumes "unat v * 256 + unat b < 2 ^ LENGTH('w)"
  shows "unat (push_bit 8 v OR ucast b) = unat v * 256 + unat b"
proof -
  have z: "push_bit 8 v AND ucast b = 0"
    by (rule bit_eqI) (auto simp: bit_simps not_le dest: bit_imp_le_length)
  have or: "push_bit 8 v OR ucast b = push_bit 8 v + ucast b"
    using disjunctive_add_eq_or z by metis
  have bl: "unat b < 2 ^ LENGTH('w)" using assms by linarith
  have "unat (push_bit 8 v) = take_bit LENGTH('w) (push_bit 8 (unat v))" by (rule unsigned_push_bit_eq)
  also have "\<dots> = unat v * 256" using assms by (simp add: push_bit_eq_mult take_bit_eq_mod)
  finally have "unat (push_bit 8 v) = unat v * 256" .
  moreover have "unat (ucast b :: 'w word) = unat b" using bl by (simp add: unsigned_ucast_eq take_bit_nat_eq_self)
  ultimately show ?thesis
    unfolding or using assms by (subst unat_add_lem [THEN iffD1]) simp_all
qed

lemma unat_be_word: "be_val bs < 2 ^ LENGTH('w) \<Longrightarrow> unat (be_word bs :: 'w::len word) = be_val bs"
proof (induction bs rule: rev_induct)
  case (snoc b bs)
  then have "be_val bs < 2 ^ LENGTH('w)" by simp
  with snoc have "unat (be_word bs :: 'w word) = be_val bs" by simp
  with snoc.prems push_or [of "be_word bs :: 'w word" b] show ?case by (simp add: be_word_def)
qed (simp add: be_word_def)

fun min_be :: "nat \<Rightarrow> bytes" where
  "min_be n = (if n = 0 then [] else min_be (n div 256) @ [word_of_nat n])"

declare min_be.simps [simp del]

lemma min_be_0 [simp]: "min_be 0 = []"
  by (subst min_be.simps) simp

lemma min_be_rec: "n \<noteq> 0 \<Longrightarrow> min_be n = min_be (n div 256) @ [word_of_nat n]"
  by (subst min_be.simps) simp

lemma be_val_min_be [simp]: "be_val (min_be n) = n"
proof (induction n rule: min_be.induct)
  case (1 n)
  show ?case by (cases "n = 0") (simp_all add: min_be_rec 1 unat_of_nat)
qed

lemma min_be_nonzero: "n \<noteq> 0 \<Longrightarrow> min_be n \<noteq> [] \<and> min_be n ! 0 \<noteq> 0"
proof (induction n rule: min_be.induct)
  case (1 n)
  show ?case
  proof (cases "n div 256 = 0")
    case True
    then have "n < 256" by (simp add: div_eq_0_iff)
    then have "unat (word_of_nat n :: u8) = n" by (simp add: unat_of_nat)
    with 1 have "(word_of_nat n :: u8) \<noteq> 0" by (metis unat_0)
    with True 1 show ?thesis by (simp add: min_be_rec)
  next
    case False
    with 1 show ?thesis by (simp add: min_be_rec [of n] nth_append)
  qed
qed

lemma min_be_be_val: "bs = [] \<or> bs ! 0 \<noteq> 0 \<Longrightarrow> min_be (be_val bs) = bs"
proof (induction bs rule: rev_induct)
  case (snoc b bs)
  have w: "word_of_nat (be_val bs * 256 + unat b) = b"
    by (rule word_unat_eq_iff [THEN iffD2], simp only: unat_of_nat) simp
  show ?case
  proof (cases "bs = []")
    case True
    with snoc.prems have "unat b \<noteq> 0" by (simp add: unat_eq_0)
    with True w show ?thesis by (simp add: min_be_rec)
  next
    case False
    with snoc have IH: "min_be (be_val bs) = bs" by (simp add: nth_append)
    with False have "be_val bs \<noteq> 0" by (metis min_be_0)
    then show ?thesis using w IH by (simp add: min_be_rec)
  qed
qed simp

lemma min_be_eq_iff: "min_be n = bs \<longleftrightarrow> be_val bs = n \<and> (bs = [] \<or> bs ! 0 \<noteq> 0)"
  using min_be_be_val [of bs] min_be_nonzero [of n] by (cases "n = 0") auto

lemma length_min_be_le: "length (min_be n) \<le> k \<longleftrightarrow> n < 256 ^ k"
proof
  assume "length (min_be n) \<le> k"
  then have "256 ^ length (min_be n) \<le> (256 :: nat) ^ k" by (intro power_increasing) simp_all
  with be_val_less [of "min_be n"] show "n < 256 ^ k" by (simp add: less_le_trans)
next
  show "n < 256 ^ k \<Longrightarrow> length (min_be n) \<le> k"
  proof (induction n arbitrary: k rule: min_be.induct)
    case (1 n)
    show ?case
    proof (cases "n = 0")
      case False
      with 1(2) obtain l where l: "k = Suc l" by (cases k) auto
      with 1(2) have "n div 256 < 256 ^ l" by (simp add: less_mult_imp_div_less mult.commute)
      with 1(1) [OF False, of l] False l show ?thesis by (simp add: min_be_rec)
    qed simp
  qed
qed

section \<open>The canonical encoding\<close>

definition enc_prefix :: "nat \<Rightarrow> nat \<Rightarrow> nat \<Rightarrow> bytes" where
  "enc_prefix short long n =
     (if n < 56 then [word_of_nat (short + n)] else word_of_nat (long + length (min_be n)) # min_be n)"

definition enc_bytes :: "bytes \<Rightarrow> bytes" where
  "enc_bytes p = (if length p = 1 \<and> p ! 0 < 0x80 then p else enc_prefix 0x80 0xb7 (length p) @ p)"

definition enc_list :: "bytes \<Rightarrow> bytes" where
  "enc_list p = enc_prefix 0xc0 0xf7 (length p) @ p"

lemma byte_count_min_be: "byte_count_from r = length (min_be (unat r))"
proof (induction r rule: byte_count_from.induct)
  case (1 r)
  show ?case
  proof (cases "r = 0")
    case False
    then have "unat r \<noteq> 0" by (simp add: unat_eq_0)
    with 1 False show ?thesis
      by (subst byte_count_from.simps) (simp add: min_be_rec unat_drop_bit)
  qed (simp add: byte_count_from.simps)
qed

lemma unat_word_of_nat_usize: "n \<le> usize_max \<Longrightarrow> unat (word_of_nat n :: u64) = n"
  by (simp add: unat_of_nat usize_max_def)

lemma lengthByteCount_min_be: "n \<le> usize_max \<Longrightarrow> lengthByteCount n = Some (length (min_be n))"
  by (simp add: lengthByteCount_def byte_count_min_be unat_word_of_nat_usize)

lemma fill_length_min_be:
  "k = length (min_be (unat r)) \<Longrightarrow> k \<le> i \<Longrightarrow> i \<le> length bs \<Longrightarrow>
   drop (i - k) (fill_length i k r bs) = min_be (unat r) @ drop i bs"
proof (induction k arbitrary: i r bs)
  case 0
  then show ?case by simp
next
  case (Suc k)
  then have nz: "unat r \<noteq> 0" by (metis Zero_not_Suc list.size(3) min_be_0)
  then have rec: "min_be (unat r) = min_be (unat (drop_bit 8 r)) @ [ucast r]"
    by (simp add: min_be_rec unat_drop_bit unsigned_ucast_eq word_unat_eq_iff unat_of_nat take_bit_eq_mod)
  obtain j where j: "i = Suc j" using Suc.prems(2) by (cases i) auto
  have "drop (j - k) (fill_length j k (drop_bit 8 r) (bs[j := ucast r])) =
      min_be (unat (drop_bit 8 r)) @ drop j (bs[j := ucast r])"
    using Suc.prems rec j by (intro Suc.IH) auto
  moreover have "drop j (bs[j := ucast r]) = ucast r # drop i bs"
    using Suc.prems(3) j by (simp add: Cons_nth_drop_Suc [symmetric])
  ultimately show ?case by (simp add: j rec)
qed

lemma length_fill_length [simp]: "length (fill_length i k r bs) = length bs"
  by (induction i k r bs rule: fill_length.induct) simp_all

lemma length_min_be_usize: "n \<le> usize_max \<Longrightarrow> length (min_be n) \<le> 8"
  unfolding length_min_be_le by (simp add: usize_max_def)

section \<open>What the writers append\<close>

fun writer_ok :: "writer \<Rightarrow> bool" where
  "writer_ok (Allocating out) = True"
| "writer_ok (Borrowed buffer len) = (len \<le> length buffer)"

fun same_buffer :: "writer \<Rightarrow> writer \<Rightarrow> bool" where
  "same_buffer (Allocating out) w = (case w of Allocating _ \<Rightarrow> True | _ \<Rightarrow> False)"
| "same_buffer (Borrowed buffer len) w =
     (case w of Allocating _ \<Rightarrow> False | Borrowed buffer' _ \<Rightarrow> length buffer' = length buffer)"

fun room :: "(nat \<Rightarrow> bool) \<Rightarrow> writer \<Rightarrow> nat \<Rightarrow> bool" where
  "room can_hold (Allocating out) n = (\<forall>k\<le>n. can_hold (length out + k))"
| "room can_hold (Borrowed buffer len) n = (len + n \<le> length buffer)"

text \<open>
  A step emits \<open>bs\<close>: with room for it all it succeeds, a success appends exactly \<open>bs\<close>, and an error
  is that of the writer and leaves what was written in place.
\<close>

definition emits :: "(nat \<Rightarrow> bool) \<Rightarrow> write_step \<Rightarrow> bytes \<Rightarrow> bool" where
  "emits can_hold f bs \<longleftrightarrow> (\<forall>w. writer_ok w \<longrightarrow>
     writer_ok (fst (f w)) \<and> same_buffer w (fst (f w)) \<and> prefix (written w) (written (fst (f w))) \<and>
     (room can_hold w (length bs) \<longrightarrow> snd (f w) = None) \<and>
     (snd (f w) = None \<longrightarrow> written (fst (f w)) = written w @ bs) \<and>
     (\<forall>e. snd (f w) = Some e \<longrightarrow> e = (case w of Allocating _ \<Rightarrow> WriterOutOfMemory | _ \<Rightarrow> NoSpaceLeft)))"

lemma emits_appendByte: "emits can_hold (appendByte can_hold b) [b]"
  unfolding emits_def
proof (intro allI impI)
  fix w assume "writer_ok w"
  then show "writer_ok (fst (appendByte can_hold b w)) \<and> same_buffer w (fst (appendByte can_hold b w)) \<and>
     prefix (written w) (written (fst (appendByte can_hold b w))) \<and>
     (room can_hold w (length [b]) \<longrightarrow> snd (appendByte can_hold b w) = None) \<and>
     (snd (appendByte can_hold b w) = None \<longrightarrow> written (fst (appendByte can_hold b w)) = written w @ [b]) \<and>
     (\<forall>e. snd (appendByte can_hold b w) = Some e \<longrightarrow>
        e = (case w of Allocating _ \<Rightarrow> WriterOutOfMemory | _ \<Rightarrow> NoSpaceLeft))"
    by (cases w) (auto simp: appendByte_def written_def take_Suc_conv_app_nth)
qed

lemma emits_appendSlice: "emits can_hold (appendSlice can_hold bs) bs"
  unfolding emits_def
proof (intro allI impI)
  fix w assume "writer_ok w"
  then show "writer_ok (fst (appendSlice can_hold bs w)) \<and> same_buffer w (fst (appendSlice can_hold bs w)) \<and>
     prefix (written w) (written (fst (appendSlice can_hold bs w))) \<and>
     (room can_hold w (length bs) \<longrightarrow> snd (appendSlice can_hold bs w) = None) \<and>
     (snd (appendSlice can_hold bs w) = None \<longrightarrow> written (fst (appendSlice can_hold bs w)) = written w @ bs) \<and>
     (\<forall>e. snd (appendSlice can_hold bs w) = Some e \<longrightarrow>
        e = (case w of Allocating _ \<Rightarrow> WriterOutOfMemory | _ \<Rightarrow> NoSpaceLeft))"
    by (cases w) (auto simp: appendSlice_def written_def)
qed

lemma written_length: "writer_ok (Borrowed buffer len) \<Longrightarrow> length (written (Borrowed buffer len)) = len"
  by (simp add: written_def)

lemma room_after:
  assumes "writer_ok w" "writer_ok w'" "same_buffer w w'" "written w' = written w @ a"
    and "room can_hold w (length (a @ b))"
  shows "room can_hold w' (length b)"
proof (cases w)
  case (Allocating out)
  with assms obtain out' where w': "w' = Allocating out'" "out' = out @ a"
    by (cases w') (auto simp: written_def)
  show ?thesis using assms(5) by (auto simp: Allocating w' add.assoc)
next
  case (Borrowed buffer len)
  with assms(3) obtain buffer' len' where w': "w' = Borrowed buffer' len'" "length buffer' = length buffer"
    by (cases w') auto
  have "length (written w') = len + length a"
    using assms(1,4) by (simp add: Borrowed written_length)
  then have "len' = len + length a" using assms(2) by (simp add: w' written_length)
  with assms(5) show ?thesis by (simp add: Borrowed w')
qed

lemma room_mono: "room can_hold w n \<Longrightarrow> m \<le> n \<Longrightarrow> room can_hold w m"
  by (cases w) auto

lemma same_buffer_trans: "same_buffer w w' \<Longrightarrow> same_buffer w' w'' \<Longrightarrow> same_buffer w w''"
  by (cases w; cases w'; cases w'') auto

lemma same_buffer_error: "same_buffer w w' \<Longrightarrow>
    (case w' of Allocating _ \<Rightarrow> WriterOutOfMemory | _ \<Rightarrow> NoSpaceLeft) =
    (case w of Allocating _ \<Rightarrow> WriterOutOfMemory | _ \<Rightarrow> NoSpaceLeft)"
  by (cases w; cases w') auto

lemma emits_wthen:
  assumes f: "emits can_hold f a" and g: "emits can_hold g b"
  shows "emits can_hold (wthen f g) (a @ b)"
  unfolding emits_def
proof (intro allI impI)
  fix w assume w: "writer_ok w"
  obtain w1 r where fw: "f w = (w1, r)" by fastforce
  note F = f [unfolded emits_def, rule_format, OF w, unfolded fw fst_conv snd_conv]
  let ?s = "wthen f g w"
  show "writer_ok (fst ?s) \<and> same_buffer w (fst ?s) \<and> prefix (written w) (written (fst ?s)) \<and>
     (room can_hold w (length (a @ b)) \<longrightarrow> snd ?s = None) \<and>
     (snd ?s = None \<longrightarrow> written (fst ?s) = written w @ a @ b) \<and>
     (\<forall>e. snd ?s = Some e \<longrightarrow> e = (case w of Allocating _ \<Rightarrow> WriterOutOfMemory | _ \<Rightarrow> NoSpaceLeft))"
  proof (cases r)
    case (Some e)
    then have "?s = (w1, Some e)" by (simp add: wthen_def fw)
    then show ?thesis using F Some room_mono [of can_hold w "length (a @ b)" "length a"] by auto
  next
    case None
    then have s: "?s = g w1" by (simp add: wthen_def fw)
    have w1: "writer_ok w1" "same_buffer w w1" "written w1 = written w @ a" using F None by auto
    note G = g [unfolded emits_def, rule_format, OF w1(1)]
    have "same_buffer w (fst (g w1))" using same_buffer_trans [OF w1(2)] G by blast
    moreover have "prefix (written w) (written (fst (g w1)))"
      using G w1(3) by (metis prefix_order.trans prefixI)
    moreover have "room can_hold w (length (a @ b)) \<longrightarrow> snd (g w1) = None"
      using room_after [OF w w1] G by blast
    moreover have "snd (g w1) = None \<longrightarrow> written (fst (g w1)) = written w @ a @ b"
      using G w1(3) by simp
    ultimately show ?thesis unfolding s using G same_buffer_error [OF w1(2)] by simp
  qed
qed

lemma emits_writeLengthPrefix:
  assumes n: "n \<le> usize_max"
  shows "emits can_hold (writeLengthPrefix can_hold (word_of_nat short) (word_of_nat long) n) (enc_prefix short long n)"
proof (cases "n < 56")
  case True
  then show ?thesis by (simp add: writeLengthPrefix_def enc_prefix_def emits_appendByte)
next
  case False
  let ?k = "length (min_be n)"
  have "drop (8 - ?k) (fill_length 8 ?k (word_of_nat n) (replicate 8 0)) = min_be n"
    using fill_length_min_be [of ?k "word_of_nat n" 8 "replicate 8 0"] n
    by (simp add: unat_word_of_nat_usize length_min_be_usize)
  then have "writeLengthPrefix can_hold (word_of_nat short) (word_of_nat long) n =
      wthen (appendByte can_hold (word_of_nat (long + ?k))) (appendSlice can_hold (min_be n))"
    using False by (simp add: writeLengthPrefix_def lengthByteCount_min_be [OF n])
  moreover have "enc_prefix short long n = [word_of_nat (long + ?k)] @ min_be n"
    using False by (simp add: enc_prefix_def)
  ultimately show ?thesis using emits_wthen [OF emits_appendByte emits_appendSlice] by metis
qed

lemma emits_writeBytes: "length p \<le> usize_max \<Longrightarrow> emits can_hold (writeBytes can_hold p) (enc_bytes p)"
proof (cases "length p = 1 \<and> p ! 0 < 0x80")
  case True
  then have "p = [p ! 0]" by (cases p) auto
  then show ?thesis using True emits_appendByte [of can_hold "p ! 0"] by (simp add: writeBytes_def enc_bytes_def)
next
  case False
  assume "length p \<le> usize_max"
  from emits_wthen [OF emits_writeLengthPrefix [OF this, of can_hold 128 183] emits_appendSlice [of can_hold p]]
  show ?thesis using False by (auto simp: writeBytes_def enc_bytes_def)
qed

lemma emits_writeListPayload: "length p \<le> usize_max \<Longrightarrow> emits can_hold (writeListPayload can_hold p) (enc_list p)"
  using emits_wthen [OF emits_writeLengthPrefix [of "length p" can_hold 192 247] emits_appendSlice [of can_hold p]]
  by (simp add: writeListPayload_def enc_list_def)

text \<open>All or nothing: an error leaves exactly what was written before.\<close>

lemma allOrNothing_emits:
  assumes f: "emits can_hold f bs" and w: "writer_ok w"
  shows "snd (allOrNothing f w) = None \<Longrightarrow> written (fst (allOrNothing f w)) = written w @ bs"
    and "room can_hold w (length bs) \<Longrightarrow> snd (allOrNothing f w) = None"
    and "snd (allOrNothing f w) = Some e \<Longrightarrow> written (fst (allOrNothing f w)) = written w"
    and "snd (allOrNothing f w) = Some e \<Longrightarrow> e = (case w of Allocating _ \<Rightarrow> WriterOutOfMemory | _ \<Rightarrow> NoSpaceLeft)"
    and "snd (allOrNothing f w) = None \<Longrightarrow> w = Borrowed buffer len \<Longrightarrow> len + length bs \<le> length buffer"
proof -
  obtain w' r where fw: "f w = (w', r)" by fastforce
  note F = f [unfolded emits_def, rule_format, OF w, unfolded fw fst_conv snd_conv]
  have same: "snd (allOrNothing f w) = r" by (cases r) (simp_all add: allOrNothing_def fw)
  show ok: "written (fst (allOrNothing f w)) = written w @ bs" if "snd (allOrNothing f w) = None"
    using F that by (simp add: same) (simp add: allOrNothing_def fw)
  show "snd (allOrNothing f w) = None" if "room can_hold w (length bs)" using F that by (simp add: same)
  show "e = (case w of Allocating _ \<Rightarrow> WriterOutOfMemory | _ \<Rightarrow> NoSpaceLeft)" if "snd (allOrNothing f w) = Some e"
    using F that by (simp add: same)
  show "written (fst (allOrNothing f w)) = written w" if e: "snd (allOrNothing f w) = Some e"
  proof -
    have "written (truncate_writer (length (written w)) w') = take (length (written w)) (written w')"
    proof (cases w')
      case (Borrowed buffer len)
      with F have "length (written w) \<le> len"
        by (metis prefix_length_le written_length)
      then show ?thesis by (simp add: Borrowed truncate_writer_def written_def min_absorb1)
    qed (simp add: truncate_writer_def written_def)
    also have "\<dots> = written w" using F by (auto simp: prefix_def)
    finally show ?thesis using e by (simp add: same) (simp add: allOrNothing_def fw)
  qed
  show "len + length bs \<le> length buffer" if none: "snd (allOrNothing f w) = None" and wb: "w = Borrowed buffer len"
  proof -
    have r: "r = None" using none by (simp add: same)
    obtain buffer' len' where w': "w' = Borrowed buffer' len'" "length buffer' = length buffer" "len' \<le> length buffer'"
      using F wb by (cases w') auto
    have "length (written w') = len + length bs"
      using F r w wb by (simp add: written_length)
    then show ?thesis using w' by (simp add: written_length)
  qed
qed

section \<open>Integers\<close>

lemma significantBytes_min_be:
  assumes "unat v < 2 ^ w" shows "significantBytes w v = length (min_be (unat v))"
proof (cases "v = 0")
  case False
  let ?b = "w - clz w v"
  have b: "0 < ?b" "2 ^ (?b - 1) \<le> unat v" "unat v < 2 ^ ?b" using bit_word_width [OF False assms] by auto
  define k where "k = (?b + 7) div 8"
  have k: "0 < k" "8 * (k - 1) \<le> ?b - 1" "?b \<le> 8 * k" using b(1) unfolding k_def by linarith+
  have p: "(256 :: nat) ^ j = 2 ^ (8 * j)" for j by (simp add: power_mult)
  have "unat v < 256 ^ k" unfolding p using b(3) k(3) by (meson less_le_trans one_le_numeral power_increasing)
  moreover have "256 ^ (k - 1) \<le> unat v" unfolding p using b(2) k(2) by (meson le_trans one_le_numeral power_increasing)
  ultimately have "length (min_be (unat v)) = k"
    using length_min_be_le [of "unat v" k] length_min_be_le [of "unat v" "k - 1"] k(1) by simp
  with False show ?thesis by (simp add: significantBytes_def k_def)
qed (simp add: significantBytes_def)

lemma nth_min_be: "i < length (min_be n) \<Longrightarrow> min_be n ! i = word_of_nat (n div 256 ^ (length (min_be n) - 1 - i))"
proof (induction n arbitrary: i rule: min_be.induct)
  case (1 n)
  then have nz: "n \<noteq> 0" by (cases "n = 0") auto
  show ?case
  proof (cases "i < length (min_be (n div 256))")
    case True
    have e: "length (min_be n) - 1 - i = Suc (length (min_be (n div 256)) - 1 - i)"
      using True nz by (simp add: min_be_rec)
    have "min_be n ! i = min_be (n div 256) ! i" using True nz by (simp add: min_be_rec nth_append)
    also have "\<dots> = word_of_nat (n div 256 div 256 ^ (length (min_be (n div 256)) - 1 - i))"
      by (rule 1(1) [OF nz True])
    finally show ?thesis unfolding e by (simp add: div_mult2_eq)
  next
    case False
    with 1(2) nz show ?thesis by (simp add: min_be_rec nth_append)
  qed
qed

lemma intBytes_min_be:
  assumes v: "unat v < 2 ^ w"
  shows "drop (length (intBytes w v) - significantBytes w v) (intBytes w v) = min_be (unat v)"
proof -
  let ?k = "length (min_be (unat v))" and ?B = "byteLen w"
  have "unat v < 256 ^ ?B"
  proof -
    have "w \<le> 8 * ?B" unfolding byteLen_def by linarith
    then have "(2 :: nat) ^ w \<le> 2 ^ (8 * ?B)" by (intro power_increasing) simp_all
    with v show ?thesis by (simp add: power_mult)
  qed
  then have k: "?k \<le> ?B" by (simp add: length_min_be_le)
  show ?thesis
    unfolding significantBytes_min_be [OF v]
  proof (rule nth_equalityI)
    show "length (drop (length (intBytes w v) - ?k) (intBytes w v)) = ?k" using k by (simp add: intBytes_def)
    fix i assume "i < length (drop (length (intBytes w v) - ?k) (intBytes w v))"
    then have i: "i < ?k" using k by (simp add: intBytes_def)
    have e: "?B - 1 - (?B - ?k + i) = ?k - 1 - i" using i k by linarith
    have "drop (length (intBytes w v) - ?k) (intBytes w v) ! i = intBytes w v ! (?B - ?k + i)"
      using i k by (simp add: intBytes_def)
    also have "\<dots> = ucast (drop_bit (8 * (?k - 1 - i)) v)"
    proof -
      have "?B - ?k + i < ?B" using i k by linarith
      then show ?thesis unfolding e [symmetric] by (simp add: intBytes_def)
    qed
    also have "\<dots> = word_of_nat (unat v div 256 ^ (?k - 1 - i))"
    proof (rule word_unat_eq_iff [THEN iffD2])
      have "(2 :: nat) ^ (8 * (?k - 1 - i)) = 256 ^ (?k - 1 - i)" by (simp only: power_mult) simp
      then show "unat (ucast (drop_bit (8 * (?k - 1 - i)) v) :: u8) = unat (word_of_nat (unat v div 256 ^ (?k - 1 - i)) :: u8)"
        unfolding unsigned_ucast_eq unat_drop_bit unat_of_nat by (simp add: take_bit_eq_mod)
    qed
    also have "\<dots> = min_be (unat v) ! i" by (rule nth_min_be [OF i, symmetric])
    finally show "drop (length (intBytes w v) - ?k) (intBytes w v) ! i = min_be (unat v) ! i" .
  qed
qed

lemma emits_writeInt:
  assumes "unat v < 2 ^ w" shows "emits can_hold (writeInt can_hold w v) (enc_bytes (min_be (unat v)))"
proof -
  have len: "length (min_be (unat v)) \<le> usize_max"
  proof -
    have "unat v < 256 ^ 32" using unsigned_less [of v] by simp
    then have "length (min_be (unat v)) \<le> 32" by (simp only: length_min_be_le)
    then show ?thesis by (simp add: usize_max_def)
  qed
  show ?thesis
  proof (cases "v = 0")
    case True
    then show ?thesis using emits_writeBytes [OF len, of can_hold] by (simp add: writeInt_def)
  next
    case False
    then have "writeInt can_hold w v = writeBytes can_hold (min_be (unat v))"
      by (simp add: writeInt_def Let_def intBytes_min_be [OF assms])
    then show ?thesis using emits_writeBytes [OF len] by simp
  qed
qed

end
