(* ===== verification/Zig_Rlp_Trees.thy ===== *)
theory Zig_Rlp_Trees
  imports Zig_Rlp_Codec
begin

text \<open>
  What the strict cursor accepts, and the trees behind an accepted input: the loop of the
  validation against the recursive description of what it should accept.
\<close>

section \<open>The first byte of an encoding\<close>

lemma word_of_nat_u8_iff: "n < 256 \<Longrightarrow> word_of_nat n = (b :: u8) \<longleftrightarrow> unat b = n"
  by (auto simp: word_unat_eq_iff unat_of_nat)

lemma length_min_be_pos: "0 < n \<Longrightarrow> 0 < length (min_be n)"
  by (simp add: min_be_rec)

lemma enc_prefix_Cons:
  assumes n: "n \<le> usize_max" and base: "short + 55 < 256" "long + 8 < 256"
  shows "enc_prefix short long n @ p = b # t \<longleftrightarrow>
    n < 56 \<and> unat b = short + n \<and> t = p \<or>
    56 \<le> n \<and> unat b = long + length (min_be n) \<and> t = min_be n @ p"
  using length_min_be_usize [OF n] base
  by (cases "n < 56") (auto simp: enc_prefix_def word_of_nat_u8_iff simp del: of_nat_add)

lemma enc_bytes_Cons:
  assumes p: "length p \<le> usize_max"
  shows "enc_bytes p = b # t \<longleftrightarrow>
    unat b < 128 \<and> p = [b] \<and> t = [] \<or>
    128 \<le> unat b \<and> unat b \<le> 183 \<and> length p = unat b - 128 \<and> \<not> (length p = 1 \<and> p ! 0 < 0x80) \<and> t = p \<or>
    184 \<le> unat b \<and> unat b \<le> 191 \<and> 56 \<le> length p \<and> length (min_be (length p)) = unat b - 183 \<and>
      t = min_be (length p) @ p"
proof (cases "length p = 1 \<and> p ! 0 < 0x80")
  case True
  then obtain a where "p = [a]" by (cases p) auto
  with True show ?thesis by (auto simp: enc_bytes_def word_less_nat_alt)
next
  case False
  then have ne: "\<not> (unat b < 128 \<and> p = [b])" by (auto simp: word_less_nat_alt)
  have e: "enc_bytes p = b # t \<longleftrightarrow> length p < 56 \<and> unat b = 128 + length p \<and> t = p \<or>
    56 \<le> length p \<and> unat b = 183 + length (min_be (length p)) \<and> t = min_be (length p) @ p"
    using enc_prefix_Cons [OF p, of 128 183 p b t] by (simp only: enc_bytes_def False if_False)
  have m: "length (min_be (length p)) \<le> 8" "56 \<le> length p \<Longrightarrow> 1 \<le> length (min_be (length p))"
    using length_min_be_usize [OF p] length_min_be_pos [of "length p"] by linarith+
  show ?thesis
  proof (cases "length p < 56")
    case True
    then have "enc_bytes p = b # t \<longleftrightarrow> unat b = 128 + length p \<and> t = p" using e by simp
    with True ne False show ?thesis by auto
  next
    case long: False
    then have "enc_bytes p = b # t \<longleftrightarrow> unat b = 183 + length (min_be (length p)) \<and> t = min_be (length p) @ p"
      using e by simp
    moreover have "length p \<noteq> unat b - 128 \<or> 183 < unat b" using long by linarith
    ultimately show ?thesis using long ne m by auto
  qed
qed

lemma enc_list_Cons:
  assumes p: "length p \<le> usize_max"
  shows "enc_list p = b # t \<longleftrightarrow>
    192 \<le> unat b \<and> unat b \<le> 247 \<and> length p = unat b - 192 \<and> t = p \<or>
    248 \<le> unat b \<and> 56 \<le> length p \<and> length (min_be (length p)) = unat b - 247 \<and>
      t = min_be (length p) @ p"
proof -
  have e: "enc_list p = b # t \<longleftrightarrow> length p < 56 \<and> unat b = 192 + length p \<and> t = p \<or>
    56 \<le> length p \<and> unat b = 247 + length (min_be (length p)) \<and> t = min_be (length p) @ p"
    using enc_prefix_Cons [OF p, of 192 247 p b t] by (simp add: enc_list_def)
  have m: "56 \<le> length p \<Longrightarrow> 1 \<le> length (min_be (length p))"
    using length_min_be_pos [of "length p"] by linarith
  show ?thesis
  proof (cases "length p < 56")
    case True
    then have "enc_list p = b # t \<longleftrightarrow> unat b = 192 + length p \<and> t = p" using e by simp
    with True show ?thesis by auto
  next
    case long: False
    then have "enc_list p = b # t \<longleftrightarrow> unat b = 247 + length (min_be (length p)) \<and> t = min_be (length p) @ p"
      using e by simp
    moreover have "length p \<noteq> unat b - 192 \<or> 247 < unat b" using long by linarith
    ultimately show ?thesis using long m by auto
  qed
qed

lemma enc_nonempty [simp]: "enc_bytes p \<noteq> []" "enc_list p \<noteq> []"
  by (auto simp: enc_bytes_def enc_list_def enc_prefix_def)

lemma enc_nonempty_sym [simp]: "[] \<noteq> enc_bytes p" "[] \<noteq> enc_list p"
  by (metis enc_nonempty)+

lemma enc_longer: "length p \<le> length (enc_bytes p)" "length p < length (enc_list p)"
  by (auto simp: enc_bytes_def enc_list_def enc_prefix_def)

section \<open>What the cursor reads\<close>

lemma slice_take: "slice bs i (i + n) = take n (drop i bs)"
  by (simp add: slice_def)

lemma take_drop_ex: "n \<le> length xs \<Longrightarrow> (\<exists>p r. xs = p @ r \<and> length p = n \<and> P p) \<longleftrightarrow> P (take n xs)"
proof
  assume "n \<le> length xs" "P (take n xs)"
  then have "xs = take n xs @ drop n xs \<and> length (take n xs) = n \<and> P (take n xs)" by simp
  then show "\<exists>p r. xs = p @ r \<and> length p = n \<and> P p" by blast
qed auto

lemma readLongLength_Done:
  assumes "length bs \<le> usize_max"
  shows "readLongLength bs off k = Done n \<longleftrightarrow>
    off \<le> length bs \<and> k \<le> length bs - off \<and> k \<le> 8 \<and> n \<noteq> 0 \<and> take k (drop off bs) = min_be n"
proof (cases "off \<le> length bs \<and> k \<le> length bs - off \<and> k \<le> 8")
  case True
  let ?v = "take k (drop off bs)"
  have len: "length ?v = k" using True by simp
  have "be_val ?v < 256 ^ length ?v" by (rule be_val_less)
  also have "\<dots> \<le> 256 ^ 8" using True len by (intro power_increasing) simp_all
  finally have w: "unat (be_word ?v :: 64 word) = be_val ?v" by (intro unat_be_word) simp
  have "readLongLength bs off k = Done n \<longleftrightarrow> \<not> (?v = [] \<or> ?v ! 0 = 0) \<and> n = be_val ?v"
    using True len w by (auto simp: readLongLength_def zig_simps slice_take Let_def)
  also have "\<dots> \<longleftrightarrow> n \<noteq> 0 \<and> min_be n = ?v"
    unfolding min_be_eq_iff using min_be_be_val [of ?v] by (metis be_val.simps(1) min_be_0)
  finally show ?thesis using True by auto
qed (auto simp: readLongLength_def zig_simps Let_def length_slice)

lemma next_short_Done:
  assumes "start < length bs"
  shows "next_short mk bs start n = Done (it, c') \<longleftrightarrow> (\<exists>p r. drop start bs = bs ! start # p @ r \<and> length p = n \<and>
    it = mk \<lparr>span_encoded = bs ! start # p, span_payload = p\<rparr> \<and> c' = \<lparr>cur_input = bs, cur_offset = start + 1 + n\<rparr>)"
proof -
  have d: "drop start bs = bs ! start # drop (start + 1) bs" using assms by (simp add: Cons_nth_drop_Suc)
  show ?thesis
  proof (cases "n \<le> length bs - (start + 1)")
    case True
    have "slice bs start (start + 1 + n) = bs ! start # take n (drop (start + 1) bs)"
      using d by (simp add: slice_def)
    moreover have "slice bs (start + 1) (start + 1 + n) = take n (drop (start + 1) bs)" by (rule slice_take)
    ultimately show ?thesis
      using True assms take_drop_ex [of n "drop (start + 1) bs"]
      by (auto simp: next_short_def zig_simps d)
  next
    case False
    then show ?thesis by (auto simp: next_short_def zig_simps d dest!: arg_cong [of _ _ length])
  qed
qed

lemma next_long_Done:
  assumes start: "start < length bs" and max: "length bs \<le> usize_max"
  shows "next_long mk bs start k = Done (it, c') \<longleftrightarrow> (\<exists>p r. drop start bs = bs ! start # min_be (length p) @ p @ r \<and>
    length (min_be (length p)) = k \<and> k \<le> 8 \<and> 56 \<le> length p \<and>
    it = mk \<lparr>span_encoded = bs ! start # min_be (length p) @ p, span_payload = p\<rparr> \<and>
    c' = \<lparr>cur_input = bs, cur_offset = start + 1 + k + length p\<rparr>)" (is "?L \<longleftrightarrow> ?R")
proof
  let ?t = "drop (start + 1) bs"
  have d: "drop start bs = bs ! start # ?t" using start by (simp add: Cons_nth_drop_Suc)
  { assume ?L
    then obtain n where n: "readLongLength bs (start + 1) k = Done n" "\<not> n < 56"
      and k: "k \<le> length bs - (start + 1)" "n \<le> length bs - (start + 1 + k)"
      and it: "it = mk \<lparr>span_encoded = slice bs start (start + 1 + k + n), span_payload = slice bs (start + 1 + k) (start + 1 + k + n)\<rparr>"
      and c': "c' = \<lparr>cur_input = bs, cur_offset = start + 1 + k + n\<rparr>"
      by (auto simp: next_long_def zig_simps)
    have m: "take k ?t = min_be n" "k \<le> 8" using n(1) by (simp_all add: readLongLength_Done [OF max])
    define t p r where "t = ?t" and "p = take n (drop k t)" and "r = drop n (drop k t)"
    note td = t_def [symmetric]
    have tk: "take k t = min_be n" "k \<le> 8" using m by (simp_all only: td)
    have lt: "k + n \<le> length t" using k start by (simp add: t_def)
    have p: "length p = n" using lt by (simp add: p_def)
    have len: "length (min_be n) = k" using lt by (simp flip: tk(1))
    have t3: "t = min_be n @ p @ r"
      unfolding tk(1) [symmetric] p_def r_def by (simp only: append_take_drop_id)
    have s1: "slice bs start (start + 1 + k + n) = bs ! start # min_be n @ p"
    proof -
      have "slice bs start (start + 1 + k + n) = bs ! start # take (k + n) t"
        unfolding slice_def d td by simp
      also have "take (k + n) t = min_be n @ p" unfolding tk(1) [symmetric] p_def by (rule take_add)
      finally show ?thesis .
    qed
    have s2: "slice bs (start + 1 + k) (start + 1 + k + n) = p"
      unfolding slice_take p_def t_def by (simp add: add.commute)
    have "drop start bs = bs ! start # min_be n @ p @ r" unfolding d td by (simp only: t3)
    moreover have "it = mk \<lparr>span_encoded = bs ! start # min_be n @ p, span_payload = p\<rparr>" by (simp only: it s1 s2)
    ultimately have "drop start bs = bs ! start # min_be n @ p @ r \<and> length (min_be n) = k \<and> k \<le> 8 \<and> 56 \<le> n \<and>
      it = mk \<lparr>span_encoded = bs ! start # min_be n @ p, span_payload = p\<rparr> \<and>
      c' = \<lparr>cur_input = bs, cur_offset = start + 1 + k + n\<rparr>" using len tk(2) n(2) c' by simp
    then show ?R unfolding p [symmetric] by blast }
  { assume ?R
    then obtain p r where t: "?t = min_be (length p) @ p @ r" and k: "length (min_be (length p)) = k" "k \<le> 8"
      and p: "56 \<le> length p"
      and it: "it = mk \<lparr>span_encoded = bs ! start # min_be (length p) @ p, span_payload = p\<rparr>"
      and c': "c' = \<lparr>cur_input = bs, cur_offset = start + 1 + k + length p\<rparr>"
      using d by auto
    have len: "length bs - (start + 1) = k + length p + length r"
      using arg_cong [OF t, of length] k(1) by simp
    have rl: "readLongLength bs (start + 1) k = Done (length p)"
      unfolding readLongLength_Done [OF max] using t k len p start by auto
    have s1: "slice bs start (start + 1 + k + length p) = bs ! start # min_be (length p) @ p"
      using d t k(1) by (simp add: slice_def)
    have s2: "slice bs (start + 1 + k) (start + 1 + k + length p) = p"
    proof -
      have "drop (start + 1 + k) bs = drop k ?t" by (simp add: add.commute)
      also have "\<dots> = p @ r" unfolding t using k(1) by simp
      finally show ?thesis unfolding slice_take by simp
    qed
    have "checkedEnd (start + 1) k (length bs) = Done (start + 1 + k)"
      "checkedEnd (start + 1 + k) (length p) (length bs) = Done (start + 1 + k + length p)"
      unfolding checkedEnd_Done using len start by linarith+
    then show ?L unfolding next_long_def rl using p by (simp only: zbind.simps s1 s2 it c') simp }
qed

text \<open>The two descriptions of a long item: by its encoding, and by the parts the cursor cuts.\<close>

lemma long_form:
  assumes enc: "\<And>p t. length p \<le> usize_max \<Longrightarrow> enc p = b # t \<longleftrightarrow>
      56 \<le> length p \<and> length (min_be (length p)) = k \<and> t = min_be (length p) @ p"
    and small: "length D \<le> usize_max" and k: "k \<le> 8"
  shows "(\<exists>p r t. length p \<le> usize_max \<and> D = b # t @ r \<and> c' = \<lparr>cur_input = bs, cur_offset = start + 1 + length t\<rparr> \<and>
      enc p = b # t \<and> it = mk \<lparr>span_encoded = b # t, span_payload = p\<rparr>) \<longleftrightarrow>
    (\<exists>p r. D = b # min_be (length p) @ p @ r \<and> length (min_be (length p)) = k \<and> k \<le> 8 \<and> 56 \<le> length p \<and>
      it = mk \<lparr>span_encoded = b # min_be (length p) @ p, span_payload = p\<rparr> \<and>
      c' = \<lparr>cur_input = bs, cur_offset = start + 1 + k + length p\<rparr>)" (is "?L \<longleftrightarrow> ?R")
proof
  assume ?L
  then obtain p r t where l: "length p \<le> usize_max" "D = b # t @ r" "c' = \<lparr>cur_input = bs, cur_offset = start + 1 + length t\<rparr>"
    "enc p = b # t" "it = mk \<lparr>span_encoded = b # t, span_payload = p\<rparr>" by blast
  from l(4) enc [OF l(1)] have t: "56 \<le> length p" "length (min_be (length p)) = k" "t = min_be (length p) @ p" by simp_all
  have "D = b # min_be (length p) @ p @ r" "c' = \<lparr>cur_input = bs, cur_offset = start + 1 + k + length p\<rparr>"
    using l(2,3) t(2,3) by simp_all
  with l(5) t k show ?R by blast
next
  assume ?R
  then obtain p r where r: "D = b # min_be (length p) @ p @ r" "length (min_be (length p)) = k" "56 \<le> length p"
    "it = mk \<lparr>span_encoded = b # min_be (length p) @ p, span_payload = p\<rparr>"
    "c' = \<lparr>cur_input = bs, cur_offset = start + 1 + k + length p\<rparr>" by blast
  define t where "t = min_be (length p) @ p"
  have p: "length p \<le> usize_max" using arg_cong [OF r(1), of length] small by simp
  have "enc p = b # t" using enc [OF p] r(2,3) by (simp add: t_def)
  moreover have "D = b # t @ r" "c' = \<lparr>cur_input = bs, cur_offset = start + 1 + length t\<rparr>"
    using r by (simp_all add: t_def)
  ultimately show ?L using p r(4) unfolding t_def [symmetric] by blast
qed

lemma short_form:
  assumes enc: "\<And>p t. length p \<le> usize_max \<Longrightarrow> enc p = b # t \<longleftrightarrow> P p \<and> t = p"
    and small: "length D \<le> usize_max"
  shows "(\<exists>p r t. length p \<le> usize_max \<and> D = b # t @ r \<and> c' = \<lparr>cur_input = bs, cur_offset = start + 1 + length t\<rparr> \<and>
      enc p = b # t \<and> it = mk \<lparr>span_encoded = b # t, span_payload = p\<rparr>) \<longleftrightarrow>
    (\<exists>p r. D = b # p @ r \<and> P p \<and> it = mk \<lparr>span_encoded = b # p, span_payload = p\<rparr> \<and>
      c' = \<lparr>cur_input = bs, cur_offset = start + 1 + length p\<rparr>)" (is "?L \<longleftrightarrow> ?R")
proof
  assume ?R
  then obtain p r where r: "D = b # p @ r" "P p" "it = mk \<lparr>span_encoded = b # p, span_payload = p\<rparr>"
      "c' = \<lparr>cur_input = bs, cur_offset = start + 1 + length p\<rparr>" by blast
  have "length p \<le> usize_max" using arg_cong [OF r(1), of length] small by simp
  with r enc show ?L by blast
next
  assume ?L
  then obtain p r t where l: "length p \<le> usize_max" "D = b # t @ r" "c' = \<lparr>cur_input = bs, cur_offset = start + 1 + length t\<rparr>"
    "enc p = b # t" "it = mk \<lparr>span_encoded = b # t, span_payload = p\<rparr>" by blast
  have "P p \<and> t = p" using l(4) enc [OF l(1)] by simp
  with l(2,3,5) show ?R by blast
qed

definition item_of :: "bytes \<Rightarrow> item \<Rightarrow> bool" where
  "item_of e it \<longleftrightarrow> (\<exists>p. e = enc_bytes p \<and> it = BytesItem \<lparr>span_encoded = e, span_payload = p\<rparr> \<or>
     e = enc_list p \<and> it = ListItem \<lparr>span_encoded = e, span_payload = p\<rparr>)"

lemma byte_ranges: "(b :: u8) < 0x80 \<longleftrightarrow> unat b < 128" "b \<le> 0xb7 \<longleftrightarrow> unat b \<le> 183"
  "b \<le> 0xbf \<longleftrightarrow> unat b \<le> 191" "b \<le> 0xf7 \<longleftrightarrow> unat b \<le> 247"
  by (simp_all add: word_less_nat_alt word_le_nat_alt)

lemma cursor_next_short_bytes:
  assumes start: "start < length bs" and b: "128 \<le> unat (bs ! start)" "unat (bs ! start) \<le> 183"
  shows "cursor_next \<lparr>cur_input = bs, cur_offset = start\<rparr> = Done (it, c') \<longleftrightarrow>
    (\<exists>p r. drop start bs = bs ! start # p @ r \<and>
      (length p = unat (bs ! start) - 128 \<and> \<not> (length p = 1 \<and> p ! 0 < 0x80)) \<and> it = BytesItem \<lparr>span_encoded = bs ! start # p, span_payload = p\<rparr> \<and>
      c' = \<lparr>cur_input = bs, cur_offset = start + 1 + length p\<rparr>)"
proof -
  let ?n = "unat (bs ! start) - 128"
  have n: "unat (bs ! start - 0x80) = ?n" using b by (simp add: unat_sub word_le_nat_alt)
  have d: "drop start bs = bs ! start # drop (start + 1) bs" using start by (simp add: Cons_nth_drop_Suc)
  have nx: "cursor_next \<lparr>cur_input = bs, cur_offset = start\<rparr> =
    zbind (checkedEnd (start + 1) ?n (length bs)) (\<lambda>stop.
      zguard (?n = 1 \<and> slice bs (start + 1) stop ! 0 < 0x80) NonCanonicalSingleByte
      (Done (BytesItem \<lparr>span_encoded = slice bs start stop, span_payload = slice bs (start + 1) stop\<rparr>,
             \<lparr>cur_input = bs, cur_offset = stop\<rparr>)))"
    using start b by (simp add: cursor_next_def byte_ranges n Let_def)
  show ?thesis
  proof (cases "?n \<le> length bs - (start + 1)")
    case True
    have s1: "slice bs start (start + 1 + ?n) = bs ! start # take ?n (drop (start + 1) bs)"
      using d by (simp add: slice_def)
    have s2: "slice bs (start + 1) (start + 1 + ?n) = take ?n (drop (start + 1) bs)" by (rule slice_take)
    have ce: "checkedEnd (start + 1) ?n (length bs) = Done (start + 1 + ?n)" using True start by (simp add: zig_simps)
    have len: "?n \<le> length (drop (start + 1) bs)" using True by simp
    show ?thesis
      unfolding nx ce zbind.simps s1 s2 d list.inject simp_thms zguard_Done_iff
      using take_drop_ex [OF len, of "\<lambda>p. \<not> (length p = 1 \<and> p ! 0 < 0x80) \<and>
        it = BytesItem \<lparr>span_encoded = bs ! start # p, span_payload = p\<rparr> \<and>
        c' = \<lparr>cur_input = bs, cur_offset = start + 1 + length p\<rparr>"] len
      by auto
  next
    case False
    then have "\<not> (\<exists>p r. drop start bs = bs ! start # p @ r \<and> length p = ?n)"
      by (auto simp: d dest!: arg_cong [of _ _ length])
    moreover have "\<not> cursor_next \<lparr>cur_input = bs, cur_offset = start\<rparr> = Done (it, c')"
      unfolding nx using False by (auto simp: zig_simps)
    ultimately show ?thesis by blast
  qed
qed

lemma or_left: "(A \<longleftrightarrow> X) \<Longrightarrow> \<not> B \<Longrightarrow> (X \<longleftrightarrow> A \<or> B)"
  and or_right: "(B \<longleftrightarrow> X) \<Longrightarrow> \<not> A \<Longrightarrow> (X \<longleftrightarrow> A \<or> B)"
  by blast+

lemma cursor_next_Done:
  assumes start: "start < length bs" and max: "length bs \<le> usize_max"
  shows "cursor_next \<lparr>cur_input = bs, cur_offset = start\<rparr> = Done (it, c') \<longleftrightarrow>
    (\<exists>e r. drop start bs = e @ r \<and> item_of e it \<and> c' = \<lparr>cur_input = bs, cur_offset = start + length e\<rparr>)"
proof -
  let ?b = "bs ! start"
  have d: "drop start bs = ?b # drop (start + 1) bs" using start by (simp add: Cons_nth_drop_Suc)
  have small: "length (drop start bs) \<le> usize_max" using max by simp
  have smallb: "length p \<le> usize_max" if "drop start bs = enc_bytes p @ r" for p r
    using arg_cong [OF that, of length] max enc_longer(1) [of p] by simp
  have smalll: "length p \<le> usize_max" if "drop start bs = enc_list p @ r" for p r
    using arg_cong [OF that, of length] max enc_longer(2) [of p] by simp
  let ?enc = "\<lambda>enc mk. \<exists>p r t. length p \<le> usize_max \<and> drop start bs = ?b # t @ r \<and>
    c' = \<lparr>cur_input = bs, cur_offset = start + 1 + length t\<rparr> \<and>
    enc p = ?b # t \<and> it = mk \<lparr>span_encoded = ?b # t, span_payload = p\<rparr>"
  have R: "(\<exists>e r. drop start bs = e @ r \<and> item_of e it \<and> c' = \<lparr>cur_input = bs, cur_offset = start + length e\<rparr>) \<longleftrightarrow>
    ?enc enc_bytes BytesItem \<or> ?enc enc_list ListItem" (is "_ \<longleftrightarrow> ?R")
  proof
    assume "\<exists>e r. drop start bs = e @ r \<and> item_of e it \<and> c' = \<lparr>cur_input = bs, cur_offset = start + length e\<rparr>"
    then obtain e r where e: "drop start bs = e @ r" "item_of e it" "c' = \<lparr>cur_input = bs, cur_offset = start + length e\<rparr>"
      by blast
    have "e \<noteq> []" using e(2) enc_nonempty unfolding item_of_def by metis
    with e(1) obtain t where t: "e = ?b # t" using d by (cases e) auto
    with e(3) have c': "c' = \<lparr>cur_input = bs, cur_offset = start + 1 + length t\<rparr>" by simp
    from e(2) obtain p where p: "enc_bytes p = e \<and> it = BytesItem \<lparr>span_encoded = e, span_payload = p\<rparr> \<or>
      enc_list p = e \<and> it = ListItem \<lparr>span_encoded = e, span_payload = p\<rparr>" unfolding item_of_def by metis
    have "length p \<le> usize_max" using p e(1) smallb [of p r] smalll [of p r] by metis
    moreover have "drop start bs = ?b # t @ r" using e(1) t by simp
    ultimately show ?R using p c' unfolding t by blast
  next
    assume ?R
    then obtain p r t where R: "drop start bs = ?b # t @ r" "c' = \<lparr>cur_input = bs, cur_offset = start + 1 + length t\<rparr>"
      "enc_bytes p = ?b # t \<and> it = BytesItem \<lparr>span_encoded = ?b # t, span_payload = p\<rparr> \<or>
       enc_list p = ?b # t \<and> it = ListItem \<lparr>span_encoded = ?b # t, span_payload = p\<rparr>" by blast
    have "item_of (?b # t) it" using R(3) unfolding item_of_def by metis
    moreover have "drop start bs = (?b # t) @ r" using R(1) by simp
    moreover have "c' = \<lparr>cur_input = bs, cur_offset = start + length (?b # t)\<rparr>" using R(2) by simp
    ultimately show "\<exists>e r. drop start bs = e @ r \<and> item_of e it \<and> c' = \<lparr>cur_input = bs, cur_offset = start + length e\<rparr>"
      by blast
  qed
  consider "unat ?b < 128" | "128 \<le> unat ?b" "unat ?b \<le> 183" | "184 \<le> unat ?b" "unat ?b \<le> 191"
    | "192 \<le> unat ?b" "unat ?b \<le> 247" | "248 \<le> unat ?b" by linarith
  then have "cursor_next \<lparr>cur_input = bs, cur_offset = start\<rparr> = Done (it, c') \<longleftrightarrow> ?R"
  proof cases
    case 1
    have eb: "enc_bytes p = ?b # t \<longleftrightarrow> p = [?b] \<and> t = []" if "length p \<le> usize_max" for p t
      using 1 by (auto simp: enc_bytes_Cons [OF that])
    have el: "enc_list p \<noteq> ?b # t" if "length p \<le> usize_max" for p t
      using 1 by (auto simp: enc_list_Cons [OF that])
    have one: "length [?b] \<le> usize_max" by (simp add: usize_max_def)
    have "slice bs start (start + 1) = [?b]" by (simp only: slice_take d) simp
    then have "cursor_next \<lparr>cur_input = bs, cur_offset = start\<rparr> =
        Done (BytesItem \<lparr>span_encoded = [?b], span_payload = [?b]\<rparr>, \<lparr>cur_input = bs, cur_offset = start + 1\<rparr>)"
      using start 1 by (simp add: cursor_next_def byte_ranges Let_def)
    moreover have "?R \<longleftrightarrow> it = BytesItem \<lparr>span_encoded = [?b], span_payload = [?b]\<rparr> \<and>
        c' = \<lparr>cur_input = bs, cur_offset = start + 1\<rparr>"
    proof
      assume "it = BytesItem \<lparr>span_encoded = [?b], span_payload = [?b]\<rparr> \<and> c' = \<lparr>cur_input = bs, cur_offset = start + 1\<rparr>"
      moreover have "drop start bs = ?b # [] @ drop (start + 1) bs" using d by simp
      moreover have "start + 1 = start + 1 + length ([] :: bytes)" by simp
      ultimately show ?R using one eb [OF one, of "[]"] by metis
    qed (use eb el in auto)
    ultimately show ?thesis by auto
  next
    case 2
    have "enc_bytes p = ?b # t \<longleftrightarrow> (length p = unat ?b - 128 \<and> \<not> (length p = 1 \<and> p ! 0 < 0x80)) \<and> t = p"
      if "length p \<le> usize_max" for p t
      using 2 by (auto simp: enc_bytes_Cons [OF that])
    note sf = short_form [where enc = enc_bytes and b = ?b and mk = BytesItem
      and P = "\<lambda>p. length p = unat ?b - 128 \<and> \<not> (length p = 1 \<and> p ! 0 < 0x80)", OF this small]
    have form: "?enc enc_bytes BytesItem \<longleftrightarrow> cursor_next \<lparr>cur_input = bs, cur_offset = start\<rparr> = Done (it, c')"
      unfolding cursor_next_short_bytes [OF start 2] by (rule sf)
    have "enc_list p \<noteq> ?b # t" if "length p \<le> usize_max" for p t
      using 2 by (auto simp: enc_list_Cons [OF that])
    then have "\<not> ?enc enc_list ListItem" by blast
    then show ?thesis by (rule or_left [OF form])
  next
    case 3
    have "enc_bytes p = ?b # t \<longleftrightarrow> 56 \<le> length p \<and> length (min_be (length p)) = unat ?b - 183 \<and>
        t = min_be (length p) @ p" if "length p \<le> usize_max" for p t
      using 3 by (auto simp: enc_bytes_Cons [OF that])
    then have form: "?enc enc_bytes BytesItem \<longleftrightarrow> next_long BytesItem bs start (unat ?b - 183) = Done (it, c')"
      unfolding next_long_Done [OF start max] using 3 by (intro long_form [OF _ small]) auto
    have "enc_list p \<noteq> ?b # t" if "length p \<le> usize_max" for p t
      using 3 by (auto simp: enc_list_Cons [OF that])
    then have none: "\<not> ?enc enc_list ListItem" by blast
    have nx: "cursor_next \<lparr>cur_input = bs, cur_offset = start\<rparr> = next_long BytesItem bs start (unat ?b - 183)"
      using start 3 by (simp add: cursor_next_def byte_ranges Let_def unat_sub word_le_nat_alt)
    show ?thesis unfolding nx by (rule or_left [OF form none])
  next
    case 4
    have "enc_list p = ?b # t \<longleftrightarrow> length p = unat ?b - 192 \<and> t = p"
      if "length p \<le> usize_max" for p t
      using 4 by (auto simp: enc_list_Cons [OF that])
    note sf = short_form [where enc = enc_list and b = ?b and mk = ListItem
      and P = "\<lambda>p. length p = unat ?b - 192", OF this small]
    have form: "?enc enc_list ListItem \<longleftrightarrow> next_short ListItem bs start (unat ?b - 192) = Done (it, c')"
      unfolding next_short_Done [OF start] by (rule trans [OF sf]) (auto simp: d)
    have "enc_bytes p \<noteq> ?b # t" if "length p \<le> usize_max" for p t
      using 4 by (auto simp: enc_bytes_Cons [OF that])
    then have none: "\<not> ?enc enc_bytes BytesItem" by blast
    have nx: "cursor_next \<lparr>cur_input = bs, cur_offset = start\<rparr> = next_short ListItem bs start (unat ?b - 192)"
      using start 4 by (simp add: cursor_next_def byte_ranges Let_def unat_sub word_le_nat_alt)
    show ?thesis unfolding nx by (rule or_right [OF form none])
  next
    case 5
    have "enc_list p = ?b # t \<longleftrightarrow> 56 \<le> length p \<and> length (min_be (length p)) = unat ?b - 247 \<and>
        t = min_be (length p) @ p" if "length p \<le> usize_max" for p t
      using 5 by (auto simp: enc_list_Cons [OF that])
    moreover have "unat ?b - 247 \<le> 8" using u8_less [of ?b] by linarith
    ultimately have form: "?enc enc_list ListItem \<longleftrightarrow> next_long ListItem bs start (unat ?b - 247) = Done (it, c')"
      unfolding next_long_Done [OF start max] by (intro long_form [OF _ small]) auto
    have "enc_bytes p \<noteq> ?b # t" if "length p \<le> usize_max" for p t
      using 5 by (auto simp: enc_bytes_Cons [OF that])
    then have none: "\<not> ?enc enc_bytes BytesItem" by blast
    have nx: "cursor_next \<lparr>cur_input = bs, cur_offset = start\<rparr> = next_long ListItem bs start (unat ?b - 247)"
      using start 5 by (simp add: cursor_next_def byte_ranges Let_def unat_sub word_le_nat_alt)
    show ?thesis unfolding nx by (rule or_right [OF form none])
  qed
  with R show ?thesis by simp
qed

lemma parseExact_Done:
  assumes "length bs \<le> usize_max"
  shows "parseExact bs = Done it \<longleftrightarrow> item_of bs it"
proof (cases "bs = []")
  case True
  then show ?thesis using enc_nonempty
    by (auto simp: parseExact_def cursor_next_def cursor_init_def Let_def zig_simps item_of_def)
next
  case False
  then have next0: "cursor_next \<lparr>cur_input = bs, cur_offset = 0\<rparr> = Done (it, c') \<longleftrightarrow>
      (\<exists>e r. bs = e @ r \<and> item_of e it \<and> c' = \<lparr>cur_input = bs, cur_offset = length e\<rparr>)" for c'
    using cursor_next_Done [of 0 bs it c'] assms by simp
  have "parseExact bs = Done it \<longleftrightarrow>
      (\<exists>c'. cursor_next \<lparr>cur_input = bs, cur_offset = 0\<rparr> = Done (it, c') \<and> isDone c')"
    by (auto simp: parseExact_def cursor_init_def expectDone_def zig_simps split: prod.splits)
  also have "\<dots> \<longleftrightarrow> item_of bs it"
  proof
    assume "item_of bs it"
    then have "cursor_next \<lparr>cur_input = bs, cur_offset = 0\<rparr> = Done (it, \<lparr>cur_input = bs, cur_offset = length bs\<rparr>)"
      unfolding next0 by (intro exI [of _ bs] exI [of _ "[]"]) simp
    then show "\<exists>c'. cursor_next \<lparr>cur_input = bs, cur_offset = 0\<rparr> = Done (it, c') \<and> isDone c'"
      by (intro exI [of _ "\<lparr>cur_input = bs, cur_offset = length bs\<rparr>"]) (simp add: isDone_def)
  qed (auto simp: next0 isDone_def)
  finally show ?thesis .
qed

section \<open>Trees\<close>

datatype rlp = RBytes bytes | RList "rlp list"

fun encode :: "rlp \<Rightarrow> bytes" where
  "encode (RBytes p) = enc_bytes p"
| "encode (RList ts) = enc_list (concat (map encode ts))"

fun nodes :: "rlp \<Rightarrow> nat" where
  "nodes (RBytes p) = 1"
| "nodes (RList ts) = 1 + sum_list (map nodes ts)"

text \<open>How deep lists nest: a byte string has depth 0, an empty list depth 1.\<close>

fun depth :: "rlp \<Rightarrow> nat" where
  "depth (RBytes p) = 0"
| "depth (RList ts) = 1 + foldr max (map depth ts) 0"

lemma encode_nonempty [simp]: "encode t \<noteq> []"
  by (cases t) simp_all

lemma item_of_bytes: "item_of (enc_bytes p) (BytesItem \<lparr>span_encoded = enc_bytes p, span_payload = p\<rparr>)"
  and item_of_list: "item_of (enc_list p) (ListItem \<lparr>span_encoded = enc_list p, span_payload = p\<rparr>)"
  unfolding item_of_def by blast+

fun tree_item :: "rlp \<Rightarrow> item" where
  "tree_item (RBytes p) = BytesItem \<lparr>span_encoded = enc_bytes p, span_payload = p\<rparr>"
| "tree_item (RList ts) =
     ListItem \<lparr>span_encoded = encode (RList ts), span_payload = concat (map encode ts)\<rparr>"

lemma item_of_tree: "item_of (encode t) (tree_item t)"
  by (cases t) (simp_all add: item_of_bytes item_of_list)

definition cursor_ok :: "cursor \<Rightarrow> bool" where
  "cursor_ok c \<longleftrightarrow> cur_offset c \<le> length (cur_input c) \<and> length (cur_input c) \<le> usize_max"

definition rest :: "cursor \<Rightarrow> bytes" where
  "rest c = drop (cur_offset c) (cur_input c)"

lemma isDone_rest: "cursor_ok c \<Longrightarrow> isDone c \<longleftrightarrow> rest c = []"
  by (auto simp: isDone_def rest_def cursor_ok_def)

lemma cursor_next_rest:
  assumes ok: "cursor_ok c" and nd: "\<not> isDone c"
  shows "cursor_next c = Done (it, c') \<longleftrightarrow>
    (\<exists>e r. rest c = e @ r \<and> item_of e it \<and> c' = \<lparr>cur_input = cur_input c, cur_offset = cur_offset c + length e\<rparr>)"
proof -
  have "cursor_next c = cursor_next \<lparr>cur_input = cur_input c, cur_offset = cur_offset c\<rparr>" by (cases c) simp
  then show ?thesis using cursor_next_Done [of "cur_offset c" "cur_input c" it c'] ok nd
    by (simp add: cursor_ok_def isDone_def rest_def)
qed

lemma cursor_next_ok:
  assumes "cursor_ok c" "\<not> isDone c" "cursor_next c = Done (it, c')"
  shows "cursor_ok c'" "\<exists>e. rest c = e @ rest c' \<and> item_of e it"
proof -
  obtain e r where e: "rest c = e @ r" "item_of e it"
    and c': "c' = \<lparr>cur_input = cur_input c, cur_offset = cur_offset c + length e\<rparr>"
    using assms cursor_next_rest by blast
  have "length e \<le> length (cur_input c) - cur_offset c" using arg_cong [OF e(1), of length] by (simp add: rest_def)
  then show "cursor_ok c'" using assms(1) by (auto simp: c' cursor_ok_def)
  have "rest c' = drop (length e) (rest c)" by (simp add: c' rest_def add.commute)
  then have "rest c' = r" using e(1) by simp
  with e show "\<exists>e. rest c = e @ rest c' \<and> item_of e it" by blast
qed

text \<open>The first tree of the rest is what the cursor reads, and it is the only one.\<close>

lemma cursor_next_tree:
  assumes ok: "cursor_ok c" and r: "rest c = encode t @ r"
  obtains c' where "cursor_next c = Done (tree_item t, c')" "rest c' = r" "cursor_ok c'"
proof -
  have nd: "\<not> isDone c" using r by (simp add: isDone_rest [OF ok])
  let ?c = "\<lparr>cur_input = cur_input c, cur_offset = cur_offset c + length (encode t)\<rparr>"
  have n: "cursor_next c = Done (tree_item t, ?c)"
    unfolding cursor_next_rest [OF ok nd] using r item_of_tree by blast
  moreover have "rest ?c = drop (length (encode t)) (rest c)" by (simp add: rest_def add.commute)
  then have "rest ?c = r" using r by simp
  moreover have "cursor_ok ?c" by (rule cursor_next_ok(1) [OF ok nd n])
  ultimately show ?thesis using that by blast
qed

text \<open>What the loop should accept: a forest in the rest of every open list.\<close>

fun accepts :: "nat \<Rightarrow> nat \<Rightarrow> cursor list \<Rightarrow> nat \<Rightarrow> nat \<Rightarrow> bool" where
  "accepts L m [] items n = (n = items \<and> items \<le> m)"
| "accepts L m (c # cs) items n = (\<exists>ts. rest c = concat (map encode ts) \<and>
     foldr max (map depth ts) 0 + length cs \<le> L \<and> accepts L m cs (items + sum_list (map nodes ts)) n)"

lemma accepts_le: "accepts L m cs items n \<Longrightarrow> items \<le> n \<and> n \<le> m"
proof (induction cs arbitrary: items)
  case (Cons c cs)
  then obtain ts where "accepts L m cs (items + sum_list (map nodes ts)) n" by auto
  from Cons.IH [OF this] show ?case by simp
qed simp

lemma accepts_done:
  assumes "rest c = []"
  shows "accepts L m (c # cs) items n \<longleftrightarrow> length cs \<le> L \<and> accepts L m cs items n"
proof -
  have "concat (map encode ts) = [] \<longleftrightarrow> ts = []" for ts by (cases ts) simp_all
  then have "rest c = concat (map encode ts) \<longleftrightarrow> ts = []" for ts using assms by metis
  then show ?thesis by simp
qed

lemma accepts_bytes:
  assumes ok: "cursor_ok c" and nd: "\<not> isDone c" and n: "cursor_next c = Done (BytesItem s, c')"
  shows "accepts L m (c # cs) items k \<longleftrightarrow> accepts L m (c' # cs) (items + 1) k"
proof
  assume "accepts L m (c # cs) items k"
  then obtain ts where ts: "rest c = concat (map encode ts)" "foldr max (map depth ts) 0 + length cs \<le> L"
    "accepts L m cs (items + sum_list (map nodes ts)) k" by auto
  obtain t us where t: "ts = t # us" using ts(1) nd by (cases ts) (auto simp: isDone_rest [OF ok])
  then obtain c'' where c'': "cursor_next c = Done (tree_item t, c'')" "rest c'' = concat (map encode us)"
    using cursor_next_tree [OF ok, of t "concat (map encode us)"] ts(1) by auto
  then have "c'' = c'" "tree_item t = BytesItem s" using n by simp_all
  moreover then obtain p where "t = RBytes p" by (cases t) auto
  ultimately show "accepts L m (c' # cs) (items + 1) k"
    using ts(2,3) c''(2) t by (auto intro!: exI [of _ us])
next
  assume "accepts L m (c' # cs) (items + 1) k"
  then obtain us where us: "rest c' = concat (map encode us)" "foldr max (map depth us) 0 + length cs \<le> L"
    "accepts L m cs (items + 1 + sum_list (map nodes us)) k" by auto
  obtain e where "rest c = e @ rest c'" "item_of e (BytesItem s)" using cursor_next_ok(2) [OF ok nd n] by blast
  then obtain p where "rest c = enc_bytes p @ rest c'" by (auto simp: item_of_def)
  then show "accepts L m (c # cs) items k" using us by (auto intro!: exI [of _ "RBytes p # us"])
qed

lemma accepts_list:
  assumes ok: "cursor_ok c" and nd: "\<not> isDone c" and n: "cursor_next c = Done (ListItem s, c')"
  shows "accepts L m (c # cs) items k \<longleftrightarrow> accepts L m (cursor_init (span_payload s) # c' # cs) (items + 1) k"
proof
  assume "accepts L m (c # cs) items k"
  then obtain ts where ts: "rest c = concat (map encode ts)" "foldr max (map depth ts) 0 + length cs \<le> L"
    "accepts L m cs (items + sum_list (map nodes ts)) k" by auto
  obtain t us where t: "ts = t # us" using ts(1) nd by (cases ts) (auto simp: isDone_rest [OF ok])
  then obtain c'' where c'': "cursor_next c = Done (tree_item t, c'')" "rest c'' = concat (map encode us)"
    using cursor_next_tree [OF ok, of t "concat (map encode us)"] ts(1) by auto
  then have e: "c'' = c'" "tree_item t = ListItem s" using n by simp_all
  then obtain vs where v: "t = RList vs" by (cases t) auto
  have "rest (cursor_init (span_payload s)) = concat (map encode vs)"
    using e(2) by (auto simp: v rest_def cursor_init_def)
  moreover have "foldr max (map depth vs) 0 + length (c' # cs) \<le> L" using ts(2) by (simp add: t v)
  moreover have "accepts L m (c' # cs) (items + 1 + sum_list (map nodes vs)) k"
    using ts(2,3) c''(2) e(1) by (auto simp: t v add.assoc intro!: exI [of _ us])
  ultimately show "accepts L m (cursor_init (span_payload s) # c' # cs) (items + 1) k"
    unfolding accepts.simps(2) [of L m "cursor_init (span_payload s)"] by blast
next
  assume "accepts L m (cursor_init (span_payload s) # c' # cs) (items + 1) k"
  then obtain vs where vs: "rest (cursor_init (span_payload s)) = concat (map encode vs)"
    "foldr max (map depth vs) 0 + length (c' # cs) \<le> L"
    "accepts L m (c' # cs) (items + 1 + sum_list (map nodes vs)) k"
    unfolding accepts.simps(2) [of L m "cursor_init (span_payload s)"] by blast
  then obtain us where us: "rest c' = concat (map encode us)" "foldr max (map depth us) 0 + length cs \<le> L"
    "accepts L m cs (items + 1 + sum_list (map nodes vs) + sum_list (map nodes us)) k" by auto
  obtain e where e: "rest c = e @ rest c'" "item_of e (ListItem s)" using cursor_next_ok(2) [OF ok nd n] by blast
  then have "e = enc_list (span_payload s)" by (auto simp: item_of_def)
  moreover have "span_payload s = concat (map encode vs)" using vs(1) by (simp add: rest_def cursor_init_def)
  ultimately have "rest c = concat (map encode (RList vs # us))" using e(1) us(1) by simp
  then show "accepts L m (c # cs) items k" using us(2,3) vs(2)
    unfolding accepts.simps(2) [of L m c] by (intro exI [of _ "RList vs # us"]) (simp add: add.assoc)
qed

lemma validate_loop_accepts:
  "cursor_ok cur \<Longrightarrow> list_all cursor_ok (take saved stack) \<Longrightarrow> saved \<le> length stack \<Longrightarrow>
   items \<le> m \<Longrightarrow> m \<le> usize_max \<Longrightarrow>
   validate_loop m cur stack saved items = Done n \<longleftrightarrow>
   accepts (length stack) m (cur # rev (take saved stack)) items n"
proof (induction m cur stack saved items rule: validate_loop.induct)
  case (1 m cur stack saved items)
  note ok = 1(4) and oks = 1(5) and room = 1(6) and le = 1(7) and max = 1(8)
  let ?cs = "rev (take saved stack)"
  have len: "length ?cs = saved" using room by simp
  show ?case
  proof (cases "isDone cur")
    case True
    then have r: "rest cur = []" by (simp add: isDone_rest [OF ok])
    show ?thesis
    proof (cases "saved = 0")
      case zero: True
      then have "accepts (length stack) m (cur # ?cs) items n \<longleftrightarrow> n = items"
        unfolding accepts_done [OF r] using le by simp
      moreover have "validate_loop m cur stack saved items = Done items"
        using True zero by (subst validate_loop.simps) simp
      ultimately show ?thesis by auto
    next
      case False
      then obtain k where k: "saved = Suc k" by (cases saved) auto
      have tk: "take saved stack = take k stack @ [stack ! k]" using room by (simp add: k take_Suc_conv_app_nth)
      have ok': "cursor_ok (stack ! (saved - 1))" "list_all cursor_ok (take (saved - 1) stack)"
        using oks by (simp_all add: tk) (simp_all add: k)
      have k1: "saved - 1 < length stack" using room k by simp
      have "validate_loop m cur stack saved items = validate_loop m (stack ! (saved - 1)) stack (saved - 1) items"
        using True False k1 by (subst validate_loop.simps) simp
      moreover have "saved - 1 \<le> length stack" using room by simp
      ultimately show ?thesis
        using 1(1) [OF True False k1 ok' _ le max] accepts_done [OF r, of "length stack" m ?cs items n] room
        by (simp add: tk) (simp add: k)
    qed
  next
    case nd: False
    show ?thesis
    proof (cases "cursor_next cur")
      case (Done x)
      obtain child cur' where x: "x = (child, cur')" by (cases x)
      note nxt = Done [unfolded x]
      have ok': "cursor_ok cur'" by (rule cursor_next_ok(1) [OF ok nd nxt])
      show ?thesis
      proof (cases "items + 1 \<le> m")
        case False
        then have "validate_loop m cur stack saved items = Fails ValidationItemLimitExceeded"
          using nd nxt by (subst validate_loop.simps) simp
        moreover have "\<not> accepts (length stack) m (cur # ?cs) items n"
        proof (cases child)
          case (BytesItem s)
          show ?thesis unfolding accepts_bytes [OF ok nd nxt [unfolded BytesItem]]
            using False accepts_le by fastforce
        next
          case (ListItem s)
          show ?thesis unfolding accepts_list [OF ok nd nxt [unfolded ListItem]]
            using False accepts_le by fastforce
        qed
        ultimately show ?thesis by simp
      next
        case True
        then have g: "\<not> usize_max < items + 1" "\<not> m < items + 1" using max by simp_all
        show ?thesis
        proof (cases child)
          case (BytesItem s)
          have "validate_loop m cur stack saved items = validate_loop m cur' stack saved (items + 1)"
            using nd nxt g by (subst validate_loop.simps) (simp add: BytesItem)
          then show ?thesis
            using 1(2) [OF nd Done x [symmetric] g BytesItem ok' oks room True max]
            by (simp only: accepts_bytes [OF ok nd nxt [unfolded BytesItem]])
        next
          case (ListItem s)
          note al = accepts_list [OF ok nd nxt [unfolded ListItem]]
          show ?thesis
          proof (cases "saved = length stack")
            case full: True
            then have "validate_loop m cur stack saved items = Fails ValidationDepthExceeded"
              using nd nxt g by (subst validate_loop.simps) (simp add: ListItem)
            moreover have "\<not> accepts (length stack) m (cur # ?cs) items n"
              unfolding al using full len by simp
            ultimately show ?thesis by simp
          next
            case False
            then have s: "saved < length stack" using room by simp
            let ?stack = "stack[saved := cur']" and ?cur = "cursor_init (span_payload s)"
            have tk: "take (saved + 1) ?stack = take saved stack @ [cur']"
              using s by (simp add: take_Suc_conv_app_nth)
            have "length (span_payload s) \<le> usize_max"
              using cursor_next_ListItem [OF nxt [unfolded ListItem]] ok
              unfolding cursor_ok_def remaining_def by linarith
            then have "cursor_ok ?cur" by (simp add: cursor_ok_def cursor_init_def)
            moreover have "list_all cursor_ok (take (saved + 1) ?stack)" using oks ok' by (simp add: tk del: One_nat_def)
            moreover have "saved + 1 \<le> length ?stack" using s by simp
            ultimately have IH: "validate_loop m ?cur ?stack (saved + 1) (items + 1) = Done n \<longleftrightarrow>
                accepts (length ?stack) m (?cur # rev (take (saved + 1) ?stack)) (items + 1) n"
              using 1(3) [OF nd Done x [symmetric] g ListItem False s] True max by blast
            have "validate_loop m cur stack saved items = validate_loop m ?cur ?stack (saved + 1) (items + 1)"
              using nd nxt g False s by (subst validate_loop.simps) (simp add: ListItem)
            then show ?thesis unfolding al using IH unfolding tk by simp
          qed
        qed
      qed
    next
      case (Fails e)
      have "\<not> accepts (length stack) m (cur # ?cs) items n"
      proof
        assume "accepts (length stack) m (cur # ?cs) items n"
        then obtain ts where ts: "rest cur = concat (map encode ts)" by auto
        then obtain t us where "ts = t # us" using nd by (cases ts) (auto simp: isDone_rest [OF ok])
        with ts show False using cursor_next_tree [OF ok, of t "concat (map encode us)"] Fails by auto
      qed
      then show ?thesis using nd Fails by (subst validate_loop.simps) simp
    next
      case Trap
      have "\<not> accepts (length stack) m (cur # ?cs) items n"
      proof
        assume "accepts (length stack) m (cur # ?cs) items n"
        then obtain ts where ts: "rest cur = concat (map encode ts)" by auto
        then obtain t us where "ts = t # us" using nd by (cases ts) (auto simp: isDone_rest [OF ok])
        with ts show False using cursor_next_tree [OF ok, of t "concat (map encode us)"] Trap by auto
      qed
      then show ?thesis using nd Trap by (subst validate_loop.simps) simp
    qed
  qed
qed

lemma validateExactCounted_Done:
  assumes bs: "length bs \<le> usize_max" and m: "m \<le> usize_max"
  shows "validateExactCounted bs stack m = Done n \<longleftrightarrow>
    (\<exists>t. bs = encode t \<and> n = nodes t \<and> nodes t \<le> m \<and> depth t \<le> length stack + 1)"
proof -
  have loop: "validate_loop m (cursor_init p) stack 0 1 = Done n \<longleftrightarrow>
      (\<exists>ts. p = concat (map encode ts) \<and> n = nodes (RList ts) \<and> n \<le> m \<and> depth (RList ts) \<le> length stack + 1)"
    if "length p \<le> usize_max" "m \<noteq> 0" for p
    using validate_loop_accepts [of "cursor_init p" 0 stack 1 m n] that m
    by (auto simp: cursor_ok_def cursor_init_def rest_def)
  show ?thesis
  proof
    assume "validateExactCounted bs stack m = Done n"
    then obtain it where it: "parseExact bs = Done it" "m \<noteq> 0"
      "(if \<not> is_list it then Done 1 else zbind (listCursor it) (\<lambda>cur. validate_loop m cur stack 0 1)) = Done n"
      by (auto simp: validateExactCounted_def zig_simps)
    then obtain p where "bs = enc_bytes p \<and> it = BytesItem \<lparr>span_encoded = bs, span_payload = p\<rparr> \<or>
        bs = enc_list p \<and> it = ListItem \<lparr>span_encoded = bs, span_payload = p\<rparr>"
      by (auto simp: parseExact_Done [OF bs] item_of_def)
    then show "\<exists>t. bs = encode t \<and> n = nodes t \<and> nodes t \<le> m \<and> depth t \<le> length stack + 1"
    proof
      assume "bs = enc_bytes p \<and> it = BytesItem \<lparr>span_encoded = bs, span_payload = p\<rparr>"
      with it(2,3) show ?thesis by (intro exI [of _ "RBytes p"]) (simp add: is_list_def)
    next
      assume l: "bs = enc_list p \<and> it = ListItem \<lparr>span_encoded = bs, span_payload = p\<rparr>"
      then have "length p \<le> usize_max" using enc_longer(2) [of p] bs by simp
      from loop [OF this it(2)] l it(3) obtain ts where "p = concat (map encode ts)" "n = nodes (RList ts)" "n \<le> m"
        "depth (RList ts) \<le> length stack + 1" by (auto simp: is_list_def listCursor_def)
      with l show ?thesis by (intro exI [of _ "RList ts"]) simp
    qed
  next
    assume "\<exists>t. bs = encode t \<and> n = nodes t \<and> nodes t \<le> m \<and> depth t \<le> length stack + 1"
    then obtain t where t: "bs = encode t" "n = nodes t" "nodes t \<le> m" "depth t \<le> length stack + 1" by blast
    have pe: "parseExact bs = Done (tree_item t)" using parseExact_Done [OF bs] item_of_tree t(1) by metis
    have m0: "m \<noteq> 0" using t(3) by (cases t) auto
    show "validateExactCounted bs stack m = Done n"
    proof (cases t)
      case (RBytes p)
      then show ?thesis using pe m0 t(2) by (simp add: validateExactCounted_def is_list_def)
    next
      case (RList ts)
      have "length (concat (map encode ts)) \<le> usize_max"
        using enc_longer(2) [of "concat (map encode ts)"] bs by (simp add: t(1) RList)
      from loop [OF this m0] t RList have "validate_loop m (cursor_init (concat (map encode ts))) stack 0 1 = Done n"
        by blast
      then show ?thesis using pe m0 by (simp add: validateExactCounted_def is_list_def listCursor_def RList)
    qed
  qed
qed

section \<open>Reading what the writers write\<close>

text \<open>An allocating writer that never runs out of memory writes the encoding, or refuses a
  payload no slice can have.\<close>

lemma allocating_emits:
  assumes "emits (\<lambda>_. True) f e"
  shows "allOrNothing f (Allocating []) = (Allocating e, None)"
proof -
  note F = assms [unfolded emits_def, rule_format, of "Allocating []"]
  obtain w' r where fw: "f (Allocating []) = (w', r)" by fastforce
  have "r = None" using F by (simp add: fw)
  moreover obtain out where "w' = Allocating out" using F by (cases w') (simp_all add: fw)
  ultimately show ?thesis using F by (simp add: allOrNothing_def fw written_def)
qed

lemma writer_step_fails: "snd (f w) \<noteq> None \<Longrightarrow> snd (wthen f g w) \<noteq> None"
  by (auto simp: wthen_def split: prod.splits option.splits)

lemma allOrNothing_fails: "snd (f w) \<noteq> None \<Longrightarrow> snd (allOrNothing f w) \<noteq> None"
  by (auto simp: allOrNothing_def split: prod.splits option.splits)

lemma prefix_too_long: "usize_max < n \<Longrightarrow> snd (writeLengthPrefix can_hold a b n w) \<noteq> None"
  by (auto simp: writeLengthPrefix_def lengthByteCount_def usize_max_def)

lemma writer_bytes_eq: "writer_bytes (\<lambda>_. True) p (Allocating []) = (Allocating bs, None) \<longleftrightarrow>
    length p \<le> usize_max \<and> bs = enc_bytes p"
proof (cases "length p \<le> usize_max")
  case True
  then show ?thesis by (auto simp: writer_bytes_def allocating_emits [OF emits_writeBytes])
next
  case False
  then have "length p \<noteq> 1" by (auto simp: usize_max_def)
  then have "snd (writer_bytes (\<lambda>_. True) p (Allocating [])) \<noteq> None"
    unfolding writer_bytes_def writeBytes_def using False
    by (intro allOrNothing_fails) (simp only: if_False simp_thms writer_step_fails prefix_too_long not_le)
  with False show ?thesis by (metis snd_conv)
qed

lemma writer_list_eq: "writer_listPayload (\<lambda>_. True) p (Allocating []) = (Allocating bs, None) \<longleftrightarrow>
    length p \<le> usize_max \<and> bs = enc_list p"
proof (cases "length p \<le> usize_max")
  case True
  then show ?thesis by (auto simp: writer_listPayload_def allocating_emits [OF emits_writeListPayload])
next
  case False
  then have "snd (writer_listPayload (\<lambda>_. True) p (Allocating [])) \<noteq> None"
    unfolding writer_listPayload_def writeListPayload_def
    by (intro allOrNothing_fails writer_step_fails prefix_too_long) simp
  with False show ?thesis by (metis snd_conv)
qed

lemma writer_int_eq: "unat v < 2 ^ w \<Longrightarrow> writer_int (\<lambda>_. True) w v (Allocating []) = (Allocating bs, None) \<longleftrightarrow>
    bs = enc_bytes (min_be (unat v))"
  by (auto simp: writer_int_def allocating_emits [OF emits_writeInt])

lemma byteLen_bound: "w \<le> 256 \<Longrightarrow> byteLen w \<le> 32"
  unfolding byteLen_def by linarith

lemma asInt_Done:
  assumes w: "w \<le> 256"
  shows "asInt w (BytesItem s) = Done v \<longleftrightarrow> span_payload s = min_be (unat v) \<and> unat v < 2 ^ w"
proof (cases "span_payload s = []")
  case True
  have "min_be (unat v) = [] \<longleftrightarrow> v = 0"
    using min_be_nonzero [of "unat v"] by (cases "v = 0") (auto simp: unat_eq_0)
  with True show ?thesis by (auto simp: asInt_def asBytes_def)
next
  case False
  let ?p = "span_payload s"
  have val: "unat (be_word ?p :: u256) = be_val ?p" if "length ?p \<le> byteLen w"
  proof -
    have "be_val ?p < 256 ^ length ?p" by (rule be_val_less)
    also have "\<dots> \<le> 256 ^ 32" using that byteLen_bound [OF w] by (intro power_increasing) simp_all
    finally show ?thesis by (intro unat_be_word) simp
  qed
  have len: "length ?p \<le> byteLen w" if "?p = min_be (unat v)" "unat v < 2 ^ w"
  proof -
    have "w \<le> 8 * byteLen w" unfolding byteLen_def by linarith
    then have "(2 :: nat) ^ w \<le> 2 ^ (8 * byteLen w)" by (intro power_increasing) simp_all
    with that(2) have "unat v < 256 ^ byteLen w" by (simp add: power_mult)
    then show ?thesis unfolding that(1) length_min_be_le .
  qed
  have "asInt w (BytesItem s) = Done v \<longleftrightarrow>
      ?p ! 0 \<noteq> 0 \<and> length ?p \<le> byteLen w \<and> be_word ?p = v \<and> unat v < 2 ^ w"
    using False by (auto simp: asInt_def asBytes_def zig_simps Let_def split: if_splits)
  also have "\<dots> \<longleftrightarrow> ?p ! 0 \<noteq> 0 \<and> length ?p \<le> byteLen w \<and> be_val ?p = unat v \<and> unat v < 2 ^ w"
    using val by (metis word_unat_eq_iff)
  also have "\<dots> \<longleftrightarrow> ?p = min_be (unat v) \<and> unat v < 2 ^ w"
    using len False min_be_eq_iff [of "unat v" ?p] by metis
  finally show ?thesis .
qed

text \<open>The prefix buffer of nine bytes is always large enough.\<close>

lemma listPrefix_enc: "n \<le> usize_max \<Longrightarrow> listPrefix n = Done (enc_prefix 192 247 n)"
proof -
  assume n: "n \<le> usize_max"
  let ?w = "Borrowed (replicate 9 0) 0"
  obtain w' r where f: "writeLengthPrefix (\<lambda>_. False) 0xc0 0xf7 n ?w = (w', r)" by fastforce
  have "emits (\<lambda>_. False) (writeLengthPrefix (\<lambda>_. False) 0xc0 0xf7 n) (enc_prefix 192 247 n)"
    using emits_writeLengthPrefix [OF n, of "\<lambda>_. False" 192 247] by simp
  note F = this [unfolded emits_def, rule_format, of ?w, unfolded f fst_conv snd_conv]
  have "length (enc_prefix 192 247 n) \<le> 9"
    using length_min_be_usize [OF n] by (simp add: enc_prefix_def)
  then have "r = None" using F by simp
  with F show ?thesis by (simp add: listPrefix_def f written_def)
qed

end
