(* ===== verification/Zig_Properties.thy ===== *)
theory Zig_Properties
  imports Zig_Jumpdest_Walks Zig_Rlp_Trees
begin

text \<open>
  The properties of the jump destination scans and of the RLP decoder and encoder.
\<close>

section \<open>Jump destinations\<close>

text \<open>
  C2: on every code, the scan of every build (serial, or block scan on either processor) returns
  without a failed check the very bit set that the linear reference of the tests marks: the
  pointer doubling, the skipped last round, the walk over the groups, the carry between blocks
  and the zero padding lose and invent nothing.
\<close>

theorem jumpdest_scans_agree:
  "\<exists>m. (markJumpDests block_scan (bits_initEmpty (length bs)) bs :: ('e, bit_set) outcome) = Done m \<and>
       (markLinear (bits_initEmpty (length bs)) bs :: ('e, bit_set) outcome) = Done m"
proof -
  let ?n = "(length bs + 63) div 64"
  obtain ms where ms: "(markJumpDests block_scan (bits_initEmpty (length bs)) bs :: ('e, bit_set) outcome) =
      Done \<lparr>bit_length = length bs, masks = ms\<rparr>" "length ms = ?n"
    "\<And>t. t < 64 * ?n \<Longrightarrow> mask_bit ms t \<longleftrightarrow> marks bs t"
    by (rule markJumpDests_initEmpty) blast
  obtain ms' where ms': "(markLinear (bits_initEmpty (length bs)) bs :: ('e, bit_set) outcome) =
      Done \<lparr>bit_length = length bs, masks = ms'\<rparr>" "length ms' = ?n"
    "\<And>t. t < 64 * ?n \<Longrightarrow> mask_bit ms' t \<longleftrightarrow> marks bs t"
    by (rule markLinear_initEmpty) blast
  have "ms = ms'" using mask_bits_eq [of ms ms'] ms(2,3) ms'(2,3) by simp
  with ms(1) ms'(1) show ?thesis by simp
qed

text \<open>
  C13: an analysis that gets its memory succeeds in every build, and the map then accepts a jump
  target exactly when the target lies in the code, holds a JUMPDEST, and an instruction starts
  there: never inside the immediate of a PUSH.
\<close>

theorem jump_targets_exact:
  "\<exists>m. analyze block_scan False empty_map bs = Done m \<and> analyzed m \<and>
    (\<forall>t. (isValidPrepared m bs t :: ('e, bool) outcome) =
      Done (t < length bs \<and> bs ! t = JUMPDEST \<and> instr_start bs t))"
proof (cases "length bs = 0")
  case True
  then show ?thesis by (simp add: analyze_def empty_map_def isValidPrepared_def)
next
  case False
  let ?n = "(length bs + 63) div 64"
  obtain ms where ms: "(markJumpDests block_scan (bits_initEmpty (length bs)) bs :: (alloc_error, bit_set) outcome) =
      Done \<lparr>bit_length = length bs, masks = ms\<rparr>"
    "\<And>t. t < 64 * ?n \<Longrightarrow> mask_bit ms t \<longleftrightarrow> marks bs t"
    by (rule markJumpDests_initEmpty) blast
  have "mask_bit ms t \<longleftrightarrow> marks bs t" if "t < length bs" for t
    using ms(2) that initEmpty_covers [of "length bs"] by simp
  then show ?thesis
    using False by (auto simp: analyze_def empty_map_def ms(1) isValidPrepared_def bits_isSet_def marks_def)
qed

section \<open>RLP\<close>

text \<open>
  C7: the validation without recursion accepts an input, and counts \<open>n\<close> items in it, exactly when
  the input is the canonical encoding of a tree of \<open>n\<close> nodes, within the limit, whose lists nest at
  most one deeper than the stack has slots.
\<close>

theorem rlp_validation_exact:
  assumes "length bs \<le> usize_max" and "max_items \<le> usize_max"
  shows "validateExactCounted bs stack max_items = Done n \<longleftrightarrow>
    (\<exists>t. bs = encode t \<and> n = nodes t \<and> nodes t \<le> max_items \<and> depth t \<le> length stack + 1)"
  by (rule validateExactCounted_Done [OF assms])

theorem rlp_validation_exact_witness:
  "validateExactCounted [0xc2, 0x80, 0xc0] [cursor_init []] 3 = Done 3"
proof -
  have "[0xc2, 0x80, 0xc0] = encode (RList [RBytes [], RList []]) \<and> 3 = nodes (RList [RBytes [], RList []]) \<and>
      nodes (RList [RBytes [], RList []]) \<le> 3 \<and> depth (RList [RBytes [], RList []]) \<le> length [cursor_init []] + 1"
    by (simp add: enc_bytes_def enc_list_def enc_prefix_def)
  then have "\<exists>t. [0xc2, 0x80, 0xc0] = encode t \<and> 3 = nodes t \<and> nodes t \<le> 3 \<and> depth t \<le> length [cursor_init []] + 1"
    by (rule exI)
  then show ?thesis
    by (rule rlp_validation_exact [THEN iffD2, rotated 2]) (simp_all add: usize_max_def)
qed

text \<open>
  C15: the strict parser accepts a whole input as a byte string with a given payload exactly when
  the input is what the writer writes for that payload, and as a list exactly when it is what the
  writer writes for that list payload: every other spelling of a length is refused.
\<close>

theorem rlp_parse_strict:
  assumes "length bs \<le> usize_max"
  shows "(parseExact bs = Done (BytesItem s) \<longleftrightarrow> span_encoded s = bs \<and>
      writer_bytes (\<lambda>_. True) (span_payload s) (Allocating []) = (Allocating bs, None)) \<and>
    (parseExact bs = Done (ListItem s) \<longleftrightarrow> span_encoded s = bs \<and>
      writer_listPayload (\<lambda>_. True) (span_payload s) (Allocating []) = (Allocating bs, None))"
  unfolding parseExact_Done [OF assms] writer_bytes_eq writer_list_eq
  using assms enc_longer(1) [of "span_payload s"] enc_longer(2) [of "span_payload s"]
  by (cases s) (auto simp: item_of_def)

theorem rlp_parse_strict_witness:
  "parseExact [0x82, 1, 2] = Done (BytesItem \<lparr>span_encoded = [0x82, 1, 2], span_payload = [1, 2]\<rparr>)"
proof -
  have "writer_bytes (\<lambda>_. True) [1, 2] (Allocating []) = (Allocating [0x82, 1, 2], None)"
    by (simp add: writer_bytes_eq enc_bytes_def enc_prefix_def usize_max_def)
  then show ?thesis
    using rlp_parse_strict [of "[0x82, 1, 2]" "\<lparr>span_encoded = [0x82, 1, 2], span_payload = [1, 2]\<rparr>"]
    by (simp add: usize_max_def)
qed

text \<open>
  Reading an unsigned integer of \<open>w\<close> bits from a whole input gives \<open>v\<close> exactly when the input is
  what the writer writes for the integer \<open>v\<close> of that width: the round trip, and no leading zero
  or oversized number is read.
\<close>

theorem rlp_int_roundtrip:
  assumes "length bs \<le> usize_max" and "w \<le> 256" and "unat v < 2 ^ w"
  shows "zbind (parseExact bs) (asInt w) = Done v \<longleftrightarrow>
    writer_int (\<lambda>_. True) w v (Allocating []) = (Allocating bs, None)"
proof -
  have list: "asInt w (ListItem s) \<noteq> Done v" for s by (simp add: asInt_def asBytes_def)
  have "zbind (parseExact bs) (asInt w) = Done v \<longleftrightarrow> (\<exists>s. item_of bs (BytesItem s) \<and> span_payload s = min_be (unat v))"
    using list assms(3) unfolding zbind_Done_iff parseExact_Done [OF assms(1)]
    by (metis asInt_Done [OF assms(2)] item.exhaust)
  also have "\<dots> \<longleftrightarrow> bs = enc_bytes (min_be (unat v))"
  proof
    assume "bs = enc_bytes (min_be (unat v))"
    then show "\<exists>s. item_of bs (BytesItem s) \<and> span_payload s = min_be (unat v)"
      using item_of_bytes [of "min_be (unat v)"] by (intro exI conjI) auto
  qed (auto simp: item_of_def)
  finally show ?thesis unfolding writer_int_eq [OF assms(3)] .
qed

theorem rlp_int_roundtrip_witness:
  "zbind (parseExact [0x82, 4, 0]) (asInt 16) = Done 1024"
proof -
  have "min_be 1024 = [4, 0]" by (simp add: min_be_eq_iff)
  then have "writer_int (\<lambda>_. True) 16 1024 (Allocating []) = (Allocating [0x82, 4, 0], None)"
    by (simp add: writer_int_eq enc_bytes_def enc_prefix_def)
  then show ?thesis using rlp_int_roundtrip [of "[0x82, 4, 0]" 16 1024] by (simp add: usize_max_def)
qed

text \<open>
  C23: a writer over a caller's buffer appends a whole byte string or list when its encoding fits in
  the space left, and otherwise reports it and leaves the written bytes as they were, whatever
  part of the item it had already copied.
\<close>

theorem rlp_writer_all_or_nothing:
  assumes "len \<le> length buffer" and "length payload \<le> usize_max"
  shows "(let r = writer_bytes can_hold payload (Borrowed buffer len) in
      if len + length (enc_bytes payload) \<le> length buffer
      then snd r = None \<and> written (fst r) = take len buffer @ enc_bytes payload
      else snd r = Some NoSpaceLeft \<and> written (fst r) = take len buffer) \<and>
    (let r = writer_listPayload can_hold payload (Borrowed buffer len) in
      if len + length (enc_list payload) \<le> length buffer
      then snd r = None \<and> written (fst r) = take len buffer @ enc_list payload
      else snd r = Some NoSpaceLeft \<and> written (fst r) = take len buffer)"
proof -
  have "let r = allOrNothing f (Borrowed buffer len) in
      if len + length e \<le> length buffer then snd r = None \<and> written (fst r) = take len buffer @ e
      else snd r = Some NoSpaceLeft \<and> written (fst r) = take len buffer" if "emits can_hold f e" for f e
  proof -
    have w: "writer_ok (Borrowed buffer len)" using assms(1) by simp
    note A = allOrNothing_emits [OF that w]
    show ?thesis
      using A(1) A(2) A(3) A(4) A(5) [OF _ refl]
      by (cases "snd (allOrNothing f (Borrowed buffer len))") (auto simp: Let_def written_def)
  qed
  then show ?thesis unfolding writer_bytes_def writer_listPayload_def
    using emits_writeBytes [OF assms(2)] emits_writeListPayload [OF assms(2)] by blast
qed

theorem rlp_writer_all_or_nothing_witness:
  "snd (writer_bytes (\<lambda>_. True) [1, 2] (Borrowed [7, 0, 0] 1)) = Some NoSpaceLeft \<and>
   written (fst (writer_bytes (\<lambda>_. True) [1, 2] (Borrowed [7, 0, 0] 1))) = [7]"
  using rlp_writer_all_or_nothing [of 1 "[7, 0, 0]" "[1, 2]" "\<lambda>_. True", THEN conjunct1]
  by (simp add: usize_max_def enc_bytes_def enc_prefix_def Let_def)

end
