(* ===== verification/Zig_Fees.thy ===== *)
theory Zig_Fees
  imports Zig_Words
begin

text \<open>
  Fee arithmetic: the blob schedule of \<^verbatim>\<open>src/src/transaction/blob.zig\<close> with its integer
  approximation of an exponential, the base fee and the gas limit window of
  \<^verbatim>\<open>src/src/eth/block_rules.zig\<close>, and the settlement of a transaction of
  \<^verbatim>\<open>src/src/transaction/settlement.zig\<close>. Each is on machine words as the code has it, and is shown to be the
  formula on unbounded naturals wherever no intermediate value overflows. A signed 64-bit counter is
  an integer.
\<close>

section \<open>Blob fees\<close>

text \<open>
  The loop of the approximation. \<open>i += 1\<close> is checked in the code, so its overflow is a trap of the model;
  a checked operation that overflows returns \<^term>\<open>None\<close>.
\<close>

function fakeExponentialFrom :: "u256 \<Rightarrow> u256 \<Rightarrow> u256 \<Rightarrow> u256 \<Rightarrow> u256 \<Rightarrow> (unit, u256 option) outcome" where
  "fakeExponentialFrom numerator denominator i out accum =
     (if accum > 0 then
        case checked_add out accum of None \<Rightarrow> Done None | Some out' \<Rightarrow>
        case checked_mul accum numerator of None \<Rightarrow> Done None | Some next_numerator \<Rightarrow>
        case checked_mul denominator i of None \<Rightarrow> Done None | Some next_denominator \<Rightarrow>
        if next_denominator = 0 then Trap
        else case checked_add i 1 of None \<Rightarrow> Trap | Some i' \<Rightarrow>
          fakeExponentialFrom numerator denominator i' out' (next_numerator div next_denominator)
      else Done (Some (out div denominator)))"
  by pat_completeness auto
termination
proof (relation "measure (\<lambda>(n, d, i, out, accum). 2 ^ 256 - unat out)")
  fix n d i out accum out' nn nd i' :: u256
  assume a: "0 < accum" "checked_add out accum = Some out'"
  have "unat out' = unat out + unat accum" using a(2) by (simp add: checked_add_Some)
  moreover have "0 < unat accum" using a(1) by (simp add: unat_gt_0 word_gt_0)
  moreover have "unat out' < 2 ^ 256" using unsigned_less [of out'] by simp
  ultimately have "2 ^ 256 - unat out' < 2 ^ 256 - unat out" by linarith
  then show "((n, d, i', out', nn div nd), n, d, i, out, accum) \<in> measure (\<lambda>(n, d, i, out, accum). 2 ^ 256 - unat out)"
    by simp
qed simp

declare fakeExponentialFrom.simps [simp del]

definition fakeExponential :: "u256 \<Rightarrow> u256 \<Rightarrow> u256 \<Rightarrow> (unit, u256 option) outcome" where
  "fakeExponential factor numerator denominator =
     (if denominator = 0 then Done None
      else case checked_mul factor denominator of None \<Rightarrow> Done None
      | Some accum \<Rightarrow> fakeExponentialFrom numerator denominator 1 0 accum)"

text \<open>The terms of EIP-4844 on naturals: their sum up to the first zero, divided by the denominator.\<close>

fun exp_term :: "nat \<Rightarrow> nat \<Rightarrow> nat \<Rightarrow> nat \<Rightarrow> nat" where
  "exp_term f n d 0 = f * d"
| "exp_term f n d (Suc k) = exp_term f n d k * n div (d * Suc k)"

definition exp_sum :: "nat \<Rightarrow> nat \<Rightarrow> nat \<Rightarrow> nat \<Rightarrow> nat" where
  "exp_sum f n d k = sum_list (map (exp_term f n d) [0..<k])"

lemma exp_sum_simps [simp]: "exp_sum f n d 0 = 0" "exp_sum f n d (Suc k) = exp_sum f n d k + exp_term f n d k"
  by (simp_all add: exp_sum_def)

lemma exp_term_zero: "exp_term f n d k = 0 \<Longrightarrow> k \<le> l \<Longrightarrow> exp_term f n d l = 0"
proof (induction l)
  case (Suc l)
  then show ?case by (cases "k \<le> l") (auto simp: le_Suc_eq)
qed simp

lemma exp_sum_end: "exp_term f n d k = 0 \<Longrightarrow> k \<le> l \<Longrightarrow> exp_sum f n d l = exp_sum f n d k"
proof (induction l)
  case (Suc l)
  show ?case
  proof (cases "k \<le> l")
    case True
    then show ?thesis using Suc exp_term_zero [of f n d k l] by simp
  qed (use Suc in \<open>simp add: le_Suc_eq\<close>)
qed simp

text \<open>Some intermediate value of the series does not fit in 256 bits.\<close>

definition exp_overflows_at :: "nat \<Rightarrow> nat \<Rightarrow> nat \<Rightarrow> nat \<Rightarrow> bool" where
  "exp_overflows_at f n d k \<longleftrightarrow> exp_term f n d k \<noteq> 0 \<and>
     (2 ^ 256 \<le> exp_sum f n d (Suc k) \<or> 2 ^ 256 \<le> exp_term f n d k * n \<or> 2 ^ 256 \<le> d * Suc k)"

definition exp_overflows :: "nat \<Rightarrow> nat \<Rightarrow> nat \<Rightarrow> bool" where
  "exp_overflows f n d \<longleftrightarrow> (\<exists>k. exp_overflows_at f n d k)"

text \<open>Among the first three terms one exceeds 1, so the sum keeps up with the counter, which therefore
  cannot overflow first.\<close>

lemma exp_sum_counter:
  assumes d: "0 < d" and k: "3 \<le> k" and pos: "exp_term f n d (k - 1) \<noteq> 0"
  shows "k < exp_sum f n d k"
  using k pos
proof (induction k rule: dec_induct)
  case base
  have p2: "0 < exp_term f n d 2" using base by simp
  have p: "0 < exp_term f n d 0" "0 < exp_term f n d 1"
    using p2 exp_term_zero [of f n d 0 2] exp_term_zero [of f n d 1 2] by (auto intro: gr0I)
  have "\<not> (exp_term f n d 0 = 1 \<and> exp_term f n d 1 = 1)"
  proof
    assume one: "exp_term f n d 0 = 1 \<and> exp_term f n d 1 = 1"
    then have "n div d = 1" by (auto split: if_splits)
    then have "n div d div 2 = 0" by simp
    then have "n div (d * 2) = 0" by (simp add: div_mult2_eq)
    then have "exp_term f n d 2 = 0" using one by (auto simp: numeral_2_eq_2 split: if_splits)
    with p2 show False by simp
  qed
  then have "1 < exp_term f n d 0 \<or> 1 < exp_term f n d 1" using p by linarith
  moreover have "exp_sum f n d 3 = exp_term f n d 0 + exp_term f n d 1 + exp_term f n d 2"
    by (simp add: numeral_3_eq_3 numeral_2_eq_2 del: exp_term.simps)
  ultimately show ?case using p p2 by linarith
next
  case (step k)
  have "exp_term f n d (k - 1) \<noteq> 0"
    using step.prems exp_term_zero [of f n d "k - 1" k] by auto
  with step.IH have "k < exp_sum f n d k" .
  moreover have "exp_term f n d k \<noteq> 0" using step.prems by simp
  ultimately show ?case by simp
qed

definition exp_result :: "nat \<Rightarrow> nat \<Rightarrow> nat \<Rightarrow> u256 option \<Rightarrow> bool" where
  "exp_result f n d y \<longleftrightarrow> (case y of
     None \<Rightarrow> exp_overflows f n d
   | Some r \<Rightarrow> \<not> exp_overflows f n d \<and> (\<exists>k. exp_term f n d k = 0 \<and> unat r = exp_sum f n d k div d))"

lemma no_overflow_after:
  assumes "exp_term f n d k = 0" and "\<forall>j<k. \<not> exp_overflows_at f n d j"
  shows "\<not> exp_overflows f n d"
proof
  assume "exp_overflows f n d"
  then obtain j where j: "exp_overflows_at f n d j" unfolding exp_overflows_def by blast
  then have "k \<le> j" using assms(2) not_le_imp_less by blast
  then show False using j exp_term_zero [OF assms(1), of j] by (simp add: exp_overflows_at_def)
qed

lemma fakeExponentialFrom_series:
  assumes d: "denominator \<noteq> 0"
  shows "unat i = Suc k \<Longrightarrow> unat out = exp_sum f (unat numerator) (unat denominator) k \<Longrightarrow>
    unat accum = exp_term f (unat numerator) (unat denominator) k \<Longrightarrow>
    \<forall>j<k. \<not> exp_overflows_at f (unat numerator) (unat denominator) j \<Longrightarrow>
    \<exists>y. fakeExponentialFrom numerator denominator i out accum = Done y \<and>
      exp_result f (unat numerator) (unat denominator) y"
proof (induction "2 ^ 256 - unat out" arbitrary: k i out accum rule: less_induct)
  case less
  let ?n = "unat numerator" and ?d = "unat denominator"
  let ?tm = "exp_term f ?n ?d" and ?sum = "exp_sum f ?n ?d"
  have dpos: "0 < ?d" using d by (simp add: unat_gt_0)
  show ?case
  proof (cases "0 < accum")
    case False
    then have z: "accum = 0" using word_gt_0 by blast
    then have tz: "?tm k = 0" using less.prems(3) by simp
    moreover have "\<not> exp_overflows f ?n ?d" by (rule no_overflow_after [OF tz less.prems(4)])
    moreover have "unat (out div denominator) = ?sum k div ?d" by (simp add: unat_div less.prems(2))
    ultimately show ?thesis using z
      by (subst fakeExponentialFrom.simps) (auto simp: exp_result_def intro!: exI [of _ k])
  next
    case True
    then have acc: "?tm k \<noteq> 0" using less.prems(3) by (metis word_gt_0 unat_eq_0)
    show ?thesis
    proof (cases "checked_add out accum")
      case None
      then have "2 ^ 256 \<le> ?sum (Suc k)" using less.prems by (simp add: checked_add_None)
      then have "exp_overflows f ?n ?d" using acc unfolding exp_overflows_def exp_overflows_at_def by blast
      then show ?thesis using True None by (subst fakeExponentialFrom.simps) (simp add: exp_result_def)
    next
      case out: (Some out')
      have out': "unat out' = ?sum (Suc k)" using out less.prems by (simp add: checked_add_Some)
      show ?thesis
      proof (cases "checked_mul accum numerator")
        case None
        then have "2 ^ 256 \<le> ?tm k * ?n" using less.prems by (simp add: checked_mul_None)
        then have "exp_overflows f ?n ?d" using acc unfolding exp_overflows_def exp_overflows_at_def by blast
        then show ?thesis using True out None by (subst fakeExponentialFrom.simps) (simp add: exp_result_def)
      next
        case nn: (Some nn)
        have nn': "unat nn = ?tm k * ?n" using nn less.prems by (simp add: checked_mul_Some)
        show ?thesis
        proof (cases "checked_mul denominator i")
          case None
          then have "2 ^ 256 \<le> ?d * Suc k" using less.prems by (simp add: checked_mul_None)
          then have "exp_overflows f ?n ?d" using acc unfolding exp_overflows_def exp_overflows_at_def by blast
          then show ?thesis using True out nn None by (subst fakeExponentialFrom.simps) (simp add: exp_result_def)
        next
          case nd: (Some nd)
          have nd': "unat nd = ?d * Suc k" using nd less.prems by (simp add: checked_mul_Some)
          then have nz: "nd \<noteq> 0" using dpos by auto
          have lt: "unat out' < 2 ^ 256" using unsigned_less [of out'] by simp
          have "Suc (Suc k) < 2 ^ 256"
          proof (cases "3 \<le> Suc k")
            case True
            from exp_sum_counter [OF dpos this, of f ?n] acc have "Suc k < ?sum (Suc k)" by simp
            then show ?thesis using lt unfolding out' by linarith
          qed simp
          then have "unat (i + 1) = Suc (Suc k)"
            using less.prems(1) by (simp add: unat_word_ariths)
          then have i: "checked_add i 1 = Some (i + 1)" "unat (i + 1) = Suc (Suc k)"
            using less.prems(1) by (simp_all add: checked_add_Some)
          have "0 < ?tm k" using acc by simp
          then have "2 ^ 256 - unat out' < 2 ^ 256 - unat out"
            using out' less.prems(2) lt by simp
          moreover have "\<not> exp_overflows_at f ?n ?d k"
            using lt unat_u256_less [of nn] unat_u256_less [of nd] unfolding exp_overflows_at_def out' nn' nd' by linarith
          then have "\<forall>j<Suc k. \<not> exp_overflows_at f ?n ?d j" using less.prems(4) by (simp add: less_Suc_eq)
          ultimately obtain y where
            "fakeExponentialFrom numerator denominator (i + 1) out' (nn div nd) = Done y" "exp_result f ?n ?d y"
            using less.hyps [OF _ i(2) out', of "nn div nd"] by (auto simp: unat_div nn' nd')
          then show ?thesis using True out nn nd nz i(1) by (subst fakeExponentialFrom.simps) simp
        qed
      qed
    qed
  qed
qed

text \<open>The approximation has no value, or a value on the way to it does not fit.\<close>

definition exp_undefined :: "nat \<Rightarrow> nat \<Rightarrow> nat \<Rightarrow> bool" where
  "exp_undefined f n d \<longleftrightarrow> d = 0 \<or> 2 ^ 256 \<le> f * d \<or> exp_overflows f n d"

lemma fakeExponential_series:
  "\<exists>y. fakeExponential factor numerator denominator = Done y \<and>
    (case y of
       None \<Rightarrow> exp_undefined (unat factor) (unat numerator) (unat denominator)
     | Some r \<Rightarrow> \<not> exp_undefined (unat factor) (unat numerator) (unat denominator) \<and>
         (\<exists>k. exp_term (unat factor) (unat numerator) (unat denominator) k = 0 \<and>
           unat r = exp_sum (unat factor) (unat numerator) (unat denominator) k div unat denominator))"
proof (cases "denominator = 0")
  case False
  show ?thesis
  proof (cases "checked_mul factor denominator")
    case None
    moreover from None have "2 ^ 256 \<le> unat factor * unat denominator" by (simp add: checked_mul_None)
    ultimately show ?thesis using False by (intro exI [of _ None]) (simp add: fakeExponential_def exp_undefined_def)
  next
    case (Some accum)
    then have acc: "unat accum = unat factor * unat denominator" by (simp add: checked_mul_Some)
    then obtain y where "fakeExponentialFrom numerator denominator 1 0 accum = Done y"
      "exp_result (unat factor) (unat numerator) (unat denominator) y"
      using fakeExponentialFrom_series [OF False, of 1 0 0 "unat factor" numerator accum] by auto
    moreover have "\<not> 2 ^ 256 \<le> unat factor * unat denominator" using unat_u256_less [of accum] unfolding acc by linarith
    moreover have "unat denominator \<noteq> 0" using False by (simp add: unat_eq_0)
    ultimately show ?thesis using False Some
      by (auto simp: fakeExponential_def exp_result_def exp_undefined_def split: option.splits)
  qed
qed (simp add: fakeExponential_def exp_undefined_def)

section \<open>Blob gas\<close>

record blob_schedule =
  sch_target :: u64
  sch_max :: u64
  max_per_transaction :: u64
  gas_per_blob :: u64
  min_base_fee :: u256
  execution_base_cost :: u64
  base_fee_update_fraction :: u256
  reserve_price_active :: bool
  hash_version :: u8

record blob_params =
  par_target :: u64
  par_max :: u64
  par_update_fraction :: u256

definition withParams :: "blob_schedule \<Rightarrow> blob_params \<Rightarrow> blob_schedule" where
  "withParams s p = s\<lparr>sch_target := par_target p, sch_max := par_max p,
     base_fee_update_fraction := par_update_fraction p\<rparr>"

definition blobGasForSchedule :: "blob_schedule \<Rightarrow> nat \<Rightarrow> u256 option" where
  "blobGasForSchedule s blob_count = checked_mul (word_of_nat blob_count) (ucast (gas_per_blob s))"

definition blobBaseFeeForSchedule :: "blob_schedule \<Rightarrow> u256 \<Rightarrow> (unit, u256 option) outcome" where
  "blobBaseFeeForSchedule s excess_blob_gas =
     fakeExponential (min_base_fee s) excess_blob_gas (base_fee_update_fraction s)"

record excess_input =
  parent_excess_blob_gas :: u256
  parent_blob_gas_used :: u256
  parent_base_fee_per_gas :: u256

text \<open>\<^verbatim>\<open>orelse return null\<close>.\<close>

definition or_null :: "'a option \<Rightarrow> ('a \<Rightarrow> (unit, 'b option) outcome) \<Rightarrow> (unit, 'b option) outcome" where
  "or_null x f = (case x of None \<Rightarrow> Done None | Some v \<Rightarrow> f v)"

lemma or_null_Done_Some [zig_simps]: "or_null x f = Done (Some y) \<longleftrightarrow> (\<exists>v. x = Some v \<and> f v = Done (Some y))"
  by (cases x) (auto simp: or_null_def)

definition calcExcessBlobGasForSchedule :: "blob_schedule \<Rightarrow> excess_input \<Rightarrow> (unit, u256 option) outcome" where
  "calcExcessBlobGasForSchedule s input =
     (if sch_max s = 0 \<or> sch_max s < sch_target s then Done None else
      let per_blob_gas = ucast (gas_per_blob s) :: u256 in
      or_null (checked_mul per_blob_gas (ucast (sch_target s))) (\<lambda>target_blob_gas.
      or_null (checked_add (parent_excess_blob_gas input) (parent_blob_gas_used input)) (\<lambda>total_blob_gas.
      if total_blob_gas < target_blob_gas then Done (Some 0)
      else
        let plain = Done (Some (total_blob_gas - target_blob_gas)) in
        if reserve_price_active s then
          zbind (blobBaseFeeForSchedule s (parent_excess_blob_gas input)) (\<lambda>fee.
          or_null fee (\<lambda>parent_blob_base_fee.
          or_null (checked_mul (ucast (execution_base_cost s)) (parent_base_fee_per_gas input)) (\<lambda>execution_reserve_price.
          or_null (checked_mul per_blob_gas parent_blob_base_fee) (\<lambda>blob_price.
          if execution_reserve_price > blob_price then
            let headroom = sch_max s - sch_target s in
            or_null (checked_mul (parent_blob_gas_used input) (ucast headroom)) (\<lambda>scaled_used.
            Done (checked_add (parent_excess_blob_gas input) (scaled_used div ucast (sch_max s))))
          else plain))))
        else plain)))"

definition blobVersion :: "u256 \<Rightarrow> u8" where
  "blobVersion hash = ucast (drop_bit 248 hash)"

lemma unat_ucast_u256 [simp]: "unat (ucast (a :: u64) :: u256) = unat a"
  by (simp add: unsigned_ucast_eq take_bit_nat_eq_self_iff) (rule less_trans [OF unsigned_less], simp)

text \<open>EIP-4844 with the reserve price of EIP-7918, on naturals.\<close>

definition excess_spec :: "nat \<Rightarrow> nat \<Rightarrow> nat \<Rightarrow> nat \<Rightarrow> nat \<Rightarrow> bool \<Rightarrow> nat" where
  "excess_spec per_blob target max_blobs excess used reserve_binds =
     (if excess + used < per_blob * target then 0
      else if reserve_binds then excess + used * (max_blobs - target) div max_blobs
      else excess + used - per_blob * target)"

lemma calcExcess_spec:
  assumes "calcExcessBlobGasForSchedule s input = Done (Some e)"
  obtains reserve_binds where
    "unat e = excess_spec (unat (gas_per_blob s)) (unat (sch_target s)) (unat (sch_max s))
       (unat (parent_excess_blob_gas input)) (unat (parent_blob_gas_used input)) reserve_binds"
    "reserve_binds \<Longrightarrow> reserve_price_active s \<and>
       (\<exists>fee. blobBaseFeeForSchedule s (parent_excess_blob_gas input) = Done (Some fee) \<and>
         unat (gas_per_blob s) * unat fee < unat (execution_base_cost s) * unat (parent_base_fee_per_gas input))"
    "\<not> reserve_binds \<Longrightarrow> \<not> reserve_price_active s \<or>
       unat (parent_excess_blob_gas input) + unat (parent_blob_gas_used input) < unat (gas_per_blob s) * unat (sch_target s) \<or>
       (\<exists>fee. blobBaseFeeForSchedule s (parent_excess_blob_gas input) = Done (Some fee) \<and>
         unat (execution_base_cost s) * unat (parent_base_fee_per_gas input) \<le> unat (gas_per_blob s) * unat fee)"
proof -
  note result = that
  have guards: "sch_max s \<noteq> 0" "sch_target s \<le> sch_max s"
    using assms by (auto simp: calcExcessBlobGasForSchedule_def split: if_splits)
  obtain tg tot where tg: "unat tg = unat (gas_per_blob s) * unat (sch_target s)"
    and tot: "unat tot = unat (parent_excess_blob_gas input) + unat (parent_blob_gas_used input)"
    and rest: "(if tot < tg then Done (Some 0)
      else if reserve_price_active s then
          zbind (blobBaseFeeForSchedule s (parent_excess_blob_gas input)) (\<lambda>fee.
          or_null fee (\<lambda>parent_blob_base_fee.
          or_null (checked_mul (ucast (execution_base_cost s)) (parent_base_fee_per_gas input)) (\<lambda>execution_reserve_price.
          or_null (checked_mul (ucast (gas_per_blob s)) parent_blob_base_fee) (\<lambda>blob_price.
          if execution_reserve_price > blob_price then
            or_null (checked_mul (parent_blob_gas_used input) (ucast (sch_max s - sch_target s))) (\<lambda>scaled_used.
            Done (checked_add (parent_excess_blob_gas input) (scaled_used div ucast (sch_max s))))
          else Done (Some (tot - tg))))))
      else Done (Some (tot - tg))) = Done (Some e)"
  proof -
    have ng: "\<not> (sch_max s = 0 \<or> sch_max s < sch_target s)" using guards by auto
    show ?thesis
      using assms that unfolding calcExcessBlobGasForSchedule_def if_not_P [OF ng] Let_def
        or_null_Done_Some checked_mul_Some checked_add_Some unat_ucast_u256 by blast
  qed
  have plain: "unat (tot - tg) = unat tot - unat tg" if "\<not> tot < tg"
    using that by (simp add: unat_sub)
  show ?thesis
  proof (cases "tot < tg")
    case True
    with rest show ?thesis using tg tot
      by (intro result [of False]) (auto simp: excess_spec_def word_less_nat_alt)
  next
    case False
    then have ge: "\<not> unat (parent_excess_blob_gas input) + unat (parent_blob_gas_used input) < unat (gas_per_blob s) * unat (sch_target s)"
      by (simp add: word_less_nat_alt tg tot)
    show ?thesis
    proof (cases "reserve_price_active s")
      case inactive: False
      with False rest have "e = tot - tg" by simp
      then show ?thesis using plain [OF False] tg tot ge inactive
        by (intro result [of False]) (auto simp: excess_spec_def)
    next
      case True
      define tail where "tail rp bp =
          (if rp > bp then
            or_null (checked_mul (parent_blob_gas_used input) (ucast (sch_max s - sch_target s))) (\<lambda>scaled_used.
            Done (checked_add (parent_excess_blob_gas input) (scaled_used div ucast (sch_max s))))
          else Done (Some (tot - tg)))" for rp bp :: u256
      note r = rest [unfolded if_not_P [OF False] if_P [OF True] tail_def [symmetric] zbind_Done_iff or_null_Done_Some
          checked_mul_Some unat_ucast_u256]
      from r obtain fee rp bp where fee: "blobBaseFeeForSchedule s (parent_excess_blob_gas input) = Done (Some fee)"
        and rp: "unat rp = unat (execution_base_cost s) * unat (parent_base_fee_per_gas input)"
        and bp: "unat bp = unat (gas_per_blob s) * unat fee"
        and e: "tail rp bp = Done (Some e)"
        by blast
      show ?thesis
      proof (cases "rp > bp")
        case binds: True
        have "unat e = unat (parent_excess_blob_gas input) +
            unat (parent_blob_gas_used input) * (unat (sch_max s) - unat (sch_target s)) div unat (sch_max s)"
          using e binds guards(2) by (auto simp: tail_def zig_simps unat_div unat_sub)
        then show ?thesis using ge True fee binds rp bp
          by (intro result [of True]) (auto simp: excess_spec_def word_less_nat_alt)
      next
        case nb: False
        then have "e = tot - tg" using e by (simp add: tail_def)
        moreover have "unat rp \<le> unat bp" using nb by (simp add: word_less_nat_alt)
        ultimately show ?thesis using plain [OF False] tg tot ge fee rp bp
          by (intro result [of False]) (auto simp: excess_spec_def)
      qed
    qed
  qed
qed

section \<open>The base fee\<close>

definition nextBaseFee :: "u64 \<Rightarrow> u64 \<Rightarrow> u256 \<Rightarrow> u256 option" where
  "nextBaseFee parent_gas_limit parent_gas_used parent_base_fee =
     (let target = parent_gas_limit div 2 in
      if target = 0 then None
      else if parent_gas_used = target then Some parent_base_fee
      else
        let gas_delta = if parent_gas_used > target then parent_gas_used - target else target - parent_gas_used in
        case checked_mul parent_base_fee (ucast gas_delta) of None \<Rightarrow> None | Some fee_delta_product \<Rightarrow>
        let target_fee_delta = fee_delta_product div ucast target; base_fee_delta = target_fee_delta div 8 in
        if parent_gas_used > target then checked_add parent_base_fee (max base_fee_delta 1)
        else if base_fee_delta > parent_base_fee then None
        else Some (parent_base_fee - base_fee_delta))"

definition gasLimitValid :: "u64 \<Rightarrow> u64 \<Rightarrow> bool" where
  "gasLimitValid gas_limit parent_gas_limit =
     (if gas_limit < 5000 then False
      else let adjustment = parent_gas_limit div 1024;
               upper = ucast parent_gas_limit + ucast adjustment :: 128 word;
               lower = parent_gas_limit - adjustment
           in ucast gas_limit < upper \<and> gas_limit > lower)"

text \<open>EIP-1559 on naturals.\<close>

definition base_fee_spec :: "nat \<Rightarrow> nat \<Rightarrow> nat \<Rightarrow> nat" where
  "base_fee_spec target used fee =
     (if used = target then fee
      else if target < used then fee + max (fee * (used - target) div target div 8) 1
      else fee - fee * (target - used) div target div 8)"

lemma nextBaseFee_spec:
  "map_option unat (nextBaseFee limit used fee) =
     (let target = unat limit div 2; delta = if target < unat used then unat used - target else target - unat used in
      if target = 0 \<or> unat used \<noteq> target \<and> 2 ^ 256 \<le> unat fee * delta \<or> 2 ^ 256 \<le> base_fee_spec target (unat used) (unat fee)
      then None else Some (base_fee_spec target (unat used) (unat fee)))"
proof -
  define t where "t = limit div 2"
  have t: "unat t = unat limit div 2" by (simp add: t_def unat_div)
  have lt: "unat fee < 2 ^ 256" using unsigned_less [of fee] by simp
  show ?thesis
  proof (cases "t = 0 \<or> used = t")
    case True
    show ?thesis
    proof (cases "t = 0")
      case True
      then have "unat limit div 2 = 0" using t by simp
      then show ?thesis using True by (simp add: nextBaseFee_def t_def [symmetric] Let_def)
    next
      case False
      then have "unat t \<noteq> 0" by (simp add: unat_eq_0)
      then have "used = t" "unat limit div 2 \<noteq> 0" using False True t by simp_all
      then show ?thesis using False lt
        by (simp add: nextBaseFee_def Let_def t_def [symmetric] base_fee_spec_def t [symmetric])
    qed
  next
    case False
    then have "t \<noteq> 0" "used \<noteq> t" by blast+
    then have tu: "unat t \<noteq> 0" "unat used \<noteq> unat t" using unat_eq_0 word_unat_eq_iff by blast+
    define d where "d = (if used > t then used - t else t - used)"
    have d: "unat d = (if unat t < unat used then unat used - unat t else unat t - unat used)"
      by (cases "t < used") (simp_all add: d_def unat_sub word_less_nat_alt word_le_nat_alt)
    have nb: "nextBaseFee limit used fee = (case checked_mul fee (ucast d) of None \<Rightarrow> None | Some p \<Rightarrow>
        if used > t then checked_add fee (max (p div ucast t div 8) 1)
        else if p div ucast t div 8 > fee then None else Some (fee - p div ucast t div 8))"
      unfolding nextBaseFee_def Let_def t_def [symmetric] d_def [symmetric] using False by auto
    show ?thesis
    proof (cases "checked_mul fee (ucast d)")
      case None
      then have "2 ^ 256 \<le> unat fee * unat d" by (simp add: checked_mul_None)
      then show ?thesis using None tu d by (simp add: nb Let_def t [symmetric])
    next
      case (Some prod)
      then have prod: "unat prod = unat fee * unat d" by (simp add: checked_mul_Some)
      have small: "\<not> 2 ^ 256 \<le> unat fee * unat d" using unat_u256_less [of prod] unfolding prod by linarith
      define delta where "delta = prod div ucast t div 8"
      have delta: "unat delta = unat fee * unat d div unat t div 8" by (simp add: delta_def unat_div prod)
      show ?thesis
      proof (cases "used > t")
        case True
        then have lt': "unat t < unat used" by (simp add: word_less_nat_alt)
        have m: "unat (max delta 1) = max (unat delta) 1" by (auto simp: max_def word_le_nat_alt)
        have r: "nextBaseFee limit used fee = checked_add fee (max delta 1)"
          using Some True by (simp add: nb delta_def [symmetric])
        have s: "base_fee_spec (unat t) (unat used) (unat fee) = unat fee + unat (max delta 1)"
          using lt' d by (simp add: base_fee_spec_def m delta)
        show ?thesis
        proof (cases "checked_add fee (max delta 1)")
          case None
          then show ?thesis using r s lt' small d tu by (auto simp: checked_add_None Let_def t [symmetric])
        next
          case (Some z)
          then have "unat z = unat fee + unat (max delta 1)" by (simp add: checked_add_Some)
          moreover have "unat z < 2 ^ 256" by (rule unat_u256_less)
          ultimately show ?thesis using r s lt' small d tu Some by (auto simp: Let_def t [symmetric])
        qed
      next
        case le: False
        then have le': "unat used < unat t" using tu(2) by (simp add: word_less_nat_alt)
        have "unat fee * unat d \<le> unat fee * unat t" using le' d by simp
        then have "unat fee * unat d div unat t \<le> unat fee"
          using tu(1) by (metis div_le_mono nonzero_mult_div_cancel_right)
        then have dl: "unat delta \<le> unat fee" unfolding delta by linarith
        have "nextBaseFee limit used fee = Some (fee - delta)"
          using Some le dl by (simp add: nb delta_def [symmetric] word_less_nat_alt)
        moreover have "unat (fee - delta) = base_fee_spec (unat t) (unat used) (unat fee)"
          using dl le' d by (simp add: unat_sub word_le_nat_alt base_fee_spec_def delta)
        moreover have "base_fee_spec (unat t) (unat used) (unat fee) < 2 ^ 256"
          using lt le' by (simp add: base_fee_spec_def)
        ultimately show ?thesis using le' small d tu by (auto simp: Let_def t [symmetric])
      qed
    qed
  qed
qed

lemma gasLimitValid_spec:
  "gasLimitValid limit parent \<longleftrightarrow> 5000 \<le> unat limit \<and>
     unat limit < unat parent + unat parent div 1024 \<and> unat parent < unat limit + unat parent div 1024"
proof -
  have u: "unat (ucast (a :: u64) :: 128 word) = unat a" for a
    using unat_u64_less [of a] by (simp add: unsigned_ucast_eq take_bit_nat_eq_self_iff)
  have p: "unat parent < 2 ^ 64" "unat limit < 2 ^ 64" by (rule unat_u64_less)+
  have a: "unat (parent div 1024) = unat parent div 1024" by (simp add: unat_div)
  have up: "unat (ucast parent + ucast (parent div 1024) :: 128 word) = unat parent + unat parent div 1024"
    using p by (simp add: unat_word_ariths u a) 
  have lo: "unat (parent - parent div 1024) = unat parent - unat parent div 1024"
    by (simp add: unat_sub word_le_nat_alt a)
  show ?thesis
    by (auto simp: gasLimitValid_def Let_def word_less_nat_alt up u lo)
qed

section \<open>Settlement\<close>

record fee_input =
  in_gas_price :: u256
  in_base_fee :: u256
  in_max_fee :: "u256 option"
  in_max_priority :: "u256 option"

record default_plan =
  payer :: "bytes option"
  plan_gas_limit :: u64
  intrinsic_gas :: u64
  floor_gas :: u64
  gas_price :: u256
  priority_fee :: u256
  fee_recipient :: bytes
  upfront_debit :: u256
  minimum_balance :: u256

record default_fees =
  fees_gas_price :: u256
  fees_priority_fee :: u256
  fees_recipient :: bytes
  fees_payer :: "bytes option"
  fees_value :: u256
  blob_base_fee :: u256
  blob_count :: nat

text \<open>The counters a finished execution returns, signed in 64 bits.\<close>

record gas_result =
  res_gas_left :: int
  res_gas_refund :: int
  res_gas_reservoir :: int
  res_state_gas_spent :: int

record block_gas =
  bg_total :: u64
  bg_regular :: u64
  bg_state :: u64

record result_gas =
  gas_used :: u64
  gas_refunded :: u64
  gas_block :: block_gas

record default_costs =
  cost_gas :: result_gas
  payer_refund :: u256
  fee_payment :: u256

datatype settle_error = Overflow

definition legacy_gas :: "u64 \<Rightarrow> block_gas" where
  "legacy_gas used = \<lparr>bg_total = used, bg_regular = used, bg_state = 0\<rparr>"

definition fromDimensions :: "u64 \<Rightarrow> u64 \<Rightarrow> block_gas" where
  "fromDimensions regular state = \<lparr>bg_total = max regular state, bg_regular = regular, bg_state = state\<rparr>"

definition block_gas_add :: "block_gas \<Rightarrow> block_gas \<Rightarrow> (settle_error, block_gas) outcome" where
  "block_gas_add a b =
     (case checked_add (bg_regular a) (bg_regular b) of None \<Rightarrow> Fails Overflow | Some regular \<Rightarrow>
      case checked_add (bg_state a) (bg_state b) of None \<Rightarrow> Fails Overflow | Some state \<Rightarrow>
      Done (fromDimensions regular state))"

definition withinLimit :: "block_gas \<Rightarrow> u64 \<Rightarrow> bool" where
  "withinLimit g limit = (limit = 0 \<or> bg_total g \<le> limit)"

definition effectivePriorityFee :: "bool \<Rightarrow> fee_input \<Rightarrow> u256" where
  "effectivePriorityFee base_fee_active input =
     (if \<not> base_fee_active then in_gas_price input
      else case in_max_fee input of
        Some max_fee \<Rightarrow>
          let max_priority = (case in_max_priority input of None \<Rightarrow> 0 | Some f \<Rightarrow> f) in
          if max_fee \<le> in_base_fee input then 0 else min max_priority (max_fee - in_base_fee input)
      | None \<Rightarrow> if in_gas_price input \<le> in_base_fee input then 0 else in_gas_price input - in_base_fee input)"

definition blobGasForCount :: "blob_schedule option \<Rightarrow> nat \<Rightarrow> u256 option" where
  "blobGasForCount schedule n =
     (if n = 0 then Some 0 else case schedule of None \<Rightarrow> None | Some s \<Rightarrow> blobGasForSchedule s n)"

definition prechargeCost :: "blob_schedule option \<Rightarrow> u64 \<Rightarrow> u256 \<Rightarrow> u256 \<Rightarrow> nat \<Rightarrow> u256" where
  "prechargeCost schedule gas_limit price blob_fee n =
     (let gas_cost = sat_mul (ucast gas_limit) price in
      case blobGasForCount schedule n of None \<Rightarrow> - 1 | Some blob_gas \<Rightarrow>
      sat_add gas_cost (sat_mul blob_gas blob_fee))"

text \<open>The plan of a transaction: the intrinsic and floor gas come from the gas plan.\<close>

definition defaultPlanFromGasPlan :: "blob_schedule option \<Rightarrow> u64 \<Rightarrow> u64 \<Rightarrow> u64 \<Rightarrow> default_fees \<Rightarrow> default_plan" where
  "defaultPlanFromGasPlan schedule gas_limit intrinsic floor fees =
     (let debit = prechargeCost schedule gas_limit (fees_gas_price fees) (blob_base_fee fees) (blob_count fees) in
      \<lparr>payer = fees_payer fees, plan_gas_limit = gas_limit, intrinsic_gas = intrinsic, floor_gas = floor,
       gas_price = fees_gas_price fees, priority_fee = fees_priority_fee fees, fee_recipient = fees_recipient fees,
       upfront_debit = debit, minimum_balance = sat_add debit (fees_value fees)\<rparr>)"

definition positiveGas :: "int \<Rightarrow> u64" where
  "positiveGas g = (if g \<le> 0 then 0 else word_of_int g)"

definition checkedGasCost :: "u64 \<Rightarrow> u256 \<Rightarrow> (settle_error, u256) outcome" where
  "checkedGasCost gas price = (case checked_mul (ucast gas) price of None \<Rightarrow> Fails Overflow | Some c \<Rightarrow> Done c)"

definition settle_gas :: "default_plan \<Rightarrow> gas_result \<Rightarrow> bool \<Rightarrow> u64 \<Rightarrow> bool \<Rightarrow> result_gas" where
  "settle_gas plan result state_accounting divisor floor_on_regular =
     (let limit = plan_gas_limit plan;
          left = positiveGas (res_gas_left result);
          reservoir = (if state_accounting then positiveGas (res_gas_reservoir result) else 0);
          pre_refund = (if state_accounting then limit - min limit (sat_add left reservoir) else limit - min limit left);
          refund_cap = pre_refund div divisor;
          raw_refund = (if res_gas_refund result > 0 then word_of_int (res_gas_refund result) else 0);
          refund_gas = min raw_refund refund_cap;
          after_refund = pre_refund - min pre_refund refund_gas;
          used = max after_refund (floor_gas plan);
          block_state = (if state_accounting then positiveGas (res_state_gas_spent result) else 0);
          regular_before_floor = pre_refund - min pre_refund block_state;
          block_regular = (if state_accounting
            then if floor_on_regular then max regular_before_floor (floor_gas plan) else regular_before_floor
            else used);
          block = (if state_accounting then fromDimensions block_regular block_state else legacy_gas used)
      in \<lparr>gas_used = used, gas_refunded = limit - min limit used, gas_block = block\<rparr>)"

definition calculateDefaultCosts ::
    "default_plan \<Rightarrow> gas_result \<Rightarrow> bool \<Rightarrow> u64 \<Rightarrow> bool \<Rightarrow> (settle_error, default_costs) outcome" where
  "calculateDefaultCosts plan result state_accounting divisor floor_on_regular =
     zassert (divisor \<noteq> 0)
     (let gas = settle_gas plan result state_accounting divisor floor_on_regular in
      zbind (checkedGasCost (gas_refunded gas) (gas_price plan)) (\<lambda>refund.
      zbind (checkedGasCost (gas_used gas) (priority_fee plan)) (\<lambda>fee.
      Done \<lparr>cost_gas = gas, payer_refund = refund, fee_payment = fee\<rparr>)))"

text \<open>The gas of a settlement on naturals.\<close>

definition gas_before_refund :: "nat \<Rightarrow> gas_result \<Rightarrow> bool \<Rightarrow> nat" where
  "gas_before_refund limit result state_accounting =
     limit - (nat (res_gas_left result) + (if state_accounting then nat (res_gas_reservoir result) else 0))"

definition i64_range :: "int \<Rightarrow> bool" where
  "i64_range x \<longleftrightarrow> - (2 ^ 63) \<le> x \<and> x < 2 ^ 63"

definition gas_result_ok :: "gas_result \<Rightarrow> bool" where
  "gas_result_ok r \<longleftrightarrow> i64_range (res_gas_left r) \<and> i64_range (res_gas_refund r) \<and>
     i64_range (res_gas_reservoir r) \<and> i64_range (res_state_gas_spent r)"

lemma unat_of_i64: "i64_range x \<Longrightarrow> 0 \<le> x \<Longrightarrow> unat (word_of_int x :: u64) = nat x"
  by (simp add: i64_range_def unat_eq_nat_uint uint_word_of_int)

lemma unat_positiveGas: "i64_range x \<Longrightarrow> unat (positiveGas x) = nat x"
  by (auto simp: positiveGas_def unat_of_i64)

lemma unat_min_max: "unat (min a b) = min (unat a) (unat b)" "unat (max a b) = max (unat a) (unat b)"
  by (auto simp: min_def max_def word_le_nat_alt)

lemma unat_sub_min: "unat (a - min a b) = unat a - unat b"
  by (simp add: unat_sub unat_min_max min_def) (simp add: word_le_nat_alt)

lemma settle_gas_spec:
  fixes plan :: default_plan and sa :: bool
  assumes ok: "gas_result_ok r"
  defines "pre \<equiv> gas_before_refund (unat (plan_gas_limit plan)) r sa"
  shows "unat (gas_used (settle_gas plan r sa divisor fl)) =
      max (pre - min (nat (res_gas_refund r)) (pre div unat divisor)) (unat (floor_gas plan))"
    and "unat (gas_refunded (settle_gas plan r sa divisor fl)) =
      unat (plan_gas_limit plan) - unat (gas_used (settle_gas plan r sa divisor fl))"
proof -
  define prew where "prew = (if sa
      then plan_gas_limit plan - min (plan_gas_limit plan) (sat_add (positiveGas (res_gas_left r)) (if sa then positiveGas (res_gas_reservoir r) else 0))
      else plan_gas_limit plan - min (plan_gas_limit plan) (positiveGas (res_gas_left r)))"
  have i: "i64_range (res_gas_left r)" "i64_range (res_gas_refund r)" "i64_range (res_gas_reservoir r)"
    using ok by (simp_all add: gas_result_ok_def)
  have lim: "unat (plan_gas_limit plan) \<le> 2 ^ 64 - 1" using unat_u64_less [of "plan_gas_limit plan"] by linarith
  have pre: "unat prew = pre"
    using lim by (auto simp: prew_def pre_def gas_before_refund_def unat_sub_min unat_sat_add unat_positiveGas i)
  have raw: "unat (if res_gas_refund r > 0 then word_of_int (res_gas_refund r) else 0 :: u64) = nat (res_gas_refund r)"
    using i(2) by (simp add: unat_of_i64)
  show "unat (gas_used (settle_gas plan r sa divisor fl)) =
      max (pre - min (nat (res_gas_refund r)) (pre div unat divisor)) (unat (floor_gas plan))"
    unfolding settle_gas_def Let_def prew_def [symmetric] result_gas.select_convs
    by (simp only: unat_min_max unat_sub_min unat_div raw pre)
  show "unat (gas_refunded (settle_gas plan r sa divisor fl)) =
      unat (plan_gas_limit plan) - unat (gas_used (settle_gas plan r sa divisor fl))"
    unfolding settle_gas_def Let_def result_gas.select_convs by (rule unat_sub_min)
qed

lemma unat_checkedGasCost:
  "checkedGasCost gas price = Done c \<Longrightarrow> unat c = unat gas * unat price"
  "unat gas * unat price < 2 ^ 256 \<Longrightarrow> \<exists>c. checkedGasCost gas price = Done c"
proof -
  show "checkedGasCost gas price = Done c \<Longrightarrow> unat c = unat gas * unat price"
    by (cases "checked_mul (ucast gas) price") (simp_all add: checkedGasCost_def checked_mul_Some)
  show "unat gas * unat price < 2 ^ 256 \<Longrightarrow> \<exists>c. checkedGasCost gas price = Done c"
    using checked_mul_None [of "ucast gas :: u256" price]
    by (cases "checked_mul (ucast gas) price") (simp_all add: checkedGasCost_def)
qed

lemma settle_gas_bounds:
  fixes sa fl :: bool and divisor :: u64
  assumes ok: "gas_result_ok r" and floor: "floor_gas plan \<le> plan_gas_limit plan"
  defines "g \<equiv> settle_gas plan r sa divisor fl"
    and "pre \<equiv> gas_before_refund (unat (plan_gas_limit plan)) r sa"
  shows "unat (gas_used g) + unat (gas_refunded g) = unat (plan_gas_limit plan)"
    and "unat (floor_gas plan) \<le> unat (gas_used g)"
    and "pre - pre div unat divisor \<le> unat (gas_used g)"
    and "unat (gas_used g) \<le> max pre (unat (floor_gas plan))"
proof -
  note s = settle_gas_spec [OF ok, of plan sa divisor fl, folded g_def pre_def]
  have "pre \<le> unat (plan_gas_limit plan)" by (simp add: pre_def gas_before_refund_def)
  moreover have "unat (floor_gas plan) \<le> unat (plan_gas_limit plan)" using floor by (simp add: word_le_nat_alt)
  ultimately have "unat (gas_used g) \<le> unat (plan_gas_limit plan)" unfolding s(1) by linarith
  then show "unat (gas_used g) + unat (gas_refunded g) = unat (plan_gas_limit plan)" unfolding s(2) by linarith
  show "unat (floor_gas plan) \<le> unat (gas_used g)" "pre - pre div unat divisor \<le> unat (gas_used g)"
    "unat (gas_used g) \<le> max pre (unat (floor_gas plan))"
    unfolding s(1) by linarith+
qed

lemma calculateDefaultCosts_total:
  assumes ok: "gas_result_ok r" and floor: "floor_gas plan \<le> plan_gas_limit plan" and divisor: "divisor \<noteq> 0"
    and funds: "unat (plan_gas_limit plan) * unat (gas_price plan) < 2 ^ 256" and tip: "priority_fee plan \<le> gas_price plan"
  obtains c where "calculateDefaultCosts plan r sa divisor fl = Done c"
    "cost_gas c = settle_gas plan r sa divisor fl"
    "unat (payer_refund c) = unat (gas_refunded (cost_gas c)) * unat (gas_price plan)"
    "unat (fee_payment c) = unat (gas_used (cost_gas c)) * unat (priority_fee plan)"
proof -
  let ?g = "settle_gas plan r sa divisor fl"
  have sum: "unat (gas_used ?g) + unat (gas_refunded ?g) = unat (plan_gas_limit plan)"
    by (rule settle_gas_bounds [OF ok floor])
  have "unat (gas_refunded ?g) * unat (gas_price plan) \<le> unat (plan_gas_limit plan) * unat (gas_price plan)"
    using sum by (intro mult_le_mono1) linarith
  then have r: "unat (gas_refunded ?g) * unat (gas_price plan) < 2 ^ 256" using funds by linarith
  have "unat (gas_used ?g) * unat (priority_fee plan) \<le> unat (plan_gas_limit plan) * unat (gas_price plan)"
    using sum tip by (intro mult_le_mono) (simp_all add: word_le_nat_alt)
  then have f: "unat (gas_used ?g) * unat (priority_fee plan) < 2 ^ 256" using funds by linarith
  obtain rc where rc: "checkedGasCost (gas_refunded ?g) (gas_price plan) = Done rc"
    using unat_checkedGasCost(2) [OF r] by blast
  obtain fc where fc: "checkedGasCost (gas_used ?g) (priority_fee plan) = Done fc"
    using unat_checkedGasCost(2) [OF f] by blast
  show ?thesis
  proof (rule that)
    show "calculateDefaultCosts plan r sa divisor fl = Done \<lparr>cost_gas = ?g, payer_refund = rc, fee_payment = fc\<rparr>"
      using divisor by (simp add: calculateDefaultCosts_def Let_def rc fc)
  qed (use rc fc in \<open>simp_all add: unat_checkedGasCost(1)\<close>)
qed

text \<open>What is taken up front, on naturals: the gas and the blobs at their prices, or everything.\<close>

lemma unat_prechargeCost:
  "unat (prechargeCost schedule limit price fee n) =
     (case blobGasForCount schedule n of None \<Rightarrow> 2 ^ 256 - 1
      | Some blob_gas \<Rightarrow> min (unat limit * unat price + unat blob_gas * unat fee) (2 ^ 256 - 1))"
proof (cases "blobGasForCount schedule n")
  case (Some blob_gas)
  then have "unat (prechargeCost schedule limit price fee n) =
      min (min (unat limit * unat price) (2 ^ 256 - 1) + min (unat blob_gas * unat fee) (2 ^ 256 - 1)) (2 ^ 256 - 1)"
    by (simp add: prechargeCost_def Let_def unat_sat_add unat_sat_mul)
  then show ?thesis using Some by (simp add: min_def)
qed (simp add: prechargeCost_def)

end
