(* ===== verification/Zig_Gas.thy ===== *)
theory Zig_Gas
  imports Zig_Words
begin

text \<open>
  The gas counters of an activation: \<^verbatim>\<open>src/src/execution/accounting.zig\<close>, written for any owner of the
  counters (the call frame of \<^verbatim>\<open>Interpreter.zig\<close> and the ledger of \<^verbatim>\<open>execution/native_contract.zig\<close>),
  the unwinding of a failed activation in \<^verbatim>\<open>execution.zig\<close>, the stipend of a call that moves a value, the
  code deposit of a creation (\<^verbatim>\<open>finishCreate\<close> of \<^verbatim>\<open>executor.zig\<close>), and the split of a top frame's charge in
  \<^verbatim>\<open>executor/top_frame_gas.zig\<close>. A counter is an integer with the range of 64 signed bits: plain
  arithmetic out of the range traps, saturating arithmetic stops at its ends.

  The owners are extensions of one record of counters, and what the accounting relies on is the
  locale \<open>gas_owner\<close>, interpreted for both of them. Within it, a tree of activations conserves the regular gas and
  the state gas of every activation.
\<close>

section \<open>Signed counters\<close>

definition i64_max :: int where "i64_max = 2 ^ 63 - 1"
definition i64_min :: int where "i64_min = - (2 ^ 63)"

definition i64 :: "int \<Rightarrow> (unit, int) outcome" where
  "i64 x = zassert (i64_min \<le> x \<and> x \<le> i64_max) (Done x)"

definition sat :: "int \<Rightarrow> int" where
  "sat x = max i64_min (min i64_max x)"

record gas_counters =
  gas_left :: int
  gas_refund :: int
  gas_reservoir :: int
  state_gas_spent :: int
  state_gas_from_gas_left :: int

datatype exec_status = success | revert | invalid | out_of_gas

record host_result = gas_counters +
  res_status :: exec_status

type_synonym 'a tracker = "int \<Rightarrow> 'a gas_counters_scheme \<Rightarrow> (unit, bool \<times> 'a gas_counters_scheme) outcome"

section \<open>Accounting for any owner\<close>

definition trackStateGas :: "'a tracker \<Rightarrow> 'a tracker" where
  "trackStateGas trackGas gas self =
     (if gas \<le> 0 then Done (True, self)
      else let from_reservoir = min (max (gas_reservoir self) 0) gas; from_regular = gas - from_reservoir in
      zbind (trackGas from_regular self) (\<lambda>(ok, self).
      if \<not> ok then Done (False, self)
      else zbind (i64 (gas_reservoir self - from_reservoir)) (\<lambda>reservoir.
        Done (True, self\<lparr>gas_reservoir := reservoir,
          state_gas_from_gas_left := sat (state_gas_from_gas_left self + from_regular),
          state_gas_spent := sat (state_gas_spent self + gas)\<rparr>))))"

definition refillStateGas :: "int \<Rightarrow> 'a gas_counters_scheme \<Rightarrow> (unit, 'a gas_counters_scheme) outcome" where
  "refillStateGas gas self =
     (if gas \<le> 0 then Done self
      else let to_regular = min (state_gas_from_gas_left self) gas in
      zbind (i64 (state_gas_from_gas_left self - to_regular)) (\<lambda>spill.
      zbind (i64 (gas - to_regular)) (\<lambda>to_reservoir.
      Done (self\<lparr>gas_left := sat (gas_left self + to_regular),
        state_gas_from_gas_left := spill,
        gas_reservoir := sat (gas_reservoir self + to_reservoir),
        state_gas_spent := sat (state_gas_spent self - gas)\<rparr>))))"

definition repayStateGasSpill :: "'a gas_counters_scheme \<Rightarrow> (unit, 'a gas_counters_scheme) outcome" where
  "repayStateGasSpill self =
     zassert (gas_reservoir self \<ge> 0)
     (zassert (state_gas_from_gas_left self \<ge> 0)
     (let repayment = min (gas_reservoir self) (state_gas_from_gas_left self) in
      zbind (i64 (gas_left self + repayment)) (\<lambda>left.
      let self = self\<lparr>gas_left := left, gas_reservoir := gas_reservoir self - repayment,
        state_gas_from_gas_left := state_gas_from_gas_left self - repayment\<rparr> in
      zassert (gas_reservoir self = 0 \<or> state_gas_from_gas_left self = 0) (Done self))))"

definition settleChild :: "'a tracker \<Rightarrow> int \<Rightarrow> int \<Rightarrow> host_result \<Rightarrow> 'a gas_counters_scheme \<Rightarrow>
    (unit, bool \<times> 'a gas_counters_scheme) outcome" where
  "settleChild trackGas gas_limit state_gas_charged child self =
     (let succeeded = (res_status child = success) in
      zbind (i64 (gas_limit - max (gas_left child) 0)) (\<lambda>charge.
      zbind (trackGas charge self) (\<lambda>(gas_charged, self).
      let self = self\<lparr>gas_reservoir := gas_reservoir child,
        state_gas_spent := sat (state_gas_spent self + state_gas_spent child),
        state_gas_from_gas_left := sat (state_gas_from_gas_left self + state_gas_from_gas_left child)\<rparr> in
      zbind (if succeeded then repayStateGasSpill self else refillStateGas state_gas_charged self) (\<lambda>self.
      if \<not> gas_charged then Done (False, self)
      else if succeeded then zbind (i64 (gas_refund self + gas_refund child)) (\<lambda>refund.
        Done (True, self\<lparr>gas_refund := refund\<rparr>))
      else Done (True, self)))))"

section \<open>The end of an activation\<close>

definition unwindStateGas :: "bool \<Rightarrow> 'a gas_counters_scheme \<Rightarrow> 'a gas_counters_scheme" where
  "unwindStateGas restore_regular_gas r =
     (let reservoir_delta = sat (state_gas_spent r - state_gas_from_gas_left r);
          r1 = r\<lparr>gas_reservoir := sat (gas_reservoir r + reservoir_delta)\<rparr>;
          r2 = (if restore_regular_gas
            then r1\<lparr>gas_left := sat (gas_left r1 + state_gas_from_gas_left r1)\<rparr> else r1)
      in r2\<lparr>state_gas_spent := 0, state_gas_from_gas_left := 0\<rparr>)"

definition finalizeStateGas :: "host_result \<Rightarrow> host_result" where
  "finalizeStateGas r = (case res_status r of
     success \<Rightarrow> r
   | revert \<Rightarrow> unwindStateGas True r
   | invalid \<Rightarrow> unwindStateGas False r
   | out_of_gas \<Rightarrow> unwindStateGas False r)"

text \<open>What a result copies from the counters of its activation.\<close>

definition result_of :: "exec_status \<Rightarrow> int \<Rightarrow> 'a gas_counters_scheme \<Rightarrow> host_result" where
  "result_of st left s = \<lparr>gas_left = left, gas_refund = (if st = success then gas_refund s else 0),
     gas_reservoir = gas_reservoir s, state_gas_spent = state_gas_spent s,
     state_gas_from_gas_left = state_gas_from_gas_left s, res_status = st\<rparr>"

section \<open>The two owners\<close>

datatype frame_halt = HaltSuccess | HaltRevert | HaltOutOfGas | HaltInvalidOpcode | HaltStackUnderflow
  | HaltStackOverflow | HaltInvalidJump | HaltWriteProtection | HaltReturnDataOutOfBounds

definition halt_status :: "frame_halt \<Rightarrow> exec_status" where
  "halt_status h = (case h of HaltSuccess \<Rightarrow> success | HaltRevert \<Rightarrow> revert | HaltOutOfGas \<Rightarrow> out_of_gas | _ \<Rightarrow> invalid)"

definition consumesAllGas :: "frame_halt \<Rightarrow> bool" where
  "consumesAllGas h = (case h of HaltSuccess \<Rightarrow> False | HaltRevert \<Rightarrow> False | _ \<Rightarrow> True)"

datatype frame_state = Running | Suspended | Halted frame_halt

record call_frame = gas_counters +
  frame_state :: frame_state

definition halt :: "frame_halt \<Rightarrow> 'a call_frame_scheme \<Rightarrow> (unit, 'a call_frame_scheme) outcome" where
  "halt reason self =
     zassert (frame_state self = Running)
     (let self = self\<lparr>frame_state := Halted reason\<rparr> in
      Done (if consumesAllGas reason then self\<lparr>gas_left := 0\<rparr> else self))"

definition frame_trackGas :: "int \<Rightarrow> 'a call_frame_scheme \<Rightarrow> (unit, bool \<times> 'a call_frame_scheme) outcome" where
  "frame_trackGas gas self =
     (if gas > gas_left self then zbind (halt HaltOutOfGas self) (\<lambda>self. Done (False, self))
      else zbind (i64 (gas_left self - gas)) (\<lambda>left. Done (True, self\<lparr>gas_left := left\<rparr>)))"

definition frame_result :: "'a call_frame_scheme \<Rightarrow> (unit, host_result) outcome" where
  "frame_result self = (case frame_state self of
     Halted h \<Rightarrow> Done (finalizeStateGas (result_of (halt_status h) (gas_left self) self))
   | _ \<Rightarrow> Trap)"

record ledger = gas_counters +
  ledger_out_of_gas :: bool

definition ledger_trackGas :: "int \<Rightarrow> ledger \<Rightarrow> (unit, bool \<times> ledger) outcome" where
  "ledger_trackGas gas self =
     zassert (\<not> ledger_out_of_gas self)
     (if gas > gas_left self then Done (False, self\<lparr>ledger_out_of_gas := True, gas_left := 0\<rparr>)
      else zbind (i64 (gas_left self - gas)) (\<lambda>left. Done (True, self\<lparr>gas_left := left\<rparr>)))"

text \<open>\<^verbatim>\<open>finishNative\<close>: the status an entry returned, overruled by a static violation or spent gas. The two
  counters of the result are asserted not to be negative.\<close>

definition native_result :: "bool \<Rightarrow> exec_status \<Rightarrow> ledger \<Rightarrow> (unit, host_result) outcome" where
  "native_result violated done_status self =
     (let st = (if violated then invalid else if ledger_out_of_gas self then out_of_gas else done_status);
          keeps = (st = success \<or> st = revert);
          r = finalizeStateGas (result_of st (if keeps then gas_left self else 0) self)
      in zassert (gas_left r \<ge> 0 \<and> gas_reservoir r \<ge> 0) (Done r))"

section \<open>The end of a creation\<close>

text \<open>The late state charge on a completed result.\<close>

definition result_trackStateGas :: "int \<Rightarrow> host_result \<Rightarrow> (unit, host_result) outcome" where
  "result_trackStateGas gas self =
     (if gas \<le> 0 then Done self
      else let from_reservoir = min (max (gas_reservoir self) 0) gas; regular = gas - from_reservoir in
      if regular > gas_left self then Done (self\<lparr>res_status := out_of_gas, gas_left := 0\<rparr>)
      else zbind (i64 (gas_reservoir self - from_reservoir)) (\<lambda>res.
        zbind (i64 (gas_left self - regular)) (\<lambda>left.
        Done (self\<lparr>gas_reservoir := res, gas_left := left,
          state_gas_from_gas_left := sat (state_gas_from_gas_left self + regular),
          state_gas_spent := sat (state_gas_spent self + gas)\<rparr>))))"

text \<open>
  \<^verbatim>\<open>finishCreate\<close> of \<^verbatim>\<open>executor.zig\<close> in its gas: the output of a creation is its code, priced in regular and
  in state gas, where \<^verbatim>\<open>None\<close> is a price that overflows. A failure gives the state gas back and keeps no regular gas.
\<close>

record create_rules =
  code_size_limit :: "nat option"
  rejectsCode :: "bytes \<Rightarrow> bool"
  depositRegularGas :: "int \<Rightarrow> int option"
  depositStateGas :: "int \<Rightarrow> int option"
  deposit_regular_gas_oog_commits :: bool

definition createFailureFromResult :: "exec_status \<Rightarrow> host_result \<Rightarrow> host_result" where
  "createFailureFromResult st r = finalizeStateGas (r\<lparr>res_status := st, gas_left := 0, gas_refund := 0\<rparr>)"

definition finishCreate :: "create_rules \<Rightarrow> bytes \<Rightarrow> host_result \<Rightarrow> (unit, host_result) outcome" where
  "finishCreate rules output r =
     (if res_status r \<noteq> success then Done r
      else if (case code_size_limit rules of None \<Rightarrow> False | Some limit \<Rightarrow> length output > limit)
        then Done (createFailureFromResult out_of_gas r)
      else if rejectsCode rules output then Done (createFailureFromResult invalid r)
      else if int (length output) > i64_max then Done (createFailureFromResult out_of_gas r)
      else case depositRegularGas rules (int (length output)) of
        None \<Rightarrow> Done (createFailureFromResult out_of_gas r)
      | Some cost \<Rightarrow>
          if gas_left r < cost
          then Done (if deposit_regular_gas_oog_commits rules then r else createFailureFromResult out_of_gas r)
          else zbind (i64 (gas_left r - cost)) (\<lambda>left. let d = r\<lparr>gas_left := left\<rparr> in
            case depositStateGas rules (int (length output)) of
              None \<Rightarrow> Done (createFailureFromResult out_of_gas d)
            | Some state \<Rightarrow> zbind (result_trackStateGas state d) (\<lambda>d.
                Done (if res_status d \<noteq> success then createFailureFromResult (res_status d) d else d))))"

text \<open>The regular gas a creation that succeeds pays for its code: none when the deposit it cannot pay is forgiven.\<close>

definition code_deposit :: "create_rules \<Rightarrow> bytes \<Rightarrow> host_result \<Rightarrow> int" where
  "code_deposit rules output r = (case depositRegularGas rules (int (length output)) of
     Some cost \<Rightarrow> if gas_left r < cost then 0 else cost | None \<Rightarrow> 0)"

text \<open>
  The result of an activation that ends before a frame starts: a refused call or creation, an
  address collision, an empty callee, or a precompile.
\<close>

definition immediate_result :: "exec_status \<Rightarrow> int \<Rightarrow> int \<Rightarrow> host_result" where
  "immediate_result st left res = \<lparr>gas_left = left, gas_refund = 0, gas_reservoir = res, state_gas_spent = 0,
     state_gas_from_gas_left = 0, res_status = st\<rparr>"

text \<open>
  The stipend of a call that moves a value, added to the caller's counter and to the budget of the call
  (\<^verbatim>\<open>callByOp\<close> of \<^verbatim>\<open>instruction/system.zig\<close> and \<^verbatim>\<open>suspendOn\<close> of \<^verbatim>\<open>executor.zig\<close>).
\<close>

definition grantStipend :: "int \<Rightarrow> 'a gas_counters_scheme \<Rightarrow> (unit, 'a gas_counters_scheme) outcome" where
  "grantStipend stipend self = zbind (i64 (gas_left self + stipend)) (\<lambda>left. Done (self\<lparr>gas_left := left\<rparr>))"

section \<open>Trees of activations\<close>

text \<open>
  An activation starts fresh: a regular budget \<open>limit\<close>, the reservoir \<open>R\<close> of its parent, no state gas
  spent. A run takes its steps: regular charges, which are not negative, state charges, credits of state gas, the
  stipends of calls that move a value, and children settled with the result of an activation of their own on a budget the
  caller can cover. Three sums go with it, over the activation and all its descendants: \<open>u\<close>, the regular gas used up; \<open>t\<close>, the
  stipends granted; \<open>k\<close>, an upper bound of the state gas credited. A run stops with the result \<open>stops\<close> relates to
  its counters; a creation's result is charged for its code; and an activation may end before a frame starts.
\<close>

definition fresh :: "int \<Rightarrow> int \<Rightarrow> 'a gas_counters_scheme \<Rightarrow> bool" where
  "fresh limit R s \<longleftrightarrow> gas_left s = limit \<and> gas_reservoir s = R \<and> state_gas_spent s = 0 \<and> state_gas_from_gas_left s = 0"

inductive run1 :: "'a tracker \<Rightarrow> ('a gas_counters_scheme \<Rightarrow> host_result \<Rightarrow> bool) \<Rightarrow>
    'b tracker \<Rightarrow> ('b gas_counters_scheme \<Rightarrow> host_result \<Rightarrow> bool) \<Rightarrow> int \<Rightarrow> int \<Rightarrow> 'a gas_counters_scheme \<Rightarrow> int \<Rightarrow> int \<Rightarrow> int \<Rightarrow> bool"
  and run2 :: "'a tracker \<Rightarrow> ('a gas_counters_scheme \<Rightarrow> host_result \<Rightarrow> bool) \<Rightarrow>
    'b tracker \<Rightarrow> ('b gas_counters_scheme \<Rightarrow> host_result \<Rightarrow> bool) \<Rightarrow> int \<Rightarrow> int \<Rightarrow> 'b gas_counters_scheme \<Rightarrow> int \<Rightarrow> int \<Rightarrow> int \<Rightarrow> bool"
  and activation :: "'a tracker \<Rightarrow> ('a gas_counters_scheme \<Rightarrow> host_result \<Rightarrow> bool) \<Rightarrow>
    'b tracker \<Rightarrow> ('b gas_counters_scheme \<Rightarrow> host_result \<Rightarrow> bool) \<Rightarrow> int \<Rightarrow> int \<Rightarrow> host_result \<Rightarrow> int \<Rightarrow> int \<Rightarrow> int \<Rightarrow> bool"
  for track1 :: "'a tracker" and stops1 :: "'a gas_counters_scheme \<Rightarrow> host_result \<Rightarrow> bool"
    and track2 :: "'b tracker" and stops2 :: "'b gas_counters_scheme \<Rightarrow> host_result \<Rightarrow> bool" where
start1: "fresh limit R s \<Longrightarrow> 0 \<le> limit \<Longrightarrow> 0 \<le> R \<Longrightarrow> run1 track1 stops1 track2 stops2 limit R s 0 0 0"
| regular1: "run1 track1 stops1 track2 stops2 limit R s u t k \<Longrightarrow> 0 \<le> g \<Longrightarrow> track1 g s = Done (True, s') \<Longrightarrow>
    run1 track1 stops1 track2 stops2 limit R s' (u + g) t k"
| state_charge1: "run1 track1 stops1 track2 stops2 limit R s u t k \<Longrightarrow> trackStateGas track1 g s = Done (True, s') \<Longrightarrow>
    run1 track1 stops1 track2 stops2 limit R s' u t k"
| credit1: "run1 track1 stops1 track2 stops2 limit R s u t k \<Longrightarrow> refillStateGas g s = Done s' \<Longrightarrow>
    run1 track1 stops1 track2 stops2 limit R s' u t (k + max 0 g)"
| stipend1: "run1 track1 stops1 track2 stops2 limit R s u t k \<Longrightarrow> 0 \<le> g \<Longrightarrow> grantStipend g s = Done s' \<Longrightarrow>
    run1 track1 stops1 track2 stops2 limit R s' u (t + g) k"
| child1: "run1 track1 stops1 track2 stops2 limit R s u t k \<Longrightarrow> activation track1 stops1 track2 stops2 budget (gas_reservoir s) c v t' k' \<Longrightarrow>
    budget \<le> gas_left s \<Longrightarrow> settleChild track1 budget charged c s = Done (True, s') \<Longrightarrow>
    run1 track1 stops1 track2 stops2 limit R s' (u + v) (t + t') (k + k' + max 0 charged)"
| stop1: "run1 track1 stops1 track2 stops2 limit R s u t k \<Longrightarrow> stops1 s r \<Longrightarrow> res_status r \<in> {success, revert} \<Longrightarrow>
    activation track1 stops1 track2 stops2 limit R r u t k"
| fault1: "run1 track1 stops1 track2 stops2 limit R s u t k \<Longrightarrow> stops1 s r \<Longrightarrow> res_status r \<in> {invalid, out_of_gas} \<Longrightarrow>
    activation track1 stops1 track2 stops2 limit R r (limit + t) t k"
| start2: "fresh limit R s \<Longrightarrow> 0 \<le> limit \<Longrightarrow> 0 \<le> R \<Longrightarrow> run2 track1 stops1 track2 stops2 limit R s 0 0 0"
| regular2: "run2 track1 stops1 track2 stops2 limit R s u t k \<Longrightarrow> 0 \<le> g \<Longrightarrow> track2 g s = Done (True, s') \<Longrightarrow>
    run2 track1 stops1 track2 stops2 limit R s' (u + g) t k"
| state_charge2: "run2 track1 stops1 track2 stops2 limit R s u t k \<Longrightarrow> trackStateGas track2 g s = Done (True, s') \<Longrightarrow>
    run2 track1 stops1 track2 stops2 limit R s' u t k"
| credit2: "run2 track1 stops1 track2 stops2 limit R s u t k \<Longrightarrow> refillStateGas g s = Done s' \<Longrightarrow>
    run2 track1 stops1 track2 stops2 limit R s' u t (k + max 0 g)"
| stipend2: "run2 track1 stops1 track2 stops2 limit R s u t k \<Longrightarrow> 0 \<le> g \<Longrightarrow> grantStipend g s = Done s' \<Longrightarrow>
    run2 track1 stops1 track2 stops2 limit R s' u (t + g) k"
| child2: "run2 track1 stops1 track2 stops2 limit R s u t k \<Longrightarrow> activation track1 stops1 track2 stops2 budget (gas_reservoir s) c v t' k' \<Longrightarrow>
    budget \<le> gas_left s \<Longrightarrow> settleChild track2 budget charged c s = Done (True, s') \<Longrightarrow>
    run2 track1 stops1 track2 stops2 limit R s' (u + v) (t + t') (k + k' + max 0 charged)"
| stop2: "run2 track1 stops1 track2 stops2 limit R s u t k \<Longrightarrow> stops2 s r \<Longrightarrow> res_status r \<in> {success, revert} \<Longrightarrow>
    activation track1 stops1 track2 stops2 limit R r u t k"
| fault2: "run2 track1 stops1 track2 stops2 limit R s u t k \<Longrightarrow> stops2 s r \<Longrightarrow> res_status r \<in> {invalid, out_of_gas} \<Longrightarrow>
    activation track1 stops1 track2 stops2 limit R r (limit + t) t k"
| immediate: "0 \<le> R \<Longrightarrow> 0 \<le> left \<Longrightarrow> left \<le> limit \<Longrightarrow>
    activation track1 stops1 track2 stops2 limit R (immediate_result st left R) (limit - left) 0 0"
| created: "activation track1 stops1 track2 stops2 limit R c u t k \<Longrightarrow> finishCreate rules output c = Done r \<Longrightarrow>
    res_status r = success \<Longrightarrow> 0 \<le> code_deposit rules output c \<Longrightarrow>
    activation track1 stops1 track2 stops2 limit R r (u + code_deposit rules output c) t k"
| not_created: "activation track1 stops1 track2 stops2 limit R c u t k \<Longrightarrow> res_status c = success \<Longrightarrow>
    finishCreate rules output c = Done r \<Longrightarrow> res_status r \<noteq> success \<Longrightarrow>
    activation track1 stops1 track2 stops2 limit R r (limit + t) t k"

text \<open>The two balances of the counters of an activation, and of its result.\<close>

definition balanced :: "int \<Rightarrow> int \<Rightarrow> 'a gas_counters_scheme \<Rightarrow> int \<Rightarrow> bool" where
  "balanced limit R s u \<longleftrightarrow>
     0 \<le> u \<and> 0 \<le> gas_left s \<and> 0 \<le> gas_reservoir s \<and> 0 \<le> state_gas_from_gas_left s \<and>
     gas_left s + state_gas_from_gas_left s + u = limit \<and>
     gas_reservoir s + state_gas_spent s - state_gas_from_gas_left s = R"

lemma i64_Done [zig_simps]: "i64 x = Done y \<longleftrightarrow> y = x \<and> i64_min \<le> x \<and> x \<le> i64_max"
  by (auto simp: i64_def zassert_def)

lemma sat_small: "i64_min \<le> x \<Longrightarrow> x \<le> i64_max \<Longrightarrow> sat x = x"
  by (simp add: sat_def)

text \<open>
  The counters of an activation are balanced over \<open>L\<close>, its budget and the stipends granted, and its state gas has not fallen below what was
  credited. As long as the sum of the pools is in range, so is every counter, and no saturating operation saturates.
\<close>

definition accounted :: "int \<Rightarrow> int \<Rightarrow> 'a gas_counters_scheme \<Rightarrow> int \<Rightarrow> int \<Rightarrow> bool" where
  "accounted L R s u k \<longleftrightarrow> balanced L R s u \<and> 0 \<le> k \<and> - k \<le> state_gas_spent s"

definition representable :: "int \<Rightarrow> int \<Rightarrow> int \<Rightarrow> bool" where
  "representable L R k \<longleftrightarrow> 0 \<le> R \<and> L + R + k \<le> i64_max"

lemma accounted_bounds:
  assumes "accounted L R s u k" and "representable L R k"
  shows "gas_left s + state_gas_from_gas_left s \<le> L" "gas_left s + gas_reservoir s \<le> L + R + k"
    "state_gas_spent s \<le> L + R" "0 \<le> gas_left s" "0 \<le> gas_reservoir s" "0 \<le> state_gas_from_gas_left s" "- k \<le> state_gas_spent s"
    "0 \<le> u" "0 \<le> k" "0 \<le> R" "L + R + k \<le> i64_max" "i64_min + i64_max = -1"
  using assms by (simp_all add: accounted_def representable_def balanced_def i64_min_def i64_max_def)

lemma credit_accounted:
  assumes a: "accounted L R s u k" and r: "refillStateGas g s = Done s'" and B: "representable L R (k + max 0 g)"
  shows "accounted L R s' u (k + max 0 g)"
proof (cases "g \<le> 0")
  case True
  with r a show ?thesis by (simp add: refillStateGas_def)
next
  case False
  let ?t = "min (state_gas_from_gas_left s) g"
  from r False have s': "s' = s\<lparr>gas_left := sat (gas_left s + ?t),
      state_gas_from_gas_left := state_gas_from_gas_left s - ?t,
      gas_reservoir := sat (gas_reservoir s + (g - ?t)), state_gas_spent := sat (state_gas_spent s - g)\<rparr>"
    by (auto simp: refillStateGas_def Let_def zig_simps)
  have b: "representable L R k" using B False by (simp add: representable_def)
  note i = accounted_bounds [OF a b]
  have B': "L + R + (k + g) \<le> i64_max" using B False by (simp add: representable_def)
  have t: "0 \<le> ?t" "?t \<le> state_gas_from_gas_left s" "?t \<le> g" using i False by simp_all
  have c: "gas_reservoir s + state_gas_spent s - state_gas_from_gas_left s = R" using a by (simp add: accounted_def balanced_def)
  have e: "sat (gas_left s + ?t) = gas_left s + ?t" "sat (gas_reservoir s + (g - ?t)) = gas_reservoir s + (g - ?t)"
    "sat (state_gas_spent s - g) = state_gas_spent s - g"
    by (rule sat_small; use i t B' c False in linarith)+
  show ?thesis using a False unfolding s' e by (auto simp: accounted_def balanced_def)
qed

lemma repay_accounted:
  assumes b: "accounted L R s u k" and r: "repayStateGasSpill s = Done s'"
  shows "accounted L R s' u k"
  using b r by (auto simp: repayStateGasSpill_def accounted_def balanced_def Let_def zig_simps min_def split: if_splits)

lemma repay_refund: "repayStateGasSpill s = Done s' \<Longrightarrow> gas_refund s' = gas_refund s"
  by (auto simp: repayStateGasSpill_def Let_def zig_simps)

lemma start_accounted: "fresh limit R s \<Longrightarrow> 0 \<le> limit \<Longrightarrow> 0 \<le> R \<Longrightarrow> accounted limit R s 0 0"
  by (simp add: fresh_def accounted_def balanced_def)

lemma stipend_accounted: "accounted (limit + t) R s u k \<Longrightarrow> 0 \<le> g \<Longrightarrow> grantStipend g s = Done s' \<Longrightarrow>
    accounted (limit + (t + g)) R s' u k"
  by (auto simp: grantStipend_def accounted_def balanced_def zig_simps)

text \<open>The result of an activation: one that does not succeed keeps no state gas.\<close>

definition result_ok :: "int \<Rightarrow> int \<Rightarrow> host_result \<Rightarrow> int \<Rightarrow> int \<Rightarrow> bool" where
  "result_ok L R r u k \<longleftrightarrow> accounted L R r u k \<and>
     (res_status r \<noteq> success \<longrightarrow> state_gas_spent r = 0 \<and> state_gas_from_gas_left r = 0)"

lemma unwound:
  assumes a: "accounted L R s u k" and B: "representable L R k" and l: "gas_left s' = gas_left s \<or> gas_left s' = 0"
    and s': "gas_reservoir s' = gas_reservoir s" "state_gas_spent s' = state_gas_spent s"
      "state_gas_from_gas_left s' = state_gas_from_gas_left s"
  shows "gas_reservoir (unwindStateGas b s') = R" "state_gas_spent (unwindStateGas b s') = 0"
    "state_gas_from_gas_left (unwindStateGas b s') = 0"
    "gas_left (unwindStateGas b s') = gas_left s' + (if b then state_gas_from_gas_left s' else 0)"
proof -
  note i = accounted_bounds [OF a B]
  have c: "gas_reservoir s + state_gas_spent s - state_gas_from_gas_left s = R" using a by (simp add: accounted_def balanced_def)
  have e: "sat (state_gas_spent s - state_gas_from_gas_left s) = state_gas_spent s - state_gas_from_gas_left s"
    by (rule sat_small; use i c in linarith)
  have f: "sat (gas_reservoir s + (state_gas_spent s - state_gas_from_gas_left s)) = R"
  proof -
    have "gas_reservoir s + (state_gas_spent s - state_gas_from_gas_left s) = R" using c by simp
    moreover have "sat R = R" by (rule sat_small; use i c in linarith)
    ultimately show ?thesis by simp
  qed
  have g: "sat (gas_left s' + state_gas_from_gas_left s) = gas_left s' + state_gas_from_gas_left s"
    by (rule sat_small; use i l in linarith)
  show "gas_reservoir (unwindStateGas b s') = R" "state_gas_spent (unwindStateGas b s') = 0"
    "state_gas_from_gas_left (unwindStateGas b s') = 0"
    "gas_left (unwindStateGas b s') = gas_left s' + (if b then state_gas_from_gas_left s' else 0)"
    by (simp_all add: unwindStateGas_def Let_def s' e f g)
qed

lemma failure_accounted:
  assumes a: "accounted L R s u k" and B: "representable L R k" and st: "st = invalid \<or> st = out_of_gas" and L: "0 \<le> L"
    and s': "gas_left s' = 0" "gas_reservoir s' = gas_reservoir s" "state_gas_spent s' = state_gas_spent s"
      "state_gas_from_gas_left s' = state_gas_from_gas_left s" "res_status s' = st"
  shows "result_ok L R (finalizeStateGas s') L k \<and> res_status (finalizeStateGas s') = st"
proof -
  have "finalizeStateGas s' = unwindStateGas False s'" using st s' by (auto simp: finalizeStateGas_def)
  moreover have "res_status (unwindStateGas False s') = st" using s' by (simp add: unwindStateGas_def Let_def)
  ultimately show ?thesis using unwound [OF a B _ s'(2-4), of False] s'(1) a B L
    by (simp add: result_ok_def accounted_def balanced_def representable_def)
qed

lemma late_charge:
  assumes a: "accounted L R r u k" and B: "representable L R k" and t: "result_trackStateGas g r = Done r'" and ok: "res_status r = success"
  shows "res_status r' = success \<Longrightarrow> accounted L R r' u k"
    and "res_status r' \<noteq> success \<Longrightarrow> r' = r\<lparr>res_status := out_of_gas, gas_left := 0\<rparr>"
proof -
  note i = accounted_bounds [OF a B]
  have p: "gas_reservoir r + state_gas_spent r - state_gas_from_gas_left r = R" using a by (simp add: accounted_def balanced_def)
  let ?r = "min (max (gas_reservoir r) 0) g"
  show "res_status r' = success \<Longrightarrow> accounted L R r' u k"
  proof (cases "g \<le> 0")
    case True
    then show ?thesis using t a by (simp add: result_trackStateGas_def)
  next
    case False
    assume "res_status r' = success"
    then have fits: "g - ?r \<le> gas_left r" and r': "r' = r\<lparr>gas_reservoir := gas_reservoir r - ?r, gas_left := gas_left r - (g - ?r),
        state_gas_from_gas_left := sat (state_gas_from_gas_left r + (g - ?r)), state_gas_spent := sat (state_gas_spent r + g)\<rparr>"
      using t False by (auto simp: result_trackStateGas_def Let_def zig_simps split: if_splits)
    have m: "0 \<le> ?r" "?r \<le> gas_reservoir r" "?r \<le> g" using i False by simp_all
    have e: "sat (state_gas_from_gas_left r + (g - ?r)) = state_gas_from_gas_left r + (g - ?r)"
      "sat (state_gas_spent r + g) = state_gas_spent r + g"
      by (rule sat_small; use i p m fits False in linarith)+
    show ?thesis using a m fits False unfolding r' e by (auto simp: accounted_def balanced_def)
  qed
  show "res_status r' \<noteq> success \<Longrightarrow> r' = r\<lparr>res_status := out_of_gas, gas_left := 0\<rparr>"
    using t ok by (auto simp: result_trackStateGas_def Let_def zig_simps split: if_splits)
qed

lemma created_ok:
  assumes a: "result_ok L R c u k" and B: "representable L R k" and f: "finishCreate rules output c = Done r"
    and ok: "res_status r = success" and n: "0 \<le> code_deposit rules output c"
  shows "result_ok L R r (u + code_deposit rules output c) k"
proof -
  have fin: "res_status (createFailureFromResult st x) = st" for st x
    by (cases st) (simp_all add: createFailureFromResult_def finalizeStateGas_def unwindStateGas_def Let_def)
  obtain cost where c: "res_status c = success" "depositRegularGas rules (int (length output)) = Some cost"
    using f ok by (auto simp: finishCreate_def fin split: if_splits option.splits)
  show ?thesis
  proof (cases "gas_left c < cost")
    case True
    then have "r = c" "code_deposit rules output c = 0"
      using f ok c by (auto simp: finishCreate_def fin code_deposit_def split: if_splits option.splits)
    then show ?thesis using a by simp
  next
    case False
    let ?d = "c\<lparr>gas_left := gas_left c - cost\<rparr>"
    have dep: "code_deposit rules output c = cost" using False c by (simp add: code_deposit_def)
    obtain g where g: "depositStateGas rules (int (length output)) = Some g" "result_trackStateGas g ?d = Done r"
      using f ok c False by (auto simp: finishCreate_def fin Let_def zig_simps split: if_splits option.splits)
    have "accounted L R ?d (u + cost) k"
      using a n dep False by (simp add: result_ok_def accounted_def balanced_def)
    from late_charge(1) [OF this B g(2) _ ok] c(1) dep show ?thesis by (simp add: result_ok_def ok)
  qed
qed

lemma not_created_ok:
  assumes a: "result_ok L R c u k" and B: "representable L R k" and f: "finishCreate rules output c = Done r"
    and ok: "res_status c = success" and bad: "res_status r \<noteq> success" and L: "0 \<le> L"
  shows "result_ok L R r L k"
proof -
  have acc: "accounted L R c u k" using a by (simp add: result_ok_def)
  have fail: "result_ok L R (createFailureFromResult st d) L k"
    if "st = invalid \<or> st = out_of_gas" "gas_reservoir d = gas_reservoir c" "state_gas_spent d = state_gas_spent c"
      "state_gas_from_gas_left d = state_gas_from_gas_left c" for st d
    unfolding createFailureFromResult_def
    by (rule failure_accounted [OF acc B that(1) L, THEN conjunct1]) (simp_all add: that)
  have late: "d = c\<lparr>gas_left := 0, res_status := out_of_gas\<rparr>"
    if "result_trackStateGas g (c\<lparr>gas_left := x\<rparr>) = Done d" "res_status d \<noteq> success" for g d x
    using that ok by (auto simp: result_trackStateGas_def Let_def zig_simps split: if_splits)
  have "\<exists>st d. r = createFailureFromResult st d \<and> (st = invalid \<or> st = out_of_gas) \<and> gas_reservoir d = gas_reservoir c \<and>
    state_gas_spent d = state_gas_spent c \<and> state_gas_from_gas_left d = state_gas_from_gas_left c"
    using f ok bad by (auto simp: finishCreate_def Let_def zig_simps dest!: late split: if_splits option.splits) fastforce+
  then obtain st d where r: "r = createFailureFromResult st d" "st = invalid \<or> st = out_of_gas" "gas_reservoir d = gas_reservoir c"
    "state_gas_spent d = state_gas_spent c" "state_gas_from_gas_left d = state_gas_from_gas_left c" by blast
  show ?thesis unfolding r(1) by (rule fail [OF r(2-5)])
qed

section \<open>What the accounting relies on\<close>

text \<open>
  The contract of an owner: a granted charge takes exactly its gas, a refused one is larger than what is
  left, takes everything and leaves the state counters alone; a live owner always answers; and a
  stop copies the counters into a result that keeps the remaining gas on success or revert only, and is finalized.
\<close>

locale gas_owner =
  fixes trackGas :: "'a tracker"
    and live :: "'a gas_counters_scheme \<Rightarrow> bool"
    and stops :: "'a gas_counters_scheme \<Rightarrow> host_result \<Rightarrow> bool"
  assumes granted: "trackGas g s = Done (True, s') \<Longrightarrow> g \<le> gas_left s \<and> gas_left s' = gas_left s - g \<and>
      gas_refund s' = gas_refund s \<and> gas_reservoir s' = gas_reservoir s \<and> state_gas_spent s' = state_gas_spent s \<and>
      state_gas_from_gas_left s' = state_gas_from_gas_left s"
    and refused: "trackGas g s = Done (False, s') \<Longrightarrow> gas_left s < g \<and> gas_left s' = 0 \<and>
      gas_refund s' = gas_refund s \<and> gas_reservoir s' = gas_reservoir s \<and> state_gas_spent s' = state_gas_spent s \<and>
      state_gas_from_gas_left s' = state_gas_from_gas_left s"
    and answers: "live s \<Longrightarrow> 0 \<le> g \<Longrightarrow> 0 \<le> gas_left s \<Longrightarrow> gas_left s \<le> i64_max \<Longrightarrow>
      \<exists>b s'. trackGas g s = Done (b, s')"
    and stopped: "stops s r \<Longrightarrow> \<exists>st. r = finalizeStateGas
      (result_of st (if st = success \<or> st = revert then gas_left s else 0) s)"
begin

lemma regular_accounted:
  "accounted L R s u k \<Longrightarrow> 0 \<le> g \<Longrightarrow> trackGas g s = Done (True, s') \<Longrightarrow> accounted L R s' (u + g) k"
  using granted [of g s s'] by (auto simp: accounted_def balanced_def)

lemma state_charge_accounted:
  assumes a: "accounted L R s u k" and t: "trackStateGas trackGas g s = Done (True, s')" and B: "representable L R k"
  shows "accounted L R s' u k"
proof (cases "g \<le> 0")
  case True
  with t a show ?thesis by (simp add: trackStateGas_def)
next
  case False
  let ?r = "min (max (gas_reservoir s) 0) g"
  from t False obtain s1 where s1: "trackGas (g - ?r) s = Done (True, s1)"
    and s': "s' = s1\<lparr>gas_reservoir := gas_reservoir s1 - ?r,
      state_gas_from_gas_left := sat (state_gas_from_gas_left s1 + (g - ?r)),
      state_gas_spent := sat (state_gas_spent s1 + g)\<rparr>"
    by (auto simp: trackStateGas_def Let_def zig_simps split: if_splits)
  note i = accounted_bounds [OF a B] and G = granted [OF s1]
  have c: "gas_reservoir s + state_gas_spent s - state_gas_from_gas_left s = R" using a by (simp add: accounted_def balanced_def)
  have r: "0 \<le> ?r" "?r \<le> gas_reservoir s" "?r \<le> g" using i False by simp_all
  have e: "sat (state_gas_from_gas_left s1 + (g - ?r)) = state_gas_from_gas_left s1 + (g - ?r)"
    "sat (state_gas_spent s1 + g) = state_gas_spent s1 + g"
    by (rule sat_small; use i G r c False in linarith)+
  show ?thesis
    using a G False unfolding s' e by (auto simp: accounted_def balanced_def)
qed

abbreviation taken_over :: "host_result \<Rightarrow> 'a gas_counters_scheme \<Rightarrow> 'a gas_counters_scheme" where
  "taken_over c s \<equiv> s\<lparr>gas_reservoir := gas_reservoir c,
    state_gas_spent := sat (state_gas_spent s + state_gas_spent c),
    state_gas_from_gas_left := sat (state_gas_from_gas_left s + state_gas_from_gas_left c)\<rparr>"

lemma settle_parts:
  assumes t: "settleChild trackGas budget charged c s = Done (True, s')" and cl: "0 \<le> gas_left c"
  obtains s1 s2 x where "trackGas (budget - gas_left c) s = Done (True, s1)"
    and "if res_status c = success then repayStateGasSpill (taken_over c s1) = Done s2 \<and> s' = s2\<lparr>gas_refund := x\<rparr>
      else refillStateGas charged (taken_over c s1) = Done s'"
proof -
  let ?rest = "\<lambda>ok s1. zbind (if res_status c = success then repayStateGasSpill (taken_over c s1)
      else refillStateGas charged (taken_over c s1)) (\<lambda>self.
    if \<not> ok then Done (False, self)
    else if res_status c = success then zbind (i64 (gas_refund self + gas_refund c)) (\<lambda>refund. Done (True, self\<lparr>gas_refund := refund\<rparr>))
    else Done (True, self))"
  have m: "max (gas_left c) 0 = gas_left c" using cl by simp
  obtain ok s1 where t1: "trackGas (budget - gas_left c) s = Done (ok, s1)" and r1: "?rest ok s1 = Done (True, s')"
    using t unfolding settleChild_def Let_def m zbind_Done_iff [of "i64 _"] zbind_Done_iff [of "trackGas _ _"] i64_Done
    by auto
  have ok: "ok" using r1 by (cases ok) (auto simp: zbind_Done_iff)
  show ?thesis
  proof (cases "res_status c = success")
    case True
    then obtain s2 x where "repayStateGasSpill (taken_over c s1) = Done s2" "s' = s2\<lparr>gas_refund := x\<rparr>"
      using r1 ok by (auto simp: zbind_Done_iff)
    with True t1 ok that show ?thesis by auto
  next
    case False
    then have "refillStateGas charged (taken_over c s1) = Done s'" using r1 ok by (auto simp: zbind_Done_iff)
    with False t1 ok that show ?thesis by auto
  qed
qed

text \<open>A child that was balanced over its budget and the reservoir it got.\<close>

lemma child_accounted:
  assumes a: "accounted (limit + t) R s u k" and c: "result_ok (budget + t') (gas_reservoir s) c v k'"
    and budget: "budget \<le> gas_left s" "0 \<le> t'"
    and settle: "settleChild trackGas budget charged c s = Done (True, s')"
    and B: "representable (limit + (t + t')) R (k + k' + max 0 charged)"
  shows "accounted (limit + (t + t')) R s' (u + v) (k + k' + max 0 charged)"
proof -
  have cb: "balanced (budget + t') (gas_reservoir s) c v" "0 \<le> k'" "- k' \<le> state_gas_spent c"
    and fail: "res_status c \<noteq> success \<Longrightarrow> state_gas_spent c = 0 \<and> state_gas_from_gas_left c = 0"
    using c by (simp_all add: result_ok_def accounted_def)
  have cl: "0 \<le> gas_left c" using cb by (simp add: balanced_def)
  have b: "representable (limit + t) R k"
    unfolding representable_def using B [unfolded representable_def] cb(2) budget(2) max.cobounded1 [of 0 charged] by linarith
  have B': "limit + (t + t') + R + (k + k') \<le> i64_max"
    using B [unfolded representable_def] max.cobounded1 [of 0 charged] by linarith
  obtain s1 s2 x where s1: "trackGas (budget - gas_left c) s = Done (True, s1)"
    and rest: "if res_status c = success then repayStateGasSpill (taken_over c s1) = Done s2 \<and> s' = s2\<lparr>gas_refund := x\<rparr>
      else refillStateGas charged (taken_over c s1) = Done s'"
    using settle_parts [OF settle cl] by blast
  note g = granted [OF s1] and i = accounted_bounds [OF a b]
  have p: "gas_reservoir s + state_gas_spent s - state_gas_from_gas_left s = R"
    "gas_left s + state_gas_from_gas_left s + u = limit + t" using a by (simp_all add: accounted_def balanced_def)
  have q: "gas_left c + state_gas_from_gas_left c + v = budget + t'" "0 \<le> v" "0 \<le> state_gas_from_gas_left c" "0 \<le> gas_reservoir c"
    "gas_reservoir c + state_gas_spent c - state_gas_from_gas_left c = gas_reservoir s"
    using cb by (simp_all add: balanced_def)
  have spill: "sat (state_gas_from_gas_left s1 + state_gas_from_gas_left c) =
      state_gas_from_gas_left s + state_gas_from_gas_left c"
    using g by (subst sat_small; use i p q cb budget B' in linarith)
  have spent: "sat (state_gas_spent s1 + state_gas_spent c) = state_gas_spent s + state_gas_spent c"
    using g by (subst sat_small; use i p q cb budget B' in linarith)
  have mid: "accounted (limit + (t + t')) R (taken_over c s1) (u + v) (k + k')"
    using a c g q cb spill spent unfolding accounted_def result_ok_def by (auto simp: balanced_def)
  show ?thesis
  proof (cases "res_status c = success")
    case True
    then show ?thesis using repay_accounted [OF mid] rest by (auto simp: accounted_def balanced_def)
  next
    case False
    then show ?thesis using credit_accounted [OF mid _ B] rest by auto
  qed
qed

lemma stopped_ok:
  assumes a: "accounted L R s u k" and r: "stops s r" and B: "representable L R k" and L: "0 \<le> L"
  shows "result_ok L R r (if res_status r \<in> {success, revert} then u else L) k"
proof -
  obtain st where st: "r = finalizeStateGas (result_of st (if st = success \<or> st = revert then gas_left s else 0) s)"
    using stopped [OF r] by blast
  show ?thesis
  proof (cases "st = invalid \<or> st = out_of_gas")
    case True
    let ?s' = "result_of st 0 s"
    have r': "r = finalizeStateGas ?s'" using st True by auto
    have "result_ok L R (finalizeStateGas ?s') L k \<and> res_status (finalizeStateGas ?s') = st"
      by (rule failure_accounted [OF a B True L]) (simp_all add: result_of_def)
    then show ?thesis unfolding r' using True by auto
  next
    case False
    then have k: "st = success \<or> st = revert" by (cases st) simp_all
    then have r': "r = finalizeStateGas (result_of st (gas_left s) s)" using st by auto
    show ?thesis
    proof (cases "st = success")
      case True
      then have r2: "r = result_of success (gas_left s) s" using r' by (simp add: finalizeStateGas_def result_of_def)
      show ?thesis using a unfolding r2 by (simp add: result_ok_def accounted_def balanced_def result_of_def)
    next
      case False
      then have "st = revert" using k by simp
      then have r2: "r = unwindStateGas True (result_of revert (gas_left s) s)"
        using r' by (simp add: finalizeStateGas_def result_of_def)
      have status: "res_status r = revert" unfolding r2 by (simp add: unwindStateGas_def Let_def result_of_def)
      have "gas_reservoir r = R" "state_gas_spent r = 0" "state_gas_from_gas_left r = 0"
        "gas_left r = gas_left s + state_gas_from_gas_left s"
        using unwound [OF a B, of "result_of revert (gas_left s) s" True] unfolding r2 by (simp_all add: result_of_def)
      then show ?thesis using a B status by (simp add: result_ok_def accounted_def balanced_def representable_def)
    qed
  qed
qed

text \<open>A state charge draws on the reservoir first, is granted exactly when both pools cover it, and a refused one
  leaves the state counters as they were.\<close>

lemma state_charge_exact:
  assumes l: "live s" and left: "0 \<le> gas_left s" "gas_left s \<le> i64_max" and res: "0 \<le> gas_reservoir s" "gas_reservoir s \<le> i64_max"
    and g: "0 < g"
  obtains granted s' where "trackStateGas trackGas g s = Done (granted, s')"
    and "granted \<longleftrightarrow> g \<le> gas_left s + gas_reservoir s"
    and "granted \<Longrightarrow> gas_reservoir s' = max (gas_reservoir s - g) 0 \<and>
      gas_left s' + gas_reservoir s' = gas_left s + gas_reservoir s - g"
    and "\<not> granted \<Longrightarrow> gas_left s' = 0 \<and> gas_reservoir s' = gas_reservoir s \<and> state_gas_spent s' = state_gas_spent s \<and>
      state_gas_from_gas_left s' = state_gas_from_gas_left s"
proof -
  let ?r = "min (gas_reservoir s) g"
  have m: "max (gas_reservoir s) 0 = gas_reservoir s" using res by simp
  have "0 \<le> g - ?r" by simp
  from answers [OF l this left] obtain b s1 where s1: "trackGas (g - ?r) s = Done (b, s1)" by blast
  show ?thesis
  proof (cases b)
    case True
    then have t: "trackGas (g - ?r) s = Done (True, s1)" using s1 by simp
    note G = granted [OF t]
    let ?s' = "s1\<lparr>gas_reservoir := gas_reservoir s1 - ?r,
      state_gas_from_gas_left := sat (state_gas_from_gas_left s1 + (g - ?r)), state_gas_spent := sat (state_gas_spent s1 + g)\<rparr>"
    have "i64 (gas_reservoir s1 - ?r) = Done (gas_reservoir s1 - ?r)"
      using G res g unfolding i64_Done by (auto simp: i64_min_def i64_max_def min_def)
    then have "trackStateGas trackGas g s = Done (True, ?s')"
      using g t by (simp add: trackStateGas_def Let_def m)
    moreover have "g \<le> gas_left s + gas_reservoir s" "gas_reservoir ?s' = max (gas_reservoir s - g) 0"
      "gas_left ?s' + gas_reservoir ?s' = gas_left s + gas_reservoir s - g"
      using G by (simp_all add: min_def max_def split: if_splits)
    ultimately show ?thesis using that [of True ?s'] by blast
  next
    case False
    then have t: "trackGas (g - ?r) s = Done (False, s1)" using s1 by simp
    note G = refused [OF t]
    have "trackStateGas trackGas g s = Done (False, s1)" using g t by (simp add: trackStateGas_def Let_def m)
    moreover have "\<not> g \<le> gas_left s + gas_reservoir s" using G left by (simp add: min_def split: if_splits)
    ultimately show ?thesis using that [of False s1] G by blast
  qed
qed

end

text \<open>Two owners whose activations call each other.\<close>

locale gas_owners = o1: gas_owner track1 live1 stops1 + o2: gas_owner track2 live2 stops2
  for track1 :: "'a tracker" and live1 and stops1
    and track2 :: "'b tracker" and live2 and stops2
begin

text \<open>The sums of a tree only grow.\<close>

lemma sums_grow:
  "(run1 track1 stops1 track2 stops2 limit R s u t k \<longrightarrow> 0 \<le> limit \<and> 0 \<le> R \<and> 0 \<le> t \<and> 0 \<le> k) \<and>
   (run2 track1 stops1 track2 stops2 limit2 R2 s2 u2 t2 k2 \<longrightarrow> 0 \<le> limit2 \<and> 0 \<le> R2 \<and> 0 \<le> t2 \<and> 0 \<le> k2) \<and>
   (activation track1 stops1 track2 stops2 limit3 R3 r u3 t3 k3 \<longrightarrow> 0 \<le> limit3 \<and> 0 \<le> R3 \<and> 0 \<le> t3 \<and> 0 \<le> k3)"
  by (induction rule: run1_run2_activation.induct) simp_all

lemma run_sums:
  "run1 track1 stops1 track2 stops2 limit R s1 u t k \<Longrightarrow> 0 \<le> limit \<and> 0 \<le> R \<and> 0 \<le> t \<and> 0 \<le> k"
  "run2 track1 stops1 track2 stops2 limit R s2 u t k \<Longrightarrow> 0 \<le> limit \<and> 0 \<le> R \<and> 0 \<le> t \<and> 0 \<le> k"
  "activation track1 stops1 track2 stops2 limit R r u t k \<Longrightarrow> 0 \<le> limit \<and> 0 \<le> R \<and> 0 \<le> t \<and> 0 \<le> k"
  using sums_grow by blast+

lemma representable_less: "representable L R k \<Longrightarrow> L' \<le> L \<Longrightarrow> k' \<le> k \<Longrightarrow> representable L' R k'"
  by (simp add: representable_def)

text \<open>Every activation, with all its descendants, balances the budget and the reservoir it was given.\<close>

lemma tree_balanced:
  "(run1 track1 stops1 track2 stops2 limit R s u t k \<longrightarrow>
     representable (limit + t) R k \<longrightarrow> accounted (limit + t) R s u k) \<and>
   (run2 track1 stops1 track2 stops2 limit2 R2 s2 u2 t2 k2 \<longrightarrow>
     representable (limit2 + t2) R2 k2 \<longrightarrow> accounted (limit2 + t2) R2 s2 u2 k2) \<and>
   (activation track1 stops1 track2 stops2 limit3 R3 r u3 t3 k3 \<longrightarrow>
     representable (limit3 + t3) R3 k3 \<longrightarrow> result_ok (limit3 + t3) R3 r u3 k3)"
proof (induction rule: run1_run2_activation.induct)
  case (start1 limit R s)
  then show ?case using start_accounted by auto
next
  case (regular1 limit R s u t k g s')
  then show ?case using o1.regular_accounted by blast
next
  case (state_charge1 limit R s u t k g s')
  then show ?case using o1.state_charge_accounted by blast
next
  case (credit1 limit R s u t k g s')
  show ?case
  proof
    assume B: "representable (limit + t) R (k + max 0 g)"
    then have "representable (limit + t) R k" by (rule representable_less) simp_all
    then have "accounted (limit + t) R s u k" using credit1.IH(2) by simp
    from credit_accounted [OF this \<open>refillStateGas g s = Done s'\<close> B] show "accounted (limit + t) R s' u (k + max 0 g)" .
  qed
next
  case (stipend1 limit R s u t k g s')
  show ?case
  proof
    assume "representable (limit + (t + g)) R k"
    then have "representable (limit + t) R k" by (rule representable_less) (simp_all add: \<open>0 \<le> g\<close>)
    then have "accounted (limit + t) R s u k" using stipend1.IH(2) by simp
    from stipend_accounted [OF this \<open>0 \<le> g\<close> \<open>grantStipend g s = Done s'\<close>] show "accounted (limit + (t + g)) R s' u k" .
  qed
next
  case (child1 limit R s u t k budget c v t' k' charged s')
  show ?case
  proof
    assume B: "representable (limit + (t + t')) R (k + k' + max 0 charged)"
    have n: "0 \<le> t" "0 \<le> k" "0 \<le> t'" "0 \<le> k'"
      using run_sums(1) [OF child1.IH(1)] run_sums(3) [OF child1.IH(3)] by simp_all
    have b: "representable (limit + t) R k" by (rule representable_less [OF B]) (use n in simp_all)
    then have a: "accounted (limit + t) R s u k" using child1.IH(2) by simp
    note i = accounted_bounds [OF a b]
    have "gas_left s + gas_reservoir s \<le> limit + t + R + k" by (rule i(2))
    then have "representable (budget + t') (gas_reservoir s) k'"
      using i(5) \<open>budget \<le> gas_left s\<close> B [unfolded representable_def] max.cobounded1 [of 0 charged]
      unfolding representable_def by linarith
    then have c: "result_ok (budget + t') (gas_reservoir s) c v k'" using child1.IH(4) by simp
    show "accounted (limit + (t + t')) R s' (u + v) (k + k' + max 0 charged)"
      by (rule o1.child_accounted [OF a c \<open>budget \<le> gas_left s\<close> n(3) \<open>settleChild track1 budget charged c s = Done (True, s')\<close> B])
  qed
next
  case (stop1 limit R s u t k r)
  then show ?case using o1.stopped_ok [of "limit + t" R s u k r] run_sums(1) [OF stop1.IH(1)] by auto
next
  case (fault1 limit R s u t k r)
  then show ?case using o1.stopped_ok [of "limit + t" R s u k r] run_sums(1) [OF fault1.IH(1)] by auto
next
  case (start2 limit R s)
  then show ?case using start_accounted by auto
next
  case (regular2 limit R s u t k g s')
  then show ?case using o2.regular_accounted by blast
next
  case (state_charge2 limit R s u t k g s')
  then show ?case using o2.state_charge_accounted by blast
next
  case (credit2 limit R s u t k g s')
  show ?case
  proof
    assume B: "representable (limit + t) R (k + max 0 g)"
    then have "representable (limit + t) R k" by (rule representable_less) simp_all
    then have "accounted (limit + t) R s u k" using credit2.IH(2) by simp
    from credit_accounted [OF this \<open>refillStateGas g s = Done s'\<close> B] show "accounted (limit + t) R s' u (k + max 0 g)" .
  qed
next
  case (stipend2 limit R s u t k g s')
  show ?case
  proof
    assume "representable (limit + (t + g)) R k"
    then have "representable (limit + t) R k" by (rule representable_less) (simp_all add: \<open>0 \<le> g\<close>)
    then have "accounted (limit + t) R s u k" using stipend2.IH(2) by simp
    from stipend_accounted [OF this \<open>0 \<le> g\<close> \<open>grantStipend g s = Done s'\<close>] show "accounted (limit + (t + g)) R s' u k" .
  qed
next
  case (child2 limit R s u t k budget c v t' k' charged s')
  show ?case
  proof
    assume B: "representable (limit + (t + t')) R (k + k' + max 0 charged)"
    have n: "0 \<le> t" "0 \<le> k" "0 \<le> t'" "0 \<le> k'"
      using run_sums(2) [OF child2.IH(1)] run_sums(3) [OF child2.IH(3)] by simp_all
    have b: "representable (limit + t) R k" by (rule representable_less [OF B]) (use n in simp_all)
    then have a: "accounted (limit + t) R s u k" using child2.IH(2) by simp
    note i = accounted_bounds [OF a b]
    have "gas_left s + gas_reservoir s \<le> limit + t + R + k" by (rule i(2))
    then have "representable (budget + t') (gas_reservoir s) k'"
      using i(5) \<open>budget \<le> gas_left s\<close> B [unfolded representable_def] max.cobounded1 [of 0 charged]
      unfolding representable_def by linarith
    then have c: "result_ok (budget + t') (gas_reservoir s) c v k'" using child2.IH(4) by simp
    show "accounted (limit + (t + t')) R s' (u + v) (k + k' + max 0 charged)"
      by (rule o2.child_accounted [OF a c \<open>budget \<le> gas_left s\<close> n(3) \<open>settleChild track2 budget charged c s = Done (True, s')\<close> B])
  qed
next
  case (stop2 limit R s u t k r)
  then show ?case using o2.stopped_ok [of "limit + t" R s u k r] run_sums(2) [OF stop2.IH(1)] by auto
next
  case (fault2 limit R s u t k r)
  then show ?case using o2.stopped_ok [of "limit + t" R s u k r] run_sums(2) [OF fault2.IH(1)] by auto
next
  case (immediate R left limit st)
  then show ?case by (simp add: result_ok_def accounted_def balanced_def immediate_result_def)
next
  case (created limit R c u t k rules code r)
  then show ?case using created_ok [of "limit + t" R c u k rules code r] by auto
next
  case (not_created limit R c u t k rules code r)
  then show ?case using not_created_ok [of "limit + t" R c u k rules code r] run_sums(3) [OF not_created.IH(1)] by auto
qed

end

section \<open>Both owners keep the contract\<close>

definition frame_running :: "call_frame \<Rightarrow> bool" where
  "frame_running s \<longleftrightarrow> frame_state s = Running"

definition frame_stops :: "call_frame \<Rightarrow> host_result \<Rightarrow> bool" where
  "frame_stops s r \<longleftrightarrow> (\<exists>reason s'. halt reason s = Done s' \<and> frame_result s' = Done r)"

definition ledger_running :: "ledger \<Rightarrow> bool" where
  "ledger_running s \<longleftrightarrow> \<not> ledger_out_of_gas s"

definition ledger_stops :: "ledger \<Rightarrow> host_result \<Rightarrow> bool" where
  "ledger_stops s r \<longleftrightarrow> (\<exists>violated st s'.
     (s' = s \<and> \<not> ledger_out_of_gas s \<or> (\<exists>g. ledger_trackGas g s = Done (False, s')) \<or> s' = s\<lparr>ledger_out_of_gas := True\<rparr>) \<and> native_result violated st s' = Done r)"

lemma halt_kept: "consumesAllGas h \<longleftrightarrow> halt_status h \<noteq> success \<and> halt_status h \<noteq> revert"
  by (cases h) (simp_all add: consumesAllGas_def halt_status_def)

lemma result_of_halted: "result_of st x (s\<lparr>gas_left := y\<rparr>) = result_of st x s"
  "result_of st x (f\<lparr>frame_state := h\<rparr>) = result_of st x f"
  "result_of st x (l\<lparr>ledger_out_of_gas := b\<rparr>) = result_of st x l"
  by (simp_all add: result_of_def)

interpretation frame: gas_owner frame_trackGas frame_running frame_stops
proof
  fix s r
  assume "frame_stops s r"
  then obtain h s' where h: "halt h s = Done s'" "frame_result s' = Done r" by (auto simp: frame_stops_def)
  have "r = finalizeStateGas (result_of (halt_status h) (if consumesAllGas h then 0 else gas_left s) s)"
    using h by (cases "consumesAllGas h")
      (auto simp: halt_def frame_result_def Let_def zig_simps result_of_halted)
  then show "\<exists>st. r = finalizeStateGas (result_of st (if st = success \<or> st = revert then gas_left s else 0) s)"
    by (intro exI [of _ "halt_status h"]) (auto simp: halt_kept)
qed (auto simp: frame_trackGas_def frame_running_def halt_def consumesAllGas_def Let_def zig_simps i64_def i64_min_def
    split: if_splits)

interpretation native: gas_owner ledger_trackGas ledger_running ledger_stops
proof
  fix s r
  assume "ledger_stops s r"
  then obtain violated st s' where s': "s' = s \<and> \<not> ledger_out_of_gas s \<or> (\<exists>g. ledger_trackGas g s = Done (False, s')) \<or>
      s' = s\<lparr>ledger_out_of_gas := True\<rparr>"
    and r: "native_result violated st s' = Done r" unfolding ledger_stops_def by blast
  show "\<exists>st. r = finalizeStateGas (result_of st (if st = success \<or> st = revert then gas_left s else 0) s)"
  proof (cases "s' = s \<and> \<not> ledger_out_of_gas s")
    case True
    then show ?thesis using r
      by (intro exI [of _ "if violated then invalid else st"]) (auto simp: native_result_def Let_def zig_simps)
  next
    case False
    then have "s' = s\<lparr>ledger_out_of_gas := True, gas_left := 0\<rparr> \<or> s' = s\<lparr>ledger_out_of_gas := True\<rparr>"
      using s' by (auto simp: ledger_trackGas_def zig_simps split: if_splits)
    then show ?thesis using r
      by (intro exI [of _ "if violated then invalid else out_of_gas"])
        (auto simp: native_result_def Let_def zig_simps result_of_halted)
  qed
qed (auto simp: ledger_trackGas_def ledger_running_def zig_simps i64_def i64_min_def split: if_splits)

interpretation evm: gas_owners frame_trackGas frame_running frame_stops ledger_trackGas ledger_running ledger_stops ..

section \<open>The charge of a top frame\<close>

record execution_gas =
  regular_left :: u64
  reservoir :: u64

record charge =
  spent :: int
  from_regular :: int
  charge_out_of_gas :: bool

text \<open>The amount is a signed counter, so its conversion to an unsigned one keeps its value.\<close>

definition top_charge :: "execution_gas \<Rightarrow> int \<Rightarrow> charge \<times> execution_gas" where
  "top_charge gas amount =
     (if amount \<le> 0 then (\<lparr>spent = 0, from_regular = 0, charge_out_of_gas = False\<rparr>, gas)
      else let total = word_of_int amount; from_reservoir = min (reservoir gas) total; regular = total - from_reservoir in
      if regular > regular_left gas then (\<lparr>spent = 0, from_regular = 0, charge_out_of_gas = True\<rparr>, gas)
      else (\<lparr>spent = amount, from_regular = uint regular, charge_out_of_gas = False\<rparr>,
            gas\<lparr>reservoir := reservoir gas - from_reservoir, regular_left := regular_left gas - regular\<rparr>))"

definition top_finish :: "charge \<Rightarrow> host_result \<Rightarrow> (unit, host_result) outcome" where
  "top_finish c result =
     (if spent c = 0 then Done result
      else zassert (from_regular c \<ge> 0) (zassert (from_regular c \<le> spent c)
       (let from_reservoir = spent c - from_regular c in
        Done (case res_status result of
          success \<Rightarrow> result\<lparr>state_gas_spent := sat (state_gas_spent result + spent c),
            state_gas_from_gas_left := sat (state_gas_from_gas_left result + from_regular c)\<rparr>
        | revert \<Rightarrow> result\<lparr>gas_reservoir := sat (gas_reservoir result + from_reservoir),
            gas_left := sat (gas_left result + from_regular c)\<rparr>
        | invalid \<Rightarrow> result\<lparr>gas_reservoir := sat (gas_reservoir result + from_reservoir)\<rparr>
        | out_of_gas \<Rightarrow> result\<lparr>gas_reservoir := sat (gas_reservoir result + from_reservoir)\<rparr>))))"

end
