(* ===== verification/Zig_Transactions.thy ===== *)
theory Zig_Transactions
  imports Zig_Fees Zig_Gas
begin

text \<open>
  From a transaction to what runs: \<^verbatim>\<open>src/src/transaction/types.zig\<close> (values and their projections),
  \<^verbatim>\<open>gas.zig\<close> (intrinsic gas and the gas plan), \<^verbatim>\<open>validation.zig\<close> (the ordered checks) and \<^verbatim>\<open>prepare.zig\<close>,
  over the transaction and settlement part of a specification (\<^verbatim>\<open>src/src/spec.zig\<close>), a record of constants and functions as in
  the code. The state is read through two functions; the address of a created contract, which rests on a hash, is a
  parameter. A count or length is a natural number.
\<close>

section \<open>Values\<close>

type_synonym address = bytes

datatype tx_kind = Legacy | AccessList | DynamicFee | Blob | SetCode

datatype sender_code_kind = EmptyCode | Delegation | NonDelegating

record access_list_counts =
  addresses :: nat
  storage_keys :: nat

record access_list_entry =
  entry_address :: address
  entry_keys :: "u256 list"

record authorization_tuple =
  auth_chain_id :: u256
  auth_target :: address
  auth_signer :: address
  auth_nonce :: u64
  auth_y_parity :: u256
  auth_legacy_v :: "u256 option"
  auth_r :: u256
  auth_s :: u256

record fee_fields =
  fee_gas_price :: u256
  max_fee_per_gas :: "u256 option"
  max_priority_fee_per_gas :: "u256 option"
  max_fee_per_blob_gas :: "u256 option"

record transaction =
  tr_kind :: tx_kind
  tr_sender :: address
  tr_chain_id :: "u256 option"
  tr_nonce :: "u256 option"
  tr_gas_limit :: u64
  tr_to :: "address option"
  tr_value :: u256
  tr_input :: bytes
  tr_gas_price :: u256
  tr_max_fee_per_gas :: "u256 option"
  tr_max_priority_fee_per_gas :: "u256 option"
  tr_max_fee_per_blob_gas :: "u256 option"
  tr_blob_hashes :: "u256 list"
  tr_access_list :: "access_list_entry list"
  tr_authorization_list :: "authorization_tuple list"
  tr_authorization_count :: "nat option"

record transaction_view =
  tx_kind :: tx_kind
  tx_sender :: address
  tx_chain_id :: "u256 option"
  tx_nonce :: "u256 option"
  tx_gas_limit :: u64
  tx_to :: "address option"
  tx_value :: u256
  tx_input :: bytes
  tx_access_list :: "access_list_entry list"
  tx_authorization_list :: "authorization_tuple list"
  tx_authorization_count :: nat
  tx_fee :: fee_fields
  tx_blob_hashes :: "u256 list"

definition transactionView :: "transaction \<Rightarrow> transaction_view" where
  "transactionView tx = \<lparr>tx_kind = tr_kind tx, tx_sender = tr_sender tx, tx_chain_id = tr_chain_id tx,
     tx_nonce = tr_nonce tx, tx_gas_limit = tr_gas_limit tx, tx_to = tr_to tx, tx_value = tr_value tx,
     tx_input = tr_input tx, tx_access_list = tr_access_list tx, tx_authorization_list = tr_authorization_list tx,
     tx_authorization_count =
       (case tr_authorization_count tx of None \<Rightarrow> length (tr_authorization_list tx) | Some n \<Rightarrow> n),
     tx_fee = \<lparr>fee_gas_price = tr_gas_price tx, max_fee_per_gas = tr_max_fee_per_gas tx,
       max_priority_fee_per_gas = tr_max_priority_fee_per_gas tx, max_fee_per_blob_gas = tr_max_fee_per_blob_gas tx\<rparr>,
     tx_blob_hashes = tr_blob_hashes tx\<rparr>"

record tx_env =
  env_chain_id :: u256
  env_coinbase :: address
  env_number :: u64
  env_slot_number :: u64
  env_timestamp :: u64
  env_gas_limit :: u64
  env_prev_randao :: u256
  env_base_fee :: u256
  env_blob_base_fee :: u256
  env_blob_params :: "blob_params option"

record block_environment =
  be_coinbase :: address
  be_number :: u64
  be_slot_number :: u64
  be_timestamp :: u64
  be_gas_limit :: u64
  be_prev_randao :: u256
  be_base_fee :: u256
  be_blob_base_fee :: u256

record transaction_environment =
  te_origin :: address
  te_gas_price :: u256
  te_blob_hashes :: "u256 list"

record execution_context =
  ctx_chain_id :: u256
  ctx_block :: block_environment
  ctx_transaction :: transaction_environment

definition executionContext :: "tx_env \<Rightarrow> transaction_environment \<Rightarrow> execution_context" where
  "executionContext env tx = \<lparr>ctx_chain_id = env_chain_id env,
     ctx_block = \<lparr>be_coinbase = env_coinbase env, be_number = env_number env, be_slot_number = env_slot_number env,
       be_timestamp = env_timestamp env, be_gas_limit = env_gas_limit env, be_prev_randao = env_prev_randao env,
       be_base_fee = env_base_fee env, be_blob_base_fee = env_blob_base_fee env\<rparr>,
     ctx_transaction = tx\<rparr>"

definition effectiveGasPrice :: "tx_env \<Rightarrow> transaction_view \<Rightarrow> u256" where
  "effectiveGasPrice env view =
     (if tx_kind view = Legacy \<or> tx_kind view = AccessList then fee_gas_price (tx_fee view)
      else case max_fee_per_gas (tx_fee view) of None \<Rightarrow> fee_gas_price (tx_fee view)
      | Some max_fee \<Rightarrow>
          let priority_fee = (case max_priority_fee_per_gas (tx_fee view) of None \<Rightarrow> 0 | Some f \<Rightarrow> f)
          in min max_fee (sat_add (env_base_fee env) priority_fee))"

section \<open>Specifications\<close>

record intrinsic_options =
  opt_authorization_count :: nat
  opt_access_list_counts :: access_list_counts
  opt_is_create :: bool
  opt_value :: u256
  opt_is_self_transfer :: bool
  opt_creates_account :: bool

record transaction_spec =
  active_kinds :: "tx_kind set"
  allowsContractCreation :: "tx_kind \<Rightarrow> bool"
  requiresAuthorizationList :: "tx_kind \<Rightarrow> bool"
  rejectsNonDelegatingSenderCode :: "tx_kind \<Rightarrow> bool"
  isDelegationCode :: "bytes \<Rightarrow> bool"
  ts_blob_schedule :: "blob_schedule option"
  max_initcode_size :: nat
  intrinsicBaseGas :: "intrinsic_options \<Rightarrow> (settle_error, u64) outcome"
  create_intrinsic_gas :: u64
  calldataGas :: "bytes \<Rightarrow> (settle_error, u64) outcome"
  access_list_address_gas :: u64
  storage_key_gas :: u64
  accessListDataGas :: "access_list_counts \<Rightarrow> (settle_error, u64) outcome"
  initcode_word_gas :: u64
  authorization_intrinsic_gas :: u64
  floorGas :: "bytes \<Rightarrow> intrinsic_options \<Rightarrow> (settle_error, u64 option) outcome"
  regular_gas_cap :: "u64 option"
  intrinsic_regular_gas_limit :: "u64 option"
  total_gas_limit :: "u64 option"
  warms_coinbase :: bool

record settlement_spec =
  base_fee_active :: bool
  gas_refund_cap_divisor :: u64
  uses_state_gas_accounting :: bool
  applies_calldata_floor_to_block_regular_gas :: bool
  touches_fee_recipient_on_zero_payment :: bool

record spec =
  spec_transaction :: transaction_spec
  spec_settlement :: settlement_spec

section \<open>The gas plan\<close>

definition math_add :: "u64 \<Rightarrow> u64 \<Rightarrow> (settle_error, u64) outcome" where
  "math_add a b = (case checked_add a b of None \<Rightarrow> Fails Overflow | Some c \<Rightarrow> Done c)"

definition math_mul :: "u64 \<Rightarrow> u64 \<Rightarrow> (settle_error, u64) outcome" where
  "math_mul a b = (case checked_mul a b of None \<Rightarrow> Fails Overflow | Some c \<Rightarrow> Done c)"

definition cast_u64 :: "nat \<Rightarrow> (settle_error, u64) outcome" where
  "cast_u64 n = (if n < 2 ^ 64 then Done (word_of_nat n) else Fails Overflow)"

text \<open>A count above zero at a price, added to the gas so far.\<close>

definition add_counted :: "nat \<Rightarrow> u64 \<Rightarrow> u64 \<Rightarrow> (settle_error, u64) outcome" where
  "add_counted n price gas =
     (if n \<noteq> 0 then zbind (cast_u64 n) (\<lambda>count. zbind (math_mul count price) (math_add gas)) else Done gas)"

definition wordCount :: "nat \<Rightarrow> (settle_error, nat) outcome" where
  "wordCount len = zassert (len + 31 \<le> usize_max) (Done ((len + 31) div 32))"

definition intrinsicGasForTransaction :: "transaction_spec \<Rightarrow> bytes \<Rightarrow> intrinsic_options \<Rightarrow> (settle_error, u64) outcome" where
  "intrinsicGasForTransaction sp input options =
     zbind (intrinsicBaseGas sp options) (\<lambda>gas.
     zbind (if opt_is_create options then math_add gas (create_intrinsic_gas sp) else Done gas) (\<lambda>gas.
     zbind (zbind (calldataGas sp input) (math_add gas)) (\<lambda>gas.
     zbind (add_counted (addresses (opt_access_list_counts options)) (access_list_address_gas sp) gas) (\<lambda>gas.
     zbind (add_counted (storage_keys (opt_access_list_counts options)) (storage_key_gas sp) gas) (\<lambda>gas.
     zbind (zbind (accessListDataGas sp (opt_access_list_counts options)) (math_add gas)) (\<lambda>gas.
     zbind (if opt_is_create options \<and> initcode_word_gas sp \<noteq> 0
       then zbind (wordCount (length input)) (\<lambda>n. zbind (cast_u64 n) (\<lambda>words.
            zbind (math_mul words (initcode_word_gas sp)) (math_add gas)))
       else Done gas) (\<lambda>gas.
     add_counted (opt_authorization_count options) (authorization_intrinsic_gas sp) gas)))))))"

record initial_gas =
  init_regular :: u64
  init_floor :: u64

definition initial_minimum :: "initial_gas \<Rightarrow> u64" where
  "initial_minimum g = max (init_regular g) (init_floor g)"

record gas_plan =
  plan_intrinsic :: u64
  plan_floor :: u64
  plan_minimum :: u64
  plan_initial :: initial_gas
  plan_execution :: "execution_gas option"

definition regularGasLimit :: "transaction_spec \<Rightarrow> u64 \<Rightarrow> u64" where
  "regularGasLimit sp gas_limit = (case regular_gas_cap sp of None \<Rightarrow> gas_limit | Some cap \<Rightarrow> min gas_limit cap)"

definition gasPlan :: "transaction_spec \<Rightarrow> bytes \<Rightarrow> u64 \<Rightarrow> intrinsic_options \<Rightarrow> (settle_error, gas_plan) outcome" where
  "gasPlan sp input gas_limit options =
     zbind (intrinsicGasForTransaction sp input options) (\<lambda>intrinsic.
     zbind (floorGas sp input options) (\<lambda>floor_result.
     let floor = (case floor_result of None \<Rightarrow> 0 | Some f \<Rightarrow> f);
         init = \<lparr>init_regular = intrinsic, init_floor = floor\<rparr>;
         minimum = initial_minimum init;
         regular_limit = regularGasLimit sp gas_limit;
         execution = (if gas_limit \<ge> minimum \<and> regular_limit \<ge> intrinsic
           then let execution_total = gas_limit - intrinsic; regular_budget = regular_limit - intrinsic;
                    regular = min execution_total regular_budget
                in Some \<lparr>regular_left = regular, reservoir = execution_total - regular\<rparr>
           else None)
     in Done \<lparr>plan_intrinsic = intrinsic, plan_floor = floor, plan_minimum = minimum, plan_initial = init,
          plan_execution = execution\<rparr>))"

definition minimumGasForTransaction :: "transaction_spec \<Rightarrow> bytes \<Rightarrow> intrinsic_options \<Rightarrow> (settle_error, u64) outcome" where
  "minimumGasForTransaction sp input options =
     zbind (intrinsicGasForTransaction sp input options) (\<lambda>intrinsic.
     zbind (floorGas sp input options) (\<lambda>floor.
     Done (case floor of None \<Rightarrow> intrinsic | Some f \<Rightarrow> max intrinsic f)))"

text \<open>The totals of an access list; the sum of a \<^verbatim>\<open>usize\<close> traps when it overflows.\<close>

fun sum_keys :: "access_list_entry list \<Rightarrow> nat \<Rightarrow> ('e, nat) outcome" where
  "sum_keys [] n = Done n"
| "sum_keys (e # es) n =
     zassert (n + length (entry_keys e) \<le> usize_max) (sum_keys es (n + length (entry_keys e)))"

definition accessListCounts :: "access_list_entry list \<Rightarrow> ('e, access_list_counts) outcome" where
  "accessListCounts es = zbind (sum_keys es 0) (\<lambda>keys. Done \<lparr>addresses = length es, storage_keys = keys\<rparr>)"

definition countZeroBytes :: "bytes \<Rightarrow> u64" where
  "countZeroBytes bs = foldl (\<lambda>n b. if b = 0 then n + 1 else n) 0 bs"

section \<open>Validation\<close>

datatype validation_error =
    intrinsic_gas_too_low | intrinsic_gas_below_floor_gas_cost | insufficient_account_funds
  | insufficient_max_fee_per_gas | priority_greater_than_max_fee_per_gas | insufficient_max_fee_per_blob_gas
  | gas_limit_exceeds_maximum | gas_allowance_exceeded | nonce_is_max | nonce_too_low | nonce_too_high
  | type_1_tx_pre_fork | type_2_tx_pre_fork | type_3_tx_pre_fork | type_4_tx_pre_fork
  | type_3_tx_contract_creation | type_3_tx_zero_blobs | type_3_tx_blob_count_exceeded
  | type_3_tx_max_blob_gas_allowance_exceeded | type_3_tx_invalid_blob_versioned_hash | initcode_size_exceeded
  | sender_not_eoa | type_4_empty_authorization_list | type_4_tx_contract_creation | invalid_chain_id

datatype classified_nonce = AbsentNonce | ValidNonce u64 | AtOrAboveLimit

definition classifyTransactionNonce :: "u256 option \<Rightarrow> classified_nonce" where
  "classifyTransactionNonce encoded = (case encoded of None \<Rightarrow> AbsentNonce
   | Some nonce \<Rightarrow> if nonce \<ge> 2 ^ 64 - 1 then AtOrAboveLimit else ValidNonce (ucast nonce))"

record block_progress =
  receipt_gas_used :: u64
  progress_block_gas :: block_gas

record validation_input =
  vi_kind :: tx_kind
  vi_chain_id :: "u256 option"
  vi_expected_chain_id :: u256
  vi_is_create :: bool
  vi_is_self_transfer :: bool
  vi_gas_limit :: u64
  vi_input :: bytes
  vi_value :: u256
  vi_gas_price :: u256
  vi_base_fee :: u256
  vi_block_gas_limit :: u64
  vi_block_progress :: block_progress
  vi_blob_base_fee :: u256
  vi_blob_params :: "blob_params option"
  vi_max_fee_per_gas :: "u256 option"
  vi_max_priority_fee_per_gas :: "u256 option"
  vi_max_fee_per_blob_gas :: "u256 option"
  vi_sender_balance :: u256
  vi_sender_nonce :: u64
  vi_tx_nonce :: classified_nonce
  vi_sender_code_kind :: sender_code_kind
  vi_authorization_count :: nat
  vi_access_list_counts :: access_list_counts
  vi_blob_hashes :: "u256 list"

text \<open>An early return of an error, and the absence of one.\<close>

definition refuse :: "bool \<Rightarrow> 'e \<Rightarrow> 'e option \<Rightarrow> 'e option" where
  "refuse b e rest = (if b then Some e else rest)"

definition or_zero :: "u256 option \<Rightarrow> u256" where
  "or_zero x = (case x of None \<Rightarrow> 0 | Some v \<Rightarrow> v)"

definition exceeds :: "u64 \<Rightarrow> u64 option \<Rightarrow> bool" where
  "exceeds n limit = (case limit of None \<Rightarrow> False | Some l \<Rightarrow> n > l)"

definition inactiveTransactionKindError :: "transaction_spec \<Rightarrow> tx_kind \<Rightarrow> validation_error option" where
  "inactiveTransactionKindError sp kind =
     (if kind \<in> active_kinds sp then None
      else case kind of
        Legacy \<Rightarrow> None
      | AccessList \<Rightarrow> Some type_1_tx_pre_fork
      | DynamicFee \<Rightarrow> Some type_2_tx_pre_fork
      | Blob \<Rightarrow> Some type_3_tx_pre_fork
      | SetCode \<Rightarrow> Some type_4_tx_pre_fork)"

definition exceedsBlockGasAllowance :: "spec \<Rightarrow> validation_input \<Rightarrow> bool" where
  "exceedsBlockGasAllowance spec input =
     (if vi_block_gas_limit input = 0 then False
      else let limit = vi_block_gas_limit input; progress = vi_block_progress input in
      if uses_state_gas_accounting (spec_settlement spec) then
        let regular_available = sat_sub limit (bg_regular (progress_block_gas progress));
            state_available = sat_sub limit (bg_state (progress_block_gas progress))
        in regularGasLimit (spec_transaction spec) (vi_gas_limit input) > regular_available \<or>
           vi_gas_limit input > state_available
      else vi_gas_limit input > sat_sub limit (receipt_gas_used progress))"

definition effectiveBlobSchedule :: "blob_schedule option \<Rightarrow> blob_params option \<Rightarrow> blob_schedule option" where
  "effectiveBlobSchedule spec_schedule params = (case spec_schedule of None \<Rightarrow> None
   | Some s \<Rightarrow> Some (case params of None \<Rightarrow> s | Some p \<Rightarrow> withParams s p))"

definition blobLimitError :: "transaction_spec \<Rightarrow> validation_input \<Rightarrow> validation_error option" where
  "blobLimitError sp input = (case effectiveBlobSchedule (ts_blob_schedule sp) (vi_blob_params input) of
     None \<Rightarrow> Some type_3_tx_max_blob_gas_allowance_exceeded
   | Some schedule \<Rightarrow>
       refuse (length (vi_blob_hashes input) > unat (sch_max schedule)) type_3_tx_max_blob_gas_allowance_exceeded (
       refuse (length (vi_blob_hashes input) > unat (max_per_transaction schedule)) type_3_tx_blob_count_exceeded
       None))"

definition validateBeforeAccount :: "spec \<Rightarrow> validation_input \<Rightarrow> gas_plan \<Rightarrow> validation_error option" where
  "validateBeforeAccount spec input plan =
     (let sp = spec_transaction spec in
      case inactiveTransactionKindError sp (vi_kind input) of Some err \<Rightarrow> Some err | None \<Rightarrow>
      refuse (case vi_chain_id input of None \<Rightarrow> False | Some c \<Rightarrow> c \<noteq> vi_expected_chain_id input) invalid_chain_id (
      refuse (exceeds (max (plan_intrinsic plan) (plan_floor plan)) (intrinsic_regular_gas_limit sp)) intrinsic_gas_too_low (
      refuse (vi_gas_limit input < plan_intrinsic plan) intrinsic_gas_too_low (
      refuse (vi_gas_limit input < plan_floor plan) intrinsic_gas_below_floor_gas_cost (
      refuse (vi_tx_nonce input = AtOrAboveLimit) nonce_is_max (
      refuse (vi_is_create input \<and> length (vi_input input) > max_initcode_size sp) initcode_size_exceeded (
      refuse (exceeds (vi_gas_limit input) (total_gas_limit sp)) gas_limit_exceeds_maximum (
      refuse (exceedsBlockGasAllowance spec input) gas_allowance_exceeded (
      if vi_kind input = Blob then blobLimitError sp input else None)))))))))"

definition options_of :: "validation_input \<Rightarrow> intrinsic_options" where
  "options_of input = \<lparr>opt_authorization_count = vi_authorization_count input,
     opt_access_list_counts = vi_access_list_counts input, opt_is_create = vi_is_create input,
     opt_value = vi_value input, opt_is_self_transfer = vi_is_self_transfer input, opt_creates_account = False\<rparr>"

definition validation_gasPlan :: "transaction_spec \<Rightarrow> validation_input \<Rightarrow> (settle_error, gas_plan) outcome" where
  "validation_gasPlan sp input = gasPlan sp (vi_input input) (vi_gas_limit input) (options_of input)"

definition maxPrepaymentCost :: "transaction_spec \<Rightarrow> validation_input \<Rightarrow> u256 option" where
  "maxPrepaymentCost sp input =
     Option.bind (if vi_kind input = Legacy \<or> vi_kind input = AccessList then Some (vi_gas_price input)
       else vi_max_fee_per_gas input) (\<lambda>gas_price.
     Option.bind (if vi_kind input = Blob then vi_max_fee_per_blob_gas input else Some 0) (\<lambda>blob_fee.
     Option.bind (checked_mul (ucast (vi_gas_limit input)) gas_price) (\<lambda>gas_cost.
     Option.bind (blobGasForCount (ts_blob_schedule sp) (if vi_kind input = Blob then length (vi_blob_hashes input) else 0))
       (\<lambda>blob_gas.
     Option.bind (checked_mul blob_gas blob_fee) (\<lambda>blob_cost.
     Option.bind (checked_add gas_cost blob_cost) (\<lambda>transaction_cost.
     checked_add transaction_cost (vi_value input)))))))"

definition feeError :: "spec \<Rightarrow> validation_input \<Rightarrow> validation_error option" where
  "feeError spec input =
     refuse (vi_kind input \<in> {DynamicFee, Blob, SetCode} \<and>
       or_zero (vi_max_priority_fee_per_gas input) > or_zero (vi_max_fee_per_gas input)) priority_greater_than_max_fee_per_gas (
     refuse (vi_kind input \<in> {DynamicFee, Blob, SetCode} \<and>
       or_zero (vi_max_fee_per_gas input) < vi_base_fee input) insufficient_max_fee_per_gas (
     refuse (vi_kind input \<in> {Legacy, AccessList} \<and> base_fee_active (spec_settlement spec) \<and>
       vi_gas_price input < vi_base_fee input) insufficient_max_fee_per_gas
     None))"

definition blobFieldError :: "transaction_spec \<Rightarrow> validation_input \<Rightarrow> validation_error option" where
  "blobFieldError sp input =
     refuse (or_zero (vi_max_fee_per_blob_gas input) < vi_blob_base_fee input) insufficient_max_fee_per_blob_gas (
     refuse (\<not> allowsContractCreation sp (vi_kind input) \<and> vi_is_create input) type_3_tx_contract_creation (
     refuse (vi_blob_hashes input = []) type_3_tx_zero_blobs (
     case effectiveBlobSchedule (ts_blob_schedule sp) (vi_blob_params input) of None \<Rightarrow> None
     | Some schedule \<Rightarrow>
         refuse (\<exists>h\<in>set (vi_blob_hashes input). blobVersion h \<noteq> hash_version schedule) type_3_tx_invalid_blob_versioned_hash
         None)))"

definition setCodeError :: "transaction_spec \<Rightarrow> validation_input \<Rightarrow> validation_error option" where
  "setCodeError sp input =
     refuse (\<not> allowsContractCreation sp (vi_kind input) \<and> vi_is_create input) type_4_tx_contract_creation (
     refuse (requiresAuthorizationList sp (vi_kind input) \<and> vi_authorization_count input = 0) type_4_empty_authorization_list
     None)"

definition nonceError :: "validation_input \<Rightarrow> validation_error option" where
  "nonceError input = (case vi_tx_nonce input of
     ValidNonce n \<Rightarrow> if n < vi_sender_nonce input then Some nonce_too_low
       else if n > vi_sender_nonce input then Some nonce_too_high else None
   | AbsentNonce \<Rightarrow> None
   | AtOrAboveLimit \<Rightarrow> Some nonce_is_max)"

text \<open>The first error of two checks.\<close>

definition first_error :: "'e option \<Rightarrow> 'e option \<Rightarrow> 'e option" where
  "first_error a b = (case a of None \<Rightarrow> b | Some e \<Rightarrow> Some e)"

definition validateAfterAccount :: "spec \<Rightarrow> validation_input \<Rightarrow> validation_error option" where
  "validateAfterAccount spec input =
     (let sp = spec_transaction spec in
      first_error (feeError spec input) (
      first_error (if vi_kind input = Blob then blobFieldError sp input else None) (
      first_error (if vi_kind input = SetCode then setCodeError sp input else None) (
      first_error (nonceError input) (
      case maxPrepaymentCost sp input of None \<Rightarrow> Some insufficient_account_funds
      | Some required_balance \<Rightarrow>
          refuse (vi_sender_balance input < required_balance) insufficient_account_funds None)))))"

definition validateSenderCode :: "validation_input \<Rightarrow> bool \<Rightarrow> validation_error option" where
  "validateSenderCode input rejects_non_delegating =
     refuse (rejects_non_delegating \<and> vi_sender_code_kind input = NonDelegating) sender_not_eoa None"

definition validate :: "spec \<Rightarrow> validation_input \<Rightarrow> (unit, validation_error option) outcome" where
  "validate spec input =
     (let rest = (\<lambda>plan. first_error (validateBeforeAccount spec input plan) (
         first_error (validateAfterAccount spec input) (
         validateSenderCode input (rejectsNonDelegatingSenderCode (spec_transaction spec) (vi_kind input)))))
      in case validation_gasPlan (spec_transaction spec) input of
        Done plan \<Rightarrow> Done (rest plan)
      | Fails _ \<Rightarrow> Done (Some intrinsic_gas_too_low)
      | Trap \<Rightarrow> Trap)"

section \<open>Preparation\<close>

record account =
  acc_nonce :: u64
  acc_balance :: u256
  acc_code_hash :: bytes

datatype 'e prepare_error = StateError 'e | MissingCreateRecipient

text \<open>What preparation reads: accounts and code of the state, which may fail, the hash of the empty code, and the
  address of a created contract.\<close>

record 'e preparation_access =
  accountSummary :: "address \<Rightarrow> ('e, account option) outcome"
  read_code :: "address \<Rightarrow> bytes \<Rightarrow> ('e, bytes) outcome"
  keccak256_empty :: bytes
  address_create :: "address \<Rightarrow> u64 \<Rightarrow> address"

fun lift_state :: "('e, 'a) outcome \<Rightarrow> ('e prepare_error, 'a) outcome" where
  "lift_state (Done x) = Done x"
| "lift_state (Fails e) = Fails (StateError e)"
| "lift_state Trap = Trap"

datatype message =
    CallMessage (msg_sender: address) (msg_recipient: address) (msg_input: bytes) (msg_value: u256)
  | CreateMessage (msg_sender: address) (msg_recipient: address) (msg_input: bytes) (msg_value: u256) (msg_salt: "u256 option")

definition message_init :: "address \<Rightarrow> address option \<Rightarrow> bytes \<Rightarrow> u256 \<Rightarrow> u256 option \<Rightarrow> address option \<Rightarrow>
    ('e prepare_error, message) outcome" where
  "message_init sender recipient input amount salt create_recipient = (case recipient of
     Some r \<Rightarrow> Done (CallMessage sender r input amount)
   | None \<Rightarrow> (case create_recipient of None \<Rightarrow> Fails MissingCreateRecipient
       | Some r \<Rightarrow> Done (CreateMessage sender r input amount salt)))"

record transaction_scope =
  scope_context :: execution_context
  scope_access_list :: "access_list_entry list"
  scope_authorization_list :: "authorization_tuple list"
  scope_authorization_count :: nat

record prepared =
  prep_scope :: transaction_scope
  prep_message :: message
  prep_execution_gas :: "execution_gas option"
  prep_settlement :: default_plan

datatype prepare_result = Rejected validation_error | Executable prepared

definition isSelfTransfer :: "transaction_view \<Rightarrow> bool" where
  "isSelfTransfer view = (case tx_to view of None \<Rightarrow> False | Some r \<Rightarrow> tx_sender view = r)"

text \<open>The input of the checks before the account is read: balance and nonce are those of an absent account.\<close>

definition input_of_view :: "tx_env \<Rightarrow> block_progress \<Rightarrow> transaction_view \<Rightarrow> access_list_counts \<Rightarrow> validation_input" where
  "input_of_view env progress view counts = \<lparr>
     vi_kind = tx_kind view, vi_chain_id = tx_chain_id view, vi_expected_chain_id = env_chain_id env,
     vi_is_create = (tx_to view = None), vi_is_self_transfer = isSelfTransfer view, vi_gas_limit = tx_gas_limit view,
     vi_input = tx_input view, vi_value = tx_value view, vi_gas_price = fee_gas_price (tx_fee view),
     vi_base_fee = env_base_fee env, vi_block_gas_limit = env_gas_limit env, vi_block_progress = progress,
     vi_blob_base_fee = env_blob_base_fee env, vi_blob_params = env_blob_params env,
     vi_max_fee_per_gas = max_fee_per_gas (tx_fee view),
     vi_max_priority_fee_per_gas = max_priority_fee_per_gas (tx_fee view),
     vi_max_fee_per_blob_gas = max_fee_per_blob_gas (tx_fee view),
     vi_sender_balance = 0, vi_sender_nonce = 0, vi_tx_nonce = classifyTransactionNonce (tx_nonce view),
     vi_sender_code_kind = EmptyCode, vi_authorization_count = tx_authorization_count view,
     vi_access_list_counts = counts, vi_blob_hashes = tx_blob_hashes view\<rparr>"

definition senderCodeKind :: "transaction_spec \<Rightarrow> 'e preparation_access \<Rightarrow> address \<Rightarrow> account \<Rightarrow>
    ('e prepare_error, sender_code_kind) outcome" where
  "senderCodeKind sp access sender account =
     (if acc_code_hash account = keccak256_empty access then Done EmptyCode
      else zbind (lift_state (read_code access sender (acc_code_hash account))) (\<lambda>code.
        Done (if code = [] then EmptyCode else if isDelegationCode sp code then Delegation else NonDelegating)))"

definition plan_of_view :: "spec \<Rightarrow> tx_env \<Rightarrow> transaction_view \<Rightarrow> gas_plan \<Rightarrow> default_plan" where
  "plan_of_view spec env view plan =
     (let gas_price = effectiveGasPrice env view in
      defaultPlanFromGasPlan (ts_blob_schedule (spec_transaction spec)) (tx_gas_limit view)
        (plan_intrinsic plan) (plan_floor plan)
        \<lparr>fees_gas_price = gas_price,
         fees_priority_fee = effectivePriorityFee (base_fee_active (spec_settlement spec))
           \<lparr>in_gas_price = gas_price, in_base_fee = env_base_fee env, in_max_fee = max_fee_per_gas (tx_fee view),
            in_max_priority = max_priority_fee_per_gas (tx_fee view)\<rparr>,
         fees_recipient = env_coinbase env, fees_payer = Some (tx_sender view), fees_value = tx_value view,
         blob_base_fee = env_blob_base_fee env, blob_count = length (tx_blob_hashes view)\<rparr>)"

definition prepare :: "spec \<Rightarrow> 'e preparation_access \<Rightarrow> tx_env \<Rightarrow> block_progress \<Rightarrow> transaction \<Rightarrow>
    ('e prepare_error, prepare_result) outcome" where
  "prepare spec access env progress tx =
     (let sp = spec_transaction spec; view = transactionView tx in
      zbind (accessListCounts (tx_access_list view)) (\<lambda>counts.
      let input = input_of_view env progress view counts in
      case validation_gasPlan sp input of
        Trap \<Rightarrow> Trap
      | Fails _ \<Rightarrow> Done (Rejected intrinsic_gas_too_low)
      | Done plan \<Rightarrow>
        case validateBeforeAccount spec input plan of Some err \<Rightarrow> Done (Rejected err) | None \<Rightarrow>
        zbind (lift_state (accountSummary access (tx_sender view))) (\<lambda>sender_account.
        let input = (case sender_account of None \<Rightarrow> input
          | Some account \<Rightarrow> input\<lparr>vi_sender_balance := acc_balance account, vi_sender_nonce := acc_nonce account\<rparr>) in
        case validateAfterAccount spec input of Some err \<Rightarrow> Done (Rejected err) | None \<Rightarrow>
        let rejects = rejectsNonDelegatingSenderCode sp (tx_kind view) in
        zbind (case sender_account of None \<Rightarrow> Done (vi_sender_code_kind input)
          | Some account \<Rightarrow> if rejects then senderCodeKind sp access (tx_sender view) account
              else Done (vi_sender_code_kind input)) (\<lambda>code_kind.
        let input = input\<lparr>vi_sender_code_kind := code_kind\<rparr> in
        case validateSenderCode input rejects of Some err \<Rightarrow> Done (Rejected err) | None \<Rightarrow>
        let created = (if tx_to view = None then Some (address_create access (tx_sender view) (vi_sender_nonce input))
          else None) in
        zbind (message_init (tx_sender view) (tx_to view) (tx_input view) (tx_value view) None created) (\<lambda>message.
        Done (Executable \<lparr>
          prep_scope = \<lparr>scope_context = executionContext env
              \<lparr>te_origin = tx_sender view, te_gas_price = effectiveGasPrice env view, te_blob_hashes = tx_blob_hashes view\<rparr>,
            scope_access_list = tx_access_list view, scope_authorization_list = tx_authorization_list view,
            scope_authorization_count = tx_authorization_count view\<rparr>,
          prep_message = message, prep_execution_gas = plan_execution plan,
          prep_settlement = plan_of_view spec env view plan\<rparr>))))))"

text \<open>\<^verbatim>\<open>planCosts\<close> of the same specification.\<close>

definition planCosts :: "spec \<Rightarrow> default_plan \<Rightarrow> gas_result \<Rightarrow> (settle_error, default_costs) outcome" where
  "planCosts spec plan result =
     calculateDefaultCosts plan result (uses_state_gas_accounting (spec_settlement spec))
       (gas_refund_cap_divisor (spec_settlement spec))
       (applies_calldata_floor_to_block_regular_gas (spec_settlement spec))"

end
