(* ===== verification/Zig_Forks.thy ===== *)
theory Zig_Forks
  imports Zig_Transactions
begin

text \<open>
  The specifications of the Ethereum forks, \<^verbatim>\<open>src/src/eth/spec.zig\<close>, in what concerns transactions and settlement:
  the pricing functions, and each fork as its predecessor with the fields its patch names.
\<close>

section \<open>Pricing functions\<close>

definition eth_allowsContractCreation :: "tx_kind \<Rightarrow> bool" where
  "eth_allowsContractCreation kind = (kind = Legacy \<or> kind = AccessList \<or> kind = DynamicFee)"

definition eth_requiresAuthorizationList :: "tx_kind \<Rightarrow> bool" where
  "eth_requiresAuthorizationList kind = (kind = SetCode)"

definition rejectsSenderCodeBeforeLondon :: "tx_kind \<Rightarrow> bool" where
  "rejectsSenderCodeBeforeLondon kind = (kind = SetCode)"

definition rejectsAllSenderCode :: "tx_kind \<Rightarrow> bool" where
  "rejectsAllSenderCode kind = True"

definition noDelegationCode :: "bytes \<Rightarrow> bool" where
  "noDelegationCode code = False"

datatype delegation_error = InvalidDelegationLength | UnsupportedDelegationVersion

definition decodeDelegation :: "bytes \<Rightarrow> (delegation_error, address option) outcome" where
  "decodeDelegation code =
     (if length code < 2 \<or> code ! 0 \<noteq> 0xef \<or> code ! 1 \<noteq> 0x01 then Done None
      else if length code \<noteq> 23 then Fails InvalidDelegationLength
      else if code ! 2 \<noteq> 0x00 then Fails UnsupportedDelegationVersion
      else Done (Some (drop 3 code)))"

definition delegationTarget :: "bytes \<Rightarrow> address option" where
  "delegationTarget code = (case decodeDelegation code of Done r \<Rightarrow> r | _ \<Rightarrow> None)"

definition writeDelegationCode :: "address \<Rightarrow> bytes" where
  "writeDelegationCode target = [0xef, 0x01, 0x00] @ target"

definition eip7702DelegationCode :: "bytes \<Rightarrow> bool" where
  "eip7702DelegationCode code = (delegationTarget code \<noteq> None)"

definition legacyIntrinsicBase :: "intrinsic_options \<Rightarrow> (settle_error, u64) outcome" where
  "legacyIntrinsicBase options = Done 21000"

definition amsterdamIntrinsicBase :: "intrinsic_options \<Rightarrow> (settle_error, u64) outcome" where
  "amsterdamIntrinsicBase options =
     zbind (if opt_is_create options then math_add 12000 12000
       else if \<not> opt_is_self_transfer options then math_add 12000 3000 else Done 12000) (\<lambda>gas.
     if opt_value options \<noteq> 0 \<and> \<not> opt_is_create options \<and> \<not> opt_is_self_transfer options
     then math_add gas 6000 else Done gas)"

fun calldataCost_from :: "u64 \<Rightarrow> u64 \<Rightarrow> bytes \<Rightarrow> (settle_error, u64) outcome" where
  "calldataCost_from nonzero_cost gas [] = Done gas"
| "calldataCost_from nonzero_cost gas (b # bs) =
     zbind (math_add gas (if b = 0 then 4 else nonzero_cost)) (\<lambda>gas. calldataCost_from nonzero_cost gas bs)"

definition calldataCost :: "bytes \<Rightarrow> u64 \<Rightarrow> (settle_error, u64) outcome" where
  "calldataCost input nonzero_cost = calldataCost_from nonzero_cost 0 input"

definition calldataBeforeIstanbul :: "bytes \<Rightarrow> (settle_error, u64) outcome" where
  "calldataBeforeIstanbul input = calldataCost input 68"

definition calldataSinceIstanbul :: "bytes \<Rightarrow> (settle_error, u64) outcome" where
  "calldataSinceIstanbul input = calldataCost input 16"

definition calldataTokenCount :: "bytes \<Rightarrow> (settle_error, u64) outcome" where
  "calldataTokenCount input =
     (let zero_count = countZeroBytes input in
      zbind (cast_u64 (length input)) (\<lambda>n.
      zbind (math_mul (n - zero_count) 4) (\<lambda>nonzero_tokens.
      math_add zero_count nonzero_tokens)))"

definition accessListDataCost :: "access_list_counts \<Rightarrow> (settle_error, u64) outcome" where
  "accessListDataCost counts =
     zbind (cast_u64 (addresses counts)) (\<lambda>address_count.
     zbind (cast_u64 (storage_keys counts)) (\<lambda>storage_key_count.
     zbind (math_mul address_count 1280) (\<lambda>address_cost.
     zbind (math_mul storage_key_count 2048) (\<lambda>storage_key_cost.
     math_add address_cost storage_key_cost))))"

definition noAccessListData :: "access_list_counts \<Rightarrow> (settle_error, u64) outcome" where
  "noAccessListData counts = Done 0"

definition amsterdamAccessListData :: "access_list_counts \<Rightarrow> (settle_error, u64) outcome" where
  "amsterdamAccessListData counts = accessListDataCost counts"

definition noFloor :: "bytes \<Rightarrow> intrinsic_options \<Rightarrow> (settle_error, u64 option) outcome" where
  "noFloor input options = Done None"

definition pragueFloor :: "bytes \<Rightarrow> intrinsic_options \<Rightarrow> (settle_error, u64 option) outcome" where
  "pragueFloor input options =
     zbind (calldataTokenCount input) (\<lambda>tokens.
     zbind (math_mul tokens 10) (\<lambda>data_cost.
     zbind (math_add 21000 data_cost) (\<lambda>gas. Done (Some gas))))"

definition amsterdamFloor :: "bytes \<Rightarrow> intrinsic_options \<Rightarrow> (settle_error, u64 option) outcome" where
  "amsterdamFloor input options =
     zbind (cast_u64 (length input)) (\<lambda>n.
     zbind (math_mul n 64) (\<lambda>data_cost.
     zbind (zbind (amsterdamIntrinsicBase options) (\<lambda>base. math_add base data_cost)) (\<lambda>gas.
     zbind (zbind (amsterdamAccessListData (opt_access_list_counts options)) (math_add gas)) (\<lambda>gas.
     Done (Some gas)))))"

section \<open>Forks\<close>

definition cancun_blob_schedule :: blob_schedule where
  "cancun_blob_schedule = \<lparr>sch_target = 3, sch_max = 6, max_per_transaction = 6, gas_per_blob = 131072,
     min_base_fee = 1, execution_base_cost = 8192, base_fee_update_fraction = 3338477,
     reserve_price_active = False, hash_version = 1\<rparr>"

definition prague_blob_schedule :: blob_schedule where
  "prague_blob_schedule = \<lparr>sch_target = 6, sch_max = 9, max_per_transaction = 9, gas_per_blob = 131072,
     min_base_fee = 1, execution_base_cost = 8192, base_fee_update_fraction = 5007716,
     reserve_price_active = False, hash_version = 1\<rparr>"

definition osaka_blob_schedule :: blob_schedule where
  "osaka_blob_schedule = \<lparr>sch_target = 6, sch_max = 9, max_per_transaction = 6, gas_per_blob = 131072,
     min_base_fee = 1, execution_base_cost = 8192, base_fee_update_fraction = 5007716,
     reserve_price_active = True, hash_version = 1\<rparr>"

definition amsterdam_blob_schedule :: blob_schedule where
  "amsterdam_blob_schedule = \<lparr>sch_target = 14, sch_max = 21, max_per_transaction = 6, gas_per_blob = 131072,
     min_base_fee = 1, execution_base_cost = 8192, base_fee_update_fraction = 11684671,
     reserve_price_active = True, hash_version = 1\<rparr>"

definition frontier_transaction :: transaction_spec where
  "frontier_transaction = \<lparr>
     active_kinds = {Legacy},
     allowsContractCreation = eth_allowsContractCreation,
     requiresAuthorizationList = eth_requiresAuthorizationList,
     rejectsNonDelegatingSenderCode = rejectsSenderCodeBeforeLondon,
     isDelegationCode = noDelegationCode,
     ts_blob_schedule = None,
     max_initcode_size = usize_max,
     intrinsicBaseGas = legacyIntrinsicBase,
     create_intrinsic_gas = 0,
     calldataGas = calldataBeforeIstanbul,
     access_list_address_gas = 2400,
     storage_key_gas = 1900,
     accessListDataGas = noAccessListData,
     initcode_word_gas = 0,
     authorization_intrinsic_gas = 0,
     floorGas = noFloor,
     regular_gas_cap = None,
     intrinsic_regular_gas_limit = None,
     total_gas_limit = None,
     warms_coinbase = False\<rparr>"

definition frontier_settlement :: settlement_spec where
  "frontier_settlement = \<lparr>base_fee_active = False, gas_refund_cap_divisor = 2, uses_state_gas_accounting = False,
     applies_calldata_floor_to_block_regular_gas = False, touches_fee_recipient_on_zero_payment = True\<rparr>"

definition homestead_transaction :: transaction_spec where
  "homestead_transaction = frontier_transaction\<lparr>create_intrinsic_gas := 32000\<rparr>"

definition spurious_dragon_settlement :: settlement_spec where
  "spurious_dragon_settlement = frontier_settlement\<lparr>touches_fee_recipient_on_zero_payment := False\<rparr>"

definition istanbul_transaction :: transaction_spec where
  "istanbul_transaction = homestead_transaction\<lparr>calldataGas := calldataSinceIstanbul\<rparr>"

definition berlin_transaction :: transaction_spec where
  "berlin_transaction = istanbul_transaction\<lparr>active_kinds := {Legacy, AccessList}\<rparr>"

definition london_transaction :: transaction_spec where
  "london_transaction = berlin_transaction\<lparr>active_kinds := {Legacy, AccessList, DynamicFee},
     rejectsNonDelegatingSenderCode := rejectsAllSenderCode\<rparr>"

definition london_settlement :: settlement_spec where
  "london_settlement = spurious_dragon_settlement\<lparr>base_fee_active := True, gas_refund_cap_divisor := 5\<rparr>"

definition shanghai_transaction :: transaction_spec where
  "shanghai_transaction = london_transaction\<lparr>max_initcode_size := 49152, initcode_word_gas := 2, warms_coinbase := True\<rparr>"

definition cancun_transaction :: transaction_spec where
  "cancun_transaction = shanghai_transaction\<lparr>active_kinds := {Legacy, AccessList, DynamicFee, Blob},
     ts_blob_schedule := Some cancun_blob_schedule\<rparr>"

definition prague_transaction :: transaction_spec where
  "prague_transaction = cancun_transaction\<lparr>active_kinds := {Legacy, AccessList, DynamicFee, Blob, SetCode},
     isDelegationCode := eip7702DelegationCode, ts_blob_schedule := Some prague_blob_schedule,
     authorization_intrinsic_gas := 25000, floorGas := pragueFloor\<rparr>"

definition osaka_transaction :: transaction_spec where
  "osaka_transaction = prague_transaction\<lparr>ts_blob_schedule := Some osaka_blob_schedule,
     regular_gas_cap := Some 16777216, total_gas_limit := Some 16777216\<rparr>"

definition amsterdam_transaction :: transaction_spec where
  "amsterdam_transaction = osaka_transaction\<lparr>ts_blob_schedule := Some amsterdam_blob_schedule,
     max_initcode_size := 131072, intrinsicBaseGas := amsterdamIntrinsicBase, create_intrinsic_gas := 0,
     access_list_address_gas := 2900, storage_key_gas := 2000, accessListDataGas := amsterdamAccessListData,
     authorization_intrinsic_gas := 7816, floorGas := amsterdamFloor,
     intrinsic_regular_gas_limit := Some 16777216, total_gas_limit := Some 0xffffffff\<rparr>"

definition amsterdam_settlement :: settlement_spec where
  "amsterdam_settlement = london_settlement\<lparr>uses_state_gas_accounting := True,
     applies_calldata_floor_to_block_regular_gas := True\<rparr>"

datatype revision = Frontier | FrontierThawing | Homestead | DaoFork | TangerineWhistle | SpuriousDragon | Byzantium
  | Constantinople | Petersburg | Istanbul | MuirGlacier | BerlinFork | London | ArrowGlacier | GrayGlacier | MergeFork
  | Shanghai | Cancun | Prague | Osaka | Amsterdam

text \<open>The parts of \<^verbatim>\<open>specAt\<close> that patches of a fork leave alone are those of its predecessor.\<close>

definition transactionAt :: "revision \<Rightarrow> transaction_spec" where
  "transactionAt r = (case r of
     Frontier \<Rightarrow> frontier_transaction | FrontierThawing \<Rightarrow> frontier_transaction
   | Homestead \<Rightarrow> homestead_transaction | DaoFork \<Rightarrow> homestead_transaction | TangerineWhistle \<Rightarrow> homestead_transaction
   | SpuriousDragon \<Rightarrow> homestead_transaction | Byzantium \<Rightarrow> homestead_transaction
   | Constantinople \<Rightarrow> homestead_transaction | Petersburg \<Rightarrow> homestead_transaction
   | Istanbul \<Rightarrow> istanbul_transaction | MuirGlacier \<Rightarrow> istanbul_transaction
   | BerlinFork \<Rightarrow> berlin_transaction
   | London \<Rightarrow> london_transaction | ArrowGlacier \<Rightarrow> london_transaction | GrayGlacier \<Rightarrow> london_transaction
   | MergeFork \<Rightarrow> london_transaction
   | Shanghai \<Rightarrow> shanghai_transaction | Cancun \<Rightarrow> cancun_transaction | Prague \<Rightarrow> prague_transaction
   | Osaka \<Rightarrow> osaka_transaction | Amsterdam \<Rightarrow> amsterdam_transaction)"

definition settlementAt :: "revision \<Rightarrow> settlement_spec" where
  "settlementAt r = (case r of
     Frontier \<Rightarrow> frontier_settlement | FrontierThawing \<Rightarrow> frontier_settlement | Homestead \<Rightarrow> frontier_settlement
   | DaoFork \<Rightarrow> frontier_settlement | TangerineWhistle \<Rightarrow> frontier_settlement
   | SpuriousDragon \<Rightarrow> spurious_dragon_settlement | Byzantium \<Rightarrow> spurious_dragon_settlement
   | Constantinople \<Rightarrow> spurious_dragon_settlement | Petersburg \<Rightarrow> spurious_dragon_settlement
   | Istanbul \<Rightarrow> spurious_dragon_settlement | MuirGlacier \<Rightarrow> spurious_dragon_settlement
   | BerlinFork \<Rightarrow> spurious_dragon_settlement
   | London \<Rightarrow> london_settlement | ArrowGlacier \<Rightarrow> london_settlement | GrayGlacier \<Rightarrow> london_settlement
   | MergeFork \<Rightarrow> london_settlement | Shanghai \<Rightarrow> london_settlement | Cancun \<Rightarrow> london_settlement
   | Prague \<Rightarrow> london_settlement | Osaka \<Rightarrow> london_settlement
   | Amsterdam \<Rightarrow> amsterdam_settlement)"

definition specAt :: "revision \<Rightarrow> spec" where
  "specAt r = \<lparr>spec_transaction = transactionAt r, spec_settlement = settlementAt r\<rparr>"

lemmas fork_transactions = frontier_transaction_def homestead_transaction_def istanbul_transaction_def
  berlin_transaction_def london_transaction_def shanghai_transaction_def cancun_transaction_def prague_transaction_def
  osaka_transaction_def amsterdam_transaction_def

lemmas fork_settlements = frontier_settlement_def spurious_dragon_settlement_def london_settlement_def amsterdam_settlement_def

end
