(* ===== verification/Zig_Preparation.thy ===== *)
theory Zig_Preparation
  imports Zig_Forks
begin

text \<open>
  What preparation guarantees: the gas it plans adds up, the sender can pay for what is taken up front, and
  the settlement of the plan never fails.
\<close>

section \<open>Gas plans\<close>

lemma math_add_Done [zig_simps]: "math_add a b = Done c \<longleftrightarrow> unat c = unat a + unat b"
  using checked_add_Some [of a b c] by (cases "checked_add a b") (simp_all add: math_add_def)

lemma math_mul_Done [zig_simps]: "math_mul a b = Done c \<longleftrightarrow> unat c = unat a * unat b"
  using checked_mul_Some [of a b c] by (cases "checked_mul a b") (simp_all add: math_mul_def)

lemma cast_u64_Done [zig_simps]: "cast_u64 n = Done c \<longleftrightarrow> unat c = n"
proof -
  have "unat (word_of_nat n :: u64) = n" if "n < 2 ^ 64" using that by (simp add: unat_of_nat)
  then show ?thesis using unat_u64_less [of c] by (auto simp: cast_u64_def)
qed

lemma gasPlan_facts:
  assumes "gasPlan sp input limit options = Done plan"
  shows "intrinsicGasForTransaction sp input options = Done (plan_intrinsic plan)"
    and "unat (plan_minimum plan) = max (unat (plan_intrinsic plan)) (unat (plan_floor plan))"
    and "plan_minimum plan \<le> limit \<Longrightarrow> plan_intrinsic plan \<le> regularGasLimit sp limit \<Longrightarrow>
      \<exists>e. plan_execution plan = Some e \<and> unat (plan_intrinsic plan) + unat (regular_left e) + unat (reservoir e) = unat limit \<and>
        unat (plan_intrinsic plan) + unat (regular_left e) = unat (regularGasLimit sp limit)"
    and "\<not> (plan_minimum plan \<le> limit \<and> plan_intrinsic plan \<le> regularGasLimit sp limit) \<Longrightarrow> plan_execution plan = None"
proof -
  from assms obtain intrinsic floor_result where
    i: "intrinsicGasForTransaction sp input options = Done intrinsic" and
    plan: "plan = (let floor = (case floor_result of None \<Rightarrow> 0 | Some f \<Rightarrow> f);
         init = \<lparr>init_regular = intrinsic, init_floor = floor\<rparr>;
         minimum = initial_minimum init;
         regular_limit = regularGasLimit sp limit
     in \<lparr>plan_intrinsic = intrinsic, plan_floor = floor, plan_minimum = minimum, plan_initial = init,
          plan_execution = (if limit \<ge> minimum \<and> regular_limit \<ge> intrinsic
           then let execution_total = limit - intrinsic; regular_budget = regular_limit - intrinsic;
                    regular = min execution_total regular_budget
                in Some \<lparr>regular_left = regular, reservoir = execution_total - regular\<rparr>
           else None)\<rparr>)"
    unfolding gasPlan_def Let_def zbind_Done_iff by blast
  show "intrinsicGasForTransaction sp input options = Done (plan_intrinsic plan)"
    using i by (simp add: plan Let_def)
  show "unat (plan_minimum plan) = max (unat (plan_intrinsic plan)) (unat (plan_floor plan))"
    by (simp add: plan Let_def initial_minimum_def unat_min_max)
  show "\<not> (plan_minimum plan \<le> limit \<and> plan_intrinsic plan \<le> regularGasLimit sp limit) \<Longrightarrow> plan_execution plan = None"
    by (auto simp: plan Let_def)
  assume le: "plan_minimum plan \<le> limit" "plan_intrinsic plan \<le> regularGasLimit sp limit"
  have cap: "regularGasLimit sp limit \<le> limit" by (simp add: regularGasLimit_def split: option.splits)
  let ?r = "regularGasLimit sp limit - intrinsic"
  have "intrinsic \<le> regularGasLimit sp limit" using le by (simp add: plan Let_def)
  then have le': "unat intrinsic \<le> unat (regularGasLimit sp limit)" "unat (regularGasLimit sp limit) \<le> unat limit"
    using cap by (simp_all add: word_le_nat_alt)
  have sub: "unat ?r = unat (regularGasLimit sp limit) - unat intrinsic" "unat (limit - intrinsic) = unat limit - unat intrinsic"
    using le' by (simp_all add: unat_sub word_le_nat_alt)
  have mn: "min (limit - intrinsic) ?r = ?r" using sub le' by (intro min_absorb2) (simp add: word_le_nat_alt)
  have d: "unat (limit - intrinsic - ?r) = unat limit - unat (regularGasLimit sp limit)"
    using sub le' by (simp add: unat_sub word_le_nat_alt)
  have "plan_execution plan = Some \<lparr>regular_left = ?r, reservoir = limit - intrinsic - ?r\<rparr>" "plan_intrinsic plan = intrinsic"
    using le by (simp_all add: plan Let_def mn)
  then show "\<exists>e. plan_execution plan = Some e \<and> unat (plan_intrinsic plan) + unat (regular_left e) + unat (reservoir e) = unat limit \<and>
      unat (plan_intrinsic plan) + unat (regular_left e) = unat (regularGasLimit sp limit)"
    using sub le' d by simp
qed

section \<open>Passed checks\<close>

lemma refuse_None [zig_simps]: "refuse b e rest = None \<longleftrightarrow> \<not> b \<and> rest = None"
  by (simp add: refuse_def)

lemma first_error_None [zig_simps]: "first_error a b = None \<longleftrightarrow> a = None \<and> b = None"
  by (cases a) (simp_all add: first_error_def)

lemma validateBeforeAccount_None:
  assumes "validateBeforeAccount spec input plan = None"
  shows "vi_kind input \<in> active_kinds (spec_transaction spec) \<or> vi_kind input = Legacy" "plan_intrinsic plan \<le> vi_gas_limit input"
    "plan_floor plan \<le> vi_gas_limit input"
    "\<not> exceeds (max (plan_intrinsic plan) (plan_floor plan)) (intrinsic_regular_gas_limit (spec_transaction spec))"
    "\<not> exceeds (vi_gas_limit input) (total_gas_limit (spec_transaction spec))"
    "\<not> exceedsBlockGasAllowance spec input"
    "vi_kind input = Blob \<Longrightarrow> blobLimitError (spec_transaction spec) input = None"
proof -
  note c = assms [unfolded validateBeforeAccount_def Let_def]
  then have k: "inactiveTransactionKindError (spec_transaction spec) (vi_kind input) = None"
    by (cases "inactiveTransactionKindError (spec_transaction spec) (vi_kind input)") simp_all
  note c = c [unfolded k option.case refuse_None]
  show "plan_intrinsic plan \<le> vi_gas_limit input" "plan_floor plan \<le> vi_gas_limit input"
    "\<not> exceeds (max (plan_intrinsic plan) (plan_floor plan)) (intrinsic_regular_gas_limit (spec_transaction spec))"
    "\<not> exceeds (vi_gas_limit input) (total_gas_limit (spec_transaction spec))"
    "\<not> exceedsBlockGasAllowance spec input"
    "vi_kind input = Blob \<Longrightarrow> blobLimitError (spec_transaction spec) input = None"
    using c by (auto simp: not_less)
  show "vi_kind input \<in> active_kinds (spec_transaction spec) \<or> vi_kind input = Legacy"
    using k by (cases "vi_kind input") (auto simp: inactiveTransactionKindError_def split: if_splits)
qed

text \<open>The prepayment of a transaction on naturals, at the highest prices it offers.\<close>

lemma maxPrepaymentCost_Some:
  assumes "maxPrepaymentCost sp input = Some required"
  obtains price blob_fee blob_gas where
    "if vi_kind input = Legacy \<or> vi_kind input = AccessList then price = vi_gas_price input
     else vi_max_fee_per_gas input = Some price"
    "if vi_kind input = Blob then vi_max_fee_per_blob_gas input = Some blob_fee else blob_fee = 0"
    "blobGasForCount (ts_blob_schedule sp) (if vi_kind input = Blob then length (vi_blob_hashes input) else 0) = Some blob_gas"
    "unat required = unat (vi_gas_limit input) * unat price + unat blob_gas * unat blob_fee + unat (vi_value input)"
proof -
  from assms [unfolded maxPrepaymentCost_def bind_eq_Some_conv] obtain price blob_fee gas_cost blob_gas blob_cost total where
    p: "(if vi_kind input = Legacy \<or> vi_kind input = AccessList then Some (vi_gas_price input) else vi_max_fee_per_gas input) = Some price"
    and f: "(if vi_kind input = Blob then vi_max_fee_per_blob_gas input else Some 0) = Some blob_fee"
    and b: "blobGasForCount (ts_blob_schedule sp) (if vi_kind input = Blob then length (vi_blob_hashes input) else 0) = Some blob_gas"
    and c: "checked_mul (ucast (vi_gas_limit input)) price = Some gas_cost" "checked_mul blob_gas blob_fee = Some blob_cost"
      "checked_add gas_cost blob_cost = Some total" "checked_add total (vi_value input) = Some required"
    by blast
  have "unat required = unat (vi_gas_limit input) * unat price + unat blob_gas * unat blob_fee + unat (vi_value input)"
    using c unfolding checked_add_Some checked_mul_Some unat_ucast_u256 by simp
  then show ?thesis using p f by (intro that [OF _ _ b]) (auto split: if_splits)
qed

lemma validateAfterAccount_None:
  assumes "validateAfterAccount spec input = None"
  obtains required where "maxPrepaymentCost (spec_transaction spec) input = Some required"
    "required \<le> vi_sender_balance input" "feeError spec input = None" "nonceError input = None"
    "vi_kind input = Blob \<Longrightarrow> blobFieldError (spec_transaction spec) input = None"
    "vi_kind input = SetCode \<Longrightarrow> setCodeError (spec_transaction spec) input = None"
proof -
  note c = assms [unfolded validateAfterAccount_def Let_def first_error_None]
  then obtain required where "maxPrepaymentCost (spec_transaction spec) input = Some required"
    by (cases "maxPrepaymentCost (spec_transaction spec) input") simp_all
  with c show ?thesis by (intro that) (auto simp: refuse_None not_less split: if_splits)
qed

section \<open>Prices\<close>

text \<open>The shape of a decoded transaction: only a blob transaction has blobs, and a legacy fee has no maximum.\<close>

definition decoded_shape :: "transaction \<Rightarrow> bool" where
  "decoded_shape tx \<longleftrightarrow> (tr_kind tx = Blob \<or> tr_blob_hashes tx = []) \<and>
     (tr_kind tx \<in> {Legacy, AccessList} \<longrightarrow> tr_max_fee_per_gas tx = None)"

lemma le_sat_add: "b \<le> sat_add a b" "a \<le> sat_add a b" for a :: u256
proof -
  have "unat a \<le> 2 ^ 256 - 1" "unat b \<le> 2 ^ 256 - 1" using unat_u256_less [of a] unat_u256_less [of b] by linarith+
  then show "b \<le> sat_add a b" "a \<le> sat_add a b" unfolding word_le_nat_alt unat_sat_add by simp_all
qed

text \<open>The tip never exceeds the price, for every transaction of that shape.\<close>

lemma tip_le_price:
  fixes env :: tx_env
  assumes "decoded_shape tx"
  defines "view \<equiv> transactionView tx"
  defines "price \<equiv> effectiveGasPrice env view"
  shows "effectivePriorityFee active \<lparr>in_gas_price = price, in_base_fee = env_base_fee env,
      in_max_fee = max_fee_per_gas (tx_fee view), in_max_priority = max_priority_fee_per_gas (tx_fee view)\<rparr> \<le> price"
proof (cases "\<not> active \<or> tr_max_fee_per_gas tx = None")
  case True
  have "a - b \<le> a" if "\<not> a \<le> b" for a b :: u256
    using that by (simp add: word_le_nat_alt unat_sub)
  then show ?thesis using True by (auto simp: effectivePriorityFee_def view_def transactionView_def)
next
  case False
  then obtain m where m: "tr_max_fee_per_gas tx = Some m" and active by auto
  then have k: "\<not> (tr_kind tx = Legacy \<or> tr_kind tx = AccessList)" using assms(1) by (auto simp: decoded_shape_def)
  define p where "p = (case tr_max_priority_fee_per_gas tx of None \<Rightarrow> 0 | Some f \<Rightarrow> f)"
  have price: "price = min m (sat_add (env_base_fee env) p)"
    using k m by (simp add: price_def effectiveGasPrice_def view_def transactionView_def p_def)
  have tip: "effectivePriorityFee active \<lparr>in_gas_price = price, in_base_fee = env_base_fee env,
      in_max_fee = max_fee_per_gas (tx_fee view), in_max_priority = max_priority_fee_per_gas (tx_fee view)\<rparr> =
      (if m \<le> env_base_fee env then 0 else min p (m - env_base_fee env))"
    using \<open>active\<close> m by (simp add: effectivePriorityFee_def view_def transactionView_def p_def)
  have "min p (m - env_base_fee env) \<le> min m (sat_add (env_base_fee env) p)" if "\<not> m \<le> env_base_fee env"
  proof (rule min.boundedI)
    have "m - env_base_fee env \<le> m" using that by (simp add: word_le_nat_alt unat_sub)
    then show "min p (m - env_base_fee env) \<le> m" by (rule min.coboundedI2)
    show "min p (m - env_base_fee env) \<le> sat_add (env_base_fee env) p" by (intro min.coboundedI1 le_sat_add)
  qed
  then show ?thesis unfolding tip unfolding price by (cases "m \<le> env_base_fee env") simp_all
qed

section \<open>Prepared transactions\<close>

definition sender_of :: "account option \<Rightarrow> validation_input \<Rightarrow> validation_input" where
  "sender_of account input = (case account of None \<Rightarrow> input
     | Some a \<Rightarrow> input\<lparr>vi_sender_balance := acc_balance a, vi_sender_nonce := acc_nonce a\<rparr>)"

lemma sender_of_kept [simp]:
  "vi_kind (sender_of a i) = vi_kind i" "vi_gas_limit (sender_of a i) = vi_gas_limit i" "vi_value (sender_of a i) = vi_value i"
  "vi_gas_price (sender_of a i) = vi_gas_price i" "vi_max_fee_per_gas (sender_of a i) = vi_max_fee_per_gas i"
  "vi_max_fee_per_blob_gas (sender_of a i) = vi_max_fee_per_blob_gas i" "vi_blob_hashes (sender_of a i) = vi_blob_hashes i"
  "vi_blob_base_fee (sender_of a i) = vi_blob_base_fee i"
  by (simp_all add: sender_of_def split: option.splits)

lemma prepare_Executable:
  assumes "prepare spec access env progress tx = Done (Executable p)"
  obtains counts plan account where
    "validation_gasPlan (spec_transaction spec) (input_of_view env progress (transactionView tx) counts) = Done plan"
    "validateBeforeAccount spec (input_of_view env progress (transactionView tx) counts) plan = None"
    "accountSummary access (tr_sender tx) = Done account"
    "validateAfterAccount spec (sender_of account (input_of_view env progress (transactionView tx) counts)) = None"
    "prep_execution_gas p = plan_execution plan"
    "prep_settlement p = plan_of_view spec env (transactionView tx) plan"
proof -
  let ?view = "transactionView tx"
  from assms obtain counts where counts: "(accessListCounts (tx_access_list ?view) :: ('a prepare_error, access_list_counts) outcome) = Done counts"
    unfolding prepare_def Let_def zbind_Done_iff by blast
  define input where "input = input_of_view env progress ?view counts"
  note a = assms [unfolded prepare_def Let_def counts zbind.simps input_def [symmetric]]
  obtain plan where plan: "validation_gasPlan (spec_transaction spec) input = Done plan"
    using a by (cases "validation_gasPlan (spec_transaction spec) input") simp_all
  note a = a [unfolded plan outcome.case]
  have before: "validateBeforeAccount spec input plan = None"
    using a by (cases "validateBeforeAccount spec input plan") simp_all
  note a = a [unfolded before option.case]
  have s: "tx_sender ?view = tr_sender tx" by (simp add: transactionView_def)
  obtain account where account: "accountSummary access (tr_sender tx) = Done account"
    using a unfolding s by (cases "accountSummary access (tr_sender tx)") simp_all
  note a = a [unfolded s account lift_state.simps zbind.simps sender_of_def [symmetric]]
  have after: "validateAfterAccount spec (sender_of account input) = None"
    using a by (cases "validateAfterAccount spec (sender_of account input)") simp_all
  note a = a [unfolded after option.case zbind_Done_iff]
  from a have "prep_execution_gas p = plan_execution plan \<and> prep_settlement p = plan_of_view spec env ?view plan"
    by (elim exE conjE) (auto simp: zbind_Done_iff split: option.splits)
  then show ?thesis
    using plan before account after unfolding input_def by (intro that) simp_all
qed

text \<open>A capped fork bounds either the whole transaction or its intrinsic gas by the same cap.\<close>

definition spec_ok :: "spec \<Rightarrow> bool" where
  "spec_ok spec \<longleftrightarrow> gas_refund_cap_divisor (spec_settlement spec) \<noteq> 0 \<and>
     (case regular_gas_cap (spec_transaction spec) of None \<Rightarrow> True
      | Some cap \<Rightarrow> total_gas_limit (spec_transaction spec) = Some cap \<or>
          intrinsic_regular_gas_limit (spec_transaction spec) = Some cap)"

lemma specAt_ok: "spec_ok (specAt r)"
  by (cases r) (simp_all add: spec_ok_def specAt_def transactionAt_def settlementAt_def fork_transactions fork_settlements)

lemma executable_gas:
  assumes ok: "spec_ok spec" and p: "prepare spec access env progress tx = Done (Executable p)"
  obtains e where "prep_execution_gas p = Some e"
    "unat (intrinsic_gas (prep_settlement p)) + unat (regular_left e) + unat (reservoir e) = unat (tr_gas_limit tx)"
    "unat (floor_gas (prep_settlement p)) \<le> unat (tr_gas_limit tx)"
proof -
  from p obtain counts plan account where
    plan: "validation_gasPlan (spec_transaction spec) (input_of_view env progress (transactionView tx) counts) = Done plan"
    and before: "validateBeforeAccount spec (input_of_view env progress (transactionView tx) counts) plan = None"
    and r: "prep_execution_gas p = plan_execution plan" "prep_settlement p = plan_of_view spec env (transactionView tx) plan"
    by (rule prepare_Executable)
  let ?input = "input_of_view env progress (transactionView tx) counts" and ?sp = "spec_transaction spec"
  have limit: "vi_gas_limit ?input = tr_gas_limit tx" by (simp add: input_of_view_def transactionView_def)
  note b = validateBeforeAccount_None [OF before, unfolded limit]
  note g = gasPlan_facts [OF plan [unfolded validation_gasPlan_def limit]]
  have "unat (plan_minimum plan) \<le> unat (tr_gas_limit tx)"
    using b(2,3) unfolding g(2) by (simp add: word_le_nat_alt)
  then have 1: "plan_minimum plan \<le> tr_gas_limit tx" by (simp add: word_le_nat_alt)
  have 2: "plan_intrinsic plan \<le> regularGasLimit ?sp (tr_gas_limit tx)"
    using ok b(2,4,5) by (auto simp: spec_ok_def regularGasLimit_def exceeds_def not_less split: option.splits)
  have s: "intrinsic_gas (prep_settlement p) = plan_intrinsic plan" "floor_gas (prep_settlement p) = plan_floor plan"
    by (simp_all add: r plan_of_view_def defaultPlanFromGasPlan_def Let_def)
  from g(3) [OF 1 2] show ?thesis
    using b(3) by (auto simp: r(1) s word_le_nat_alt intro: that)
qed

lemma blobGasForCount_zero [simp]: "blobGasForCount s 0 = Some 0"
  by (simp add: blobGasForCount_def)

lemma executable_funds:
  assumes p: "prepare spec access env progress tx = Done (Executable p)" and shape: "decoded_shape tx"
    and account: "accountSummary access (tr_sender tx) = Done account"
  defines "balance \<equiv> (case account of None \<Rightarrow> 0 | Some a \<Rightarrow> unat (acc_balance a))"
    and "price \<equiv> unat (effectiveGasPrice env (transactionView tx))"
  shows "unat (minimum_balance (prep_settlement p)) = unat (upfront_debit (prep_settlement p)) + unat (tr_value tx)"
    and "unat (minimum_balance (prep_settlement p)) \<le> balance"
    and "unat (tr_gas_limit tx) * price \<le> unat (upfront_debit (prep_settlement p))"
proof -
  from p obtain counts plan account' where
    before: "validateBeforeAccount spec (input_of_view env progress (transactionView tx) counts) plan = None"
    and "accountSummary access (tr_sender tx) = Done account'"
    and after: "validateAfterAccount spec (sender_of account' (input_of_view env progress (transactionView tx) counts)) = None"
    and r: "prep_settlement p = plan_of_view spec env (transactionView tx) plan"
    by (rule prepare_Executable)
  then have [simp]: "account' = account" using account by simp
  let ?input = "input_of_view env progress (transactionView tx) counts" and ?sp = "spec_transaction spec"
  have f: "vi_kind ?input = tr_kind tx" "vi_gas_limit ?input = tr_gas_limit tx" "vi_value ?input = tr_value tx"
    "vi_gas_price ?input = tr_gas_price tx" "vi_max_fee_per_gas ?input = tr_max_fee_per_gas tx"
    "vi_max_fee_per_blob_gas ?input = tr_max_fee_per_blob_gas tx" "vi_blob_hashes ?input = tr_blob_hashes tx"
    "vi_blob_base_fee ?input = env_blob_base_fee env"
    by (simp_all add: input_of_view_def transactionView_def)
  from validateAfterAccount_None [OF after] obtain required where
    required: "maxPrepaymentCost ?sp (sender_of account ?input) = Some required"
    and funds: "required \<le> vi_sender_balance (sender_of account ?input)"
    and blob: "vi_kind (sender_of account ?input) = Blob \<Longrightarrow> blobFieldError ?sp (sender_of account ?input) = None"
    by auto
  from maxPrepaymentCost_Some [OF required] obtain max_price blob_fee blob_gas where
    mp: "if tr_kind tx = Legacy \<or> tr_kind tx = AccessList then max_price = tr_gas_price tx else tr_max_fee_per_gas tx = Some max_price"
    and bf: "if tr_kind tx = Blob then tr_max_fee_per_blob_gas tx = Some blob_fee else blob_fee = 0"
    and bg: "blobGasForCount (ts_blob_schedule ?sp) (if tr_kind tx = Blob then length (tr_blob_hashes tx) else 0) = Some blob_gas"
    and sum: "unat required = unat (tr_gas_limit tx) * unat max_price + unat blob_gas * unat blob_fee + unat (tr_value tx)"
    unfolding sender_of_kept f by metis
  have bg': "blobGasForCount (ts_blob_schedule ?sp) (length (tr_blob_hashes tx)) = Some blob_gas"
    using bg shape by (cases "tr_kind tx = Blob") (auto simp: decoded_shape_def)
  have price_le: "price \<le> unat max_price"
    using mp by (auto simp: price_def effectiveGasPrice_def transactionView_def word_le_nat_alt [symmetric] split: if_splits)
  have fee_le: "unat blob_gas * unat (env_blob_base_fee env) \<le> unat blob_gas * unat blob_fee"
  proof (cases "tr_kind tx = Blob")
    case True
    with blob [unfolded sender_of_kept f] bf have "env_blob_base_fee env \<le> blob_fee"
      by (simp add: blobFieldError_def refuse_None f or_zero_def not_less)
    then show ?thesis by (simp add: word_le_nat_alt)
  next
    case False
    then have "blob_gas = 0" using bg by simp
    then show ?thesis by simp
  qed
  have small: "unat (tr_gas_limit tx) * price + unat blob_gas * unat (env_blob_base_fee env) + unat (tr_value tx) \<le> unat required"
    using price_le fee_le unfolding sum by (simp add: add_mono)
  have lt: "unat required < 2 ^ 256" by (rule unat_u256_less)
  have debit: "unat (upfront_debit (prep_settlement p)) =
      unat (tr_gas_limit tx) * price + unat blob_gas * unat (env_blob_base_fee env)"
    using small lt bg'
    by (simp add: r plan_of_view_def defaultPlanFromGasPlan_def Let_def unat_prechargeCost transactionView_def price_def)
  show min: "unat (minimum_balance (prep_settlement p)) = unat (upfront_debit (prep_settlement p)) + unat (tr_value tx)"
  proof -
    have "minimum_balance (prep_settlement p) = sat_add (upfront_debit (prep_settlement p)) (tr_value tx)"
      by (simp add: r plan_of_view_def defaultPlanFromGasPlan_def Let_def transactionView_def)
    then show ?thesis using small lt debit by (simp add: unat_sat_add)
  qed
  have "unat required \<le> balance"
    using funds by (cases account) (simp_all add: balance_def sender_of_def input_of_view_def word_le_nat_alt)
  then show "unat (minimum_balance (prep_settlement p)) \<le> balance" using small unfolding min debit by linarith
  show "unat (tr_gas_limit tx) * price \<le> unat (upfront_debit (prep_settlement p))" unfolding debit by simp
qed

section \<open>Settling a prepared transaction\<close>

lemma executable_settles:
  assumes ok: "spec_ok spec" and p: "prepare spec access env progress tx = Done (Executable p)"
    and shape: "decoded_shape tx" and r: "gas_result_ok r"
  obtains c where "planCosts spec (prep_settlement p) r = Done c"
    "unat (gas_used (cost_gas c)) + unat (gas_refunded (cost_gas c)) = unat (tr_gas_limit tx)"
    "unat (floor_gas (prep_settlement p)) \<le> unat (gas_used (cost_gas c))"
    "unat (payer_refund c) + unat (fee_payment c) \<le> unat (upfront_debit (prep_settlement p))"
proof -
  from p obtain counts plan account where
    account: "accountSummary access (tr_sender tx) = Done account"
    and s: "prep_settlement p = plan_of_view spec env (transactionView tx) plan"
    by (rule prepare_Executable)
  let ?plan = "prep_settlement p"
  have f: "plan_gas_limit ?plan = tr_gas_limit tx" "gas_price ?plan = effectiveGasPrice env (transactionView tx)"
    by (simp_all add: s plan_of_view_def defaultPlanFromGasPlan_def Let_def transactionView_def)
  have floor: "floor_gas ?plan \<le> plan_gas_limit ?plan"
    using executable_gas [OF ok p] unfolding f word_le_nat_alt by blast
  have divisor: "gas_refund_cap_divisor (spec_settlement spec) \<noteq> 0" using ok by (simp add: spec_ok_def)
  have debit: "unat (plan_gas_limit ?plan) * unat (gas_price ?plan) \<le> unat (upfront_debit ?plan)"
    unfolding f by (rule executable_funds(3) [OF p shape account])
  then have funds: "unat (plan_gas_limit ?plan) * unat (gas_price ?plan) < 2 ^ 256"
    using unat_u256_less [of "upfront_debit ?plan"] by linarith
  have tip: "priority_fee ?plan \<le> gas_price ?plan"
    using tip_le_price [OF shape] unfolding f
    by (simp add: s plan_of_view_def defaultPlanFromGasPlan_def Let_def)
  from calculateDefaultCosts_total [OF r floor divisor funds tip] obtain c where
    c: "planCosts spec ?plan r = Done c" "cost_gas c = settle_gas ?plan r (uses_state_gas_accounting (spec_settlement spec))
      (gas_refund_cap_divisor (spec_settlement spec)) (applies_calldata_floor_to_block_regular_gas (spec_settlement spec))"
    "unat (payer_refund c) = unat (gas_refunded (cost_gas c)) * unat (gas_price ?plan)"
    "unat (fee_payment c) = unat (gas_used (cost_gas c)) * unat (priority_fee ?plan)"
    unfolding planCosts_def by metis
  note g = settle_gas_bounds [OF r floor, of "uses_state_gas_accounting (spec_settlement spec)"
      "gas_refund_cap_divisor (spec_settlement spec)"
      "applies_calldata_floor_to_block_regular_gas (spec_settlement spec)", folded c(2)]
  have "unat (fee_payment c) \<le> unat (gas_used (cost_gas c)) * unat (gas_price ?plan)"
    unfolding c(4) using tip by (simp add: word_le_nat_alt)
  then have "unat (payer_refund c) + unat (fee_payment c) \<le>
      (unat (gas_used (cost_gas c)) + unat (gas_refunded (cost_gas c))) * unat (gas_price ?plan)"
    unfolding c(3) by (simp add: algebra_simps)
  then show ?thesis using debit g(1,2) unfolding f by (intro that [OF c(1)]) simp_all
qed

end
