(* ===== verification/Zig_Pricing.thy ===== *)
theory Zig_Pricing
  imports Zig_Preparation
begin

text \<open>
  The intrinsic gas and the floor of every fork as one formula on naturals: a price that fits 64 bits is returned, one that does
  not is an overflow, however the code adds it up.
\<close>

section \<open>Sums that fit\<close>

definition fits :: "nat \<Rightarrow> (settle_error, u64) outcome" where
  "fits n = (if n < 2 ^ 64 then Done (word_of_nat n) else Fails Overflow)"

lemma fits_word: "fits (unat (w :: u64)) = Done w"
  using unat_u64_less [of w] by (simp add: fits_def)

lemma fits_cases:
  obtains w where "fits n = Done w" "unat w = n" | "fits n = Fails Overflow" "2 ^ 64 \<le> n"
proof (cases "n < 2 ^ 64")
  case True
  then have "unat (word_of_nat n :: u64) = n" by (simp add: unat_of_nat)
  with True show ?thesis using that(1) by (simp add: fits_def)
qed (simp add: fits_def that(2))

lemma math_add_fits: "math_add a b = fits (unat a + unat b)"
  by (simp add: math_add_def checked_add_def fits_def word_of_nat_eq_iff)

lemma math_mul_fits: "math_mul a b = fits (unat a * unat b)"
  by (simp add: math_mul_def checked_mul_def fits_def word_of_nat_eq_iff)

lemma fits_add: "zbind (fits a) (\<lambda>x. zbind (fits b) (math_add x)) = fits (a + b)"
  by (cases a rule: fits_cases; cases b rule: fits_cases) (simp_all add: math_add_fits, simp_all add: fits_def)

lemma fits_mul: "0 < b \<Longrightarrow> zbind (fits a) (\<lambda>x. math_mul x b) = fits (a * unat b)" for b :: u64
proof (cases a rule: fits_cases)
  case 2
  assume "0 < b"
  then have "0 < unat b" by (simp add: unat_gt_0 word_gt_0)
  then have "a \<le> a * unat b" by simp
  with 2 have "2 ^ 64 \<le> a * unat b" by linarith
  with 2 show ?thesis by (simp add: fits_def)
qed (simp add: math_mul_fits)

lemma fits_bind_word: "zbind (fits a) (\<lambda>x. zbind (fits (unat x + b)) f) = zbind (fits (a + b)) f"
  by (cases a rule: fits_cases) (simp_all, simp add: fits_def)

lemma fits_add_word: "zbind (fits a) (\<lambda>x. math_add x w) = fits (a + unat w)"
  using fits_add [of a "unat w"] by (simp add: fits_word)

lemma fits_bind_assoc: "zbind (zbind m f) g = zbind m (\<lambda>x. zbind (f x) g)"
  by (cases m) simp_all

lemma fits_Done [simp]: "zbind (fits a) Done = fits a"
  by (cases a rule: fits_cases) simp_all

lemma cast_u64_fits: "cast_u64 n = fits n"
  by (simp add: cast_u64_def fits_def)

lemma fits_add_counted:
  assumes "n < 2 ^ 64"
  shows "zbind (fits a) (add_counted n price) = fits (a + n * unat price)"
proof (cases "n = 0")
  case False
  obtain w where w: "cast_u64 n = Done w" "unat w = n" using assms by (cases n rule: fits_cases) (auto simp: cast_u64_fits)
  have "add_counted n price = (\<lambda>x. zbind (fits (n * unat price)) (math_add x))"
    using False w by (intro ext) (simp add: add_counted_def math_mul_fits)
  then show ?thesis by (simp add: fits_add)
qed (simp add: add_counted_def [abs_def])

definition words_of :: "nat \<Rightarrow> nat" where
  "words_of n = (n + 31) div 32"

lemma intrinsicGas_fits:
  assumes base: "intrinsicBaseGas sp opts = fits b" and data: "calldataGas sp input = fits d"
    and acc: "accessListDataGas sp (opt_access_list_counts opts) = fits a"
    and counts: "addresses (opt_access_list_counts opts) < 2 ^ 64" "storage_keys (opt_access_list_counts opts) < 2 ^ 64"
      "opt_authorization_count opts < 2 ^ 64" "length input + 31 < 2 ^ 64"
  shows "intrinsicGasForTransaction sp input opts = fits (b + (if opt_is_create opts then unat (create_intrinsic_gas sp) else 0) + d +
     addresses (opt_access_list_counts opts) * unat (access_list_address_gas sp) +
     storage_keys (opt_access_list_counts opts) * unat (storage_key_gas sp) + a +
     (if opt_is_create opts then words_of (length input) * unat (initcode_word_gas sp) else 0) +
     opt_authorization_count opts * unat (authorization_intrinsic_gas sp))"
proof -
  have create: "zbind (fits n) (\<lambda>gas. if opt_is_create opts then math_add gas c else Done gas) =
      fits (n + (if opt_is_create opts then unat c else 0))" for n c
    by (simp add: fits_add_word)
  have sum: "zbind (fits n) (\<lambda>gas. zbind (fits m) (math_add gas)) = fits (n + m)" for n m by (rule fits_add)
  have word: "zbind (fits n) (\<lambda>gas. if opt_is_create opts \<and> initcode_word_gas sp \<noteq> 0
       then zbind (wordCount (length input)) (\<lambda>n. zbind (cast_u64 n) (\<lambda>words.
            zbind (math_mul words (initcode_word_gas sp)) (math_add gas)))
       else Done gas) = fits (n + (if opt_is_create opts then words_of (length input) * unat (initcode_word_gas sp) else 0))" for n
  proof (cases "opt_is_create opts \<and> initcode_word_gas sp \<noteq> 0")
    case True
    have wc: "wordCount (length input) = Done (words_of (length input))"
      using counts(4) by (simp add: wordCount_def words_of_def usize_max_def)
    obtain w where "cast_u64 (words_of (length input)) = Done w" "unat w = words_of (length input)"
      using counts(4) by (cases "words_of (length input)" rule: fits_cases) (auto simp: cast_u64_fits words_of_def)
    then show ?thesis using True by (simp add: wc math_mul_fits sum)
  qed auto
  note add = fits_add_counted [OF counts(1)] fits_add_counted [OF counts(2)] fits_add_counted [OF counts(3)]
  show ?thesis
    unfolding intrinsicGasForTransaction_def base data acc fits_bind_assoc [symmetric]
    by (simp only: create sum word [unfolded fits_bind_assoc [symmetric]] add fits_bind_assoc [symmetric])
qed

section \<open>The prices of the forks\<close>

text \<open>EIP-2, EIP-2028, EIP-2930, EIP-3860, EIP-7702 and the Amsterdam schedule, by the fork that adopts them.\<close>

definition zero_bytes :: "bytes \<Rightarrow> nat" where
  "zero_bytes bs = length (filter (\<lambda>b. b = 0) bs)"

definition nonzero_bytes :: "bytes \<Rightarrow> nat" where
  "nonzero_bytes bs = length (filter (\<lambda>b. b \<noteq> 0) bs)"

definition since :: "revision \<Rightarrow> revision set" where
  "since r = (let order = [Frontier, FrontierThawing, Homestead, DaoFork, TangerineWhistle, SpuriousDragon, Byzantium,
     Constantinople, Petersburg, Istanbul, MuirGlacier, BerlinFork, London, ArrowGlacier, GrayGlacier, MergeFork,
     Shanghai, Cancun, Prague, Osaka, Amsterdam] in set (dropWhile (\<lambda>x. x \<noteq> r) order))"

definition base_price :: "revision \<Rightarrow> intrinsic_options \<Rightarrow> nat" where
  "base_price r opts =
     (if r \<in> since Amsterdam then
        12000 + (if opt_is_create opts then 12000
          else if opt_is_self_transfer opts then 0 else 3000 + (if opt_value opts \<noteq> 0 then 6000 else 0))
      else 21000 + (if opt_is_create opts \<and> r \<in> since Homestead then 32000 else 0))"

definition data_price :: "revision \<Rightarrow> bytes \<Rightarrow> nat" where
  "data_price r input = 4 * zero_bytes input + (if r \<in> since Istanbul then 16 else 68) * nonzero_bytes input"

definition access_price :: "revision \<Rightarrow> access_list_counts \<Rightarrow> nat" where
  "access_price r counts = (if r \<in> since Amsterdam
     then addresses counts * (2900 + 1280) + storage_keys counts * (2000 + 2048)
     else addresses counts * 2400 + storage_keys counts * 1900)"

definition intrinsic_price :: "revision \<Rightarrow> bytes \<Rightarrow> intrinsic_options \<Rightarrow> nat" where
  "intrinsic_price r input opts =
     base_price r opts + data_price r input + access_price r (opt_access_list_counts opts) +
     (if opt_is_create opts \<and> r \<in> since Shanghai then 2 * words_of (length input) else 0) +
     opt_authorization_count opts * (if r \<in> since Amsterdam then 7816 else if r \<in> since Prague then 25000 else 0)"

lemma calldata_fits: "zbind (fits a) (\<lambda>gas. calldataCost_from c gas bs) =
    fits (a + 4 * zero_bytes bs + unat c * nonzero_bytes bs)"
proof (induction bs arbitrary: a)
  case (Cons b bs)
  have "zbind (fits a) (\<lambda>gas. calldataCost_from c gas (b # bs)) =
      zbind (zbind (fits a) (\<lambda>gas. math_add gas (if b = 0 then 4 else c))) (\<lambda>gas. calldataCost_from c gas bs)"
    by (simp add: fits_bind_assoc)
  also have "\<dots> = fits (a + unat (if b = 0 then 4 else c) + 4 * zero_bytes bs + unat c * nonzero_bytes bs)"
    unfolding fits_add_word Cons ..
  also have "a + unat (if b = 0 then 4 else c) + 4 * zero_bytes bs + unat c * nonzero_bytes bs =
      a + 4 * zero_bytes (b # bs) + unat c * nonzero_bytes (b # bs)"
    by (cases "b = 0") (simp_all add: zero_bytes_def nonzero_bytes_def)
  finally show ?case .
qed (simp add: zero_bytes_def nonzero_bytes_def)

lemma calldataCost_fits: "calldataCost bs c = fits (4 * zero_bytes bs + unat c * nonzero_bytes bs)"
proof -
  have "fits 0 = Done 0" by (simp add: fits_def)
  then show ?thesis using calldata_fits [of 0 c bs] by (simp add: calldataCost_def)
qed

lemma accessListDataCost_fits:
  assumes "addresses counts < 2 ^ 64" "storage_keys counts < 2 ^ 64"
  shows "accessListDataCost counts = fits (addresses counts * 1280 + storage_keys counts * 2048)"
proof -
  obtain a k where "cast_u64 (addresses counts) = Done a" "unat a = addresses counts"
      "cast_u64 (storage_keys counts) = Done k" "unat k = storage_keys counts"
    using assms by (cases "addresses counts" rule: fits_cases; cases "storage_keys counts" rule: fits_cases)
      (auto simp: cast_u64_fits)
  then have "accessListDataCost counts = zbind (fits (addresses counts * 1280)) (\<lambda>x. zbind (fits (storage_keys counts * 2048)) (math_add x))"
    by (simp add: accessListDataCost_def math_mul_fits)
  then show ?thesis by (simp add: fits_add)
qed

lemma amsterdamIntrinsicBase_fits: "amsterdamIntrinsicBase opts = fits (base_price Amsterdam opts)"
  by (simp add: amsterdamIntrinsicBase_def math_add_fits base_price_def since_def) (simp add: fits_def)

lemma intrinsic_fits:
  assumes counts: "addresses (opt_access_list_counts opts) < 2 ^ 64" "storage_keys (opt_access_list_counts opts) < 2 ^ 64"
    "opt_authorization_count opts < 2 ^ 64" "length input + 31 < 2 ^ 64"
  shows "intrinsicGasForTransaction (transactionAt r) input opts = fits (intrinsic_price r input opts)"
proof (cases "r = Amsterdam")
  case True
  have "intrinsicGasForTransaction amsterdam_transaction input opts = fits (base_price Amsterdam opts +
      (if opt_is_create opts then unat (create_intrinsic_gas amsterdam_transaction) else 0) + data_price Amsterdam input +
     addresses (opt_access_list_counts opts) * unat (access_list_address_gas amsterdam_transaction) +
     storage_keys (opt_access_list_counts opts) * unat (storage_key_gas amsterdam_transaction) +
     (addresses (opt_access_list_counts opts) * 1280 + storage_keys (opt_access_list_counts opts) * 2048) +
     (if opt_is_create opts then words_of (length input) * unat (initcode_word_gas amsterdam_transaction) else 0) +
     opt_authorization_count opts * unat (authorization_intrinsic_gas amsterdam_transaction))"
    by (rule intrinsicGas_fits [OF _ _ _ counts])
      (simp_all add: fork_transactions amsterdamIntrinsicBase_fits calldataSinceIstanbul_def calldataCost_fits
        amsterdamAccessListData_def accessListDataCost_fits [OF counts(1,2)] data_price_def since_def)
  moreover have "create_intrinsic_gas amsterdam_transaction = 0" "unat (access_list_address_gas amsterdam_transaction) = 2900"
    "unat (storage_key_gas amsterdam_transaction) = 2000" "unat (initcode_word_gas amsterdam_transaction) = 2"
    "unat (authorization_intrinsic_gas amsterdam_transaction) = 7816"
    by (simp_all add: fork_transactions)
  ultimately show ?thesis
    by (simp add: True transactionAt_def intrinsic_price_def access_price_def since_def algebra_simps)
next
  case False
  have "intrinsicGasForTransaction (transactionAt r) input opts = fits (21000 +
      (if opt_is_create opts then unat (create_intrinsic_gas (transactionAt r)) else 0) + data_price r input +
     addresses (opt_access_list_counts opts) * unat (access_list_address_gas (transactionAt r)) +
     storage_keys (opt_access_list_counts opts) * unat (storage_key_gas (transactionAt r)) + 0 +
     (if opt_is_create opts then words_of (length input) * unat (initcode_word_gas (transactionAt r)) else 0) +
     opt_authorization_count opts * unat (authorization_intrinsic_gas (transactionAt r)))"
    by (rule intrinsicGas_fits [OF _ _ _ counts]; cases r)
      (use False in \<open>simp_all add: transactionAt_def fork_transactions calldataSinceIstanbul_def calldataBeforeIstanbul_def
        calldataCost_fits data_price_def since_def legacyIntrinsicBase_def noAccessListData_def, simp_all add: fits_def\<close>)
  also have "\<dots> = fits (intrinsic_price r input opts)"
    by (rule arg_cong [where f = fits], cases r)
      (use False in \<open>simp_all add: transactionAt_def intrinsic_price_def base_price_def access_price_def since_def fork_transactions\<close>)
  finally show ?thesis .
qed

text \<open>The floor of EIP-7623, and of Amsterdam.\<close>

definition floor_price :: "revision \<Rightarrow> bytes \<Rightarrow> intrinsic_options \<Rightarrow> nat" where
  "floor_price r input opts =
     (if r \<in> since Amsterdam
      then base_price r opts + 64 * length input + addresses (opt_access_list_counts opts) * 1280 +
        storage_keys (opt_access_list_counts opts) * 2048
      else 21000 + 10 * (zero_bytes input + 4 * nonzero_bytes input))"

lemma zero_nonzero: "zero_bytes bs + nonzero_bytes bs = length bs"
  by (simp add: zero_bytes_def nonzero_bytes_def sum_length_filter_compl)

lemma unat_countZeroBytes:
  assumes "length bs < 2 ^ 64"
  shows "unat (countZeroBytes bs) = zero_bytes bs"
proof -
  have "foldl (\<lambda>n b. if b = 0 then n + 1 else n) w bs = w + word_of_nat (zero_bytes bs)" for w :: u64
    by (induction bs arbitrary: w) (simp_all add: zero_bytes_def add.assoc)
  then have "countZeroBytes bs = word_of_nat (zero_bytes bs)" by (simp add: countZeroBytes_def)
  then show ?thesis using assms zero_nonzero [of bs] by (simp add: unat_of_nat)
qed

lemma calldataTokenCount_fits:
  assumes "length bs < 2 ^ 64"
  shows "calldataTokenCount bs = fits (zero_bytes bs + 4 * nonzero_bytes bs)"
proof -
  obtain n where n: "cast_u64 (length bs) = Done n" "unat n = length bs"
    using assms by (cases "length bs" rule: fits_cases) (auto simp: cast_u64_fits)
  have z: "unat (countZeroBytes bs) = zero_bytes bs" by (rule unat_countZeroBytes [OF assms])
  have "countZeroBytes bs \<le> n" using n(2) z zero_nonzero [of bs] by (simp add: word_le_nat_alt)
  then have "unat (n - countZeroBytes bs) = nonzero_bytes bs"
    using n(2) z zero_nonzero [of bs] by (simp add: unat_sub)
  then have "calldataTokenCount bs = zbind (fits (nonzero_bytes bs * 4)) (math_add (countZeroBytes bs))"
    by (simp add: calldataTokenCount_def Let_def n(1) math_mul_fits)
  also have "\<dots> = fits (zero_bytes bs + nonzero_bytes bs * 4)"
    using fits_add [of "zero_bytes bs" "nonzero_bytes bs * 4"] z fits_word [of "countZeroBytes bs"] by simp
  finally show ?thesis by (simp add: mult.commute)
qed

lemma floor_fits:
  assumes counts: "addresses (opt_access_list_counts opts) < 2 ^ 64" "storage_keys (opt_access_list_counts opts) < 2 ^ 64"
    "length input < 2 ^ 64"
  shows "floorGas (transactionAt r) input opts =
     (if r \<in> since Prague then zbind (fits (floor_price r input opts)) (\<lambda>g. Done (Some g)) else Done None)"
proof -
  have prague: "pragueFloor input opts = zbind (fits (21000 + 10 * (zero_bytes input + 4 * nonzero_bytes input))) (\<lambda>g. Done (Some g))"
  proof -
    let ?t = "zero_bytes input + 4 * nonzero_bytes input"
    have "zbind (fits ?t) (\<lambda>tokens. math_mul tokens 10) = fits (?t * unat (10 :: u64))" by (rule fits_mul) simp
    moreover have "zbind (fits (?t * 10)) (math_add 21000) = fits (21000 + ?t * 10)"
      using fits_add [of 21000 "?t * 10"] by (simp add: fits_def [of 21000])
    ultimately have "fits (21000 + 10 * ?t) = zbind (zbind (fits ?t) (\<lambda>tokens. math_mul tokens 10)) (math_add 21000)"
      by (simp add: mult.commute)
    then show ?thesis
      by (simp only: pragueFloor_def calldataTokenCount_fits [OF counts(3)] fits_bind_assoc)
  qed
  have amsterdam: "amsterdamFloor input opts = zbind (fits (floor_price Amsterdam input opts)) (\<lambda>g. Done (Some g))"
  proof -
    obtain n where n: "cast_u64 (length input) = Done n" "unat n = length input"
      using counts(3) by (cases "length input" rule: fits_cases) (auto simp: cast_u64_fits)
    have base: "zbind (fits b) (\<lambda>x. zbind (fits a) (\<lambda>base. math_add base x)) = fits (a + b)" for a b
      by (cases a rule: fits_cases; cases b rule: fits_cases) (simp_all add: math_add_fits, simp_all add: fits_def)
    have "amsterdamFloor input opts =
        zbind (zbind (zbind (fits (length input * 64)) (\<lambda>data_cost. zbind (fits (base_price Amsterdam opts)) (\<lambda>b. math_add b data_cost)))
          (\<lambda>gas. zbind (fits (addresses (opt_access_list_counts opts) * 1280 + storage_keys (opt_access_list_counts opts) * 2048))
            (math_add gas))) (\<lambda>g. Done (Some g))"
      by (simp add: amsterdamFloor_def n math_mul_fits amsterdamIntrinsicBase_fits amsterdamAccessListData_def
          accessListDataCost_fits [OF counts(1,2)] fits_bind_assoc)
    then show ?thesis by (simp add: base fits_add floor_price_def since_def algebra_simps)
  qed
  show ?thesis
    by (cases r) (simp_all add: transactionAt_def fork_transactions since_def noFloor_def prague amsterdam floor_price_def [of Prague]
        floor_price_def [of Osaka])
qed

end
