(* ===== verification/Zig_Execution_Gas.thy ===== *)
theory Zig_Execution_Gas
  imports Zig_Pricing
begin

text \<open>
  The gas of a transaction between its plan and its settlement: the charges before the payload
  (\<^verbatim>\<open>PreExecutionGas\<close> of \<^verbatim>\<open>src/src/transaction/transition.zig\<close>), the charge of the top frame and the two root
  calls of \<^verbatim>\<open>src/src/executor.zig\<close> with the payload itself as a function, and the settlement of the result. The state and warm-set
  effects of these functions are left out: this is what they do to the two pools of gas.
\<close>

section \<open>Before the payload\<close>

record gas_adjustment =
  account_state_charge :: u64
  account_write_charge :: u64
  delegation_state_charge :: u64
  adj_regular_refund :: u64

record pre_gas =
  pre_initial :: execution_gas
  pre_left :: execution_gas
  pre_regular_refund :: u64
  pre_state_spent :: u64
  pre_state_from_regular :: u64

definition pre_init :: "execution_gas \<Rightarrow> pre_gas" where
  "pre_init gas = \<lparr>pre_initial = gas, pre_left = gas, pre_regular_refund = 0, pre_state_spent = 0, pre_state_from_regular = 0\<rparr>"

definition chargeRegular :: "u64 \<Rightarrow> pre_gas \<Rightarrow> bool \<times> pre_gas" where
  "chargeRegular amount self =
     (if amount > regular_left (pre_left self) then (False, self)
      else (True, self\<lparr>pre_left := (pre_left self)\<lparr>regular_left := regular_left (pre_left self) - amount\<rparr>\<rparr>))"

definition chargeState :: "u64 \<Rightarrow> pre_gas \<Rightarrow> bool \<times> pre_gas" where
  "chargeState amount self =
     (let gas = pre_left self; from_reservoir = min (reservoir gas) amount; from_regular = amount - from_reservoir in
      if from_regular > regular_left gas then (False, self)
      else (True, self\<lparr>pre_left := gas\<lparr>reservoir := reservoir gas - from_reservoir, regular_left := regular_left gas - from_regular\<rparr>,
        pre_state_spent := sat_add (pre_state_spent self) amount,
        pre_state_from_regular := sat_add (pre_state_from_regular self) from_regular\<rparr>))"

definition pre_apply :: "gas_adjustment \<Rightarrow> pre_gas \<Rightarrow> bool \<times> pre_gas" where
  "pre_apply a self =
     (case chargeState (account_state_charge a) self of (False, self) \<Rightarrow> (False, self) | (True, self) \<Rightarrow>
      case chargeRegular (account_write_charge a) self of (False, self) \<Rightarrow> (False, self) | (True, self) \<Rightarrow>
      case chargeState (delegation_state_charge a) self of (False, self) \<Rightarrow> (False, self) | (True, self) \<Rightarrow>
      (True, self\<lparr>pre_regular_refund := sat_add (pre_regular_refund self) (adj_regular_refund a)\<rparr>))"

text \<open>A conversion that stops at the largest signed counter.\<close>

definition lossy :: "u64 \<Rightarrow> int" where
  "lossy w = min (uint w) i64_max"

definition foldInto :: "pre_gas \<Rightarrow> host_result \<Rightarrow> host_result" where
  "foldInto self r = r\<lparr>gas_refund := sat (gas_refund r + lossy (pre_regular_refund self)),
     state_gas_spent := sat (state_gas_spent r + lossy (pre_state_spent self)),
     state_gas_from_gas_left := sat (state_gas_from_gas_left r + lossy (pre_state_from_regular self))\<rparr>"

text \<open>The result of a transaction that runs out of gas before its payload, with the reservoir it keeps.\<close>

definition out_of_gas_result :: "int \<Rightarrow> host_result" where
  "out_of_gas_result res = \<lparr>gas_left = 0, gas_refund = 0, gas_reservoir = res, state_gas_spent = 0,
     state_gas_from_gas_left = 0, res_status = out_of_gas\<rparr>"

definition includedOutOfGas :: "pre_gas \<Rightarrow> host_result" where
  "includedOutOfGas self = out_of_gas_result (lossy (reservoir (pre_initial self)))"

section \<open>The root call and the root creation\<close>

datatype stage = PreparationStage | PayloadStage

text \<open>The code of a call: the cost of access when it is delegated, then a run of bytecode or of a native contract.\<close>

definition executeCallTransaction :: "int \<Rightarrow> u64 option \<Rightarrow> (execution_gas \<Rightarrow> (unit, host_result) outcome) \<Rightarrow>
    execution_gas \<Rightarrow> (unit, stage \<times> host_result) outcome" where
  "executeCallTransaction charged delegated_access run gas =
     (case top_charge gas charged of (c, gas) \<Rightarrow>
      if charge_out_of_gas c then Done (PreparationStage, out_of_gas_result (lossy (reservoir gas)))
      else case delegated_access of
        None \<Rightarrow> zbind (run gas) (\<lambda>r. zbind (top_finish c r) (\<lambda>r. Done (PayloadStage, r)))
      | Some access_cost \<Rightarrow>
          if regular_left gas < access_cost
          then zbind (top_finish c (out_of_gas_result (lossy (reservoir gas)))) (\<lambda>r. Done (PreparationStage, r))
          else zbind (run (gas\<lparr>regular_left := regular_left gas - access_cost\<rparr>)) (\<lambda>r.
            zbind (top_finish c r) (\<lambda>r. Done (PayloadStage, r))))"

definition executeCreateTransaction :: "int \<Rightarrow> (execution_gas \<Rightarrow> (unit, host_result) outcome) \<Rightarrow>
    execution_gas \<Rightarrow> (unit, stage \<times> host_result) outcome" where
  "executeCreateTransaction charged run gas =
     (case top_charge gas charged of (c, gas) \<Rightarrow>
      if charge_out_of_gas c then Done (PreparationStage, out_of_gas_result (lossy (reservoir gas)))
      else zbind (run gas) (\<lambda>r. zbind (top_finish c r) (\<lambda>r. Done (PayloadStage, r))))"

section \<open>The payload with its authorizations\<close>

fun apply_adjustments :: "gas_adjustment list \<Rightarrow> pre_gas \<Rightarrow> bool \<times> pre_gas" where
  "apply_adjustments [] g = (True, g)"
| "apply_adjustments (a # as) g = (case pre_apply a g of (False, g) \<Rightarrow> (False, g) | (True, g) \<Rightarrow> apply_adjustments as g)"

definition executeAuthorizedPayload :: "gas_adjustment list \<Rightarrow> (execution_gas \<Rightarrow> (unit, stage \<times> host_result) outcome) \<Rightarrow>
    execution_gas \<Rightarrow> (unit, host_result) outcome" where
  "executeAuthorizedPayload adjustments payload initial =
     (case apply_adjustments adjustments (pre_init initial) of
        (False, g) \<Rightarrow> Done (includedOutOfGas g)
      | (True, g) \<Rightarrow> zbind (payload (pre_left g)) (\<lambda>(stage, r).
          if stage = PreparationStage then Done (includedOutOfGas g) else Done (foldInto g r)))"

definition executePayload :: "(execution_gas \<Rightarrow> (unit, stage \<times> host_result) outcome) \<Rightarrow>
    execution_gas \<Rightarrow> (unit, host_result) outcome" where
  "executePayload payload gas = zbind (payload gas) (\<lambda>(stage, r). Done r)"

definition settlement_result :: "host_result \<Rightarrow> gas_result" where
  "settlement_result r = \<lparr>res_gas_left = gas_left r, res_gas_refund = gas_refund r,
     res_gas_reservoir = gas_reservoir r, res_state_gas_spent = state_gas_spent r\<rparr>"

section \<open>Every layer conserves both pools\<close>

definition pools_small :: "execution_gas \<Rightarrow> bool" where
  "pools_small e \<longleftrightarrow> uint (regular_left e) + uint (reservoir e) < 2 ^ 62"

text \<open>
  A result that balances the pools it was given and the stipends \<open>t\<close> granted on the way, and gives the state gas back unless it
  succeeded; stipends and credited state gas are small.
\<close>

definition settles_activation :: "execution_gas \<Rightarrow> host_result \<Rightarrow> int \<Rightarrow> int \<Rightarrow> int \<Rightarrow> bool" where
  "settles_activation e r u t k \<longleftrightarrow>
     result_ok (uint (regular_left e) + t) (uint (reservoir e)) r u k \<and> 0 \<le> t \<and> t + k < 2 ^ 62"

definition accounts :: "execution_gas \<Rightarrow> host_result \<Rightarrow> int \<Rightarrow> int \<Rightarrow> bool" where
  "accounts e r u t \<longleftrightarrow> balanced (uint (regular_left e) + t) (uint (reservoir e)) r u"

lemma lossy_small: "uint w < 2 ^ 62 \<Longrightarrow> lossy w = uint w"
  by (simp add: lossy_def i64_max_def)

lemma pools_smallD:
  assumes "pools_small e"
  shows "uint (regular_left e) < 2 ^ 62" "uint (reservoir e) < 2 ^ 62"
    "lossy (regular_left e) = uint (regular_left e)" "lossy (reservoir e) = uint (reservoir e)"
proof -
  have "0 \<le> uint (regular_left e)" "0 \<le> uint (reservoir e)" by simp_all
  then show "uint (regular_left e) < 2 ^ 62" "uint (reservoir e) < 2 ^ 62"
    using assms unfolding pools_small_def by linarith+
  then show "lossy (regular_left e) = uint (regular_left e)" "lossy (reservoir e) = uint (reservoir e)"
    by (simp_all add: lossy_small)
qed

lemma uint_min: "uint (min a b) = min (uint a) (uint b)"
  by (simp add: min_def word_le_def)

lemma uint_sub: "b \<le> a \<Longrightarrow> uint (a - b) = uint a - uint b"
  using uint_sub_lem [of b a] by (simp add: word_le_def)

text \<open>Drawing an amount from the reservoir first.\<close>

lemma draw:
  fixes res reg amount :: u64
  defines "fr \<equiv> min res amount"
  assumes "\<not> amount - fr > reg"
  shows "uint (res - fr) + uint fr = uint res" "uint (reg - (amount - fr)) + uint (amount - fr) = uint reg"
    "uint (amount - fr) + uint fr = uint amount"
proof -
  have le: "fr \<le> res" "fr \<le> amount" "amount - fr \<le> reg" using assms(2) by (simp_all add: fr_def not_less)
  show "uint (res - fr) + uint fr = uint res" "uint (reg - (amount - fr)) + uint (amount - fr) = uint reg"
    "uint (amount - fr) + uint fr = uint amount"
    using uint_sub [OF le(1)] uint_sub [OF le(2)] uint_sub [OF le(3)] by simp_all
qed

lemma top_charge_split:
  assumes "top_charge e amount = (c, e')" and "amount < 2 ^ 63"
  shows "charge_out_of_gas c \<Longrightarrow> e' = e"
    and "\<not> charge_out_of_gas c \<Longrightarrow> 0 \<le> from_regular c \<and> from_regular c \<le> spent c \<and>
      uint (regular_left e') + from_regular c = uint (regular_left e) \<and>
      uint (reservoir e') + (spent c - from_regular c) = uint (reservoir e)"
proof -
  show "charge_out_of_gas c \<Longrightarrow> e' = e"
    using assms(1) by (auto simp: top_charge_def Let_def split: if_splits)
  assume n: "\<not> charge_out_of_gas c"
  show "0 \<le> from_regular c \<and> from_regular c \<le> spent c \<and>
      uint (regular_left e') + from_regular c = uint (regular_left e) \<and>
      uint (reservoir e') + (spent c - from_regular c) = uint (reservoir e)"
  proof (cases "amount \<le> 0")
    case True
    then show ?thesis using assms(1) by (auto simp: top_charge_def)
  next
    case False
    define total where "total = (word_of_int amount :: u64)"
    have total: "uint total = amount" using False assms(2) by (simp add: total_def uint_word_of_int)
    have fits: "\<not> total - min (reservoir e) total > regular_left e"
      using False n assms(1) by (auto simp: top_charge_def Let_def total_def [symmetric] split: if_splits)
    have r: "c = \<lparr>spent = amount, from_regular = uint (total - min (reservoir e) total), charge_out_of_gas = False\<rparr>"
      "e' = e\<lparr>reservoir := reservoir e - min (reservoir e) total,
         regular_left := regular_left e - (total - min (reservoir e) total)\<rparr>"
      using False n assms(1) by (auto simp: top_charge_def Let_def total_def [symmetric] split: if_splits)
    have "0 \<le> uint (min (reservoir e) total)" "0 \<le> uint (total - min (reservoir e) total)" by simp_all
    then have "uint (total - min (reservoir e) total) \<le> amount" using draw(3) [OF fits] total by linarith
    then show ?thesis using draw [OF fits] total unfolding r charge.select_convs by simp
  qed
qed

lemma top_finish_conserves:
  assumes ok: "result_ok (L' + t) R' r u k" and t: "0 \<le> t" "t + k < 2 ^ 62"
    and n: "0 \<le> f" "f \<le> s" "L = L' + f" "R = R' + (s - f)" "0 \<le> R'" "L + R < 2 ^ 62"
    and c: "spent c = s" "from_regular c = f"
  obtains r' u' where "top_finish c r = Done r'" "result_ok (L + t) R r' u' k" "u \<le> u'"
proof (cases "s = 0")
  case True
  then have "top_finish c r = Done r" using c by (simp add: top_finish_def)
  then show ?thesis using that [of r u] ok True n by simp
next
  case False
  have acc: "accounted (L' + t) R' r u k" using ok by (simp add: result_ok_def)
  have "L' + t + R' + k < 2 ^ 62 + 2 ^ 62" using n t by linarith
  then have rp: "representable (L' + t) R' k" using n by (simp add: representable_def i64_max_def)
  note i = accounted_bounds [OF acc rp]
  have B: "0 \<le> u" "0 \<le> gas_left r" "0 \<le> gas_reservoir r" "0 \<le> state_gas_from_gas_left r"
    "gas_left r + state_gas_from_gas_left r + u = L' + t" "gas_reservoir r + state_gas_spent r - state_gas_from_gas_left r = R'"
    and z: "res_status r \<noteq> success \<Longrightarrow> state_gas_spent r = 0 \<and> state_gas_from_gas_left r = 0"
    using ok by (simp_all add: result_ok_def accounted_def balanced_def)
  have finish: "top_finish c r = Done (case res_status r of
        success \<Rightarrow> r\<lparr>state_gas_spent := sat (state_gas_spent r + s), state_gas_from_gas_left := sat (state_gas_from_gas_left r + f)\<rparr>
      | revert \<Rightarrow> r\<lparr>gas_reservoir := sat (gas_reservoir r + (s - f)), gas_left := sat (gas_left r + f)\<rparr>
      | invalid \<Rightarrow> r\<lparr>gas_reservoir := sat (gas_reservoir r + (s - f))\<rparr>
      | out_of_gas \<Rightarrow> r\<lparr>gas_reservoir := sat (gas_reservoir r + (s - f))\<rparr>)"
    using False n c by (simp add: top_finish_def Let_def split: exec_status.split)
  have top: "(2::int) ^ 62 + 2 ^ 62 \<le> i64_max + 1" by (simp add: i64_max_def)
  have s1: "sat (state_gas_spent r + s) = state_gas_spent r + s"
    by (rule sat_small; use i B n t top in linarith)
  have s2: "sat (state_gas_from_gas_left r + f) = state_gas_from_gas_left r + f"
    by (rule sat_small; use i B n t top in linarith)
  have s3: "sat (R' + (s - f)) = R' + (s - f)"
    by (rule sat_small; use i B n t top in linarith)
  have s4: "sat (gas_left r + f) = gas_left r + f"
    by (rule sat_small; use i B n t top in linarith)
  let ?u = "if res_status r = invalid \<or> res_status r = out_of_gas then u + f else u"
  show ?thesis
  proof (rule that [OF finish])
    show "u \<le> ?u" using n by simp
    show "result_ok (L + t) R (case res_status r of
        success \<Rightarrow> r\<lparr>state_gas_spent := sat (state_gas_spent r + s), state_gas_from_gas_left := sat (state_gas_from_gas_left r + f)\<rparr>
      | revert \<Rightarrow> r\<lparr>gas_reservoir := sat (gas_reservoir r + (s - f)), gas_left := sat (gas_left r + f)\<rparr>
      | invalid \<Rightarrow> r\<lparr>gas_reservoir := sat (gas_reservoir r + (s - f))\<rparr>
      | out_of_gas \<Rightarrow> r\<lparr>gas_reservoir := sat (gas_reservoir r + (s - f))\<rparr>) ?u k"
      using B z n i by (cases "res_status r") (simp_all add: result_ok_def accounted_def balanced_def s1 s2 s3 s4)
  qed
qed

text \<open>The charges before the payload: \<open>w\<close> is the regular gas they used.\<close>

definition pre_ok :: "execution_gas \<Rightarrow> pre_gas \<Rightarrow> int \<Rightarrow> bool" where
  "pre_ok e g w \<longleftrightarrow> 0 \<le> w \<and> pre_initial g = e \<and>
     uint (regular_left (pre_left g)) + uint (pre_state_from_regular g) + w = uint (regular_left e) \<and>
     uint (reservoir (pre_left g)) + uint (pre_state_spent g) - uint (pre_state_from_regular g) = uint (reservoir e)"

lemma uint_sat_add: "uint a + uint b < 2 ^ 64 \<Longrightarrow> uint (sat_add a b) = uint a + uint b" for a b :: u64
proof -
  assume lt: "uint a + uint b < 2 ^ 64"
  have u: "uint w = int (unat w)" for w :: u64 by (rule uint_nat)
  have "int (unat a + unat b) < int (2 ^ 64)" using lt unfolding u by simp
  then have "unat a + unat b < 2 ^ 64" by (rule of_nat_less_imp_less)
  then have "unat (sat_add a b) = unat a + unat b" by (simp add: unat_sat_add)
  then show ?thesis unfolding u by simp
qed

lemma pre_ok_init: "pre_ok e (pre_init e) 0"
  by (simp add: pre_ok_def pre_init_def)

lemma chargeRegular_ok:
  assumes "pre_ok e g w" and "chargeRegular a g = (True, g')"
  shows "pre_ok e g' (w + uint a)"
  using assms uint_sub [of a "regular_left (pre_left g)"]
  by (auto simp: pre_ok_def chargeRegular_def not_less split: if_splits)

lemma chargeState_ok:
  assumes small: "pools_small e" and ok: "pre_ok e g w" and c: "chargeState a g = (True, g')"
  shows "pre_ok e g' w"
proof -
  let ?fr = "min (reservoir (pre_left g)) a"
  have fits: "\<not> a - ?fr > regular_left (pre_left g)"
    using c by (auto simp: chargeState_def Let_def split: if_splits)
  note d = draw [OF fits]
  have g': "g' = g\<lparr>pre_left := (pre_left g)\<lparr>reservoir := reservoir (pre_left g) - ?fr,
      regular_left := regular_left (pre_left g) - (a - ?fr)\<rparr>,
    pre_state_spent := sat_add (pre_state_spent g) a, pre_state_from_regular := sat_add (pre_state_from_regular g) (a - ?fr)\<rparr>"
    using c fits by (simp add: chargeState_def Let_def)
  have nn: "0 \<le> uint (regular_left (pre_left g))" "0 \<le> uint (reservoir (pre_left g))" "0 \<le> uint (pre_state_from_regular g)"
    "0 \<le> uint (reservoir (pre_left g) - ?fr)" "0 \<le> uint (regular_left (pre_left g) - (a - ?fr))" by simp_all
  have o: "uint (regular_left (pre_left g)) + uint (pre_state_from_regular g) \<le> uint (regular_left e)"
    "uint (reservoir (pre_left g)) + uint (pre_state_spent g) - uint (pre_state_from_regular g) = uint (reservoir e)"
    using ok by (simp_all add: pre_ok_def)
  have sm: "uint (regular_left e) + uint (reservoir e) < 2 ^ 64" using small by (simp add: pools_small_def)
  have s: "uint (sat_add (pre_state_spent g) a) = uint (pre_state_spent g) + uint a"
    by (rule uint_sat_add) (use o sm d nn in linarith)
  have f: "uint (sat_add (pre_state_from_regular g) (a - ?fr)) = uint (pre_state_from_regular g) + uint (a - ?fr)"
    by (rule uint_sat_add) (use o sm d nn uint_ge_0 [of "reservoir e"] in linarith)
  show ?thesis using ok d unfolding pre_ok_def g' by (simp add: s f)
qed

lemma pre_apply_ok:
  assumes "pools_small e" and "pre_ok e g w" and "pre_apply a g = (True, g')"
  shows "\<exists>w'. w \<le> w' \<and> pre_ok e g' w'"
proof -
  from assms(3) obtain g1 g2 g3 where g: "chargeState (account_state_charge a) g = (True, g1)"
    "chargeRegular (account_write_charge a) g1 = (True, g2)" "chargeState (delegation_state_charge a) g2 = (True, g3)"
    "g' = g3\<lparr>pre_regular_refund := sat_add (pre_regular_refund g3) (adj_regular_refund a)\<rparr>"
    by (auto simp: pre_apply_def split: prod.splits bool.splits)
  have "pre_ok e g3 (w + uint (account_write_charge a))"
    by (rule chargeState_ok [OF assms(1) chargeRegular_ok [OF chargeState_ok [OF assms(1,2) g(1)] g(2)] g(3)])
  then show ?thesis by (intro exI [of _ "w + uint (account_write_charge a)"]) (simp add: pre_ok_def g(4))
qed

lemma chargeState_initial: "pre_initial (snd (chargeState a g)) = pre_initial g"
  by (simp add: chargeState_def Let_def)

lemma chargeRegular_initial: "pre_initial (snd (chargeRegular a g)) = pre_initial g"
  by (simp add: chargeRegular_def)

lemma pre_apply_initial: "pre_initial (snd (pre_apply a g)) = pre_initial g"
  using chargeState_initial [of "account_state_charge a" g] chargeRegular_initial chargeState_initial
  by (auto simp: pre_apply_def split: prod.splits bool.splits) (metis snd_conv)+

lemma apply_adjustments_initial: "pre_initial (snd (apply_adjustments as g)) = pre_initial g"
  using pre_apply_initial
  by (induction as arbitrary: g) (auto split: prod.splits bool.splits, metis snd_conv, metis snd_conv)

lemma apply_adjustments_ok:
  assumes "pools_small e"
  shows "pre_ok e g w \<Longrightarrow> apply_adjustments as g = (True, g') \<Longrightarrow> \<exists>w'. w \<le> w' \<and> pre_ok e g' w'"
proof (induction as arbitrary: g w)
  case (Cons a as)
  from Cons.prems(2) obtain g1 where g1: "pre_apply a g = (True, g1)" "apply_adjustments as g1 = (True, g')"
    by (auto split: prod.splits bool.splits)
  from pre_apply_ok [OF assms Cons.prems(1) g1(1)] obtain w1 where "w \<le> w1" "pre_ok e g1 w1" by blast
  moreover from Cons.IH [OF this(2) g1(2)] obtain w' where "w1 \<le> w'" "pre_ok e g' w'" by blast
  ultimately show ?case by (intro exI [of _ w']) simp
qed auto

lemma settles_bounds:
  assumes "settles_activation e r u t k" and "pools_small e"
  shows "gas_left r + state_gas_from_gas_left r \<le> uint (regular_left e) + t"
    "state_gas_spent r \<le> uint (regular_left e) + t + uint (reservoir e)" "0 \<le> gas_left r" "0 \<le> gas_reservoir r"
    "0 \<le> state_gas_from_gas_left r" "- k \<le> state_gas_spent r" "0 \<le> u" "0 \<le> k" "0 \<le> t" "t + k < 2 ^ 62"
proof -
  have a: "accounted (uint (regular_left e) + t) (uint (reservoir e)) r u k" and t: "0 \<le> t" "t + k < 2 ^ 62"
    using assms(1) by (simp_all add: settles_activation_def result_ok_def)
  have "uint (regular_left e) + t + uint (reservoir e) + k < 2 ^ 62 + 2 ^ 62"
    using assms(2) t unfolding pools_small_def by linarith
  then have "representable (uint (regular_left e) + t) (uint (reservoir e)) k"
    by (simp add: representable_def i64_max_def)
  note i = accounted_bounds [OF a this]
  show "gas_left r + state_gas_from_gas_left r \<le> uint (regular_left e) + t"
    "state_gas_spent r \<le> uint (regular_left e) + t + uint (reservoir e)" "0 \<le> gas_left r" "0 \<le> gas_reservoir r"
    "0 \<le> state_gas_from_gas_left r" "- k \<le> state_gas_spent r" "0 \<le> u" "0 \<le> k" "0 \<le> t" "t + k < 2 ^ 62"
    by (fact i t)+
qed

lemma settles_accounts: "settles_activation e r u t k \<Longrightarrow> accounts e r u t"
  by (simp add: settles_activation_def accounts_def result_ok_def accounted_def)

lemma fold_conserves:
  assumes small: "pools_small e" and g: "pre_ok e g w" and r: "settles_activation (pre_left g) r u t k"
  shows "accounts e (foldInto g r) (u + w) t"
proof -
  have G: "0 \<le> w" "uint (regular_left (pre_left g)) + uint (pre_state_from_regular g) + w = uint (regular_left e)"
    "uint (reservoir (pre_left g)) + uint (pre_state_spent g) - uint (pre_state_from_regular g) = uint (reservoir e)"
    using g by (simp_all add: pre_ok_def)
  have nn: "0 \<le> uint (regular_left (pre_left g))" "0 \<le> uint (reservoir (pre_left g))" "0 \<le> uint (pre_state_from_regular g)"
    "0 \<le> uint (pre_state_spent g)" "0 \<le> uint (reservoir e)" by simp_all
  have sm: "uint (regular_left e) + uint (reservoir e) < 2 ^ 62" using small by (simp add: pools_small_def)
  have "pools_small (pre_left g)" unfolding pools_small_def using sm G nn by linarith
  note i = settles_bounds [OF r this]
  have B: "gas_left r + state_gas_from_gas_left r + u = uint (regular_left (pre_left g)) + t"
    "gas_reservoir r + state_gas_spent r - state_gas_from_gas_left r = uint (reservoir (pre_left g))"
    using settles_accounts [OF r] by (simp_all add: accounts_def balanced_def)
  have p: "(2 :: int) ^ 62 + 2 ^ 62 \<le> i64_max + 1" "i64_min \<le> - (2 ^ 62)" by (simp_all add: i64_max_def i64_min_def)
  have l: "lossy (pre_state_spent g) = uint (pre_state_spent g)" "lossy (pre_state_from_regular g) = uint (pre_state_from_regular g)"
    by (rule lossy_small, use G nn sm in linarith)+
  have s: "sat (state_gas_spent r + uint (pre_state_spent g)) = state_gas_spent r + uint (pre_state_spent g)"
    by (rule sat_small; use B G nn sm p i in linarith)
  have f: "sat (state_gas_from_gas_left r + uint (pre_state_from_regular g)) = state_gas_from_gas_left r + uint (pre_state_from_regular g)"
    by (rule sat_small; use B G nn sm p i in linarith)
  show ?thesis using B G i by (simp add: accounts_def balanced_def foldInto_def l s f)
qed

lemma out_of_gas_settles:
  assumes "pools_small e"
  shows "settles_activation e (out_of_gas_result (lossy (reservoir e))) (uint (regular_left e)) 0 0"
  using pools_smallD [OF assms]
  by (simp add: settles_activation_def result_ok_def accounted_def balanced_def out_of_gas_result_def)

text \<open>What is run on the two pools settles them, and grants at most \<open>T\<close> of stipends.\<close>

definition runs_settle :: "int \<Rightarrow> (execution_gas \<Rightarrow> (unit, host_result) outcome) \<Rightarrow> bool" where
  "runs_settle T run \<longleftrightarrow> 0 \<le> T \<and>
     (\<forall>e r. pools_small e \<longrightarrow> run e = Done r \<longrightarrow> (\<exists>u t k. settles_activation e r u t k \<and> t \<le> T))"

lemma charged_pools:
  assumes "top_charge e amount = (c, e')" "amount < 2 ^ 63" "\<not> charge_out_of_gas c" "pools_small e"
  shows "pools_small e'"
    and "settles_activation e' r u t k \<Longrightarrow> \<exists>r' u'. top_finish c r = Done r' \<and> settles_activation e r' u' t k \<and> u \<le> u'"
proof -
  note s = top_charge_split(2) [OF assms(1-3)]
  show "pools_small e'" using s assms(4) unfolding pools_small_def by linarith
  assume ok: "settles_activation e' r u t k"
  have "result_ok (uint (regular_left e') + t) (uint (reservoir e')) r u k" "0 \<le> t" "t + k < 2 ^ 62"
    using ok by (simp_all add: settles_activation_def)
  moreover have "uint (regular_left e) = uint (regular_left e') + from_regular c"
    "uint (reservoir e) = uint (reservoir e') + (spent c - from_regular c)" "0 \<le> from_regular c" "from_regular c \<le> spent c"
    using s by simp_all
  ultimately obtain r' u' where "top_finish c r = Done r'" "result_ok (uint (regular_left e) + t) (uint (reservoir e)) r' u' k"
    "u \<le> u'"
    using top_finish_conserves [of "uint (regular_left e')" t "uint (reservoir e')" r u k "from_regular c" "spent c"
        "uint (regular_left e)" "uint (reservoir e)" c] assms(4)
    by (auto simp: pools_small_def)
  then show "\<exists>r' u'. top_finish c r = Done r' \<and> settles_activation e r' u' t k \<and> u \<le> u'"
    using \<open>0 \<le> t\<close> \<open>t + k < 2 ^ 62\<close> by (auto simp: settles_activation_def)
qed

lemma call_conserves:
  assumes run: "runs_settle T run" and small: "pools_small e" and charged: "charged < 2 ^ 63"
    and call: "executeCallTransaction charged delegated run e = Done (st, r)"
  shows "\<exists>u t k. settles_activation e r u t k \<and> t \<le> T"
proof -
  have T: "0 \<le> T" using run by (simp add: runs_settle_def)
  obtain c e' where c: "top_charge e charged = (c, e')" by fastforce
  note call = call [unfolded executeCallTransaction_def c prod.case]
  show ?thesis
  proof (cases "charge_out_of_gas c")
    case True
    then have "e' = e" using top_charge_split(1) [OF c charged] by simp
    then show ?thesis using call True T out_of_gas_settles [OF small] by auto
  next
    case False
    note pools = charged_pools [OF c charged False small]
    have finish: "\<exists>u t k. settles_activation e r u t k \<and> t \<le> T"
      if "settles_activation e' r0 u0 t k" "t \<le> T" "top_finish c r0 = Done r" for r0 u0 t k
      using pools(2) [OF that(1)] that(2,3) by auto
    show ?thesis
    proof (cases delegated)
      case None
      then obtain r0 where r0: "run e' = Done r0" "top_finish c r0 = Done r"
        using call False by (auto simp: zbind_Done_iff)
      then obtain u0 t k where "settles_activation e' r0 u0 t k" "t \<le> T" using run pools(1) unfolding runs_settle_def by blast
      then show ?thesis using finish r0(2) by blast
    next
      case (Some cost)
      show ?thesis
      proof (cases "regular_left e' < cost")
        case True
        then show ?thesis using call False Some finish [OF out_of_gas_settles [OF pools(1)] T] by (auto simp: zbind_Done_iff)
      next
        case le: False
        let ?e = "e'\<lparr>regular_left := regular_left e' - cost\<rparr>"
        have u: "uint (regular_left ?e) = uint (regular_left e') - uint cost" using le by (simp add: uint_sub not_less)
        obtain r0 where r0: "run ?e = Done r0" "top_finish c r0 = Done r"
          using call False Some le by (auto simp: zbind_Done_iff)
        have "uint (regular_left ?e) + uint (reservoir e') < 2 ^ 62"
          using pools(1) u uint_ge_0 [of cost] unfolding pools_small_def by linarith
        then have "pools_small ?e" by (simp add: pools_small_def)
        then obtain u0 t k where "settles_activation ?e r0 u0 t k" "t \<le> T" using run r0(1) unfolding runs_settle_def by blast
        then have "settles_activation e' r0 (u0 + uint cost) t k" "t \<le> T"
          using u uint_ge_0 [of cost] by (simp_all add: settles_activation_def result_ok_def accounted_def balanced_def)
        then show ?thesis using finish r0(2) by blast
      qed
    qed
  qed
qed

lemma create_conserves:
  assumes "runs_settle T run" and "pools_small e" and "charged < 2 ^ 63" and "executeCreateTransaction charged run e = Done (st, r)"
  shows "\<exists>u t k. settles_activation e r u t k \<and> t \<le> T"
proof -
  have "executeCreateTransaction charged run e = executeCallTransaction charged None run e"
    by (simp add: executeCallTransaction_def executeCreateTransaction_def split: prod.split)
  then have "executeCallTransaction charged None run e = Done (st, r)" using assms(4) by simp
  then show ?thesis by (rule call_conserves [OF assms(1-3)])
qed

text \<open>
  A run is an activation on the two pools, of bytecode or of a native contract, which grants at most \<open>T\<close> of stipends;
  the stipends and the state gas it credits are below \<open>2 ^ 62\<close>.
\<close>

definition runs_activation :: "int \<Rightarrow> (execution_gas \<Rightarrow> (unit, host_result) outcome) \<Rightarrow> bool" where
  "runs_activation T run \<longleftrightarrow> 0 \<le> T \<and> (\<forall>e r. run e = Done r \<longrightarrow>
     (\<exists>u t k. activation frame_trackGas frame_stops ledger_trackGas ledger_stops
        (lossy (regular_left e)) (lossy (reservoir e)) r u t k \<and> t \<le> T \<and> t + k < 2 ^ 62))"

lemma runs_activation_settle: "runs_activation T run \<Longrightarrow> runs_settle T run"
  unfolding runs_activation_def runs_settle_def
proof (elim conjE, intro conjI allI impI, assumption)
  fix e r
  assume run: "\<forall>e r. run e = Done r \<longrightarrow>
      (\<exists>u t k. activation frame_trackGas frame_stops ledger_trackGas ledger_stops (lossy (regular_left e)) (lossy (reservoir e)) r u t k \<and>
        t \<le> T \<and> t + k < 2 ^ 62)"
    and small: "pools_small e" and "run e = Done r"
  then obtain u t k where a: "activation frame_trackGas frame_stops ledger_trackGas ledger_stops
      (uint (regular_left e)) (uint (reservoir e)) r u t k" and t: "t \<le> T" "t + k < 2 ^ 62"
    using pools_smallD(3,4) [OF small] by fastforce
  note n = evm.run_sums(3) [OF a]
  have "uint (regular_left e) + t + uint (reservoir e) + k < 2 ^ 62 + 2 ^ 62"
    using small t unfolding pools_small_def by linarith
  then have "representable (uint (regular_left e) + t) (uint (reservoir e)) k"
    by (simp add: representable_def i64_max_def)
  then have "result_ok (uint (regular_left e) + t) (uint (reservoir e)) r u k"
    using evm.tree_balanced [THEN conjunct2, THEN conjunct2, rule_format, OF a] by blast
  then show "\<exists>u t k. settles_activation e r u t k \<and> t \<le> T" using n t by (auto simp: settles_activation_def)
qed

text \<open>A payload of the transaction, a root call or a root creation.\<close>

definition root_payload :: "int \<Rightarrow> (execution_gas \<Rightarrow> (unit, stage \<times> host_result) outcome) \<Rightarrow> bool" where
  "root_payload T payload \<longleftrightarrow> (\<exists>run charged. runs_activation T run \<and> charged < 2 ^ 63 \<and>
     ((\<exists>delegated. payload = executeCallTransaction charged delegated run) \<or> payload = executeCreateTransaction charged run))"

lemma root_payload_settles:
  assumes "root_payload T payload" and "pools_small e" and "payload e = Done (st, r)"
  shows "\<exists>u t k. settles_activation e r u t k \<and> t \<le> T"
  using assms call_conserves [OF runs_activation_settle] create_conserves [OF runs_activation_settle]
  unfolding root_payload_def by metis

lemma executePayload_accounts:
  assumes "root_payload T payload" and "pools_small e" and "executePayload payload e = Done r"
  shows "\<exists>u t. accounts e r u t \<and> t \<le> T"
proof -
  from assms(3) obtain st where "payload e = Done (st, r)"
    by (auto simp: executePayload_def zbind_Done_iff)
  then show ?thesis using root_payload_settles [OF assms(1,2)] settles_accounts by blast
qed

lemma executeAuthorizedPayload_accounts:
  assumes payload: "root_payload T payload" and small: "pools_small e" and r: "executeAuthorizedPayload adjustments payload e = Done r"
  shows "\<exists>u t. accounts e r u t \<and> t \<le> T"
proof -
  obtain ok g where g: "apply_adjustments adjustments (pre_init e) = (ok, g)" by fastforce
  have init: "pre_initial g = e" using apply_adjustments_initial [of adjustments "pre_init e"] g by (simp add: pre_init_def)
  have "0 \<le> T" using payload by (auto simp: root_payload_def runs_activation_def)
  then have oog: "\<exists>u t. accounts e (includedOutOfGas g) u t \<and> t \<le> T"
    using settles_accounts [OF out_of_gas_settles [OF small]] init unfolding includedOutOfGas_def by metis
  show ?thesis
  proof (cases ok)
    case False
    then show ?thesis using r g oog by (simp add: executeAuthorizedPayload_def)
  next
    case True
    obtain st r0 where p: "payload (pre_left g) = Done (st, r0)"
      and r0: "(if st = PreparationStage then Done (includedOutOfGas g) else Done (foldInto g r0)) = (Done r :: (unit, host_result) outcome)"
      using r True by (auto simp: executeAuthorizedPayload_def g zbind_Done_iff)
    obtain w where w: "pre_ok e g w"
      using apply_adjustments_ok [OF small pre_ok_init, of adjustments g] g True by auto
    have "pools_small (pre_left g)"
      using w small uint_ge_0 [of "pre_state_spent g"] unfolding pre_ok_def pools_small_def by linarith
    from root_payload_settles [OF payload this p] obtain u t k where "settles_activation (pre_left g) r0 u t k" "t \<le> T" by blast
    from fold_conserves [OF small w this(1)] this(2) show ?thesis using r0 oog by (cases "st = PreparationStage") auto
  qed
qed

section \<open>What is charged before refunds\<close>

lemma amsterdam_pools:
  assumes "prepare (specAt Amsterdam) access env progress tx = Done (Executable p)" and "prep_execution_gas p = Some e"
  shows "uint (intrinsic_gas (prep_settlement p)) + uint (regular_left e) + uint (reservoir e) = uint (tr_gas_limit tx)"
    and "pools_small e"
proof -
  have u: "uint w = int (unat w)" for w :: u64 by (rule uint_nat)
  from executable_gas [OF specAt_ok assms(1)] assms(2)
  have "unat (intrinsic_gas (prep_settlement p)) + unat (regular_left e) + unat (reservoir e) = unat (tr_gas_limit tx)" by auto
  then show sum: "uint (intrinsic_gas (prep_settlement p)) + uint (regular_left e) + uint (reservoir e) = uint (tr_gas_limit tx)"
    unfolding u by linarith
  from assms(1) obtain counts plan where
    "validateBeforeAccount (specAt Amsterdam) (input_of_view env progress (transactionView tx) counts) plan = None"
    by (rule prepare_Executable)
  from validateBeforeAccount_None(5) [OF this] have "\<not> exceeds (tr_gas_limit tx) (Some 0xffffffff)"
    by (simp add: specAt_def transactionAt_def amsterdam_transaction_def input_of_view_def transactionView_def)
  then have "unat (tr_gas_limit tx) \<le> 0xffffffff" by (simp add: exceeds_def not_less word_le_nat_alt)
  then have "uint (tr_gas_limit tx) \<le> 0xffffffff" unfolding u by linarith
  then have "uint (regular_left e) + uint (reservoir e) \<le> 0xffffffff"
    using sum uint_ge_0 [of "intrinsic_gas (prep_settlement p)"] by linarith
  then show "pools_small e" by (simp add: pools_small_def)
qed

lemma nat_diff_max: "0 \<le> a \<Longrightarrow> 0 \<le> b \<Longrightarrow> int (n - (nat a + nat b)) = max 0 (int n - (a + b))"
proof -
  assume "0 \<le> a" "0 \<le> b"
  then have ab: "int (nat a) = a" "int (nat b) = b" by simp_all
  show ?thesis
  proof (cases "nat a + nat b \<le> n")
    case True
    then show ?thesis using ab by (simp add: of_nat_diff)
  next
    case False
    then have "int n - (a + b) \<le> 0" using ab by linarith
    then show ?thesis using False by simp
  qed
qed

lemma accounts_charged:
  assumes e: "uint intrinsic + uint (regular_left e) + uint (reservoir e) = uint limit" and a: "accounts e r u t"
  shows "int (gas_before_refund (unat limit) (settlement_result r) True) =
    max 0 (uint intrinsic + (uint (regular_left e) - gas_left r - state_gas_from_gas_left r) + state_gas_spent r)"
proof -
  have B: "0 \<le> gas_left r" "0 \<le> gas_reservoir r"
    "gas_reservoir r + state_gas_spent r - state_gas_from_gas_left r = uint (reservoir e)"
    using a by (simp_all add: accounts_def balanced_def)
  have l: "uint limit = int (unat limit)" by (rule uint_nat)
  have "int (gas_before_refund (unat limit) (settlement_result r) True) = max 0 (int (unat limit) - (gas_left r + gas_reservoir r))"
    using nat_diff_max [OF B(1,2)] by (simp add: gas_before_refund_def settlement_result_def)
  also have "int (unat limit) - (gas_left r + gas_reservoir r) =
      uint intrinsic + (uint (regular_left e) - gas_left r - state_gas_from_gas_left r) + state_gas_spent r"
    using B e unfolding l [symmetric] by linarith
  finally show ?thesis .
qed

end
