(* ===== verification/Zig_Gas_Properties.thy ===== *)
theory Zig_Gas_Properties
  imports Zig_Execution_Gas
begin

text \<open>
  The properties of the gas and fee arithmetic of the Zig library, from the preparation of a transaction to its
  settlement.
\<close>

section \<open>Preparation and settlement\<close>

text \<open>
  C1: under every fork, a transaction that preparation accepts can be paid for and settled: the sender's
  balance covers what is taken up front and the value, the intrinsic gas and the two pools of execution gas
  are together the gas limit, and whatever counters execution returns, settlement does not fail, splits the limit into
  used and refunded gas, charges at least the floor, and pays out no more than was taken.
  The transaction has the shape a decoder gives it (\<open>decoded_shape\<close>: only a blob transaction carries blob hashes, and a
  legacy or access-list transaction names no maximal fee); the state answers with the sender's account;
  and the counters execution returns fit 64 signed bits. Without the shape the
  claim fails: validation counts no blobs outside blob transactions, and the debit counts every hash.
\<close>

theorem prepared_transaction_settles:
  assumes "prepare (specAt fork) access env progress tx = Done (Executable p)" and "decoded_shape tx"
    and "accountSummary access (tr_sender tx) = Done account" and "gas_result_ok r"
  shows "\<exists>c e. planCosts (specAt fork) (prep_settlement p) r = Done c \<and> prep_execution_gas p = Some e \<and>
    unat (upfront_debit (prep_settlement p)) + unat (tr_value tx) \<le> (case account of None \<Rightarrow> 0 | Some a \<Rightarrow> unat (acc_balance a)) \<and>
    unat (intrinsic_gas (prep_settlement p)) + unat (regular_left e) + unat (reservoir e) = unat (tr_gas_limit tx) \<and>
    unat (gas_used (cost_gas c)) + unat (gas_refunded (cost_gas c)) = unat (tr_gas_limit tx) \<and>
    unat (floor_gas (prep_settlement p)) \<le> unat (gas_used (cost_gas c)) \<and>
    unat (payer_refund c) + unat (fee_payment c) \<le> unat (upfront_debit (prep_settlement p))"
proof -
  obtain e where e: "prep_execution_gas p = Some e"
    "unat (intrinsic_gas (prep_settlement p)) + unat (regular_left e) + unat (reservoir e) = unat (tr_gas_limit tx)"
    by (rule executable_gas [OF specAt_ok assms(1)])
  obtain c where c: "planCosts (specAt fork) (prep_settlement p) r = Done c"
    "unat (gas_used (cost_gas c)) + unat (gas_refunded (cost_gas c)) = unat (tr_gas_limit tx)"
    "unat (floor_gas (prep_settlement p)) \<le> unat (gas_used (cost_gas c))"
    "unat (payer_refund c) + unat (fee_payment c) \<le> unat (upfront_debit (prep_settlement p))"
    by (rule executable_settles [OF specAt_ok assms(1,2,4)])
  show ?thesis
    using e c executable_funds(1,2) [OF assms(1-3)] by (intro exI [of _ c] exI [of _ e] conjI) simp_all
qed

definition sample_access :: "unit preparation_access" where
  "sample_access = \<lparr>accountSummary = (\<lambda>a. Done (Some \<lparr>acc_nonce = 7, acc_balance = 100000, acc_code_hash = [1]\<rparr>)),
     read_code = (\<lambda>a h. Done []), keccak256_empty = [1], address_create = (\<lambda>a n. a)\<rparr>"

definition sample_env :: tx_env where
  "sample_env = \<lparr>env_chain_id = 1, env_coinbase = [9], env_number = 1, env_slot_number = 0, env_timestamp = 0,
     env_gas_limit = 0, env_prev_randao = 0, env_base_fee = 0, env_blob_base_fee = 0, env_blob_params = None\<rparr>"

definition sample_progress :: block_progress where
  "sample_progress = \<lparr>receipt_gas_used = 0, progress_block_gas = legacy_gas 0\<rparr>"

definition sample_tx :: transaction where
  "sample_tx = \<lparr>tr_kind = Legacy, tr_sender = [1], tr_chain_id = None, tr_nonce = Some 7, tr_gas_limit = 22000,
     tr_to = Some [2], tr_value = 5, tr_input = [], tr_gas_price = 2, tr_max_fee_per_gas = None,
     tr_max_priority_fee_per_gas = None, tr_max_fee_per_blob_gas = None, tr_blob_hashes = [], tr_access_list = [],
     tr_authorization_list = [], tr_authorization_count = None\<rparr>"

definition sample_input :: validation_input where
  "sample_input = input_of_view sample_env sample_progress (transactionView sample_tx) \<lparr>addresses = 0, storage_keys = 0\<rparr>"

definition sample_plan :: gas_plan where
  "sample_plan = \<lparr>plan_intrinsic = 21000, plan_floor = 0, plan_minimum = 21000,
     plan_initial = \<lparr>init_regular = 21000, init_floor = 0\<rparr>, plan_execution = Some \<lparr>regular_left = 1000, reservoir = 0\<rparr>\<rparr>"

lemmas sample_values = sample_input_def input_of_view_def transactionView_def sample_tx_def sample_env_def sample_progress_def
  specAt_def transactionAt_def settlementAt_def frontier_transaction_def frontier_settlement_def

lemma sample_checks:
  "validation_gasPlan frontier_transaction sample_input = Done sample_plan"
  "validateBeforeAccount (specAt Frontier) sample_input sample_plan = None"
  "validateAfterAccount (specAt Frontier) (sample_input\<lparr>vi_sender_balance := 100000, vi_sender_nonce := 7\<rparr>) = None"
proof -
  show "validation_gasPlan frontier_transaction sample_input = Done sample_plan"
    by (simp add: validation_gasPlan_def gasPlan_def intrinsicGasForTransaction_def sample_values
        legacyIntrinsicBase_def calldataBeforeIstanbul_def calldataCost_def noAccessListData_def noFloor_def add_counted_def
        math_add_def checked_add_def options_of_def regularGasLimit_def initial_minimum_def sample_plan_def)
  show "validateBeforeAccount (specAt Frontier) sample_input sample_plan = None"
    by (simp add: validateBeforeAccount_def sample_values inactiveTransactionKindError_def refuse_def exceeds_def
        exceedsBlockGasAllowance_def classifyTransactionNonce_def sample_plan_def)
  show "validateAfterAccount (specAt Frontier) (sample_input\<lparr>vi_sender_balance := 100000, vi_sender_nonce := 7\<rparr>) = None"
    by (simp add: validateAfterAccount_def sample_values refuse_def feeError_def first_error_def nonceError_def
        maxPrepaymentCost_def classifyTransactionNonce_def checked_mul_def checked_add_def)
qed

lemma sample_prepared: "\<exists>p. prepare (specAt Frontier) sample_access sample_env sample_progress sample_tx = Done (Executable p)"
proof -
  have view: "tx_access_list (transactionView sample_tx) = []" "tx_sender (transactionView sample_tx) = [1]"
    "tx_kind (transactionView sample_tx) = Legacy" "tx_to (transactionView sample_tx) = Some [2]"
    by (simp_all add: transactionView_def sample_tx_def)
  have counts: "accessListCounts [] = (Done \<lparr>addresses = 0, storage_keys = 0\<rparr> :: (unit prepare_error, access_list_counts) outcome)"
    by (simp add: accessListCounts_def)
  have spec: "spec_transaction (specAt Frontier) = frontier_transaction" by (simp add: specAt_def transactionAt_def)
  have account: "accountSummary sample_access [1] = Done (Some \<lparr>acc_nonce = 7, acc_balance = 100000, acc_code_hash = [1]\<rparr>)"
    by (simp add: sample_access_def)
  have rejects: "rejectsNonDelegatingSenderCode frontier_transaction Legacy = False"
    by (simp add: frontier_transaction_def rejectsSenderCodeBeforeLondon_def)
  show ?thesis
    unfolding prepare_def Let_def view counts zbind.simps sample_input_def [symmetric] spec sample_checks(1,2) outcome.case
      option.case account lift_state.simps account.select_convs sample_checks(3) rejects if_False
    by (simp add: validateSenderCode_def refuse_def message_init_def)
qed

theorem prepared_transaction_settles_witness:
  "\<exists>p c. prepare (specAt Frontier) sample_access sample_env sample_progress sample_tx = Done (Executable p) \<and>
    planCosts (specAt Frontier) (prep_settlement p)
      \<lparr>res_gas_left = 400, res_gas_refund = 10, res_gas_reservoir = 0, res_state_gas_spent = 0\<rparr> = Done c \<and>
    unat (upfront_debit (prep_settlement p)) + 5 \<le> 100000 \<and>
    unat (gas_used (cost_gas c)) + unat (gas_refunded (cost_gas c)) = 22000"
proof -
  obtain p where p: "prepare (specAt Frontier) sample_access sample_env sample_progress sample_tx = Done (Executable p)"
    using sample_prepared by blast
  have shape: "decoded_shape sample_tx" by (simp add: decoded_shape_def sample_tx_def)
  have account: "accountSummary sample_access (tr_sender sample_tx) =
      Done (Some \<lparr>acc_nonce = 7, acc_balance = 100000, acc_code_hash = [1]\<rparr>)"
    by (simp add: sample_access_def)
  have ok: "gas_result_ok \<lparr>res_gas_left = 400, res_gas_refund = 10, res_gas_reservoir = 0, res_state_gas_spent = 0\<rparr>"
    by (simp add: gas_result_ok_def i64_range_def)
  have "unat (tr_value sample_tx) = 5" "unat (tr_gas_limit sample_tx) = 22000" by (simp_all add: sample_tx_def)
  with prepared_transaction_settles [OF p shape account ok] p show ?thesis by auto
qed

section \<open>Prices\<close>

text \<open>
  C16: under every fork the intrinsic gas and the floor are one formula of the fork's schedule, on naturals: a price that fits 64
  bits is returned, one that does not is an overflow, and the fork that first names a price is the one that charges it.
\<close>

theorem fork_prices_exact:
  assumes "addresses (opt_access_list_counts opts) < 2 ^ 64" and "storage_keys (opt_access_list_counts opts) < 2 ^ 64"
    and "opt_authorization_count opts < 2 ^ 64" and "length input + 31 < 2 ^ 64"
  shows "intrinsicGasForTransaction (transactionAt fork) input opts = fits (intrinsic_price fork input opts) \<and>
    floorGas (transactionAt fork) input opts =
      (if fork \<in> since Prague then zbind (fits (floor_price fork input opts)) (\<lambda>g. Done (Some g)) else Done None)"
  using intrinsic_fits [OF assms] floor_fits [OF assms(1,2)] assms(4) by simp

theorem fork_prices_exact_witness:
  "intrinsicGasForTransaction (transactionAt Prague) [0, 1] \<lparr>opt_authorization_count = 1,
      opt_access_list_counts = \<lparr>addresses = 0, storage_keys = 0\<rparr>, opt_is_create = False, opt_value = 0,
      opt_is_self_transfer = False, opt_creates_account = False\<rparr> = Done 46020 \<and>
   floorGas (transactionAt Prague) [1, 1, 1, 1] \<lparr>opt_authorization_count = 0,
      opt_access_list_counts = \<lparr>addresses = 0, storage_keys = 0\<rparr>, opt_is_create = False, opt_value = 0,
      opt_is_self_transfer = False, opt_creates_account = False\<rparr> = Done (Some 21160)"
  using fork_prices_exact [of "\<lparr>opt_authorization_count = 1,
      opt_access_list_counts = \<lparr>addresses = 0, storage_keys = 0\<rparr>, opt_is_create = False, opt_value = 0,
      opt_is_self_transfer = False, opt_creates_account = False\<rparr>" "[0, 1]" Prague]
    fork_prices_exact [of "\<lparr>opt_authorization_count = 0,
      opt_access_list_counts = \<lparr>addresses = 0, storage_keys = 0\<rparr>, opt_is_create = False, opt_value = 0,
      opt_is_self_transfer = False, opt_creates_account = False\<rparr>" "[1, 1, 1, 1]" Prague]
  by (simp add: intrinsic_price_def floor_price_def base_price_def data_price_def access_price_def since_def zero_bytes_def
      nonzero_bytes_def fits_def)

text \<open>
  C14: the blob fee never traps and always ends: it is the series of EIP-4844 on naturals up to its first zero term, or nothing
  exactly when the denominator is zero or a value on the way does not fit 256 bits.
\<close>

theorem blob_fee_exact:
  "\<exists>y. fakeExponential factor numerator denominator = Done y \<and>
    (case y of
       None \<Rightarrow> exp_undefined (unat factor) (unat numerator) (unat denominator)
     | Some r \<Rightarrow> \<not> exp_undefined (unat factor) (unat numerator) (unat denominator) \<and>
         (\<exists>k. exp_term (unat factor) (unat numerator) (unat denominator) k = 0 \<and>
           unat r = exp_sum (unat factor) (unat numerator) (unat denominator) k div unat denominator))"
  by (rule fakeExponential_series)

text \<open>
  C24: the next base fee is the EIP-1559 formula on unbounded naturals, or nothing exactly when the parent has no gas target, the
  product of fee and deviation does not fit, or the result does not.
\<close>

theorem base_fee_refines_naturals:
  "map_option unat (nextBaseFee limit used fee) =
     (let target = unat limit div 2; delta = if target < unat used then unat used - target else target - unat used in
      if target = 0 \<or> unat used \<noteq> target \<and> 2 ^ 256 \<le> unat fee * delta \<or> 2 ^ 256 \<le> base_fee_spec target (unat used) (unat fee)
      then None else Some (base_fee_spec target (unat used) (unat fee)))"
  by (rule nextBaseFee_spec)

section \<open>Activations\<close>

text \<open>
  C9: every activation, with all the activations it starts, of bytecode or of native contracts, balances the budget, the
  reservoir and the stipends it was given: what is left, what state gas borrowed and what was used add up to the budget and the
  stipends granted to its calls that move a value, the reservoir and the state gas spent to the reservoir given, and an activation that does not succeed
  returns the reservoir untouched. Regular charges, stipends and code deposits are not negative, and the budget, the reservoir, the stipends
  and the state gas credited are together below \<open>2 ^ 63\<close>.
\<close>

theorem activation_balanced:
  assumes "activation frame_trackGas frame_stops ledger_trackGas ledger_stops limit R r used stipends credits"
    and "limit + R + stipends + credits < 2 ^ 63"
  shows "0 \<le> used \<and> 0 \<le> gas_left r \<and> 0 \<le> gas_reservoir r \<and>
    gas_left r + state_gas_from_gas_left r + used = limit + stipends \<and>
    gas_reservoir r + state_gas_spent r - state_gas_from_gas_left r = R \<and>
    (res_status r = success \<or> gas_reservoir r = R \<and> state_gas_spent r = 0 \<and> state_gas_from_gas_left r = 0)"
proof -
  have "representable (limit + stipends) R credits"
    using evm.run_sums(3) [OF assms(1)] assms(2) by (simp add: representable_def i64_max_def)
  with evm.tree_balanced [THEN conjunct2, THEN conjunct2, rule_format, OF assms(1)]
  have "result_ok (limit + stipends) R r used credits" by blast
  then show ?thesis by (auto simp: result_ok_def accounted_def balanced_def)
qed

text \<open>
  A frame with 10 gas and a reservoir of 5 pays 7 of state gas and 3 of regular gas, grants its call a stipend of 4, gets all of the
  call's budget of 9 back, and reverts.
\<close>

theorem activation_balanced_witness:
  "\<exists>r. activation frame_trackGas frame_stops ledger_trackGas ledger_stops 10 5 r 3 4 0 \<and>
    gas_left r = 11 \<and> gas_reservoir r = 5"
proof -
  let ?f = "\<lambda>left res spent spill. \<lparr>gas_left = left, gas_refund = 0, gas_reservoir = res, state_gas_spent = spent,
      state_gas_from_gas_left = spill, frame_state = Running\<rparr>"
  note ends = i64_def i64_min_def i64_max_def sat_def
  have 1: "run1 frame_trackGas frame_stops ledger_trackGas ledger_stops 10 5 (?f 10 5 0 0) 0 0 0"
    by (rule start1) (simp_all add: fresh_def)
  have 2: "run1 frame_trackGas frame_stops ledger_trackGas ledger_stops 10 5 (?f 8 0 7 2) 0 0 0"
    by (rule state_charge1 [OF 1, of 7]) (simp add: trackStateGas_def frame_trackGas_def ends)
  have 3: "run1 frame_trackGas frame_stops ledger_trackGas ledger_stops 10 5 (?f 5 0 7 2) (0 + 3) 0 0"
    by (rule regular1 [OF 2]) (simp_all add: frame_trackGas_def ends)
  have 4: "run1 frame_trackGas frame_stops ledger_trackGas ledger_stops 10 5 (?f 9 0 7 2) (0 + 3) (0 + 4) 0"
    by (rule stipend1 [OF 3]) (simp_all add: grantStipend_def ends)
  have c: "activation frame_trackGas frame_stops ledger_trackGas ledger_stops 9 0 (immediate_result success 9 0) (9 - 9) 0 0"
    by (rule immediate) simp_all
  have 5: "run1 frame_trackGas frame_stops ledger_trackGas ledger_stops 10 5 (?f 9 0 7 2) (0 + 3 + (9 - 9)) (0 + 4 + 0) (0 + 0 + max 0 0)"
    by (rule child1 [OF 4, where budget = 9 and c = "immediate_result success 9 0" and charged = 0])
      (use c in \<open>simp_all add: settleChild_def frame_trackGas_def immediate_result_def repayStateGasSpill_def zassert_def ends\<close>)
  let ?r = "\<lparr>gas_left = 11, gas_refund = 0, gas_reservoir = 5, state_gas_spent = 0, state_gas_from_gas_left = 0, res_status = revert\<rparr>"
  have "frame_stops (?f 9 0 7 2) ?r"
    unfolding frame_stops_def
    by (intro exI [of _ HaltRevert] exI [of _ "(?f 9 0 7 2)\<lparr>frame_state := Halted HaltRevert\<rparr>"])
      (simp add: halt_def consumesAllGas_def frame_result_def halt_status_def result_of_def finalizeStateGas_def unwindStateGas_def ends)
  from stop1 [OF 5 this] have a: "activation frame_trackGas frame_stops ledger_trackGas ledger_stops 10 5 ?r 3 4 0" by simp
  from activation_balanced [OF a] have "gas_left ?r + state_gas_from_gas_left ?r + 3 = 10 + 4" "gas_reservoir ?r = 5" by simp_all
  with a show ?thesis by auto
qed

section \<open>From preparation to the charge\<close>

text \<open>
  C3: under Amsterdam, the fork with state gas, whatever authorizations, top-frame charge and delegated access a prepared transaction has, and however
  each ends, the gas charged before refunds is its intrinsic gas, the regular gas that is gone from the execution gas (neither left
  nor borrowed by state gas), and the state gas spent, or nothing when stipends and credits make that negative;
  and what is left exceeds the regular execution gas by no more than the stipends the run grants. The run of the code itself is a parameter:
  whenever it returns, its result is one the relation of activations allows (\<open>root_payload T\<close>), with at most \<open>T\<close> of stipends, and
  stipends and credited state gas below \<open>2 ^ 62\<close>. That the interpreter's loop keeps to that relation is assumed here.
\<close>

theorem charged_gas_exact:
  assumes "prepare (specAt Amsterdam) access env progress tx = Done (Executable p)" and "prep_execution_gas p = Some e"
    and "root_payload T payload"
    and "executeAuthorizedPayload adjustments payload e = Done r \<or> executePayload payload e = Done r"
  shows "int (gas_before_refund (unat (tr_gas_limit tx)) (settlement_result r) True) =
      max 0 (uint (intrinsic_gas (prep_settlement p)) +
        (uint (regular_left e) - gas_left r - state_gas_from_gas_left r) + state_gas_spent r) \<and>
    0 \<le> gas_left r \<and> 0 \<le> state_gas_from_gas_left r \<and> gas_left r + state_gas_from_gas_left r \<le> uint (regular_left e) + T"
proof -
  note pools = amsterdam_pools [OF assms(1,2)]
  from assms(4) obtain used t where a: "accounts e r used t" "t \<le> T"
    using executeAuthorizedPayload_accounts [OF assms(3) pools(2)] executePayload_accounts [OF assms(3) pools(2)] by metis
  then show ?thesis using accounts_charged [OF pools(1) a(1)] by (simp add: accounts_def balanced_def)
qed

definition sample_amsterdam_plan :: gas_plan where
  "sample_amsterdam_plan = \<lparr>plan_intrinsic = 21000, plan_floor = 21000, plan_minimum = 21000,
     plan_initial = \<lparr>init_regular = 21000, init_floor = 21000\<rparr>, plan_execution = Some \<lparr>regular_left = 1000, reservoir = 0\<rparr>\<rparr>"

lemma sample_amsterdam_checks:
  "validation_gasPlan amsterdam_transaction sample_input = Done sample_amsterdam_plan"
  "validateBeforeAccount (specAt Amsterdam) sample_input sample_amsterdam_plan = None"
  "validateAfterAccount (specAt Amsterdam) (sample_input\<lparr>vi_sender_balance := 100000, vi_sender_nonce := 7\<rparr>) = None"
proof -
  note defs = sample_values fork_transactions fork_settlements
  have i: "intrinsicGasForTransaction amsterdam_transaction (vi_input sample_input) (options_of sample_input) = Done 21000"
    using intrinsic_fits [of "options_of sample_input" "vi_input sample_input" Amsterdam]
    by (simp add: transactionAt_def options_of_def defs intrinsic_price_def base_price_def data_price_def access_price_def
        since_def zero_bytes_def nonzero_bytes_def isSelfTransfer_def fits_def)
  have f: "floorGas amsterdam_transaction (vi_input sample_input) (options_of sample_input) = Done (Some 21000)"
    using floor_fits [of "options_of sample_input" "vi_input sample_input" Amsterdam]
    by (simp add: transactionAt_def options_of_def defs floor_price_def base_price_def since_def isSelfTransfer_def fits_def)
  show "validation_gasPlan amsterdam_transaction sample_input = Done sample_amsterdam_plan"
    unfolding validation_gasPlan_def gasPlan_def i f zbind.simps
    by (simp add: defs regularGasLimit_def initial_minimum_def sample_amsterdam_plan_def)
  show "validateBeforeAccount (specAt Amsterdam) sample_input sample_amsterdam_plan = None"
    by (simp add: validateBeforeAccount_def defs inactiveTransactionKindError_def refuse_def exceeds_def
        exceedsBlockGasAllowance_def classifyTransactionNonce_def sample_amsterdam_plan_def)
  show "validateAfterAccount (specAt Amsterdam) (sample_input\<lparr>vi_sender_balance := 100000, vi_sender_nonce := 7\<rparr>) = None"
    by (simp add: validateAfterAccount_def defs refuse_def feeError_def first_error_def nonceError_def
        maxPrepaymentCost_def classifyTransactionNonce_def checked_mul_def checked_add_def)
qed

lemma sample_amsterdam_prepared:
  "\<exists>p. prepare (specAt Amsterdam) sample_access sample_env sample_progress sample_tx = Done (Executable p) \<and>
    prep_execution_gas p = Some \<lparr>regular_left = 1000, reservoir = 0\<rparr> \<and> intrinsic_gas (prep_settlement p) = 21000"
proof -
  have view: "tx_access_list (transactionView sample_tx) = []" "tx_sender (transactionView sample_tx) = [1]"
    "tx_kind (transactionView sample_tx) = Legacy" "tx_to (transactionView sample_tx) = Some [2]"
    by (simp_all add: transactionView_def sample_tx_def)
  have counts: "accessListCounts [] = (Done \<lparr>addresses = 0, storage_keys = 0\<rparr> :: (unit prepare_error, access_list_counts) outcome)"
    by (simp add: accessListCounts_def)
  have spec: "spec_transaction (specAt Amsterdam) = amsterdam_transaction" by (simp add: specAt_def transactionAt_def)
  have account: "accountSummary sample_access [1] = Done (Some \<lparr>acc_nonce = 7, acc_balance = 100000, acc_code_hash = [1]\<rparr>)"
    by (simp add: sample_access_def)
  have rejects: "rejectsNonDelegatingSenderCode amsterdam_transaction Legacy = True"
    by (simp add: fork_transactions rejectsAllSenderCode_def)
  have code: "senderCodeKind sp sample_access a \<lparr>acc_nonce = 7, acc_balance = 100000, acc_code_hash = [1]\<rparr> = Done EmptyCode"
    for sp a by (simp add: senderCodeKind_def sample_access_def)
  show ?thesis
    unfolding prepare_def Let_def view counts zbind.simps sample_input_def [symmetric] spec sample_amsterdam_checks(1,2) outcome.case
      option.case account lift_state.simps account.select_convs sample_amsterdam_checks(3) rejects if_True code
    by (simp add: validateSenderCode_def refuse_def message_init_def sample_amsterdam_plan_def plan_of_view_def
        defaultPlanFromGasPlan_def Let_def)
qed

text \<open>A run that stops at once.\<close>

definition stop_run :: "execution_gas \<Rightarrow> (unit, host_result) outcome" where
  "stop_run e = zassert (uint (regular_left e) < 2 ^ 62 \<and> uint (reservoir e) < 2 ^ 62)
     (Done \<lparr>gas_left = uint (regular_left e), gas_refund = 0, gas_reservoir = uint (reservoir e), state_gas_spent = 0,
       state_gas_from_gas_left = 0, res_status = success\<rparr>)"

lemma stop_run_activation: "runs_activation 0 stop_run"
  unfolding runs_activation_def
proof (intro conjI allI impI)
  fix e r
  assume r: "stop_run e = Done r"
  then have small: "uint (regular_left e) < 2 ^ 62" "uint (reservoir e) < 2 ^ 62"
    and r': "r = \<lparr>gas_left = uint (regular_left e), gas_refund = 0, gas_reservoir = uint (reservoir e), state_gas_spent = 0,
       state_gas_from_gas_left = 0, res_status = success\<rparr>"
    by (simp_all add: stop_run_def zig_simps)
  let ?f = "\<lparr>gas_left = uint (regular_left e), gas_refund = 0, gas_reservoir = uint (reservoir e), state_gas_spent = 0,
      state_gas_from_gas_left = 0, frame_state = Running\<rparr>"
  have 1: "run1 frame_trackGas frame_stops ledger_trackGas ledger_stops (uint (regular_left e)) (uint (reservoir e)) ?f 0 0 0"
    by (rule start1) (simp_all add: fresh_def)
  have "frame_stops ?f r"
    unfolding frame_stops_def r'
    by (intro exI [of _ HaltSuccess] exI [of _ "?f\<lparr>frame_state := Halted HaltSuccess\<rparr>"])
      (simp add: halt_def consumesAllGas_def frame_result_def halt_status_def result_of_def finalizeStateGas_def)
  then have "activation frame_trackGas frame_stops ledger_trackGas ledger_stops (uint (regular_left e)) (uint (reservoir e)) r 0 0 0"
    by (rule stop1 [OF 1]) (simp add: r')
  then show "\<exists>u t k. activation frame_trackGas frame_stops ledger_trackGas ledger_stops (lossy (regular_left e)) (lossy (reservoir e)) r u t k \<and>
      t \<le> 0 \<and> t + k < 2 ^ 62"
    unfolding lossy_small [OF small(1)] lossy_small [OF small(2)] by (intro exI [of _ 0] conjI) simp_all
qed simp

theorem charged_gas_exact_witness:
  "\<exists>p r. prepare (specAt Amsterdam) sample_access sample_env sample_progress sample_tx = Done (Executable p) \<and>
    executePayload (executeCallTransaction 0 None stop_run) \<lparr>regular_left = 1000, reservoir = 0\<rparr> = Done r \<and>
    gas_before_refund 22000 (settlement_result r) True = 21000"
proof -
  obtain p where p: "prepare (specAt Amsterdam) sample_access sample_env sample_progress sample_tx = Done (Executable p)"
    "prep_execution_gas p = Some \<lparr>regular_left = 1000, reservoir = 0\<rparr>" "intrinsic_gas (prep_settlement p) = 21000"
    using sample_amsterdam_prepared by blast
  let ?r = "\<lparr>gas_left = 1000, gas_refund = 0, gas_reservoir = 0, state_gas_spent = 0, state_gas_from_gas_left = 0, res_status = success\<rparr>"
  have r: "executePayload (executeCallTransaction 0 None stop_run) \<lparr>regular_left = 1000, reservoir = 0\<rparr> = Done ?r"
    by (simp add: executePayload_def executeCallTransaction_def top_charge_def top_finish_def stop_run_def)
  have payload: "root_payload 0 (executeCallTransaction 0 None stop_run)"
    unfolding root_payload_def using stop_run_activation by (intro exI [of _ stop_run] exI [of _ 0]) auto
  from charged_gas_exact [OF p(1,2) payload disjI2 [OF r]]
  have "int (gas_before_refund (unat (tr_gas_limit sample_tx)) (settlement_result ?r) True) = 21000" by (simp add: p(3))
  moreover have "unat (tr_gas_limit sample_tx) = 22000" by (simp add: sample_tx_def)
  ultimately show ?thesis using p(1) r by auto
qed

end
