(* ===== verification/Zig_Limbs.thy ===== *)
theory Zig_Limbs
  imports Zig_Words
begin

text \<open>
  Multi-limb integers of \<^verbatim>\<open>src/src/uint256.zig\<close>: arrays of 64-bit limbs, least significant first,
  with checked indexing, the value of a segment of such an array, the conversions of a 256-bit word,
  and the division of two limbs by one. An array declared \<^verbatim>\<open>undefined\<close> has arbitrary contents, which
  are a parameter.
\<close>

type_synonym u128 = "128 word"
type_synonym limbs = "64 word list"

section \<open>Checked operations as outcomes\<close>

definition zidx :: "'a list \<Rightarrow> nat \<Rightarrow> ('e, 'a) outcome" where
  "zidx xs i = (if i < length xs then Done (xs ! i) else Trap)"

definition zset :: "'a list \<Rightarrow> nat \<Rightarrow> 'a \<Rightarrow> ('e, 'a list) outcome" where
  "zset xs i x = (if i < length xs then Done (xs[i := x]) else Trap)"

definition zadd :: "'w::len word \<Rightarrow> 'w word \<Rightarrow> ('e, 'w word) outcome" where
  "zadd a b = (if unat a + unat b < 2 ^ LENGTH('w) then Done (a + b) else Trap)"

definition zsub :: "'w::len word \<Rightarrow> 'w word \<Rightarrow> ('e, 'w word) outcome" where
  "zsub a b = (if b \<le> a then Done (a - b) else Trap)"

definition zmul :: "'w::len word \<Rightarrow> 'w word \<Rightarrow> ('e, 'w word) outcome" where
  "zmul a b = (if unat a * unat b < 2 ^ LENGTH('w) then Done (a * b) else Trap)"

definition zdiv :: "'w::len word \<Rightarrow> 'w word \<Rightarrow> ('e, 'w word) outcome" where
  "zdiv a b = (if b = 0 then Trap else Done (a div b))"

definition zmod :: "'w::len word \<Rightarrow> 'w word \<Rightarrow> ('e, 'w word) outcome" where
  "zmod a b = (if b = 0 then Trap else Done (a mod b))"

text \<open>A loop over the indices below \<open>n\<close>, upwards and downwards.\<close>

fun zfor :: "(nat \<Rightarrow> 's \<Rightarrow> ('e, 's) outcome) \<Rightarrow> nat \<Rightarrow> 's \<Rightarrow> ('e, 's) outcome" where
  "zfor f 0 s = Done s"
| "zfor f (Suc n) s = zbind (zfor f n s) (f n)"

fun zdown :: "(nat \<Rightarrow> 's \<Rightarrow> ('e, 's) outcome) \<Rightarrow> nat \<Rightarrow> 's \<Rightarrow> ('e, 's) outcome" where
  "zdown f 0 s = Done s"
| "zdown f (Suc n) s = zbind (f n s) (zdown f n)"

lemma zbind_cong [fundef_cong]:
  "m = m' \<Longrightarrow> (\<And>x. m' = Done x \<Longrightarrow> f x = f' x) \<Longrightarrow> zbind m f = zbind m' f'"
  by (cases m') auto

lemma zfor_inv:
  assumes "P 0 s" and "\<And>i s. i < n \<Longrightarrow> P i s \<Longrightarrow> \<exists>s'. f i s = Done s' \<and> P (Suc i) s'"
  shows "\<exists>s'. zfor f n s = Done s' \<and> P n s'"
  using assms(2)
proof (induction n)
  case (Suc n)
  then obtain s' where "zfor f n s = Done s'" "P n s'" by (metis less_SucI)
  with Suc.prems [of n s'] show ?case by auto
qed (use assms(1) in simp)

lemma zdown_inv:
  assumes "P n s" and "\<And>i s. i < n \<Longrightarrow> P (Suc i) s \<Longrightarrow> \<exists>s'. f i s = Done s' \<and> P i s'"
  shows "\<exists>s'. zdown f n s = Done s' \<and> P 0 s'"
  using assms
proof (induction n arbitrary: s)
  case (Suc n)
  then obtain s' where s: "f n s = Done s'" "P n s'" by blast
  then have "\<exists>s''. zdown f n s' = Done s'' \<and> P 0 s''" using Suc.IH Suc.prems(2) less_SucI by blast
  then show ?case using s by simp
qed simp

lemma zidx_Done: "i < length xs \<Longrightarrow> zidx xs i = Done (xs ! i)"
  by (simp add: zidx_def)

lemma zset_Done: "i < length xs \<Longrightarrow> zset xs i x = Done (xs[i := x])"
  by (simp add: zset_def)

lemma zadd_Done: "unat a + unat b < 2 ^ LENGTH('w) \<Longrightarrow> zadd a (b :: 'w::len word) = Done (a + b)"
  by (simp add: zadd_def)

lemma zmul_Done: "unat a * unat b < 2 ^ LENGTH('w) \<Longrightarrow> zmul a (b :: 'w::len word) = Done (a * b)"
  by (simp add: zmul_def)

lemma zsub_Done: "unat b \<le> unat a \<Longrightarrow> zsub a (b :: 'w::len word) = Done (a - b)"
  by (simp add: zsub_def word_le_nat_alt)

lemma unat_plus: "unat a + unat b < 2 ^ LENGTH('w) \<Longrightarrow> unat (a + (b :: 'w::len word)) = unat a + unat b"
  by (simp add: unat_word_ariths)

lemma unat_times: "unat a * unat b < 2 ^ LENGTH('w) \<Longrightarrow> unat (a * (b :: 'w::len word)) = unat a * unat b"
  by (simp add: unat_word_ariths)

lemma unat_minus: "unat b \<le> unat a \<Longrightarrow> unat (a - (b :: 'w::len word)) = unat a - unat b"
  by (simp add: unat_sub_if')

lemma zsub_Done_iff: "zsub a b = Done c \<longleftrightarrow> b \<le> a \<and> c = a - b"
  by (auto simp: zsub_def)

section \<open>The value of a segment\<close>

definition limb_base :: nat where
  "limb_base = 2 ^ 64"

abbreviation BB :: nat where
  "BB \<equiv> limb_base"

lemma BB_pos [simp]: "0 < BB" "BB \<noteq> 0" "Suc 0 \<le> BB"
  by (simp_all add: limb_base_def)

lemma limb_less [simp]: "unat (x :: u64) < BB"
  using unat_u64_less [of x] by (simp add: limb_base_def)

lemma limb_le [simp]: "unat (x :: u64) \<le> BB - 1"
  using limb_less [of x] by linarith

text \<open>The value of the \<open>k\<close> limbs from \<open>off\<close> on.\<close>

fun lval :: "limbs \<Rightarrow> nat \<Rightarrow> nat \<Rightarrow> nat" where
  "lval u off 0 = 0"
| "lval u off (Suc k) = lval u off k + unat (u ! (off + k)) * BB ^ k"

lemma add_digit_less: "v < (P::nat) \<Longrightarrow> d < b \<Longrightarrow> v + d * P < b * P"
proof -
  assume "v < P" "d < b"
  then have "v + d * P < P + d * P" by simp
  moreover have "Suc d * P \<le> b * P" using \<open>d < b\<close> by (intro mult_right_mono) auto
  ultimately show ?thesis by simp
qed

lemma lval_less: "lval u off k < BB ^ k"
  by (induction k) (auto intro: add_digit_less)

lemma lval_frame: "(\<And>j. off \<le> j \<Longrightarrow> j < off + k \<Longrightarrow> u' ! j = u ! j) \<Longrightarrow> lval u' off k = lval u off k"
  by (induction k) auto

lemma lval_update [simp]: "off + k \<le> i \<or> i < off \<Longrightarrow> lval (u[i := x]) off k = lval u off k"
  by (intro lval_frame) auto

lemma lval_split: "lval u off (j + k) = lval u off j + BB ^ j * lval u (off + j) k"
  by (induction k) (auto simp: algebra_simps power_add)

lemma lval_zeros: "(\<And>j. off + k \<le> j \<Longrightarrow> j < off + n \<Longrightarrow> u ! j = 0) \<Longrightarrow> k \<le> n \<Longrightarrow> lval u off n = lval u off k"
proof (induction n)
  case (Suc n)
  then show ?case by (cases "k = Suc n") auto
qed simp

lemma lval_top: "lval u off (Suc k) < BB ^ k \<Longrightarrow> u ! (off + k) = 0 \<and> lval u off k = lval u off (Suc k)"
proof -
  assume *: "lval u off (Suc k) < BB ^ k"
  have "unat (u ! (off + k)) = 0"
  proof (rule ccontr)
    assume "unat (u ! (off + k)) \<noteq> 0"
    then have "1 * BB ^ k \<le> unat (u ! (off + k)) * BB ^ k" by (intro mult_right_mono) auto
    with * show False by simp
  qed
  then show ?thesis by (simp add: unat_eq_0)
qed

text \<open>Widening, truncation and the high half.\<close>

lemma unat_widen [simp]: "unat (ucast (x :: u64) :: u128) = unat x"
  by (simp add: unsigned_ucast_eq take_bit_nat_eq_self_iff) (rule less_trans [OF unsigned_less], simp)

lemma unat_low [simp]: "unat (ucast (p :: u128) :: u64) = unat p mod BB"
  by (simp add: unsigned_ucast_eq take_bit_eq_mod limb_base_def)

lemma unat_high [simp]: "unat (drop_bit 64 (p :: u128)) = unat p div BB"
  by (simp add: unat_drop_bit limb_base_def)

lemma u128_bound: "n < BB * BB \<Longrightarrow> n < 2 ^ LENGTH(128)"
  by (simp add: limb_base_def)

lemma limb_product: "x < BB \<Longrightarrow> y < BB \<Longrightarrow> c < BB \<Longrightarrow> d < BB \<Longrightarrow> x * y + c + d < BB * BB"
proof -
  assume "x < BB" "y < BB" and cd: "c < BB" "d < BB"
  then have "x * y \<le> (BB - 1) * (BB - 1)" by (intro mult_mono) auto
  moreover have "(BB - 1) * (BB - 1) + (BB - 1) + (BB - 1) < BB * BB"
    by (simp add: limb_base_def)
  ultimately show ?thesis using cd by linarith
qed

section \<open>Shifts\<close>

lemma unat_push_bit_64: "unat (push_bit s (x :: u64)) = unat x * 2 ^ s mod BB"
  unfolding unsigned_push_bit_eq by (simp add: push_bit_eq_mult take_bit_eq_mod limb_base_def)

lemma unat_or_disjoint: "(a :: 'w::len word) AND b = 0 \<Longrightarrow> unat a + unat b < 2 ^ LENGTH('w) \<Longrightarrow>
    unat (a OR b) = unat a + unat b"
  using disjunctive_add_eq_or [of a b] by (metis unat_add_lem)

text \<open>Two neighbouring limbs shifted left by less than a limb.\<close>

lemma BB_split: "s \<le> 64 \<Longrightarrow> BB = 2 ^ s * 2 ^ (64 - s)"
  by (simp add: limb_base_def power_add [symmetric])

lemma mod_shift: "s \<le> 64 \<Longrightarrow> x * 2 ^ s mod BB = (x mod 2 ^ (64 - s)) * (2 ^ s :: nat)"
  unfolding BB_split by (simp add: mult.commute [of "2 ^ s"] mult_mod_left [symmetric])

lemma shift_pair_less: "s \<le> 64 \<Longrightarrow> y < BB \<Longrightarrow> x mod 2 ^ (64 - s) * 2 ^ s + y div 2 ^ (64 - s) < BB"
proof -
  assume s: "s \<le> 64" and y: "y < BB"
  have "x mod 2 ^ (64 - s) < 2 ^ (64 - s)" by simp
  moreover have "y div 2 ^ (64 - s) < 2 ^ s"
    using y unfolding BB_split [OF s] by (simp add: less_mult_imp_div_less)
  ultimately show ?thesis
    unfolding BB_split [OF s] using add_digit_less [of "y div 2 ^ (64 - s)" "2 ^ s" "x mod 2 ^ (64 - s)" "2 ^ (64 - s)"]
    by (simp add: algebra_simps)
qed

lemma unat_shift_pair:
  assumes "0 < s" "s < 64"
  shows "unat (push_bit s (x :: u64) OR drop_bit (64 - s) y) = unat x mod 2 ^ (64 - s) * 2 ^ s + unat y div 2 ^ (64 - s)"
proof -
  have u: "unat (push_bit s x) = unat x mod 2 ^ (64 - s) * 2 ^ s" "unat (drop_bit (64 - s) y) = unat y div 2 ^ (64 - s)"
    using assms by (simp_all add: unat_push_bit_64 mod_shift unat_drop_bit)
  have "push_bit s x AND drop_bit (64 - s) y = 0"
    by (rule bit_eqI) (use assms in \<open>auto simp: bit_simps dest: bit_imp_le_length\<close>)
  then show ?thesis
    using unat_or_disjoint [of "push_bit s x" "drop_bit (64 - s) y"] shift_pair_less [of s "unat y" "unat x"] limb_less [of y] assms
    by (simp add: u limb_base_def)
qed

lemma unat_shift_pair_right:
  assumes "0 < s" "s < 64"
  shows "unat (drop_bit s (x :: u64) OR push_bit (64 - s) y) = unat x div 2 ^ s + unat y mod 2 ^ s * 2 ^ (64 - s)"
  using unat_shift_pair [of "64 - s" y x] assms by (simp add: or.commute add.commute)

section \<open>Two limbs by one\<close>

text \<open>The two corrections of a half-limb digit (lines 386--390 and 397--401).\<close>

definition half_base :: u64 where
  "half_base = 0x100000000"

definition digit_too_large :: "u64 \<Rightarrow> u64 \<Rightarrow> u64 \<Rightarrow> u64 \<Rightarrow> (unit, bool) outcome" where
  "digit_too_large q rhat vn0 un =
     (if half_base \<le> q then Done True
      else zbind (zmul q vn0) (\<lambda>p. zbind (zadd (push_bit 32 rhat) un) (\<lambda>r. Done (r < p))))"

function correct_digit :: "u64 \<Rightarrow> u64 \<Rightarrow> u64 \<Rightarrow> u64 \<Rightarrow> u64 \<Rightarrow> (unit, u64 \<times> u64) outcome" where
  "correct_digit vn1 vn0 un q rhat =
     zbind (digit_too_large q rhat vn0 un) (\<lambda>large.
     if \<not> large then Done (q, rhat)
     else zbind (zsub q 1) (\<lambda>q.
       zbind (zadd rhat vn1) (\<lambda>rhat.
       if half_base \<le> rhat then Done (q, rhat) else correct_digit vn1 vn0 un q rhat)))"
  by pat_completeness auto
termination
proof (relation "measure (\<lambda>(vn1, vn0, un, q, rhat). unat q)", goal_cases)
  case (2 vn1 vn0 un q rhat large q' rhat')
  then have "q \<noteq> 0" "q' = q - 1" by (auto simp: zsub_Done_iff)
  then show ?case by (simp add: unat_minus_one unat_gt_0)
qed simp

declare correct_digit.simps [simp del]

definition div128by64 :: "u64 \<Rightarrow> u64 \<Rightarrow> u64 \<Rightarrow> (unit, u64 \<times> u64) outcome" where
  "div128by64 n_hi n_lo denominator =
     zassert (clz 64 denominator < 64) (
     let shift = clz 64 denominator;
         v = push_bit shift denominator;
         vn1 = drop_bit 32 v;
         vn0 = v AND 0xffffffff;
         un32 = (if 0 < shift then push_bit shift n_hi OR drop_bit (64 - shift) n_lo else n_hi);
         un10 = push_bit shift n_lo;
         un1 = drop_bit 32 un10;
         un0 = un10 AND 0xffffffff
     in zbind (zdiv un32 vn1) (\<lambda>q1. zbind (zmod un32 vn1) (\<lambda>rhat.
        zbind (correct_digit vn1 vn0 un1 q1 rhat) (\<lambda>(q1, rhat).
        let un21 = un32 * half_base + un1 - q1 * v in
        zbind (zdiv un21 vn1) (\<lambda>q0. zbind (zmod un21 vn1) (\<lambda>rhat.
        zbind (correct_digit vn1 vn0 un0 q0 rhat) (\<lambda>(q0, rhat).
        zbind (zmul q1 half_base) (\<lambda>p. zbind (zadd p q0) (\<lambda>q.
        Done (q, drop_bit shift (un21 * half_base + un0 - q0 * v)))))))))))"

text \<open>One digit in base \<open>b\<close>, on naturals: the estimate never falls below the digit.\<close>

lemma digit_step_above:
  fixes b q r v1 v0 U u V :: nat
  assumes "q * v1 + r = U" "V = v1 * b + v0" "r * b + u < q * v0"
  shows "(U * b + u) div V < q"
proof -
  have "q * V = (q * v1) * b + q * v0" by (simp add: assms(2) algebra_simps)
  moreover have "U * b = (q * v1) * b + r * b" by (simp add: assms(1) [symmetric] algebra_simps)
  ultimately have "U * b + u < q * V" using assms(3) by linarith
  then show ?thesis by (simp add: less_mult_imp_div_less)
qed

lemma digit_exit:
  fixes b q r v1 v0 U u V :: nat
  assumes "q * v1 + r = U" "V = v1 * b + v0" "q * v0 \<le> r * b + u" "0 < V" "(U * b + u) div V \<le> q"
  shows "q = (U * b + u) div V"
proof -
  have "q * V = (q * v1) * b + q * v0" by (simp add: assms(2) algebra_simps)
  moreover have "U * b = (q * v1) * b + r * b" by (simp add: assms(1) [symmetric] algebra_simps)
  ultimately have "q * V \<le> U * b + u" using assms(3) by linarith
  then have "q \<le> (U * b + u) div V" using assms(4) by (simp add: less_eq_div_iff_mult_less_eq)
  with assms(5) show ?thesis by simp
qed

lemma word_shift_32: "unat (push_bit 32 (x :: u64)) = unat x * 2 ^ 32 mod 2 ^ 64"
  unfolding unat_push_bit_64 limb_base_def ..

lemma digit_small:
  assumes "(U::nat) < V" "u < b" shows "(U * b + u) div V < b"
proof -
  have "Suc U * b \<le> V * b" using assms(1) by (intro mult_right_mono) auto
  then have "U * b + u < b * V" using assms(2) by (simp add: mult.commute)
  then show ?thesis by (simp add: less_mult_imp_div_less)
qed

lemma half_base_le: "half_base \<le> x \<longleftrightarrow> 2 ^ 32 \<le> unat x"
  by (simp add: half_base_def word_le_nat_alt)

lemma digit_too_large_Done:
  assumes r: "unat rhat < 2 ^ 32" and un: "unat un < 2 ^ 32" and v: "unat vn0 < 2 ^ 32"
  shows "digit_too_large q rhat vn0 un =
    Done (2 ^ 32 \<le> unat q \<or> unat rhat * 2 ^ 32 + unat un < unat q * unat vn0)"
proof (cases "2 ^ 32 \<le> unat q")
  case False
  have shift: "unat (push_bit 32 rhat) = unat rhat * 2 ^ 32" using r by (simp add: word_shift_32)
  have "unat q * unat vn0 < 2 ^ 32 * 2 ^ 32" using False v by (intro mult_strict_mono) auto
  then have "unat q * unat vn0 < 2 ^ LENGTH(64)" by simp
  moreover have "unat (push_bit 32 rhat) + unat un < 2 ^ LENGTH(64)" using r un shift by simp
  ultimately show ?thesis
    using False unat_times [of q vn0] unat_plus [of "push_bit 32 rhat" un]
    by (simp add: digit_too_large_def half_base_le word_less_nat_alt shift zmul_Done zadd_Done)
qed (simp add: digit_too_large_def half_base_le)

lemma correct_digit_exact:
  assumes V: "unat vn1 * 2 ^ 32 + unat vn0 = V" "0 < unat vn1" "unat vn1 < 2 ^ 32" "unat vn0 < 2 ^ 32"
    and un: "unat un < 2 ^ 32" and U: "U < V"
  shows "(U * 2 ^ 32 + unat un) div V \<le> unat q \<Longrightarrow> unat q \<le> 2 ^ 32 + 1 \<Longrightarrow>
    unat q * unat vn1 + unat rhat = U \<Longrightarrow> unat rhat < 2 ^ 32 \<Longrightarrow>
    \<exists>q' r'. correct_digit vn1 vn0 un q rhat = Done (q', r') \<and> unat q' = (U * 2 ^ 32 + unat un) div V"
proof (induction "unat q" arbitrary: q rhat rule: less_induct)
  case less
  let ?Q = "(U * 2 ^ 32 + unat un) div V"
  have Q: "?Q < 2 ^ 32" using digit_small [OF U un] .
  define large where "large \<longleftrightarrow> 2 ^ 32 \<le> unat q \<or> unat rhat * 2 ^ 32 + unat un < unat q * unat vn0"
  note dt = digit_too_large_Done [OF less.prems(4) un V(4), of q, folded large_def]
  show ?case
  proof (cases large)
    case False
    then have "unat q * unat vn0 \<le> unat rhat * 2 ^ 32 + unat un" by (simp add: large_def)
    then have "unat q = ?Q" using digit_exit [OF less.prems(3) V(1) [symmetric] _ _ less.prems(1)] U by simp
    then show ?thesis using False by (subst correct_digit.simps) (simp add: dt)
  next
    case True
    have above: "?Q < unat q"
    proof (cases "2 ^ 32 \<le> unat q")
      case False
      with True have "unat rhat * 2 ^ 32 + unat un < unat q * unat vn0" by (simp add: large_def)
      then show ?thesis using digit_step_above [OF less.prems(3) V(1) [symmetric]] by simp
    qed (use Q in linarith)
    have q1: "unat (1 :: u64) \<le> unat q" "unat (q - 1) = unat q - 1" using unat_minus [of 1 q] above by auto
    have r1: "unat rhat + unat vn1 < 2 ^ LENGTH(64)" "unat (rhat + vn1) = unat rhat + unat vn1"
      using unat_plus [of rhat vn1] less.prems(4) V(3) by auto
    have inv: "unat (q - 1) * unat vn1 + unat (rhat + vn1) = U"
    proof -
      have "unat q = Suc (unat q - 1)" using above by simp
      then have "unat q * unat vn1 = (unat q - 1) * unat vn1 + unat vn1" by (metis mult_Suc add.commute)
      then show ?thesis using less.prems(3) unfolding q1(2) r1(2) by linarith
    qed
    have le: "?Q \<le> unat (q - 1)" "unat (q - 1) \<le> 2 ^ 32" using above less.prems(2) unfolding q1(2) by linarith+
    show ?thesis
    proof (cases "2 ^ 32 \<le> unat (rhat + vn1)")
      case exit: True
      have "unat (q - 1) * unat vn0 \<le> 2 ^ 32 * unat (rhat + vn1)" 
      proof -
        have "unat (q - 1) * unat vn0 \<le> 2 ^ 32 * 2 ^ 32" using le V(4) by (intro mult_mono) auto
        also have "\<dots> \<le> 2 ^ 32 * unat (rhat + vn1)" using exit by (intro mult_left_mono) auto
        finally show ?thesis .
      qed
      then have "unat (q - 1) * unat vn0 \<le> unat (rhat + vn1) * 2 ^ 32 + unat un" by (simp only: mult.commute)
      then have "unat (q - 1) = ?Q" using digit_exit [OF inv V(1) [symmetric] _ _ le(1)] U by simp
      then show ?thesis using True exit by (subst correct_digit.simps) (simp add: dt half_base_le zsub_Done [OF q1(1)] zadd_Done [OF r1(1)])
    next
      case False
      have "unat (q - 1) < unat q" using above q1(2) by linarith
      moreover have "unat (q - 1) \<le> 2 ^ 32 + 1" "unat (rhat + vn1) < 2 ^ 32" using le False by linarith+
      ultimately have "\<exists>q' r'. correct_digit vn1 vn0 un (q - 1) (rhat + vn1) = Done (q', r') \<and> unat q' = ?Q"
        using less.hyps [of "q - 1" "rhat + vn1"] le(1) inv by blast
      then show ?thesis using True False by (subst correct_digit.simps) (simp add: dt half_base_le zsub_Done [OF q1(1)] zadd_Done [OF r1(1)])
    qed
  qed
qed

lemma first_digit:
  assumes V: "v1 * b + v0 = V" "b \<le> 2 * v1" "v0 < b" "0 < v1" and U: "(U::nat) < V" "u < b"
  shows "(U * b + u) div V \<le> U div v1" "U div v1 \<le> b + 1"
proof -
  have "U * b + u < Suc (U div v1) * V"
  proof -
    have "Suc U \<le> Suc (U div v1) * v1" using dividend_less_div_times [OF V(4), of U] by simp
    then have "Suc U * b \<le> (Suc (U div v1) * v1) * b" by (rule mult_right_mono) simp
    also have "\<dots> \<le> Suc (U div v1) * V" unfolding V(1) [symmetric] by (simp add: algebra_simps)
    finally show ?thesis using U(2) by simp
  qed
  then have "(U * b + u) div V < Suc (U div v1)" by (simp add: less_mult_imp_div_less)
  then show "(U * b + u) div V \<le> U div v1" by simp
  have "U < v1 * b + 2 * v1" using U(1) V(1-3) by linarith
  then have "U < (b + 2) * v1" by (simp add: algebra_simps)
  then have "U div v1 < b + 2" by (simp add: less_mult_imp_div_less)
  then show "U div v1 \<le> b + 1" by simp
qed

lemma wrap_remainder:
  fixes a h c q v :: "'w::len word"
  assumes q: "unat q = (unat a * unat h + unat c) div unat v" and v: "v \<noteq> 0"
  shows "unat (a * h + c - q * v) = (unat a * unat h + unat c) mod unat v"
proof -
  let ?n = "unat a * unat h + unat c"
  have "a * h + c = word_of_nat ?n" by simp
  also have "?n = unat q * unat v + ?n mod unat v" unfolding q by simp
  also have "word_of_nat \<dots> = q * v + word_of_nat (?n mod unat v)" by simp
  finally have *: "a * h + c - q * v = word_of_nat (?n mod unat v)" by simp
  have "0 < unat v" using v by (simp add: unat_gt_0)
  then have "?n mod unat v < unat v" by simp
  then have "?n mod unat v < 2 ^ LENGTH('w)" using unsigned_less [of v] less_trans by blast
  then show ?thesis unfolding * by (simp add: unat_of_nat take_bit_nat_eq_self)
qed

lemma two_digits:
  fixes U u1 u0 b V :: nat
  shows "((U * b + u1) * b + u0) div V = (U * b + u1) div V * b + ((U * b + u1) mod V * b + u0) div V"
    and "((U * b + u1) * b + u0) mod V = ((U * b + u1) mod V * b + u0) mod V"
proof -
  define q where "q = (U * b + u1) div V"
  define r where "r = (U * b + u1) mod V"
  have "U * b + u1 = q * V + r" unfolding q_def r_def by simp
  then have e: "(U * b + u1) * b + u0 = (q * b) * V + (r * b + u0)" by (simp add: algebra_simps)
  show "((U * b + u1) * b + u0) mod V = ((U * b + u1) mod V * b + u0) mod V"
    unfolding e r_def [symmetric] by (rule mod_mult_self3)
  show "((U * b + u1) * b + u0) div V = (U * b + u1) div V * b + ((U * b + u1) mod V * b + u0) div V"
  proof (cases "V = 0")
    case False
    then show ?thesis unfolding e r_def [symmetric] q_def [symmetric] by (rule div_mult_self3)
  qed simp
qed

lemma unat_low32: "unat (x AND 0xffffffff :: u64) = unat x mod 2 ^ 32"
proof -
  have "(0xffffffff :: u64) = mask 32" by (simp add: mask_eq_exp_minus_1)
  then show ?thesis by (simp only: take_bit_eq_mask [symmetric] unsigned_take_bit_eq) (simp only: take_bit_eq_mod)
qed

lemma unat_half_base: "unat half_base = 2 ^ 32"
  by (simp add: half_base_def)

lemma normalized:
  assumes "(d :: u64) \<noteq> 0"
  shows "clz 64 d < 64" "unat (push_bit (clz 64 d) d) = unat d * 2 ^ clz 64 d" "2 ^ 63 \<le> unat d * 2 ^ clz 64 d"
    "unat d < 2 ^ (64 - clz 64 d)"
proof -
  let ?s = "clz 64 d"
  have b: "0 < 64 - ?s" "2 ^ (64 - ?s - 1) \<le> unat d" "unat d < 2 ^ (64 - ?s)"
    using bit_word_width [OF assms, of 64] unat_u64_less [of d] by auto
  show "?s < 64" "unat d < 2 ^ (64 - ?s)" using b by simp_all
  then show "unat (push_bit ?s d) = unat d * 2 ^ ?s"
    by (simp add: unat_push_bit_64 mod_shift)
  have "2 ^ (64 - ?s - 1) * 2 ^ ?s \<le> unat d * 2 ^ ?s" using b by (intro mult_right_mono) auto
  moreover have "(2::nat) ^ (64 - ?s - 1) * 2 ^ ?s = 2 ^ (64 - ?s - 1 + ?s)" by (simp only: power_add)
  moreover have "64 - ?s - 1 + ?s = 63" using b(1) by simp
  ultimately show "2 ^ 63 \<le> unat d * 2 ^ ?s" by metis
qed

lemma split_shift: "s \<le> 64 \<Longrightarrow> n * 2 ^ s = n div 2 ^ (64 - s) * BB + n mod 2 ^ (64 - s) * 2 ^ s"
proof -
  assume s: "s \<le> 64"
  let ?P = "2 ^ (64 - s) :: nat"
  have "n * 2 ^ s = (n div ?P * ?P + n mod ?P) * 2 ^ s" by (simp only: div_mult_mod_eq)
  also have "\<dots> = n div ?P * (2 ^ s * ?P) + n mod ?P * 2 ^ s" by (simp only: add_mult_distrib mult.assoc mult.commute [of ?P])
  finally show ?thesis by (simp only: BB_split [OF s])
qed

lemma div128by64_exact:
  assumes "n_hi < denominator"
  shows "\<exists>q r. div128by64 n_hi n_lo denominator = Done (q, r) \<and>
    unat q = (unat n_hi * BB + unat n_lo) div unat denominator \<and>
    unat r = (unat n_hi * BB + unat n_lo) mod unat denominator"
proof -
  let ?d = denominator and ?n = "unat n_hi * BB + unat n_lo"
  define s where "s = clz 64 ?d"
  define v where "v = push_bit s ?d"
  define vn1 where "vn1 = drop_bit 32 v"
  define vn0 where "vn0 = v AND 0xffffffff"
  define un32 where "un32 = (if 0 < s then push_bit s n_hi OR drop_bit (64 - s) n_lo else n_hi)"
  define un10 where "un10 = push_bit s n_lo"
  define un1 where "un1 = drop_bit 32 un10"
  define un0 where "un0 = un10 AND 0xffffffff"
  have d: "?d \<noteq> 0" "unat n_hi < unat ?d" using assms by (auto simp: word_less_nat_alt)
  have s: "s < 64" "unat v = unat ?d * 2 ^ s" "2 ^ 63 \<le> unat v" "unat ?d < 2 ^ (64 - s)"
    using normalized [OF d(1)] unfolding s_def v_def by simp_all
  have vnz: "v \<noteq> 0" using s(3) by auto
  have vlt: "unat v < 2 ^ 64" by (rule unat_u64_less)
  have vn: "unat vn1 * 2 ^ 32 + unat vn0 = unat v" "unat vn0 < 2 ^ 32" "unat vn1 < 2 ^ 32" "2 ^ 31 \<le> unat vn1"
    using s(3) vlt unfolding vn1_def vn0_def unat_drop_bit unat_low32 by (auto simp: less_mult_imp_div_less)
  have un10: "unat un10 = unat n_lo mod 2 ^ (64 - s) * 2 ^ s"
    using s(1) by (simp add: un10_def unat_push_bit_64 mod_shift)
  have un32: "unat un32 = unat n_hi * 2 ^ s + unat n_lo div 2 ^ (64 - s)"
  proof (cases "0 < s")
    case True
    then show ?thesis using s(1,4) d(2) by (simp add: un32_def unat_shift_pair)
  next
    case False
    then show ?thesis using unat_u64_less [of n_lo] by (simp add: un32_def)
  qed
  have N: "unat un32 * BB + unat un10 = ?n * 2 ^ s"
  proof -
    have "unat n_lo * 2 ^ s = unat n_lo div 2 ^ (64 - s) * BB + unat un10"
      using split_shift [of s "unat n_lo"] s(1) by (simp add: un10)
    then show ?thesis unfolding un32 by (simp add: algebra_simps)
  qed
  have U: "unat un32 < unat v"
  proof -
    have "Suc (unat n_hi) * BB \<le> unat ?d * BB" using d(2) by (intro mult_right_mono) auto
    then have "?n < unat ?d * BB" using limb_less [of n_lo] unfolding mult_Suc by linarith
    then have "?n * 2 ^ s < unat ?d * BB * 2 ^ s" by (intro mult_strict_right_mono) auto
    moreover have "unat ?d * BB * 2 ^ s = unat v * BB" unfolding s(2) by (simp only: ac_simps)
    ultimately have "unat un32 * BB < unat v * BB" unfolding N [symmetric] by linarith
    then show ?thesis by simp
  qed
  have un: "unat un10 = unat un1 * 2 ^ 32 + unat un0" "unat un1 < 2 ^ 32" "unat un0 < 2 ^ 32"
    using unat_u64_less [of un10] unfolding un1_def un0_def unat_drop_bit unat_low32
    by (auto simp: less_mult_imp_div_less)
  have digit: "\<exists>q r. correct_digit vn1 vn0 c (a div vn1) (a mod vn1) = Done (q, r) \<and>
      unat q = (unat a * 2 ^ 32 + unat c) div unat v"
    if "unat a < unat v" "unat c < 2 ^ 32" for a c
  proof -
    have "0 < unat vn1" "(2::nat) ^ 32 \<le> 2 * unat vn1" using vn(4) by auto
    moreover from this(1) have "unat a mod unat vn1 < 2 ^ 32" using vn(3) by (meson less_trans mod_less_divisor)
    ultimately show ?thesis
      using correct_digit_exact [OF vn(1) _ vn(3) vn(2) that(2) that(1), of "a div vn1" "a mod vn1"]
        first_digit [OF vn(1) _ vn(2) _ that] by (simp add: unat_div unat_mod)
  qed
  obtain q1 r1 where q1: "correct_digit vn1 vn0 un1 (un32 div vn1) (un32 mod vn1) = Done (q1, r1)"
    "unat q1 = (unat un32 * 2 ^ 32 + unat un1) div unat v" using digit [OF U un(2)] by blast
  define un21 where "un21 = un32 * half_base + un1 - q1 * v"
  have un21: "unat un21 = (unat un32 * 2 ^ 32 + unat un1) mod unat v"
    unfolding un21_def using wrap_remainder [of q1 un32 half_base un1 v] q1(2) vnz by (simp add: unat_half_base)
  have "unat un21 < unat v" unfolding un21 using vnz by (intro mod_less_divisor) (simp add: unat_gt_0)
  then obtain q0 r0 where q0: "correct_digit vn1 vn0 un0 (un21 div vn1) (un21 mod vn1) = Done (q0, r0)"
    "unat q0 = (unat un21 * 2 ^ 32 + unat un0) div unat v" using digit [OF _ un(3)] by blast
  have r: "unat (un21 * half_base + un0 - q0 * v) = (unat un21 * 2 ^ 32 + unat un0) mod unat v"
    using wrap_remainder [of q0 un21 half_base un0 v] q0(2) vnz by (simp add: unat_half_base)
  have all: "(unat un32 * 2 ^ 32 + unat un1) * 2 ^ 32 + unat un0 = ?n * 2 ^ s"
    unfolding N [symmetric] un(1) by (simp add: limb_base_def algebra_simps)
  note two = two_digits [of "unat un32" "2 ^ 32" "unat un1" "unat un0" "unat v", unfolded all, folded un21, folded q1(2), folded q0(2)]
  have quot: "?n * 2 ^ s div unat v = ?n div unat ?d" "?n * 2 ^ s mod unat v = ?n mod unat ?d * 2 ^ s"
    unfolding s(2) by (simp_all add: mult_mod_left [symmetric])
  have small: "unat q1 < 2 ^ 32" "unat q0 < 2 ^ 32"
    using digit_small [OF U un(2)] digit_small [OF \<open>unat un21 < unat v\<close> un(3)] unfolding q1(2) q0(2) by auto
  have m1: "unat q1 * unat half_base < 2 ^ LENGTH(64)" using small by (simp add: unat_half_base)
  have m2: "unat (q1 * half_base) + unat q0 < 2 ^ LENGTH(64)"
    using small unat_times [OF m1] by (simp add: unat_half_base)
  have q: "unat (q1 * half_base + q0) = ?n div unat ?d"
    using unat_plus [OF m2] unat_times [OF m1] two(1) quot(1) by (simp add: unat_half_base)
  have rem: "unat (drop_bit s (un21 * half_base + un0 - q0 * v)) = ?n mod unat ?d"
    unfolding unat_drop_bit r two(2) [symmetric] quot(2) by simp
  have "vn1 \<noteq> 0" using vn(4) by auto
  then have "div128by64 n_hi n_lo ?d = Done (q1 * half_base + q0, drop_bit s (un21 * half_base + un0 - q0 * v))"
    unfolding div128by64_def Let_def s_def [symmetric] v_def [symmetric] vn1_def [symmetric] vn0_def [symmetric]
      un32_def [symmetric] un10_def [symmetric] un1_def [symmetric] un0_def [symmetric]
    using s(1) q1(1) q0(1) by (simp add: zdiv_def zmod_def un21_def [symmetric] zmul_Done [OF m1] zadd_Done [OF m2])
  then show ?thesis using q rem by blast
qed

end
