(* ===== verification/Zig_Knuth.thy ===== *)
theory Zig_Knuth
  imports Zig_Limbs
begin

text \<open>
  The long division of \<^verbatim>\<open>src/src/uint256.zig\<close>: the conversions between words and limbs, one
  digit of Knuth's algorithm D (the trial quotient with its corrections, the multiplication
  and subtraction in place, the addition back), and its exactness for divisors of two limbs and more.
\<close>

section \<open>Words and limbs\<close>

definition toLimbs :: "u256 \<Rightarrow> limbs" where
  "toLimbs v = [ucast v, ucast (drop_bit 64 v), ucast (drop_bit 128 v), ucast (drop_bit 192 v)]"

definition fromLimbs :: "limbs \<Rightarrow> u256" where
  "fromLimbs limbs = ucast (limbs ! 0) OR push_bit 64 (ucast (limbs ! 1)) OR push_bit 128 (ucast (limbs ! 2)) OR
     push_bit 192 (ucast (limbs ! 3))"

definition clearLimbs :: "nat \<Rightarrow> limbs" where
  "clearLimbs n = replicate n 0"

text \<open>The loop of \<^verbatim>\<open>countLimbs\<close> from \<open>n\<close> down.\<close>

fun countLimbs :: "nat \<Rightarrow> limbs \<Rightarrow> (unit, nat) outcome" where
  "countLimbs 0 limbs = Done 0"
| "countLimbs (Suc n) limbs = zbind (zidx limbs n) (\<lambda>x. if x = 0 then countLimbs n limbs else Done (Suc n))"

fun lt_limbs :: "nat \<Rightarrow> limbs \<Rightarrow> limbs \<Rightarrow> (unit, bool) outcome" where
  "lt_limbs 0 a b = Done False"
| "lt_limbs (Suc i) a b = zbind (zidx a i) (\<lambda>x. zbind (zidx b i) (\<lambda>y. if x \<noteq> y then Done (x < y) else lt_limbs i a b))"

definition ltPrefix :: "limbs \<Rightarrow> nat \<Rightarrow> limbs \<Rightarrow> nat \<Rightarrow> (unit, bool) outcome" where
  "ltPrefix a a_len b b_len = (if a_len \<noteq> b_len then Done (a_len < b_len) else lt_limbs a_len a b)"

lemma lval_4: "lval u 0 4 = unat (u ! 0) + unat (u ! 1) * BB + unat (u ! 2) * BB ^ 2 + unat (u ! 3) * BB ^ 3"
  by (simp add: numeral_eq_Suc)

lemma unat_take_limb: "unat (ucast (drop_bit n (v :: u256)) :: u64) = unat v div 2 ^ n mod BB"
  by (simp add: unsigned_ucast_eq unat_drop_bit take_bit_eq_mod limb_base_def)

lemma toLimbs_value: "lval (toLimbs v) 0 4 = unat v"
proof -
  let ?n = "unat v"
  have n: "toLimbs v ! 0 = ucast (drop_bit 0 v)" "toLimbs v ! 1 = ucast (drop_bit 64 v)"
    "toLimbs v ! 2 = ucast (drop_bit 128 v)" "toLimbs v ! 3 = ucast (drop_bit 192 v)"
    by (simp_all add: toLimbs_def)
  have l: "lval (toLimbs v) 0 4 = ?n mod BB + ?n div 2 ^ 64 mod BB * BB + ?n div 2 ^ 128 mod BB * BB ^ 2 +
      ?n div 2 ^ 192 mod BB * BB ^ 3"
    unfolding lval_4 n unat_take_limb by simp
  define a where "a = ?n div BB"
  define b where "b = a div BB"
  define c where "c = b div BB"
  have d: "?n div 2 ^ 64 = a" "?n div 2 ^ 128 = b" "?n div 2 ^ 192 = c"
    unfolding a_def b_def c_def limb_base_def by (simp_all add: div_mult2_eq [symmetric])
  have e: "?n = a * BB + ?n mod BB" "a = b * BB + a mod BB" "b = c * BB + b mod BB"
    unfolding a_def b_def c_def by simp_all
  have "c < BB" using unat_u256_less [of v] unfolding d(3) [symmetric]
    by (simp add: limb_base_def less_mult_imp_div_less)
  then have c: "c mod BB = c" by simp
  have "?n mod BB + a mod BB * BB + b mod BB * BB ^ 2 + c * BB ^ 3 =
      ((c * BB + b mod BB) * BB + a mod BB) * BB + ?n mod BB"
    by (simp add: algebra_simps power2_eq_square power3_eq_cube)
  also have "\<dots> = ?n" using e by metis
  finally show ?thesis unfolding l d c .
qed

lemma length_toLimbs [simp]: "length (toLimbs v) = 4"
  by (simp add: toLimbs_def)

lemma unat_word_256 [simp]: "unat (ucast (x :: u64) :: u256) = unat x"
  by (simp add: unsigned_ucast_eq take_bit_nat_eq_self_iff) (rule less_trans [OF unsigned_less], simp)

lemma unat_limb_at: "n \<le> 192 \<Longrightarrow> unat (push_bit n (ucast (x :: u64) :: u256)) = unat x * 2 ^ n"
proof -
  assume n: "n \<le> 192"
  have "unat x * 2 ^ n < 2 ^ 64 * 2 ^ n" using unat_u64_less [of x] by simp
  also have "\<dots> \<le> 2 ^ 64 * (2 ^ 192 :: nat)" using n by (intro mult_left_mono power_increasing) auto
  finally have "unat x * 2 ^ n < 2 ^ 256" by simp
  then show ?thesis unfolding unsigned_push_bit_eq by (simp add: push_bit_eq_mult take_bit_nat_eq_self)
qed

lemma fromLimbs_value: "unat (fromLimbs u) = lval u 0 4"
proof -
  define w :: "nat \<Rightarrow> u256" where "w i = push_bit (64 * i) (ucast (u ! i))" for i
  have bits: "bit (w i) k \<Longrightarrow> 64 * i \<le> k \<and> k < 64 * i + 64" for i k
    by (auto simp: w_def bit_simps dest: bit_imp_le_length)
  have val: "unat (w i) = unat (u ! i) * BB ^ i" if "i < 4" for i
    using that by (simp add: w_def unat_limb_at limb_base_def power_mult)
  have l: "lval u 0 (Suc k) = lval u 0 k + unat (u ! k) * BB ^ k" for k by simp
  have fit: "lval u 0 k < 2 ^ LENGTH(256)" if "k \<le> 4" for k
  proof -
    have "BB ^ k \<le> BB ^ 4" by (rule power_increasing) (use that in auto)
    then have "lval u 0 k < BB ^ 4" using lval_less [of u 0 k] by linarith
    then show ?thesis by (simp add: limb_base_def)
  qed
  have step: "unat (x OR w k) = lval u 0 (Suc k) \<and> (\<forall>j. bit (x OR w k) j \<longrightarrow> j < 64 * Suc k)"
    if "unat x = lval u 0 k \<and> (\<forall>j. bit x j \<longrightarrow> j < 64 * k)" "k < 4" for x k
  proof -
    have "x AND w k = 0" by (rule bit_eqI) (use that(1) bits in \<open>fastforce simp: bit_simps\<close>)
    moreover have "unat x + unat (w k) < 2 ^ LENGTH(256)"
      using fit [of "Suc k"] that val by simp
    ultimately have "unat (x OR w k) = lval u 0 (Suc k)" using unat_or_disjoint [of x "w k"] that val by simp
    moreover have "j < 64 * Suc k" if "bit (x OR w k) j" for j
      using that bits [of k j] \<open>unat x = _ \<and> _\<close> by (fastforce simp: bit_simps)
    ultimately show ?thesis by blast
  qed
  have f: "fromLimbs u = ((w 0 OR w 1) OR w 2) OR w 3" by (simp add: fromLimbs_def w_def or.assoc)
  have "unat (w 0) = lval u 0 1 \<and> (\<forall>j. bit (w 0) j \<longrightarrow> j < 64 * 1)" using val [of 0] bits [of 0] by fastforce
  from step [OF this] have "unat (w 0 OR w 1) = lval u 0 2 \<and> (\<forall>j. bit (w 0 OR w 1) j \<longrightarrow> j < 64 * 2)"
    by (simp add: numeral_2_eq_2)
  from step [OF this] have "unat (w 0 OR w 1 OR w 2) = lval u 0 3 \<and> (\<forall>j. bit ((w 0 OR w 1) OR w 2) j \<longrightarrow> j < 64 * 3)"
    by (simp add: numeral_3_eq_3 numeral_2_eq_2 or.assoc)
  then have "unat ((w 0 OR w 1) OR w 2) = lval u 0 3 \<and> (\<forall>j. bit ((w 0 OR w 1) OR w 2) j \<longrightarrow> j < 64 * 3)"
    unfolding or.assoc .
  from step [OF this] show ?thesis unfolding f by (simp add: eval_nat_numeral)
qed

lemma countLimbs_Done:
  "n \<le> length u \<Longrightarrow> \<exists>k. countLimbs n u = Done k \<and> k \<le> n \<and> (\<forall>j. k \<le> j \<longrightarrow> j < n \<longrightarrow> u ! j = 0) \<and>
    (0 < k \<longrightarrow> u ! (k - 1) \<noteq> 0)"
proof (induction n)
  case (Suc n)
  show ?case
  proof (cases "u ! n = 0")
    case True
    with Suc obtain k where "countLimbs n u = Done k" "k \<le> n" "\<forall>j. k \<le> j \<longrightarrow> j < n \<longrightarrow> u ! j = 0"
      "0 < k \<longrightarrow> u ! (k - 1) \<noteq> 0" by auto
    with True Suc.prems show ?thesis by (auto simp: zidx_Done less_Suc_eq intro!: exI [of _ k])
  qed (use Suc.prems in \<open>auto simp: zidx_Done\<close>)
qed simp

text \<open>The number of limbs up to the highest one that is not zero.\<close>

definition limb_count :: "limbs \<Rightarrow> nat \<Rightarrow> nat \<Rightarrow> bool" where
  "limb_count u n k \<longleftrightarrow> countLimbs n u = Done k \<and> k \<le> n \<and> lval u 0 k = lval u 0 n \<and> (0 < k \<longrightarrow> BB ^ (k - 1) \<le> lval u 0 k)"

lemma countLimbs_count: "n \<le> length u \<Longrightarrow> \<exists>k. limb_count u n k"
proof -
  assume "n \<le> length u"
  then obtain k where k: "countLimbs n u = Done k" "k \<le> n" "\<forall>j. k \<le> j \<longrightarrow> j < n \<longrightarrow> u ! j = 0"
    "0 < k \<longrightarrow> u ! (k - 1) \<noteq> 0" using countLimbs_Done by blast
  have "lval u 0 n = lval u 0 k" using k by (intro lval_zeros) auto
  moreover have "BB ^ (k - 1) \<le> lval u 0 k" if "0 < k"
  proof -
    have "1 * BB ^ (k - 1) \<le> unat (u ! (k - 1)) * BB ^ (k - 1)"
      using k(4) that by (intro mult_right_mono) (simp_all add: Suc_le_eq unat_gt_0)
    moreover have "lval u 0 k = lval u 0 (k - 1) + unat (u ! (k - 1)) * BB ^ (k - 1)"
      using that by (cases k) auto
    ultimately show ?thesis by linarith
  qed
  ultimately show ?thesis using k unfolding limb_count_def by auto
qed

lemma limb_count_less: "limb_count u n k \<Longrightarrow> lval u 0 n < BB ^ k"
  unfolding limb_count_def using lval_less by metis

lemma limb_count_0: "limb_count u n k \<Longrightarrow> lval u 0 n = 0 \<longleftrightarrow> k = 0"
  unfolding limb_count_def by (metis BB_pos(1) bot_nat_0.not_eq_extremum le_0_eq lval.simps(1) power_eq_0_iff)

lemma limb_count_order: "limb_count a n i \<Longrightarrow> limb_count b m j \<Longrightarrow> i < j \<Longrightarrow> lval a 0 n < lval b 0 m"
proof -
  assume a: "limb_count a n i" and b: "limb_count b m j" and "i < j"
  then have "BB ^ i \<le> BB ^ (j - 1)" by (intro power_increasing) auto
  moreover have "BB ^ (j - 1) \<le> lval b 0 m" using b \<open>i < j\<close> unfolding limb_count_def by auto
  ultimately show ?thesis using limb_count_less [OF a] by linarith
qed

lemma lt_limbs_Done: "i \<le> length a \<Longrightarrow> i \<le> length b \<Longrightarrow> lt_limbs i a b = Done (lval a 0 i < lval b 0 i)"
proof (induction i)
  case (Suc i)
  have less: "lval x 0 (Suc i) < lval y 0 (Suc i)" if "x ! i < y ! i" for x y
  proof -
    have "Suc (unat (x ! i)) * BB ^ i \<le> unat (y ! i) * BB ^ i" using that by (intro mult_right_mono) (auto simp: word_less_nat_alt)
    then show ?thesis using lval_less [of x 0 i] by (simp only: lval.simps add_0 mult_Suc)
  qed
  show ?case
  proof (cases "a ! i = b ! i")
    case False
    then have "a ! i < b ! i \<longleftrightarrow> lval a 0 (Suc i) < lval b 0 (Suc i)"
      using less [of a b] less [of b a] by (metis less_asym' linorder_neqE)
    with False Suc.prems show ?thesis by (simp add: zidx_Done del: lval.simps)
  qed (use Suc in \<open>simp add: zidx_Done\<close>)
qed simp

lemma ltPrefix_Done:
  assumes "limb_count a n i" "limb_count b m j" "n \<le> length a" "m \<le> length b"
  shows "ltPrefix a i b j = Done (lval a 0 n < lval b 0 m)"
proof (cases "i = j")
  case True
  have "i \<le> length a" "j \<le> length b" "lval a 0 i = lval a 0 n" "lval b 0 j = lval b 0 m"
    using assms unfolding limb_count_def by auto
  with True show ?thesis by (simp add: ltPrefix_def lt_limbs_Done)
next
  case False
  then consider "i < j" | "j < i" by linarith
  then show ?thesis
    by cases (use limb_count_order [OF assms(1,2)] limb_count_order [OF assms(2,1)] in \<open>auto simp: ltPrefix_def\<close>)
qed

section \<open>One digit\<close>

definition limb_carry :: u128 where
  "limb_carry = 2 ^ 64"

text \<open>One limb of the multiplication and subtraction in place, with its two carries.\<close>

definition mul_sub_step :: "limbs \<Rightarrow> nat \<Rightarrow> u64 \<Rightarrow> nat \<Rightarrow> limbs \<times> u128 \<times> u128 \<Rightarrow> (unit, limbs \<times> u128 \<times> u128) outcome" where
  "mul_sub_step divisor offset qhat i = (\<lambda>(u, carry, borrow).
     zbind (zidx divisor i) (\<lambda>d.
     zbind (zmul (ucast qhat) (ucast d)) (\<lambda>p.
     zbind (zadd p carry) (\<lambda>product.
     zbind (zadd (ucast (ucast product :: u64)) borrow) (\<lambda>rhs.
     zbind (zidx u (offset + i)) (\<lambda>x.
     if rhs \<le> ucast x then
       zbind (zsub (ucast x) rhs) (\<lambda>y.
       zbind (zset u (offset + i) (ucast y)) (\<lambda>u. Done (u, drop_bit 64 product, 0)))
     else
       zbind (zadd limb_carry (ucast x)) (\<lambda>s. zbind (zsub s rhs) (\<lambda>y.
       zbind (zset u (offset + i) (ucast y)) (\<lambda>u. Done (u, drop_bit 64 product, 1))))))))))"

definition mul_sub_top :: "nat \<Rightarrow> limbs \<times> u128 \<times> u128 \<Rightarrow> (unit, limbs \<times> bool) outcome" where
  "mul_sub_top tp = (\<lambda>(u, carry, borrow).
     zbind (zadd carry borrow) (\<lambda>high_rhs.
     zbind (zidx u tp) (\<lambda>x.
     if high_rhs \<le> ucast x then
       zbind (zsub (ucast x) high_rhs) (\<lambda>y. zbind (zset u tp (ucast y)) (\<lambda>u. Done (u, False)))
     else
       zbind (zadd limb_carry (ucast x)) (\<lambda>s. zbind (zsub s high_rhs) (\<lambda>y.
       zbind (zset u tp (ucast y)) (\<lambda>u. Done (u, True)))))))"

definition mulSubAt :: "limbs \<Rightarrow> limbs \<Rightarrow> nat \<Rightarrow> nat \<Rightarrow> u64 \<Rightarrow> (unit, limbs \<times> bool) outcome" where
  "mulSubAt u divisor divisor_len offset qhat =
     zbind (zfor (mul_sub_step divisor offset qhat) divisor_len (u, 0, 0)) (mul_sub_top (offset + divisor_len))"

definition add_back_step :: "limbs \<Rightarrow> nat \<Rightarrow> nat \<Rightarrow> limbs \<times> u128 \<Rightarrow> (unit, limbs \<times> u128) outcome" where
  "add_back_step divisor offset i = (\<lambda>(u, carry).
     zbind (zidx u (offset + i)) (\<lambda>x.
     zbind (zidx divisor i) (\<lambda>d.
     zbind (zadd (ucast x) (ucast d)) (\<lambda>s.
     zbind (zadd s carry) (\<lambda>sum.
     zbind (zset u (offset + i) (ucast sum)) (\<lambda>u. Done (u, drop_bit 64 sum)))))))"

definition addBackAt :: "limbs \<Rightarrow> limbs \<Rightarrow> nat \<Rightarrow> nat \<Rightarrow> (unit, limbs) outcome" where
  "addBackAt u divisor divisor_len offset =
     zbind (zfor (add_back_step divisor offset) divisor_len (u, 0)) (\<lambda>(u, carry).
     zbind (zidx u (offset + divisor_len)) (\<lambda>x.
     zset u (offset + divisor_len) (x + ucast carry)))"

text \<open>Subtracting two half-open values with a borrow, as every step does.\<close>

lemma borrow_low:
  fixes lhs rhs :: u128
  assumes "unat lhs < BB" "unat rhs \<le> BB"
  shows "rhs \<le> lhs \<Longrightarrow> unat (ucast (lhs - rhs) :: u64) = unat lhs - unat rhs"
    and "\<not> rhs \<le> lhs \<Longrightarrow> unat limb_carry + unat lhs < 2 ^ LENGTH(128)"
    and "\<not> rhs \<le> lhs \<Longrightarrow> unat rhs \<le> unat (limb_carry + lhs)"
    and "\<not> rhs \<le> lhs \<Longrightarrow> unat (ucast (limb_carry + lhs - rhs) :: u64) = BB + unat lhs - unat rhs"
proof -
  have b: "unat limb_carry = BB" by (simp add: limb_base_def limb_carry_def)
  show "unat (ucast (lhs - rhs) :: u64) = unat lhs - unat rhs" if "rhs \<le> lhs"
    using that assms by (simp add: unat_minus word_le_nat_alt)
  assume n: "\<not> rhs \<le> lhs"
  show s: "unat limb_carry + unat lhs < 2 ^ LENGTH(128)"
    unfolding b using assms(1) by (simp add: limb_base_def)
  then have u: "unat (limb_carry + lhs) = BB + unat lhs" unfolding b [symmetric] by (rule unat_plus)
  then show le: "unat rhs \<le> unat (limb_carry + lhs)" using assms(2) by linarith
  have "unat (limb_carry + lhs - rhs) = BB + unat lhs - unat rhs" using unat_minus [OF le] u by simp
  moreover have "BB + unat lhs - unat rhs < BB" using n assms(2) unfolding word_le_nat_alt by linarith
  ultimately show "unat (ucast (limb_carry + lhs - rhs) :: u64) = BB + unat lhs - unat rhs" by simp
qed

lemma mul_sub_step_exact:
  assumes "i < length divisor" "offset + i < length u" "unat carry < BB" "unat borrow \<le> 1"
  shows "\<exists>x carry' borrow'. mul_sub_step divisor offset qhat i (u, carry, borrow) =
      Done (u[offset + i := x], carry', borrow') \<and> unat carry' < BB \<and> unat borrow' \<le> 1 \<and>
    unat x + unat qhat * unat (divisor ! i) + unat carry + unat borrow =
      unat (u ! (offset + i)) + (unat carry' + unat borrow') * BB"
proof -
  let ?d = "divisor ! i" and ?x = "u ! (offset + i)"
  let ?p = "ucast qhat * ucast ?d :: u128"
  have prod: "unat qhat * unat ?d + unat carry + 0 < BB * BB" by (intro limb_product) (use assms(3) in simp_all)
  then have m: "unat (ucast qhat :: u128) * unat (ucast ?d :: u128) < 2 ^ LENGTH(128)"
    by (intro u128_bound) (unfold unat_widen, linarith)
  have p: "unat ?p = unat qhat * unat ?d" using unat_times [OF m] by simp
  have a: "unat ?p + unat carry < 2 ^ LENGTH(128)" using prod assms(3) unfolding p by (intro u128_bound) linarith
  let ?product = "?p + carry"
  have pr: "unat ?product = unat qhat * unat ?d + unat carry" using unat_plus [OF a] p by simp
  have "unat ?product < BB * BB" using prod assms(3) unfolding pr by linarith
  then have c: "unat (drop_bit 64 ?product) < BB" by (simp add: less_mult_imp_div_less)
  let ?low = "ucast (ucast ?product :: u64) :: u128"
  have low: "unat ?low = unat ?product mod BB" by simp
  have lowlt: "unat ?product mod BB < BB" by simp
  have r: "unat ?low + unat borrow < 2 ^ LENGTH(128)"
    unfolding low using lowlt assms(4) by (intro u128_bound) (simp add: limb_base_def)
  let ?rhs = "?low + borrow"
  have rhs: "unat ?rhs = unat ?product mod BB + unat borrow" using unat_plus [OF r] low by simp
  have le: "unat ?rhs \<le> BB" unfolding rhs using lowlt assms(4) by linarith
  have split: "unat qhat * unat ?d + unat carry = unat (drop_bit 64 ?product) * BB + unat ?product mod BB"
    unfolding pr [symmetric] by simp
  have lhs: "unat (ucast ?x :: u128) < BB" by simp
  note b = borrow_low [OF lhs le]
  show ?thesis
  proof (cases "?rhs \<le> ucast ?x")
    case True
    then have ge: "unat ?rhs \<le> unat (ucast ?x :: u128)" by (simp add: word_le_nat_alt)
    have "mul_sub_step divisor offset qhat i (u, carry, borrow) =
        Done (u[offset + i := ucast (ucast ?x - ?rhs)], drop_bit 64 ?product, 0)"
      using True assms(1,2) unfolding mul_sub_step_def
      by (simp add: zidx_Done zset_Done zmul_Done [OF m] zadd_Done [OF a] zadd_Done [OF r] zsub_Done [OF ge])
    moreover have "unat (ucast (ucast ?x - ?rhs) :: u64) + unat qhat * unat ?d + unat carry + unat borrow =
        unat ?x + unat (drop_bit 64 ?product) * BB"
      using b(1) [OF True] ge split unfolding rhs unat_widen by linarith
    ultimately show ?thesis using c by fastforce
  next
    case False
    have "mul_sub_step divisor offset qhat i (u, carry, borrow) =
        Done (u[offset + i := ucast (limb_carry + ucast ?x - ?rhs)], drop_bit 64 ?product, 1)"
      using False assms(1,2) unfolding mul_sub_step_def
      by (simp add: zidx_Done zset_Done zmul_Done [OF m] zadd_Done [OF a] zadd_Done [OF r]
          zadd_Done [OF b(2) [OF False]] zsub_Done [OF b(3) [OF False]])
    moreover have "unat (ucast (limb_carry + ucast ?x - ?rhs) :: u64) + unat qhat * unat ?d + unat carry + unat borrow =
        unat ?x + (unat (drop_bit 64 ?product) + 1) * BB"
      using b(4) [OF False] le split unfolding rhs unat_widen add_mult_distrib mult_1 by linarith
    ultimately show ?thesis using c by fastforce
  qed
qed

lemma mul_sub_loop:
  assumes "n \<le> length divisor" "offset + n < length u"
  shows "\<exists>u' carry borrow. zfor (mul_sub_step divisor offset qhat) n (u, 0, 0) = Done (u', carry, borrow) \<and>
    length u' = length u \<and> (\<forall>j. j < offset \<or> offset + n \<le> j \<longrightarrow> u' ! j = u ! j) \<and>
    unat carry < BB \<and> unat borrow \<le> 1 \<and>
    lval u' offset n + unat qhat * lval divisor 0 n = lval u offset n + (unat carry + unat borrow) * BB ^ n"
proof -
  define P where "P i s \<longleftrightarrow> (case s of (u', carry, borrow) \<Rightarrow>
    length u' = length u \<and> (\<forall>j. j < offset \<or> offset + i \<le> j \<longrightarrow> u' ! j = u ! j) \<and>
    unat carry < BB \<and> unat borrow \<le> 1 \<and>
    lval u' offset i + unat qhat * lval divisor 0 i = lval u offset i + (unat carry + unat borrow) * BB ^ i)"
    for i and s :: "limbs \<times> u128 \<times> u128"
  have "\<exists>s'. zfor (mul_sub_step divisor offset qhat) n (u, 0, 0) = Done s' \<and> P n s'"
  proof (rule zfor_inv)
    show "P 0 (u, 0, 0)" by (simp add: P_def)
    fix i s assume i: "i < n" and "P i s"
    then obtain u' carry borrow where s: "s = (u', carry, borrow)" "length u' = length u"
      "\<forall>j. j < offset \<or> offset + i \<le> j \<longrightarrow> u' ! j = u ! j" "unat carry < BB" "unat borrow \<le> 1"
      and v: "lval u' offset i + unat qhat * lval divisor 0 i = lval u offset i + (unat carry + unat borrow) * BB ^ i"
      by (auto simp: P_def split: prod.splits)
    obtain x carry' borrow' where st: "mul_sub_step divisor offset qhat i s = Done (u'[offset + i := x], carry', borrow')"
      "unat carry' < BB" "unat borrow' \<le> 1"
      and e: "unat x + unat qhat * unat (divisor ! i) + unat carry + unat borrow =
        unat (u ! (offset + i)) + (unat carry' + unat borrow') * BB"
      using mul_sub_step_exact [of i divisor offset u' carry borrow qhat] s i assms by fastforce
    have "lval (u'[offset + i := x]) offset (Suc i) + unat qhat * lval divisor 0 (Suc i) =
        lval u' offset i + unat qhat * lval divisor 0 i + (unat x + unat qhat * unat (divisor ! i)) * BB ^ i"
      using s(2) i assms(2) by (simp add: algebra_simps)
    also have "\<dots> = lval u offset i +
        (unat x + unat qhat * unat (divisor ! i) + unat carry + unat borrow) * BB ^ i"
      unfolding v by (simp add: algebra_simps)
    also have "\<dots> = lval u offset (Suc i) + (unat carry' + unat borrow') * BB ^ Suc i"
      unfolding e by (simp add: algebra_simps)
    finally show "\<exists>s'. mul_sub_step divisor offset qhat i s = Done s' \<and> P (Suc i) s'"
      using st s(2,3) by (auto simp: P_def)
  qed
  then show ?thesis by (auto simp: P_def split: prod.splits)
qed

text \<open>The segment loses the product, or gains its power as well when that is too large.\<close>

lemma mulSubAt_exact:
  assumes "n \<le> length divisor" "offset + n < length u"
  shows "\<exists>u' neg. mulSubAt u divisor n offset qhat = Done (u', neg) \<and>
    length u' = length u \<and> (\<forall>j. j < offset \<or> offset + n < j \<longrightarrow> u' ! j = u ! j) \<and>
    (neg \<longleftrightarrow> lval u offset (Suc n) < unat qhat * lval divisor 0 n) \<and>
    lval u' offset (Suc n) + unat qhat * lval divisor 0 n = lval u offset (Suc n) + (if neg then BB ^ Suc n else 0)"
proof -
  let ?top = "offset + n" and ?q = "unat qhat * lval divisor 0 n"
  obtain u' carry borrow where loop: "zfor (mul_sub_step divisor offset qhat) n (u, 0, 0) = Done (u', carry, borrow)"
    and l: "length u' = length u" and fr: "\<forall>j. j < offset \<or> offset + n \<le> j \<longrightarrow> u' ! j = u ! j"
    and cb: "unat carry < BB" "unat borrow \<le> 1"
    and v: "lval u' offset n + ?q = lval u offset n + (unat carry + unat borrow) * BB ^ n"
    using mul_sub_loop [OF assms] by blast
  have r: "unat carry + unat borrow < 2 ^ LENGTH(128)" using cb by (simp add: limb_base_def)
  have rhs: "unat (carry + borrow) = unat carry + unat borrow" using unat_plus [OF r] .
  then have le: "unat (carry + borrow) \<le> BB" using cb by linarith
  let ?x = "u ! ?top"
  have lhs: "unat (ucast ?x :: u128) < BB" by simp
  have x: "u' ! ?top = ?x" using fr by simp
  note b = borrow_low [OF lhs le]
  define neg where "neg \<longleftrightarrow> \<not> carry + borrow \<le> ucast ?x"
  have "\<exists>y. mulSubAt u divisor n offset qhat = Done (u'[?top := y], neg) \<and>
      unat y + (unat carry + unat borrow) = unat ?x + (if neg then BB else 0)"
  proof (cases neg)
    case False
    then have t: "carry + borrow \<le> ucast ?x" by (simp add: neg_def)
    then have ge: "unat (carry + borrow) \<le> unat (ucast ?x :: u128)" by (simp add: word_le_nat_alt)
    have "mulSubAt u divisor n offset qhat = Done (u'[?top := ucast (ucast ?x - (carry + borrow))], False)"
      using t assms(2) l unfolding mulSubAt_def loop mul_sub_top_def
      by (simp add: zidx_Done zset_Done x zadd_Done [OF r] zsub_Done [OF ge])
    moreover have "unat (ucast (ucast ?x - (carry + borrow)) :: u64) + (unat carry + unat borrow) = unat ?x"
      using b(1) [OF t] ge unfolding rhs unat_widen by linarith
    ultimately show ?thesis using False by auto
  next
    case True
    then have t: "\<not> carry + borrow \<le> ucast ?x" by (simp add: neg_def)
    have "mulSubAt u divisor n offset qhat = Done (u'[?top := ucast (limb_carry + ucast ?x - (carry + borrow))], True)"
      using t assms(2) l unfolding mulSubAt_def loop mul_sub_top_def
      by (simp add: zidx_Done zset_Done x zadd_Done [OF r] zadd_Done [OF b(2) [OF t]] zsub_Done [OF b(3) [OF t]])
    moreover have "unat (ucast (limb_carry + ucast ?x - (carry + borrow)) :: u64) + (unat carry + unat borrow) = unat ?x + BB"
      using b(4) [OF t] le unfolding rhs unat_widen by linarith
    ultimately show ?thesis using True by auto
  qed
  then obtain y where y: "mulSubAt u divisor n offset qhat = Done (u'[?top := y], neg)"
    and e: "unat y + (unat carry + unat borrow) = unat ?x + (if neg then BB else 0)" by blast
  let ?u = "u'[?top := y]"
  have "lval ?u offset (Suc n) + ?q = lval u' offset n + ?q + unat y * BB ^ n"
    using assms(2) l by simp
  also have "\<dots> = lval u offset n + (unat y + (unat carry + unat borrow)) * BB ^ n"
    unfolding v by (simp add: algebra_simps)
  also have "\<dots> = lval u offset (Suc n) + (if neg then BB ^ Suc n else 0)"
    unfolding e by (simp add: algebra_simps)
  finally have val: "lval ?u offset (Suc n) + ?q = lval u offset (Suc n) + (if neg then BB ^ Suc n else 0)" .
  moreover have "neg \<longleftrightarrow> lval u offset (Suc n) < ?q"
    using val lval_less [of ?u offset "Suc n"] by (cases neg) simp_all
  ultimately show ?thesis using y l fr by (intro exI [of _ ?u] exI [of _ neg]) auto
qed

lemma add_back_step_exact:
  assumes "i < length divisor" "offset + i < length u" "unat carry \<le> 1"
  shows "\<exists>x carry'. add_back_step divisor offset i (u, carry) = Done (u[offset + i := x], carry') \<and>
    unat carry' \<le> 1 \<and> unat x + unat carry' * BB = unat (u ! (offset + i)) + unat (divisor ! i) + unat carry"
proof -
  let ?x = "u ! (offset + i)" and ?d = "divisor ! i"
  have lt: "unat ?x < BB" "unat ?d < BB" by simp_all
  have a: "unat (ucast ?x :: u128) + unat (ucast ?d :: u128) < 2 ^ LENGTH(128)"
    by (intro u128_bound) (unfold unat_widen, use lt in \<open>simp add: limb_base_def\<close>)
  have s: "unat (ucast ?x + ucast ?d :: u128) = unat ?x + unat ?d" using unat_plus [OF a] unfolding unat_widen .
  have b: "unat (ucast ?x + ucast ?d :: u128) + unat carry < 2 ^ LENGTH(128)"
    unfolding s by (intro u128_bound) (use lt assms(3) in \<open>simp add: limb_base_def\<close>)
  let ?s = "ucast ?x + ucast ?d + carry"
  have t: "unat ?s = unat ?x + unat ?d + unat carry" using unat_plus [OF b] unfolding s .
  have "unat ?s div BB < 2" unfolding t using lt assms(3) by (intro less_mult_imp_div_less) linarith
  then have c: "unat (drop_bit 64 ?s) \<le> 1" by simp
  have "add_back_step divisor offset i (u, carry) = Done (u[offset + i := ucast ?s], drop_bit 64 ?s)"
    using assms(1,2) by (simp add: add_back_step_def zidx_Done zset_Done zadd_Done [OF a] zadd_Done [OF b])
  moreover have "unat (ucast ?s :: u64) + unat (drop_bit 64 ?s) * BB = unat ?x + unat ?d + unat carry"
    unfolding t [symmetric] by simp
  ultimately show ?thesis using c by blast
qed

lemma addBackAt_exact:
  assumes "n \<le> length divisor" "offset + n < length u"
  shows "\<exists>u'. addBackAt u divisor n offset = Done u' \<and>
    length u' = length u \<and> (\<forall>j. j < offset \<or> offset + n < j \<longrightarrow> u' ! j = u ! j) \<and>
    lval u' offset (Suc n) = (lval u offset (Suc n) + lval divisor 0 n) mod BB ^ Suc n"
proof -
  define P where "P i s \<longleftrightarrow> (case s of (u', carry) \<Rightarrow>
    length u' = length u \<and> (\<forall>j. j < offset \<or> offset + i \<le> j \<longrightarrow> u' ! j = u ! j) \<and> unat carry \<le> 1 \<and>
    lval u' offset i + unat carry * BB ^ i = lval u offset i + lval divisor 0 i)"
    for i and s :: "limbs \<times> u128"
  have "\<exists>s'. zfor (add_back_step divisor offset) n (u, 0) = Done s' \<and> P n s'"
  proof (rule zfor_inv)
    show "P 0 (u, 0)" by (simp add: P_def)
    fix i s assume i: "i < n" and "P i s"
    then obtain u' carry where s: "s = (u', carry)" "length u' = length u"
      "\<forall>j. j < offset \<or> offset + i \<le> j \<longrightarrow> u' ! j = u ! j" "unat carry \<le> 1"
      and v: "lval u' offset i + unat carry * BB ^ i = lval u offset i + lval divisor 0 i"
      by (auto simp: P_def split: prod.splits)
    obtain x carry' where st: "add_back_step divisor offset i s = Done (u'[offset + i := x], carry')"
      "unat carry' \<le> 1" and e: "unat x + unat carry' * BB = unat (u ! (offset + i)) + unat (divisor ! i) + unat carry"
      using add_back_step_exact [of i divisor offset u' carry] s i assms by fastforce
    have "lval (u'[offset + i := x]) offset (Suc i) + unat carry' * BB ^ Suc i =
        lval u' offset i + (unat x + unat carry' * BB) * BB ^ i"
      using s(2) i assms(2) by (simp add: algebra_simps)
    also have "\<dots> = lval u' offset i + unat carry * BB ^ i + (unat (u ! (offset + i)) + unat (divisor ! i)) * BB ^ i"
      unfolding e by (simp add: algebra_simps)
    also have "\<dots> = lval u offset (Suc i) + lval divisor 0 (Suc i)"
      unfolding v by (simp add: algebra_simps)
    finally show "\<exists>s'. add_back_step divisor offset i s = Done s' \<and> P (Suc i) s'"
      using st s(2,3) by (auto simp: P_def)
  qed
  then obtain u' carry where loop: "zfor (add_back_step divisor offset) n (u, 0) = Done (u', carry)"
    and l: "length u' = length u" and fr: "\<forall>j. j < offset \<or> offset + n \<le> j \<longrightarrow> u' ! j = u ! j"
    and c: "unat carry \<le> 1" and v: "lval u' offset n + unat carry * BB ^ n = lval u offset n + lval divisor 0 n"
    by (auto simp: P_def split: prod.splits)
  let ?top = "offset + n"
  let ?y = "u ! ?top + ucast carry" and ?u = "u'[?top := u ! ?top + ucast carry]"
  have run: "addBackAt u divisor n offset = Done ?u"
    using assms(2) l fr by (simp add: addBackAt_def loop zidx_Done zset_Done)
  have "unat carry < BB" using c by (simp add: limb_base_def)
  then have y: "unat ?y = (unat (u ! ?top) + unat carry) mod BB"
    by (simp add: unat_word_ariths limb_base_def)
  have "lval ?u offset (Suc n) = lval u' offset n + (unat (u ! ?top) + unat carry) mod BB * BB ^ n"
    using assms(2) l y by simp
  moreover have "\<dots> = (lval u' offset n + (unat (u ! ?top) + unat carry) * BB ^ n) mod BB ^ Suc n"
  proof -
    let ?t = "unat (u ! ?top) + unat carry"
    have "lval u' offset n + ?t mod BB * BB ^ n < BB ^ Suc n"
      using add_digit_less [OF lval_less [of u' offset n], of "?t mod BB" BB] by simp
    moreover have "?t * BB ^ n = ?t mod BB * BB ^ n + ?t div BB * BB ^ Suc n"
    proof -
      have "?t * BB ^ n = (?t div BB * BB + ?t mod BB) * BB ^ n" by (simp only: div_mult_mod_eq)
      then show ?thesis by (simp only: add_mult_distrib mult.assoc power_Suc add.commute)
    qed
    ultimately show ?thesis by (simp add: add.assoc [symmetric] del: power_Suc)
  qed
  moreover have "lval u' offset n + (unat (u ! ?top) + unat carry) * BB ^ n = lval u offset (Suc n) + lval divisor 0 n"
    using v by (simp add: algebra_simps)
  ultimately have "lval ?u offset (Suc n) = (lval u offset (Suc n) + lval divisor 0 n) mod BB ^ Suc n" by metis
  then show ?thesis using run l fr by (intro exI [of _ ?u]) auto
qed

text \<open>The estimate from the two highest limbs, its remainder, and whether that overflowed a limb.\<close>

definition trial_quotient :: "limbs \<Rightarrow> limbs \<Rightarrow> nat \<Rightarrow> nat \<Rightarrow> (unit, u64 \<times> u64 \<times> bool) outcome" where
  "trial_quotient u divisor divisor_len offset =
     zbind (zidx u (offset + divisor_len)) (\<lambda>ut.
     zbind (zidx divisor (divisor_len - 1)) (\<lambda>vt.
     zbind (zidx u (offset + divisor_len - 1)) (\<lambda>un.
     if ut = vt then Done (- 1, un + vt, 2 ^ 64 \<le> unat un + unat vt)
     else zbind (div128by64 ut un vt) (\<lambda>(q, r). Done (q, r, False)))))"

function correct_quotient :: "limbs \<Rightarrow> limbs \<Rightarrow> nat \<Rightarrow> nat \<Rightarrow> u64 \<Rightarrow> u64 \<Rightarrow> bool \<Rightarrow> (unit, u64) outcome" where
  "correct_quotient u divisor divisor_len offset qhat rhat rhat_overflow =
     (if rhat_overflow then Done qhat else
      zbind (zidx divisor (divisor_len - 2)) (\<lambda>vs.
      zbind (zmul (ucast qhat) (ucast vs)) (\<lambda>p :: u128.
      zbind (zidx u (offset + divisor_len - 2)) (\<lambda>us.
      if push_bit 64 (ucast rhat) OR ucast us < p then
        zbind (zidx divisor (divisor_len - 1)) (\<lambda>vt.
          correct_quotient u divisor divisor_len offset (qhat - 1) (rhat + vt) (2 ^ 64 \<le> unat rhat + unat vt))
      else Done qhat))))"
  by pat_completeness auto
termination
proof (relation "measure (\<lambda>(u, divisor, divisor_len, offset, qhat, rhat, over). unat qhat)", goal_cases)
  case (2 u divisor divisor_len offset qhat rhat over vs p us vt)
  then have "p = ucast qhat * ucast vs" "p \<noteq> 0" by (auto simp: zmul_def split: if_splits)
  then have "qhat \<noteq> 0" by auto
  then show ?case by (simp add: unat_minus_one unat_gt_0)
qed simp

declare correct_quotient.simps [simp del]

lemma trial_above:
  fixes q :: nat
  assumes "W < Suc U * P" "V * P \<le> D" "U < q * V"
  shows "W div D < q"
proof -
  have "Suc U * P \<le> q * V * P" using assms(3) by (intro mult_right_mono) auto
  also have "\<dots> \<le> q * D" unfolding mult.assoc using assms(2) by (intro mult_left_mono) auto
  finally have "W < q * D" using assms(1) by linarith
  then show ?thesis by (simp add: less_mult_imp_div_less)
qed

lemma trial_exit:
  fixes q :: nat
  assumes "U * P \<le> W" "D < Suc V * P" "q * V \<le> U" "q * P \<le> D" "0 < D"
  shows "q * D < W + D \<or> q = 0"
proof (cases "q = 0")
  case False
  have "q * D < q * (Suc V * P)" using assms(2) False by simp
  also have "\<dots> = q * V * P + q * P" by (simp add: algebra_simps)
  also have "\<dots> \<le> U * P + D" using assms(3,4) by (intro add_mono mult_right_mono) auto
  finally show ?thesis using assms(1) by linarith
qed simp

lemma unat_two_limbs: "unat (push_bit 64 (ucast (x :: u64)) OR ucast (y :: u64) :: u128) = unat x * BB + unat y"
proof -
  let ?a = "push_bit 64 (ucast x) :: u128"
  have xy: "unat x * BB + unat y < 2 ^ LENGTH(128)"
    using add_digit_less [of "unat y" BB "unat x" BB] by (intro u128_bound) (simp add: add.commute)
  then have "unat x * 2 ^ 64 < 2 ^ 128" by (simp add: limb_base_def)
  then have a: "unat ?a = unat x * BB"
    unfolding unsigned_push_bit_eq by (simp add: push_bit_eq_mult take_bit_nat_eq_self limb_base_def)
  have "?a AND ucast y = 0" by (rule bit_eqI) (auto simp: bit_simps dest: bit_imp_le_length)
  then show ?thesis using unat_or_disjoint [of ?a "ucast y"] xy a by simp
qed

lemma lval_top2: "lval u off (Suc (Suc k)) =
    lval u off k + (unat (u ! (off + Suc k)) * BB + unat (u ! (off + k))) * BB ^ k"
  by (simp add: algebra_simps)

lemma lval_top3: "lval u off (Suc (Suc (Suc k))) =
    lval u off k + ((unat (u ! (off + Suc (Suc k))) * BB + unat (u ! (off + Suc k))) * BB + unat (u ! (off + k))) * BB ^ k"
  by (simp add: algebra_simps)

lemma correct_quotient_exact:
  fixes u divisor :: limbs and k offset :: nat
  defines "W \<equiv> lval u offset (Suc (Suc (Suc k)))" and "D \<equiv> lval divisor 0 (Suc (Suc k))"
  defines "ut \<equiv> unat (u ! (offset + Suc (Suc k)))" and "um \<equiv> unat (u ! (offset + Suc k))"
  defines "vt \<equiv> unat (divisor ! Suc k)"
  assumes len: "Suc (Suc k) \<le> length divisor" "offset + Suc (Suc k) < length u" and vt: "0 < vt"
  shows "unat qhat * vt + rt = ut * BB + um \<Longrightarrow> over \<longleftrightarrow> BB \<le> rt \<Longrightarrow> unat rhat = rt mod BB \<Longrightarrow> W div D \<le> unat qhat \<Longrightarrow>
    \<exists>q. correct_quotient u divisor (Suc (Suc k)) offset qhat rhat over = Done q \<and>
      W div D \<le> unat q \<and> unat q * D < W + D"
proof (induction "unat qhat" arbitrary: qhat rhat rt over rule: less_induct)
  case less
  define vs where "vs = unat (divisor ! k)"
  define us where "us = unat (u ! (offset + k))"
  let ?U = "(ut * BB + um) * BB + us" and ?V = "vt * BB + vs" and ?P = "BB ^ k"
  have W: "W = lval u offset k + ?U * ?P" unfolding W_def lval_top3 ut_def um_def us_def ..
  have D: "D = lval divisor 0 k + ?V * ?P" unfolding D_def lval_top2 vt_def vs_def by simp
  have bounds: "W < Suc ?U * ?P" "?U * ?P \<le> W" "?V * ?P \<le> D" "D < Suc ?V * ?P"
    using lval_less [of u offset k] lval_less [of divisor 0 k] unfolding W D by simp_all
  have qP: "unat q * ?P \<le> D" for q :: u64
  proof -
    have "unat q * ?P \<le> 1 * BB * ?P" by (intro mult_right_mono) (auto intro: less_imp_le)
    also have "\<dots> \<le> vt * BB * ?P" using vt by (intro mult_right_mono) auto
    also have "\<dots> \<le> ?V * ?P" by simp
    finally show ?thesis using bounds(3) by linarith
  qed
  have "0 < vt * BB * ?P" using vt by simp
  then have Dpos: "0 < D" using bounds(3) unfolding add_mult_distrib by linarith
  have sum: "unat qhat * ?V = (unat qhat * vt) * BB + unat qhat * vs" by (simp add: algebra_simps)
  have US: "?U = (unat qhat * vt) * BB + rt * BB + us"
    using less.prems(1) by (simp add: add_mult_distrib [symmetric])
  have exit: "unat qhat * D < W + D" if "unat qhat * vs \<le> rt * BB + us"
  proof -
    have "unat qhat * ?V \<le> ?U" unfolding sum US using that by linarith
    then show ?thesis using trial_exit [OF bounds(2,4) _ qP Dpos, of qhat] Dpos by auto
  qed
  show ?case
  proof (cases over)
    case True
    have "unat qhat * vs \<le> BB * BB" using limb_less [of qhat] limb_less [of "divisor ! k"]
      unfolding vs_def by (intro mult_mono) (auto intro: less_imp_le)
    also have "\<dots> \<le> rt * BB" using True less.prems(2) by (intro mult_right_mono) auto
    finally show ?thesis using exit True less.prems(4) by (auto simp: correct_quotient.simps)
  next
    case False
    then have rt: "rt < BB" "unat rhat = rt" using less.prems(2,3) by auto
    have "unat qhat * vs + 0 + 0 < BB * BB" unfolding vs_def by (intro limb_product) simp_all
    then have m: "unat (ucast qhat :: u128) * unat (ucast (divisor ! k) :: u128) < 2 ^ LENGTH(128)"
      by (intro u128_bound) (simp add: vs_def)
    have p: "unat (ucast qhat * ucast (divisor ! k) :: u128) = unat qhat * vs"
      using unat_times [OF m] by (simp add: vs_def)
    have cmp: "push_bit 64 (ucast rhat) OR ucast (u ! (offset + k)) < (ucast qhat * ucast (divisor ! k) :: u128) \<longleftrightarrow>
        rt * BB + us < unat qhat * vs"
      unfolding word_less_nat_alt unat_two_limbs p us_def rt(2) ..
    have ix: "Suc (Suc k) - 2 = k" "offset + Suc (Suc k) - 2 = offset + k" "Suc (Suc k) - 1 = Suc k" by simp_all
    have run: "correct_quotient u divisor (Suc (Suc k)) offset qhat rhat over =
        (if rt * BB + us < unat qhat * vs then
           correct_quotient u divisor (Suc (Suc k)) offset (qhat - 1) (rhat + divisor ! Suc k) (2 ^ 64 \<le> unat rhat + unat (divisor ! Suc k))
         else Done qhat)"
      using False len by (subst correct_quotient.simps) (simp add: ix zidx_Done zmul_Done [OF m] cmp)
    show ?thesis
    proof (cases "rt * BB + us < unat qhat * vs")
      case False
      then show ?thesis using exit less.prems(4) unfolding run by simp
    next
      case True
      then have "?U < unat qhat * ?V" unfolding sum US by linarith
      then have above: "W div D < unat qhat" by (rule trial_above [OF bounds(1,3)])
      then have q1: "unat (qhat - 1) = unat qhat - 1" using unat_minus [of 1 qhat] by simp
      have "unat qhat = Suc (unat qhat - 1)" using above by simp
      then have "unat qhat * vt = (unat qhat - 1) * vt + vt" by (metis mult_Suc add.commute)
      then have inv: "unat (qhat - 1) * vt + (rt + vt) = ut * BB + um"
        unfolding q1 using less.prems(1) by linarith
      have r: "unat (rhat + divisor ! Suc k) = (rt + vt) mod BB"
        using rt(2) by (simp add: unat_word_ariths vt_def limb_base_def)
      have ov: "2 ^ 64 \<le> unat rhat + unat (divisor ! Suc k) \<longleftrightarrow> BB \<le> rt + vt"
        using rt(2) by (simp add: vt_def limb_base_def)
      have "unat (qhat - 1) < unat qhat" "W div D \<le> unat (qhat - 1)" unfolding q1 using above by linarith+
      from less.hyps [OF this(1) inv ov r this(2)] show ?thesis unfolding run using True by simp
    qed
  qed
qed

text \<open>The digit tried at an offset: lines 682--706, and in the same words lines 486--510.\<close>

definition quotient_estimate :: "limbs \<Rightarrow> limbs \<Rightarrow> nat \<Rightarrow> nat \<Rightarrow> (unit, u64) outcome" where
  "quotient_estimate u divisor divisor_len offset =
     zbind (trial_quotient u divisor divisor_len offset) (\<lambda>(qhat, rhat, rhat_overflow).
     if 2 \<le> divisor_len then correct_quotient u divisor divisor_len offset qhat rhat rhat_overflow
     else Done qhat)"

lemma quotient_estimate_exact:
  fixes u divisor :: limbs and k offset :: nat
  defines "W \<equiv> lval u offset (Suc (Suc (Suc k)))" and "D \<equiv> lval divisor 0 (Suc (Suc k))"
  assumes len: "Suc (Suc k) \<le> length divisor" "offset + Suc (Suc k) < length u"
    and vt: "divisor ! Suc k \<noteq> 0" and W: "W < D * BB"
  shows "\<exists>q. quotient_estimate u divisor (Suc (Suc k)) offset = Done q \<and> W div D \<le> unat q \<and> unat q * D < W + D"
proof -
  let ?ut = "u ! (offset + Suc (Suc k))" and ?um = "u ! (offset + Suc k)" and ?vt = "divisor ! Suc k"
  let ?A = "unat ?ut * BB + unat ?um" and ?P = "BB ^ Suc k"
  have Weq: "W = lval u offset (Suc k) + ?A * ?P" unfolding W_def lval_top2 ..
  have Deq: "D = lval divisor 0 (Suc k) + unat ?vt * ?P" unfolding D_def by simp
  have bounds: "W < Suc ?A * ?P" "unat ?vt * ?P \<le> D" "D < Suc (unat ?vt) * ?P"
    using lval_less [of u offset "Suc k"] lval_less [of divisor 0 "Suc k"] unfolding Weq Deq by simp_all
  have pos: "0 < unat ?vt" using vt by (simp add: unat_gt_0)
  have "unat ?ut * BB * ?P \<le> W" unfolding Weq add_mult_distrib by simp
  also have "W < Suc (unat ?vt) * ?P * BB" using W bounds(3) by (meson less_trans mult_strict_right_mono BB_pos(1))
  finally have "unat ?ut * (BB * ?P) < Suc (unat ?vt) * (BB * ?P)" by (simp only: ac_simps)
  then have "unat ?ut < Suc (unat ?vt)" by (rule mult_less_cancel2 [THEN iffD1, THEN conjunct2])
  then have top_le: "unat ?ut \<le> unat ?vt" by simp
  have ix: "Suc (Suc k) - 1 = Suc k" "offset + Suc (Suc k) - 1 = offset + Suc k" by simp_all
  have "\<exists>qhat rhat over rt. trial_quotient u divisor (Suc (Suc k)) offset = Done (qhat, rhat, over) \<and>
      unat qhat * unat ?vt + rt = ?A \<and> (over \<longleftrightarrow> BB \<le> rt) \<and> unat rhat = rt mod BB \<and> W div D \<le> unat qhat"
  proof (cases "?ut = ?vt")
    case True
    have m: "unat (- 1 :: u64) = BB - 1" by (simp add: limb_base_def)
    have "(BB - 1) * unat ?vt + unat ?vt = BB * unat ?vt" by (simp add: algebra_simps)
    then have "unat (- 1 :: u64) * unat ?vt + (unat ?um + unat ?vt) = ?A"
      unfolding m True by (simp add: mult.commute)
    moreover have "W div D \<le> unat (- 1 :: u64)"
    proof -
      have "W div D < BB" using W by (simp add: less_mult_imp_div_less mult.commute)
      then show ?thesis unfolding m by linarith
    qed
    moreover have "unat (?um + ?vt) = (unat ?um + unat ?vt) mod BB"
      by (simp add: unat_word_ariths limb_base_def)
    moreover have "trial_quotient u divisor (Suc (Suc k)) offset = Done (- 1, ?um + ?vt, BB \<le> unat ?um + unat ?vt)"
      using True len by (simp add: trial_quotient_def ix zidx_Done limb_base_def)
    ultimately show ?thesis by blast
  next
    case False
    then have "unat ?ut \<noteq> unat ?vt" by (simp add: word_unat_eq_iff)
    with top_le have "?ut < ?vt" by (simp add: word_less_nat_alt)
    then obtain q r where t: "div128by64 ?ut ?um ?vt = Done (q, r)" "unat q = ?A div unat ?vt" "unat r = ?A mod unat ?vt"
      using div128by64_exact [of ?ut ?vt ?um] by blast
    have r: "\<not> BB \<le> unat r" by (simp add: not_le)
    have inv: "unat q * unat ?vt + unat r = ?A" unfolding t by simp
    have "?A < Suc (unat q) * unat ?vt" using dividend_less_div_times [OF pos, of ?A] unfolding t by simp
    then have "W div D < Suc (unat q)" by (rule trial_above [OF bounds(1,2)])
    moreover have "trial_quotient u divisor (Suc (Suc k)) offset = Done (q, r, False)"
      using False len t(1) by (simp add: trial_quotient_def ix zidx_Done)
    ultimately have "trial_quotient u divisor (Suc (Suc k)) offset = Done (q, r, False) \<and>
        unat q * unat ?vt + unat r = ?A \<and> (False \<longleftrightarrow> BB \<le> unat r) \<and> unat r = unat r mod BB \<and> W div D \<le> unat q"
      using inv r by simp
    then show ?thesis by blast
  qed
  then obtain qhat rhat over rt where t: "trial_quotient u divisor (Suc (Suc k)) offset = Done (qhat, rhat, over)"
    and inv: "unat qhat * unat ?vt + rt = ?A" "over \<longleftrightarrow> BB \<le> rt" "unat rhat = rt mod BB" "W div D \<le> unat qhat" by blast
  from correct_quotient_exact [OF len pos inv(1,2,3), folded W_def D_def, OF inv(4)]
  show ?thesis by (simp add: quotient_estimate_def t)
qed

lemma digit_exact:
  fixes u divisor :: limbs and k offset :: nat
  defines "n \<equiv> Suc (Suc k)"
  defines "W \<equiv> lval u offset (Suc n)" and "D \<equiv> lval divisor 0 n"
  assumes len: "n \<le> length divisor" "offset + n < length u"
    and vt: "divisor ! Suc k \<noteq> 0" and W: "W < D * BB"
  shows "\<exists>q u1 neg u2. quotient_estimate u divisor n offset = Done q \<and> mulSubAt u divisor n offset q = Done (u1, neg) \<and>
    (if neg then addBackAt u1 divisor n offset else Done u1) = Done u2 \<and>
    unat (if neg then q - 1 else q) = W div D \<and> length u2 = length u \<and>
    (\<forall>j. j < offset \<or> offset + n < j \<longrightarrow> u2 ! j = u ! j) \<and> lval u2 offset (Suc n) = W mod D"
proof -
  have Dpos: "0 < D"
  proof -
    have "0 < unat (divisor ! Suc k) * BB ^ Suc k" using vt by (simp add: unat_gt_0)
    then show ?thesis unfolding D_def n_def by simp
  qed
  have Wlt: "W < BB ^ Suc n" unfolding W_def by (rule lval_less)
  obtain q where q: "quotient_estimate u divisor n offset = Done q" "W div D \<le> unat q" "unat q * D < W + D"
    using quotient_estimate_exact [of k divisor offset u] len vt W unfolding n_def W_def D_def by blast
  obtain u1 neg where ms: "mulSubAt u divisor n offset q = Done (u1, neg)" "length u1 = length u"
    "\<forall>j. j < offset \<or> offset + n < j \<longrightarrow> u1 ! j = u ! j" "neg \<longleftrightarrow> W < unat q * D"
    and v: "lval u1 offset (Suc n) + unat q * D = W + (if neg then BB ^ Suc n else 0)"
    using mulSubAt_exact [OF len, of q] unfolding W_def D_def by blast
  have mod: "W = W div D * D + W mod D" by simp
  show ?thesis
  proof (cases neg)
    case False
    then have "unat q * D \<le> W" using ms(4) by simp
    then have "unat q \<le> W div D" using Dpos by (simp add: less_eq_div_iff_mult_less_eq)
    then have eq: "unat q = W div D" using q(2) by simp
    have "lval u1 offset (Suc n) + unat q * D = W" using v False by (simp del: lval.simps)
    then have "lval u1 offset (Suc n) = W mod D" using mod unfolding eq by linarith
    then show ?thesis using q(1) ms False eq by auto
  next
    case True
    then have gt: "W < unat q * D" using ms(4) by simp
    then have "W div D < unat q" by (simp add: less_mult_imp_div_less)
    moreover have "unat q \<le> Suc (W div D)"
    proof (rule ccontr)
      assume "\<not> unat q \<le> Suc (W div D)"
      then have "Suc (Suc (W div D)) * D \<le> unat q * D" by (intro mult_right_mono) auto
      moreover have "W < Suc (W div D) * D" using dividend_less_div_times [OF Dpos, of W] by simp
      ultimately show False using q(3) by simp
    qed
    ultimately have eq: "unat q = Suc (W div D)" by simp
    then have q1: "unat (q - 1) = W div D" using unat_minus [of 1 q] by simp
    obtain u2 where ab: "addBackAt u1 divisor n offset = Done u2" "length u2 = length u1"
      "\<forall>j. j < offset \<or> offset + n < j \<longrightarrow> u2 ! j = u1 ! j"
      and v2: "lval u2 offset (Suc n) = (lval u1 offset (Suc n) + D) mod BB ^ Suc n"
      using addBackAt_exact [of n divisor offset u1] len ms(2) unfolding D_def by auto
    have "lval u1 offset (Suc n) + D + W div D * D = W + BB ^ Suc n" using v True unfolding eq by simp
    then have "lval u1 offset (Suc n) + D = W mod D + BB ^ Suc n" using mod by linarith
    moreover have "W mod D < BB ^ Suc n" using Wlt mod_less_eq_dividend [of W D] by linarith
    ultimately have "lval u2 offset (Suc n) = W mod D" unfolding v2 by simp
    then show ?thesis using q(1) ms(1,2,3) ab True q1 by auto
  qed
qed

end
