(* ===== verification/Zig_Long_Division.thy ===== *)
theory Zig_Long_Division
  imports Zig_Knuth
begin

text \<open>
  Division and remainder of multi-limb integers, and the full product, of \<^verbatim>\<open>src/src/uint256.zig\<close>:
  normalization, the digits from the highest offset down, the remainder shifted back, and the
  dispatch on the number of limbs.
\<close>

section \<open>Normalization\<close>

definition shift_step :: "nat \<Rightarrow> limbs \<Rightarrow> nat \<Rightarrow> limbs \<Rightarrow> (unit, limbs) outcome" where
  "shift_step shift src i dst =
     zbind (zidx src i) (\<lambda>x. zbind (zidx src (i - 1)) (\<lambda>y.
     zset dst i (push_bit shift x OR drop_bit (64 - shift) y)))"

definition shift_limbs :: "nat \<Rightarrow> limbs \<Rightarrow> nat \<Rightarrow> limbs \<Rightarrow> (unit, limbs) outcome" where
  "shift_limbs shift src n dst =
     zbind (zidx src 0) (\<lambda>x. zbind (zset dst 0 (push_bit shift x))
       (zfor (\<lambda>j. shift_step shift src (Suc j)) (n - 1)))"

definition shift_top :: "nat \<Rightarrow> limbs \<Rightarrow> nat \<Rightarrow> limbs \<Rightarrow> (unit, limbs) outcome" where
  "shift_top shift src n dst = zbind (zidx src (n - 1)) (\<lambda>x. zset dst n (drop_bit (64 - shift) x))"

text \<open>The first \<open>n\<close> limbs of an array, with zeros or the old limbs behind them.\<close>

definition copy_step :: "bool \<Rightarrow> limbs \<Rightarrow> nat \<Rightarrow> nat \<Rightarrow> limbs \<Rightarrow> (unit, limbs) outcome" where
  "copy_step fill src n i dst = (if i < n then zbind (zidx src i) (zset dst i) else if fill then zset dst i 0 else Done dst)"

lemma copy_loop:
  assumes "k \<le> length dst" "n \<le> length src"
  shows "\<exists>dst'. zfor (copy_step fill src n) k dst = Done dst' \<and> length dst' = length dst \<and>
    (\<forall>i<k. dst' ! i = (if i < n then src ! i else if fill then 0 else dst ! i)) \<and> (\<forall>i\<ge>k. dst' ! i = dst ! i)"
  by (rule zfor_inv) (use assms in \<open>auto simp: copy_step_def zidx_Done zset_Done less_Suc_eq nth_list_update\<close>)

lemma shift_limbs_exact:
  assumes s: "0 < shift" "shift < 64" and n: "0 < n" "n \<le> length src" "n \<le> length dst"
  shows "\<exists>dst'. shift_limbs shift src n dst = Done dst' \<and> length dst' = length dst \<and> (\<forall>i\<ge>n. dst' ! i = dst ! i) \<and>
    lval dst' 0 n + unat (src ! (n - 1)) div 2 ^ (64 - shift) * BB ^ n = lval src 0 n * 2 ^ shift"
proof -
  define P where "P j dst' \<longleftrightarrow> length dst' = length dst \<and> (\<forall>i>j. dst' ! i = dst ! i) \<and>
    lval dst' 0 (Suc j) + unat (src ! j) div 2 ^ (64 - shift) * BB ^ Suc j = lval src 0 (Suc j) * 2 ^ shift"
    for j and dst' :: limbs
  have sp: "unat x * 2 ^ shift = unat x div 2 ^ (64 - shift) * BB + unat x mod 2 ^ (64 - shift) * 2 ^ shift" for x :: u64
    using split_shift [of shift "unat x"] s by simp
  have "\<exists>dst'. zfor (\<lambda>j. shift_step shift src (Suc j)) (n - 1) (dst[0 := push_bit shift (src ! 0)]) = Done dst' \<and> P (n - 1) dst'"
  proof (rule zfor_inv)
    have "dst[0 := push_bit shift (src ! 0)] ! 0 = push_bit shift (src ! 0)" using n by (intro nth_list_update_eq) linarith
    then show "P 0 (dst[0 := push_bit shift (src ! 0)])"
      using n s sp [of "src ! 0"] by (simp add: P_def unat_push_bit_64 mod_shift)
    fix j dst' assume j: "j < n - 1" and P: "P j dst'"
    let ?x = "src ! Suc j" and ?y = "src ! j"
    let ?z = "push_bit shift ?x OR drop_bit (64 - shift) ?y"
    have z: "unat ?z = unat ?x mod 2 ^ (64 - shift) * 2 ^ shift + unat ?y div 2 ^ (64 - shift)"
      by (rule unat_shift_pair [OF s])
    have len: "Suc j < length dst'" using P j n by (simp add: P_def)
    have "lval (dst'[Suc j := ?z]) 0 (Suc (Suc j)) + unat ?x div 2 ^ (64 - shift) * BB ^ Suc (Suc j) =
        lval dst' 0 (Suc j) + unat ?y div 2 ^ (64 - shift) * BB ^ Suc j +
        (unat ?x div 2 ^ (64 - shift) * BB + unat ?x mod 2 ^ (64 - shift) * 2 ^ shift) * BB ^ Suc j"
      using len z by (simp add: algebra_simps)
    also have "\<dots> = lval src 0 (Suc (Suc j)) * 2 ^ shift"
      using P unfolding P_def sp [symmetric] by (simp add: algebra_simps)
    finally have "P (Suc j) (dst'[Suc j := ?z])" using P by (simp add: P_def)
    then show "\<exists>s'. shift_step shift src (Suc j) dst' = Done s' \<and> P (Suc j) s'"
      using len j n by (simp add: shift_step_def zidx_Done zset_Done)
  qed
  then obtain dst' where d: "zfor (\<lambda>j. shift_step shift src (Suc j)) (n - 1) (dst[0 := push_bit shift (src ! 0)]) = Done dst'"
    "P (n - 1) dst'" by blast
  moreover have "Suc (n - 1) = n" using n by simp
  moreover have "zidx src 0 = (Done (src ! 0) :: (unit, u64) outcome)"
    "zset dst 0 (push_bit shift (src ! 0)) = (Done (dst[0 := push_bit shift (src ! 0)]) :: (unit, limbs) outcome)"
    using less_le_trans [OF n(1,2)] less_le_trans [OF n(1,3)] by (simp_all only: zidx_Done zset_Done)
  ultimately show ?thesis unfolding P_def shift_limbs_def by (intro exI [of _ dst']) auto
qed

section \<open>The digits\<close>

lemma reduce_step:
  fixes u divisor :: limbs and k i :: nat
  defines "n \<equiv> Suc (Suc k)"
  defines "D \<equiv> lval divisor 0 n"
  assumes len: "n \<le> length divisor" "i + n < length u" and vt: "divisor ! Suc k \<noteq> 0"
    and inv: "lval u 0 (Suc i + n) + D * Q = X" "lval u 0 (Suc i + n) < D * BB ^ Suc i"
  shows "\<exists>q u1 neg u2. quotient_estimate u divisor n i = Done q \<and> mulSubAt u divisor n i q = Done (u1, neg) \<and>
    (if neg then addBackAt u1 divisor n i else Done u1) = Done u2 \<and> length u2 = length u \<and>
    lval u2 0 (i + n) + D * (Q + unat (if neg then q - 1 else q) * BB ^ i) = X \<and> lval u2 0 (i + n) < D * BB ^ i"
proof -
  define W where "W = lval u i (Suc n)"
  have split: "lval u 0 (Suc i + n) = lval u 0 i + BB ^ i * W"
    using lval_split [of u 0 i "Suc n"] unfolding W_def by simp
  have "W * BB ^ i \<le> lval u 0 (Suc i + n)" unfolding split by (simp add: mult.commute)
  also have "\<dots> < D * BB * BB ^ i" using inv(2) by (simp only: power_Suc mult.assoc)
  finally have "W * BB ^ i < D * BB * BB ^ i" .
  then have W: "W < D * BB" by simp
  obtain q u1 neg u2 where d: "quotient_estimate u divisor n i = Done q" "mulSubAt u divisor n i q = Done (u1, neg)"
    "(if neg then addBackAt u1 divisor n i else Done u1) = Done u2" "length u2 = length u"
    and q: "unat (if neg then q - 1 else q) = W div D"
    and fr: "\<forall>j. j < i \<or> i + n < j \<longrightarrow> u2 ! j = u ! j" and v: "lval u2 i (Suc n) = W mod D"
    using digit_exact [of k divisor i u] len vt W unfolding n_def D_def W_def by blast
  have Dlt: "D < BB ^ n" unfolding D_def by (rule lval_less)
  have Dpos: "0 < D" using W by (cases "D = 0") auto
  then have "lval u2 i (Suc n) < BB ^ n" unfolding v using Dlt by (meson less_trans mod_less_divisor)
  then have vn: "lval u2 i n = W mod D" using lval_top v by metis
  have low: "lval u2 0 i = lval u 0 i" using fr by (intro lval_frame) auto
  have new: "lval u2 0 (i + n) = lval u 0 i + BB ^ i * (W mod D)"
    using lval_split [of u2 0 i n] unfolding low by (simp add: vn)
  have "W = W div D * D + W mod D" by simp
  then have "BB ^ i * W = BB ^ i * (W div D * D + W mod D)" by metis
  then have "lval u2 0 (i + n) + D * (Q + W div D * BB ^ i) = lval u 0 i + BB ^ i * W + D * Q"
    unfolding new by (simp only: algebra_simps)
  then have "lval u2 0 (i + n) + D * (Q + unat (if neg then q - 1 else q) * BB ^ i) = X"
    unfolding q using inv(1) split by simp
  moreover have "lval u2 0 (i + n) < D * BB ^ i"
    unfolding new using add_digit_less [OF lval_less [of u 0 i], of "W mod D" D] Dpos
    by (simp add: mult.commute)
  ultimately show ?thesis using d by blast
qed

text \<open>
  The scaled divisor and numerator. \<open>d0\<close> and \<open>u0\<close> are the arrays before: undefined, or cleared where
  the code clears them; \<open>fill\<close> says whether limbs behind the divisor are cleared in the unscaled case.
\<close>

definition normalize_limbs :: "bool \<Rightarrow> limbs \<Rightarrow> limbs \<Rightarrow> limbs \<Rightarrow> nat \<Rightarrow> limbs \<Rightarrow> nat \<Rightarrow> nat \<Rightarrow> (unit, limbs \<times> limbs) outcome" where
  "normalize_limbs fill d0 u0 numerator numerator_len divisor_in divisor_len shift =
     (if shift = 0 then
        zbind (zfor (copy_step fill divisor_in divisor_len) 4 d0) (\<lambda>divisor.
        zbind (zfor (copy_step True numerator numerator_len) (length numerator) u0) (\<lambda>u.
        zbind (zset u (length numerator) 0) (\<lambda>u. Done (divisor, u))))
      else
        zbind (shift_limbs shift divisor_in divisor_len d0) (\<lambda>divisor.
        zbind (shift_limbs shift numerator numerator_len u0) (\<lambda>u.
        zbind (shift_top shift numerator numerator_len u) (\<lambda>u. Done (divisor, u)))))"

lemma scaled_bounds:
  assumes "d ! k \<noteq> (0 :: u64)" and s: "s = clz 64 (d ! k)" and N: "N = Suc k + m"
  shows "s < 64" "unat (d ! k) div 2 ^ (64 - s) = 0" "2 ^ 63 * BB ^ k \<le> lval d 0 (Suc k) * 2 ^ s"
    "lval num 0 N * 2 ^ s < lval d 0 (Suc k) * 2 ^ s * BB ^ Suc m"
proof -
  note nz = normalized [OF assms(1), folded s]
  show s64: "s < 64" and "unat (d ! k) div 2 ^ (64 - s) = 0" using nz by simp_all
  have "2 ^ 63 * BB ^ k \<le> unat (d ! k) * 2 ^ s * BB ^ k" using nz(3) by (intro mult_right_mono) simp_all
  also have "\<dots> = (unat (d ! k) * BB ^ k) * 2 ^ s" by (simp only: ac_simps)
  also have "\<dots> \<le> lval d 0 (Suc k) * 2 ^ s" by (intro mult_right_mono) simp_all
  finally show low: "2 ^ 63 * BB ^ k \<le> lval d 0 (Suc k) * 2 ^ s" .
  have "lval num 0 N * 2 ^ s < BB ^ N * 2 ^ s" using lval_less [of num 0 N] by simp
  also have "\<dots> \<le> BB ^ N * 2 ^ 63" using s64 by (intro mult_left_mono power_increasing) auto
  also have "\<dots> = (2 ^ 63 * BB ^ k) * BB ^ Suc m" 
  proof -
    have "BB ^ N = BB ^ k * BB ^ Suc m" unfolding N by (simp add: power_add)
    then show ?thesis by (simp only: ac_simps)
  qed
  also have "\<dots> \<le> lval d 0 (Suc k) * 2 ^ s * BB ^ Suc m" using low by (intro mult_right_mono) simp_all
  finally show "lval num 0 N * 2 ^ s < lval d 0 (Suc k) * 2 ^ s * BB ^ Suc m" .
qed

lemma top_nonzero: "BB ^ k \<le> lval d 0 (Suc k) \<Longrightarrow> d ! k \<noteq> 0"
  using lval_less [of d 0 k] by auto

lemma normalize_exact:
  assumes top: "din ! k \<noteq> 0" and s: "s = clz 64 (din ! k)" and N: "N = Suc k + m"
    and len: "Suc k \<le> 4" "length din = 4" "length d0 = 4" "N \<le> length num" "length u0 = Suc (length num)"
  shows "\<exists>divisor u. normalize_limbs fill d0 u0 num N din (Suc k) s = Done (divisor, u) \<and>
    length divisor = 4 \<and> length u = Suc (length num) \<and> lval divisor 0 (Suc k) = lval din 0 (Suc k) * 2 ^ s \<and>
    divisor ! k \<noteq> 0 \<and> lval u 0 (Suc N) = lval num 0 N * 2 ^ s"
proof -
  note b = scaled_bounds [OF top s N]
  have "\<exists>divisor u. normalize_limbs fill d0 u0 num N din (Suc k) s = Done (divisor, u) \<and>
    length divisor = 4 \<and> length u = Suc (length num) \<and> lval divisor 0 (Suc k) = lval din 0 (Suc k) * 2 ^ s \<and>
    lval u 0 (Suc N) = lval num 0 N * 2 ^ s"
  proof (cases "s = 0")
    case True
    obtain divisor where d: "zfor (copy_step fill din (Suc k)) 4 d0 = Done divisor" "length divisor = 4"
      "\<forall>i<4. divisor ! i = (if i < Suc k then din ! i else if fill then 0 else d0 ! i)"
      using copy_loop [of 4 d0 "Suc k" din fill] len by auto
    obtain u where u: "zfor (copy_step True num N) (length num) u0 = Done u" "length u = Suc (length num)"
      "\<forall>i<length num. u ! i = (if i < N then num ! i else 0)"
      using copy_loop [of "length num" u0 N num True] len by auto
    have "lval divisor 0 (Suc k) = lval din 0 (Suc k)" using d(3) len(1) by (intro lval_frame) auto
    moreover have "lval (u[length num := 0]) 0 N = lval num 0 N"
      using u(3) len(4) by (intro lval_frame) auto
    moreover have "u[length num := 0] ! N = 0" using u(2,3) len(4) by (cases "N = length num") auto
    ultimately show ?thesis using True d u by (simp add: normalize_limbs_def zset_Done)
  next
    case False
    then have pos: "0 < s" by simp
    obtain divisor where d: "shift_limbs s din (Suc k) d0 = Done divisor" "length divisor = 4"
      "lval divisor 0 (Suc k) = lval din 0 (Suc k) * 2 ^ s"
      using shift_limbs_exact [OF pos b(1), of "Suc k" din d0] len b(2) by auto
    obtain u where u: "shift_limbs s num N u0 = Done u" "length u = Suc (length num)"
      and v: "lval u 0 N + unat (num ! (N - 1)) div 2 ^ (64 - s) * BB ^ N = lval num 0 N * 2 ^ s"
      using shift_limbs_exact [OF pos b(1), of N num u0] len N by auto
    let ?u = "u[N := drop_bit (64 - s) (num ! (N - 1))]"
    have ix: "N - 1 < length num" "N < length u" using N len(4) u(2) by auto
    have "shift_top s num N u = Done ?u" unfolding shift_top_def zidx_Done [OF ix(1)] by (simp add: zset_Done [OF ix(2)])
    moreover have "lval ?u 0 (Suc N) = lval num 0 N * 2 ^ s"
      using ix(2) by (simp add: v [symmetric] unat_drop_bit)
    ultimately show ?thesis using False d u by (simp add: normalize_limbs_def)
  qed
  moreover have "divisor ! k \<noteq> 0" if "lval divisor 0 (Suc k) = lval din 0 (Suc k) * 2 ^ s" for divisor :: limbs
  proof (rule top_nonzero)
    have "1 * BB ^ k \<le> 2 ^ 63 * BB ^ k" by (intro mult_right_mono) simp_all
    then show "BB ^ k \<le> lval divisor 0 (Suc k)" using b(3) that by linarith
  qed
  ultimately show ?thesis by blast
qed

section \<open>The remainder, shifted back\<close>

definition unnormalize_step :: "limbs \<Rightarrow> nat \<Rightarrow> nat \<Rightarrow> nat \<Rightarrow> limbs \<Rightarrow> (unit, limbs) outcome" where
  "unnormalize_step u divisor_len shift i out =
     (if i < divisor_len then
        zbind (if Suc i < divisor_len then zbind (zidx u (Suc i)) (\<lambda>x. Done (push_bit (64 - shift) x)) else Done 0) (\<lambda>upper.
        zbind (zidx u i) (\<lambda>x. zset out i (drop_bit shift x OR upper)))
      else Done out)"

definition unnormalizeRemainder :: "limbs \<Rightarrow> nat \<Rightarrow> nat \<Rightarrow> (unit, limbs) outcome" where
  "unnormalizeRemainder u divisor_len shift =
     (if shift = 0 then zfor (copy_step False u divisor_len) 4 (clearLimbs 4)
      else zfor (unnormalize_step u divisor_len shift) 4 (clearLimbs 4))"

lemma clearLimbs_simps [simp]: "length (clearLimbs n) = n" "i < n \<Longrightarrow> clearLimbs n ! i = 0"
  by (simp_all add: clearLimbs_def)

lemma unnormalize_exact:
  assumes s: "shift < 64" and n: "0 < n" "n \<le> 4" "n \<le> length u"
  shows "\<exists>out. unnormalizeRemainder u n shift = Done out \<and> length out = 4 \<and> lval out 0 4 = lval u 0 n div 2 ^ shift"
proof (cases "shift = 0")
  case True
  obtain out where out: "zfor (copy_step False u n) 4 (clearLimbs 4) = Done out" "length out = 4"
    "\<forall>i<4. out ! i = (if i < n then u ! i else clearLimbs 4 ! i)"
    using copy_loop [of 4 "clearLimbs 4" n u False] n by auto
  have "lval out 0 4 = lval out 0 n" using out(3) n by (intro lval_zeros) auto
  also have "\<dots> = lval u 0 n" using out(3) n by (intro lval_frame) auto
  finally show ?thesis using True out by (simp add: unnormalizeRemainder_def)
next
  case False
  then have pos: "0 < shift" by simp
  have sp: "2 ^ shift * (unat x div 2 ^ shift + y * 2 ^ (64 - shift)) + unat x mod 2 ^ shift = unat x + BB * y"
    for x :: u64 and y
  proof -
    have "2 ^ shift * (unat x div 2 ^ shift) + unat x mod 2 ^ shift = unat x" by simp
    then show ?thesis using BB_split [of shift] s by (simp add: algebra_simps)
  qed
  define P where "P i out \<longleftrightarrow> length out = 4 \<and> (\<forall>j\<ge>n. j < 4 \<longrightarrow> out ! j = 0) \<and>
    (i < n \<longrightarrow> 2 ^ shift * lval out 0 i + (if i = 0 then 0 else unat (u ! 0) mod 2 ^ shift) =
      lval u 0 i + (if i = 0 then 0 else BB ^ i * (unat (u ! i) mod 2 ^ shift))) \<and>
    (n \<le> i \<longrightarrow> 2 ^ shift * lval out 0 n + unat (u ! 0) mod 2 ^ shift = lval u 0 n)" for i and out :: limbs
  have "\<exists>out. zfor (unnormalize_step u n shift) 4 (clearLimbs 4) = Done out \<and> P 4 out"
  proof (rule zfor_inv)
    show "P 0 (clearLimbs 4)" using n by (simp add: P_def)
    fix i out assume i: "i < 4" and P: "P i out"
    let ?m = "\<lambda>j. unat (u ! j) mod 2 ^ shift"
    show "\<exists>out'. unnormalize_step u n shift i out = Done out' \<and> P (Suc i) out'"
    proof (cases "i < n")
      case False
      then show ?thesis using P by (simp add: unnormalize_step_def P_def)
    next
      case True
      let ?upper = "if Suc i < n then push_bit (64 - shift) (u ! Suc i) else 0"
      let ?z = "drop_bit shift (u ! i) OR ?upper"
      let ?y = "if Suc i < n then ?m (Suc i) else 0"
      have z: "unat ?z = unat (u ! i) div 2 ^ shift + ?y * 2 ^ (64 - shift)"
        using unat_shift_pair_right [OF pos s] by (simp add: unat_drop_bit)
      have run: "unnormalize_step u n shift i out = Done (out[i := ?z])"
        using True i n P by (simp add: unnormalize_step_def P_def zidx_Done zset_Done)
      have l: "i < length out" using P i by (simp add: P_def)
      have start: "2 ^ shift * lval out 0 i + ?m 0 = lval u 0 i + BB ^ i * ?m i"
        using P True by (cases "i = 0") (simp_all add: P_def)
      have "2 ^ shift * lval (out[i := ?z]) 0 (Suc i) + ?m 0 + BB ^ i * ?m i =
          2 ^ shift * lval out 0 i + ?m 0 + BB ^ i * (2 ^ shift * unat ?z + ?m i)"
        using l by (simp add: algebra_simps)
      also have "\<dots> = lval u 0 i + BB ^ i * ?m i + BB ^ i * (unat (u ! i) + BB * ?y)"
        unfolding start z sp ..
      finally have new: "2 ^ shift * lval (out[i := ?z]) 0 (Suc i) + ?m 0 = lval u 0 (Suc i) + BB ^ Suc i * ?y"
        by (simp add: algebra_simps)
      have rest: "length (out[i := ?z]) = 4" "\<forall>j\<ge>n. j < 4 \<longrightarrow> out[i := ?z] ! j = 0"
        using P True unfolding P_def by auto
      have "P (Suc i) (out[i := ?z])"
      proof (cases "Suc i < n")
        case True
        then show ?thesis using new rest unfolding P_def by simp
      next
        case False
        with \<open>i < n\<close> have "n = Suc i" by simp
        then show ?thesis using new rest False unfolding P_def by simp
      qed
      then show ?thesis using run by blast
    qed
  qed
  then obtain out where out: "zfor (unnormalize_step u n shift) 4 (clearLimbs 4) = Done out" "P 4 out" by blast
  have v: "2 ^ shift * lval out 0 n + unat (u ! 0) mod 2 ^ shift = lval u 0 n" "length out = 4"
    "\<forall>j\<ge>n. j < 4 \<longrightarrow> out ! j = 0"
    using out(2) n by (simp_all add: P_def)
  have "lval out 0 4 = lval out 0 n" using v(3) n by (intro lval_zeros) auto
  moreover have "lval u 0 n div 2 ^ shift = lval out 0 n" unfolding v(1) [symmetric] by simp
  ultimately show ?thesis using False out(1) v(2) by (simp add: unnormalizeRemainder_def)
qed

section \<open>Division by two limbs and more\<close>

text \<open>The word size of the array apart, \<^verbatim>\<open>divMulSubAt\<close> and \<^verbatim>\<open>divAddBackAt\<close> are \<^verbatim>\<open>mulSubAt\<close> and \<^verbatim>\<open>addBackAt\<close>.\<close>

definition divMulSubAt :: "limbs \<Rightarrow> limbs \<Rightarrow> nat \<Rightarrow> nat \<Rightarrow> u64 \<Rightarrow> (unit, limbs \<times> bool) outcome" where
  "divMulSubAt u divisor divisor_len offset qhat =
     zbind (zfor (mul_sub_step divisor offset qhat) divisor_len (u, 0, 0)) (mul_sub_top (offset + divisor_len))"

definition divAddBackAt :: "limbs \<Rightarrow> limbs \<Rightarrow> nat \<Rightarrow> nat \<Rightarrow> (unit, limbs) outcome" where
  "divAddBackAt u divisor divisor_len offset =
     zbind (zfor (add_back_step divisor offset) divisor_len (u, 0)) (\<lambda>(u, carry).
     zbind (zidx u (offset + divisor_len)) (\<lambda>x.
     zset u (offset + divisor_len) (x + ucast carry)))"

lemma divMulSubAt_eq: "divMulSubAt = mulSubAt"
  by (intro ext) (simp add: divMulSubAt_def mulSubAt_def)

lemma divAddBackAt_eq: "divAddBackAt = addBackAt"
  by (intro ext) (simp add: divAddBackAt_def addBackAt_def)

definition div_step :: "limbs \<Rightarrow> nat \<Rightarrow> nat \<Rightarrow> limbs \<times> limbs \<Rightarrow> (unit, limbs \<times> limbs) outcome" where
  "div_step divisor divisor_len offset = (\<lambda>(u, out_q).
     zbind (quotient_estimate u divisor divisor_len offset) (\<lambda>qhat.
     zbind (zset out_q offset qhat) (\<lambda>out_q.
     zbind (divMulSubAt u divisor divisor_len offset qhat) (\<lambda>(u, neg).
     if neg then
       zbind (zidx out_q offset) (\<lambda>q. zbind (zset out_q offset (q - 1)) (\<lambda>out_q.
       zbind (divAddBackAt u divisor divisor_len offset) (\<lambda>u. Done (u, out_q))))
     else Done (u, out_q)))))"

definition mod_step :: "limbs \<Rightarrow> nat \<Rightarrow> nat \<Rightarrow> limbs \<Rightarrow> (unit, limbs) outcome" where
  "mod_step divisor divisor_len offset u =
     zbind (quotient_estimate u divisor divisor_len offset) (\<lambda>qhat.
     zbind (mulSubAt u divisor divisor_len offset qhat) (\<lambda>(u, neg).
     if neg then addBackAt u divisor divisor_len offset else Done u))"

lemma lval_fill:
  assumes "i < n" "n \<le> length q" "q ! i = 0"
  shows "lval (q[i := x]) 0 n = lval q 0 n + unat x * BB ^ i"
proof -
  obtain r where "n = Suc (i + r)" using less_imp_Suc_add [OF assms(1)] by blast
  then have r: "n = i + Suc r" by linarith
  have "lval y 0 n = lval y 0 i + (unat (y ! i) + BB * lval y (Suc i) r) * BB ^ i" for y :: limbs
  proof -
    have "lval y i (Suc r) = unat (y ! i) + BB * lval y (Suc i) r" using lval_split [of y i 1 r] by simp
    then show ?thesis unfolding r using lval_split [of y 0 i "Suc r"] by (simp add: mult.commute del: lval.simps)
  qed
  from this [of q] this [of "q[i := x]"] show ?thesis using assms by (simp add: algebra_simps)
qed

lemma div_loop:
  assumes len: "Suc (Suc k) \<le> length divisor" "m + Suc (Suc k) < length u" "Suc m \<le> 4" and vt: "divisor ! Suc k \<noteq> 0"
    and X: "lval u 0 (Suc m + Suc (Suc k)) = X" "X < lval divisor 0 (Suc (Suc k)) * BB ^ Suc m"
  shows "\<exists>u' q. zdown (div_step divisor (Suc (Suc k))) (Suc m) (u, clearLimbs 4) = Done (u', q) \<and>
    length u' = length u \<and> length q = 4 \<and> lval q 0 4 = X div lval divisor 0 (Suc (Suc k)) \<and>
    lval u' 0 (Suc (Suc k)) = X mod lval divisor 0 (Suc (Suc k))"
proof -
  let ?n = "Suc (Suc k)"
  let ?D = "lval divisor 0 ?n"
  define P where "P i s \<longleftrightarrow> (case s of (u', q) \<Rightarrow> length u' = length u \<and> length q = 4 \<and> (\<forall>j<i. q ! j = 0) \<and>
    lval u' 0 (i + ?n) + ?D * lval q 0 4 = X \<and> lval u' 0 (i + ?n) < ?D * BB ^ i)" for i and s :: "limbs \<times> limbs"
  have "\<exists>s'. zdown (div_step divisor ?n) (Suc m) (u, clearLimbs 4) = Done s' \<and> P 0 s'"
  proof (rule zdown_inv)
    have "lval (clearLimbs 4) 0 4 = 0" by (simp add: lval_4)
    then show "P (Suc m) (u, clearLimbs 4)" using X len by (simp add: P_def del: lval.simps)
    fix i s assume i: "i < Suc m" and "P (Suc i) s"
    then obtain u' q where s: "s = (u', q)" "length u' = length u" "length q = 4" "\<forall>j<Suc i. q ! j = 0"
      and inv: "lval u' 0 (Suc i + ?n) + ?D * lval q 0 4 = X" "lval u' 0 (Suc i + ?n) < ?D * BB ^ Suc i"
      by (auto simp: P_def split: prod.splits)
    have il: "i < 4" "i + ?n < length u'" using i len s by auto
    obtain qh u1 neg u2 where d: "quotient_estimate u' divisor ?n i = Done qh" "mulSubAt u' divisor ?n i qh = Done (u1, neg)"
      "(if neg then addBackAt u1 divisor ?n i else Done u1) = Done u2" "length u2 = length u'"
      and new: "lval u2 0 (i + ?n) + ?D * (lval q 0 4 + unat (if neg then qh - 1 else qh) * BB ^ i) = X"
        "lval u2 0 (i + ?n) < ?D * BB ^ i"
      using reduce_step [OF len(1) il(2) vt inv] by blast
    let ?q = "q[i := if neg then qh - 1 else qh]"
    have "div_step divisor ?n i s = Done (u2, ?q)"
      using d(1-3) il(1) s(1,3) by (cases neg) (simp_all add: div_step_def divMulSubAt_eq divAddBackAt_eq zset_Done zidx_Done)
    moreover have "lval ?q 0 4 = lval q 0 4 + unat (if neg then qh - 1 else qh) * BB ^ i"
      using s(3,4) il(1) by (intro lval_fill) auto
    ultimately show "\<exists>s'. div_step divisor ?n i s = Done s' \<and> P i s'"
      using new d(4) s by (auto simp: P_def)
  qed
  then obtain u' q where r: "zdown (div_step divisor ?n) (Suc m) (u, clearLimbs 4) = Done (u', q)"
    "length u' = length u" "length q = 4" and v: "lval u' 0 ?n + ?D * lval q 0 4 = X" "lval u' 0 ?n < ?D"
    by (auto simp: P_def split: prod.splits)
  have "X div ?D = lval q 0 4" "X mod ?D = lval u' 0 ?n" using v(2) unfolding v(1) [symmetric]
    by (simp_all del: lval.simps)
  then show ?thesis using r by (simp del: lval.simps)
qed

lemma mod_loop:
  assumes len: "Suc (Suc k) \<le> length divisor" "m + Suc (Suc k) < length u" and vt: "divisor ! Suc k \<noteq> 0"
    and X: "lval u 0 (Suc m + Suc (Suc k)) = X" "X < lval divisor 0 (Suc (Suc k)) * BB ^ Suc m"
  shows "\<exists>u'. zdown (mod_step divisor (Suc (Suc k))) (Suc m) u = Done u' \<and>
    length u' = length u \<and> lval u' 0 (Suc (Suc k)) = X mod lval divisor 0 (Suc (Suc k))"
proof -
  let ?n = "Suc (Suc k)"
  let ?D = "lval divisor 0 ?n"
  define P where "P i u' \<longleftrightarrow> length u' = length u \<and> (\<exists>Q. lval u' 0 (i + ?n) + ?D * Q = X) \<and>
    lval u' 0 (i + ?n) < ?D * BB ^ i" for i and u' :: limbs
  have "\<exists>s'. zdown (mod_step divisor ?n) (Suc m) u = Done s' \<and> P 0 s'"
  proof (rule zdown_inv)
    show "P (Suc m) u" using X by (auto simp: P_def simp del: lval.simps intro!: exI [of _ 0])
    fix i u' assume i: "i < Suc m" and "P (Suc i) u'"
    then obtain Q where s: "length u' = length u"
      and inv: "lval u' 0 (Suc i + ?n) + ?D * Q = X" "lval u' 0 (Suc i + ?n) < ?D * BB ^ Suc i" unfolding P_def by blast
    have "i + ?n < length u'" using i len s by auto
    from reduce_step [OF len(1) this vt inv] obtain qh u1 neg u2 where d: "quotient_estimate u' divisor ?n i = Done qh"
      "mulSubAt u' divisor ?n i qh = Done (u1, neg)" "(if neg then addBackAt u1 divisor ?n i else Done u1) = Done u2"
      "length u2 = length u'" and new: "\<exists>Q. lval u2 0 (i + ?n) + ?D * Q = X" "lval u2 0 (i + ?n) < ?D * BB ^ i"
      by blast
    have "mod_step divisor ?n i u' = Done u2" using d by (simp add: mod_step_def)
    then show "\<exists>s'. mod_step divisor ?n i u' = Done s' \<and> P i s'" using new d(4) s by (simp add: P_def del: lval.simps)
  qed
  then obtain u' where r: "zdown (mod_step divisor ?n) (Suc m) u = Done u'" "length u' = length u"
    and v: "\<exists>Q. lval u' 0 ?n + ?D * Q = X" "lval u' 0 ?n < ?D"
    by (auto simp: P_def simp del: lval.simps)
  have "X mod ?D = lval u' 0 ?n" using v by (auto simp del: lval.simps)
  then show ?thesis using r by simp
qed

definition undefined_limbs :: "(nat \<Rightarrow> u64) \<Rightarrow> nat \<Rightarrow> limbs" where
  "undefined_limbs junk n = map junk [0..<n]"

lemma length_undefined_limbs [simp]: "length (undefined_limbs junk n) = n"
  by (simp add: undefined_limbs_def)

definition divModNormalized :: "(nat \<Rightarrow> u64) \<Rightarrow> limbs \<Rightarrow> nat \<Rightarrow> limbs \<Rightarrow> nat \<Rightarrow> (unit, limbs \<times> limbs) outcome" where
  "divModNormalized junk numerator numerator_len divisor_in divisor_len =
     zbind (zidx divisor_in (divisor_len - 1)) (\<lambda>hi. zassert (clz 64 hi < 64) (
     let shift = clz 64 hi in
     zbind (normalize_limbs True (if shift = 0 then undefined_limbs junk 4 else clearLimbs 4)
       (if shift = 0 then undefined_limbs junk 5 else clearLimbs 5) numerator numerator_len divisor_in divisor_len shift) (\<lambda>(divisor, u).
     zassert (divisor_len \<le> numerator_len) (
     zbind (zdown (div_step divisor divisor_len) (numerator_len - divisor_len + 1) (u, clearLimbs 4)) (\<lambda>(u, out_q).
     zbind (unnormalizeRemainder u divisor_len shift) (\<lambda>out_r. Done (out_q, out_r)))))))"

definition modNxMKnuth :: "(nat \<Rightarrow> u64) \<Rightarrow> limbs \<Rightarrow> limbs \<Rightarrow> nat \<Rightarrow> nat \<Rightarrow> (unit, limbs) outcome" where
  "modNxMKnuth junk numerator modulus numerator_len divisor_len =
     zbind (zidx modulus (divisor_len - 1)) (\<lambda>hi. zassert (clz 64 hi < 64) (
     let shift = clz 64 hi in
     zbind (normalize_limbs False (undefined_limbs junk 4) (undefined_limbs junk 9) numerator numerator_len modulus divisor_len shift) (\<lambda>(divisor, u).
     zassert (divisor_len \<le> numerator_len) (
     zbind (zdown (mod_step divisor divisor_len) (numerator_len - divisor_len + 1) u) (\<lambda>u.
     unnormalizeRemainder u divisor_len shift)))))"

lemma divModNormalized_exact:
  assumes n: "n = Suc (Suc k)" "n \<le> 4" "length din = 4" "din ! (n - 1) \<noteq> 0" and N: "n \<le> N" "N \<le> 4" "length num = 4"
  shows "\<exists>q r. divModNormalized junk num N din n = Done (q, r) \<and> length q = 4 \<and> length r = 4 \<and>
    lval q 0 4 = lval num 0 N div lval din 0 n \<and> lval r 0 4 = lval num 0 N mod lval din 0 n"
proof -
  define s where "s = clz 64 (din ! Suc k)"
  define m where "m = N - n"
  have top: "din ! Suc k \<noteq> 0" using n by simp
  have Nm: "N = Suc (Suc k) + m" using N(1) unfolding m_def n(1) by simp
  note b = scaled_bounds [OF top s_def Nm]
  let ?d0 = "if s = 0 then undefined_limbs junk 4 else clearLimbs 4"
  let ?u0 = "if s = 0 then undefined_limbs junk 5 else clearLimbs 5"
  have l0: "length ?d0 = 4" "length ?u0 = Suc (length num)" using N(3) by simp_all
  obtain divisor u where nz: "normalize_limbs True ?d0 ?u0 num N din n s = Done (divisor, u)" "length divisor = 4" "length u = 5"
    "lval divisor 0 n = lval din 0 n * 2 ^ s" "divisor ! Suc k \<noteq> 0" "lval u 0 (Suc N) = lval num 0 N * 2 ^ s"
    using normalize_exact [OF top s_def Nm _ n(3) l0(1) _ l0(2), of True] n N by (auto simp del: lval.simps)
  have X: "lval u 0 (Suc m + Suc (Suc k)) = lval num 0 N * 2 ^ s" using nz(6) unfolding Nm by (simp add: ac_simps)
  have lim: "lval num 0 N * 2 ^ s < lval divisor 0 (Suc (Suc k)) * BB ^ Suc m" using b(4) [of num] nz(4) unfolding n(1) by simp
  have lens: "Suc (Suc k) \<le> length divisor" "m + Suc (Suc k) < length u" "Suc m \<le> 4"
    using nz(2,3) n(2) N(2) Nm unfolding n(1) by simp_all
  obtain u' q where loop: "zdown (div_step divisor n) (Suc m) (u, clearLimbs 4) = Done (u', q)" "length u' = 5" "length q = 4"
    "lval q 0 4 = (lval num 0 N * 2 ^ s) div (lval din 0 n * 2 ^ s)" "lval u' 0 n = (lval num 0 N * 2 ^ s) mod (lval din 0 n * 2 ^ s)"
    using div_loop [OF lens nz(5) X lim] nz(3,4) unfolding n(1) by auto
  have "0 < n" "n \<le> length u'" using n loop(2) by simp_all
  then obtain r where r: "unnormalizeRemainder u' n s = Done r" "length r = 4" "lval r 0 4 = lval u' 0 n div 2 ^ s"
    using unnormalize_exact [OF b(1) _ n(2)] by blast
  have ix: "n - 1 = Suc k" "Suc k < length din" "N - n + 1 = Suc m" using n m_def by simp_all
  have "divModNormalized junk num N din n = Done (q, r)"
    unfolding divModNormalized_def zidx_Done [OF ix(2)] zbind.simps ix(1) Let_def s_def [symmetric] using b(1) N(1)
    by (simp add: nz(1) loop(1) r(1) m_def [symmetric] del: zdown.simps)
  moreover have "lval q 0 4 = lval num 0 N div lval din 0 n" unfolding loop(4) by simp
  moreover have "lval r 0 4 = lval num 0 N mod lval din 0 n" unfolding r(3) loop(5) by (simp add: mult_mod_left [symmetric])
  ultimately show ?thesis using loop(3) r(2) by blast
qed

lemma modNxMKnuth_exact:
  assumes n: "n = Suc (Suc k)" "n \<le> 4" "length din = 4" "din ! (n - 1) \<noteq> 0" and N: "n \<le> N" "N \<le> 8" "length num = 8"
  shows "\<exists>r. modNxMKnuth junk num din N n = Done r \<and> length r = 4 \<and> lval r 0 4 = lval num 0 N mod lval din 0 n"
proof -
  define s where "s = clz 64 (din ! Suc k)"
  define m where "m = N - n"
  have top: "din ! Suc k \<noteq> 0" using n by simp
  have Nm: "N = Suc (Suc k) + m" using N(1) unfolding m_def n(1) by simp
  note b = scaled_bounds [OF top s_def Nm]
  obtain divisor u where nz: "normalize_limbs False (undefined_limbs junk 4) (undefined_limbs junk 9) num N din n s = Done (divisor, u)"
    "length divisor = 4" "length u = 9" "lval divisor 0 n = lval din 0 n * 2 ^ s" "divisor ! Suc k \<noteq> 0"
    "lval u 0 (Suc N) = lval num 0 N * 2 ^ s"
    using normalize_exact [OF top s_def Nm, of "undefined_limbs junk 4" num "undefined_limbs junk 9" False] n N
    by (auto simp del: lval.simps)
  have X: "lval u 0 (Suc m + Suc (Suc k)) = lval num 0 N * 2 ^ s" using nz(6) unfolding Nm by (simp add: ac_simps)
  have lim: "lval num 0 N * 2 ^ s < lval divisor 0 (Suc (Suc k)) * BB ^ Suc m" using b(4) [of num] nz(4) unfolding n(1) by simp
  have lens: "Suc (Suc k) \<le> length divisor" "m + Suc (Suc k) < length u"
    using nz(2,3) n(2) N(2) Nm unfolding n(1) by simp_all
  obtain u' where loop: "zdown (mod_step divisor n) (Suc m) u = Done u'" "length u' = 9"
    "lval u' 0 n = (lval num 0 N * 2 ^ s) mod (lval din 0 n * 2 ^ s)"
    using mod_loop [OF lens nz(5) X lim] nz(3,4) unfolding n(1) by auto
  have "0 < n" "n \<le> length u'" using n loop(2) by simp_all
  then obtain r where r: "unnormalizeRemainder u' n s = Done r" "length r = 4" "lval r 0 4 = lval u' 0 n div 2 ^ s"
    using unnormalize_exact [OF b(1) _ n(2)] by blast
  have ix: "n - 1 = Suc k" "Suc k < length din" "N - n + 1 = Suc m" using n m_def by simp_all
  have "modNxMKnuth junk num din N n = Done r"
    unfolding modNxMKnuth_def zidx_Done [OF ix(2)] zbind.simps ix(1) Let_def s_def [symmetric] using b(1) N(1)
    by (simp add: nz(1) loop(1) r(1) m_def [symmetric] del: zdown.simps)
  moreover have "lval r 0 4 = lval num 0 N mod lval din 0 n" unfolding r(3) loop(3) by (simp add: mult_mod_left [symmetric])
  ultimately show ?thesis using r(2) by blast
qed

section \<open>Division by one limb\<close>

definition single_step :: "limbs \<Rightarrow> u64 \<Rightarrow> nat \<Rightarrow> limbs \<times> u64 \<Rightarrow> (unit, limbs \<times> u64) outcome" where
  "single_step numerator divisor i = (\<lambda>(out_q, rem).
     zbind (zidx numerator i) (\<lambda>x. zbind (div128by64 rem x divisor) (\<lambda>(q, r).
     zbind (zset out_q i q) (\<lambda>out_q. Done (out_q, r)))))"

definition divModSingleLimb :: "limbs \<Rightarrow> nat \<Rightarrow> u64 \<Rightarrow> (unit, limbs \<times> limbs) outcome" where
  "divModSingleLimb numerator numerator_len divisor =
     zbind (zdown (single_step numerator divisor) numerator_len (clearLimbs 4, 0)) (\<lambda>(out_q, rem).
     Done (out_q, [rem, 0, 0, 0]))"

definition rem_step :: "limbs \<Rightarrow> u64 \<Rightarrow> nat \<Rightarrow> u64 \<Rightarrow> (unit, u64) outcome" where
  "rem_step numerator divisor i rem =
     zbind (zidx numerator i) (\<lambda>x. zbind (div128by64 rem x divisor) (\<lambda>(q, r). Done r))"

lemma single_limb_value: "lval [x, 0, 0, 0] 0 4 = unat x"
  by (simp add: lval_4)

lemma divModSingleLimb_exact:
  assumes d: "d \<noteq> 0" and N: "N \<le> 4" "N \<le> length num"
  shows "\<exists>q r. divModSingleLimb num N d = Done (q, r) \<and> length q = 4 \<and> length r = 4 \<and>
    lval q 0 4 = lval num 0 N div unat d \<and> lval r 0 4 = lval num 0 N mod unat d"
proof -
  have dpos: "0 < unat d" using d by (simp add: unat_gt_0)
  define P where "P i s \<longleftrightarrow> (case s of (q, rem) \<Rightarrow> length q = 4 \<and> (\<forall>j<i. q ! j = 0) \<and> unat rem < unat d \<and>
    lval q 0 4 * unat d + unat rem * BB ^ i + lval num 0 i = lval num 0 N)" for i and s :: "limbs \<times> u64"
  have "\<exists>s'. zdown (single_step num d) N (clearLimbs 4, 0) = Done s' \<and> P 0 s'"
  proof (rule zdown_inv)
    have "lval (clearLimbs 4) 0 4 = 0" by (simp add: lval_4)
    then show "P N (clearLimbs 4, 0)" using N dpos by (simp add: P_def)
    fix i s assume i: "i < N" and "P (Suc i) s"
    then obtain q rem where s: "s = (q, rem)" "length q = 4" "\<forall>j<Suc i. q ! j = 0" "unat rem < unat d"
      and inv: "lval q 0 4 * unat d + unat rem * BB ^ Suc i + lval num 0 (Suc i) = lval num 0 N"
      by (auto simp: P_def split: prod.splits)
    let ?A = "unat rem * BB + unat (num ! i)"
    have "rem < d" using s(4) by (simp add: word_less_nat_alt)
    then obtain x r where t: "div128by64 rem (num ! i) d = Done (x, r)" "unat x = ?A div unat d" "unat r = ?A mod unat d"
      using div128by64_exact by blast
    have A: "?A = unat x * unat d + unat r" unfolding t(2,3) by simp
    have rd: "unat r < unat d" unfolding t(3) using dpos by simp
    have "single_step num d i s = Done (q[i := x], r)"
      using t(1) i N s(1,2) by (simp add: single_step_def zidx_Done zset_Done)
    moreover have "lval (q[i := x]) 0 4 = lval q 0 4 + unat x * BB ^ i"
      using s(2,3) i N(1) by (intro lval_fill) auto
    moreover have "unat rem * BB ^ Suc i + lval num 0 (Suc i) = ?A * BB ^ i + lval num 0 i"
      by (simp add: algebra_simps)
    ultimately show "\<exists>s'. single_step num d i s = Done s' \<and> P i s'"
      using inv s(2,3) rd unfolding A by (simp add: P_def algebra_simps)
  qed
  then obtain q rem where r: "zdown (single_step num d) N (clearLimbs 4, 0) = Done (q, rem)" "length q = 4"
    "unat rem < unat d" "lval q 0 4 * unat d + unat rem = lval num 0 N"
    by (auto simp: P_def split: prod.splits)
  have "lval num 0 N div unat d = lval q 0 4" "lval num 0 N mod unat d = unat rem"
    using r(3) unfolding r(4) [symmetric] by simp_all
  then show ?thesis using r(1,2) by (simp add: divModSingleLimb_def single_limb_value del: lval.simps)
qed

lemma rem_loop_exact:
  assumes d: "d \<noteq> 0" and N: "N \<le> length num"
  shows "\<exists>r. zdown (rem_step num d) N 0 = Done r \<and> unat r = lval num 0 N mod unat d"
proof -
  have dpos: "0 < unat d" using d by (simp add: unat_gt_0)
  define P where "P i rem \<longleftrightarrow> unat rem < unat d \<and>
    (\<exists>Q. Q * unat d + unat rem * BB ^ i + lval num 0 i = lval num 0 N)" for i and rem :: u64
  have "\<exists>s'. zdown (rem_step num d) N 0 = Done s' \<and> P 0 s'"
  proof (rule zdown_inv)
    show "P N 0" using dpos by (auto simp: P_def)
    fix i rem assume i: "i < N" and "P (Suc i) rem"
    then obtain Q where s: "unat rem < unat d"
      and inv: "Q * unat d + unat rem * BB ^ Suc i + lval num 0 (Suc i) = lval num 0 N"
      unfolding P_def by blast
    let ?A = "unat rem * BB + unat (num ! i)"
    have "rem < d" using s by (simp add: word_less_nat_alt)
    then obtain x r where t: "div128by64 rem (num ! i) d = Done (x, r)" "unat x = ?A div unat d" "unat r = ?A mod unat d"
      using div128by64_exact by blast
    have A: "?A = unat x * unat d + unat r" unfolding t(2,3) by simp
    have "unat rem * BB ^ Suc i + lval num 0 (Suc i) = ?A * BB ^ i + lval num 0 i"
      by (simp add: algebra_simps)
    then have "(Q + unat x * BB ^ i) * unat d + unat r * BB ^ i + lval num 0 i = lval num 0 N"
      using inv unfolding A by (simp add: algebra_simps)
    moreover have "rem_step num d i rem = Done r" using t(1) i N by (simp add: rem_step_def zidx_Done)
    ultimately show "\<exists>s'. rem_step num d i rem = Done s' \<and> P i s'" using dpos t(3) by (auto simp: P_def)
  qed
  then obtain r Q where r: "zdown (rem_step num d) N 0 = Done r" "unat r < unat d" "Q * unat d + unat r = lval num 0 N"
    by (auto simp: P_def)
  then have "lval num 0 N mod unat d = unat r" unfolding r(3) [symmetric] by simp
  then show ?thesis using r(1) by simp
qed

section \<open>The dispatch on the number of limbs\<close>

definition divModKnuth :: "(nat \<Rightarrow> u64) \<Rightarrow> limbs \<Rightarrow> limbs \<Rightarrow> (unit, limbs \<times> limbs) outcome" where
  "divModKnuth junk numerator divisor =
     zbind (countLimbs 4 divisor) (\<lambda>divisor_len.
     if divisor_len = 0 then Done (clearLimbs 4, clearLimbs 4) else
     zbind (countLimbs 4 numerator) (\<lambda>numerator_len.
     if numerator_len = 0 then Done (clearLimbs 4, clearLimbs 4) else
     zbind (ltPrefix numerator numerator_len divisor divisor_len) (\<lambda>less.
     if less then Done (clearLimbs 4, numerator)
     else if divisor_len = 1 then zbind (zidx divisor 0) (divModSingleLimb numerator numerator_len)
     else divModNormalized junk numerator numerator_len divisor divisor_len)))"

definition mod8By4Knuth :: "(nat \<Rightarrow> u64) \<Rightarrow> limbs \<Rightarrow> limbs \<Rightarrow> (unit, limbs) outcome" where
  "mod8By4Knuth junk numerator modulus =
     zbind (countLimbs 4 modulus) (\<lambda>divisor_len.
     zbind (countLimbs 8 numerator) (\<lambda>numerator_len.
     if numerator_len = 0 then Done (clearLimbs 4) else
     zbind (ltPrefix numerator numerator_len modulus divisor_len) (\<lambda>less.
     if less then zfor (copy_step False numerator numerator_len) 4 (clearLimbs 4)
     else if divisor_len = 1 then
       zbind (zidx modulus 0) (\<lambda>d. zbind (zdown (rem_step numerator d) numerator_len 0) (\<lambda>rem. Done [rem, 0, 0, 0]))
     else modNxMKnuth junk numerator modulus numerator_len divisor_len)))"

lemma lval_clear [simp]: "lval (clearLimbs 4) 0 4 = 0"
  by (simp add: lval_4)

lemma limb_count_top: "limb_count u n k \<Longrightarrow> 0 < k \<Longrightarrow> u ! (k - 1) \<noteq> 0"
  unfolding limb_count_def using top_nonzero [of "k - 1" u] by simp

lemma divModKnuth_exact:
  assumes len: "length num = 4" "length d = 4" and d: "lval d 0 4 \<noteq> 0"
  shows "\<exists>q r. divModKnuth junk num d = Done (q, r) \<and> length q = 4 \<and> length r = 4 \<and>
    lval q 0 4 = lval num 0 4 div lval d 0 4 \<and> lval r 0 4 = lval num 0 4 mod lval d 0 4"
proof -
  obtain dl where dl: "limb_count d 4 dl" using countLimbs_count [of 4 d] len by auto
  obtain nl where nl: "limb_count num 4 nl" using countLimbs_count [of 4 num] len by auto
  have dz: "0 < dl" using limb_count_0 [OF dl] d by simp
  have lt: "ltPrefix num nl d dl = Done (lval num 0 4 < lval d 0 4)" using ltPrefix_Done [OF nl dl] len by simp
  have c: "countLimbs 4 d = Done dl" "countLimbs 4 num = Done nl" "dl \<le> 4" "nl \<le> 4"
    "lval d 0 dl = lval d 0 4" "lval num 0 nl = lval num 0 4" using dl nl unfolding limb_count_def by simp_all
  consider "nl = 0" | "0 < nl" "lval num 0 4 < lval d 0 4" | "0 < nl" "lval d 0 4 \<le> lval num 0 4" "dl = 1"
    | "0 < nl" "lval d 0 4 \<le> lval num 0 4" "2 \<le> dl" using dz by linarith
  then show ?thesis
  proof cases
    case 1
    then have "lval num 0 4 = 0" using limb_count_0 [OF nl] by simp
    then show ?thesis using 1 dz by (simp add: divModKnuth_def c)
  next
    case 2
    then show ?thesis using dz len by (simp add: divModKnuth_def c lt)
  next
    case 3
    have "lval d 0 4 = unat (d ! 0)" using c(5) 3 by simp
    moreover have "d ! 0 \<noteq> 0" using limb_count_top [OF dl dz] 3 by simp
    moreover have "divModKnuth junk num d = divModSingleLimb num nl (d ! 0)"
      using 3 len by (simp add: divModKnuth_def c lt [unfolded 3(3) One_nat_def] zidx_Done)
    ultimately show ?thesis using divModSingleLimb_exact [of "d ! 0" nl num] c(4,6) len by simp
  next
    case 4
    then obtain k where "dl = 2 + k" using le_Suc_ex by blast
    then have k: "dl = Suc (Suc k)" by simp
    have "dl \<le> nl" using limb_count_order [OF nl dl] 4 by fastforce
    moreover have "divModKnuth junk num d = divModNormalized junk num nl d dl"
      using 4 dz by (simp add: divModKnuth_def c lt)
    ultimately show ?thesis
      using divModNormalized_exact [OF k c(3) len(2) limb_count_top [OF dl dz] _ c(4) len(1), of junk] c(5,6) by simp
  qed
qed

lemma mod8By4Knuth_exact:
  assumes len: "length num = 8" "length d = 4" and d: "lval d 0 4 \<noteq> 0"
  shows "\<exists>r. mod8By4Knuth junk num d = Done r \<and> length r = 4 \<and> lval r 0 4 = lval num 0 8 mod lval d 0 4"
proof -
  obtain dl where dl: "limb_count d 4 dl" using countLimbs_count [of 4 d] len by auto
  obtain nl where nl: "limb_count num 8 nl" using countLimbs_count [of 8 num] len by auto
  have dz: "0 < dl" using limb_count_0 [OF dl] d by simp
  have lt: "ltPrefix num nl d dl = Done (lval num 0 8 < lval d 0 4)" using ltPrefix_Done [OF nl dl] len by simp
  have c: "countLimbs 4 d = Done dl" "countLimbs 8 num = Done nl" "dl \<le> 4" "nl \<le> 8"
    "lval d 0 dl = lval d 0 4" "lval num 0 nl = lval num 0 8" using dl nl unfolding limb_count_def by simp_all
  consider "nl = 0" | "0 < nl" "lval num 0 8 < lval d 0 4" | "0 < nl" "lval d 0 4 \<le> lval num 0 8" "dl = 1"
    | "0 < nl" "lval d 0 4 \<le> lval num 0 8" "2 \<le> dl" using dz by linarith
  then show ?thesis
  proof cases
    case 1
    then have "lval num 0 8 = 0" using limb_count_0 [OF nl] by simp
    then show ?thesis using 1 by (simp add: mod8By4Knuth_def c)
  next
    case 2
    have "nl \<le> dl" using limb_count_order [OF dl nl] 2 by fastforce
    then have n4: "nl \<le> 4" using c(3) by simp
    obtain r where r: "zfor (copy_step False num nl) 4 (clearLimbs 4) = Done r" "length r = 4"
      "\<forall>i<4. r ! i = (if i < nl then num ! i else clearLimbs 4 ! i)"
      using copy_loop [of 4 "clearLimbs 4" nl num False] n4 len by auto
    have "lval r 0 4 = lval r 0 nl" using r(3) n4 by (intro lval_zeros) auto
    also have "\<dots> = lval num 0 nl" using r(3) n4 by (intro lval_frame) auto
    finally have "lval r 0 4 = lval num 0 8 mod lval d 0 4" using c(6) 2 by simp
    then show ?thesis using 2 r by (simp add: mod8By4Knuth_def c lt)
  next
    case 3
    have "lval d 0 4 = unat (d ! 0)" using c(5) 3 by simp
    moreover have "d ! 0 \<noteq> 0" using limb_count_top [OF dl dz] 3 by simp
    then obtain rem where "zdown (rem_step num (d ! 0)) nl 0 = Done rem" "unat rem = lval num 0 nl mod unat (d ! 0)"
      using rem_loop_exact [of "d ! 0" nl num] c(4) len by auto
    ultimately show ?thesis using 3 len c(6) by (simp add: mod8By4Knuth_def c(1,2) lt [unfolded 3(3) One_nat_def] zidx_Done single_limb_value)
  next
    case 4
    then obtain k where "dl = 2 + k" using le_Suc_ex by blast
    then have k: "dl = Suc (Suc k)" by simp
    have "dl \<le> nl" using limb_count_order [OF nl dl] 4 by fastforce
    moreover have "mod8By4Knuth junk num d = modNxMKnuth junk num d nl dl"
      using 4 dz by (simp add: mod8By4Knuth_def c lt)
    ultimately show ?thesis
      using modNxMKnuth_exact [OF k c(3) len(2) limb_count_top [OF dl dz] _ c(4) len(1), of junk] c(5,6) by simp
  qed
qed

end
