(* ===== verification/Zig_Uint.thy ===== *)
theory Zig_Uint
  imports Zig_Long_Division "HOL-Library.Signed_Division"
begin

text \<open>
  The 256-bit operations of \<^verbatim>\<open>src/src/uint256.zig\<close> that the arithmetic instructions use: the full
  product, division and remainder, signed division, modular addition and multiplication,
  exponentiation and the left shift. Each is compared with the operation on integers.
\<close>

section \<open>The full product\<close>

definition mul_step :: "limbs \<Rightarrow> limbs \<Rightarrow> nat \<Rightarrow> nat \<Rightarrow> limbs \<times> u128 \<Rightarrow> (unit, limbs \<times> u128) outcome" where
  "mul_step lhs rhs i j = (\<lambda>(out, carry).
     zbind (zidx out (i + j)) (\<lambda>x.
     zbind (zidx lhs i) (\<lambda>l. zbind (zidx rhs j) (\<lambda>r.
     zbind (zmul (ucast l) (ucast r)) (\<lambda>p.
     zbind (zadd (ucast x) p) (\<lambda>s.
     zbind (zadd s carry) (\<lambda>sum.
     zbind (zset out (i + j) (ucast sum)) (\<lambda>out. Done (out, drop_bit 64 sum)))))))))"

function carry_out :: "nat \<Rightarrow> limbs \<Rightarrow> u128 \<Rightarrow> (unit, limbs) outcome" where
  "carry_out index out carry =
     (if carry = 0 then Done out else
      zbind (zidx out index) (\<lambda>x.
      zbind (zadd (ucast x) carry) (\<lambda>sum.
      zbind (zset out index (ucast sum)) (\<lambda>out. carry_out (Suc index) out (drop_bit 64 sum)))))"
  by pat_completeness auto
termination
  by (relation "measure (\<lambda>(index, out, carry). length out - index)") (auto simp: zidx_def zset_def split: if_splits)

declare carry_out.simps [simp del]

definition mul_row :: "limbs \<Rightarrow> limbs \<Rightarrow> nat \<Rightarrow> limbs \<Rightarrow> (unit, limbs) outcome" where
  "mul_row lhs rhs i out = zbind (zfor (mul_step lhs rhs i) 4 (out, 0)) (\<lambda>(out, carry). carry_out (i + 4) out carry)"

definition mulFull4 :: "limbs \<Rightarrow> limbs \<Rightarrow> (unit, limbs) outcome" where
  "mulFull4 lhs rhs = zfor (mul_row lhs rhs) 4 (clearLimbs 8)"

lemma mul_step_exact:
  assumes "i < length lhs" "j < length rhs" "i + j < length out" "unat carry < BB"
  shows "\<exists>x carry'. mul_step lhs rhs i j (out, carry) = Done (out[i + j := x], carry') \<and> unat carry' < BB \<and>
    unat x + unat carry' * BB = unat (out ! (i + j)) + unat (lhs ! i) * unat (rhs ! j) + unat carry"
proof -
  let ?x = "out ! (i + j)" and ?l = "lhs ! i" and ?r = "rhs ! j"
  have all: "unat ?l * unat ?r + unat ?x + unat carry < BB * BB" using assms(4) by (intro limb_product) simp_all
  have m: "unat (ucast ?l :: u128) * unat (ucast ?r :: u128) < 2 ^ LENGTH(128)"
    by (intro u128_bound) (unfold unat_widen, use all in linarith)
  let ?p = "ucast ?l * ucast ?r :: u128"
  have p: "unat ?p = unat ?l * unat ?r" using unat_times [OF m] unfolding unat_widen .
  have a: "unat (ucast ?x :: u128) + unat ?p < 2 ^ LENGTH(128)"
    by (intro u128_bound) (unfold unat_widen p, use all in linarith)
  have s: "unat (ucast ?x + ?p) = unat ?x + unat ?l * unat ?r" using unat_plus [OF a] unfolding unat_widen p .
  have b: "unat (ucast ?x + ?p) + unat carry < 2 ^ LENGTH(128)"
    by (intro u128_bound) (unfold s, use all in linarith)
  let ?s = "ucast ?x + ?p + carry"
  have t: "unat ?s = unat ?x + unat ?l * unat ?r + unat carry" using unat_plus [OF b] unfolding s .
  have "unat ?s < BB * BB" unfolding t using all by linarith
  then have c: "unat (drop_bit 64 ?s) < BB" by (simp add: less_mult_imp_div_less)
  have "mul_step lhs rhs i j (out, carry) = Done (out[i + j := ucast ?s], drop_bit 64 ?s)"
    using assms by (simp add: mul_step_def zidx_Done zset_Done zmul_Done [OF m] zadd_Done [OF a] zadd_Done [OF b])
  moreover have "unat (ucast ?s :: u64) + unat (drop_bit 64 ?s) * BB = unat ?x + unat ?l * unat ?r + unat carry"
    unfolding t [symmetric] by simp
  ultimately show ?thesis using c by blast
qed

lemma mul_row_loop:
  assumes len: "i < length lhs" "n \<le> length rhs" "i + n \<le> length out"
  shows "\<exists>out' carry. zfor (mul_step lhs rhs i) n (out, 0) = Done (out', carry) \<and> length out' = length out \<and>
    (\<forall>j. j < i \<or> i + n \<le> j \<longrightarrow> out' ! j = out ! j) \<and> unat carry < BB \<and>
    lval out' i n + unat carry * BB ^ n = lval out i n + unat (lhs ! i) * lval rhs 0 n"
proof -
  define P where "P j s \<longleftrightarrow> (case s of (out', carry) \<Rightarrow> length out' = length out \<and>
    (\<forall>k. k < i \<or> i + j \<le> k \<longrightarrow> out' ! k = out ! k) \<and> unat carry < BB \<and>
    lval out' i j + unat carry * BB ^ j = lval out i j + unat (lhs ! i) * lval rhs 0 j)" for j and s :: "limbs \<times> u128"
  have "\<exists>s'. zfor (mul_step lhs rhs i) n (out, 0) = Done s' \<and> P n s'"
  proof (rule zfor_inv)
    show "P 0 (out, 0)" by (simp add: P_def)
    fix j s assume j: "j < n" and "P j s"
    then obtain out' carry where s: "s = (out', carry)" "length out' = length out"
      "\<forall>k. k < i \<or> i + j \<le> k \<longrightarrow> out' ! k = out ! k" "unat carry < BB"
      and v: "lval out' i j + unat carry * BB ^ j = lval out i j + unat (lhs ! i) * lval rhs 0 j"
      by (auto simp: P_def split: prod.splits)
    obtain x carry' where st: "mul_step lhs rhs i j s = Done (out'[i + j := x], carry')" "unat carry' < BB"
      and e: "unat x + unat carry' * BB = unat (out ! (i + j)) + unat (lhs ! i) * unat (rhs ! j) + unat carry"
      using mul_step_exact [of i lhs j rhs out' carry] s j len by auto
    have "lval (out'[i + j := x]) i (Suc j) + unat carry' * BB ^ Suc j =
        lval out' i j + (unat x + unat carry' * BB) * BB ^ j"
      using s(2) j len by (simp add: algebra_simps)
    also have "\<dots> = lval out' i j + unat carry * BB ^ j +
        (unat (out ! (i + j)) + unat (lhs ! i) * unat (rhs ! j)) * BB ^ j"
      unfolding e by (simp add: algebra_simps)
    also have "\<dots> = lval out i (Suc j) + unat (lhs ! i) * lval rhs 0 (Suc j)"
      unfolding v by (simp add: algebra_simps)
    finally show "\<exists>s'. mul_step lhs rhs i j s = Done s' \<and> P (Suc j) s'"
      using st s(2,3) by (auto simp: P_def)
  qed
  then show ?thesis by (auto simp: P_def split: prod.splits)
qed

text \<open>The limb behind a row is still zero, so its carry stops there.\<close>

lemma mul_row_exact:
  assumes "i < 4" "length lhs = 4" "length rhs = 4" "length out = 8" "\<forall>j\<ge>i + 4. j < 8 \<longrightarrow> out ! j = 0"
  shows "\<exists>out'. mul_row lhs rhs i out = Done out' \<and> length out' = 8 \<and> (\<forall>j\<ge>Suc i + 4. j < 8 \<longrightarrow> out' ! j = 0) \<and>
    lval out' 0 8 = lval out 0 8 + unat (lhs ! i) * lval rhs 0 4 * BB ^ i"
proof -
  obtain out1 carry where r: "zfor (mul_step lhs rhs i) 4 (out, 0) = Done (out1, carry)" "length out1 = 8"
    and fr: "\<forall>j. j < i \<or> i + 4 \<le> j \<longrightarrow> out1 ! j = out ! j" and c: "unat carry < BB"
    and v: "lval out1 i 4 + unat carry * BB ^ 4 = lval out i 4 + unat (lhs ! i) * lval rhs 0 4"
    using mul_row_loop [of i lhs 4 rhs out] assms by auto
  have z: "out1 ! (i + 4) = 0" "out ! (i + 4) = 0" using fr assms by auto
  have fit: "unat (ucast (out1 ! (i + 4)) :: u128) + unat carry < 2 ^ LENGTH(128)"
    unfolding z using c by (simp add: limb_base_def)
  have d: "drop_bit 64 carry = 0" using c by (simp add: word_unat_eq_iff)
  let ?out = "out1[i + 4 := ucast carry]"
  have run: "carry_out (i + 4) out1 carry = Done ?out"
  proof (cases "carry = 0")
    case True
    have "out1[i + 4 := 0] = out1" using z(1) by (metis list_update_id)
    then show ?thesis using True by (simp add: carry_out.simps)
  next
    case False
    have "i + 4 < length out1" using assms(1) r(2) by simp
    then have "carry_out (i + 4) out1 carry = carry_out (Suc (i + 4)) ?out 0"
      using False z d fit by (subst carry_out.simps) (simp add: zidx_Done zset_Done zadd_Done)
    then show ?thesis by (simp add: carry_out.simps)
  qed
  have cs: "unat (ucast carry :: u64) = unat carry" using c by simp
  have seg: "lval ?out i 5 = lval out i 5 + unat (lhs ! i) * lval rhs 0 4"
  proof -
    have five: "lval x i 5 = lval x i 4 + unat (x ! (i + 4)) * BB ^ 4" for x :: limbs
      using lval.simps(2) [of x i 4] by simp
    have "?out ! (i + 4) = ucast carry" using assms(1) r(2) by simp
    then show ?thesis unfolding five [of ?out] five [of out] using v z cs by simp
  qed
  obtain m where m: "8 = i + (5 + m)" using assms(1) by (intro that [of "3 - i"]) simp
  have whole: "lval x 0 8 = lval x 0 i + BB ^ i * (lval x i 5 + BB ^ 5 * lval x (i + 5) m)" for x :: limbs
    unfolding m lval_split [of x 0 i "5 + m"] using lval_split [of x i 5 m] by simp
  have "lval ?out 0 i = lval out 0 i" "lval ?out (i + 5) m = lval out (i + 5) m"
    using fr by (intro lval_frame, simp)+
  then have "lval ?out 0 8 = lval out 0 8 + unat (lhs ! i) * lval rhs 0 4 * BB ^ i"
    unfolding whole [of ?out] whole [of out] seg by (simp add: algebra_simps)
  moreover have "\<forall>j\<ge>Suc i + 4. j < 8 \<longrightarrow> ?out ! j = 0" using fr assms(5) by auto
  ultimately show ?thesis using run r by (auto simp: mul_row_def)
qed

lemma mulFull4_exact:
  assumes "length lhs = 4" "length rhs = 4"
  shows "\<exists>out. mulFull4 lhs rhs = Done out \<and> length out = 8 \<and> lval out 0 8 = lval lhs 0 4 * lval rhs 0 4"
proof -
  define P where "P i out \<longleftrightarrow> length out = 8 \<and> (\<forall>j\<ge>i + 4. j < 8 \<longrightarrow> out ! j = 0) \<and>
    lval out 0 8 = lval lhs 0 i * lval rhs 0 4" for i and out :: limbs
  have "\<exists>out. zfor (mul_row lhs rhs) 4 (clearLimbs 8) = Done out \<and> P 4 out"
  proof (rule zfor_inv)
    have "lval (clearLimbs 8) 0 8 = lval (clearLimbs 8) 0 0" by (intro lval_zeros) simp_all
    then show "P 0 (clearLimbs 8)" by (simp add: P_def)
    fix i out assume "i < 4" "P i out"
    then show "\<exists>out'. mul_row lhs rhs i out = Done out' \<and> P (Suc i) out'"
      using mul_row_exact [of i lhs rhs out] assms by (auto simp: P_def algebra_simps)
  qed
  then show ?thesis unfolding mulFull4_def P_def by blast
qed

section \<open>Division and remainder\<close>

definition divKnuth :: "(nat \<Rightarrow> u64) \<Rightarrow> u256 \<Rightarrow> u256 \<Rightarrow> (unit, u256) outcome" where
  "divKnuth junk v denominator =
     zbind (divModKnuth junk (toLimbs v) (toLimbs denominator)) (\<lambda>(quotient, remainder). Done (fromLimbs quotient))"

definition modKnuth :: "(nat \<Rightarrow> u64) \<Rightarrow> u256 \<Rightarrow> u256 \<Rightarrow> (unit, u256) outcome" where
  "modKnuth junk v denominator =
     zbind (divModKnuth junk (toLimbs v) (toLimbs denominator)) (\<lambda>(quotient, remainder). Done (fromLimbs remainder))"

definition mulModKnuth :: "(nat \<Rightarrow> u64) \<Rightarrow> u256 \<Rightarrow> u256 \<Rightarrow> u256 \<Rightarrow> (unit, u256) outcome" where
  "mulModKnuth junk lhs rhs modulus =
     zbind (mulFull4 (toLimbs lhs) (toLimbs rhs)) (\<lambda>product.
     zbind (mod8By4Knuth junk product (toLimbs modulus)) (\<lambda>reduced. Done (fromLimbs reduced)))"

definition fits_limb :: "u256 \<Rightarrow> bool" where
  "fits_limb v = (v \<le> 0xffffffffffffffff)"

definition uint_div :: "(nat \<Rightarrow> u64) \<Rightarrow> u256 \<Rightarrow> u256 \<Rightarrow> (unit, u256) outcome" where
  "uint_div junk a b =
     (if b = 0 then Done 0
      else if fits_limb (a OR b) then zbind (zdiv (ucast a :: u64) (ucast b)) (\<lambda>q. Done (ucast q))
      else divKnuth junk a b)"

definition uint_mod :: "(nat \<Rightarrow> u64) \<Rightarrow> u256 \<Rightarrow> u256 \<Rightarrow> (unit, u256) outcome" where
  "uint_mod junk a b =
     (if b = 0 then Done 0
      else if fits_limb (a OR b) then zbind (zmod (ucast a :: u64) (ucast b)) (\<lambda>r. Done (ucast r))
      else modKnuth junk a b)"

lemma divKnuth_exact: "b \<noteq> 0 \<Longrightarrow> divKnuth junk a b = Done (a div b)"
proof -
  assume "b \<noteq> 0"
  then have "lval (toLimbs b) 0 4 \<noteq> 0" by (simp add: toLimbs_value unat_eq_0)
  then obtain q r where "divModKnuth junk (toLimbs a) (toLimbs b) = Done (q, r)" "lval q 0 4 = unat a div unat b"
    using divModKnuth_exact [of "toLimbs a" "toLimbs b" junk] by (auto simp: toLimbs_value)
  moreover from this(2) have "fromLimbs q = a div b" by (simp add: word_unat_eq_iff fromLimbs_value unat_div)
  ultimately show ?thesis by (simp add: divKnuth_def)
qed

lemma modKnuth_exact: "b \<noteq> 0 \<Longrightarrow> modKnuth junk a b = Done (a mod b)"
proof -
  assume "b \<noteq> 0"
  then have "lval (toLimbs b) 0 4 \<noteq> 0" by (simp add: toLimbs_value unat_eq_0)
  then obtain q r where "divModKnuth junk (toLimbs a) (toLimbs b) = Done (q, r)" "lval r 0 4 = unat a mod unat b"
    using divModKnuth_exact [of "toLimbs a" "toLimbs b" junk] by (auto simp: toLimbs_value)
  moreover from this(2) have "fromLimbs r = a mod b" by (simp add: word_unat_eq_iff fromLimbs_value unat_mod)
  ultimately show ?thesis by (simp add: modKnuth_def)
qed

lemma mulModKnuth_exact:
  assumes "m \<noteq> 0"
  shows "\<exists>r. mulModKnuth junk a b m = Done r \<and> unat r = (unat a * unat b) mod unat m"
proof -
  have m: "lval (toLimbs m) 0 4 \<noteq> 0" using assms by (simp add: toLimbs_value unat_eq_0)
  obtain p where p: "mulFull4 (toLimbs a) (toLimbs b) = Done p" "length p = 8" "lval p 0 8 = unat a * unat b"
    using mulFull4_exact [of "toLimbs a" "toLimbs b"] by (auto simp: toLimbs_value)
  obtain r where "mod8By4Knuth junk p (toLimbs m) = Done r" "lval r 0 4 = (unat a * unat b) mod unat m"
    using mod8By4Knuth_exact [OF p(2) _ m, of junk] p(3) by (auto simp: toLimbs_value)
  then show ?thesis using p(1) by (simp add: mulModKnuth_def fromLimbs_value)
qed

lemma fits_limb_or:
  assumes "fits_limb (a OR b)"
  shows "unat (ucast a :: u64) = unat a" "unat (ucast b :: u64) = unat b"
proof -
  have w: "unat (ucast x :: u64) = unat x" if "x \<le> a OR b" for x :: u256
  proof -
    have "unat x \<le> unat (0xffffffffffffffff :: u256)" using that assms unfolding fits_limb_def word_le_nat_alt by linarith
    then have "unat x < 2 ^ 64" by simp
    then show ?thesis by (simp add: unsigned_ucast_eq take_bit_nat_eq_self)
  qed
  show "unat (ucast a :: u64) = unat a" "unat (ucast b :: u64) = unat b"
    using w [of a] w [of b] le_word_or1 le_word_or2 by auto
qed

lemma uint_div_exact: "uint_div junk a b = Done (if b = 0 then 0 else a div b)"
proof (cases "b \<noteq> 0 \<and> fits_limb (a OR b)")
  case True
  then have u: "unat (ucast a :: u64) = unat a" "unat (ucast b :: u64) = unat b" using fits_limb_or by auto
  then have "(ucast b :: u64) \<noteq> 0" using True by (metis unat_eq_0)
  moreover have "ucast ((ucast a :: u64) div ucast b) = a div b" by (simp add: word_unat_eq_iff unat_div u)
  ultimately show ?thesis using True by (simp add: uint_div_def zdiv_def)
qed (auto simp: uint_div_def divKnuth_exact)

lemma uint_mod_exact: "uint_mod junk a b = Done (if b = 0 then 0 else a mod b)"
proof (cases "b \<noteq> 0 \<and> fits_limb (a OR b)")
  case True
  then have u: "unat (ucast a :: u64) = unat a" "unat (ucast b :: u64) = unat b" using fits_limb_or by auto
  then have "(ucast b :: u64) \<noteq> 0" using True by (metis unat_eq_0)
  moreover have "ucast ((ucast a :: u64) mod ucast b) = a mod b" by (simp add: word_unat_eq_iff unat_mod u)
  ultimately show ?thesis using True by (simp add: uint_mod_def zmod_def)
qed (auto simp: uint_mod_def modKnuth_exact)

section \<open>Signed division\<close>

definition signedMagnitude :: "u256 \<Rightarrow> u256" where
  "signedMagnitude v = (if 0 \<le> sint v then v else NOT v + 1)"

definition uint_sdiv :: "(nat \<Rightarrow> u64) \<Rightarrow> u256 \<Rightarrow> u256 \<Rightarrow> (unit, u256) outcome" where
  "uint_sdiv junk a b =
     (if b = 0 then Done 0 else
      zbind (uint_div junk (signedMagnitude a) (signedMagnitude b)) (\<lambda>quotient.
      Done (if (sint a < 0) \<noteq> (sint b < 0) then 0 - quotient else quotient)))"

definition uint_smod :: "(nat \<Rightarrow> u64) \<Rightarrow> u256 \<Rightarrow> u256 \<Rightarrow> (unit, u256) outcome" where
  "uint_smod junk a b =
     (if b = 0 then Done 0 else
      zbind (uint_mod junk (signedMagnitude a) (signedMagnitude b)) (\<lambda>remainder.
      Done (if sint a < 0 then 0 - remainder else remainder)))"

lemma signedMagnitude_abs: "signedMagnitude v = word_of_int \<bar>sint v\<bar>" "uint (signedMagnitude v) = \<bar>sint v\<bar>"
proof -
  show w: "signedMagnitude v = word_of_int \<bar>sint v\<bar>"
  proof (cases "0 \<le> sint v")
    case False
    have "NOT v + 1 = - v" by (simp add: minus_eq_not_plus_1)
    also have "\<dots> = word_of_int (- sint v)" by simp
    finally show ?thesis using False by (simp add: signedMagnitude_def)
  qed (simp add: signedMagnitude_def)
  have "\<bar>sint v\<bar> \<le> 2 ^ 255" using sint_ge [of v] sint_lt [of v] by simp
  then have "\<bar>sint v\<bar> < 2 ^ 256" by simp
  then show "uint (signedMagnitude v) = \<bar>sint v\<bar>"
    unfolding w by (simp add: unsigned_of_int take_bit_int_eq_self)
qed

lemma sint_eq_0: "sint (v :: 'w::len word) = 0 \<longleftrightarrow> v = 0"
proof
  assume "sint v = 0"
  then have "word_of_int (sint v) = (0 :: 'w word)" by simp
  then show "v = 0" by simp
qed simp

lemma signedMagnitude_0: "signedMagnitude v = 0 \<longleftrightarrow> v = 0"
proof -
  have "signedMagnitude v = 0 \<longleftrightarrow> uint (signedMagnitude v) = 0" by (simp add: uint_0_iff)
  also have "\<dots> \<longleftrightarrow> sint v = 0" unfolding signedMagnitude_abs(2) by simp
  also have "\<dots> \<longleftrightarrow> v = 0" by (rule sint_eq_0)
  finally show ?thesis .
qed

lemma signed_words:
  fixes q :: u256
  assumes "uint q = n" shows "q = word_of_int n" "0 - q = word_of_int (- n)"
  using assms by auto

lemma uint_sdiv_exact: "uint_sdiv junk a b = Done (if b = 0 then 0 else word_of_int (sint a sdiv sint b))"
proof (cases "b = 0")
  case False
  let ?q = "signedMagnitude a div signedMagnitude b"
  have "uint ?q = \<bar>sint a\<bar> div \<bar>sint b\<bar>" by (simp add: uint_div signedMagnitude_abs(2))
  note q = signed_words [OF this]
  have "sint b \<noteq> 0" using False by (simp add: sint_eq_0)
  then have "sint a sdiv sint b = (if (sint a < 0) \<noteq> (sint b < 0) then - (\<bar>sint a\<bar> div \<bar>sint b\<bar>) else \<bar>sint a\<bar> div \<bar>sint b\<bar>)"
    unfolding signed_divide_int_def by (cases "sint a = 0") (auto simp: sgn_if)
  then show ?thesis using False q signedMagnitude_0 [of b]
    by (simp add: uint_sdiv_def uint_div_exact)
qed (simp add: uint_sdiv_def)

lemma uint_smod_exact: "uint_smod junk a b = Done (if b = 0 then 0 else word_of_int (sint a smod sint b))"
proof (cases "b = 0")
  case False
  let ?r = "signedMagnitude a mod signedMagnitude b"
  have "uint ?r = \<bar>sint a\<bar> mod \<bar>sint b\<bar>" by (simp add: uint_mod signedMagnitude_abs(2))
  note r = signed_words [OF this]
  have "sint a smod sint b = (if sint a < 0 then - (\<bar>sint a\<bar> mod \<bar>sint b\<bar>) else \<bar>sint a\<bar> mod \<bar>sint b\<bar>)"
    unfolding signed_modulo_int_def by (cases "sint a = 0") (auto simp: sgn_if)
  then show ?thesis using False r signedMagnitude_0 [of b]
    by (simp add: uint_smod_def uint_mod_exact)
qed (simp add: uint_smod_def)

section \<open>Modular addition and multiplication\<close>

definition addModReduced :: "u256 \<Rightarrow> u256 \<Rightarrow> u256 \<Rightarrow> (unit, u256) outcome" where
  "addModReduced lhs rhs modulus =
     (let result = lhs + rhs in
      if unat lhs + unat rhs < 2 ^ 256 then
        if modulus \<le> result then zsub result modulus else Done result
      else zadd result (0 - modulus))"

definition addMod :: "(nat \<Rightarrow> u64) \<Rightarrow> u256 \<Rightarrow> u256 \<Rightarrow> u256 \<Rightarrow> (unit, u256) outcome" where
  "addMod junk a b modulus =
     (if modulus = 0 then Done 0 else
      zbind (if modulus \<le> a then uint_mod junk a modulus else Done a) (\<lambda>lhs.
      zbind (if modulus \<le> b then uint_mod junk b modulus else Done b) (\<lambda>rhs.
      addModReduced lhs rhs modulus)))"

lemma addModReduced_exact:
  assumes "lhs < m" "rhs < m"
  shows "\<exists>r. addModReduced lhs rhs m = Done r \<and> unat r = (unat lhs + unat rhs) mod unat m"
proof -
  let ?s = "unat lhs + unat rhs" and ?m = "unat m"
  have lt: "unat lhs < ?m" "unat rhs < ?m" "?m < 2 ^ 256" using assms unat_u256_less [of m] by (simp_all add: word_less_nat_alt)
  then have s2: "?s < 2 * ?m" by linarith
  have red: "?s mod ?m = (if ?m \<le> ?s then ?s - ?m else ?s)"
    using s2 by (auto simp: mod_if)
  show ?thesis
  proof (cases "?s < 2 ^ 256")
    case True
    then have u: "unat (lhs + rhs) = ?s" using unat_plus [of lhs rhs] by simp
    have cmp: "m \<le> lhs + rhs \<longleftrightarrow> ?m \<le> ?s" by (simp only: word_le_nat_alt u)
    show ?thesis
    proof (cases "?m \<le> ?s")
      case ge: True
      then have d: "?m \<le> unat (lhs + rhs)" using u by simp
      have "addModReduced lhs rhs m = Done (lhs + rhs - m)"
        unfolding addModReduced_def Let_def using True ge by (simp only: cmp if_True zsub_Done [OF d])
      moreover have "unat (lhs + rhs - m) = ?s mod ?m" unfolding unat_minus [OF d] u red using ge by simp
      ultimately show ?thesis by blast
    next
      case lt: False
      have "addModReduced lhs rhs m = Done (lhs + rhs)"
        unfolding addModReduced_def Let_def using True lt by (simp only: cmp if_True if_False)
      then show ?thesis using u red lt by simp
    qed
  next
    case False
    have u: "unat (lhs + rhs) = ?s - 2 ^ 256"
    proof -
      have "unat (lhs + rhs) = ?s mod 2 ^ 256" by (simp add: unat_word_ariths)
      also have "\<dots> = (?s - 2 ^ 256) mod 2 ^ 256" using False by (intro le_mod_geq) simp
      also have "\<dots> = ?s - 2 ^ 256" using s2 lt(3) by (intro mod_less) linarith
      finally show ?thesis .
    qed
    have pos: "0 < ?m" using lt by linarith
    have c: "unat (0 - m) = 2 ^ 256 - ?m" using pos by (subst unat_sub_if') simp
    have f: "unat (lhs + rhs) + unat (0 - m) < 2 ^ LENGTH(256)"
      unfolding u c using s2 lt(3) False by simp
    have "addModReduced lhs rhs m = Done (lhs + rhs + (0 - m))"
      unfolding addModReduced_def Let_def using False by (simp only: if_False zadd_Done [OF f])
    moreover have "unat (lhs + rhs + (0 - m)) = ?s mod ?m"
      unfolding unat_plus [OF f] u c red using s2 lt(3) False by simp
    ultimately show ?thesis by blast
  qed
qed

lemma addMod_exact:
  "\<exists>r. addMod junk a b m = Done r \<and> unat r = (if m = 0 then 0 else (unat a + unat b) mod unat m)"
proof (cases "m = 0")
  case False
  then have pos: "0 < unat m" by (simp add: unat_gt_0)
  let ?red = "\<lambda>x. if m \<le> x then x mod m else x"
  have red: "?red x < m" "unat (?red x) = unat x mod unat m" for x :: u256
    using pos by (auto simp: word_less_nat_alt word_le_nat_alt unat_mod)
  have "addMod junk a b m = addModReduced (?red a) (?red b) m"
    using False by (simp add: addMod_def uint_mod_exact)
  moreover obtain r where "addModReduced (?red a) (?red b) m = Done r" "unat r = (unat (?red a) + unat (?red b)) mod unat m"
    using addModReduced_exact [OF red(1) red(1)] by blast
  ultimately show ?thesis using False unfolding red(2) by (simp add: mod_add_eq)
qed (simp add: addMod_def)

lemma unat_ucast_wider:
  "LENGTH('a) \<le> LENGTH('b) \<Longrightarrow> unat (ucast (x :: 'a::len word) :: 'b::len word) = unat x"
proof -
  assume "LENGTH('a) \<le> LENGTH('b)"
  then have "(2::nat) ^ LENGTH('a) \<le> 2 ^ LENGTH('b)" by (intro power_increasing) simp_all
  then have "unat x < 2 ^ LENGTH('b)" using unsigned_less [of x] by (rule less_le_trans [rotated])
  then show ?thesis by (simp add: unsigned_ucast_eq take_bit_nat_eq_self)
qed

text \<open>A modulus near the power of two: the high half is folded in, times the complement.\<close>

function fold_high :: "u64 \<Rightarrow> 320 word \<Rightarrow> (unit, 320 word) outcome" where
  "fold_high complement reduced =
     (if drop_bit 256 reduced = 0 then Done reduced else
      let carry = ucast (drop_bit 256 reduced) :: u64 in
      zbind (zmul (ucast carry) (ucast complement)) (\<lambda>p.
      zbind (zadd (ucast (ucast reduced :: u256)) p) (\<lambda>reduced. fold_high complement reduced)))"
  by pat_completeness auto

lemma u320_parts: "unat (ucast (ucast (x :: 320 word) :: u256) :: 320 word) = unat x mod 2 ^ 256"
  "unat (drop_bit 256 (x :: 320 word)) = unat x div 2 ^ 256" "unat x div 2 ^ 256 < BB"
  "unat (ucast (ucast (drop_bit 256 x) :: u64) :: 320 word) = unat x div 2 ^ 256"
  "unat (ucast (c :: u64) :: 320 word) = unat c"
proof -
  show d: "unat (drop_bit 256 x) = unat x div 2 ^ 256" by (rule unat_drop_bit)
  have "unat x < 2 ^ 64 * 2 ^ 256" using unsigned_less [of x] by simp
  then show l: "unat x div 2 ^ 256 < BB" unfolding limb_base_def by (simp only: less_mult_imp_div_less)
  show c: "unat (ucast (c :: u64) :: 320 word) = unat c" for c
    by (rule unat_ucast_wider) simp
  have t: "unat (ucast (ucast x :: u256) :: 320 word) = unat (ucast x :: u256)"
    by (rule unat_ucast_wider) simp
  also have "\<dots> = unat x mod 2 ^ 256" by (simp add: unsigned_ucast_eq take_bit_eq_mod)
  finally show "unat (ucast (ucast x :: u256) :: 320 word) = unat x mod 2 ^ 256" .
  have "unat (ucast (drop_bit 256 x) :: u64) = unat x div 2 ^ 256"
    using l d by (simp add: unsigned_ucast_eq take_bit_nat_eq_self limb_base_def)
  then show "unat (ucast (ucast (drop_bit 256 x) :: u64) :: 320 word) = unat x div 2 ^ 256" unfolding c .
qed

termination fold_high
proof (relation "measure (\<lambda>(complement, reduced). unat reduced)", goal_cases)
  case (2 complement reduced carry p x)
  have c: "unat (ucast carry :: 320 word) = unat reduced div 2 ^ 256" unfolding 2(2) by (rule u320_parts)
  have pos: "0 < unat reduced div 2 ^ 256" using 2(1) by (metis u320_parts(2) unat_gt_0)
  have "unat p = unat reduced div 2 ^ 256 * unat complement"
    using 2(3) c by (auto simp: zmul_def u320_parts(5) unat_word_ariths split: if_splits)
  then have "unat x = unat reduced mod 2 ^ 256 + unat reduced div 2 ^ 256 * unat complement"
    using 2(4) by (auto simp: zadd_def u320_parts(1) unat_word_ariths split: if_splits)
  moreover have "unat reduced div 2 ^ 256 * unat complement < unat reduced div 2 ^ 256 * 2 ^ 256"
    using pos unat_u64_less [of complement] by (intro mult_strict_left_mono) auto
  ultimately have "unat x < unat reduced mod 2 ^ 256 + unat reduced div 2 ^ 256 * 2 ^ 256" by linarith
  then show ?case by simp
qed simp

declare fold_high.simps [simp del]

definition mulModNearPowerOfTwo :: "u256 \<Rightarrow> u256 \<Rightarrow> u256 \<Rightarrow> u64 \<Rightarrow> (unit, u256) outcome" where
  "mulModNearPowerOfTwo lhs rhs modulus complement =
     zbind (zmul (ucast lhs :: 512 word) (ucast rhs)) (\<lambda>product.
     zbind (zmul (ucast (ucast (drop_bit 256 product) :: u256) :: 320 word) (ucast complement)) (\<lambda>p.
     zbind (zadd (ucast (ucast product :: u256)) p) (\<lambda>reduced.
     zbind (fold_high complement reduced) (\<lambda>reduced.
     let result = ucast reduced :: u256 in
     Done (if modulus \<le> result then result - modulus else result)))))"

definition mulMod :: "(nat \<Rightarrow> u64) \<Rightarrow> u256 \<Rightarrow> u256 \<Rightarrow> u256 \<Rightarrow> (unit, u256) outcome" where
  "mulMod junk lhs rhs modulus =
     (if modulus = 0 then Done 0 else
      let complement = 0 - modulus in
      if fits_limb complement then mulModNearPowerOfTwo lhs rhs modulus (ucast complement)
      else mulModKnuth junk lhs rhs modulus)"

lemma fold_mod: "(2 ^ 256 :: nat) = m + c \<Longrightarrow> (x mod 2 ^ 256 + x div 2 ^ 256 * c) mod m = x mod m"
proof -
  assume c: "(2 ^ 256 :: nat) = m + c"
  have "x = x mod 2 ^ 256 + x div 2 ^ 256 * (m + c)" unfolding c [symmetric] by simp
  also have "\<dots> = x mod 2 ^ 256 + x div 2 ^ 256 * c + x div 2 ^ 256 * m" by (simp only: add_mult_distrib add_mult_distrib2 ac_simps)
  finally have "x mod m = (x mod 2 ^ 256 + x div 2 ^ 256 * c + x div 2 ^ 256 * m) mod m" by metis
  then show ?thesis by simp
qed

lemma fold_high_exact:
  assumes c: "(2 ^ 256 :: nat) = m + unat complement"
  shows "\<exists>r. fold_high complement reduced = Done r \<and> unat r < 2 ^ 256 \<and> unat r mod m = unat reduced mod m"
proof (induction "unat reduced" arbitrary: reduced rule: less_induct)
  case less
  let ?h = "unat reduced div 2 ^ 256" and ?l = "unat reduced mod 2 ^ 256"
  show ?case
  proof (cases "drop_bit 256 reduced = 0")
    case True
    then have "unat reduced div 2 ^ 256 = 0" by (metis u320_parts(2) unsigned_0)
    then have "unat reduced < 2 ^ 256" by (simp add: div_eq_0_iff)
    then show ?thesis using True by (simp add: fold_high.simps)
  next
    case False
    let ?carry = "ucast (drop_bit 256 reduced) :: u64"
    have pos: "0 < ?h" using False by (metis u320_parts(2) unat_gt_0)
    have "?h * unat complement + 0 + 0 < BB * BB" using u320_parts(3) by (intro limb_product) simp_all
    then have hc: "?h * unat complement < 2 ^ 128" by (simp add: limb_base_def)
    then have m: "unat (ucast ?carry :: 320 word) * unat (ucast complement :: 320 word) < 2 ^ LENGTH(320)"
      unfolding u320_parts(4) unfolding u320_parts(5) by simp
    let ?p = "ucast ?carry * ucast complement :: 320 word"
    have p: "unat ?p = ?h * unat complement" using unat_times [OF m] unfolding u320_parts(4) unfolding u320_parts(5) .
    have ll: "?l < 2 ^ 256" by simp
    have a: "unat (ucast (ucast reduced :: u256) :: 320 word) + unat ?p < 2 ^ LENGTH(320)"
      unfolding u320_parts(1) p using hc ll by simp
    let ?x = "ucast (ucast reduced :: u256) + ?p"
    have x: "unat ?x = ?l + ?h * unat complement" using unat_plus [OF a] unfolding u320_parts(1) p .
    have "?h * unat complement < ?h * 2 ^ 256"
      using pos unat_u64_less [of complement] by (intro mult_strict_left_mono) auto
    then have "unat ?x < ?l + ?h * 2 ^ 256" unfolding x by linarith
    then have "unat ?x < unat reduced" by simp
    then obtain r where "fold_high complement ?x = Done r" "unat r < 2 ^ 256" "unat r mod m = unat ?x mod m"
      using less by blast
    moreover have "fold_high complement reduced = fold_high complement ?x"
      using False by (subst fold_high.simps) (simp add: Let_def zmul_Done [OF m] zadd_Done [OF a])
    ultimately show ?thesis unfolding x using fold_mod [OF c] by simp
  qed
qed

lemma mulModNear_exact:
  assumes c: "(2 ^ 256 :: nat) = unat m + unat complement"
  shows "\<exists>r. mulModNearPowerOfTwo a b m complement = Done r \<and> unat r = (unat a * unat b) mod unat m"
proof -
  let ?n = "unat a * unat b"
  have w: "unat (ucast (x :: u256) :: 512 word) = unat x" "unat (ucast (x :: u256) :: 320 word) = unat x" for x
    by (rule unat_ucast_wider, simp)+
  have "?n \<le> (2 ^ 256 - 1) * (2 ^ 256 - 1)"
    using unat_u256_less [of a] unat_u256_less [of b] by (intro mult_mono) linarith+
  also have "\<dots> < 2 ^ 512" by simp
  finally have n: "?n < 2 ^ 512" .
  have m: "unat (ucast a :: 512 word) * unat (ucast b :: 512 word) < 2 ^ LENGTH(512)" unfolding w using n by simp
  let ?P = "ucast a * ucast b :: 512 word"
  have P: "unat ?P = ?n" using unat_times [OF m] unfolding w .
  have hi: "unat (ucast (drop_bit 256 ?P) :: u256) = ?n div 2 ^ 256"
  proof -
    have "?n < 2 ^ 256 * 2 ^ 256" using n by simp
    then have "?n div 2 ^ 256 < 2 ^ 256" by (rule less_mult_imp_div_less)
    then show ?thesis unfolding unsigned_ucast_eq unat_drop_bit P by (simp add: take_bit_nat_eq_self)
  qed
  have lo: "unat (ucast ?P :: u256) = ?n mod 2 ^ 256" unfolding unsigned_ucast_eq P by (simp add: take_bit_eq_mod)
  have hc: "?n div 2 ^ 256 * unat complement \<le> (2 ^ 256 - 1) * (2 ^ 64 - 1)"
    using unat_u256_less [of "ucast (drop_bit 256 ?P)"] unat_u64_less [of complement] unfolding hi
    by (intro mult_mono) linarith+
  also have "\<dots> < 2 ^ 320 - 2 ^ 256" by simp
  finally have hc': "?n div 2 ^ 256 * unat complement < 2 ^ 320 - 2 ^ 256" .
  have m2: "unat (ucast (ucast (drop_bit 256 ?P) :: u256) :: 320 word) * unat (ucast complement :: 320 word) < 2 ^ LENGTH(320)"
    unfolding w hi u320_parts(5) using hc' by simp
  let ?p = "ucast (ucast (drop_bit 256 ?P) :: u256) * ucast complement :: 320 word"
  have p: "unat ?p = ?n div 2 ^ 256 * unat complement" using unat_times [OF m2] unfolding w hi u320_parts(5) .
  have "?n mod 2 ^ 256 < 2 ^ 256" by simp
  then have a: "unat (ucast (ucast ?P :: u256) :: 320 word) + unat ?p < 2 ^ LENGTH(320)"
    unfolding w lo p using hc' by simp
  let ?x = "ucast (ucast ?P :: u256) + ?p"
  have x: "unat ?x = ?n mod 2 ^ 256 + ?n div 2 ^ 256 * unat complement" using unat_plus [OF a] unfolding w lo p .
  obtain r where r: "fold_high complement ?x = Done r" "unat r < 2 ^ 256" "unat r mod unat m = ?n mod unat m"
    using fold_high_exact [OF c, of ?x] fold_mod [OF c, of ?n] unfolding x by auto
  let ?r = "ucast r :: u256"
  have rr: "unat ?r = unat r" using r(2) by (simp add: unsigned_ucast_eq take_bit_nat_eq_self)
  have big: "2 ^ 256 < 2 * unat m" using c unat_u64_less [of complement] by simp
  have run: "mulModNearPowerOfTwo a b m complement = Done (if m \<le> ?r then ?r - m else ?r)"
    by (simp add: mulModNearPowerOfTwo_def zmul_Done [OF m] zmul_Done [OF m2] zadd_Done [OF a] r(1) Let_def)
  moreover have "unat (if m \<le> ?r then ?r - m else ?r) = unat r mod unat m"
  proof (cases "unat m \<le> unat r")
    case True
    then have "unat r mod unat m = (unat r - unat m) mod unat m" by (rule le_mod_geq)
    also have "\<dots> = unat r - unat m" using r(2) big by (intro mod_less) linarith
    finally show ?thesis using True by (simp add: word_le_nat_alt rr unat_minus)
  qed (simp add: word_le_nat_alt rr)
  ultimately show ?thesis using r(3) by simp
qed

lemma mulMod_exact:
  "\<exists>r. mulMod junk a b m = Done r \<and> unat r = (if m = 0 then 0 else (unat a * unat b) mod unat m)"
proof (cases "m \<noteq> 0 \<and> fits_limb (0 - m)")
  case True
  then have "0 < unat m" by (simp add: unat_gt_0)
  then have c: "unat (0 - m) = 2 ^ 256 - unat m" by (subst unat_sub_if') simp
  have "unat (ucast (0 - m) :: u64) = unat (0 - m)" using fits_limb_or(1) [of "0 - m" 0] True by simp
  then have "(2 ^ 256 :: nat) = unat m + unat (ucast (0 - m) :: u64)" unfolding c using unat_u256_less [of m] by simp
  from mulModNear_exact [OF this] show ?thesis using True by (simp add: mulMod_def Let_def)
qed (use mulModKnuth_exact [of m junk a b] in \<open>auto simp: mulMod_def Let_def\<close>)

section \<open>Exponentiation\<close>

definition ctz :: "u256 \<Rightarrow> nat" where
  "ctz v = length (takeWhile (\<lambda>i. \<not> bit v i) [0..<256])"

text \<open>Square and multiply (lines 186--191).\<close>

function exp_loop :: "u256 \<Rightarrow> u256 \<Rightarrow> u256 \<Rightarrow> u256" where
  "exp_loop v exponent result =
     (if exponent = 0 then result
      else exp_loop (v * v) (drop_bit 1 exponent) (if exponent AND 1 = 1 then result * v else result))"
  by pat_completeness auto
termination
  by (relation "measure (\<lambda>(v, exponent, result). unat exponent)") (simp_all add: unat_drop_bit unat_gt_0 del: drop_bit_Suc)

declare exp_loop.simps [simp del]

definition wrapExp :: "u256 \<Rightarrow> u256 \<Rightarrow> u256" where
  "wrapExp a expo =
     (if expo = 0 then 1
      else if a = 0 then 0
      else if a = 1 then 1
      else if a = 2 then (if 256 \<le> expo then 0 else push_bit (unat expo) 1)
      else if ctz a \<noteq> 0 \<and> (256 + ctz a - 1) div ctz a \<le> unat expo then 0
      else exp_loop a expo 1)"

lemma exp_loop_exact: "exp_loop v e r = r * v ^ unat e"
proof (induction v e r rule: exp_loop.induct)
  case (1 v e r)
  show ?case
  proof (cases "e = 0")
    case False
    have h: "unat (drop_bit (Suc 0) e) = unat e div 2" by (simp add: unat_drop_bit)
    have odd: "e AND 1 = 1 \<longleftrightarrow> odd (unat e)" 
    proof -
      have "bit (unat e) 0 \<longleftrightarrow> bit e 0" by (simp add: bit_unsigned_iff)
      then show ?thesis by (simp add: and_one_eq mod_2_eq_odd bit_0)
    qed
    have split: "v ^ unat e = (v * v) ^ (unat e div 2) * (if odd (unat e) then v else 1)"
    proof -
      have "unat e = 2 * (unat e div 2) + unat e mod 2" by simp
      then have "v ^ unat e = v ^ (2 * (unat e div 2) + unat e mod 2)" by metis
      also have "\<dots> = (v * v) ^ (unat e div 2) * v ^ (unat e mod 2)"
        by (simp only: power_add power_mult power2_eq_square)
      finally show ?thesis by (simp add: odd_iff_mod_2_eq_one split: if_splits)
    qed
    show ?thesis using False 1 [OF False]
      by (subst exp_loop.simps) (simp add: h odd split)
  qed (simp add: exp_loop.simps)
qed

lemma ctz_dvd: "2 ^ ctz v dvd unat v"
proof -
  have "\<not> bit v i" if "i < ctz v" for i
  proof -
    have "i < length [0..<256]" using that length_takeWhile_le [of "\<lambda>i. \<not> bit v i" "[0..<256]"] by (simp add: ctz_def)
    moreover have "[0..<256] ! i \<in> set (takeWhile (\<lambda>i. \<not> bit v i) [0..<256])"
      using that by (metis ctz_def nth_mem takeWhile_nth)
    ultimately show ?thesis by (metis add_0 length_upt nth_upt set_takeWhileD diff_zero)
  qed
  then have "take_bit (ctz v) (unat v) = 0"
    by (intro bit_eqI) (auto simp: bit_simps)
  then show ?thesis by (simp add: take_bit_eq_0_iff)
qed

lemma even_power_zero:
  assumes "2 ^ t dvd unat (a :: u256)" "256 \<le> t * n" shows "a ^ n = 0"
proof -
  obtain k where k: "unat a = 2 ^ t * k" using assms(1) by blast
  have "a = word_of_nat (unat a)" by simp
  then have "a ^ n = word_of_nat (unat a ^ n)" by (metis of_nat_power)
  also have "unat a ^ n = 2 ^ (t * n) * k ^ n" unfolding k by (simp add: power_mult_distrib power_mult)
  also have "\<dots> = 2 ^ 256 * (2 ^ (t * n - 256) * k ^ n)"
    using assms(2) by (simp only: power_add [symmetric] mult.assoc [symmetric] le_add_diff_inverse)
  also have "(word_of_nat \<dots> :: u256) = word_of_nat (2 ^ 256) * word_of_nat (2 ^ (t * n - 256) * k ^ n)"
    by (simp only: of_nat_mult)
  also have "(word_of_nat (2 ^ 256) :: u256) = 0" by simp
  finally show ?thesis by simp
qed

lemma wrapExp_exact: "wrapExp a e = a ^ unat e"
proof -
  consider "e = 0" | "e \<noteq> 0" "a = 0" | "e \<noteq> 0" "a = 1" | "e \<noteq> 0" "a = 2" "256 \<le> e" | "e \<noteq> 0" "a = 2" "\<not> 256 \<le> e"
    | "e \<noteq> 0" "a \<noteq> 0" "a \<noteq> 1" "a \<noteq> 2" "ctz a \<noteq> 0" "(256 + ctz a - 1) div ctz a \<le> unat e"
    | "e \<noteq> 0" "a \<noteq> 0" "a \<noteq> 1" "a \<noteq> 2" "\<not> (ctz a \<noteq> 0 \<and> (256 + ctz a - 1) div ctz a \<le> unat e)" by blast
  then show ?thesis
  proof cases
    case 2
    then show ?thesis by (simp add: wrapExp_def unat_eq_0 power_0_left)
  next
    case 4
    then have "256 \<le> 1 * unat e" by (simp add: word_le_nat_alt)
    then have "(2 :: u256) ^ unat e = 0" by (intro even_power_zero [of 1]) simp_all
    then show ?thesis using 4 by (simp add: wrapExp_def)
  next
    case 5
    then show ?thesis by (simp add: wrapExp_def push_bit_eq_mult)
  next
    case 6
    let ?t = "ctz a"
    have "(256 + ?t - 1) div ?t * ?t \<le> unat e * ?t" using 6(6) by (rule mult_right_mono) simp
    moreover have "256 + ?t - 1 < ?t + (256 + ?t - 1) div ?t * ?t" using 6(5) by (intro dividend_less_times_div [of ?t, unfolded mult.commute [of ?t]]) simp
    ultimately have "256 \<le> unat e * ?t" by linarith
    then have "256 \<le> ?t * unat e" by (simp only: mult.commute)
    then have "a ^ unat e = 0" by (rule even_power_zero [OF ctz_dvd])
    then show ?thesis using 6 unfolding wrapExp_def by simp
  next
    case 7
    show ?thesis by (simp only: wrapExp_def 7 if_False exp_loop_exact mult_1_left)
  qed (simp_all add: wrapExp_def)
qed

section \<open>Shifts, bytes and ceilings\<close>

definition shl :: "u256 \<Rightarrow> nat \<Rightarrow> u256" where
  "shl v shift =
     (let lo = ucast v :: u128 in
      if 128 \<le> shift then push_bit 128 (ucast (push_bit (shift mod 128) lo))
      else if shift = 0 then v
      else let hi = ucast (drop_bit 128 v) :: u128; carry = drop_bit (128 - shift) lo
           in push_bit 128 (ucast (push_bit shift hi OR carry)) OR ucast (push_bit shift lo))"

lemma shl_exact: "shift < 256 \<Longrightarrow> shl v shift = push_bit shift v"
proof -
  assume s: "shift < 256"
  show ?thesis
  proof (cases "128 \<le> shift")
    case True
    then have m: "shift mod 128 = shift - 128" using s by (simp add: mod_if)
    have "push_bit 128 (ucast (push_bit (shift - 128) (ucast v :: u128)) :: u256) = push_bit shift v"
      by (rule bit_eqI) (use True s in \<open>auto simp: bit_simps\<close>)
    then show ?thesis using True by (simp add: shl_def Let_def m)
  next
    case False
    have "push_bit 128 (ucast (push_bit shift (ucast (drop_bit 128 v) :: u128) OR drop_bit (128 - shift) (ucast v)) :: u256) OR
        ucast (push_bit shift (ucast v :: u128)) = push_bit shift v" if "shift \<noteq> 0"
      by (rule bit_eqI) (use False that in \<open>auto simp: bit_simps\<close>)
    then show ?thesis using False by (simp add: shl_def Let_def)
  qed
qed

definition countSignificantBytesSize :: "u256 \<Rightarrow> nat" where
  "countSignificantBytesSize v = (256 - clz 256 v + 7) div 8"

lemma countSignificantBytes_exact:
  "unat v < 256 ^ k \<longleftrightarrow> countSignificantBytesSize v \<le> k"
proof (cases "v = 0")
  case True
  have all: "takeWhile (\<lambda>_. True) xs = xs" for xs :: "nat list" by (induction xs) simp_all
  have "clz 256 v = 256" by (simp add: clz_def True all)
  then show ?thesis using True by (simp add: countSignificantBytesSize_def)
next
  case False
  let ?b = "256 - clz 256 v"
  have b: "0 < ?b" "2 ^ (?b - 1) \<le> unat v" "unat v < 2 ^ ?b"
    using bit_word_width [OF False, of 256] unat_u256_less [of v] by auto
  have p: "(256 :: nat) ^ j = 2 ^ (8 * j)" for j by (simp add: power_mult)
  have "unat v < 256 ^ k \<longleftrightarrow> ?b \<le> 8 * k"
  proof
    assume "unat v < 256 ^ k"
    then have "2 ^ (?b - 1) < (2::nat) ^ (8 * k)" using b(2) unfolding p by linarith
    then have "?b - 1 < 8 * k" by (simp only: power_strict_increasing_iff)
    then show "?b \<le> 8 * k" by linarith
  next
    assume "?b \<le> 8 * k"
    then have "(2::nat) ^ ?b \<le> 2 ^ (8 * k)" by (intro power_increasing) simp_all
    then show "unat v < 256 ^ k" unfolding p using b(3) by linarith
  qed
  also have "\<dots> \<longleftrightarrow> (?b + 7) div 8 \<le> k" by linarith
  finally show ?thesis by (simp add: countSignificantBytesSize_def)
qed

definition ceilDiv :: "u256 \<Rightarrow> u256 \<Rightarrow> (unit, u256) outcome" where
  "ceilDiv v denominator =
     zassert (denominator \<noteq> 0) (zadd (v div denominator) (if v mod denominator \<noteq> 0 then 1 else 0))"

lemma ceil_div:
  fixes v d :: nat
  assumes "0 < d" shows "(v + d - 1) div d = v div d + (if v mod d \<noteq> 0 then 1 else 0)"
proof -
  define q where "q = v div d"
  define r where "r = v mod d"
  have v: "v = q * d + r" "r < d" using assms unfolding q_def r_def by simp_all
  show ?thesis unfolding q_def [symmetric] r_def [symmetric]
  proof (cases "r = 0")
    case True
    then show "(v + d - 1) div d = q + (if r \<noteq> 0 then 1 else 0)"
      by (intro div_nat_eqI) (use v in \<open>simp_all add: algebra_simps\<close>)
  next
    case False
    then show "(v + d - 1) div d = q + (if r \<noteq> 0 then 1 else 0)"
      by (intro div_nat_eqI) (use v in \<open>simp_all add: algebra_simps\<close>)
  qed
qed

lemma ceilDiv_exact:
  assumes "d \<noteq> 0"
  shows "\<exists>q. ceilDiv v d = Done q \<and> unat q = (unat v + unat d - 1) div unat d"
proof -
  have pos: "0 < unat d" using assms by (simp add: unat_gt_0)
  let ?c = "(unat v + unat d - 1) div unat d" and ?up = "if v mod d \<noteq> 0 then 1 else 0 :: u256"
  have up: "unat ?up = (if unat v mod unat d \<noteq> 0 then 1 else 0)"
    using unat_mod [of v d] unat_eq_0 [of "v mod d"] by (cases "v mod d = 0") auto
  have c: "unat (v div d) + unat ?up = ?c" using ceil_div [OF pos, of "unat v"] up by (simp add: unat_div)
  have "?c \<le> unat v"
  proof (cases "unat v = 0")
    case False
    then have "unat v + unat d - 1 < Suc (unat v) * unat d" using pos by (cases "unat d") auto
    then show ?thesis by (simp add: less_mult_imp_div_less less_Suc_eq_le [symmetric] del: mult_Suc)
  qed (use pos in simp)
  then have f: "unat (v div d) + unat ?up < 2 ^ LENGTH(256)" unfolding c using unat_u256_less [of v] by simp
  then show ?thesis using assms c by (simp add: ceilDiv_def zadd_Done [OF f] unat_plus [OF f] del: if_split)
qed

end
