(* ===== verification/Zig_Machine_Properties.thy ===== *)
theory Zig_Machine_Properties
  imports Zig_Uint
begin

text \<open>
  The properties of the 256-bit arithmetic.
\<close>

section \<open>256-bit arithmetic\<close>

text \<open>
  C4: division and remainder on limbs, whichever of the paths (one machine word, one limb, Knuth's
  algorithm) the operands select and whatever the uninitialised arrays hold, fail no check and
  give the quotient and remainder of the numbers, and zero for a zero divisor; the signed
  operations round towards zero and take the sign of the dividend.
\<close>

theorem uint_division_exact:
  "(\<exists>q. uint_div junk a b = Done q \<and> unat q = unat a div unat b) \<and>
   (\<exists>r. uint_mod junk a b = Done r \<and> unat r = (if b = 0 then 0 else unat a mod unat b)) \<and>
   uint_sdiv junk a b = Done (if b = 0 then 0 else word_of_int (sint a sdiv sint b)) \<and>
   uint_smod junk a b = Done (if b = 0 then 0 else word_of_int (sint a smod sint b))"
  by (auto simp: uint_div_exact uint_mod_exact uint_sdiv_exact uint_smod_exact unat_div unat_mod)

text \<open>
  C5: addition and multiplication modulo a number fail no check and give the exact remainder of
  the unbounded sum and product, on the path for moduli near the top of the range as on the path
  through the full product, and zero for a zero modulus.
\<close>

theorem modular_arithmetic_exact:
  "(\<exists>r. addMod junk a b m = Done r \<and> unat r = (if m = 0 then 0 else (unat a + unat b) mod unat m)) \<and>
   (\<exists>r. mulMod junk a b m = Done r \<and> unat r = (if m = 0 then 0 else (unat a * unat b) mod unat m))"
  using addMod_exact mulMod_exact by blast

text \<open>
  C6: exponentiation with its shortcuts for zero, one, powers of two and even bases is the power
  of the base, wrapped, and the number of significant bytes that prices it is the least number of
  bytes that hold the exponent.
\<close>

theorem exponentiation_exact:
  "wrapExp a e = a ^ unat e \<and> countSignificantBytesSize e = (LEAST k. unat e < 256 ^ k)"
proof (intro conjI wrapExp_exact)
  show "countSignificantBytesSize e = (LEAST k. unat e < 256 ^ k)"
    by (rule sym, rule Least_equality) (simp_all add: countSignificantBytes_exact)
qed

end
