(* ===== verification/Spec2Isabelle.thy ===== *)
theory Spec2Isabelle
  imports Ssz_Properties Devnet_Properties Consumer_Properties Differential_Properties Eest_Properties Bench_Properties
    Zig_Properties Zig_Gas_Properties Zig_Machine_Properties
begin

text \<open>
  \<^bold>\<open>The Python programs and core algorithms of evm.zig.\<close>

  The repository is an EVM in Zig; the programs written in Python are its conformance and
  measurement tooling. This development models those programs, and of the Zig library the
  algorithms listed under Zig components: the analysis of code, RLP, the fees, and gas from the
  admission of a transaction to its settlement.

  The Python programs interact through files and processes:
  the schema generator writes the Zig modules that the SSZ fixtures are checked with; the corpus
  downloader and the fixture source resolver produce corpora and their manifests; the consumers run
  the Zig binary on the corpora and turn its output into test verdicts; the transition-tool adapter
  and the differential tool put the Zig binary behind the fixture filler and compare it with other
  implementations; the benchmark report runs the timing programs and renders what they print.

  \<^bold>\<open>Shared theories.\<close>
  \<^item> \<^verbatim>\<open>Prelude\<close>: the exceptions the programs raise and the result type (\<open>Inl\<close> an exception, \<open>Inr\<close> a
    value) with its sequencing and loops, insertion-ordered dictionaries (locale \<open>keyed_store\<close>), loops over
    a growing state (locale \<open>growing_state\<close>), stable sorting, indexing, decimal printing.
  \<^item> \<^verbatim>\<open>Py_Strings\<close>, \<^verbatim>\<open>Py_Values\<close>: string methods and the values of \<^verbatim>\<open>json.loads\<close>, with \<^verbatim>\<open>int\<close>, \<^verbatim>\<open>str\<close>,
    \<^verbatim>\<open>repr\<close>, equality and \<^verbatim>\<open>json.dumps\<close>.
  \<^item> \<^verbatim>\<open>Py_World\<close>: paths, the file system and the log of started commands as a state; a program step is
    a function of that state; the locale \<open>world_preorder\<close> gives, for the log, the files and one fixed file,
    that what every primitive keeps a composed step keeps, on return and on exceptions.
  \<^item> \<^verbatim>\<open>Shell\<close>: how a POSIX shell splits a line, and the locale \<open>faithful_quoting\<close> with the two quoting
    functions of the tooling as its instances.

  \<^bold>\<open>Components.\<close>
  \<^item> \<^verbatim>\<open>eest/scripts/generate-consensus-ssz-schemas.py\<close>: \<^verbatim>\<open>Ssz_Types\<close> (classes as the generator sees them, kinds,
    \<^verbatim>\<open>type_fingerprint\<close>, container walks), \<^verbatim>\<open>Ssz_Shapes\<close> (contexts, \<^verbatim>\<open>collect_shapes\<close>, naming),
    \<^verbatim>\<open>Ssz_Emit\<close> (\<^verbatim>\<open>render_type\<close>, codecs, ordering, modules, index), \<^verbatim>\<open>Ssz_Generator\<close> (\<^verbatim>\<open>main\<close> on the files),
    \<^verbatim>\<open>Ssz_Properties\<close>: emitting one declaration per fingerprint is sound, shapes are what they should be and have unique
    symbols, the declaration order is topological, modules import what they refer to, and generation is total up
    to the collision error.
  \<^item> \<^verbatim>\<open>eest/scripts/fetch-devnet-batches.py\<close>: \<^verbatim>\<open>Devnet_Batches\<close> (records, catalog, archive members, one download, the
    run), \<^verbatim>\<open>Devnet_Properties\<close>: nothing is extracted unverified, members stay below the extraction
    directory, a resolved corpus is contiguous and the latest one, validation is exact, the manifest is consistent.
  \<^item> \<^verbatim>\<open>eest/consume/evmz_consumer_common.py\<close>, \<^verbatim>\<open>evmz_consumer.py\<close>, \<^verbatim>\<open>evmz_zkevm_consumer.py\<close>:
    \<^verbatim>\<open>Fixture_Consumer\<close> (grouping, cached runs, verdicts; a session of calls is an inductive relation, and the locale
    \<open>caching_consumer\<close> is interpreted for both consumers), \<^verbatim>\<open>Consumer_Properties\<close>: a file is run once, verdicts
    are exact, crashes are reported for every test, grouping is by file.
  \<^item> \<^verbatim>\<open>eest/consume/evmz_differential.py\<close>: \<^verbatim>\<open>Differential\<close> (canonical outputs, comparison, evaluation, artifacts, the
    life cycle as an inductive relation, and the decision table it refines), \<^verbatim>\<open>Differential_Properties\<close>: an
    evaluation follows the table, accepted transitions agree with the authority, divergences are preserved,
    artifact directories are distinct.
  \<^item> \<^verbatim>\<open>eest/consume/evmz_fixture_source.py\<close>, \<^verbatim>\<open>evmz_transition_tool.py\<close>, \<^verbatim>\<open>eest/scripts/fill.py\<close>: \<^verbatim>\<open>Eest_Tools\<close>,
    \<^verbatim>\<open>Eest_Properties\<close>: exact counts, the validated output, the replay script and the launched arguments.
  \<^item> \<^verbatim>\<open>bench/scripts/report.py\<close>: \<^verbatim>\<open>Bench_Text\<close> (key-value lines, CSV, medians, tables, number formats),
    \<^verbatim>\<open>Bench_Report\<close> (commands, the two layers, the consistency check, checkpoint, rendering, \<^verbatim>\<open>main\<close>),
    \<^verbatim>\<open>Bench_Completion\<close> (total correctness against an invariant of the files, locale \<open>file_invariant\<close>),
    \<^verbatim>\<open>Bench_Properties\<close>: what is run and left on disk, completion with an answering toolchain, the exact check,
    the round trips of command and CSV files, medians, tables, and the run without times.

  \<^bold>\<open>Zig components.\<close> Machine integers are words of their width, a failed safety check is the
  outcome \<open>Trap\<close> and an error union the outcome \<open>Fails\<close> (\<^verbatim>\<open>Zig_Words\<close>).
  \<^item> \<^verbatim>\<open>src/code/scanner.zig\<close>, \<^verbatim>\<open>JumpDestMap.zig\<close>: \<^verbatim>\<open>Zig_Jumpdest\<close> (the bit set, the serial and the block scan,
    the reference of the tests), \<^verbatim>\<open>Zig_Jumpdest_Walks\<close> (pointer doubling, groups, masks and carries).
  \<^item> \<^verbatim>\<open>pkg/rlp/src\<close>: \<^verbatim>\<open>Zig_Rlp\<close> (decoder and cursor), \<^verbatim>\<open>Zig_Rlp_Codec\<close> (encoder, the item grammar the decoder
    refines), \<^verbatim>\<open>Zig_Rlp_Trees\<close> (whole values). \<^verbatim>\<open>Zig_Properties\<close>: the scans agree with the reference, and the
    decoder accepts exactly the canonical encodings and inverts the encoder.
  \<^item> \<^verbatim>\<open>src/transaction/blob.zig\<close>, \<^verbatim>\<open>settlement.zig\<close>, \<^verbatim>\<open>src/eth/block_rules.zig\<close>: \<^verbatim>\<open>Zig_Fees\<close> (base fee, blob fee series,
    settlement of gas and fees).
  \<^item> \<^verbatim>\<open>src/execution/accounting.zig\<close>: \<^verbatim>\<open>Zig_Gas\<close> (the frame's and the transaction's gas, stipends
    and code deposits, trees of activations as an inductive relation, with the locales
    \<open>gas_owner\<close> and \<open>gas_owners\<close> for what the two owners of gas promise each other).
  \<^item> \<^verbatim>\<open>src/transaction.zig\<close> and \<^verbatim>\<open>transaction/\<close>: \<^verbatim>\<open>Zig_Transactions\<close> (intrinsic gas, floor, validation, preparation),
    \<^verbatim>\<open>Zig_Forks\<close> (the transaction and settlement rules of the 21 forks), \<^verbatim>\<open>Zig_Preparation\<close> (an accepted
    transaction can be paid and settled), \<^verbatim>\<open>Zig_Pricing\<close> (the checked sums against formulas over the naturals).
  \<^item> \<^verbatim>\<open>src/transaction/transition.zig\<close>, \<^verbatim>\<open>src/executor.zig\<close>: \<^verbatim>\<open>Zig_Execution_Gas\<close> (gas before execution, root call and
    creation, conservation through every layer).
    \<^verbatim>\<open>Zig_Gas_Properties\<close>: accepted transactions settle, prices and fees are the formulas, gas is conserved.

  \<^item> \<^verbatim>\<open>src/uint256.zig\<close>: \<^verbatim>\<open>Zig_Limbs\<close> (checked arithmetic and indexing, loops over arrays, the value of limbs, two
    limbs by one), \<^verbatim>\<open>Zig_Knuth\<close> (one digit of Knuth's algorithm D: estimate, multiply and subtract, add
    back), \<^verbatim>\<open>Zig_Long_Division\<close> (normalization, quotient and remainder), \<^verbatim>\<open>Zig_Uint\<close> (the 256-bit operations).
    \<^verbatim>\<open>Zig_Machine_Properties\<close>: division, modular arithmetic and exponentiation are those of the numbers.

  \<^bold>\<open>Parameters.\<close> Started programs, \<^verbatim>\<open>json.loads\<close>, SHA-256 and BLAKE2s, the clock, environment variables, the
  test framework's models, serialisers and fixture source, \<^verbatim>\<open>difflib\<close>, the INI reader, and reading,
  rounding and printing of doubles are fields of environment records; every statement holds for all of
  them, and where a digest has to be injective on the values at hand this is a hypothesis. A program may change
  the files in any way unless a statement says otherwise.

  \<^bold>\<open>Totality.\<close> No definition uses fuel: loops are folds over lists the program has, and the recursive walks are
  structural or have a termination proof with the length of the text or the number of unvisited shapes as measure. The
  statements that a program finishes (\<^verbatim>\<open>generator_total\<close>, \<^verbatim>\<open>report_completes\<close>) are proved as such.
  The measures of the Zig loops are the code left, the bytes left of an encoding, the room left
  for the sum of the blob fee series, the trial digit, the exponent and the limbs left of a carry.

  \<^bold>\<open>Not modelled.\<close> Of the Zig library the instructions and the interpreter loop, the world state, the
  block transition, precompiles, tries, the typed RLP codec and stateless input, the addresses and
  allocation of memory, tracing, warm sets, and the storage and call prices of the forks; that the
  loop and the native contracts take only the steps of the activation relation is a hypothesis where it is used, and the
  relation leaves out a child settlement that is refused, which a budget the caller can cover excludes. The guests and the
  timing programs, which the Python programs see as processes;
  argument parsing and terminal output; the exception mapper of the transition tool (a table of regular
  expressions that the framework applies) and the removal of its temporary directory at garbage collection;
  symbolic links and permissions; Python's limit on the digits of decimal conversions and the field limit of
  \<^verbatim>\<open>csv\<close>; identity of NaN objects and the order of lists with NaN; characters beyond Latin-1.
\<close>

end
